(* ===== verification/Prelude.thy ===== *)
theory Prelude
  imports Main "HOL-Library.Word" "HOL-Library.FSet" "HOL-Library.Finite_Map"
    "HOL-Library.List_Lexorder" "HOL-Library.Product_Lexorder"
begin

text \<open>
  Shared ground of the development.

  \<^item> Results. A Rust \<^verbatim>\<open>Result<T, E>\<close> is a sum whose left side is a \<open>fault\<close>: \<open>Err e\<close> is a
    returned error, which on the Internet Computer commits whatever the message has
    written so far, and \<open>Trap\<close> is a panic or \<^verbatim>\<open>ic_cdk::trap\<close>, which rolls the message back.
  \<^item> Machine integers. \<^verbatim>\<open>u16\<close>, \<^verbatim>\<open>u32\<close>, \<^verbatim>\<open>u64\<close> and \<^verbatim>\<open>u128\<close> values are naturals
    below a power of two; every operation that can leave the range says so: \<open>checked_add\<close>
    and \<open>checked_mul\<close> (Rust's \<^verbatim>\<open>checked_*\<close>), \<open>sat_add\<close> (\<^verbatim>\<open>saturating_add\<close>), and
    \<open>add_or_trap\<close>, \<open>sub_or_trap\<close> for the plain operators, which panic in the release
    profile because the workspace sets \<^verbatim>\<open>overflow-checks = true\<close>. Truncated natural
    subtraction is exactly \<^verbatim>\<open>saturating_sub\<close>.
  \<^item> Stable maps. A \<^verbatim>\<open>StableBTreeMap\<close> is a finite map; its iteration order is the
    ascending order of its keys (\<open>fmkeys\<close>).
\<close>

section \<open>Automation\<close>

named_theorems result_simps "what a successful or failed chain of checks says"
named_theorems total_simps "how one write moves the total of a ledger map"

section \<open>Types\<close>

type_synonym byte = "8 word"
type_synonym bytes = "byte list"
type_synonym principal = bytes

datatype 'e fault = Trap | Err 'e

type_synonym ('e, 'a) res = "'e fault + 'a"

abbreviation fail :: "'e \<Rightarrow> ('e, 'a) res" where
  "fail e \<equiv> Inl (Err e)"

abbreviation u16_limit :: nat where "u16_limit \<equiv> 2 ^ 16"
abbreviation u32_limit :: nat where "u32_limit \<equiv> 2 ^ 32"
abbreviation u64_limit :: nat where "u64_limit \<equiv> 2 ^ 64"
abbreviation u128_limit :: nat where "u128_limit \<equiv> 2 ^ 128"

section \<open>The question mark operator and early returns\<close>

definition bind_res :: "('e, 'a) res \<Rightarrow> ('a \<Rightarrow> ('e, 'b) res) \<Rightarrow> ('e, 'b) res" where
  "bind_res m f = (case m of Inl e \<Rightarrow> Inl e | Inr x \<Rightarrow> f x)"

lemma bind_res_simps [simp]:
  "bind_res (Inl e) f = Inl e"
  "bind_res (Inr x) f = f x"
  by (simp_all add: bind_res_def)

lemma bind_res_Inr [result_simps]:
  "bind_res m f = Inr y \<longleftrightarrow> (\<exists>x. m = Inr x \<and> f x = Inr y)"
  by (cases m) auto

lemma bind_res_Inl [result_simps]:
  "bind_res m f = Inl e \<longleftrightarrow> m = Inl e \<or> (\<exists>x. m = Inr x \<and> f x = Inl e)"
  by (cases m) auto

definition ok_or :: "'e \<Rightarrow> 'a option \<Rightarrow> ('e, 'a) res" where
  "ok_or e v = (case v of None \<Rightarrow> fail e | Some x \<Rightarrow> Inr x)"

lemma ok_or_simps [simp]:
  "ok_or e None = fail e"
  "ok_or e (Some x) = Inr x"
  by (simp_all add: ok_or_def)

lemma ok_or_Inr [result_simps]: "ok_or e v = Inr x \<longleftrightarrow> v = Some x"
  by (cases v) auto

lemma ok_or_Inl [result_simps]: "ok_or e v = Inl e' \<longleftrightarrow> v = None \<and> e' = Err e"
  by (cases v) auto

definition map_err :: "('e \<Rightarrow> 'f) \<Rightarrow> ('e, 'a) res \<Rightarrow> ('f, 'a) res" where
  "map_err f m = (case m of Inl Trap \<Rightarrow> Inl Trap | Inl (Err e) \<Rightarrow> fail (f e) | Inr x \<Rightarrow> Inr x)"

lemma map_err_Inr [result_simps]: "map_err f m = Inr x \<longleftrightarrow> m = Inr x"
  by (auto simp: map_err_def split: sum.splits fault.splits)

lemma map_err_Trap [result_simps]: "map_err f m = Inl Trap \<longleftrightarrow> m = Inl Trap"
  by (auto simp: map_err_def split: sum.splits fault.splits)

lemma map_err_simps [simp]:
  "map_err f (Inr x) = Inr x" "map_err f (Inl Trap) = Inl Trap" "map_err f (fail e) = fail (f e)"
  by (simp_all add: map_err_def)

text \<open>A \<^verbatim>\<open>for\<close> loop whose body may return an error leaves at the first one.\<close>

fun for_each :: "('a \<Rightarrow> ('e, unit) res) \<Rightarrow> 'a list \<Rightarrow> ('e, unit) res" where
  "for_each f [] = Inr ()"
| "for_each f (x # xs) = bind_res (f x) (\<lambda>_. for_each f xs)"

lemma for_each_Inr [result_simps]:
  "for_each f xs = Inr u \<longleftrightarrow> (\<forall>x \<in> set xs. f x = Inr ())"
  by (induction xs) (auto simp: result_simps)

lemma for_each_Inl_cases:
  "for_each f xs = Inl e \<Longrightarrow> \<exists>x \<in> set xs. f x = Inl e"
  by (induction xs) (auto simp: result_simps)

section \<open>Machine integers\<close>

definition checked_add :: "nat \<Rightarrow> nat \<Rightarrow> nat \<Rightarrow> nat option" where
  "checked_add w a b = (if a + b < 2 ^ w then Some (a + b) else None)"

definition checked_mul :: "nat \<Rightarrow> nat \<Rightarrow> nat \<Rightarrow> nat option" where
  "checked_mul w a b = (if a * b < 2 ^ w then Some (a * b) else None)"

definition checked_sub :: "nat \<Rightarrow> nat \<Rightarrow> nat option" where
  "checked_sub a b = (if b \<le> a then Some (a - b) else None)"

definition sat_add :: "nat \<Rightarrow> nat \<Rightarrow> nat \<Rightarrow> nat" where
  "sat_add w a b = min (a + b) (2 ^ w - 1)"

definition sat_mul :: "nat \<Rightarrow> nat \<Rightarrow> nat \<Rightarrow> nat" where
  "sat_mul w a b = min (a * b) (2 ^ w - 1)"

definition abs_diff :: "nat \<Rightarrow> nat \<Rightarrow> nat" where
  "abs_diff a b = (if a < b then b - a else a - b)"

definition add_or_trap :: "nat \<Rightarrow> nat \<Rightarrow> nat \<Rightarrow> ('e, nat) res" where
  "add_or_trap w a b = (if a + b < 2 ^ w then Inr (a + b) else Inl Trap)"

definition sub_or_trap :: "nat \<Rightarrow> nat \<Rightarrow> ('e, nat) res" where
  "sub_or_trap a b = (if b \<le> a then Inr (a - b) else Inl Trap)"

definition mul_or_trap :: "nat \<Rightarrow> nat \<Rightarrow> nat \<Rightarrow> ('e, nat) res" where
  "mul_or_trap w a b = (if a * b < 2 ^ w then Inr (a * b) else Inl Trap)"

definition to_width :: "nat \<Rightarrow> nat \<Rightarrow> nat option" where
  "to_width w n = (if n < 2 ^ w then Some n else None)"

lemma checked_add_Some [result_simps]:
  "checked_add w a b = Some c \<longleftrightarrow> c = a + b \<and> a + b < 2 ^ w"
  by (auto simp: checked_add_def)

lemma checked_add_None [result_simps]: "checked_add w a b = None \<longleftrightarrow> 2 ^ w \<le> a + b"
  by (auto simp: checked_add_def)

lemma checked_mul_Some [result_simps]:
  "checked_mul w a b = Some c \<longleftrightarrow> c = a * b \<and> a * b < 2 ^ w"
  by (auto simp: checked_mul_def)

lemma checked_mul_None [result_simps]: "checked_mul w a b = None \<longleftrightarrow> 2 ^ w \<le> a * b"
  by (auto simp: checked_mul_def)

lemma checked_sub_Some [result_simps]: "checked_sub a b = Some c \<longleftrightarrow> c = a - b \<and> b \<le> a"
  by (auto simp: checked_sub_def)

lemma checked_sub_None [result_simps]: "checked_sub a b = None \<longleftrightarrow> a < b"
  by (auto simp: checked_sub_def)

lemma add_or_trap_Inr [result_simps]:
  "add_or_trap w a b = Inr c \<longleftrightarrow> c = a + b \<and> a + b < 2 ^ w"
  by (auto simp: add_or_trap_def)

lemma add_or_trap_Inl [result_simps]:
  "add_or_trap w a b = Inl e \<longleftrightarrow> e = Trap \<and> 2 ^ w \<le> a + b"
  by (auto simp: add_or_trap_def)

lemma sub_or_trap_Inr [result_simps]: "sub_or_trap a b = Inr c \<longleftrightarrow> c = a - b \<and> b \<le> a"
  by (auto simp: sub_or_trap_def)

lemma sub_or_trap_Inl [result_simps]: "sub_or_trap a b = Inl e \<longleftrightarrow> e = Trap \<and> a < b"
  by (auto simp: sub_or_trap_def)

lemma mul_or_trap_Inr [result_simps]:
  "mul_or_trap w a b = Inr c \<longleftrightarrow> c = a * b \<and> a * b < 2 ^ w"
  by (auto simp: mul_or_trap_def)

lemma mul_or_trap_Inl [result_simps]:
  "mul_or_trap w a b = Inl e \<longleftrightarrow> e = Trap \<and> 2 ^ w \<le> a * b"
  by (auto simp: mul_or_trap_def)

lemma to_width_Some [result_simps]: "to_width w n = Some m \<longleftrightarrow> m = n \<and> n < 2 ^ w"
  by (auto simp: to_width_def)

lemma to_width_None [result_simps]: "to_width w n = None \<longleftrightarrow> 2 ^ w \<le> n"
  by (auto simp: to_width_def)

lemma sat_add_exact [simp]: "a + b < 2 ^ w \<Longrightarrow> sat_add w a b = a + b"
  by (simp add: sat_add_def)

lemma sat_add_le: "sat_add w a b \<le> a + b"
  by (simp add: sat_add_def)

lemma abs_diff_le_iff: "abs_diff a b \<le> d \<longleftrightarrow> a \<le> b + d \<and> b \<le> a + d"
  by (auto simp: abs_diff_def)

section \<open>Ordered stable maps\<close>

definition fmget :: "'v \<Rightarrow> ('k, 'v) fmap \<Rightarrow> 'k \<Rightarrow> 'v" where
  "fmget d m k = (case fmlookup m k of None \<Rightarrow> d | Some v \<Rightarrow> v)"

definition fmlen :: "('k, 'v) fmap \<Rightarrow> nat" where
  "fmlen m = fcard (fmdom m)"

definition fmkeys :: "('k::linorder, 'v) fmap \<Rightarrow> 'k list" where
  "fmkeys m = sorted_list_of_fset (fmdom m)"

definition fmtotal :: "('k, nat) fmap \<Rightarrow> nat" where
  "fmtotal m = (\<Sum>k \<in> fset (fmdom m). fmget 0 m k)"

lemma fmget_upd [simp]: "fmget d (fmupd k v m) k' = (if k = k' then v else fmget d m k')"
  by (simp add: fmget_def)

lemma fmget_drop [simp]: "fmget d (fmdrop k m) k' = (if k = k' then d else fmget d m k')"
  by (simp add: fmget_def)

lemma fmget_empty [simp]: "fmget d fmempty k = d"
  by (simp add: fmget_def)

lemma fmget_notin: "k |\<notin>| fmdom m \<Longrightarrow> fmget d m k = d"
  by (simp add: fmget_def fmdom_notD)

lemma fmtotal_empty [simp]: "fmtotal fmempty = 0"
  by (simp add: fmtotal_def)

lemma fmtotal_split: "fmtotal m = fmget 0 m k + (\<Sum>x \<in> fset (fmdom m) - {k}. fmget 0 m x)"
proof (cases "k |\<in>| fmdom m")
  case True
  then show ?thesis
    by (simp add: fmtotal_def sum.remove)
next
  case False
  then have "fset (fmdom m) - {k} = fset (fmdom m)" by auto
  with False show ?thesis
    by (simp add: fmtotal_def fmget_notin)
qed

lemma fmget_le_total: "fmget 0 m k \<le> fmtotal m"
  by (subst fmtotal_split [of m k]) simp

lemma fmget2_le_total: "k \<noteq> l \<Longrightarrow> fmget 0 m k + fmget 0 m l \<le> fmtotal m"
proof -
  assume ne: "k \<noteq> l"
  have "fmget 0 m l \<le> (\<Sum>x \<in> fset (fmdom m) - {k}. fmget 0 m x)"
  proof (cases "l |\<in>| fmdom m")
    case True
    with ne show ?thesis by (intro member_le_sum) auto
  next
    case False
    then show ?thesis by (simp add: fmget_notin)
  qed
  then show ?thesis by (subst fmtotal_split [of m k]) simp
qed

lemma sum_agree_except:
  "(\<And>x. x \<noteq> k \<Longrightarrow> f x = g x) \<Longrightarrow> (\<Sum>x \<in> A - {k}. f x) = (\<Sum>x \<in> A - {k}. g x)"
  by (rule sum.cong) auto

lemma fmtotal_upd [total_simps]:
  "fmtotal (fmupd k v m) + fmget 0 m k = fmtotal m + v"
proof -
  have dom: "fset (fmdom (fmupd k v m)) - {k} = fset (fmdom m) - {k}" by auto
  have "fmtotal (fmupd k v m) = v + (\<Sum>x \<in> fset (fmdom m) - {k}. fmget 0 (fmupd k v m) x)"
    by (subst fmtotal_split [of _ k]) (simp add: dom)
  also have "\<dots> = v + (\<Sum>x \<in> fset (fmdom m) - {k}. fmget 0 m x)"
    by (simp only: add_left_cancel) (rule sum_agree_except, simp)
  finally show ?thesis
    by (subst fmtotal_split [of m k]) simp
qed

lemma fmtotal_drop [total_simps]:
  "fmtotal (fmdrop k m) + fmget 0 m k = fmtotal m"
proof -
  have dom: "fset (fmdom (fmdrop k m)) = fset (fmdom m) - {k}" by auto
  have "fmtotal (fmdrop k m) = (\<Sum>x \<in> fset (fmdom m) - {k}. fmget 0 (fmdrop k m) x)"
    by (simp only: fmtotal_def dom)
  also have "\<dots> = (\<Sum>x \<in> fset (fmdom m) - {k}. fmget 0 m x)"
    by (rule sum_agree_except) simp
  finally show ?thesis
    by (subst fmtotal_split [of m k]) simp
qed

lemma fmtotal_mono:
  assumes "\<And>k. fmget 0 m k \<le> fmget 0 n k"
  shows "fmtotal m \<le> fmtotal n"
proof -
  let ?U = "fset (fmdom m) \<union> fset (fmdom n)"
  have "fmtotal m = (\<Sum>k \<in> ?U. fmget 0 m k)" "fmtotal n = (\<Sum>k \<in> ?U. fmget 0 n k)"
    unfolding fmtotal_def by (intro sum.mono_neutral_left; auto simp: fmget_notin)+
  then show ?thesis using assms by (simp add: sum_mono)
qed

lemma sorted_list_of_fempty [simp]: "sorted_list_of_fset {||} = []"
  by (simp add: sorted_list_of_fset.rep_eq)

lemma set_fmkeys [simp]: "set (fmkeys m) = fset (fmdom m)"
  by (simp add: fmkeys_def)

lemma sorted_fmkeys [simp]: "sorted (fmkeys m)"
  by (simp add: fmkeys_def sorted_list_of_fset.rep_eq)

lemma distinct_fmkeys [simp]: "distinct (fmkeys m)"
  by (simp add: fmkeys_def sorted_list_of_fset.rep_eq)

lemma length_fmkeys [simp]: "length (fmkeys m) = fmlen m"
  by (simp add: fmkeys_def sorted_list_of_fset.rep_eq fmlen_def fcard.rep_eq)

lemma fmlen_upd: "fmlen (fmupd k v m) = (if k |\<in>| fmdom m then fmlen m else Suc (fmlen m))"
  by (simp add: fmlen_def fcard_finsert_if)

lemma fmlen_empty [simp]: "fmlen fmempty = 0"
  by (simp add: fmlen_def)

text \<open>A range scan that stops after \<open>n\<close> hits: a prefix of the sorted keys that satisfy a
  downward closed condition is a prefix of all keys.\<close>

lemma filter_take_sorted_subset: "set (take n (filter P xs)) \<subseteq> {x \<in> set xs. P x}"
  using set_take_subset by fastforce

lemma length_take_filter_le: "length (take n (filter P xs)) \<le> n"
  by simp

end
