(* ===== verification/Fee_Policy.thy ===== *)
theory Fee_Policy
  imports Prelude
begin

text \<open>
  The crate \<^verbatim>\<open>canisters/fee-policy\<close>: pure arithmetic that the pool, the treasury and the
  wallet share. Amounts are e8s. The section order is the file's: errors, constants, the
  governance parameters with their validators, the deposit and withdrawal previews, the private
  spend fee, the wallet quotes, the reserve split and the staking gate.
\<close>

section \<open>Errors\<close>

datatype fee_policy_error =
    PrivateCreditBelowMinimum nat nat
  | InsufficientPublicBalance nat nat
  | InsufficientAllowance nat nat
  | WithdrawalBelowMinimum nat nat
  | GrossAmountBelowFees nat nat
  | RecipientBelowMinimum nat nat
  | InsufficientPrivateBalance nat nat
  | InsufficientEscrow nat nat
  | MissingLedgerFeeForPublicTransfer
  | ArithmeticOverflow
  | InvalidFeeSplitBps nat nat nat
  | SpendFeeOracleUnavailable
  | BpsAboveOneHundredPercent string nat
  | FeeRateOutOfRange string nat nat nat
  | FeeAmountOutOfRange string nat nat nat
  | FeeRateChangeTooLarge string nat nat nat
  | FeeAmountChangeOutOfRatio string nat nat
  | FeeUpdateCooldownActive nat nat nat
  | FeeUpdateCooldownFieldMismatch nat nat
  | InvalidParamsEpoch nat nat
  | StakingSplitNonzeroWhileDisabled nat
  | StakingEnableBlockedRunwayUnwired

section \<open>Constants\<close>

definition FEE_MODEL_VERSION :: nat where "FEE_MODEL_VERSION = 1"

definition LAUNCH_SHIELD_FEE_BPS :: nat where "LAUNCH_SHIELD_FEE_BPS = 0"
definition LAUNCH_UNSHIELD_FEE_BPS :: nat where "LAUNCH_UNSHIELD_FEE_BPS = 0"
definition LAUNCH_SHIELD_FLAT_MINIMUM_FEE_E8S :: nat where
  "LAUNCH_SHIELD_FLAT_MINIMUM_FEE_E8S = 0"
definition LAUNCH_UNSHIELD_FLAT_MINIMUM_FEE_E8S :: nat where
  "LAUNCH_UNSHIELD_FLAT_MINIMUM_FEE_E8S = 0"

definition MAINNET_LAUNCH_SHIELD_FEE_BPS :: nat where "MAINNET_LAUNCH_SHIELD_FEE_BPS = 25"
definition MAINNET_LAUNCH_UNSHIELD_FEE_BPS :: nat where "MAINNET_LAUNCH_UNSHIELD_FEE_BPS = 25"
definition MAINNET_LAUNCH_SPEND_FEE_E8S :: nat where "MAINNET_LAUNCH_SPEND_FEE_E8S = 250000000"
definition MAINNET_LAUNCH_FLAT_MINIMUM_FEE_E8S :: nat where
  "MAINNET_LAUNCH_FLAT_MINIMUM_FEE_E8S = 250000000"

definition E8S_PER_STSH :: nat where "E8S_PER_STSH = 100000000"
definition BPS_DENOMINATOR :: nat where "BPS_DENOMINATOR = 10000"
definition FEE_BPS_FLOOR :: nat where "FEE_BPS_FLOOR = 1"
definition FEE_BPS_CEILING :: nat where "FEE_BPS_CEILING = 500"
definition MAX_BPS_CHANGE_PER_UPDATE :: nat where "MAX_BPS_CHANGE_PER_UPDATE = 100"
definition FLAT_MINIMUM_FEE_FLOOR_E8S :: nat where
  "FLAT_MINIMUM_FEE_FLOOR_E8S = E8S_PER_STSH div 10"
definition FLAT_MINIMUM_FEE_CEILING_E8S :: nat where
  "FLAT_MINIMUM_FEE_CEILING_E8S = 5 * E8S_PER_STSH"
definition PRIVATE_SPEND_FEE_FLOOR_E8S :: nat where
  "PRIVATE_SPEND_FEE_FLOOR_E8S = E8S_PER_STSH div 10"
definition PRIVATE_SPEND_FEE_CEILING_E8S :: nat where
  "PRIVATE_SPEND_FEE_CEILING_E8S = 5 * E8S_PER_STSH"
definition FEE_UPDATE_COOLDOWN_NS :: nat where
  "FEE_UPDATE_COOLDOWN_NS = 24 * 60 * 60 * 1000000000"
definition FEE_AMOUNT_MAX_RATIO_NUM :: nat where "FEE_AMOUNT_MAX_RATIO_NUM = 2"

lemmas launch_consts = FEE_MODEL_VERSION_def LAUNCH_SHIELD_FEE_BPS_def
  LAUNCH_UNSHIELD_FEE_BPS_def LAUNCH_SHIELD_FLAT_MINIMUM_FEE_E8S_def
  LAUNCH_UNSHIELD_FLAT_MINIMUM_FEE_E8S_def MAINNET_LAUNCH_SHIELD_FEE_BPS_def
  MAINNET_LAUNCH_UNSHIELD_FEE_BPS_def MAINNET_LAUNCH_SPEND_FEE_E8S_def
  MAINNET_LAUNCH_FLAT_MINIMUM_FEE_E8S_def

lemmas bound_consts = E8S_PER_STSH_def BPS_DENOMINATOR_def FEE_BPS_FLOOR_def FEE_BPS_CEILING_def
  MAX_BPS_CHANGE_PER_UPDATE_def FLAT_MINIMUM_FEE_FLOOR_E8S_def FLAT_MINIMUM_FEE_CEILING_E8S_def
  PRIVATE_SPEND_FEE_FLOOR_E8S_def PRIVATE_SPEND_FEE_CEILING_E8S_def FEE_UPDATE_COOLDOWN_NS_def
  FEE_AMOUNT_MAX_RATIO_NUM_def

section \<open>Governance parameters\<close>

datatype spend_fee_mode = FixedStsh | XdrPegged

record governance_fee_params =
  protocol_shielding_fee_stsh :: nat
  protocol_unshielding_fee_stsh :: nat
  protocol_private_spend_fee_stsh :: nat
  minimum_withdrawal_gross :: nat
  minimum_recipient_amount :: nat
  minimum_private_credit :: nat
  fee_reference_price_stsh_per_icp_e8s :: nat
  fee_safety_margin_bps :: nat
  max_fee_change_bps_per_update :: nat
  fee_update_cooldown_ns :: nat
  operations_split_bps :: nat
  insurance_split_bps :: nat
  staking_rewards_split_bps :: nat
  staking_rewards_enabled :: bool
  minimum_treasury_runway_months :: nat
  target_treasury_runway_months :: nat
  shield_fee_bps_opt :: "nat option"
  unshield_fee_bps_opt :: "nat option"
  shield_flat_minimum_fee_e8s_opt :: "nat option"
  unshield_flat_minimum_fee_e8s_opt :: "nat option"
  spend_fee_mode_opt :: "spend_fee_mode option"
  fee_model_version_opt :: "nat option"
  params_epoch_opt :: "nat option"

definition unwrap_or :: "'a option \<Rightarrow> 'a \<Rightarrow> 'a" where
  "unwrap_or v d = (case v of None \<Rightarrow> d | Some x \<Rightarrow> x)"

lemma unwrap_or_simps [simp]: "unwrap_or None d = d" "unwrap_or (Some x) d = x"
  by (simp_all add: unwrap_or_def)

definition launch_defaults :: governance_fee_params where
  "launch_defaults =
    \<lparr> protocol_shielding_fee_stsh = 0,
      protocol_unshielding_fee_stsh = 0,
      protocol_private_spend_fee_stsh = 0,
      minimum_withdrawal_gross = 0,
      minimum_recipient_amount = 0,
      minimum_private_credit = 0,
      fee_reference_price_stsh_per_icp_e8s = 0,
      fee_safety_margin_bps = 12500,
      max_fee_change_bps_per_update = 1000,
      fee_update_cooldown_ns = 24 * 60 * 60 * 1000000000,
      operations_split_bps = 8500,
      insurance_split_bps = 1500,
      staking_rewards_split_bps = 0,
      staking_rewards_enabled = False,
      minimum_treasury_runway_months = 6,
      target_treasury_runway_months = 12,
      shield_fee_bps_opt = Some LAUNCH_SHIELD_FEE_BPS,
      unshield_fee_bps_opt = Some LAUNCH_UNSHIELD_FEE_BPS,
      shield_flat_minimum_fee_e8s_opt = Some LAUNCH_SHIELD_FLAT_MINIMUM_FEE_E8S,
      unshield_flat_minimum_fee_e8s_opt = Some LAUNCH_UNSHIELD_FLAT_MINIMUM_FEE_E8S,
      spend_fee_mode_opt = Some FixedStsh,
      fee_model_version_opt = Some FEE_MODEL_VERSION,
      params_epoch_opt = Some 0 \<rparr>"

definition mainnet_launch_config :: governance_fee_params where
  "mainnet_launch_config = launch_defaults
    \<lparr> protocol_private_spend_fee_stsh := MAINNET_LAUNCH_SPEND_FEE_E8S,
      shield_fee_bps_opt := Some MAINNET_LAUNCH_SHIELD_FEE_BPS,
      unshield_fee_bps_opt := Some MAINNET_LAUNCH_UNSHIELD_FEE_BPS,
      shield_flat_minimum_fee_e8s_opt := Some MAINNET_LAUNCH_FLAT_MINIMUM_FEE_E8S,
      unshield_flat_minimum_fee_e8s_opt := Some MAINNET_LAUNCH_FLAT_MINIMUM_FEE_E8S,
      spend_fee_mode_opt := Some FixedStsh,
      params_epoch_opt := Some 1 \<rparr>"

subsection \<open>Resolver accessors\<close>

definition shield_fee_bps :: "governance_fee_params \<Rightarrow> nat" where
  "shield_fee_bps p = unwrap_or (shield_fee_bps_opt p) LAUNCH_SHIELD_FEE_BPS"

definition unshield_fee_bps :: "governance_fee_params \<Rightarrow> nat" where
  "unshield_fee_bps p = unwrap_or (unshield_fee_bps_opt p) LAUNCH_UNSHIELD_FEE_BPS"

definition shield_flat_minimum_fee_e8s :: "governance_fee_params \<Rightarrow> nat" where
  "shield_flat_minimum_fee_e8s p =
     unwrap_or (shield_flat_minimum_fee_e8s_opt p) LAUNCH_SHIELD_FLAT_MINIMUM_FEE_E8S"

definition unshield_flat_minimum_fee_e8s :: "governance_fee_params \<Rightarrow> nat" where
  "unshield_flat_minimum_fee_e8s p =
     unwrap_or (unshield_flat_minimum_fee_e8s_opt p) LAUNCH_UNSHIELD_FLAT_MINIMUM_FEE_E8S"

definition spend_fee_mode_of :: "governance_fee_params \<Rightarrow> spend_fee_mode" where
  "spend_fee_mode_of p = unwrap_or (spend_fee_mode_opt p) FixedStsh"

definition fee_model_version :: "governance_fee_params \<Rightarrow> nat" where
  "fee_model_version p = unwrap_or (fee_model_version_opt p) FEE_MODEL_VERSION"

definition params_epoch :: "governance_fee_params \<Rightarrow> nat" where
  "params_epoch p = unwrap_or (params_epoch_opt p) 0"

lemmas accessor_defs = shield_fee_bps_def unshield_fee_bps_def shield_flat_minimum_fee_e8s_def
  unshield_flat_minimum_fee_e8s_def spend_fee_mode_of_def fee_model_version_def params_epoch_def

subsection \<open>Value fees\<close>

definition value_fee :: "nat \<Rightarrow> nat \<Rightarrow> nat \<Rightarrow> (fee_policy_error, nat) res" where
  "value_fee amount bps flat_minimum =
     bind_res (ok_or ArithmeticOverflow (checked_mul 128 amount bps)) (\<lambda>prod.
       let by_bps = prod div 10000 in Inr (max flat_minimum by_bps))"

definition shield_protocol_fee ::
  "governance_fee_params \<Rightarrow> nat \<Rightarrow> (fee_policy_error, nat) res" where
  "shield_protocol_fee p amount =
     value_fee amount (shield_fee_bps p) (shield_flat_minimum_fee_e8s p)"

definition unshield_protocol_fee ::
  "governance_fee_params \<Rightarrow> nat \<Rightarrow> (fee_policy_error, nat) res" where
  "unshield_protocol_fee p amount =
     value_fee amount (unshield_fee_bps p) (unshield_flat_minimum_fee_e8s p)"

lemma value_fee_Inr [result_simps]:
  "value_fee a b m = Inr f \<longleftrightarrow> f = max m (a * b div 10000) \<and> a * b < 2 ^ 128"
  by (auto simp: value_fee_def Let_def result_simps)

lemma value_fee_Inl [result_simps]:
  "value_fee a b m = Inl e \<longleftrightarrow> e = Err ArithmeticOverflow \<and> 2 ^ 128 \<le> a * b"
  by (auto simp: value_fee_def Let_def result_simps)

subsection \<open>Validators of a submitted parameter set\<close>

definition validate_split_bps :: "governance_fee_params \<Rightarrow> (fee_policy_error, unit) res" where
  "validate_split_bps p =
     bind_res (ok_or ArithmeticOverflow
       (case checked_add 32 (operations_split_bps p) (insurance_split_bps p) of
          None \<Rightarrow> None
        | Some v \<Rightarrow> checked_add 32 v (staking_rewards_split_bps p))) (\<lambda>total.
     if total \<noteq> 10000 then
       fail (InvalidFeeSplitBps (operations_split_bps p) (insurance_split_bps p)
               (staking_rewards_split_bps p))
     else Inr ())"

definition validate_staking_posture :: "governance_fee_params \<Rightarrow> (fee_policy_error, unit) res" where
  "validate_staking_posture p =
    (if \<not> staking_rewards_enabled p \<and> staking_rewards_split_bps p \<noteq> 0 then
       fail (StakingSplitNonzeroWhileDisabled (staking_rewards_split_bps p))
     else if staking_rewards_enabled p then fail StakingEnableBlockedRunwayUnwired
     else Inr ())"

text \<open>The loops over the field tables of \<^verbatim>\<open>validate_fee_bounds\<close> and
  \<^verbatim>\<open>validate_fee_change_from\<close>: one body and one table for rates, one for amounts.\<close>

definition check_rate_bounds :: "string \<times> nat \<Rightarrow> (fee_policy_error, unit) res" where
  "check_rate_bounds = (\<lambda>(field, bps).
     if bps > BPS_DENOMINATOR then fail (BpsAboveOneHundredPercent field bps)
     else if bps < FEE_BPS_FLOOR \<or> bps > FEE_BPS_CEILING then
       fail (FeeRateOutOfRange field bps FEE_BPS_FLOOR FEE_BPS_CEILING)
     else Inr ())"

definition check_amount_bounds :: "string \<times> nat \<times> nat \<times> nat \<Rightarrow> (fee_policy_error, unit) res"
  where
  "check_amount_bounds = (\<lambda>(field, amount, flr, ceiling).
     if amount < flr \<or> amount > ceiling then fail (FeeAmountOutOfRange field amount flr ceiling)
     else Inr ())"

definition validate_fee_bounds :: "governance_fee_params \<Rightarrow> (fee_policy_error, unit) res" where
  "validate_fee_bounds p =
     bind_res (for_each check_rate_bounds
       [(''shield_fee_bps'', shield_fee_bps p), (''unshield_fee_bps'', unshield_fee_bps p)]) (\<lambda>_.
     bind_res (for_each check_amount_bounds
       [(''shield_flat_minimum_fee_e8s'', shield_flat_minimum_fee_e8s p,
           FLAT_MINIMUM_FEE_FLOOR_E8S, FLAT_MINIMUM_FEE_CEILING_E8S),
        (''unshield_flat_minimum_fee_e8s'', unshield_flat_minimum_fee_e8s p,
           FLAT_MINIMUM_FEE_FLOOR_E8S, FLAT_MINIMUM_FEE_CEILING_E8S),
        (''protocol_private_spend_fee_stsh'', protocol_private_spend_fee_stsh p,
           PRIVATE_SPEND_FEE_FLOOR_E8S, PRIVATE_SPEND_FEE_CEILING_E8S)]) (\<lambda>_.
     if fee_update_cooldown_ns p \<noteq> FEE_UPDATE_COOLDOWN_NS then
       fail (FeeUpdateCooldownFieldMismatch (fee_update_cooldown_ns p) FEE_UPDATE_COOLDOWN_NS)
     else Inr ()))"

definition check_rate_change :: "string \<times> nat \<times> nat \<Rightarrow> (fee_policy_error, unit) res" where
  "check_rate_change = (\<lambda>(field, current_bps, requested_bps).
     let delta = abs_diff requested_bps current_bps in
     if delta > MAX_BPS_CHANGE_PER_UPDATE then
       fail (FeeRateChangeTooLarge field current_bps requested_bps MAX_BPS_CHANGE_PER_UPDATE)
     else Inr ())"

definition check_amount_change :: "string \<times> nat \<times> nat \<Rightarrow> (fee_policy_error, unit) res" where
  "check_amount_change = (\<lambda>(field, current_amount, requested).
     bind_res (ok_or ArithmeticOverflow (checked_mul 128 current_amount FEE_AMOUNT_MAX_RATIO_NUM))
       (\<lambda>up.
     bind_res (ok_or ArithmeticOverflow (checked_mul 128 requested FEE_AMOUNT_MAX_RATIO_NUM))
       (\<lambda>down.
     if requested > up \<or> down < current_amount then
       fail (FeeAmountChangeOutOfRatio field current_amount requested)
     else Inr ())))"

definition validate_fee_change_from ::
  "governance_fee_params \<Rightarrow> governance_fee_params \<Rightarrow> (fee_policy_error, unit) res" where
  "validate_fee_change_from p current =
     bind_res (for_each check_rate_change
       [(''shield_fee_bps'', shield_fee_bps current, shield_fee_bps p),
        (''unshield_fee_bps'', unshield_fee_bps current, unshield_fee_bps p)]) (\<lambda>_.
     for_each check_amount_change
       [(''shield_flat_minimum_fee_e8s'',
           shield_flat_minimum_fee_e8s current, shield_flat_minimum_fee_e8s p),
        (''unshield_flat_minimum_fee_e8s'',
           unshield_flat_minimum_fee_e8s current, unshield_flat_minimum_fee_e8s p),
        (''protocol_private_spend_fee_stsh'',
           protocol_private_spend_fee_stsh current, protocol_private_spend_fee_stsh p)])"

definition matches_mainnet_launch_config :: "governance_fee_params \<Rightarrow> bool" where
  "matches_mainnet_launch_config p = (let target = mainnet_launch_config in
     protocol_shielding_fee_stsh p = protocol_shielding_fee_stsh target
     \<and> protocol_unshielding_fee_stsh p = protocol_unshielding_fee_stsh target
     \<and> protocol_private_spend_fee_stsh p = protocol_private_spend_fee_stsh target
     \<and> minimum_withdrawal_gross p = minimum_withdrawal_gross target
     \<and> minimum_recipient_amount p = minimum_recipient_amount target
     \<and> minimum_private_credit p = minimum_private_credit target
     \<and> fee_reference_price_stsh_per_icp_e8s p = fee_reference_price_stsh_per_icp_e8s target
     \<and> fee_safety_margin_bps p = fee_safety_margin_bps target
     \<and> max_fee_change_bps_per_update p = max_fee_change_bps_per_update target
     \<and> fee_update_cooldown_ns p = fee_update_cooldown_ns target
     \<and> operations_split_bps p = operations_split_bps target
     \<and> insurance_split_bps p = insurance_split_bps target
     \<and> staking_rewards_split_bps p = staking_rewards_split_bps target
     \<and> staking_rewards_enabled p = staking_rewards_enabled target
     \<and> minimum_treasury_runway_months p = minimum_treasury_runway_months target
     \<and> target_treasury_runway_months p = target_treasury_runway_months target
     \<and> shield_fee_bps p = shield_fee_bps target
     \<and> unshield_fee_bps p = unshield_fee_bps target
     \<and> shield_flat_minimum_fee_e8s p = shield_flat_minimum_fee_e8s target
     \<and> unshield_flat_minimum_fee_e8s p = unshield_flat_minimum_fee_e8s target
     \<and> spend_fee_mode_of p = spend_fee_mode_of target
     \<and> fee_model_version p = fee_model_version target
     \<and> params_epoch p = params_epoch target)"

subsection \<open>What the validators accept\<close>

lemma validate_split_bps_Inr [result_simps]:
  "validate_split_bps p = Inr () \<longleftrightarrow>
     operations_split_bps p + insurance_split_bps p + staking_rewards_split_bps p = 10000"
  by (auto simp: validate_split_bps_def checked_add_def)

lemma validate_split_bps_no_trap [simp]: "validate_split_bps p \<noteq> Inl Trap"
  by (auto simp: validate_split_bps_def checked_add_def)

lemma validate_staking_posture_Inr [result_simps]:
  "validate_staking_posture p = Inr () \<longleftrightarrow>
     \<not> staking_rewards_enabled p \<and> staking_rewards_split_bps p = 0"
  by (simp add: validate_staking_posture_def)

text \<open>The bands the setter enforces, as one predicate on the resolved values.\<close>

definition fee_bounds_ok :: "governance_fee_params \<Rightarrow> bool" where
  "fee_bounds_ok p \<longleftrightarrow>
     1 \<le> shield_fee_bps p \<and> shield_fee_bps p \<le> 500
     \<and> 1 \<le> unshield_fee_bps p \<and> unshield_fee_bps p \<le> 500
     \<and> 10000000 \<le> shield_flat_minimum_fee_e8s p \<and> shield_flat_minimum_fee_e8s p \<le> 500000000
     \<and> 10000000 \<le> unshield_flat_minimum_fee_e8s p
     \<and> unshield_flat_minimum_fee_e8s p \<le> 500000000
     \<and> 10000000 \<le> protocol_private_spend_fee_stsh p
     \<and> protocol_private_spend_fee_stsh p \<le> 500000000
     \<and> fee_update_cooldown_ns p = 86400000000000"

lemma validate_fee_bounds_Inr [result_simps]:
  "validate_fee_bounds p = Inr () \<longleftrightarrow> fee_bounds_ok p"
  by (auto simp: validate_fee_bounds_def fee_bounds_ok_def result_simps check_rate_bounds_def
      check_amount_bounds_def bound_consts split: if_splits)

text \<open>One call moves a rate by at most 100 points and an amount by at most a factor of two.\<close>

definition rate_step_ok :: "nat \<Rightarrow> nat \<Rightarrow> bool" where
  "rate_step_ok old new \<longleftrightarrow> new \<le> old + 100 \<and> old \<le> new + 100"

definition amount_step_ok :: "nat \<Rightarrow> nat \<Rightarrow> bool" where
  "amount_step_ok old new \<longleftrightarrow> new \<le> 2 * old \<and> old \<le> 2 * new"

lemma check_rate_change_Inr [result_simps]:
  "check_rate_change (f, old, new) = Inr () \<longleftrightarrow> rate_step_ok old new"
  by (auto simp: check_rate_change_def rate_step_ok_def bound_consts Let_def abs_diff_def)

lemma check_amount_change_Inr [result_simps]:
  "check_amount_change (f, old, new) = Inr () \<longleftrightarrow>
     amount_step_ok old new \<and> 2 * old < 2 ^ 128 \<and> 2 * new < 2 ^ 128"
  by (auto simp: check_amount_change_def amount_step_ok_def bound_consts result_simps
      mult.commute split: if_splits)

lemma validate_fee_change_from_Inr:
  "validate_fee_change_from p cur = Inr () \<Longrightarrow>
     rate_step_ok (shield_fee_bps cur) (shield_fee_bps p)
     \<and> rate_step_ok (unshield_fee_bps cur) (unshield_fee_bps p)
     \<and> amount_step_ok (shield_flat_minimum_fee_e8s cur) (shield_flat_minimum_fee_e8s p)
     \<and> amount_step_ok (unshield_flat_minimum_fee_e8s cur) (unshield_flat_minimum_fee_e8s p)
     \<and> amount_step_ok (protocol_private_spend_fee_stsh cur) (protocol_private_spend_fee_stsh p)"
  by (auto simp: validate_fee_change_from_def result_simps)

section \<open>Fee buckets\<close>

datatype fee_bucket = Shielding | Unshielding | PrivateSpend | OperationsReserve
  | InsuranceReserve | StakingRewardsReserve

section \<open>Deposit\<close>

record deposit_preview =
  dp_gross_shield_amount :: nat
  dp_stsh_icrc_transfer_from_fee :: nat
  dp_protocol_shielding_fee :: nat
  dp_private_balance_credit :: nat
  dp_pool_transfer_in :: nat
  dp_total_public_debit :: nat

definition compute_deposit_preview ::
  "nat \<Rightarrow> nat \<Rightarrow> governance_fee_params \<Rightarrow> (fee_policy_error, deposit_preview) res" where
  "compute_deposit_preview gross ledger_fee params =
     bind_res (shield_protocol_fee params gross) (\<lambda>protocol_shielding_fee.
     let private_balance_credit = gross in
     if private_balance_credit < minimum_private_credit params then
       fail (PrivateCreditBelowMinimum private_balance_credit (minimum_private_credit params))
     else
     bind_res (ok_or ArithmeticOverflow (checked_add 128 gross protocol_shielding_fee))
       (\<lambda>pool_transfer_in.
     bind_res (ok_or ArithmeticOverflow (checked_add 128 pool_transfer_in ledger_fee))
       (\<lambda>total_public_debit.
     Inr \<lparr> dp_gross_shield_amount = gross,
           dp_stsh_icrc_transfer_from_fee = ledger_fee,
           dp_protocol_shielding_fee = protocol_shielding_fee,
           dp_private_balance_credit = private_balance_credit,
           dp_pool_transfer_in = pool_transfer_in,
           dp_total_public_debit = total_public_debit \<rparr>)))"

definition precheck_deposit ::
  "nat \<Rightarrow> nat \<Rightarrow> nat \<Rightarrow> nat \<Rightarrow> governance_fee_params
     \<Rightarrow> (fee_policy_error, deposit_preview) res" where
  "precheck_deposit gross ledger_fee public_balance allowance params =
     bind_res (compute_deposit_preview gross ledger_fee params) (\<lambda>preview.
     if public_balance < dp_total_public_debit preview then
       fail (InsufficientPublicBalance (dp_total_public_debit preview) public_balance)
     else if allowance < dp_total_public_debit preview then
       fail (InsufficientAllowance (dp_total_public_debit preview) allowance)
     else Inr preview)"

section \<open>Withdrawal\<close>

record withdrawal_preview =
  wp_withdraw_gross_amount :: nat
  wp_stsh_icrc_transfer_fee :: nat
  wp_protocol_unshielding_fee :: nat
  wp_recipient_net_amount :: nat
  wp_ledger_debit_from_pool :: nat

definition compute_withdrawal_preview ::
  "nat \<Rightarrow> nat \<Rightarrow> governance_fee_params \<Rightarrow> (fee_policy_error, withdrawal_preview) res" where
  "compute_withdrawal_preview gross ledger_fee params =
     bind_res (unshield_protocol_fee params gross) (\<lambda>protocol_unshielding_fee.
     if gross < minimum_withdrawal_gross params then
       fail (WithdrawalBelowMinimum gross (minimum_withdrawal_gross params))
     else
     bind_res (ok_or ArithmeticOverflow (checked_add 128 ledger_fee protocol_unshielding_fee))
       (\<lambda>total_fee.
     if gross \<le> total_fee then fail (GrossAmountBelowFees gross total_fee)
     else
     bind_res (sub_or_trap gross total_fee) (\<lambda>recipient_net_amount.
     if recipient_net_amount < minimum_recipient_amount params then
       fail (RecipientBelowMinimum recipient_net_amount (minimum_recipient_amount params))
     else
     bind_res (ok_or ArithmeticOverflow (checked_add 128 recipient_net_amount ledger_fee))
       (\<lambda>ledger_debit_from_pool.
     Inr \<lparr> wp_withdraw_gross_amount = gross,
           wp_stsh_icrc_transfer_fee = ledger_fee,
           wp_protocol_unshielding_fee = protocol_unshielding_fee,
           wp_recipient_net_amount = recipient_net_amount,
           wp_ledger_debit_from_pool = ledger_debit_from_pool \<rparr>))))"

definition precheck_withdrawal ::
  "nat \<Rightarrow> nat \<Rightarrow> nat \<Rightarrow> nat \<Rightarrow> governance_fee_params
     \<Rightarrow> (fee_policy_error, withdrawal_preview) res" where
  "precheck_withdrawal gross ledger_fee private_balance pool_escrow_balance params =
     bind_res (compute_withdrawal_preview gross ledger_fee params) (\<lambda>preview.
     if private_balance < wp_withdraw_gross_amount preview then
       fail (InsufficientPrivateBalance (wp_withdraw_gross_amount preview) private_balance)
     else if pool_escrow_balance < wp_ledger_debit_from_pool preview then
       fail (InsufficientEscrow (wp_ledger_debit_from_pool preview) pool_escrow_balance)
     else Inr preview)"

definition suggested_minimum_withdrawal_gross ::
  "nat \<Rightarrow> nat \<Rightarrow> nat \<Rightarrow> nat \<Rightarrow> (fee_policy_error, nat) res" where
  "suggested_minimum_withdrawal_gross ledger_fee protocol_fee fixed_floor safety_multiple =
     bind_res (ok_or ArithmeticOverflow (checked_add 128 ledger_fee protocol_fee)) (\<lambda>total_fee.
     bind_res (ok_or ArithmeticOverflow (checked_mul 128 total_fee safety_multiple)) (\<lambda>scaled.
     Inr (max fixed_floor scaled)))"

record withdrawal_accounting =
  wa_private_liability_decrease :: nat
  wa_escrow_backing_decrease :: nat
  wa_operations_reserve_increase :: nat
  wa_ledger_transfer_out :: nat

definition withdrawal_accounting_delta :: "withdrawal_preview \<Rightarrow> withdrawal_accounting" where
  "withdrawal_accounting_delta preview =
     \<lparr> wa_private_liability_decrease = wp_withdraw_gross_amount preview,
       wa_escrow_backing_decrease = wp_withdraw_gross_amount preview,
       wa_operations_reserve_increase = wp_protocol_unshielding_fee preview,
       wa_ledger_transfer_out = wp_ledger_debit_from_pool preview \<rparr>"

section \<open>Private spend\<close>

record private_spend_fee_preview =
  sp_protocol_private_spend_fee :: nat
  sp_stsh_icrc_transfer_fee :: nat
  sp_total_fee :: nat
  sp_includes_public_ledger_movement :: bool

definition compute_private_spend_fee_preview ::
  "bool \<Rightarrow> nat option \<Rightarrow> governance_fee_params
     \<Rightarrow> (fee_policy_error, private_spend_fee_preview) res" where
  "compute_private_spend_fee_preview includes_public ledger_fee_opt params =
     bind_res (case spend_fee_mode_of params of
         FixedStsh \<Rightarrow> Inr (protocol_private_spend_fee_stsh params)
       | XdrPegged \<Rightarrow> fail SpendFeeOracleUnavailable) (\<lambda>protocol_private_spend_fee.
     bind_res (if includes_public then ok_or MissingLedgerFeeForPublicTransfer ledger_fee_opt
               else Inr 0) (\<lambda>ledger_fee.
     bind_res (ok_or ArithmeticOverflow (checked_add 128 protocol_private_spend_fee ledger_fee))
       (\<lambda>total_fee.
     Inr \<lparr> sp_protocol_private_spend_fee = protocol_private_spend_fee,
           sp_stsh_icrc_transfer_fee = ledger_fee,
           sp_total_fee = total_fee,
           sp_includes_public_ledger_movement = includes_public \<rparr>)))"

section \<open>Wallet quotes\<close>

datatype fee_asset = Stsh | Icp | Xdr

record fee_quote =
  fq_asset :: fee_asset
  fq_protocol_fee_e8s :: nat
  fq_ledger_fee_e8s :: nat
  fq_reserve_e8s :: nat
  fq_gross_amount_e8s :: nat
  fq_net_amount_e8s :: nat
  fq_fee_model_version :: nat
  fq_params_epoch :: nat

definition shield_fee_quote :: "deposit_preview \<Rightarrow> governance_fee_params \<Rightarrow> fee_quote" where
  "shield_fee_quote preview params =
     \<lparr> fq_asset = Stsh,
       fq_protocol_fee_e8s = dp_protocol_shielding_fee preview,
       fq_ledger_fee_e8s = dp_stsh_icrc_transfer_from_fee preview,
       fq_reserve_e8s = 0,
       fq_gross_amount_e8s = dp_gross_shield_amount preview,
       fq_net_amount_e8s = dp_private_balance_credit preview,
       fq_fee_model_version = fee_model_version params,
       fq_params_epoch = params_epoch params \<rparr>"

definition unshield_fee_quote :: "withdrawal_preview \<Rightarrow> governance_fee_params \<Rightarrow> fee_quote" where
  "unshield_fee_quote preview params =
     \<lparr> fq_asset = Stsh,
       fq_protocol_fee_e8s = wp_protocol_unshielding_fee preview,
       fq_ledger_fee_e8s = wp_stsh_icrc_transfer_fee preview,
       fq_reserve_e8s = 0,
       fq_gross_amount_e8s = wp_withdraw_gross_amount preview,
       fq_net_amount_e8s = wp_recipient_net_amount preview,
       fq_fee_model_version = fee_model_version params,
       fq_params_epoch = params_epoch params \<rparr>"

definition spend_fee_quote :: "private_spend_fee_preview \<Rightarrow> governance_fee_params \<Rightarrow> fee_quote"
  where
  "spend_fee_quote preview params =
     \<lparr> fq_asset = Stsh,
       fq_protocol_fee_e8s = sp_protocol_private_spend_fee preview,
       fq_ledger_fee_e8s = sp_stsh_icrc_transfer_fee preview,
       fq_reserve_e8s = 0,
       fq_gross_amount_e8s = 0,
       fq_net_amount_e8s = 0,
       fq_fee_model_version = fee_model_version params,
       fq_params_epoch = params_epoch params \<rparr>"

section \<open>Reserve split\<close>

record reserve_split =
  rs_operations_reserve :: nat
  rs_insurance_reserve :: nat
  rs_staking_rewards_reserve :: nat

text \<open>The shares in basis points after the staking share of a disabled programme has been
  redistributed; the first half of \<^verbatim>\<open>split_protocol_fee_to_reserves\<close>.\<close>

definition effective_split_bps ::
  "governance_fee_params \<Rightarrow> (fee_policy_error, nat \<times> nat \<times> nat) res" where
  "effective_split_bps params =
    (if staking_rewards_enabled params then
       Inr (operations_split_bps params, insurance_split_bps params,
            staking_rewards_split_bps params)
     else
       let ops = operations_split_bps params;
           ins = insurance_split_bps params;
           staking = staking_rewards_split_bps params in
       bind_res (add_or_trap 128 ops ins) (\<lambda>ops_ins_total.
       if ops_ins_total = 0 then Inr (10000, 0, 0)
       else
         bind_res (mul_or_trap 128 staking ops) (\<lambda>prod.
         let extra_ops = prod div ops_ins_total in
         bind_res (sub_or_trap staking extra_ops) (\<lambda>extra_ins.
         bind_res (add_or_trap 128 ops extra_ops) (\<lambda>ops'.
         bind_res (add_or_trap 128 ins extra_ins) (\<lambda>ins'.
         Inr (ops', ins', 0)))))))"

definition split_protocol_fee_to_reserves ::
  "nat \<Rightarrow> governance_fee_params \<Rightarrow> (fee_policy_error, reserve_split) res" where
  "split_protocol_fee_to_reserves fee_amount params =
     bind_res (validate_split_bps params) (\<lambda>_.
     bind_res (effective_split_bps params) (\<lambda>(ops_bps, ins_bps, staking_bps).
     bind_res (ok_or ArithmeticOverflow (checked_mul 128 fee_amount ops_bps)) (\<lambda>o_prod.
     let operations_reserve = o_prod div 10000 in
     bind_res (ok_or ArithmeticOverflow (checked_mul 128 fee_amount ins_bps)) (\<lambda>i_prod.
     let insurance_reserve = i_prod div 10000 in
     bind_res (if staking_bps = 0 then Inr 0
               else bind_res (ok_or ArithmeticOverflow (checked_mul 128 fee_amount staking_bps))
                 (\<lambda>s_prod. Inr (s_prod div 10000))) (\<lambda>staking_rewards_reserve.
     bind_res (add_or_trap 128 operations_reserve insurance_reserve) (\<lambda>two.
     bind_res (add_or_trap 128 two staking_rewards_reserve) (\<lambda>allocated.
     bind_res (sub_or_trap fee_amount allocated) (\<lambda>remainder.
     bind_res (add_or_trap 128 operations_reserve remainder) (\<lambda>operations_reserve'.
     Inr \<lparr> rs_operations_reserve = operations_reserve',
           rs_insurance_reserve = insurance_reserve,
           rs_staking_rewards_reserve = staking_rewards_reserve \<rparr>)))))))))"

section \<open>Runway and the staking gate\<close>

definition compute_treasury_runway_months :: "nat \<Rightarrow> nat \<Rightarrow> nat option" where
  "compute_treasury_runway_months available_operating_reserve monthly_runway_cost =
    (if monthly_runway_cost = 0 then None
     else Some (available_operating_reserve div monthly_runway_cost))"

definition staking_distribution_allowed :: "governance_fee_params \<Rightarrow> nat option \<Rightarrow> bool" where
  "staking_distribution_allowed params runway_months =
    (if \<not> staking_rewards_enabled params then False
     else case runway_months of
         Some months \<Rightarrow> months \<ge> minimum_treasury_runway_months params
       | None \<Rightarrow> False)"

section \<open>The contract of a protocol fee schedule\<close>

text \<open>What the pool relies on when it prices an exit or an entry: the fee never falls below the
  flat minimum, never falls when the amount grows, and an amount that can be priced keeps every
  smaller amount priceable. \<open>total_fee\<close> is the cost of a list of operations.\<close>

locale fee_schedule =
  fixes fee :: "governance_fee_params \<Rightarrow> nat \<Rightarrow> (fee_policy_error, nat) res"
    and flat :: "governance_fee_params \<Rightarrow> nat"
  assumes fee_ge_flat: "fee p a = Inr f \<Longrightarrow> flat p \<le> f"
    and fee_mono: "a \<le> b \<Longrightarrow> fee p a = Inr f \<Longrightarrow> fee p b = Inr g \<Longrightarrow> f \<le> g"
    and fee_downward: "a \<le> b \<Longrightarrow> fee p b = Inr g \<Longrightarrow> \<exists>f. fee p a = Inr f"
    and fee_no_trap: "fee p a \<noteq> Inl Trap"
begin

definition fee_of :: "governance_fee_params \<Rightarrow> nat \<Rightarrow> nat" where
  "fee_of p a = (case fee p a of Inl _ \<Rightarrow> 0 | Inr f \<Rightarrow> f)"

lemma fee_of_Inr: "fee p a = Inr f \<Longrightarrow> fee_of p a = f"
  by (simp add: fee_of_def)

lemma parts_priceable:
  assumes "fee p (sum_list xs) = Inr f" "x \<in> set xs"
  shows "\<exists>g. fee p x = Inr g \<and> flat p \<le> g \<and> g \<le> f"
proof -
  have le: "x \<le> sum_list xs" using assms(2) by (simp add: member_le_sum_list)
  then obtain g where g: "fee p x = Inr g" using fee_downward assms(1) by blast
  moreover have "g \<le> f" using fee_mono [OF le g assms(1)] .
  ultimately show ?thesis using fee_ge_flat by blast
qed

lemma splitting_costs_floor:
  assumes "fee p (sum_list xs) = Inr f"
  shows "length xs * flat p \<le> (\<Sum>x \<leftarrow> xs. fee_of p x)"
proof -
  have ge: "\<forall>x \<in> set xs. flat p \<le> fee_of p x"
    using parts_priceable [OF assms] fee_of_Inr by metis
  have "length ys * flat p \<le> (\<Sum>x \<leftarrow> ys. fee_of p x)" if "set ys \<subseteq> set xs" for ys
    using that ge by (induction ys) (auto intro: add_mono)
  then show ?thesis by simp
qed

end

lemma value_fee_mono:
  "a \<le> b \<Longrightarrow> value_fee a r m = Inr f \<Longrightarrow> value_fee b r m = Inr g \<Longrightarrow> f \<le> g"
  by (auto simp: result_simps intro: max.mono div_le_mono mult_le_mono1
      simp del: max.bounded_iff)

lemma value_fee_downward:
  "a \<le> b \<Longrightarrow> value_fee b r m = Inr g \<Longrightarrow> \<exists>f. value_fee a r m = Inr f"
  by (auto simp: result_simps intro: le_less_trans [OF mult_le_mono1])

interpretation shield_fees: fee_schedule shield_protocol_fee shield_flat_minimum_fee_e8s
  by unfold_locales
    (auto simp: shield_protocol_fee_def result_simps dest: value_fee_mono value_fee_downward
      intro: value_fee_mono)

interpretation unshield_fees: fee_schedule unshield_protocol_fee unshield_flat_minimum_fee_e8s
  by unfold_locales
    (auto simp: unshield_protocol_fee_def result_simps dest: value_fee_mono value_fee_downward
      intro: value_fee_mono)

section \<open>Deposits\<close>

lemma compute_deposit_preview_Inr [result_simps]:
  "compute_deposit_preview g l p = Inr v \<longleftrightarrow>
     (\<exists>f. shield_protocol_fee p g = Inr f \<and> minimum_private_credit p \<le> g \<and> g + f + l < 2 ^ 128
       \<and> v = \<lparr> dp_gross_shield_amount = g, dp_stsh_icrc_transfer_from_fee = l,
              dp_protocol_shielding_fee = f, dp_private_balance_credit = g,
              dp_pool_transfer_in = g + f, dp_total_public_debit = g + f + l \<rparr>)"
  by (auto simp: compute_deposit_preview_def Let_def result_simps split: if_splits)

lemma deposit_preview_no_trap: "compute_deposit_preview g l p \<noteq> Inl Trap"
  by (auto simp: compute_deposit_preview_def Let_def result_simps shield_protocol_fee_def)

text \<open>An accepted deposit credits the note with exactly the requested amount and debits the
  depositor exactly that amount plus the value fee plus the ledger fee; the precheck accepts
  exactly when the amount can be priced, reaches the minimum credit, fits the machine width, and
  both the balance and the allowance cover the total debit.\<close>

theorem precheck_deposit_spec:
  "precheck_deposit gross l balance allowance p = Inr v \<longleftrightarrow>
     (\<exists>f. shield_protocol_fee p gross = Inr f
       \<and> minimum_private_credit p \<le> gross
       \<and> gross + f + l < u128_limit
       \<and> gross + f + l \<le> min balance allowance
       \<and> v = \<lparr> dp_gross_shield_amount = gross, dp_stsh_icrc_transfer_from_fee = l,
              dp_protocol_shielding_fee = f, dp_private_balance_credit = gross,
              dp_pool_transfer_in = gross + f, dp_total_public_debit = gross + f + l \<rparr>)"
proof -
  have rhs: "(\<exists>f. shield_protocol_fee p gross = Inr f \<and> minimum_private_credit p \<le> gross
       \<and> gross + f + l < u128_limit \<and> gross + f + l \<le> min balance allowance
       \<and> v = \<lparr> dp_gross_shield_amount = gross, dp_stsh_icrc_transfer_from_fee = l,
              dp_protocol_shielding_fee = f, dp_private_balance_credit = gross,
              dp_pool_transfer_in = gross + f, dp_total_public_debit = gross + f + l \<rparr>)
     \<longleftrightarrow> compute_deposit_preview gross l p = Inr v
         \<and> dp_total_public_debit v \<le> min balance allowance"
    by (auto simp: compute_deposit_preview_Inr)
  show ?thesis
    unfolding rhs by (cases "compute_deposit_preview gross l p") (auto simp: precheck_deposit_def)
qed

section \<open>Withdrawals\<close>

lemma compute_withdrawal_preview_Inr [result_simps]:
  "compute_withdrawal_preview g l p = Inr v \<longleftrightarrow>
     (\<exists>f. unshield_protocol_fee p g = Inr f \<and> minimum_withdrawal_gross p \<le> g
       \<and> l + f < 2 ^ 128 \<and> l + f < g \<and> minimum_recipient_amount p \<le> g - (l + f)
       \<and> g - f < 2 ^ 128
       \<and> v = \<lparr> wp_withdraw_gross_amount = g, wp_stsh_icrc_transfer_fee = l,
              wp_protocol_unshielding_fee = f, wp_recipient_net_amount = g - (l + f),
              wp_ledger_debit_from_pool = g - f \<rparr>)"
proof (cases "unshield_protocol_fee p g")
  case (Inr f)
  then show ?thesis
    by (auto simp: compute_withdrawal_preview_def checked_add_def sub_or_trap_def)
qed (simp add: compute_withdrawal_preview_def)

lemma withdrawal_preview_no_trap: "compute_withdrawal_preview g l p \<noteq> Inl Trap"
  by (auto simp: compute_withdrawal_preview_def result_simps unshield_protocol_fee_def
      split: if_splits)

lemma mainnet_exit_preview:
  "compute_withdrawal_preview 100000000000 1000000 mainnet_launch_config = Inr
     \<lparr> wp_withdraw_gross_amount = 100000000000, wp_stsh_icrc_transfer_fee = 1000000,
       wp_protocol_unshielding_fee = 250000000, wp_recipient_net_amount = 99749000000,
       wp_ledger_debit_from_pool = 99750000000 \<rparr>"
  by (simp add: compute_withdrawal_preview_Inr unshield_protocol_fee_def value_fee_Inr
      mainnet_launch_config_def launch_defaults_def accessor_defs launch_consts)

text \<open>Every accepted withdrawal conserves value: the gross amount is exactly what the recipient
  nets plus the ledger fee plus the protocol fee; the recipient receives a positive amount of at
  least the governed minimum; and the accounting delta is balanced, since what leaves the
  liability (and the backing) is what the ledger moves plus what the operations reserve gains.\<close>

theorem precheck_withdrawal_conserves:
  assumes "precheck_withdrawal gross l private_balance escrow p = Inr v"
  shows "gross = wp_recipient_net_amount v + l + wp_protocol_unshielding_fee v
     \<and> 0 < wp_recipient_net_amount v
     \<and> minimum_recipient_amount p \<le> wp_recipient_net_amount v
     \<and> gross \<le> private_balance
     \<and> wa_private_liability_decrease (withdrawal_accounting_delta v) = gross
     \<and> wa_escrow_backing_decrease (withdrawal_accounting_delta v) = gross
     \<and> wa_ledger_transfer_out (withdrawal_accounting_delta v)
         + wa_operations_reserve_increase (withdrawal_accounting_delta v) = gross
     \<and> wa_ledger_transfer_out (withdrawal_accounting_delta v) \<le> escrow"
  using assms
  by (auto simp: precheck_withdrawal_def result_simps withdrawal_accounting_delta_def
      split: if_splits)

theorem precheck_withdrawal_conserves_witness:
  "\<exists>v. precheck_withdrawal 100000000000 1000000 100000000000 99750000000 mainnet_launch_config
         = Inr v
     \<and> wp_recipient_net_amount v = 99749000000
     \<and> 100000000000 = wp_recipient_net_amount v + 1000000 + wp_protocol_unshielding_fee v"
proof -
  let ?v = "\<lparr> wp_withdraw_gross_amount = 100000000000, wp_stsh_icrc_transfer_fee = 1000000,
      wp_protocol_unshielding_fee = 250000000, wp_recipient_net_amount = 99749000000,
      wp_ledger_debit_from_pool = 99750000000 \<rparr>"
  have run: "precheck_withdrawal 100000000000 1000000 100000000000 99750000000
      mainnet_launch_config = Inr ?v"
    by (simp add: precheck_withdrawal_def mainnet_exit_preview)
  show ?thesis
    using precheck_withdrawal_conserves [OF run] run by auto
qed

text \<open>The full private balance can always be withdrawn: when the previewed exit is priceable,
  withdrawing the whole balance passes the private balance check, so only the escrow can refuse
  it.\<close>

theorem full_balance_withdrawal:
  assumes "compute_withdrawal_preview balance l p = Inr v"
  shows "precheck_withdrawal balance l balance escrow p =
     (if escrow < balance - wp_protocol_unshielding_fee v
      then fail (InsufficientEscrow (balance - wp_protocol_unshielding_fee v) escrow)
      else Inr v)"
proof -
  have "wp_withdraw_gross_amount v = balance
      \<and> wp_ledger_debit_from_pool v = balance - wp_protocol_unshielding_fee v"
    using assms by (auto simp: result_simps)
  then show ?thesis using assms by (simp add: precheck_withdrawal_def)
qed

theorem full_balance_withdrawal_witness:
  "precheck_withdrawal 100000000000 1000000 100000000000 0 mainnet_launch_config
     = fail (InsufficientEscrow 99750000000 0)"
proof -
  show ?thesis
    using full_balance_withdrawal [OF mainnet_exit_preview, of 0] by simp
qed

section \<open>Reserve split\<close>

lemma effective_split_bps_sum:
  assumes "operations_split_bps p + insurance_split_bps p + staking_rewards_split_bps p = 10000"
  shows "\<exists>a b c. effective_split_bps p = Inr (a, b, c) \<and> a + b + c = 10000
           \<and> (\<not> staking_rewards_enabled p \<longrightarrow> c = 0)"
proof (cases "staking_rewards_enabled p")
  case True
  with assms show ?thesis by (simp add: effective_split_bps_def)
next
  case False
  let ?o = "operations_split_bps p" and ?i = "insurance_split_bps p"
    and ?s = "staking_rewards_split_bps p"
  have prod: "?s * ?o \<le> 10000 * 10000"
    using assms by (intro mult_le_mono) auto
  have share: "?s * ?o div (?o + ?i) \<le> ?s" if "?o + ?i \<noteq> 0"
    using that by (simp add: div_le_mono order.trans [OF div_le_mono [of "?s * ?o" "?s * (?o + ?i)"]])
  show ?thesis
  proof (cases "?o + ?i = 0")
    case True
    with False show ?thesis
      by (simp add: effective_split_bps_def add_or_trap_def Let_def)
  next
    case nz: False
    have le: "?s * ?o div (?o + ?i) \<le> ?s" by (rule share [OF nz])
    show ?thesis
      using False nz le prod assms
      by (auto simp: effective_split_bps_def add_or_trap_def mul_or_trap_def sub_or_trap_def Let_def)
  qed
qed

lemma floor_shares_le:
  "a + b + c = (10000::nat) \<Longrightarrow> fee * a div 10000 + fee * b div 10000 + fee * c div 10000 \<le> fee"
proof -
  assume sum: "a + b + c = 10000"
  have "fee * a + fee * b + fee * c = fee * 10000"
    using sum by (metis distrib_left)
  moreover have "10000 * (x div 10000) \<le> x" for x :: nat by simp
  note this [of "fee * a"] this [of "fee * b"] this [of "fee * c"]
  ultimately show ?thesis by linarith
qed

lemma split_run:
  assumes "validate_split_bps p = Inr ()" "effective_split_bps p = Inr (a, b, c)"
    "a + b + c = 10000" "fee < 2 ^ 128"
  shows "split_protocol_fee_to_reserves fee p =
    (if fee * a < 2 ^ 128 \<and> fee * b < 2 ^ 128 \<and> fee * c < 2 ^ 128
     then Inr \<lparr> rs_operations_reserve = fee - (fee * b div 10000 + fee * c div 10000),
                rs_insurance_reserve = fee * b div 10000,
                rs_staking_rewards_reserve = fee * c div 10000 \<rparr>
     else fail ArithmeticOverflow)"
proof -
  have "fee - x < 2 ^ 128" for x using assms(4) by simp
  then show ?thesis
    using assms floor_shares_le [OF assms(3), of fee]
    by (simp add: split_protocol_fee_to_reserves_def checked_mul_def add_or_trap_def
        sub_or_trap_def Let_def)
qed

text \<open>The reserve split never drops or creates value and never panics: for every machine
  amount it either reports an error (the shares do not add up to 100%, or a product overflows) or
  returns three buckets that add up to the fee exactly, and no income reaches the staking bucket
  while the staking programme is disabled, whatever shares are stored.\<close>

theorem split_conserves:
  assumes "fee < u128_limit"
  shows "case split_protocol_fee_to_reserves fee p of
       Inl Trap \<Rightarrow> False
     | Inl (Err e) \<Rightarrow> validate_split_bps p = fail e
         \<or> e = ArithmeticOverflow \<and> u128_limit \<le> fee * 10000
     | Inr s \<Rightarrow>
         rs_operations_reserve s + rs_insurance_reserve s + rs_staking_rewards_reserve s = fee
         \<and> (\<not> staking_rewards_enabled p \<longrightarrow> rs_staking_rewards_reserve s = 0)"
proof (cases "validate_split_bps p")
  case (Inl e)
  then show ?thesis
    using validate_split_bps_no_trap [of p]
    by (auto simp: split_protocol_fee_to_reserves_def split: fault.splits
        simp del: validate_split_bps_no_trap)
next
  case (Inr u)
  then have sum: "operations_split_bps p + insurance_split_bps p + staking_rewards_split_bps p
      = 10000"
    by (simp add: result_simps)
  obtain a b c where eff: "effective_split_bps p = Inr (a, b, c)" "a + b + c = 10000"
      "\<not> staking_rewards_enabled p \<longrightarrow> c = 0"
    using effective_split_bps_sum [OF sum] by blast
  have big: "fee * a \<le> fee * 10000" "fee * b \<le> fee * 10000" "fee * c \<le> fee * 10000"
    using eff(2) by (intro mult_le_mono2; simp)+
  show ?thesis
    using split_run [of p a b c fee] Inr eff assms order.trans [OF _ big(1)]
      order.trans [OF _ big(2)] order.trans [OF _ big(3)] floor_shares_le [OF eff(2), of fee]
    by (auto simp: not_less simp del: power_numeral)
qed

theorem split_conserves_witness:
  "\<exists>s. split_protocol_fee_to_reserves 250000001 mainnet_launch_config = Inr s
     \<and> rs_operations_reserve s + rs_insurance_reserve s + rs_staking_rewards_reserve s = 250000001"
proof -
  have "split_protocol_fee_to_reserves 250000001 mainnet_launch_config = Inr
     \<lparr> rs_operations_reserve = 212500001, rs_insurance_reserve = 37500000,
       rs_staking_rewards_reserve = 0 \<rparr>"
    by (simp add: split_protocol_fee_to_reserves_def effective_split_bps_def validate_split_bps_def
        mainnet_launch_config_def launch_defaults_def checked_add_def checked_mul_def
        add_or_trap_def sub_or_trap_def mul_or_trap_def)
  then show ?thesis
    using split_conserves [of 250000001 mainnet_launch_config] by simp
qed

text \<open>With shares that add up to 100% and staking disabled, the split of any amount whose
  scaled value fits the machine succeeds, and the insurance reserve gets its proportional share
  (with the staking share redistributed by weight) rounded down, operations the rest.\<close>

theorem split_disabled_run:
  assumes "operations_split_bps p + insurance_split_bps p + staking_rewards_split_bps p = 10000"
    and "\<not> staking_rewards_enabled p"
    and "0 < operations_split_bps p + insurance_split_bps p"
    and "fee * 10000 < u128_limit"
  defines "extra \<equiv> staking_rewards_split_bps p * operations_split_bps p
      div (operations_split_bps p + insurance_split_bps p)"
  defines "ins \<equiv> insurance_split_bps p + (staking_rewards_split_bps p - extra)"
  shows "split_protocol_fee_to_reserves fee p = Inr
     \<lparr> rs_operations_reserve = fee - fee * ins div 10000,
       rs_insurance_reserve = fee * ins div 10000,
       rs_staking_rewards_reserve = 0 \<rparr>"
proof -
  obtain a b c where eff: "effective_split_bps p = Inr (a, b, c)" "a + b + c = 10000" "c = 0"
    using effective_split_bps_sum [OF assms(1)] assms(2) by blast
  have b: "b = ins"
    using eff(1) assms(2,3) by (auto simp: effective_split_bps_def ins_def extra_def result_simps
        Let_def split: if_splits)
  have "fee * a \<le> fee * 10000" "fee * b \<le> fee * 10000"
    using eff(2) by (intro mult_le_mono2; simp)+
  then have "fee * a < 2 ^ 128" "fee * b < 2 ^ 128" "fee < 2 ^ 128"
    using assms(4) by linarith+
  then show ?thesis
    using split_run [OF _ eff(1,2), of fee] assms(1) eff(3) b by (simp add: result_simps)
qed

theorem split_disabled_run_witness:
  "split_protocol_fee_to_reserves 100
      (launch_defaults \<lparr> operations_split_bps := 6000, insurance_split_bps := 2000,
         staking_rewards_split_bps := 2000 \<rparr>)
   = Inr \<lparr> rs_operations_reserve = 75, rs_insurance_reserve = 25, rs_staking_rewards_reserve = 0 \<rparr>"
  using split_disabled_run [of "launch_defaults \<lparr> operations_split_bps := 6000,
      insurance_split_bps := 2000, staking_rewards_split_bps := 2000 \<rparr>" 100]
  by (simp add: launch_defaults_def)

text \<open>Splitting an exit or an entry into parts never evades the flat minimum: when the whole
  amount is priceable, every part is, each part pays at least the flat minimum and at most the fee
  of the whole.\<close>

theorem parts_pay_the_floor:
  assumes "unshield_protocol_fee p (sum_list xs) = Inr f" "x \<in> set xs"
  shows "\<exists>g. unshield_protocol_fee p x = Inr g \<and> unshield_flat_minimum_fee_e8s p \<le> g \<and> g \<le> f"
  using assms by (rule unshield_fees.parts_priceable)

theorem parts_pay_the_floor_witness:
  "\<exists>g. unshield_protocol_fee mainnet_launch_config 100000000000 = Inr g \<and> 250000000 \<le> g
     \<and> g \<le> 500000000"
  using parts_pay_the_floor [of mainnet_launch_config "[100000000000, 100000000000]" 500000000
      100000000000]
  by (simp add: unshield_protocol_fee_def value_fee_Inr mainnet_launch_config_def
      launch_defaults_def accessor_defs launch_consts)

end
