(* ===== verification/Byte_Codec.thy ===== *)
theory Byte_Codec
  imports Prelude
begin

text \<open>
  Byte strings as the canisters lay them out: \<open>be_bytes k n\<close> and \<open>le_bytes k n\<close> are Rust's
  \<^verbatim>\<open>to_be_bytes\<close> and \<^verbatim>\<open>to_le_bytes\<close> of a \<open>k\<close>-byte unsigned integer, \<open>be_nat\<close> and
  \<open>le_nat\<close> the inverse readings, and \<open>slice off len\<close> the sub-slice
  \<^verbatim>\<open>&bytes[off..off + len]\<close>. The lemmas give the round trips, the widths, the bounds and
  injectivity, which every codec of the development rests on.
\<close>

fun be_bytes :: "nat \<Rightarrow> nat \<Rightarrow> bytes" where
  "be_bytes 0 n = []"
| "be_bytes (Suc k) n = be_bytes k (n div 256) @ [of_nat n]"

definition be_nat :: "bytes \<Rightarrow> nat" where
  "be_nat bs = foldl (\<lambda>acc b. acc * 256 + unat b) 0 bs"

fun le_bytes :: "nat \<Rightarrow> nat \<Rightarrow> bytes" where
  "le_bytes 0 n = []"
| "le_bytes (Suc k) n = of_nat n # le_bytes k (n div 256)"

fun le_nat :: "bytes \<Rightarrow> nat" where
  "le_nat [] = 0"
| "le_nat (b # bs) = unat b + 256 * le_nat bs"

definition slice :: "nat \<Rightarrow> nat \<Rightarrow> 'a list \<Rightarrow> 'a list" where
  "slice off len xs = take len (drop off xs)"

lemma unat_byte_of_nat: "unat (of_nat n :: byte) = n mod 256"
  by (simp add: unat_of_nat)

lemma unat_byte_lt: "unat (b :: byte) < 256"
  by (rule order.strict_trans2 [OF unsigned_less]) simp

lemma byte_256_zero: "(256 :: byte) = 0"
  by simp

lemma length_be_bytes [simp]: "length (be_bytes k n) = k"
  by (induction k arbitrary: n) auto

lemma length_le_bytes [simp]: "length (le_bytes k n) = k"
  by (induction k arbitrary: n) auto

lemma be_nat_snoc: "be_nat (bs @ [b]) = be_nat bs * 256 + unat b"
  by (simp add: be_nat_def)

lemma be_nat_Nil [simp]: "be_nat [] = 0"
  by (simp add: be_nat_def)

lemma div_mod_256: "n div 256 mod 256 ^ k * 256 + n mod 256 = n mod (256 * 256 ^ k)" for n :: nat
  by (metis add.commute mod_mult2_eq mult.commute)

lemma be_nat_be_bytes: "be_nat (be_bytes k n) = n mod 256 ^ k"
  by (induction k arbitrary: n) (simp_all add: be_nat_snoc unat_byte_of_nat div_mod_256)

lemma be_nat_be_bytes_id [simp]: "n < 256 ^ k \<Longrightarrow> be_nat (be_bytes k n) = n"
  by (simp add: be_nat_be_bytes)

lemma be_nat_lt: "be_nat bs < 256 ^ length bs"
proof (induction bs rule: rev_induct)
  case (snoc b bs)
  then show ?case using unat_byte_lt [of b] by (simp add: be_nat_snoc)
qed simp

lemma be_bytes_be_nat [simp]: "be_bytes (length bs) (be_nat bs) = bs"
proof (induction bs rule: rev_induct)
  case (snoc b bs)
  have "(of_nat (be_nat bs * 256 + unat b) :: byte) = b"
    by (simp add: byte_256_zero)
  with snoc show ?case
    using unat_byte_lt [of b] by (simp add: be_nat_snoc del: of_nat_add of_nat_mult)
qed simp

lemma be_bytes_inj: "be_bytes k m = be_bytes k n \<Longrightarrow> m < 256 ^ k \<Longrightarrow> n < 256 ^ k \<Longrightarrow> m = n"
  using be_nat_be_bytes_id by metis

lemma le_nat_le_bytes: "le_nat (le_bytes k n) = n mod 256 ^ k"
  by (induction k arbitrary: n)
    (simp_all add: unat_byte_of_nat mult.commute [of 256] add.commute [of _ "_ * 256"] div_mod_256)

lemma le_nat_le_bytes_id [simp]: "n < 256 ^ k \<Longrightarrow> le_nat (le_bytes k n) = n"
  by (simp add: le_nat_le_bytes)

lemma le_nat_lt: "le_nat bs < 256 ^ length bs"
proof (induction bs)
  case (Cons b bs)
  then show ?case using unat_byte_lt [of b] by simp
qed simp

lemma le_bytes_le_nat [simp]: "le_bytes (length bs) (le_nat bs) = bs"
proof (induction bs)
  case (Cons b bs)
  have "(of_nat (unat b + 256 * le_nat bs) :: byte) = b"
    by (simp add: byte_256_zero)
  with Cons show ?case
    using unat_byte_lt [of b] by (simp del: of_nat_add of_nat_mult)
qed simp

lemma le_nat_inj: "le_nat xs = le_nat ys \<Longrightarrow> length xs = length ys \<Longrightarrow> xs = ys"
  by (metis le_bytes_le_nat)

lemma le_nat_append: "le_nat (xs @ ys) = le_nat xs + 256 ^ length xs * le_nat ys"
  by (induction xs) (simp_all add: algebra_simps)

lemma le_nat_zeros [simp]: "le_nat (replicate n 0) = 0"
  by (induction n) auto

lemma length_slice: "off + len \<le> length xs \<Longrightarrow> length (slice off len xs) = len"
  by (simp add: slice_def)

lemma slice_append_left: "length xs = off \<Longrightarrow> slice off (length ys) (xs @ ys @ zs) = ys"
  by (simp add: slice_def)

lemma slice_at: "length xs = off \<Longrightarrow> length ys = len \<Longrightarrow> slice off len (xs @ ys @ zs) = ys"
  by (simp add: slice_def)

lemma slice_at_end: "length xs = off \<Longrightarrow> length ys = len \<Longrightarrow> slice off len (xs @ ys) = ys"
  by (simp add: slice_def)

lemma slice_0 [simp]: "slice 0 (length xs) (xs @ ys) = xs"
  by (simp add: slice_def)

text \<open>Fixed-width records stored one after the other.\<close>

lemma concat_fixed_length:
  "\<forall>x \<in> set xs. length (f x) = w \<Longrightarrow> length (concat (map f xs)) = w * length xs"
  by (induction xs) auto

lemma slice_skip: "length xs = w \<Longrightarrow> slice (w + m) n (xs @ ys) = slice m n ys"
  by (simp add: slice_def)

lemma slice_within: "j + n \<le> length xs \<Longrightarrow> slice j n (xs @ ys) = slice j n xs"
  by (simp add: slice_def)

lemma slice_concat_fixed:
  "\<forall>x \<in> set xs. length (f x) = w \<Longrightarrow> i < length xs \<Longrightarrow> j + n \<le> w
     \<Longrightarrow> slice (w * i + j) n (concat (map f xs)) = slice j n (f (xs ! i))"
proof (induction xs arbitrary: i)
  case (Cons x xs)
  then show ?case
    by (cases i) (simp_all add: slice_within slice_skip add.assoc)
qed simp

lemma concat_slices_fixed:
  "length xs = w * n \<Longrightarrow> concat (map (\<lambda>i. slice (w * i) w xs) [0..<n]) = xs"
proof (induction n arbitrary: xs)
  case (Suc n)
  have "concat (map (\<lambda>i. slice (w * i) w (take (w * n) xs)) [0..<n]) = take (w * n) xs"
    using Suc.prems by (intro Suc.IH) simp
  moreover have "slice (w * i) w (take (w * n) xs) = slice (w * i) w xs" if "i < n" for i
  proof -
    from that have "w * Suc i \<le> w * n" by (intro mult_le_mono2) simp
    then have "w + w * i \<le> w * n" by simp
    then show ?thesis by (simp add: slice_def take_drop min_def)
  qed
  then have "map (\<lambda>i. slice (w * i) w (take (w * n) xs)) [0..<n]
      = map (\<lambda>i. slice (w * i) w xs) [0..<n]" by simp
  moreover have "take (w * n) xs @ slice (w * n) w xs = xs"
    using Suc.prems by (simp add: slice_def)
  ultimately show ?case by simp
qed simp

text \<open>Big-endian bytes order like the integers they encode, and fixed-width prefixes are compared
  first: what the range scans over stable maps rest on.\<close>

lemma be_nat_Cons: "be_nat (b # bs) = unat b * 256 ^ length bs + be_nat bs"
proof (induction bs rule: rev_induct)
  case (snoc x xs)
  have "be_nat (b # xs @ [x]) = be_nat (b # xs) * 256 + unat x"
    using be_nat_snoc [of "b # xs" x] by simp
  with snoc show ?case by (simp add: be_nat_snoc algebra_simps)
qed (simp add: be_nat_def)

lemma be_nat_less_iff: "length xs = length ys \<Longrightarrow> be_nat xs < be_nat ys \<longleftrightarrow> xs < ys"
proof (induction xs arbitrary: ys)
  case (Cons x xs)
  then obtain y zs where ys: "ys = y # zs" "length zs = length xs" by (cases ys) auto
  have lt: "be_nat xs < 256 ^ length xs" "be_nat zs < 256 ^ length xs"
    using be_nat_lt [of xs] be_nat_lt [of zs] ys(2) by auto
  have step: "a * c + u < b * c + v" if "a < b" "u < c" for a b c u v :: nat
  proof -
    from that(1) have "Suc a * c \<le> b * c" by (intro mult_le_mono1) simp
    with that(2) show ?thesis by simp
  qed
  consider "x < y" | "x = y" | "y < x" by fastforce
  then show ?case
  proof cases
    case 1
    then have "unat x < unat y" by (simp add: word_less_nat_alt)
    from step [OF this lt(1), of "be_nat zs"] 1 show ?thesis by (simp add: ys be_nat_Cons)
  next
    case 2
    with Cons.IH [of zs] ys show ?thesis by (simp add: be_nat_Cons)
  next
    case 3
    then have "unat y < unat x" by (simp add: word_less_nat_alt)
    from step [OF this lt(2), of "be_nat xs"] 3 show ?thesis by (auto simp: ys be_nat_Cons)
  qed
qed simp

lemma be_bytes_less_iff:
  "m < 256 ^ k \<Longrightarrow> n < 256 ^ k \<Longrightarrow> be_bytes k m < be_bytes k n \<longleftrightarrow> m < n"
  using be_nat_less_iff [of "be_bytes k m" "be_bytes k n"] by simp

lemma append_less_iff:
  "length xs = length ys \<Longrightarrow> xs @ us < ys @ vs \<longleftrightarrow> xs < ys \<or> xs = ys \<and> us < vs"
  for xs ys :: "'a::linorder list"
  by (induction xs ys rule: list_induct2) auto

end
