(* ===== verification/Eager_Cell.thy ===== *)
theory Eager_Cell
  imports Byte_Codec
begin

text \<open>
  The crate \<^verbatim>\<open>canisters/eager-cell\<close>: fixed-layout stable cells that hold either
  principals (\<open>PrincipalRefs N\<close>) or big-endian 128-bit words (\<open>Scalars N\<close>). The value
  \<open>None\<close> is the sentinel: no initialised state has ever been written to the region. A theory
  user gets the round trips, the fact that no stored value can be mistaken for the sentinel, and
  the contract \<open>sentinel_cell\<close> (what \<^verbatim>\<open>Cell::init\<close> finds after an upgrade), interpreted
  for both cells.
\<close>

section \<open>Principal cells\<close>

definition PRINCIPAL_MAX_LEN :: nat where "PRINCIPAL_MAX_LEN = 29"
definition LAYOUT_VERSION :: byte where "LAYOUT_VERSION = 1"
definition SLOT :: nat where "SLOT = 1 + PRINCIPAL_MAX_LEN"

definition encoded_len :: "nat \<Rightarrow> nat" where
  "encoded_len n = 1 + SLOT * n"

type_synonym principal_refs = "principal list option"

text \<open>One slot: the length byte, the principal and the zero padding the fresh buffer leaves.\<close>

definition principal_slot :: "principal \<Rightarrow> bytes" where
  "principal_slot p = of_nat (length p) # p @ replicate (PRINCIPAL_MAX_LEN - length p) 0"

definition principal_refs_to_bytes :: "nat \<Rightarrow> principal_refs \<Rightarrow> (unit, bytes) res" where
  "principal_refs_to_bytes n v = (case v of
     None \<Rightarrow> Inr (replicate (encoded_len n) 255)
   | Some refs \<Rightarrow>
       if \<exists>p \<in> set refs. length p > PRINCIPAL_MAX_LEN then Inl Trap
       else Inr (LAYOUT_VERSION # concat (map principal_slot refs)))"

fun read_slots :: "bytes \<Rightarrow> nat \<Rightarrow> nat \<Rightarrow> principal list option" where
  "read_slots bs i 0 = Some []"
| "read_slots bs i (Suc k) =
    (let off = 1 + SLOT * i; len = unat (bs ! off) in
     if len > PRINCIPAL_MAX_LEN then None
     else case read_slots bs (Suc i) k of
         None \<Rightarrow> None
       | Some ps \<Rightarrow> Some (slice (off + 1) len bs # ps))"

definition principal_refs_from_bytes :: "nat \<Rightarrow> bytes \<Rightarrow> principal_refs" where
  "principal_refs_from_bytes n bs =
    (if length bs \<noteq> encoded_len n then None
     else if list_all (\<lambda>b. b = 255) bs then None
     else if bs ! 0 \<noteq> LAYOUT_VERSION then None
     else read_slots bs 0 n)"

lemmas slot_consts = PRINCIPAL_MAX_LEN_def LAYOUT_VERSION_def SLOT_def encoded_len_def

definition principals_ok :: "nat \<Rightarrow> principal list \<Rightarrow> bool" where
  "principals_ok n refs \<longleftrightarrow> length refs = n \<and> (\<forall>p \<in> set refs. length p \<le> 29)"

lemma length_principal_slot: "length p \<le> 29 \<Longrightarrow> length (principal_slot p) = 30"
  by (simp add: principal_slot_def slot_consts)

lemma slices_principal_slot:
  "length p \<le> 29 \<Longrightarrow> principal_slot p ! 0 = of_nat (length p)"
  "length p \<le> 29 \<Longrightarrow> slice 1 (length p) (principal_slot p) = p"
  by (simp_all add: principal_slot_def slice_def)

lemma nth_as_slice: "i < length xs \<Longrightarrow> slice i 1 xs = [xs ! i]"
  by (simp add: slice_def take_Suc_conv_app_nth hd_drop_conv_nth take_Suc)

lemma slot_of_concat:
  assumes "principals_ok n refs" "i < n"
  shows "(v # concat (map principal_slot refs)) ! (1 + 30 * i) = of_nat (length (refs ! i))"
    and "slice (1 + 30 * i + 1) (length (refs ! i)) (v # concat (map principal_slot refs)) = refs ! i"
proof -
  let ?c = "concat (map principal_slot refs)"
  have ok: "\<forall>p \<in> set refs. length (principal_slot p) = 30" and le: "length (refs ! i) \<le> 29"
    and i: "i < length refs"
    using assms by (auto simp: principals_ok_def length_principal_slot)
  have len: "length ?c = 30 * length refs"
    by (rule concat_fixed_length [OF ok])
  have "slice (30 * i + 0) 1 ?c = slice 0 1 (principal_slot (refs ! i))"
    using ok i by (intro slice_concat_fixed) auto
  moreover have "30 * i < length ?c" using len i by simp
  ultimately have "?c ! (30 * i) = principal_slot (refs ! i) ! 0"
    using length_principal_slot [OF le] nth_as_slice [of "30 * i" ?c]
      nth_as_slice [of 0 "principal_slot (refs ! i)"] by simp
  then show "(v # ?c) ! (1 + 30 * i) = of_nat (length (refs ! i))"
    by (simp add: slices_principal_slot(1) [OF le])
  have "slice (30 * i + 1) (length (refs ! i)) ?c = slice 1 (length (refs ! i)) (principal_slot (refs ! i))"
    using ok i le by (intro slice_concat_fixed) auto
  then show "slice (1 + 30 * i + 1) (length (refs ! i)) (v # ?c) = refs ! i"
    using slices_principal_slot(2) [OF le] by (simp add: slice_def)
qed

lemma read_slots_concat:
  assumes "principals_ok n refs" "i + k = n"
  shows "read_slots (v # concat (map principal_slot refs)) i k = Some (drop i refs)"
  using assms(2)
proof (induction k arbitrary: i)
  case 0
  with assms(1) show ?case by (simp add: principals_ok_def)
next
  case (Suc k)
  then have i: "i < n" by simp
  have le: "length (refs ! i) \<le> 29" and li: "i < length refs"
    using assms(1) i by (auto simp: principals_ok_def)
  have "unat (of_nat (length (refs ! i)) :: byte) = length (refs ! i)"
    using le by (simp add: unat_byte_of_nat)
  then show ?case
    using Suc slot_of_concat [OF assms(1) i] le li
    by (simp add: slot_consts Let_def Cons_nth_drop_Suc)
qed

lemma read_slots_wf:
  "read_slots bs i k = Some ps \<Longrightarrow> length ps = k \<and> (\<forall>p \<in> set ps. length p \<le> 29)"
  by (induction k arbitrary: i ps)
    (auto simp: Let_def slot_consts slice_def split: if_splits option.splits)

lemma principal_refs_width:
  "principals_ok n refs \<Longrightarrow> length (LAYOUT_VERSION # concat (map principal_slot refs)) = encoded_len n"
  using concat_fixed_length [of refs principal_slot 30]
  by (auto simp: principals_ok_def length_principal_slot slot_consts)

text \<open>A principal cell reads back exactly what was written: encoding any \<open>n\<close> principals of
  at most 29 bytes succeeds, has the fixed width, and decodes to the same principals; the sentinel
  decodes to the sentinel.\<close>

theorem principal_refs_roundtrip:
  assumes "case v of None \<Rightarrow> True | Some refs \<Rightarrow> length refs = n \<and> (\<forall>p \<in> set refs. length p \<le> 29)"
  shows "\<exists>bs. principal_refs_to_bytes n v = Inr bs \<and> length bs = encoded_len n
     \<and> principal_refs_from_bytes n bs = v"
proof (cases v)
  case None
  then show ?thesis
    by (simp add: principal_refs_to_bytes_def principal_refs_from_bytes_def list_all_iff)
next
  case (Some refs)
  then have ok: "principals_ok n refs" using assms by (simp add: principals_ok_def)
  let ?bs = "LAYOUT_VERSION # concat (map principal_slot refs)"
  have "principal_refs_to_bytes n v = Inr ?bs"
    using Some ok by (auto simp: principal_refs_to_bytes_def principals_ok_def slot_consts)
  moreover have "principal_refs_from_bytes n ?bs = v"
    using Some principal_refs_width [OF ok] read_slots_concat [OF ok, of 0 n]
    by (simp add: principal_refs_from_bytes_def LAYOUT_VERSION_def)
  ultimately show ?thesis using principal_refs_width [OF ok] by blast
qed

theorem principal_refs_roundtrip_witness:
  "\<exists>bs. principal_refs_to_bytes 2 (Some [[4], [0, 0, 7, 1]]) = Inr bs \<and> length bs = encoded_len 2
     \<and> principal_refs_from_bytes 2 bs = Some [[4], [0, 0, 7, 1]]"
  by (rule principal_refs_roundtrip) simp

section \<open>Scalar cells\<close>

definition WORD :: nat where "WORD = 16"

definition scalars_encoded_len :: "nat \<Rightarrow> nat" where
  "scalars_encoded_len n = 1 + WORD * n"

type_synonym scalars = "nat list option"

definition scalars_to_bytes :: "nat \<Rightarrow> scalars \<Rightarrow> bytes" where
  "scalars_to_bytes n v = (case v of
     None \<Rightarrow> replicate (scalars_encoded_len n) 255
   | Some ws \<Rightarrow> LAYOUT_VERSION # concat (map (be_bytes WORD) ws))"

definition scalars_from_bytes :: "nat \<Rightarrow> bytes \<Rightarrow> scalars" where
  "scalars_from_bytes n bs =
    (if length bs \<noteq> scalars_encoded_len n then None
     else if list_all (\<lambda>b. b = 255) bs then None
     else if bs ! 0 \<noteq> LAYOUT_VERSION then None
     else Some (map (\<lambda>i. let off = 1 + WORD * i in be_nat (slice off WORD bs)) [0..<n]))"

definition words_ok :: "nat \<Rightarrow> nat list \<Rightarrow> bool" where
  "words_ok n ws \<longleftrightarrow> length ws = n \<and> (\<forall>w \<in> set ws. w < u128_limit)"

lemma scalars_from_to_bytes:
  assumes "words_ok n ws"
  shows "scalars_from_bytes n (scalars_to_bytes n (Some ws)) = Some ws"
proof -
  let ?c = "concat (map (be_bytes 16) ws)"
  have len: "length ?c = 16 * n"
    using assms concat_fixed_length [of ws "be_bytes 16" 16] by (simp add: words_ok_def)
  have "be_nat (slice (1 + 16 * i) 16 (LAYOUT_VERSION # ?c)) = ws ! i" if "i < n" for i
  proof -
    have "slice (16 * i + 0) 16 ?c = slice 0 16 (be_bytes 16 (ws ! i))"
      using that assms by (intro slice_concat_fixed) (auto simp: words_ok_def)
    moreover have "ws ! i < 256 ^ 16" using that assms by (auto simp: words_ok_def)
    ultimately show ?thesis by (simp add: slice_def)
  qed
  then have "map (\<lambda>i. be_nat (slice (1 + 16 * i) 16 (LAYOUT_VERSION # ?c))) [0..<n] = ws"
    using assms by (intro nth_equalityI) (auto simp: words_ok_def)
  then show ?thesis
    using len by (simp add: scalars_from_bytes_def scalars_to_bytes_def scalars_encoded_len_def
        WORD_def LAYOUT_VERSION_def Let_def)
qed

lemma scalars_to_from_bytes:
  assumes "scalars_from_bytes n bs = Some ws"
  shows "scalars_to_bytes n (Some ws) = bs \<and> words_ok n ws"
proof -
  have len: "length bs = 1 + 16 * n" and hd: "bs ! 0 = LAYOUT_VERSION"
    and ws: "ws = map (\<lambda>i. be_nat (slice (1 + 16 * i) 16 bs)) [0..<n]"
    using assms by (auto simp: scalars_from_bytes_def scalars_encoded_len_def WORD_def Let_def
        split: if_splits)
  obtain t where bs: "bs = LAYOUT_VERSION # t" "length t = 16 * n"
    using len hd by (cases bs) auto
  have sl: "slice (1 + 16 * i) 16 bs = slice (16 * i) 16 t" for i
    by (simp add: bs slice_def)
  have w: "length (slice (16 * i) 16 t) = 16" if "i < n" for i
    using that bs(2) by (simp add: length_slice)
  have "be_bytes 16 (be_nat (slice (16 * i) 16 t)) = slice (16 * i) 16 t" if "i < n" for i
    using be_bytes_be_nat [of "slice (16 * i) 16 t"] w [OF that] by (simp only:)
  then have "map (be_bytes 16) ws = map (\<lambda>i. slice (16 * i) 16 t) [0..<n]"
    by (simp only: ws sl map_map) simp
  then have "concat (map (be_bytes 16) ws) = t"
    using concat_slices_fixed [OF bs(2)] by simp
  moreover have "be_nat (slice (16 * i) 16 t) < 256 ^ 16" if "i < n" for i
    using be_nat_lt [of "slice (16 * i) 16 t"] w [OF that] by (simp only:)
  then have "words_ok n ws"
    by (auto simp only: words_ok_def ws sl length_map length_upt set_map set_upt) simp_all
  ultimately show ?thesis by (simp add: scalars_to_bytes_def WORD_def bs(1))
qed

text \<open>The scalar cell is an exact codec: a region decodes to words \<open>ws\<close> if and only if it is,
  byte for byte, the encoding of \<open>ws\<close> and \<open>ws\<close> are \<open>n\<close> 128-bit words. A short, foreign or corrupt
  region therefore never reads as a plausible counter, and no value reads as the sentinel.\<close>

theorem scalars_codec_exact:
  "scalars_from_bytes n bs = Some ws \<longleftrightarrow>
     (length ws = n \<and> list_all (\<lambda>w. w < u128_limit) ws \<and> bs = scalars_to_bytes n (Some ws))"
proof -
  have "words_ok n ws \<longleftrightarrow> length ws = n \<and> list_all (\<lambda>w. w < u128_limit) ws"
    by (simp add: words_ok_def list_all_iff)
  then show ?thesis
    using scalars_to_from_bytes [of n bs ws] scalars_from_to_bytes [of n ws] by metis
qed

section \<open>The sentinel contract\<close>

text \<open>A stable cell over one memory region. \<^verbatim>\<open>Cell::init\<close> writes the default (the sentinel)
  into a fresh region and decodes a retained one. \<open>region_after\<close> runs an install, a list of
  \<^verbatim>\<open>Cell::set\<close>s and then a later initialisation: what it finds is the last value written,
  and the sentinel exactly when nothing was.\<close>

locale sentinel_cell =
  fixes enc :: "'a option \<Rightarrow> bytes" and dec :: "bytes \<Rightarrow> 'a option" and ok :: "'a \<Rightarrow> bool"
  assumes dec_enc: "ok v \<Longrightarrow> dec (enc (Some v)) = Some v"
    and dec_sentinel: "dec (enc None) = None"
begin

definition cell_init :: "bytes option \<Rightarrow> bytes \<times> 'a option" where
  "cell_init region = (case region of None \<Rightarrow> (enc None, None) | Some bs \<Rightarrow> (bs, dec bs))"

fun region_after :: "'a list \<Rightarrow> bytes" where
  "region_after [] = fst (cell_init None)"
| "region_after (v # vs) = enc (Some v)"

text \<open>The list holds the latest write first.\<close>

lemma init_finds_last_write:
  "\<forall>v \<in> set vs. ok v \<Longrightarrow>
     snd (cell_init (Some (region_after vs))) = (case vs of [] \<Rightarrow> None | v # _ \<Rightarrow> Some v)"
  by (cases vs) (auto simp: cell_init_def dec_enc dec_sentinel)

lemma sentinel_iff_no_write:
  "\<forall>v \<in> set vs. ok v \<Longrightarrow> snd (cell_init (Some (region_after vs))) = None \<longleftrightarrow> vs = []"
  by (simp add: init_finds_last_write split: list.splits)

lemma enc_inj: "ok v \<Longrightarrow> ok w \<Longrightarrow> enc (Some v) = enc (Some w) \<Longrightarrow> v = w"
  using dec_enc by (metis option.inject)

end

definition principal_cell_bytes :: "nat \<Rightarrow> principal_refs \<Rightarrow> bytes" where
  "principal_cell_bytes n v = (case principal_refs_to_bytes n v of Inl _ \<Rightarrow> [] | Inr bs \<Rightarrow> bs)"

lemma principal_cell_laws:
  "principals_ok n refs \<Longrightarrow>
     principal_refs_from_bytes n (principal_cell_bytes n (Some refs)) = Some refs"
  "principal_refs_from_bytes n (principal_cell_bytes n None) = None"
proof -
  show "principal_refs_from_bytes n (principal_cell_bytes n None) = None"
    by (simp add: principal_cell_bytes_def principal_refs_to_bytes_def
        principal_refs_from_bytes_def list_all_iff)
  assume ok: "principals_ok n refs"
  then have "principal_refs_to_bytes n (Some refs)
      = Inr (LAYOUT_VERSION # concat (map principal_slot refs))"
    by (auto simp: principal_refs_to_bytes_def principals_ok_def slot_consts)
  then show "principal_refs_from_bytes n (principal_cell_bytes n (Some refs)) = Some refs"
    using principal_refs_width [OF ok] read_slots_concat [OF ok, of 0 n]
    by (simp add: principal_cell_bytes_def principal_refs_from_bytes_def LAYOUT_VERSION_def)
qed

interpretation principal_cell: sentinel_cell "principal_cell_bytes n" "principal_refs_from_bytes n"
    "principals_ok n" for n
  by unfold_locales (simp_all add: principal_cell_laws)

interpretation scalar_cell: sentinel_cell "scalars_to_bytes n" "scalars_from_bytes n" "words_ok n"
    for n
  by unfold_locales
    (simp_all add: scalars_from_to_bytes, simp add: scalars_from_bytes_def scalars_to_bytes_def
      list_all_iff)

end
