(* ===== verification/Fee_Governance.thy ===== *)
theory Fee_Governance
  imports Fee_Policy Eager_Cell
begin

text \<open>
  The fee governance of the shielded pool: the decision core of
  \<^verbatim>\<open>set_governance_fee_params\<close>, the commit of the canister-owned clock, epoch and one-shot
  bootstrap marker to the eager cell and its heap mirrors, and the fail-closed restore of
  \<^verbatim>\<open>post_upgrade\<close>. The error texts of the source are the constructors of
  \<open>fee_gov_error\<close>.
\<close>

section \<open>The decision core\<close>

datatype fee_gov_error =
    PolicyError fee_policy_error
  | MaxFeeChangeFieldMismatch nat
  | FeeChangeBoundArithmeticOverflow string
  | FeeChangeExceedsAdvertisedBound string nat nat
  | FeeParamsEpochSpaceExhausted

definition ENFORCED_MAX_FEE_CHANGE_BPS_PER_UPDATE :: nat where
  "ENFORCED_MAX_FEE_CHANGE_BPS_PER_UPDATE = 1000"

definition check_increase :: "string \<times> nat \<times> nat \<Rightarrow> (fee_gov_error, unit) res" where
  "check_increase = (\<lambda>(f, c, r).
     if r \<le> c then Inr ()
     else
     bind_res (ok_or (FeeChangeBoundArithmeticOverflow f)
       (map_option (\<lambda>x. x div 10000) (checked_mul 128 c ENFORCED_MAX_FEE_CHANGE_BPS_PER_UPDATE)))
       (\<lambda>q.
     let step = max q 1 in
     bind_res (ok_or (FeeChangeBoundArithmeticOverflow f) (checked_add 128 c step)) (\<lambda>ceiling.
     if r > ceiling then fail (FeeChangeExceedsAdvertisedBound f c r) else Inr ())))"

definition validate_advertised_increase_bound ::
  "governance_fee_params \<Rightarrow> governance_fee_params \<Rightarrow> (fee_gov_error, unit) res" where
  "validate_advertised_increase_bound new cur =
     for_each check_increase
       [(''protocol_shielding_fee_stsh'',
           protocol_shielding_fee_stsh cur, protocol_shielding_fee_stsh new),
        (''protocol_unshielding_fee_stsh'',
           protocol_unshielding_fee_stsh cur, protocol_unshielding_fee_stsh new),
        (''protocol_private_spend_fee_stsh'',
           protocol_private_spend_fee_stsh cur, protocol_private_spend_fee_stsh new),
        (''shield_flat_minimum_fee_e8s'',
           shield_flat_minimum_fee_e8s cur, shield_flat_minimum_fee_e8s new),
        (''unshield_flat_minimum_fee_e8s'',
           unshield_flat_minimum_fee_e8s cur, unshield_flat_minimum_fee_e8s new),
        (''shield_fee_bps'', shield_fee_bps cur, shield_fee_bps new),
        (''unshield_fee_bps'', unshield_fee_bps cur, unshield_fee_bps new)]"

definition decide_governance_fee_update ::
  "governance_fee_params \<Rightarrow> governance_fee_params \<Rightarrow> bool \<Rightarrow> nat \<Rightarrow> nat \<Rightarrow> nat
     \<Rightarrow> (fee_gov_error, governance_fee_params) res" where
  "decide_governance_fee_update params current bootstrap current_epoch last_update_ns now_ns =
     bind_res (map_err PolicyError (validate_split_bps params)) (\<lambda>_.
     bind_res (map_err PolicyError (validate_staking_posture params)) (\<lambda>_.
     bind_res (map_err PolicyError (validate_fee_bounds params)) (\<lambda>_.
     if max_fee_change_bps_per_update params \<noteq> ENFORCED_MAX_FEE_CHANGE_BPS_PER_UPDATE then
       fail (MaxFeeChangeFieldMismatch (max_fee_change_bps_per_update params))
     else
     bind_res
       (if \<not> bootstrap then
          bind_res (map_err PolicyError (validate_fee_change_from params current)) (\<lambda>_.
          bind_res (validate_advertised_increase_bound params current) (\<lambda>_.
          if now_ns - last_update_ns < FEE_UPDATE_COOLDOWN_NS then
            fail (PolicyError (FeeUpdateCooldownActive last_update_ns now_ns FEE_UPDATE_COOLDOWN_NS))
          else Inr ()))
        else Inr ()) (\<lambda>_.
     bind_res (ok_or FeeParamsEpochSpaceExhausted (checked_add 64 current_epoch 1)) (\<lambda>next_epoch.
     case params_epoch_opt params of
       None \<Rightarrow> Inr (params \<lparr> params_epoch_opt := Some next_epoch \<rparr>)
     | Some supplied \<Rightarrow>
         if supplied \<noteq> next_epoch then fail (PolicyError (InvalidParamsEpoch supplied next_epoch))
         else Inr (params \<lparr> params_epoch_opt := Some next_epoch \<rparr>))))))"

section \<open>The state and its operations\<close>

record fee_gov =
  fg_cell :: scalars
  fg_last_update_ns :: nat
  fg_epoch :: nat
  fg_activated :: bool
  fg_params :: governance_fee_params

definition commit_fee_governance :: "nat \<Rightarrow> nat \<Rightarrow> bool \<Rightarrow> fee_gov \<Rightarrow> fee_gov" where
  "commit_fee_governance last_update_ns epoch launch_activated s =
     s \<lparr> fg_cell := Some [last_update_ns, epoch, if launch_activated then 1 else 0],
         fg_last_update_ns := last_update_ns,
         fg_epoch := epoch,
         fg_activated := launch_activated \<rparr>"

definition decode_fee_governance :: "scalars \<Rightarrow> (nat \<times> nat \<times> bool) option" where
  "decode_fee_governance cell = (case cell of None \<Rightarrow> None | Some words \<Rightarrow>
     (case to_width 64 (words ! 0) of None \<Rightarrow> None | Some last_update_ns \<Rightarrow>
     (case to_width 64 (words ! 1) of None \<Rightarrow> None | Some epoch \<Rightarrow>
       if words ! 2 = 0 then Some (last_update_ns, epoch, False)
       else if words ! 2 = 1 then Some (last_update_ns, epoch, True)
       else None)))"

text \<open>\<open>authorised\<close> is the outcome of \<^verbatim>\<open>assert_operator_controller\<close>, which panics.\<close>

definition set_governance_fee_params ::
  "bool \<Rightarrow> nat \<Rightarrow> governance_fee_params \<Rightarrow> fee_gov \<Rightarrow> fee_gov \<times> (fee_gov_error, unit) res" where
  "set_governance_fee_params authorised now_ns params s =
    (if \<not> authorised then (s, Inl Trap)
     else
       let current = fg_params s; bootstrap = \<not> fg_activated s in
       case decide_governance_fee_update params current bootstrap (fg_epoch s)
              (fg_last_update_ns s) now_ns of
         Inl e \<Rightarrow> (s, Inl e)
       | Inr accepted \<Rightarrow>
           let next_epoch = params_epoch accepted in
           ((commit_fee_governance now_ns next_epoch True s) \<lparr> fg_params := accepted \<rparr>, Inr ()))"

text \<open>The fee-governance part of \<^verbatim>\<open>init\<close> and of an upgrade. The upgrade keeps the eager
  cell, carries the parameters in the checkpoint and rebuilds the mirrors from the cell.\<close>

definition init_fee_governance :: fee_gov where
  "init_fee_governance = commit_fee_governance 0 0 False
     \<lparr> fg_cell = None, fg_last_update_ns = 0, fg_epoch = 0, fg_activated = False,
       fg_params = launch_defaults \<rparr>"

definition restore_fee_governance ::
  "scalars \<Rightarrow> governance_fee_params \<Rightarrow> (unit, fee_gov) res" where
  "restore_fee_governance cell checkpoint_params =
    (case decode_fee_governance cell of
       None \<Rightarrow> Inl Trap
     | Some (last_fee_update_ns, epoch, launch_fee_activated) \<Rightarrow>
         if params_epoch checkpoint_params \<noteq> epoch then Inl Trap
         else Inr \<lparr> fg_cell = cell, fg_last_update_ns = last_fee_update_ns, fg_epoch = epoch,
                    fg_activated = launch_fee_activated, fg_params = checkpoint_params \<rparr>)"

section \<open>What an accepted update guarantees\<close>

definition increase_ok :: "nat \<Rightarrow> nat \<Rightarrow> bool" where
  "increase_ok old new \<longleftrightarrow> new \<le> old + max (old div 10) 1"

lemma check_increase_Inr:
  "check_increase (f, old, new) = Inr u \<Longrightarrow> increase_ok old new"
  by (auto simp: check_increase_def increase_ok_def result_simps Let_def
      ENFORCED_MAX_FEE_CHANGE_BPS_PER_UPDATE_def split: if_splits)

lemma validate_advertised_increase_bound_Inr:
  "validate_advertised_increase_bound new cur = Inr () \<Longrightarrow>
     increase_ok (protocol_private_spend_fee_stsh cur) (protocol_private_spend_fee_stsh new)
     \<and> increase_ok (shield_flat_minimum_fee_e8s cur) (shield_flat_minimum_fee_e8s new)
     \<and> increase_ok (unshield_flat_minimum_fee_e8s cur) (unshield_flat_minimum_fee_e8s new)
     \<and> increase_ok (shield_fee_bps cur) (shield_fee_bps new)
     \<and> increase_ok (unshield_fee_bps cur) (unshield_fee_bps new)"
  unfolding validate_advertised_increase_bound_def for_each.simps bind_res_Inr
  by (elim exE conjE, intro conjI) (erule check_increase_Inr)+

text \<open>The posture every accepted parameter set has, and what one routine update may do.\<close>

definition posture_ok :: "governance_fee_params \<Rightarrow> bool" where
  "posture_ok p \<longleftrightarrow>
     operations_split_bps p + insurance_split_bps p = 10000
     \<and> staking_rewards_split_bps p = 0 \<and> \<not> staking_rewards_enabled p
     \<and> fee_bounds_ok p
     \<and> max_fee_change_bps_per_update p = 1000"

definition routine_step_ok :: "governance_fee_params \<Rightarrow> governance_fee_params \<Rightarrow> bool" where
  "routine_step_ok cur new \<longleftrightarrow>
     rate_step_ok (shield_fee_bps cur) (shield_fee_bps new)
     \<and> rate_step_ok (unshield_fee_bps cur) (unshield_fee_bps new)
     \<and> amount_step_ok (shield_flat_minimum_fee_e8s cur) (shield_flat_minimum_fee_e8s new)
     \<and> amount_step_ok (unshield_flat_minimum_fee_e8s cur) (unshield_flat_minimum_fee_e8s new)
     \<and> amount_step_ok (protocol_private_spend_fee_stsh cur) (protocol_private_spend_fee_stsh new)
     \<and> increase_ok (protocol_private_spend_fee_stsh cur) (protocol_private_spend_fee_stsh new)
     \<and> increase_ok (shield_flat_minimum_fee_e8s cur) (shield_flat_minimum_fee_e8s new)
     \<and> increase_ok (unshield_flat_minimum_fee_e8s cur) (unshield_flat_minimum_fee_e8s new)
     \<and> increase_ok (shield_fee_bps cur) (shield_fee_bps new)
     \<and> increase_ok (unshield_fee_bps cur) (unshield_fee_bps new)"

lemma accessors_ignore_epoch [simp]:
  "shield_fee_bps (p \<lparr> params_epoch_opt := x \<rparr>) = shield_fee_bps p"
  "unshield_fee_bps (p \<lparr> params_epoch_opt := x \<rparr>) = unshield_fee_bps p"
  "shield_flat_minimum_fee_e8s (p \<lparr> params_epoch_opt := x \<rparr>) = shield_flat_minimum_fee_e8s p"
  "unshield_flat_minimum_fee_e8s (p \<lparr> params_epoch_opt := x \<rparr>) = unshield_flat_minimum_fee_e8s p"
  "params_epoch (p \<lparr> params_epoch_opt := Some e \<rparr>) = e"
  by (simp_all add: accessor_defs)

lemma bounds_ignore_epoch [simp]:
  "fee_bounds_ok (p \<lparr> params_epoch_opt := x \<rparr>) = fee_bounds_ok p"
  by (simp add: fee_bounds_ok_def)

lemma posture_ignores_epoch [simp]:
  "posture_ok (p \<lparr> params_epoch_opt := x \<rparr>) = posture_ok p"
  by (simp add: posture_ok_def)

lemma routine_step_ignores_epoch [simp]:
  "routine_step_ok c (p \<lparr> params_epoch_opt := x \<rparr>) = routine_step_ok c p"
  by (simp add: routine_step_ok_def)

lemma decide_accepts:
  assumes "decide_governance_fee_update p cur boot e last_ns now = Inr a"
  shows "a = p \<lparr> params_epoch_opt := Some (e + 1) \<rparr>" (is ?stamp)
    and "e + 1 < u64_limit" "posture_ok a"
    and "\<not> boot \<Longrightarrow> routine_step_ok cur a \<and> last_ns + FEE_UPDATE_COOLDOWN_NS \<le> now"
proof -
  note run = assms [unfolded decide_governance_fee_update_def]
  have split: "validate_split_bps p = Inr ()" and post: "validate_staking_posture p = Inr ()"
    and bnd: "validate_fee_bounds p = Inr ()"
    and adv: "max_fee_change_bps_per_update p = 1000"
    using run by (auto simp: bind_res_Inr map_err_Inr ENFORCED_MAX_FEE_CHANGE_BPS_PER_UPDATE_def
        split: if_splits)
  have stamp: "?stamp \<and> e + 1 < u64_limit"
    using run by (auto simp: bind_res_Inr map_err_Inr ok_or_Inr checked_add_Some
        split: if_splits option.splits)
  then show ?stamp "e + 1 < u64_limit" by auto
  show "posture_ok a"
    using split post bnd adv stamp by (auto simp: posture_ok_def result_simps)
  assume "\<not> boot"
  then have "validate_fee_change_from p cur = Inr ()"
      "validate_advertised_increase_bound p cur = Inr ()" "\<not> now - last_ns < FEE_UPDATE_COOLDOWN_NS"
    using run by (auto simp: bind_res_Inr map_err_Inr split: if_splits)
  then show "routine_step_ok cur a \<and> last_ns + FEE_UPDATE_COOLDOWN_NS \<le> now"
    using stamp validate_fee_change_from_Inr [of p cur]
      validate_advertised_increase_bound_Inr [of p cur]
    by (simp add: routine_step_ok_def FEE_UPDATE_COOLDOWN_NS_def)
qed

section \<open>Runs\<close>

datatype fee_event = SetParams bool nat governance_fee_params | Upgrade

text \<open>One message: a call of the setter, whatever its outcome, or an upgrade that did not
  trap.\<close>

inductive fee_step :: "fee_gov \<Rightarrow> fee_event \<Rightarrow> fee_gov \<Rightarrow> bool" where
  step_set: "now < u64_limit \<Longrightarrow> set_governance_fee_params auth now p s = (s', r)
     \<Longrightarrow> fee_step s (SetParams auth now p) s'"
| step_upgrade: "restore_fee_governance (fg_cell s) (fg_params s) = Inr s'
     \<Longrightarrow> fee_step s Upgrade s'"

inductive_cases fee_step_setE: "fee_step s (SetParams auth now p) s'"
inductive_cases fee_step_upgradeE: "fee_step s Upgrade s'"

inductive fee_path :: "fee_gov \<Rightarrow> fee_gov \<Rightarrow> bool" for s where
  path_refl: "fee_path s s"
| path_step: "fee_path s s' \<Longrightarrow> fee_step s' ev s'' \<Longrightarrow> fee_path s s''"

definition fee_reach :: "fee_gov \<Rightarrow> bool" where
  "fee_reach s \<longleftrightarrow> fee_path init_fee_governance s"

lemma fee_step_cases:
  assumes "fee_step s ev s'"
  obtains (same) "s' = s"
    | (accept) p now a where "now < u64_limit"
        "decide_governance_fee_update p (fg_params s) (\<not> fg_activated s) (fg_epoch s)
           (fg_last_update_ns s) now = Inr a"
        "s' = (commit_fee_governance now (params_epoch a) True s) \<lparr> fg_params := a \<rparr>"
    | (upgrade) "restore_fee_governance (fg_cell s) (fg_params s) = Inr s'"
  using assms
proof (cases rule: fee_step.cases)
  case (step_set now auth p r)
  let ?d = "decide_governance_fee_update p (fg_params s) (\<not> fg_activated s) (fg_epoch s)
      (fg_last_update_ns s) now"
  show thesis
  proof (cases "auth \<and> (\<exists>a. ?d = Inr a)")
    case True
    then obtain a where "auth" "?d = Inr a" by blast
    then show thesis
      using step_set by (intro accept [of now p a]) (simp_all add: set_governance_fee_params_def)
  next
    case False
    then have "s' = s"
      using step_set by (cases ?d) (auto simp: set_governance_fee_params_def Let_def split: if_splits)
    then show thesis by (rule same)
  qed
qed (rule upgrade)

definition fee_inv :: "fee_gov \<Rightarrow> bool" where
  "fee_inv s \<longleftrightarrow>
     decode_fee_governance (fg_cell s) = Some (fg_last_update_ns s, fg_epoch s, fg_activated s)
     \<and> params_epoch (fg_params s) = fg_epoch s
     \<and> fg_last_update_ns s < u64_limit \<and> fg_epoch s < u64_limit
     \<and> (fg_activated s \<longleftrightarrow> 0 < fg_epoch s)
     \<and> (fg_activated s \<longrightarrow> posture_ok (fg_params s))
     \<and> (\<not> fg_activated s \<longrightarrow> fg_params s = launch_defaults)
     \<and> (fg_epoch s - 1) * FEE_UPDATE_COOLDOWN_NS \<le> fg_last_update_ns s"

lemma restore_of_inv:
  assumes "fee_inv s"
  shows "restore_fee_governance (fg_cell s) (fg_params s) = Inr s"
  using assms by (simp add: fee_inv_def restore_fee_governance_def)

lemma decode_commit:
  "last_ns < u64_limit \<Longrightarrow> e < u64_limit \<Longrightarrow>
     decode_fee_governance (Some [last_ns, e, if b then 1 else 0]) = Some (last_ns, e, b)"
  by (simp add: decode_fee_governance_def to_width_def)

lemma init_inv: "fee_inv init_fee_governance"
  by (simp add: fee_inv_def init_fee_governance_def commit_fee_governance_def decode_commit
      accessor_defs launch_defaults_def FEE_UPDATE_COOLDOWN_NS_def decode_fee_governance_def
      to_width_def)

lemma step_inv:
  assumes "fee_inv s" "fee_step s ev s'"
  shows "fee_inv s'"
  using assms(2)
proof (cases rule: fee_step_cases)
  case (accept p now a)
  note d = decide_accepts [OF accept(2)]
  have e: "params_epoch a = fg_epoch s + 1" using d(1) by simp
  have "fg_epoch s * FEE_UPDATE_COOLDOWN_NS \<le> now"
  proof (cases "fg_activated s")
    case True
    then have "fg_last_update_ns s + FEE_UPDATE_COOLDOWN_NS \<le> now" and "0 < fg_epoch s"
      using d(4) assms(1) by (auto simp: fee_inv_def)
    moreover have "(fg_epoch s - 1) * FEE_UPDATE_COOLDOWN_NS \<le> fg_last_update_ns s"
      using assms(1) by (simp add: fee_inv_def)
    ultimately show ?thesis by (cases "fg_epoch s") simp_all
  next
    case False
    then show ?thesis using assms(1) by (simp add: fee_inv_def)
  qed
  then show ?thesis
    using accept(1,3) d(2,3) e decode_commit [of now "fg_epoch s + 1" True]
    by (simp add: fee_inv_def commit_fee_governance_def)
next
  case upgrade
  then show ?thesis using assms(1) restore_of_inv by simp
qed (use assms(1) in simp)

lemma path_inv: "fee_path s s' \<Longrightarrow> fee_inv s \<Longrightarrow> fee_inv s'"
  by (induction rule: fee_path.induct) (auto intro: step_inv)

lemma fee_reach_inv: "fee_reach s \<Longrightarrow> fee_inv s"
  unfolding fee_reach_def by (erule path_inv) (rule init_inv)

section \<open>Properties\<close>

text \<open>C20: In every state the pool can reach by any sequence of setter calls (accepted, refused or
  unauthorised) and upgrades, once a configuration has been activated the live parameters are inside
  the ruled bands: rates between 1 and 500 bps, flat minimums and the spend fee between 0.1 and 5
  STSH, shares adding up to 100%, staking disabled with a zero share, and so no staking
  distribution is allowed whatever the runway.\<close>

theorem reachable_fee_bounds:
  assumes "fee_reach s" "fg_activated s"
  shows "1 \<le> shield_fee_bps (fg_params s) \<and> shield_fee_bps (fg_params s) \<le> 500
     \<and> 1 \<le> unshield_fee_bps (fg_params s) \<and> unshield_fee_bps (fg_params s) \<le> 500
     \<and> shield_flat_minimum_fee_e8s (fg_params s) \<in> {10000000..500000000}
     \<and> unshield_flat_minimum_fee_e8s (fg_params s) \<in> {10000000..500000000}
     \<and> protocol_private_spend_fee_stsh (fg_params s) \<in> {10000000..500000000}
     \<and> operations_split_bps (fg_params s) + insurance_split_bps (fg_params s) = 10000
     \<and> staking_rewards_split_bps (fg_params s) = 0
     \<and> (\<forall>months. \<not> staking_distribution_allowed (fg_params s) months)"
proof -
  have "posture_ok (fg_params s)"
    using fee_reach_inv [OF assms(1)] assms(2) by (simp add: fee_inv_def)
  then show ?thesis
    by (simp add: posture_ok_def fee_bounds_ok_def staking_distribution_allowed_def)
qed

lemma mainnet_posture: "posture_ok mainnet_launch_config"
  by (simp add: posture_ok_def fee_bounds_ok_def mainnet_launch_config_def launch_defaults_def
      accessor_defs launch_consts)

lemma decide_bootstrap:
  assumes "posture_ok p" "e + 1 < u64_limit" "params_epoch_opt p \<in> {None, Some (e + 1)}"
  shows "decide_governance_fee_update p cur True e last_ns now
      = Inr (p \<lparr> params_epoch_opt := Some (e + 1) \<rparr>)"
proof -
  have v: "validate_split_bps p = Inr ()" "validate_staking_posture p = Inr ()"
      "validate_fee_bounds p = Inr ()" "max_fee_change_bps_per_update p = 1000"
    using assms(1) by (auto simp: posture_ok_def result_simps)
  then show ?thesis
    using assms(2,3)
    by (auto simp: decide_governance_fee_update_def ENFORCED_MAX_FEE_CHANGE_BPS_PER_UPDATE_def
        checked_add_def)
qed

definition launched :: "nat \<Rightarrow> fee_gov" where
  "launched now = fst (set_governance_fee_params True now mainnet_launch_config init_fee_governance)"

lemma launch_run:
  "set_governance_fee_params True now mainnet_launch_config init_fee_governance
     = ((commit_fee_governance now 1 True init_fee_governance) \<lparr> fg_params := mainnet_launch_config \<rparr>,
        Inr ())"
proof -
  have "mainnet_launch_config \<lparr> params_epoch_opt := Some 1 \<rparr> = mainnet_launch_config"
    by (simp add: mainnet_launch_config_def)
  then show ?thesis
    using decide_bootstrap [OF mainnet_posture, of 0]
    by (simp add: set_governance_fee_params_def init_fee_governance_def commit_fee_governance_def
        Let_def mainnet_launch_config_def accessor_defs)
qed

lemma launched_state:
  "launched now = (commit_fee_governance now 1 True init_fee_governance)
      \<lparr> fg_params := mainnet_launch_config \<rparr>"
  by (simp add: launched_def launch_run)

lemma launched_fields [simp]:
  "fg_activated (launched now)" "fg_epoch (launched now) = 1"
  "fg_last_update_ns (launched now) = now" "fg_params (launched now) = mainnet_launch_config"
  by (simp_all add: launched_state commit_fee_governance_def)

lemma launched_step: "now < u64_limit \<Longrightarrow>
    fee_step init_fee_governance (SetParams True now mainnet_launch_config) (launched now)"
  by (rule step_set [where r = "Inr ()"]) (simp_all add: launch_run launched_state)

lemma launched_reach: "now < u64_limit \<Longrightarrow> fee_reach (launched now)"
  unfolding fee_reach_def by (rule path_step [OF path_refl launched_step])

theorem reachable_fee_bounds_witness:
  "fee_reach (launched 5) \<and> protocol_private_spend_fee_stsh (fg_params (launched 5)) \<le> 500000000"
  using reachable_fee_bounds [OF launched_reach [of 5]] launched_reach [of 5] by simp

text \<open>The launch path works and only the launch path does: on a fresh pool the setter accepts
  the documented mainnet configuration at any time, after which the live parameters match it with
  epoch 1 and the bootstrap exemption is spent; the fee-free code defaults are never accepted,
  in any state; and an unauthorised call changes nothing.\<close>

theorem launch_activation:
  "set_governance_fee_params True now mainnet_launch_config init_fee_governance = (launched now, Inr ())
   \<and> matches_mainnet_launch_config (fg_params (launched now))
   \<and> fg_epoch (launched now) = 1 \<and> fg_activated (launched now)
   \<and> set_governance_fee_params True now launch_defaults s
       = (s, fail (PolicyError (FeeRateOutOfRange ''shield_fee_bps'' 0 1 500)))
   \<and> set_governance_fee_params False now p s = (s, Inl Trap)"
proof -
  have "validate_split_bps launch_defaults = Inr ()"
      "validate_staking_posture launch_defaults = Inr ()"
    by (simp_all add: result_simps launch_defaults_def)
  moreover have "validate_fee_bounds launch_defaults
      = fail (FeeRateOutOfRange ''shield_fee_bps'' 0 1 500)"
    by (simp add: validate_fee_bounds_def check_rate_bounds_def bound_consts launch_defaults_def
        accessor_defs launch_consts)
  ultimately have "decide_governance_fee_update launch_defaults c b e l now
      = fail (PolicyError (FeeRateOutOfRange ''shield_fee_bps'' 0 1 500))" for c b e l
    by (simp add: decide_governance_fee_update_def)
  then have "set_governance_fee_params True now launch_defaults s
       = (s, fail (PolicyError (FeeRateOutOfRange ''shield_fee_bps'' 0 1 500)))"
    by (simp add: set_governance_fee_params_def)
  moreover have "set_governance_fee_params False now p s = (s, Inl Trap)"
    by (simp add: set_governance_fee_params_def)
  ultimately show ?thesis
    using launch_run [of now] launched_state [of now]
    by (simp add: matches_mainnet_launch_config_def commit_fee_governance_def)
qed

text \<open>An upgrade is transparent to fee governance: from every reachable state the restore does
  not trap and yields exactly the state before the upgrade, so the cooldown clock, the epoch and
  the spent bootstrap exemption all survive; and a region that was lost always traps.\<close>

theorem upgrade_preserves_fee_governance:
  assumes "fee_reach s"
  shows "restore_fee_governance (fg_cell s) (fg_params s) = Inr s
     \<and> restore_fee_governance None p = Inl Trap"
  using restore_of_inv [OF fee_reach_inv [OF assms]]
  by (simp add: restore_fee_governance_def decode_fee_governance_def)

theorem upgrade_preserves_fee_governance_witness:
  "restore_fee_governance (fg_cell (launched 7)) (fg_params (launched 7)) = Inr (launched 7)"
  using upgrade_preserves_fee_governance [OF launched_reach [of 7]] by simp

text \<open>The cooldown is enforced over any history: after \<open>n\<close> accepted updates, at least
  \<open>n - 1\<close> full cooldowns of 24 hours lie before the last accepted one, even when the clock the
  setter sees is adversarial, and the epoch is the number of accepted updates.\<close>

theorem fee_updates_rate_limited:
  assumes "fee_reach s"
  shows "(fg_epoch s - 1) * (24 * 60 * 60 * 1000000000) \<le> fg_last_update_ns s
     \<and> (fg_activated s \<longleftrightarrow> fg_epoch s \<noteq> 0) \<and> params_epoch (fg_params s) = fg_epoch s"
  using fee_reach_inv [OF assms] by (simp add: fee_inv_def FEE_UPDATE_COOLDOWN_NS_def)

theorem fee_updates_rate_limited_witness:
  "(fg_epoch (launched 9) - 1) * (24 * 60 * 60 * 1000000000) \<le> fg_last_update_ns (launched 9)"
  using fee_updates_rate_limited [OF launched_reach [of 9]] by simp

subsection \<open>Growth over a history\<close>

definition spend_fee_of :: "fee_gov \<Rightarrow> nat" where
  "spend_fee_of s = protocol_private_spend_fee_stsh (fg_params s)"

lemma increase_ok_tenth: "increase_ok old new \<Longrightarrow> 10 \<le> old \<Longrightarrow> 10 * new \<le> 11 * old"
  by (simp add: increase_ok_def max_def split: if_splits)

lemma step_growth:
  assumes "fee_inv s" "fg_activated s" "fee_step s ev s'"
  shows "fg_activated s' \<and> (s' = s \<or> fg_epoch s' = fg_epoch s + 1
     \<and> 10 * spend_fee_of s' \<le> 11 * spend_fee_of s \<and> spend_fee_of s \<le> 2 * spend_fee_of s')"
  using assms(3)
proof (cases rule: fee_step_cases)
  case (accept p now a)
  note d = decide_accepts [OF accept(2)]
  have "routine_step_ok (fg_params s) a" using d(4) assms(2) by blast
  moreover have "10 \<le> spend_fee_of s"
    using assms(1,2) by (simp add: fee_inv_def posture_ok_def fee_bounds_ok_def spend_fee_of_def)
  moreover have "params_epoch a = fg_epoch s + 1" using d(1) by simp
  ultimately show ?thesis
    using accept(3) increase_ok_tenth
    by (simp add: commit_fee_governance_def routine_step_ok_def amount_step_ok_def spend_fee_of_def)
next
  case upgrade
  then show ?thesis using assms(1,2) restore_of_inv by simp
qed (use assms(2) in simp)

lemma path_growth:
  assumes "fee_path s s'" "fee_inv s" "fg_activated s"
  shows "fee_inv s' \<and> fg_activated s' \<and> (\<exists>k. fg_epoch s' = fg_epoch s + k
     \<and> 10 ^ k * spend_fee_of s' \<le> 11 ^ k * spend_fee_of s \<and> spend_fee_of s \<le> 2 ^ k * spend_fee_of s')"
  using assms(1)
proof (induction rule: fee_path.induct)
  case path_refl
  then show ?case using assms(2,3) by (auto intro: exI [of _ 0])
next
  case (path_step m ev n)
  then obtain k where inv: "fee_inv m" "fg_activated m" and k: "fg_epoch m = fg_epoch s + k"
      "10 ^ k * spend_fee_of m \<le> 11 ^ k * spend_fee_of s" "spend_fee_of s \<le> 2 ^ k * spend_fee_of m"
    by blast
  note st = step_growth [OF inv path_step.hyps(2)]
  show ?case
  proof (cases "n = m")
    case True
    then show ?thesis using inv k by blast
  next
    case False
    then have g: "fg_epoch n = fg_epoch m + 1" "10 * spend_fee_of n \<le> 11 * spend_fee_of m"
        "spend_fee_of m \<le> 2 * spend_fee_of n"
      using st by auto
    have "10 ^ Suc k * spend_fee_of n \<le> 11 * (10 ^ k * spend_fee_of m)"
      using mult_le_mono2 [OF g(2), of "10 ^ k"] by (simp add: algebra_simps)
    also have "\<dots> \<le> 11 ^ Suc k * spend_fee_of s"
      using mult_le_mono2 [OF k(2), of 11] by (simp add: algebra_simps)
    finally have up: "10 ^ Suc k * spend_fee_of n \<le> 11 ^ Suc k * spend_fee_of s" .
    have "2 ^ k * spend_fee_of m \<le> 2 ^ Suc k * spend_fee_of n"
      using mult_le_mono2 [OF g(3), of "2 ^ k"] by (simp add: algebra_simps)
    then have down: "spend_fee_of s \<le> 2 ^ Suc k * spend_fee_of n" using k(3) by linarith
    have "fg_epoch n = fg_epoch s + Suc k" using g(1) k(1) by simp
    then show ?thesis
      using up down st step_inv [OF inv(1) path_step.hyps(2)] by blast
  qed
qed

text \<open>C22: The private-spend fee can never run away: between any two states of a live pool that are
  \<open>k\<close> accepted updates apart (whatever refused calls and upgrades lie between), the fee grew by at
  most 10% per update and fell by at most half per update.\<close>

theorem spend_fee_growth_bounded:
  assumes "fee_reach s" "fg_activated s" "fee_path s s'"
  shows "\<exists>k. fg_epoch s' = fg_epoch s + k
     \<and> 10 ^ k * protocol_private_spend_fee_stsh (fg_params s')
         \<le> 11 ^ k * protocol_private_spend_fee_stsh (fg_params s)
     \<and> protocol_private_spend_fee_stsh (fg_params s)
         \<le> 2 ^ k * protocol_private_spend_fee_stsh (fg_params s')"
  using path_growth [OF assms(3) fee_reach_inv [OF assms(1)] assms(2)] by (auto simp: spend_fee_of_def)

text \<open>One accepted update after the launch: the spend fee is raised by a tenth a day later.\<close>

definition ex_raised :: governance_fee_params where
  "ex_raised = mainnet_launch_config\<lparr> protocol_private_spend_fee_stsh :=
       MAINNET_LAUNCH_SPEND_FEE_E8S + MAINNET_LAUNCH_SPEND_FEE_E8S div 10, params_epoch_opt := Some 2 \<rparr>"

lemma ex_raised_accepted:
  "set_governance_fee_params True (3 + FEE_UPDATE_COOLDOWN_NS) ex_raised (launched 3)
     = ((commit_fee_governance (3 + FEE_UPDATE_COOLDOWN_NS) 2 True (launched 3))\<lparr> fg_params := ex_raised \<rparr>, Inr ())"
proof -
  have "decide_governance_fee_update ex_raised mainnet_launch_config False 1 3 (3 + FEE_UPDATE_COOLDOWN_NS)
      = Inr ex_raised"
    by (simp add: decide_governance_fee_update_def result_simps validate_split_bps_def validate_staking_posture_def
        validate_fee_bounds_def check_rate_bounds_def check_amount_bounds_def bound_consts accessor_defs launch_consts
        ex_raised_def mainnet_launch_config_def launch_defaults_def validate_fee_change_from_def check_rate_change_def
        check_amount_change_def validate_advertised_increase_bound_def check_increase_def checked_mul_def checked_add_def
        ENFORCED_MAX_FEE_CHANGE_BPS_PER_UPDATE_def FEE_UPDATE_COOLDOWN_NS_def Let_def abs_diff_def)
  then show ?thesis by (simp add: set_governance_fee_params_def ex_raised_def accessor_defs Let_def)
qed

theorem spend_fee_growth_bounded_witness:
  "\<exists>s' k. fee_path (launched 3) s' \<and> fg_epoch s' = fg_epoch (launched 3) + k \<and> k = 1
     \<and> 10 ^ k * protocol_private_spend_fee_stsh (fg_params s')
         \<le> 11 ^ k * protocol_private_spend_fee_stsh (fg_params (launched 3))"
proof -
  let ?s = "(commit_fee_governance (3 + FEE_UPDATE_COOLDOWN_NS) 2 True (launched 3))\<lparr> fg_params := ex_raised \<rparr>"
  have "fee_step (launched 3) (SetParams True (3 + FEE_UPDATE_COOLDOWN_NS) ex_raised) ?s"
    by (rule step_set [OF _ ex_raised_accepted]) (simp add: FEE_UPDATE_COOLDOWN_NS_def)
  then have path: "fee_path (launched 3) ?s" by (rule path_step [OF path_refl])
  obtain k where k: "fg_epoch ?s = fg_epoch (launched 3) + k"
    "10 ^ k * protocol_private_spend_fee_stsh (fg_params ?s)
       \<le> 11 ^ k * protocol_private_spend_fee_stsh (fg_params (launched 3))"
    using spend_fee_growth_bounded [OF launched_reach [of 3] _ path] by auto
  moreover have "fg_epoch ?s = 2" by (simp add: commit_fee_governance_def)
  ultimately show ?thesis using path by (intro exI [of _ ?s] exI [of _ k]) simp
qed

end
