(* ===== verification/Field_Utils.thy ===== *)
theory Field_Utils
  imports Byte_Codec
begin

text \<open>
  The crate \<^verbatim>\<open>canisters/field-utils\<close>: when 32 little-endian bytes are a canonical
  encoding of a BN254 field element, and the value-bound Merkle leaf. The field type \<^verbatim>\<open>Fr\<close> and the
  Poseidon permutation are third-party code (\<^verbatim>\<open>ark_ff\<close>, \<^verbatim>\<open>light_poseidon\<close>) and are parameters: \<open>field_ops\<close>
  holds the conversions the code calls, with a field element as a natural number, and \<open>field_laws\<close> is
  what their documentation says of them.
\<close>

definition FR_MODULUS_LE :: bytes where
  "FR_MODULUS_LE =
    [0x01, 0x00, 0x00, 0xf0, 0x93, 0xf5, 0xe1, 0x43,
     0x91, 0x70, 0xb9, 0x79, 0x48, 0xe8, 0x33, 0x28,
     0x5d, 0x58, 0x81, 0x81, 0xb6, 0x45, 0x50, 0xb8,
     0x29, 0xa0, 0x31, 0xe1, 0x72, 0x4e, 0x64, 0x30]"

definition FQ_MODULUS_LE :: bytes where
  "FQ_MODULUS_LE =
    [0x47, 0xfd, 0x7c, 0xd8, 0x16, 0x8c, 0x20, 0x3c,
     0x8d, 0xca, 0x71, 0x68, 0x91, 0x6a, 0x81, 0x97,
     0x5d, 0x58, 0x81, 0x81, 0xb6, 0x45, 0x50, 0xb8,
     0x29, 0xa0, 0x31, 0xe1, 0x72, 0x4e, 0x64, 0x30]"

definition MERKLE_LEAF_DOMAIN :: nat where "MERKLE_LEAF_DOMAIN = 4"

abbreviation fr_modulus :: nat where "fr_modulus \<equiv> le_nat FR_MODULUS_LE"
abbreviation fq_modulus :: nat where "fq_modulus \<equiv> le_nat FQ_MODULUS_LE"

text \<open>The comparison walks from the most significant byte down: \<open>le_lt_from k\<close> has the bytes
  below index \<open>k\<close> left to compare.\<close>

fun le_lt_from :: "bytes \<Rightarrow> bytes \<Rightarrow> nat \<Rightarrow> bool" where
  "le_lt_from a b 0 = False"
| "le_lt_from a b (Suc i) =
    (if a ! i < b ! i then True
     else if a ! i > b ! i then False
     else le_lt_from a b i)"

definition le_lt :: "bytes \<Rightarrow> bytes \<Rightarrow> bool" where
  "le_lt a b = le_lt_from a b 32"

definition is_canonical_fr_le :: "bytes \<Rightarrow> bool" where
  "is_canonical_fr_le bs = le_lt bs FR_MODULUS_LE"

definition is_canonical_fq_le :: "bytes \<Rightarrow> bool" where
  "is_canonical_fq_le bs = le_lt bs FQ_MODULUS_LE"

text \<open>The conversions of \<^verbatim>\<open>ark_bn254::Fr\<close>: from an unsigned integer, from little-endian bytes, and
  back to the 32 little-endian bytes of \<^verbatim>\<open>into_bigint().to_bytes_le()\<close>.\<close>

record field_ops =
  fr_from_uint :: "nat \<Rightarrow> nat"
  fr_from_le_bytes :: "bytes \<Rightarrow> nat"
  fr_into_le_bytes :: "nat \<Rightarrow> bytes"

definition field_laws :: "'a field_ops_scheme \<Rightarrow> bool" where
  "field_laws F \<longleftrightarrow>
     (\<forall>v. fr_from_uint F v = v mod fr_modulus)
     \<and> (\<forall>bs. fr_from_le_bytes F bs = le_nat bs mod fr_modulus)
     \<and> (\<forall>x < fr_modulus. fr_into_le_bytes F x = le_bytes 32 x)"

definition merkle_leaf :: "field_ops \<Rightarrow> (nat \<times> nat \<times> nat \<Rightarrow> nat) \<Rightarrow> nat \<Rightarrow> bytes \<Rightarrow> bytes" where
  "merkle_leaf F poseidon v inner_commitment =
    (let value_fr = fr_from_uint F v;
         inner_fr = fr_from_le_bytes F inner_commitment;
         domain_fr = fr_from_uint F MERKLE_LEAF_DOMAIN
     in fr_into_le_bytes F (poseidon (value_fr, inner_fr, domain_fr)))"

text \<open>A concrete field for the witnesses.\<close>

definition ex_field :: field_ops where
  "ex_field = \<lparr> fr_from_uint = (\<lambda>v. v mod fr_modulus), fr_from_le_bytes = (\<lambda>bs. le_nat bs mod fr_modulus),
     fr_into_le_bytes = le_bytes 32 \<rparr>"

lemma ex_field_laws: "field_laws ex_field"
  by (simp add: field_laws_def ex_field_def)

section \<open>Correctness of the comparison\<close>

lemma le_nat_take_Suc:
  "i < length a \<Longrightarrow> le_nat (take (Suc i) a) = le_nat (take i a) + 256 ^ i * unat (a ! i)"
  by (simp add: take_Suc_conv_app_nth le_nat_append)

lemma le_nat_take_lt: "i \<le> length a \<Longrightarrow> le_nat (take i a) < 256 ^ i"
  using le_nat_lt [of "take i a"] by simp

lemma radix_less:
  assumes "(x::nat) < w" "y < w"
  shows "x + w * m < y + w * n \<longleftrightarrow> m < n \<or> m = n \<and> x < y"
proof -
  have "m < n \<Longrightarrow> w * m + w \<le> w * n"
    by (metis mult_Suc_right mult_le_mono2 Suc_leI add.commute)
  moreover have "n < m \<Longrightarrow> w * n + w \<le> w * m"
    by (metis mult_Suc_right mult_le_mono2 Suc_leI add.commute)
  ultimately show ?thesis using assms by (cases m n rule: linorder_cases) auto
qed

lemma le_lt_from_iff:
  "length a = n \<Longrightarrow> length b = n \<Longrightarrow> k \<le> n \<Longrightarrow>
     le_lt_from a b k \<longleftrightarrow> le_nat (take k a) < le_nat (take k b)"
proof (induction k)
  case (Suc k)
  then have "k < length a" "k < length b" by auto
  then show ?case
    using Suc radix_less [of "le_nat (take k a)" "256 ^ k" "le_nat (take k b)"
        "unat (a ! k)" "unat (b ! k)"]
    by (auto simp: le_nat_take_Suc le_nat_take_lt word_less_nat_alt not_less)
qed simp

lemma le_lt_iff: "length a = 32 \<Longrightarrow> length b = 32 \<Longrightarrow> le_lt a b \<longleftrightarrow> le_nat a < le_nat b"
  using le_lt_from_iff [of a 32 b 32] by (simp add: le_lt_def)

lemma length_modulus [simp]: "length FR_MODULUS_LE = 32" "length FQ_MODULUS_LE = 32"
  by (simp_all add: FR_MODULUS_LE_def FQ_MODULUS_LE_def)

lemma canonical_fr_iff: "length bs = 32 \<Longrightarrow> is_canonical_fr_le bs \<longleftrightarrow> le_nat bs < fr_modulus"
  by (simp add: is_canonical_fr_le_def le_lt_iff)

lemma canonical_fq_iff: "length bs = 32 \<Longrightarrow> is_canonical_fq_le bs \<longleftrightarrow> le_nat bs < fq_modulus"
  by (simp add: is_canonical_fq_le_def le_lt_iff)

lemma fr_modulus_value:
  "fr_modulus = 0x30644e72e131a029b85045b68181585d2833e84879b9709143e1f593f0000001"
  by (simp add: FR_MODULUS_LE_def)

lemma fq_modulus_value:
  "fq_modulus = 0x30644e72e131a029b85045b68181585d97816a916871ca8d3c208c16d87cfd47"
  by (simp add: FQ_MODULUS_LE_def)

text \<open>The canonicality check is exact and rules out aliasing: 32 bytes pass it if and only if
  they encode an integer below the BN254 scalar modulus (whose bytes are the documented constant);
  two canonical encodings that reduce to the same field element are the same bytes, while every
  canonical encoding has a distinct non-canonical alias that reduces to the same element.\<close>

theorem canonical_no_aliasing:
  assumes "length a = 32" "length b = 32" "field_laws F"
  shows "(is_canonical_fr_le a \<longleftrightarrow>
        le_nat a < 0x30644e72e131a029b85045b68181585d2833e84879b9709143e1f593f0000001)
     \<and> (is_canonical_fr_le a \<and> is_canonical_fr_le b
        \<and> fr_from_le_bytes F a = fr_from_le_bytes F b \<longrightarrow> a = b)
     \<and> (is_canonical_fr_le a \<longrightarrow> (\<exists>c. length c = 32 \<and> \<not> is_canonical_fr_le c
        \<and> fr_from_le_bytes F c = fr_from_le_bytes F a))"
proof (intro conjI impI)
  show "is_canonical_fr_le a \<longleftrightarrow>
      le_nat a < 0x30644e72e131a029b85045b68181585d2833e84879b9709143e1f593f0000001"
    using assms by (simp only: canonical_fr_iff fr_modulus_value)
next
  assume "is_canonical_fr_le a \<and> is_canonical_fr_le b
      \<and> fr_from_le_bytes F a = fr_from_le_bytes F b"
  then have "le_nat a < fr_modulus" "le_nat b < fr_modulus"
      "le_nat a mod fr_modulus = le_nat b mod fr_modulus"
    using assms by (auto simp: canonical_fr_iff field_laws_def)
  then have "le_nat a = le_nat b" by (metis mod_less)
  then show "a = b" using assms le_nat_inj by simp
next
  assume can: "is_canonical_fr_le a"
  let ?c = "le_bytes 32 (le_nat a + fr_modulus)"
  have "le_nat a < fr_modulus" using can assms(1) by (simp only: canonical_fr_iff)
  moreover have "2 * fr_modulus < 256 ^ 32" by (simp add: fr_modulus_value)
  ultimately have "le_nat a + fr_modulus < 256 ^ 32" by linarith
  then have "le_nat ?c = le_nat a + fr_modulus" by (rule le_nat_le_bytes_id)
  then show "\<exists>c. length c = 32 \<and> \<not> is_canonical_fr_le c
      \<and> fr_from_le_bytes F c = fr_from_le_bytes F a"
    by (intro exI [of _ ?c]) (use assms(3) in \<open>simp add: canonical_fr_iff field_laws_def\<close>)
qed

theorem canonical_no_aliasing_witness:
  "is_canonical_fr_le (1 # replicate 31 0) \<and> \<not> is_canonical_fr_le (replicate 31 0 @ [255])"
  using canonical_no_aliasing [OF _ _ ex_field_laws, of "1 # replicate 31 0" "1 # replicate 31 0"]
    canonical_no_aliasing [OF _ _ ex_field_laws, of "replicate 31 0 @ [255]" "1 # replicate 31 0"]
  by (simp add: le_nat_append)

section \<open>The value-bound leaf\<close>

text \<open>The leaf binds the value: for canonical inner commitments, two leaves are equal exactly when
  the permutation agrees at the two explicit field triples, and those triples are equal only when
  both the 128-bit value and the commitment bytes are. So two different notes with one leaf give a
  collision of the permutation at two explicit distinct points. When the permutation returns
  reduced field elements the leaf is itself canonical.\<close>

theorem merkle_leaf_binds:
  assumes "v < u128_limit" "w < u128_limit"
    and "length a = 32" "length b = 32" "is_canonical_fr_le a" "is_canonical_fr_le b"
    and laws: "field_laws F" and reduced: "\<And>t. poseidon t < fr_modulus"
  shows "is_canonical_fr_le (merkle_leaf F poseidon v a)
     \<and> (merkle_leaf F poseidon v a = merkle_leaf F poseidon w b
         \<longleftrightarrow> poseidon (v, le_nat a, 4) = poseidon (w, le_nat b, 4))
     \<and> ((v, le_nat a, 4 :: nat) = (w, le_nat b, 4) \<longleftrightarrow> v = w \<and> a = b)"
proof (intro conjI)
  have lim: "fr_modulus < 256 ^ 32" "u128_limit < fr_modulus" "4 < fr_modulus"
    by (simp_all add: fr_modulus_value)
  then have small: "poseidon t < 256 ^ 32" for t
    using reduced [of t] order.strict_trans by blast
  have decode: "le_nat (le_bytes 32 (poseidon t)) = poseidon t" for t
    using small by (rule le_nat_le_bytes_id)
  have leaf: "merkle_leaf F poseidon x c = le_bytes 32 (poseidon (x, le_nat c, 4))"
    if "x < u128_limit" "length c = 32" "is_canonical_fr_le c" for x c
  proof -
    have "x < fr_modulus" "le_nat c < fr_modulus"
      using that lim(2) by (auto simp: canonical_fr_iff)
    moreover have "fr_into_le_bytes F (poseidon t) = le_bytes 32 (poseidon t)" for t
      using laws reduced by (simp add: field_laws_def)
    ultimately show ?thesis
      using laws by (simp only: merkle_leaf_def Let_def field_laws_def MERKLE_LEAF_DOMAIN_def
          mod_less [OF lim(3)] mod_less)
  qed
  show "is_canonical_fr_le (merkle_leaf F poseidon v a)"
    unfolding leaf [OF assms(1,3,5)]
    by (rule canonical_fr_iff [THEN iffD2]) (simp_all only: decode reduced length_le_bytes)
  show "merkle_leaf F poseidon v a = merkle_leaf F poseidon w b
      \<longleftrightarrow> poseidon (v, le_nat a, 4) = poseidon (w, le_nat b, 4)"
    using decode leaf assms by metis
  show "(v, le_nat a, 4 :: nat) = (w, le_nat b, 4) \<longleftrightarrow> v = w \<and> a = b"
    using le_nat_inj assms(3,4) by auto
qed

theorem merkle_leaf_binds_witness:
  "is_canonical_fr_le
     (merkle_leaf ex_field (\<lambda>(x, y, z). (x + y + z) mod fr_modulus) 5 (1 # replicate 31 0))"
proof -
  have "is_canonical_fr_le (1 # replicate 31 0)"
    by (simp add: canonical_fr_iff fr_modulus_value)
  moreover have "(case t of (x, y, z) \<Rightarrow> (x + y + z) mod fr_modulus) < fr_modulus"
    for t :: "nat \<times> nat \<times> nat"
    by (simp add: fr_modulus_value split: prod.split)
  ultimately show ?thesis
    using merkle_leaf_binds [of 5 6 "1 # replicate 31 0" "1 # replicate 31 0" ex_field
        "\<lambda>(x, y, z). (x + y + z) mod fr_modulus"] ex_field_laws by simp
qed

end
