(* ===== verification/Nullifier_Registry.thy ===== *)
theory Nullifier_Registry
  imports Field_Utils Eager_Cell
begin

text \<open>
  The canister \<^verbatim>\<open>nullifier-registry\<close>: the permanent set of spent nullifiers with their
  insertion times, written only by the shielded pool. The stable map is \<open>nr_map\<close>, the eager
  cell with the pool reference \<open>nr_pool_ref\<close>, its heap mirror \<open>nr_pool\<close>. The caller and
  the clock are arguments.
\<close>

section \<open>State and operations\<close>

datatype nullifier_error =
    InvalidNullifier nat
  | NonCanonicalNullifier
  | NullifierAlreadySpent
  | NullifierAlreadySpentKey bytes
  | InvalidLimit
  | PageTooLarge nat

record registry =
  nr_map :: "(bytes, nat) fmap"
  nr_pool_ref :: principal_refs
  nr_pool :: "principal option"

definition MAX_NULLIFIERS_PAGE_SIZE :: nat where "MAX_NULLIFIERS_PAGE_SIZE = 500"

definition to_nullifier_key :: "bytes \<Rightarrow> (nullifier_error, bytes) res" where
  "to_nullifier_key bs =
    (if length bs \<noteq> 32 then fail (InvalidNullifier (length bs))
     else if \<not> is_canonical_fr_le bs then fail NonCanonicalNullifier
     else Inr bs)"

definition set_pool_canister :: "principal \<Rightarrow> registry \<Rightarrow> registry" where
  "set_pool_canister pool s = s \<lparr> nr_pool_ref := Some [pool], nr_pool := Some pool \<rparr>"

definition init_registry :: "principal \<Rightarrow> registry" where
  "init_registry pool =
     set_pool_canister pool \<lparr> nr_map = fmempty, nr_pool_ref = None, nr_pool = None \<rparr>"

definition assert_pool_canister :: "principal \<Rightarrow> registry \<Rightarrow> (nullifier_error, unit) res" where
  "assert_pool_canister caller s = (case nr_pool s of
     None \<Rightarrow> Inl Trap
   | Some pool \<Rightarrow> if caller \<noteq> pool then Inl Trap else Inr ())"

definition contains_nullifier :: "bytes \<Rightarrow> registry \<Rightarrow> bool" where
  "contains_nullifier nullifier s = (case to_nullifier_key nullifier of
     Inl _ \<Rightarrow> False
   | Inr key \<Rightarrow> key |\<in>| fmdom (nr_map s))"

definition insert_nullifier ::
  "principal \<Rightarrow> nat \<Rightarrow> bytes \<Rightarrow> registry \<Rightarrow> registry \<times> (nullifier_error, unit) res" where
  "insert_nullifier caller now nullifier s = (case assert_pool_canister caller s of
     Inl e \<Rightarrow> (s, Inl e)
   | Inr _ \<Rightarrow> (case to_nullifier_key nullifier of
       Inl e \<Rightarrow> (s, Inl e)
     | Inr key \<Rightarrow>
         if key |\<in>| fmdom (nr_map s) then (s, fail NullifierAlreadySpent)
         else (s \<lparr> nr_map := fmupd key now (nr_map s) \<rparr>, Inr ())))"

fun to_nullifier_keys :: "bytes list \<Rightarrow> (nullifier_error, bytes list) res" where
  "to_nullifier_keys [] = Inr []"
| "to_nullifier_keys (nf # nfs) =
     bind_res (to_nullifier_key nf) (\<lambda>key.
     bind_res (to_nullifier_keys nfs) (\<lambda>keys. Inr (key # keys)))"

fun check_batch_fresh ::
  "(bytes, nat) fmap \<Rightarrow> bytes set \<Rightarrow> bytes list \<Rightarrow> (nullifier_error, unit) res" where
  "check_batch_fresh stored seen [] = Inr ()"
| "check_batch_fresh stored seen (key # keys) =
    (if key |\<in>| fmdom stored then fail (NullifierAlreadySpentKey key)
     else if key \<in> seen then fail (NullifierAlreadySpentKey key)
     else check_batch_fresh stored (insert key seen) keys)"

definition insert_batch_impl ::
  "bytes list \<Rightarrow> nat \<Rightarrow> registry \<Rightarrow> registry \<times> (nullifier_error, unit) res" where
  "insert_batch_impl nullifiers now s = (case to_nullifier_keys nullifiers of
     Inl e \<Rightarrow> (s, Inl e)
   | Inr keys \<Rightarrow> (case check_batch_fresh (nr_map s) {} keys of
       Inl e \<Rightarrow> (s, Inl e)
     | Inr _ \<Rightarrow> (s \<lparr> nr_map := foldl (\<lambda>m key. fmupd key now m) (nr_map s) keys \<rparr>, Inr ())))"

definition insert_batch ::
  "principal \<Rightarrow> nat \<Rightarrow> bytes list \<Rightarrow> registry \<Rightarrow> registry \<times> (nullifier_error, unit) res" where
  "insert_batch caller now nullifiers s = (case assert_pool_canister caller s of
     Inl e \<Rightarrow> (s, Inl e)
   | Inr _ \<Rightarrow> insert_batch_impl nullifiers now s)"

definition contains_nullifiers_batch :: "bytes list \<Rightarrow> registry \<Rightarrow> bool list" where
  "contains_nullifiers_batch nullifiers s = map (\<lambda>nf. contains_nullifier nf s) nullifiers"

definition count_nullifiers :: "registry \<Rightarrow> nat" where
  "count_nullifiers s = fmlen (nr_map s)"

definition get_nullifiers_page_impl ::
  "bytes option \<Rightarrow> nat \<Rightarrow> registry \<Rightarrow> (nullifier_error, bytes list) res" where
  "get_nullifiers_page_impl start_after limit s =
    (if limit = 0 then fail InvalidLimit
     else if limit > MAX_NULLIFIERS_PAGE_SIZE then fail (PageTooLarge limit)
     else
     bind_res (case start_after of
         Some bs \<Rightarrow> bind_res (to_nullifier_key bs) (\<lambda>k. Inr (Some k))
       | None \<Rightarrow> Inr None) (\<lambda>start.
     Inr (case start of
         Some key \<Rightarrow> take limit (filter (\<lambda>k. key < k) (fmkeys (nr_map s)))
       | None \<Rightarrow> take limit (fmkeys (nr_map s)))))"

definition spent_at_impl :: "bytes \<Rightarrow> registry \<Rightarrow> nat option" where
  "spent_at_impl nullifier s = (case to_nullifier_key nullifier of
     Inl _ \<Rightarrow> None
   | Inr key \<Rightarrow> fmlookup (nr_map s) key)"

definition read_pool_ref_fail_closed :: "principal_refs \<Rightarrow> (nullifier_error, principal) res" where
  "read_pool_ref_fail_closed stored = (case stored of
     Some [pool_canister] \<Rightarrow> Inr pool_canister
   | _ \<Rightarrow> Inl Trap)"

definition get_authority_refs :: "registry \<Rightarrow> (nullifier_error, principal) res" where
  "get_authority_refs s = read_pool_ref_fail_closed (nr_pool_ref s)"

text \<open>An upgrade keeps stable memory and loses the heap.\<close>

definition post_upgrade_registry :: "registry \<Rightarrow> registry \<times> (nullifier_error, unit) res" where
  "post_upgrade_registry s = (case read_pool_ref_fail_closed (nr_pool_ref s) of
     Inl e \<Rightarrow> (s, Inl e)
   | Inr pool_canister \<Rightarrow> (s \<lparr> nr_pool := Some pool_canister \<rparr>, Inr ()))"

section \<open>Library lemmas\<close>

lemma to_nullifier_key_Inr [result_simps]:
  "to_nullifier_key bs = Inr k \<longleftrightarrow> k = bs \<and> length bs = 32 \<and> is_canonical_fr_le bs"
  by (auto simp: to_nullifier_key_def)

lemma to_nullifier_keys_Inr [result_simps]:
  "to_nullifier_keys nfs = Inr ks \<longleftrightarrow>
     ks = nfs \<and> (\<forall>nf \<in> set nfs. length nf = 32 \<and> is_canonical_fr_le nf)"
  by (induction nfs arbitrary: ks) (auto simp: result_simps)

lemma check_batch_fresh_Inr [result_simps]:
  "check_batch_fresh m seen ks = Inr u \<longleftrightarrow>
     distinct ks \<and> (\<forall>k \<in> set ks. k |\<notin>| fmdom m \<and> k \<notin> seen)"
  by (induction ks arbitrary: seen) auto

lemma foldl_fmupd_lookup:
  "fmlookup (foldl (\<lambda>m key. fmupd key now m) m ks) k
     = (if k \<in> set ks then Some now else fmlookup m k)"
  by (induction ks arbitrary: m) auto

lemma assert_pool_Inr [result_simps]:
  "assert_pool_canister caller s = Inr u \<longleftrightarrow> nr_pool s = Some caller"
  by (auto simp: assert_pool_canister_def split: option.splits)

definition valid_nullifier :: "bytes \<Rightarrow> bool" where
  "valid_nullifier nf \<longleftrightarrow> length nf = 32 \<and> is_canonical_fr_le nf"

lemma contains_nullifier_iff:
  "contains_nullifier nf s \<longleftrightarrow> valid_nullifier nf \<and> fmlookup (nr_map s) nf \<noteq> None"
  by (auto simp: contains_nullifier_def to_nullifier_key_def valid_nullifier_def fmlookup_dom_iff)

lemma insert_nullifier_ok:
  "insert_nullifier caller now nf s = (s', Inr u) \<longleftrightarrow>
     nr_pool s = Some caller \<and> valid_nullifier nf \<and> fmlookup (nr_map s) nf = None
     \<and> s' = s \<lparr> nr_map := fmupd nf now (nr_map s) \<rparr>"
  by (auto simp: insert_nullifier_def to_nullifier_key_def assert_pool_canister_def
      valid_nullifier_def fmlookup_dom_iff split: option.splits if_splits)

lemma insert_nullifier_err: "insert_nullifier caller now nf s = (s', Inl e) \<Longrightarrow> s' = s"
  by (auto simp: insert_nullifier_def split: sum.splits if_splits)

lemma insert_batch_ok:
  "insert_batch caller now nfs s = (s', Inr u) \<longleftrightarrow>
     nr_pool s = Some caller \<and> (\<forall>nf \<in> set nfs. valid_nullifier nf \<and> fmlookup (nr_map s) nf = None)
     \<and> distinct nfs
     \<and> s' = s \<lparr> nr_map := foldl (\<lambda>m key. fmupd key now m) (nr_map s) nfs \<rparr>"
proof (cases "nr_pool s = Some caller")
  case True
  have run: "insert_batch caller now nfs s = insert_batch_impl nfs now s"
    using True by (simp add: insert_batch_def assert_pool_canister_def)
  have keys: "to_nullifier_keys nfs = Inr nfs \<longleftrightarrow> (\<forall>nf \<in> set nfs. valid_nullifier nf)"
    by (simp add: result_simps valid_nullifier_def)
  have fresh: "check_batch_fresh (nr_map s) {} nfs = Inr ()
      \<longleftrightarrow> distinct nfs \<and> (\<forall>nf \<in> set nfs. fmlookup (nr_map s) nf = None)"
    by (auto simp: result_simps fmdom_notD fmdom_notI)
  have other: "to_nullifier_keys nfs = Inr ks \<Longrightarrow> ks = nfs" for ks
    by (simp add: result_simps)
  show ?thesis
    unfolding run using True keys fresh other
    by (cases "to_nullifier_keys nfs"; cases "check_batch_fresh (nr_map s) {} nfs")
      (auto simp: insert_batch_impl_def)
qed (auto simp: insert_batch_def assert_pool_canister_def split: option.splits if_splits)

lemma insert_batch_err: "insert_batch caller now nfs s = (s', Inl e) \<Longrightarrow> s' = s"
  by (auto simp: insert_batch_def insert_batch_impl_def split: sum.splits)

section \<open>The contract the pool relies on\<close>

text \<open>A double-spend guard: every accepted operation spends fresh, pairwise distinct nullifiers and
  exactly those; a refused one changes nothing. Whatever sequence of operations is run, each
  nullifier is then accepted at most once, and exactly once if it ends up spent.\<close>

locale double_spend_guard =
  fixes step :: "'op \<Rightarrow> 's \<Rightarrow> 's \<times> ('e, unit) res"
    and spends :: "'op \<Rightarrow> bytes list"
    and spent :: "'s \<Rightarrow> bytes \<Rightarrow> bool"
  assumes accepted_fresh: "step op s = (s', Inr ()) \<Longrightarrow>
      distinct (spends op) \<and> (\<forall>n \<in> set (spends op). \<not> spent s n)
      \<and> (\<forall>n. spent s' n \<longleftrightarrow> spent s n \<or> n \<in> set (spends op))"
    and refused_same: "step op s = (s', Inl e) \<Longrightarrow> spent s' n \<longleftrightarrow> spent s n"
begin

fun run :: "'op list \<Rightarrow> 's \<Rightarrow> 's" where
  "run [] s = s"
| "run (op # ops) s = run ops (fst (step op s))"

fun accepted :: "bytes \<Rightarrow> 'op list \<Rightarrow> 's \<Rightarrow> nat" where
  "accepted n [] s = 0"
| "accepted n (op # ops) s =
    (case step op s of
       (s', Inl _) \<Rightarrow> accepted n ops s'
     | (s', Inr _) \<Rightarrow> count_list (spends op) n + accepted n ops s')"

lemma count_list_distinct: "distinct xs \<Longrightarrow> count_list xs n = (if n \<in> set xs then 1 else 0)"
  by (induction xs) auto

lemma accepted_exact:
  "(if spent (run ops s) n then 1 else 0) = (if spent s n then 1 else 0) + accepted n ops s"
proof (induction ops arbitrary: s)
  case (Cons op ops)
  obtain s' r where st: "step op s = (s', r)" by (cases "step op s")
  show ?case
  proof (cases r)
    case (Inl e)
    then show ?thesis using st refused_same [of op s s' e n] Cons [of s'] by simp
  next
    case (Inr u)
    then have ok: "step op s = (s', Inr ())" using st by simp
    note f = accepted_fresh [OF ok]
    have "count_list (spends op) n = (if n \<in> set (spends op) then 1 else 0)"
      using f by (intro count_list_distinct) blast
    then show ?thesis using ok f Cons [of s'] by auto
  qed
qed simp

lemma spent_stays: "spent s n \<Longrightarrow> spent (run ops s) n"
  using accepted_exact [where ops = ops and s = s and n = n] by (simp split: if_splits)

lemma accepted_at_most_once: "accepted n ops s \<le> 1"
  using accepted_exact [where ops = ops and s = s and n = n] by (simp split: if_splits)

end

datatype registry_op =
    OpInsert principal nat bytes
  | OpBatch principal nat "bytes list"
  | OpUpgrade

definition registry_step ::
  "registry_op \<Rightarrow> registry \<Rightarrow> registry \<times> (nullifier_error, unit) res" where
  "registry_step op s = (case op of
     OpInsert caller now nf \<Rightarrow> insert_nullifier caller now nf s
   | OpBatch caller now nfs \<Rightarrow> insert_batch caller now nfs s
   | OpUpgrade \<Rightarrow> post_upgrade_registry s)"

definition registry_spends :: "registry_op \<Rightarrow> bytes list" where
  "registry_spends op = (case op of
     OpInsert _ _ nf \<Rightarrow> [nf] | OpBatch _ _ nfs \<Rightarrow> nfs | OpUpgrade \<Rightarrow> [])"

lemma registry_step_map:
  assumes "registry_step op s = (s', Inr ())"
  shows "distinct (registry_spends op)
     \<and> (\<forall>n \<in> set (registry_spends op). valid_nullifier n \<and> fmlookup (nr_map s) n = None)
     \<and> (\<exists>now. \<forall>n. fmlookup (nr_map s') n
          = (if n \<in> set (registry_spends op) then Some now else fmlookup (nr_map s) n))"
proof (cases op)
  case (OpInsert caller now nf)
  then show ?thesis
    using assms insert_nullifier_ok [of caller now nf s s' "()"]
    by (auto simp: registry_step_def registry_spends_def intro!: exI [of _ now])
next
  case (OpBatch caller now nfs)
  then show ?thesis
    using assms insert_batch_ok [of caller now nfs s s' "()"]
    by (auto simp: registry_step_def registry_spends_def foldl_fmupd_lookup intro!: exI [of _ now])
next
  case OpUpgrade
  then show ?thesis
    using assms by (auto simp: registry_step_def registry_spends_def post_upgrade_registry_def
        split: sum.splits)
qed

lemma registry_step_err: "registry_step op s = (s', Inl e) \<Longrightarrow> s' = s"
  using insert_nullifier_err insert_batch_err
  by (auto simp: registry_step_def post_upgrade_registry_def
      split: registry_op.splits sum.splits)

interpretation nullifiers: double_spend_guard registry_step registry_spends
    "\<lambda>s n. contains_nullifier n s"
proof (unfold_locales, goal_cases)
  case (1 op s s')
  from registry_step_map [OF 1] obtain now where
    m: "\<forall>n. fmlookup (nr_map s') n
        = (if n \<in> set (registry_spends op) then Some now else fmlookup (nr_map s) n)"
    by blast
  with registry_step_map [OF 1] show ?case by (auto simp: contains_nullifier_iff)
next
  case (2 op s s' e n)
  then show ?case using registry_step_err by metis
qed

text \<open>C5: No double spend: over any sequence of single inserts, batch inserts and upgrades, from any
  callers and with any inputs, the number of accepted operations that spend a nullifier is at most
  one, is zero when it was spent before, and is one exactly when the registry goes from not
  containing it to containing it. A nullifier once contained is contained for ever.\<close>

theorem no_double_spend:
  "(if contains_nullifier n (nullifiers.run ops s) then 1 else 0)
     = (if contains_nullifier n s then 1 else 0) + nullifiers.accepted n ops s
   \<and> nullifiers.accepted n ops s \<le> 1"
  using nullifiers.accepted_exact [where ops = ops and s = s and n = n]
    nullifiers.accepted_at_most_once [where ops = ops and s = s and n = n] by simp

text \<open>A batch is all or nothing: it is accepted exactly when the caller is the pool and its
  members are pairwise distinct canonical 32-byte values none of which is spent; it then records
  every member with the same timestamp and touches no other entry. In every other case (a trap or
  an error naming the offending nullifier) the registry is unchanged.\<close>

theorem insert_batch_all_or_nothing:
  "case insert_batch caller now nfs s of
     (s', Inl _) \<Rightarrow> s' = s
       \<and> \<not> (nr_pool s = Some caller \<and> distinct nfs
            \<and> list_all (\<lambda>nf. valid_nullifier nf \<and> \<not> contains_nullifier nf s) nfs)
   | (s', Inr _) \<Rightarrow> nr_pool s = Some caller \<and> distinct nfs
       \<and> list_all (\<lambda>nf. valid_nullifier nf \<and> \<not> contains_nullifier nf s) nfs
       \<and> nr_pool s' = nr_pool s
       \<and> (\<forall>k. fmlookup (nr_map s') k = (if k \<in> set nfs then Some now else fmlookup (nr_map s) k))"
proof -
  obtain s' r where run: "insert_batch caller now nfs s = (s', r)" by (cases "insert_batch caller now nfs s")
  show ?thesis
  proof (cases r)
    case (Inl e)
    have "\<not> (nr_pool s = Some caller
        \<and> (\<forall>nf \<in> set nfs. valid_nullifier nf \<and> fmlookup (nr_map s) nf = None) \<and> distinct nfs)"
    proof
      assume "nr_pool s = Some caller
        \<and> (\<forall>nf \<in> set nfs. valid_nullifier nf \<and> fmlookup (nr_map s) nf = None) \<and> distinct nfs"
      then have "insert_batch caller now nfs s
          = (s \<lparr> nr_map := foldl (\<lambda>m key. fmupd key now m) (nr_map s) nfs \<rparr>, Inr ())"
        by (simp add: insert_batch_ok)
      then show False using run Inl by simp
    qed
    then show ?thesis
      using run Inl insert_batch_err [of caller now nfs s s' e]
      by (auto simp: list_all_iff contains_nullifier_iff)
  next
    case (Inr u)
    then show ?thesis
      using run insert_batch_ok [of caller now nfs s s' u]
      by (auto simp: list_all_iff contains_nullifier_iff foldl_fmupd_lookup)
  qed
qed

section \<open>Pagination\<close>

text \<open>The wallet's loop: ask for pages of size \<open>limit\<close>, each starting after the last key of the one
  before, until a page is short. \<open>fuel\<close> bounds the number of requests.\<close>

fun download :: "nat \<Rightarrow> bytes option \<Rightarrow> nat \<Rightarrow> registry \<Rightarrow> bytes list option" where
  "download 0 start limit s = None"
| "download (Suc fuel) start limit s = (case get_nullifiers_page_impl start limit s of
     Inl _ \<Rightarrow> None
   | Inr page \<Rightarrow>
       if length page < limit then Some page
       else map_option (\<lambda>rest. page @ rest) (download fuel (Some (last page)) limit s))"

definition keys_valid :: "registry \<Rightarrow> bool" where
  "keys_valid s \<longleftrightarrow> (\<forall>k \<in> fset (fmdom (nr_map s)). valid_nullifier k)"

lemma step_keys_valid:
  assumes "keys_valid s"
  shows "keys_valid (fst (registry_step op s))"
proof -
  obtain s' r where st: "registry_step op s = (s', r)" by (cases "registry_step op s")
  show ?thesis
  proof (cases r)
    case (Inl e)
    then show ?thesis using st assms registry_step_err [of op s s' e] by simp
  next
    case (Inr u)
    then have "registry_step op s = (s', Inr ())" using st by simp
    from registry_step_map [OF this] obtain now where
      v: "\<forall>n \<in> set (registry_spends op). valid_nullifier n" and
      m: "\<forall>n. fmlookup (nr_map s') n
        = (if n \<in> set (registry_spends op) then Some now else fmlookup (nr_map s) n)"
      by blast
    have "valid_nullifier k" if "k |\<in>| fmdom (nr_map s')" for k
      using that v m assms by (auto simp: keys_valid_def fmlookup_dom_iff split: if_splits)
    then show ?thesis using st by (simp add: keys_valid_def)
  qed
qed

lemma run_keys_valid: "keys_valid s \<Longrightarrow> keys_valid (nullifiers.run ops s)"
  by (induction ops arbitrary: s) (auto intro: step_keys_valid)

lemma init_keys_valid: "keys_valid (init_registry pool)"
  by (simp add: keys_valid_def init_registry_def set_pool_canister_def)

lemma filter_gt_sorted:
  "sorted xs \<Longrightarrow> distinct xs \<Longrightarrow> i < length xs \<Longrightarrow>
     filter (\<lambda>k. xs ! i < k) xs = drop (Suc i) (xs :: 'a::linorder list)"
proof -
  assume s: "sorted xs" and d: "distinct xs" and i: "i < length xs"
  have split: "xs = take (Suc i) xs @ drop (Suc i) xs" by simp
  have "\<not> xs ! i < x" if "x \<in> set (take (Suc i) xs)" for x
  proof -
    from that obtain j where "j < Suc i" "x = xs ! j" using i by (auto simp: in_set_conv_nth)
    then show ?thesis using s i by (simp add: sorted_nth_mono leD)
  qed
  moreover have "xs ! i < x" if "x \<in> set (drop (Suc i) xs)" for x
  proof -
    from that obtain j where j: "j < length xs - Suc i" "x = xs ! (Suc i + j)"
      by (auto simp: in_set_conv_nth)
    then have "xs ! i \<le> x" "xs ! i \<noteq> x"
      using s d i by (auto simp: sorted_nth_mono nth_eq_iff_index_eq)
    then show ?thesis by simp
  qed
  ultimately have "filter (\<lambda>k. xs ! i < k) (take (Suc i) xs) = []"
      "filter (\<lambda>k. xs ! i < k) (drop (Suc i) xs) = drop (Suc i) xs"
    by (auto simp: filter_empty_conv)
  then show ?thesis by (metis split filter_append append_Nil)
qed

text \<open>A page that follows the first \<open>i\<close> keys is the next \<open>limit\<close> keys.\<close>

definition cursor :: "registry \<Rightarrow> nat \<Rightarrow> bytes option" where
  "cursor s i = (if i = 0 then None else Some (fmkeys (nr_map s) ! (i - 1)))"

lemma page_at_cursor:
  assumes "keys_valid s" "i \<le> length (fmkeys (nr_map s))" "0 < limit" "limit \<le> 500"
  shows "get_nullifiers_page_impl (cursor s i) limit s = Inr (take limit (drop i (fmkeys (nr_map s))))"
proof (cases i)
  case 0
  then show ?thesis
    using assms by (simp add: get_nullifiers_page_impl_def cursor_def MAX_NULLIFIERS_PAGE_SIZE_def)
next
  case (Suc j)
  let ?k = "fmkeys (nr_map s) ! j"
  have "?k \<in> set (fmkeys (nr_map s))" using Suc assms(2) by (intro nth_mem) simp
  then have "to_nullifier_key ?k = Inr ?k"
    using assms(1) by (auto simp: keys_valid_def valid_nullifier_def result_simps)
  moreover have "filter (\<lambda>k. ?k < k) (fmkeys (nr_map s)) = drop i (fmkeys (nr_map s))"
    using Suc assms(2) by (simp only: Suc) (rule filter_gt_sorted, simp_all)
  ultimately show ?thesis
    using assms(3,4) Suc
    by (simp add: get_nullifiers_page_impl_def cursor_def MAX_NULLIFIERS_PAGE_SIZE_def)
qed

lemma download_from:
  assumes "keys_valid s" "0 < limit" "limit \<le> 500"
  shows "i \<le> length (fmkeys (nr_map s)) \<Longrightarrow> length (fmkeys (nr_map s)) - i < fuel * limit \<Longrightarrow>
     download fuel (cursor s i) limit s = Some (drop i (fmkeys (nr_map s)))"
proof (induction fuel arbitrary: i)
  case (Suc fuel)
  let ?ks = "fmkeys (nr_map s)"
  note page = page_at_cursor [OF assms(1) Suc.prems(1) assms(2,3)]
  show ?case
  proof (cases "length ?ks - i < limit")
    case True
    then show ?thesis using page by simp
  next
    case False
    then have next_i: "i + limit \<le> length ?ks" using Suc.prems by simp
    have "take limit (drop i ?ks) \<noteq> []" using next_i assms(2) by auto
    then have "last (take limit (drop i ?ks)) = ?ks ! (i + limit - 1)"
      using next_i assms(2) by (simp add: last_conv_nth)
    then have cur: "Some (last (take limit (drop i ?ks))) = cursor s (i + limit)"
      using assms(2) by (simp add: cursor_def)
    have "length ?ks - (i + limit) < fuel * limit"
      using Suc.prems(2) next_i by simp
    then have "download fuel (cursor s (i + limit)) limit s = Some (drop (i + limit) ?ks)"
      using Suc.IH next_i by simp
    moreover have "take limit (drop i ?ks) @ drop (i + limit) ?ks = drop i ?ks"
      by (metis append_take_drop_id drop_drop add.commute)
    ultimately show ?thesis using False page cur by simp
  qed
qed simp

text \<open>C23: Pagination is exact and terminates: on any state reached from a fresh registry, a wallet
  that downloads with any page size between 1 and 500 finishes within \<open>count div limit + 1\<close>
  requests and obtains the spent set exactly: sorted, without repetition, every spent nullifier and
  nothing else.\<close>

theorem download_exact:
  assumes "0 < limit" "limit \<le> 500" and s_def: "s = nullifiers.run ops (init_registry pool)"
  shows "\<exists>xs. download (count_nullifiers s div limit + 1) None limit s = Some xs
     \<and> sorted xs \<and> distinct xs \<and> length xs = count_nullifiers s
     \<and> (\<forall>n. n \<in> set xs \<longleftrightarrow> contains_nullifier n s)"
proof -
  have kv: "keys_valid s" unfolding s_def by (intro run_keys_valid init_keys_valid)
  have "count_nullifiers s < (count_nullifiers s div limit + 1) * limit"
    using assms(1) dividend_less_div_times [of limit "count_nullifiers s"] by simp
  then have "download (count_nullifiers s div limit + 1) None limit s = Some (fmkeys (nr_map s))"
    using download_from [OF kv assms(1,2), of 0 "count_nullifiers s div limit + 1"]
    by (simp add: cursor_def count_nullifiers_def del: download.simps)
  moreover have "n \<in> set (fmkeys (nr_map s)) \<longleftrightarrow> contains_nullifier n s" for n
    using kv by (auto simp: contains_nullifier_iff keys_valid_def fmlookup_dom_iff)
  ultimately show ?thesis by (simp add: count_nullifiers_def)
qed

text \<open>Two spent nullifiers, downloaded one per request.\<close>

abbreviation ex_nullifier :: "8 word \<Rightarrow> bytes" where "ex_nullifier b \<equiv> b # replicate 31 0"

definition ex_registry :: registry where
  "ex_registry = nullifiers.run [OpBatch [1] 5 [ex_nullifier 2, ex_nullifier 1]] (init_registry [1])"

lemma ex_nullifiers_valid: "valid_nullifier (ex_nullifier 1)" "valid_nullifier (ex_nullifier 2)"
  by (simp_all add: valid_nullifier_def canonical_fr_iff fr_modulus_value)

lemma ex_registry_map:
  "nr_map ex_registry = fmupd (ex_nullifier 1) 5 (fmupd (ex_nullifier 2) 5 fmempty)"
proof -
  have "insert_batch [1] 5 [ex_nullifier 2, ex_nullifier 1] (init_registry [1])
      = ((init_registry [1])\<lparr> nr_map := foldl (\<lambda>m key. fmupd key 5 m) (nr_map (init_registry [1]))
           [ex_nullifier 2, ex_nullifier 1] \<rparr>, Inr ())"
    unfolding insert_batch_ok by (simp add: ex_nullifiers_valid init_registry_def set_pool_canister_def)
  then show ?thesis
    by (simp add: ex_registry_def registry_step_def init_registry_def set_pool_canister_def)
qed

theorem download_exact_witness:
  "\<exists>xs. download (count_nullifiers ex_registry div 1 + 1) None 1 ex_registry = Some xs
     \<and> sorted xs \<and> distinct xs \<and> set xs = {ex_nullifier 1, ex_nullifier 2}"
proof -
  have "contains_nullifier n ex_registry \<longleftrightarrow> n \<in> {ex_nullifier 1, ex_nullifier 2}" for n
    by (auto simp: contains_nullifier_iff ex_registry_map ex_nullifiers_valid)
  then show ?thesis
    using download_exact [OF _ _ ex_registry_def, of 1] by (simp add: set_eq_iff) blast
qed

end
