(* ===== verification/Merkle_Tree.thy ===== *)
theory Merkle_Tree
  imports Field_Utils Eager_Cell
begin

text \<open>
  The canister \<^verbatim>\<open>merkle-tree\<close>: the append-only commitment tree of depth 32 with its node
  cache, the ring of the last 100 roots and the public scan interface. The Poseidon permutation on
  pairs of field elements and the conversions of the field are third-party code and are the parameter
  \<open>ph\<close>. The reference
  definition is \<open>node\<close>, the hash of the complete binary tree over a leaf list padded with the
  canonical empty leaf; the lemmas show that the incremental update, the root history and the
  upgrade re-derivation compute exactly that.
\<close>

unbundle bit_operations_syntax

section \<open>Constants, hashing, node keys\<close>

definition TREE_DEPTH :: nat where "TREE_DEPTH = 32"
definition ROOT_HISTORY_SIZE :: nat where "ROOT_HISTORY_SIZE = 100"
definition MAX_TREE_LEAVES :: nat where "MAX_TREE_LEAVES = 2 ^ TREE_DEPTH"
definition MAX_BATCH_SIZE :: nat where "MAX_BATCH_SIZE = 10"
definition MAX_SCAN_PAGE_SIZE :: nat where "MAX_SCAN_PAGE_SIZE = 500"
definition MAX_ENCRYPTED_PAYLOAD_BYTES :: nat where "MAX_ENCRYPTED_PAYLOAD_BYTES = 1024"

lemmas tree_consts = TREE_DEPTH_def ROOT_HISTORY_SIZE_def MAX_TREE_LEAVES_def MAX_BATCH_SIZE_def
  MAX_SCAN_PAGE_SIZE_def MAX_ENCRYPTED_PAYLOAD_BYTES_def

text \<open>The hash library: the conversions of the field with the permutation on pairs. \<open>permutation_laws\<close> is
  what the code relies on: the laws of the conversions, and that a hash is a reduced field element.\<close>

record permutation = field_ops +
  ph_hash :: "nat \<times> nat \<Rightarrow> nat"

definition permutation_laws :: "permutation \<Rightarrow> bool" where
  "permutation_laws ph \<longleftrightarrow> field_laws ph \<and> (\<forall>t. ph_hash ph t < fr_modulus)"

definition poseidon_hash_pair_inner :: "permutation \<Rightarrow> bytes \<Rightarrow> bytes \<Rightarrow> bytes" where
  "poseidon_hash_pair_inner ph left right =
    (let left_fr = fr_from_le_bytes ph left;
         right_fr = fr_from_le_bytes ph right
     in fr_into_le_bytes ph (ph_hash ph (left_fr, right_fr)))"

definition poseidon_hash_pair :: "permutation \<Rightarrow> bytes \<Rightarrow> bytes \<Rightarrow> bytes" where
  "poseidon_hash_pair ph left right = poseidon_hash_pair_inner ph left right"

definition zero_bytes :: bytes where "zero_bytes = replicate 32 0"

text \<open>The table \<^verbatim>\<open>ZERO_VALUES\<close>: entry 0 is the hash of two zero field elements, entry
  \<open>i\<close> the hash of entry \<open>i - 1\<close> with itself.\<close>

fun compute_zero_values_raw :: "permutation \<Rightarrow> nat \<Rightarrow> bytes" where
  "compute_zero_values_raw ph 0 = poseidon_hash_pair_inner ph zero_bytes zero_bytes"
| "compute_zero_values_raw ph (Suc i) =
     poseidon_hash_pair_inner ph (compute_zero_values_raw ph i) (compute_zero_values_raw ph i)"

definition zero_value :: "permutation \<Rightarrow> nat \<Rightarrow> bytes" where
  "zero_value ph level = compute_zero_values_raw ph level"

definition encode_node_key :: "nat \<Rightarrow> nat \<Rightarrow> 64 word" where
  "encode_node_key level index =
     push_bit 32 (of_nat level) OR (of_nat index AND 0xFFFFFFFF)"

section \<open>State\<close>

record tree_state =
  mt_commitments :: "(nat, bytes) fmap"
  mt_payloads :: "(nat, bytes) fmap"
  mt_root_history :: "(nat, bytes) fmap"
  mt_nodes :: "(64 word, bytes) fmap"
  mt_leaf_count :: nat
  mt_root_index :: nat
  mt_pool_ref :: principal_refs
  mt_pool :: "principal option"

datatype tree_error =
    TreeFull nat nat
  | InvalidLength nat
  | InvalidCommitment
  | PayloadTooLong nat
  | BatchTooLarge nat
  | ScanPageTooLarge nat
  | RangeOverflow nat nat
  | MissingCommitment nat
  | MissingPayload nat

section \<open>The incremental tree\<close>

fun update_path ::
  "permutation \<Rightarrow> nat \<Rightarrow> nat \<Rightarrow> nat \<Rightarrow> bytes \<Rightarrow> (64 word, bytes) fmap
     \<Rightarrow> (64 word, bytes) fmap \<times> bytes" where
  "update_path ph level 0 index current nodes = (nodes, current)"
| "update_path ph level (Suc k) index current nodes =
    (let node_key = encode_node_key level index;
         nodes = fmupd node_key current nodes;
         sibling_index = (if index mod 2 = 0 then index + 1 else index - 1);
         sibling_key = encode_node_key level sibling_index;
         sibling = fmget (zero_value ph level) nodes sibling_key;
         current = (if index mod 2 = 0 then poseidon_hash_pair ph current sibling
                    else poseidon_hash_pair ph sibling current)
     in update_path ph (Suc level) k (index div 2) current nodes)"

definition update_tree ::
  "permutation \<Rightarrow> nat \<Rightarrow> bytes \<Rightarrow> tree_state \<Rightarrow> tree_state \<times> bytes" where
  "update_tree ph leaf_index leaf_hash s =
    (case update_path ph 0 TREE_DEPTH leaf_index leaf_hash (mt_nodes s) of
       (nodes, root) \<Rightarrow> (s \<lparr> mt_nodes := nodes \<rparr>, root))"

definition store_root :: "bytes \<Rightarrow> tree_state \<Rightarrow> tree_state" where
  "store_root root s =
     s \<lparr> mt_root_index := mt_root_index s + 1,
         mt_root_history := fmupd (mt_root_index s mod ROOT_HISTORY_SIZE) root (mt_root_history s) \<rparr>"

definition current_root :: "permutation \<Rightarrow> tree_state \<Rightarrow> bytes" where
  "current_root ph s =
    (let idx = mt_root_index s - 1
     in fmget (zero_value ph TREE_DEPTH) (mt_root_history s) (idx mod ROOT_HISTORY_SIZE))"

definition set_pool_canister_mt :: "principal \<Rightarrow> tree_state \<Rightarrow> tree_state" where
  "set_pool_canister_mt pool s = s \<lparr> mt_pool_ref := Some [pool], mt_pool := Some pool \<rparr>"

definition init_tree :: "permutation \<Rightarrow> principal \<Rightarrow> tree_state" where
  "init_tree ph pool =
     store_root (zero_value ph TREE_DEPTH) (set_pool_canister_mt pool
       \<lparr> mt_commitments = fmempty, mt_payloads = fmempty, mt_root_history = fmempty,
         mt_nodes = fmempty, mt_leaf_count = 0, mt_root_index = 0,
         mt_pool_ref = None, mt_pool = None \<rparr>)"

section \<open>Appending\<close>

definition assert_pool :: "principal \<Rightarrow> tree_state \<Rightarrow> (tree_error, unit) res" where
  "assert_pool caller s = (case mt_pool s of
     None \<Rightarrow> Inl Trap
   | Some pool \<Rightarrow> if caller \<noteq> pool then Inl Trap else Inr ())"

definition ensure_capacity_for_append :: "nat \<Rightarrow> nat \<Rightarrow> (tree_error, unit) res" where
  "ensure_capacity_for_append leaf_count batch_len =
    (case checked_add 64 leaf_count batch_len of
       Some sum_len \<Rightarrow> if sum_len \<le> MAX_TREE_LEAVES then Inr () else fail (TreeFull batch_len leaf_count)
     | None \<Rightarrow> fail (TreeFull batch_len leaf_count))"

definition validate_commitment_bytes :: "bytes \<Rightarrow> (tree_error, bytes) res" where
  "validate_commitment_bytes commitment =
    (if length commitment \<noteq> 32 then fail (InvalidLength (length commitment))
     else if \<not> is_canonical_fr_le commitment then fail InvalidCommitment
     else Inr commitment)"

text \<open>The body both endpoints share once everything is validated.\<close>

definition append_leaf :: "permutation \<Rightarrow> bytes \<Rightarrow> bytes \<Rightarrow> tree_state \<Rightarrow> tree_state \<times> nat" where
  "append_leaf ph hash encrypted_payload s =
    (let index = mt_leaf_count s;
         s = s \<lparr> mt_leaf_count := index + 1 \<rparr>;
         s = s \<lparr> mt_commitments := fmupd index hash (mt_commitments s) \<rparr>;
         s = s \<lparr> mt_payloads := fmupd index encrypted_payload (mt_payloads s) \<rparr>
     in case update_tree ph index hash s of
          (s, new_root) \<Rightarrow> (store_root new_root s, index))"

definition append_commitment ::
  "permutation \<Rightarrow> principal \<Rightarrow> bytes \<Rightarrow> bytes \<Rightarrow> tree_state \<Rightarrow> tree_state \<times> (tree_error, nat) res"
  where
  "append_commitment ph caller commitment encrypted_payload s =
    (case assert_pool caller s of Inl e \<Rightarrow> (s, Inl e) | Inr _ \<Rightarrow>
     case validate_commitment_bytes commitment of Inl e \<Rightarrow> (s, Inl e) | Inr arr \<Rightarrow>
     if length encrypted_payload > MAX_ENCRYPTED_PAYLOAD_BYTES then
       (s, fail (PayloadTooLong (length encrypted_payload)))
     else
     case ensure_capacity_for_append (mt_leaf_count s) 1 of Inl e \<Rightarrow> (s, Inl e) | Inr _ \<Rightarrow>
     case append_leaf ph arr encrypted_payload s of (s', index) \<Rightarrow> (s', Inr index))"

fun validate_items :: "(bytes \<times> bytes) list \<Rightarrow> (tree_error, (bytes \<times> bytes) list) res" where
  "validate_items [] = Inr []"
| "validate_items ((commitment, encrypted_payload) # items) =
     bind_res (validate_commitment_bytes commitment) (\<lambda>arr.
     if length encrypted_payload > MAX_ENCRYPTED_PAYLOAD_BYTES then
       fail (PayloadTooLong (length encrypted_payload))
     else bind_res (validate_items items) (\<lambda>validated. Inr ((arr, encrypted_payload) # validated)))"

fun append_leaves :: "permutation \<Rightarrow> (bytes \<times> bytes) list \<Rightarrow> tree_state \<Rightarrow> tree_state \<times> nat list"
  where
  "append_leaves ph [] s = (s, [])"
| "append_leaves ph ((arr, encrypted_payload) # items) s =
    (case append_leaf ph arr encrypted_payload s of (s, index) \<Rightarrow>
     case append_leaves ph items s of (s, indices) \<Rightarrow> (s, index # indices))"

definition append_commitments ::
  "permutation \<Rightarrow> principal \<Rightarrow> (bytes \<times> bytes) list \<Rightarrow> tree_state
     \<Rightarrow> tree_state \<times> (tree_error, nat list) res" where
  "append_commitments ph caller items s =
    (case assert_pool caller s of Inl e \<Rightarrow> (s, Inl e) | Inr _ \<Rightarrow>
     if length items > MAX_BATCH_SIZE then (s, fail (BatchTooLarge (length items)))
     else
     case ensure_capacity_for_append (mt_leaf_count s) (length items) of
       Inl e \<Rightarrow> (s, Inl e) | Inr _ \<Rightarrow>
     case validate_items items of Inl e \<Rightarrow> (s, Inl e) | Inr validated \<Rightarrow>
     case append_leaves ph validated s of (s', indices) \<Rightarrow> (s', Inr indices))"

section \<open>Queries\<close>

definition get_scan_head :: "permutation \<Rightarrow> tree_state \<Rightarrow> nat \<times> bytes" where
  "get_scan_head ph s = (mt_leaf_count s, current_root ph s)"

fun scan_entries ::
  "nat list \<Rightarrow> tree_state \<Rightarrow> (tree_error, (nat \<times> bytes \<times> bytes) list) res" where
  "scan_entries [] s = Inr []"
| "scan_entries (index # is) s =
     bind_res (ok_or (MissingCommitment index) (fmlookup (mt_commitments s) index)) (\<lambda>leaf.
     bind_res (ok_or (MissingPayload index) (fmlookup (mt_payloads s) index))
       (\<lambda>encrypted_payload.
     bind_res (scan_entries is s) (\<lambda>rest. Inr ((index, leaf, encrypted_payload) # rest))))"

definition get_scan_page ::
  "nat \<Rightarrow> nat \<Rightarrow> tree_state \<Rightarrow> (tree_error, (nat \<times> bytes \<times> bytes) list) res" where
  "get_scan_page from_index limit s =
    (if limit > MAX_SCAN_PAGE_SIZE then fail (ScanPageTooLarge limit)
     else
     bind_res (ok_or (RangeOverflow from_index limit) (checked_add 64 from_index limit))
       (\<lambda>requested_end.
     let end_index = min requested_end (mt_leaf_count s)
     in scan_entries [from_index..<end_index] s))"

definition get_root_at_index :: "nat \<Rightarrow> tree_state \<Rightarrow> bytes option" where
  "get_root_at_index index s =
    (let leaf_count = mt_leaf_count s in
     if index \<ge> leaf_count then None
     else if index < leaf_count - ROOT_HISTORY_SIZE then None
     else let slot = (index + 1) mod ROOT_HISTORY_SIZE in fmlookup (mt_root_history s) slot)"

definition is_valid_anchor :: "bytes \<Rightarrow> tree_state \<Rightarrow> bool" where
  "is_valid_anchor root s =
    (if length root \<noteq> 32 then False
     else list_ex (\<lambda>i. case fmlookup (mt_root_history s) i of None \<Rightarrow> False | Some h \<Rightarrow> h = root)
            [0..<ROOT_HISTORY_SIZE])"

definition get_leaf :: "nat \<Rightarrow> tree_state \<Rightarrow> bytes option" where
  "get_leaf index s = fmlookup (mt_commitments s) index"

definition get_payloads :: "nat \<Rightarrow> nat \<Rightarrow> tree_state \<Rightarrow> (tree_error, (nat \<times> bytes) list) res" where
  "get_payloads from_index limit s =
    (let limit = min limit 500 in
     bind_res (add_or_trap 64 from_index limit) (\<lambda>end_index.
     Inr (List.map_filter
       (\<lambda>i. map_option (\<lambda>payload. (i, payload)) (fmlookup (mt_payloads s) i))
       [from_index..<end_index])))"

section \<open>Upgrade\<close>

definition decode_authority_refs :: "principal_refs \<Rightarrow> principal option" where
  "decode_authority_refs stored = (case stored of Some [pool_canister] \<Rightarrow> Some pool_canister | _ \<Rightarrow> None)"

text \<open>Stable memory survives, the heap counters are re-derived and checked.\<close>

definition post_upgrade_tree :: "tree_state \<Rightarrow> (tree_error, tree_state) res" where
  "post_upgrade_tree s =
    (case decode_authority_refs (mt_pool_ref s) of None \<Rightarrow> Inl Trap | Some pool_canister \<Rightarrow>
     let s = s \<lparr> mt_pool := Some pool_canister \<rparr>;
         leaf_count = fmlen (mt_commitments s);
         s = s \<lparr> mt_leaf_count := leaf_count \<rparr>;
         root_index = leaf_count + 1;
         s = s \<lparr> mt_root_index := root_index \<rparr>;
         occupied = fmlen (mt_root_history s);
         expected_roots = min root_index ROOT_HISTORY_SIZE
     in if leaf_count > 0 \<and> fmlookup (mt_commitments s) (leaf_count - 1) = None then Inl Trap
        else if fmlookup (mt_commitments s) leaf_count \<noteq> None then Inl Trap
        else if occupied \<noteq> expected_roots then Inl Trap
        else Inr s)"

section \<open>The reference tree\<close>

text \<open>\<open>node ph ls l i\<close> is the hash of the \<open>i\<close>-th node at height \<open>l\<close> of the complete tree whose
  leaves are \<open>ls\<close> followed by empty leaves.\<close>

fun node :: "permutation \<Rightarrow> bytes list \<Rightarrow> nat \<Rightarrow> nat \<Rightarrow> bytes" where
  "node ph ls 0 i = (if i < length ls then ls ! i else zero_value ph 0)"
| "node ph ls (Suc l) i =
     poseidon_hash_pair ph (node ph ls l (2 * i)) (node ph ls l (2 * i + 1))"

definition merkle_root :: "permutation \<Rightarrow> bytes list \<Rightarrow> bytes" where
  "merkle_root ph ls = node ph ls 32 0"

lemma node_empty: "length ls \<le> i * 2 ^ l \<Longrightarrow> node ph ls l i = zero_value ph l"
  by (induction l arbitrary: i)
    (simp_all add: zero_value_def poseidon_hash_pair_def algebra_simps)

lemma node_take: "(i + 1) * 2 ^ l \<le> n \<Longrightarrow> node ph (take n ls) l i = node ph ls l i"
proof (induction l arbitrary: i)
  case (Suc l)
  then have "(2 * i + 1 + 1) * 2 ^ l \<le> n" "(2 * i + 1) * 2 ^ l \<le> n"
    by (simp_all add: algebra_simps)
  then show ?case using Suc.IH [of "2 * i"] Suc.IH [of "2 * i + 1"] by (simp add: algebra_simps)
qed auto

text \<open>Appending one leaf changes only the nodes on its path.\<close>

lemma node_append_other:
  "i \<noteq> length ls div 2 ^ l \<Longrightarrow> node ph (ls @ [x]) l i = node ph ls l i"
proof (induction l arbitrary: i)
  case 0
  then show ?case by (auto simp: nth_append)
next
  case (Suc l)
  define m where "m = length ls div 2 ^ l"
  have "length ls div 2 ^ Suc l = m div 2"
    by (simp add: m_def mult.commute flip: div_mult2_eq)
  then have "2 * i \<noteq> m" "2 * i + 1 \<noteq> m"
    using Suc.prems by auto
  then show ?case using Suc.IH by (simp add: m_def)
qed

section \<open>Node keys\<close>

lemma low32_mask: "(0xFFFFFFFF :: 64 word) = mask 32"
  by (simp add: mask_eq_exp_minus_1)

lemma high_bits: "a < 2 ^ 32 \<Longrightarrow> bit a n \<Longrightarrow> n < 32" for a :: nat
proof (rule ccontr)
  assume a: "a < 2 ^ 32" "bit a n" "\<not> n < 32"
  then have "(2 :: nat) ^ 32 \<le> 2 ^ n" by (intro power_increasing) auto
  then have "a div 2 ^ n = 0" using a(1) by simp
  then show False using a(2) by (simp add: bit_iff_odd)
qed

lemma encode_node_key_inj:
  assumes "l < 2 ^ 32" "l' < 2 ^ 32" "i < 2 ^ 32" "j < 2 ^ 32"
    and eq: "encode_node_key l i = encode_node_key l' j"
  shows "l = l' \<and> i = j"
proof -
  have low: "unat (take_bit 32 (encode_node_key a b)) = b" if "b < 2 ^ 32" for a b
  proof -
    have "take_bit 32 (encode_node_key a b) = take_bit 32 (of_nat b :: 64 word)"
      by (rule bit_eqI) (auto simp: encode_node_key_def bit_simps low32_mask)
    then show ?thesis
      using that by (simp add: unsigned_take_bit_eq unat_of_nat)
        (simp add: take_bit_eq_mod)
  qed
  have high: "unat (drop_bit 32 (encode_node_key a b)) = a" if "a < 2 ^ 32" for a b
  proof -
    have "drop_bit 32 (encode_node_key a b) = (of_nat a :: 64 word)"
      by (rule bit_eqI)
        (use high_bits [OF that] in \<open>auto simp: encode_node_key_def bit_simps low32_mask\<close>)
    then show ?thesis
      using that by (simp add: unat_of_nat)
  qed
  show ?thesis
    using low [OF assms(3), of l] low [OF assms(4), of l'] high [OF assms(1), of i]
      high [OF assms(2), of j] eq by simp
qed

section \<open>The incremental update computes the reference tree\<close>

text \<open>\<open>cached ph lo hi l nodes\<close>: below level \<open>l\<close> the cache describes the leaves \<open>lo\<close>, from
  level \<open>l\<close> up the leaves \<open>hi\<close>; the update moves \<open>l\<close> from 0 to 32.\<close>

definition cached :: "permutation \<Rightarrow> bytes list \<Rightarrow> bytes list \<Rightarrow> nat \<Rightarrow> (64 word, bytes) fmap \<Rightarrow> bool"
  where
  "cached ph lo hi l nodes \<longleftrightarrow> (\<forall>k i. k < 32 \<longrightarrow> i < 2 ^ 32 \<longrightarrow>
     fmlookup nodes (encode_node_key k i)
       = (let ls = if k < l then lo else hi in
          if i * 2 ^ k < length ls then Some (node ph ls k i) else None))"

lemma cachedD:
  "cached ph lo hi l nodes \<Longrightarrow> k < 32 \<Longrightarrow> i < 2 ^ 32 \<Longrightarrow>
     fmlookup nodes (encode_node_key k i)
       = (let ls = if k < l then lo else hi in
          if i * 2 ^ k < length ls then Some (node ph ls k i) else None)"
  by (simp add: cached_def)

lemma key_eq_iff:
  "k < 32 \<Longrightarrow> l < 32 \<Longrightarrow> i < 2 ^ 32 \<Longrightarrow> j < 2 ^ 32 \<Longrightarrow>
     encode_node_key k i = encode_node_key l j \<longleftrightarrow> k = l \<and> i = j"
  using encode_node_key_inj [of k l i j] by auto

lemma on_path: "i * 2 ^ l < Suc n \<Longrightarrow> i \<noteq> n div 2 ^ l \<Longrightarrow> i * 2 ^ l < n" for n :: nat
  by (metis less_Suc_eq nonzero_mult_div_cancel_right power_eq_0_iff zero_neq_numeral)

lemma cached_step:
  assumes "cached ph (ls @ [x]) ls l nodes" "l < 32" "length ls < 2 ^ 32"
  shows "cached ph (ls @ [x]) ls (Suc l)
     (fmupd (encode_node_key l (length ls div 2 ^ l)) (node ph (ls @ [x]) l (length ls div 2 ^ l)) nodes)"
  unfolding cached_def
proof (intro allI impI)
  fix k i :: nat
  assume k: "k < 32" and i: "i < 2 ^ 32"
  let ?p = "length ls div 2 ^ l"
  have p: "?p < 2 ^ 32" using assms(3) div_le_dividend order.strict_trans1 by blast
  note old = cachedD [OF assms(1) k i]
  show "fmlookup (fmupd (encode_node_key l ?p) (node ph (ls @ [x]) l ?p) nodes) (encode_node_key k i)
     = (let ls = if k < Suc l then ls @ [x] else ls in
        if i * 2 ^ k < length ls then Some (node ph ls k i) else None)"
  proof (cases "k = l")
    case True
    show ?thesis
    proof (cases "i = ?p")
      case eq: True
      have "?p * 2 ^ l < Suc (length ls)"
        by (rule le_imp_less_Suc [OF div_times_less_eq_dividend])
      then show ?thesis using True eq by simp
    next
      case False
      have "i * 2 ^ l < Suc (length ls) \<longleftrightarrow> i * 2 ^ l < length ls" using on_path False by auto
      moreover have "encode_node_key l ?p \<noteq> encode_node_key l i"
        using key_eq_iff [OF assms(2) assms(2) p i] False by simp
      ultimately show ?thesis
        using True False old node_append_other [of i ls l ph x] by simp
    qed
  next
    case False
    then have "k < Suc l \<longleftrightarrow> k < l" by auto
    moreover have "encode_node_key l ?p \<noteq> encode_node_key k i"
      using key_eq_iff [OF assms(2) k p i] False by simp
    ultimately show ?thesis using old by simp
  qed
qed

lemma sibling_value:
  assumes "cached ph ls hi (Suc l) nodes" "l < 32" "i < 2 ^ 32"
  shows "fmget (zero_value ph l) nodes (encode_node_key l i) = node ph ls l i"
  using cachedD [OF assms(1-3)] node_empty [of ls i l ph]
  by (simp add: fmget_def not_less)

lemma parent_hash:
  "(if p mod 2 = 0 then poseidon_hash_pair ph (node ph ls l p)
        (node ph ls l (if p mod 2 = 0 then p + 1 else p - 1))
    else poseidon_hash_pair ph (node ph ls l (if p mod 2 = 0 then p + 1 else p - 1))
        (node ph ls l p))
   = node ph ls (Suc l) (p div 2)"
proof (cases "even p")
  case True
  then obtain q where "p = 2 * q" by (elim evenE)
  then show ?thesis by simp
next
  case False
  then obtain q where "p = 2 * q + 1" by (elim oddE)
  then show ?thesis by simp
qed

lemma update_path_correct:
  assumes "length ls < 2 ^ 32"
  shows "level + k = 32 \<Longrightarrow> cached ph (ls @ [x]) ls level nodes \<Longrightarrow>
     \<exists>nodes'. update_path ph level k (length ls div 2 ^ level)
         (node ph (ls @ [x]) level (length ls div 2 ^ level)) nodes
       = (nodes', node ph (ls @ [x]) 32 0) \<and> cached ph (ls @ [x]) ls 32 nodes'"
proof (induction k arbitrary: level nodes)
  case 0
  then show ?case using assms by simp
next
  case (Suc k)
  let ?ls = "ls @ [x]" and ?p = "length ls div 2 ^ level"
  let ?nodes = "fmupd (encode_node_key level ?p) (node ph ?ls level ?p) nodes"
  let ?sib = "if ?p mod 2 = 0 then ?p + 1 else ?p - 1"
  have l: "level < 32" using Suc.prems by simp
  have p: "?p < 2 ^ 32" using assms div_le_dividend order.strict_trans1 by blast
  then have sib: "?sib < 2 ^ 32" by (auto simp: mod_eq_0_iff_dvd)
  have mid: "cached ph ?ls ls (Suc level) ?nodes"
    by (rule cached_step [OF Suc.prems(2) l assms])
  have sv: "fmget (zero_value ph level) ?nodes (encode_node_key level ?sib) = node ph ?ls level ?sib"
    by (rule sibling_value [OF mid l sib])
  have half: "?p div 2 = length ls div 2 ^ Suc level"
    by (simp add: mult.commute flip: div_mult2_eq)
  have up: "(if ?p mod 2 = 0 then poseidon_hash_pair ph (node ph ?ls level ?p) (node ph ?ls level ?sib)
      else poseidon_hash_pair ph (node ph ?ls level ?sib) (node ph ?ls level ?p))
    = node ph ?ls (Suc level) (length ls div 2 ^ Suc level)"
    unfolding half [symmetric] by (rule parent_hash)
  have "update_path ph level (Suc k) ?p (node ph ?ls level ?p) nodes
     = update_path ph (Suc level) k (length ls div 2 ^ Suc level)
         (node ph ?ls (Suc level) (length ls div 2 ^ Suc level)) ?nodes"
    using up sv half by (simp only: update_path.simps Let_def)
  then show ?case using Suc.IH [OF _ mid] Suc.prems(1) by simp
qed

section \<open>The state invariant\<close>

text \<open>The abstraction: the list of appended leaves. Root number \<open>k\<close> is the root of the first \<open>k\<close>
  leaves; the ring holds the last 100 of them.\<close>

definition leaves :: "tree_state \<Rightarrow> bytes list" where
  "leaves s = map (\<lambda>i. fmget [] (mt_commitments s) i) [0..<mt_leaf_count s]"

definition dense :: "nat \<Rightarrow> (nat, 'v) fmap \<Rightarrow> bool" where
  "dense n m \<longleftrightarrow> (\<forall>i. fmlookup m i \<noteq> None \<longleftrightarrow> i < n)"

definition ring_ok :: "permutation \<Rightarrow> bytes list \<Rightarrow> (nat, bytes) fmap \<Rightarrow> bool" where
  "ring_ok ph ls ring \<longleftrightarrow>
     (\<forall>k \<le> length ls. length ls < k + 100 \<longrightarrow>
        fmlookup ring (k mod 100) = Some (merkle_root ph (take k ls)))
     \<and> (\<forall>q. fmlookup ring q \<noteq> None \<longleftrightarrow> q < min (length ls + 1) 100)"

definition tree_inv :: "permutation \<Rightarrow> tree_state \<Rightarrow> bool" where
  "tree_inv ph s \<longleftrightarrow>
     mt_leaf_count s \<le> 2 ^ 32
     \<and> dense (mt_leaf_count s) (mt_commitments s)
     \<and> dense (mt_leaf_count s) (mt_payloads s)
     \<and> cached ph (leaves s) (leaves s) 32 (mt_nodes s)
     \<and> mt_root_index s = mt_leaf_count s + 1
     \<and> ring_ok ph (leaves s) (mt_root_history s)
     \<and> (\<exists>pool. mt_pool_ref s = Some [pool] \<and> mt_pool s = Some pool)"

lemma length_leaves [simp]: "length (leaves s) = mt_leaf_count s"
  by (simp add: leaves_def)

lemma dense_upd: "dense n m \<Longrightarrow> dense (Suc n) (fmupd n v m)"
  by (auto simp: dense_def less_Suc_eq)

lemma dense_fmlen: "dense n m \<Longrightarrow> fmlen m = n"
proof -
  assume d: "dense n m"
  then have "fset (fmdom m) = {..<n}"
    by (auto simp: dense_def fmlookup_dom_iff)
  then show ?thesis by (simp add: fmlen_def fcard.rep_eq)
qed

lemma tree_init_inv: "tree_inv ph (init_tree ph pool)"
  by (auto simp: tree_inv_def init_tree_def store_root_def set_pool_canister_mt_def leaves_def
      dense_def cached_def ring_ok_def merkle_root_def tree_consts node_empty)

lemma cached_swap: "cached ph ls hi 32 nodes \<Longrightarrow> cached ph ls ls 32 nodes"
  by (simp add: cached_def)

lemma cached_swap0: "cached ph ls ls 32 nodes \<Longrightarrow> cached ph hi ls 0 nodes"
  by (simp add: cached_def)

lemma ring_slots_differ: "k < m \<Longrightarrow> m < k + 100 \<Longrightarrow> m mod 100 \<noteq> k mod 100" for k m :: nat
  using mod_eq_dvd_iff_nat [of k m 100] nat_dvd_not_less [of "m - k" 100] by auto

lemma ring_ok_append:
  assumes "ring_ok ph ls ring"
  shows "ring_ok ph (ls @ [x])
     (fmupd ((length ls + 1) mod 100) (merkle_root ph (ls @ [x])) ring)"
  unfolding ring_ok_def
proof (intro conjI allI impI)
  let ?n = "length ls"
  fix k assume k: "k \<le> length (ls @ [x])" "length (ls @ [x]) < k + 100"
  show "fmlookup (fmupd ((?n + 1) mod 100) (merkle_root ph (ls @ [x])) ring) (k mod 100)
      = Some (merkle_root ph (take k (ls @ [x])))"
  proof (cases "k = ?n + 1")
    case False
    then have le: "k \<le> ?n" and "?n + 1 - k < 100" "0 < ?n + 1 - k" using k by auto
    then have "(?n + 1) mod 100 \<noteq> k mod 100" by (intro ring_slots_differ) auto
    then show ?thesis using assms le k(2) by (simp add: ring_ok_def)
  qed simp
next
  fix q
  have "(length ls + 1) mod 100 < 100" by simp
  then show "fmlookup (fmupd ((length ls + 1) mod 100) (merkle_root ph (ls @ [x])) ring) q \<noteq> None
      \<longleftrightarrow> q < min (length (ls @ [x]) + 1) 100"
    using assms by (cases "length ls + 1 < 100") (auto simp: ring_ok_def)
qed

lemma leaves_append_leaf:
  assumes "append_leaf ph x pl s = (s', i)"
  shows "leaves s' = leaves s @ [x]" "i = mt_leaf_count s" "mt_leaf_count s' = Suc (mt_leaf_count s)"
    "mt_payloads s' = fmupd (mt_leaf_count s) pl (mt_payloads s)"
    "mt_pool s' = mt_pool s" "mt_pool_ref s' = mt_pool_ref s"
  using assms
  by (auto simp: append_leaf_def update_tree_def store_root_def leaves_def Let_def split: prod.splits)

lemma append_leaf_inv:
  assumes "tree_inv ph s" "mt_leaf_count s < 2 ^ 32" "append_leaf ph x pl s = (s', i)"
  shows "tree_inv ph s'"
proof -
  let ?ls = "leaves s" and ?n = "mt_leaf_count s"
  have lt: "length ?ls < 2 ^ 32" using assms(2) by simp
  have mid: "cached ph (?ls @ [x]) ?ls 0 (mt_nodes s)"
    using assms(1) by (intro cached_swap0) (simp add: tree_inv_def)
  obtain nodes' where up: "update_path ph 0 32 ?n x (mt_nodes s) = (nodes', merkle_root ph (?ls @ [x]))"
    and c: "cached ph (?ls @ [x]) ?ls 32 nodes'"
    using update_path_correct [OF lt, of 0 32 ph x "mt_nodes s"] mid
    by (auto simp: merkle_root_def nth_append)
  have run: "s' = s \<lparr> mt_leaf_count := Suc ?n, mt_commitments := fmupd ?n x (mt_commitments s),
      mt_payloads := fmupd ?n pl (mt_payloads s), mt_nodes := nodes',
      mt_root_index := mt_root_index s + 1,
      mt_root_history := fmupd (mt_root_index s mod 100) (merkle_root ph (?ls @ [x])) (mt_root_history s) \<rparr>"
    using assms(3) up
    by (auto simp: append_leaf_def update_tree_def store_root_def Let_def tree_consts)
  have l': "leaves s' = ?ls @ [x]" by (rule leaves_append_leaf(1) [OF assms(3)])
  have "ring_ok ph (leaves s') (mt_root_history s')"
    using ring_ok_append [of ph ?ls "mt_root_history s" x] assms(1) l'
    by (simp add: run tree_inv_def)
  then show ?thesis
    using assms(1,2) cached_swap [OF c] l'
    by (simp add: run tree_inv_def dense_upd)
qed

lemma append_leaves_run:
  assumes "append_leaves ph items s = (s', ids)"
  shows "leaves s' = leaves s @ map fst items
     \<and> ids = [mt_leaf_count s ..< mt_leaf_count s + length items]
     \<and> mt_leaf_count s' = mt_leaf_count s + length items
     \<and> mt_pool s' = mt_pool s
     \<and> (tree_inv ph s \<and> mt_leaf_count s + length items \<le> 2 ^ 32 \<longrightarrow> tree_inv ph s')"
  using assms
proof (induction items arbitrary: s s' ids)
  case (Cons it items)
  obtain x pl where it: "it = (x, pl)" by (cases it)
  obtain s1 i where one: "append_leaf ph x pl s = (s1, i)" by (cases "append_leaf ph x pl s")
  obtain ids' where rest: "append_leaves ph items s1 = (s', ids')" and ids: "ids = i # ids'"
    using Cons.prems one it by (auto split: prod.splits)
  note IH = Cons.IH [OF rest] and st = leaves_append_leaf [OF one]
  have "[mt_leaf_count s ..< mt_leaf_count s + length (it # items)]
      = mt_leaf_count s # [mt_leaf_count s1 ..< mt_leaf_count s1 + length items]"
    by (subst upt_conv_Cons) (simp_all add: st(3))
  then show ?case
    using IH st ids it append_leaf_inv [OF _ _ one] by auto
qed simp

lemma validate_items_Inr:
  "validate_items items = Inr v \<longleftrightarrow>
     v = items \<and> (\<forall>(c, p) \<in> set items. length c = 32 \<and> is_canonical_fr_le c \<and> length p \<le> 1024)"
  by (induction items arbitrary: v)
    (auto simp: result_simps validate_commitment_bytes_def tree_consts split: if_splits prod.splits)

lemma capacity_Inr:
  "ensure_capacity_for_append n k = Inr u \<longleftrightarrow> n + k \<le> 2 ^ 32"
  by (auto simp: ensure_capacity_for_append_def checked_add_def tree_consts)

lemma append_commitments_Inr:
  "append_commitments ph caller items s = (s', Inr is) \<longleftrightarrow>
     mt_pool s = Some caller \<and> length items \<le> 10 \<and> mt_leaf_count s + length items \<le> 2 ^ 32
     \<and> (\<forall>(c, p) \<in> set items. length c = 32 \<and> is_canonical_fr_le c \<and> length p \<le> 1024)
     \<and> append_leaves ph items s = (s', is)"
proof (cases "mt_pool s = Some caller \<and> length items \<le> 10 \<and> mt_leaf_count s + length items \<le> 2 ^ 32")
  case True
  then have "append_commitments ph caller items s = (case validate_items items of
      Inl e \<Rightarrow> (s, Inl e)
    | Inr validated \<Rightarrow> (case append_leaves ph validated s of (s', indices) \<Rightarrow> (s', Inr indices)))"
    using capacity_Inr [of "mt_leaf_count s" "length items" "()"]
    by (simp add: append_commitments_def assert_pool_def tree_consts)
  moreover have "validate_items items = Inr items \<longleftrightarrow>
      (\<forall>(c, p) \<in> set items. length c = 32 \<and> is_canonical_fr_le c \<and> length p \<le> 1024)"
    by (simp only: validate_items_Inr simp_thms)
  moreover have "v = items" if "validate_items items = Inr v" for v
    using that by (simp only: validate_items_Inr)
  ultimately show ?thesis
    using True by (cases "validate_items items") (auto split: prod.splits)
next
  case False
  have "ensure_capacity_for_append (mt_leaf_count s) (length items) = Inr u
      \<Longrightarrow> mt_leaf_count s + length items \<le> 2 ^ 32" for u
    by (simp add: capacity_Inr)
  with False show ?thesis
    by (auto simp: append_commitments_def assert_pool_def tree_consts
        split: option.splits if_splits sum.splits)
qed

lemma append_commitments_Inl: "append_commitments ph caller items s = (s', Inl e) \<Longrightarrow> s' = s"
  by (auto simp: append_commitments_def split: sum.splits if_splits prod.splits)

lemma append_commitment_Inr:
  "append_commitment ph caller c p s = (s', Inr i) \<longleftrightarrow>
     mt_pool s = Some caller \<and> length c = 32 \<and> is_canonical_fr_le c \<and> length p \<le> 1024
     \<and> mt_leaf_count s + 1 \<le> 2 ^ 32 \<and> append_leaf ph c p s = (s', i)"
proof (cases "mt_pool s = Some caller \<and> length c = 32 \<and> is_canonical_fr_le c \<and> length p \<le> 1024")
  case True
  then show ?thesis
    using capacity_Inr [of "mt_leaf_count s" 1]
    by (cases "ensure_capacity_for_append (mt_leaf_count s) 1")
      (auto simp: append_commitment_def assert_pool_def validate_commitment_bytes_def tree_consts
        split: prod.splits)
qed (auto simp: append_commitment_def assert_pool_def validate_commitment_bytes_def tree_consts
    split: option.splits if_splits sum.splits prod.splits)

lemma append_commitment_Inl: "append_commitment ph caller c p s = (s', Inl e) \<Longrightarrow> s' = s"
  by (auto simp: append_commitment_def split: sum.splits if_splits prod.splits)

lemma post_upgrade_inv:
  assumes "tree_inv ph s"
  shows "post_upgrade_tree (s \<lparr> mt_leaf_count := 0, mt_root_index := 0, mt_pool := None \<rparr>) = Inr s"
proof -
  obtain pool where pool: "mt_pool_ref s = Some [pool]" "mt_pool s = Some pool"
    using assms by (auto simp: tree_inv_def)
  have n: "fmlen (mt_commitments s) = mt_leaf_count s"
    using assms by (intro dense_fmlen) (simp add: tree_inv_def)
  have "dense (min (mt_leaf_count s + 1) 100) (mt_root_history s)"
    using assms by (simp add: tree_inv_def ring_ok_def dense_def)
  then have occ: "fmlen (mt_root_history s) = min (mt_leaf_count s + 1) 100"
    by (rule dense_fmlen)
  have d: "fmlookup (mt_commitments s) i \<noteq> None \<longleftrightarrow> i < mt_leaf_count s" for i
    using assms by (simp add: tree_inv_def dense_def)
  have "mt_root_index s = Suc (mt_leaf_count s)" using assms by (simp add: tree_inv_def)
  then show ?thesis
    using d [of "mt_leaf_count s"] d [of "mt_leaf_count s - 1"] pool
    by (cases "mt_leaf_count s")
      (auto simp: post_upgrade_tree_def decode_authority_refs_def Let_def n occ tree_consts)
qed

section \<open>Reachable states\<close>

text \<open>A message is an append by anyone with any input, or an upgrade, which wipes the heap.\<close>

datatype tree_op =
    TAppend principal bytes bytes
  | TAppendBatch principal "(bytes \<times> bytes) list"
  | TUpgrade

inductive tree_step :: "permutation \<Rightarrow> tree_state \<Rightarrow> tree_op \<Rightarrow> tree_state \<Rightarrow> bool" for ph where
  t_append: "append_commitment ph caller c p s = (s', r) \<Longrightarrow> tree_step ph s (TAppend caller c p) s'"
| t_batch: "append_commitments ph caller items s = (s', r)
    \<Longrightarrow> tree_step ph s (TAppendBatch caller items) s'"
| t_upgrade: "post_upgrade_tree (s \<lparr> mt_leaf_count := 0, mt_root_index := 0, mt_pool := None \<rparr>) = Inr s'
    \<Longrightarrow> tree_step ph s TUpgrade s'"

inductive tree_reach :: "permutation \<Rightarrow> tree_state \<Rightarrow> bool" for ph where
  r_init: "tree_reach ph (init_tree ph pool)"
| r_step: "tree_reach ph s \<Longrightarrow> tree_step ph s op s' \<Longrightarrow> tree_reach ph s'"

lemma step_tree_inv: "tree_step ph s op s' \<Longrightarrow> tree_inv ph s \<Longrightarrow> tree_inv ph s'"
proof (induction rule: tree_step.induct)
  case (t_append caller c p s s' r)
  then show ?case
    using append_leaf_inv
    by (cases r) (auto dest: append_commitment_Inl simp: append_commitment_Inr)
next
  case (t_batch caller items s s' r)
  then show ?case
    using append_leaves_run
    by (cases r) (auto dest: append_commitments_Inl simp: append_commitments_Inr)
next
  case (t_upgrade s s')
  then show ?case using post_upgrade_inv by simp
qed

lemma reach_tree_inv: "tree_reach ph s \<Longrightarrow> tree_inv ph s"
  by (induction rule: tree_reach.induct) (auto intro: tree_init_inv step_tree_inv)

section \<open>Properties\<close>

lemma reach_pool: "tree_reach ph s \<Longrightarrow> \<exists>pool. mt_pool s = Some pool"
  using reach_tree_inv by (auto simp: tree_inv_def)

lemma ring_lookup:
  "tree_inv ph s \<Longrightarrow> k \<le> mt_leaf_count s \<Longrightarrow> mt_leaf_count s < k + 100 \<Longrightarrow>
     fmlookup (mt_root_history s) (k mod 100) = Some (merkle_root ph (take k (leaves s)))"
  by (simp add: tree_inv_def ring_ok_def)

lemma root_of_inv:
  assumes "tree_inv ph s"
  shows "current_root ph s = merkle_root ph (leaves s)"
proof -
  have "mt_root_index s - 1 = mt_leaf_count s" using assms by (simp add: tree_inv_def)
  then show ?thesis
    using ring_lookup [OF assms, of "mt_leaf_count s"]
    by (simp add: current_root_def fmget_def tree_consts Let_def)
qed

text \<open>A concrete hash library for the witnesses.\<close>

definition ex_perm :: permutation where
  "ex_perm = field_ops.extend ex_field \<lparr> ph_hash = (\<lambda>_. 0) \<rparr>"

lemma ex_perm_simps:
  "ph_hash ex_perm t = 0" "fr_into_le_bytes ex_perm x = le_bytes 32 x"
  "fr_from_le_bytes ex_perm bs = le_nat bs mod fr_modulus"
  by (simp_all add: ex_perm_def field_ops.defs ex_field_def)

lemma ex_perm_laws: "permutation_laws ex_perm"
  using ex_field_laws
  by (simp add: permutation_laws_def field_laws_def ex_perm_def field_ops.defs fr_modulus_value)

text \<open>C15: The incremental tree is the Merkle tree: in every reachable state, whatever mixture of
  accepted and refused appends and upgrades led to it, the current root and the scan head are the
  hash of the complete depth-32 tree over exactly the appended leaves padded with empty leaves, and
  the leaf count is their number.\<close>

theorem current_root_correct:
  assumes "tree_reach ph s"
  shows "current_root ph s = merkle_root ph (leaves s)
     \<and> get_scan_head ph s = (length (leaves s), merkle_root ph (leaves s))"
  using root_of_inv [OF reach_tree_inv [OF assms]] by (simp add: get_scan_head_def)

theorem current_root_correct_witness:
  "current_root ex_perm (init_tree ex_perm [7]) = merkle_root ex_perm []"
  using current_root_correct [OF r_init [of ex_perm "[7]"]]
  by (simp add: leaves_def init_tree_def store_root_def set_pool_canister_mt_def)

text \<open>A batch append is atomic and exact: it is accepted exactly when the caller is the pool, the
  batch has at most 10 items, fits the tree and every item is a canonical 32-byte commitment with a
  payload of at most 1024 bytes; it then appends exactly the given commitments in order and returns
  their consecutive indices. In every other case the state is unchanged.\<close>

theorem append_batch_atomic:
  assumes "tree_reach ph s"
  shows "case append_commitments ph caller items s of
       (s', Inl _) \<Rightarrow> s' = s
     | (s', Inr ids) \<Rightarrow> mt_pool s = Some caller \<and> length items \<le> 10
         \<and> list_all (\<lambda>(c, p). length c = 32 \<and> is_canonical_fr_le c \<and> length p \<le> 1024) items
         \<and> leaves s' = leaves s @ map fst items
         \<and> ids = [length (leaves s) ..< length (leaves s) + length items]
         \<and> length (leaves s') \<le> 2 ^ 32
         \<and> current_root ph s' = merkle_root ph (leaves s @ map fst items)"
proof -
  obtain s' r where run: "append_commitments ph caller items s = (s', r)"
    by (cases "append_commitments ph caller items s")
  show ?thesis
  proof (cases r)
    case (Inl e)
    then show ?thesis using run append_commitments_Inl by simp
  next
    case (Inr ids)
    then have ok: "append_commitments ph caller items s = (s', Inr ids)" using run by simp
    note acc = ok [unfolded append_commitments_Inr]
    then have leaves: "append_leaves ph items s = (s', ids)" by blast
    note run' = append_leaves_run [OF leaves]
    have inv: "tree_inv ph s'" using run' acc reach_tree_inv [OF assms] by blast
    then have "length (leaves s') \<le> 2 ^ 32" by (simp add: tree_inv_def)
    moreover have "list_all (\<lambda>(c, p). length c = 32 \<and> is_canonical_fr_le c \<and> length p \<le> 1024) items"
      using acc unfolding list_all_iff by blast
    ultimately show ?thesis
      using ok acc run' root_of_inv [OF inv] by simp
  qed
qed

theorem append_batch_atomic_witness:
  "fst (append_commitments ex_perm [8] [([], [])] (init_tree ex_perm [7])) = init_tree ex_perm [7]"
  using append_batch_atomic [OF r_init [of ex_perm "[7]"], of "[8]" "[([], [])]"]
  by (simp add: append_commitments_def assert_pool_def init_tree_def store_root_def
      set_pool_canister_mt_def)

text \<open>The root history is exact: in every reachable state the query for leaf index \<open>i\<close> returns the
  Merkle root of the tree as it was right after leaf \<open>i\<close> was appended whenever that leaf exists and
  is among the 100 most recent, and nothing otherwise, so an evicted slot is never aliased.\<close>

theorem root_at_index_exact:
  assumes "tree_reach ph s"
  shows "get_root_at_index i s =
     (if i < length (leaves s) \<and> length (leaves s) \<le> i + 100
      then Some (merkle_root ph (take (i + 1) (leaves s))) else None)"
  using ring_lookup [OF reach_tree_inv [OF assms], of "i + 1"]
  by (auto simp: get_root_at_index_def tree_consts Let_def)

theorem root_at_index_exact_witness:
  "get_root_at_index 0 (init_tree ex_perm [7]) = None"
  using root_at_index_exact [OF r_init [of ex_perm "[7]"], of 0]
  by (simp add: init_tree_def store_root_def set_pool_canister_mt_def)

text \<open>An anchor is valid exactly when it is one of the last 100 roots: in every reachable state the
  anchor check accepts a value if and only if it has 32 bytes and is the Merkle root of one of the
  prefixes of the leaf sequence that the ring retains.\<close>

theorem valid_anchor_exact:
  assumes "tree_reach ph s"
  shows "is_valid_anchor r s \<longleftrightarrow> length r = 32
     \<and> (\<exists>k. k \<le> length (leaves s) \<and> length (leaves s) < k + 100
           \<and> r = merkle_root ph (take k (leaves s)))"
proof -
  note inv = reach_tree_inv [OF assms]
  let ?n = "mt_leaf_count s"
  have slot: "\<exists>k. k \<le> ?n \<and> ?n < k + 100 \<and> k mod 100 = q" if "q < min (?n + 1) 100" for q
  proof -
    have "q \<le> ?n" "q < 100" using that by auto
    moreover have "?n - q = 100 * ((?n - q) div 100) + (?n - q) mod 100" by simp
    moreover have "(?n - q) mod 100 < 100" by simp
    ultimately show ?thesis
      by (intro exI [of _ "q + 100 * ((?n - q) div 100)"]) (simp, linarith)
  qed
  have dom: "fmlookup (mt_root_history s) q \<noteq> None \<Longrightarrow> q < min (?n + 1) 100" for q
    using inv by (simp add: tree_inv_def ring_ok_def)
  have "(\<exists>q < 100. fmlookup (mt_root_history s) q = Some r)
      \<longleftrightarrow> (\<exists>k. k \<le> ?n \<and> ?n < k + 100 \<and> r = merkle_root ph (take k (leaves s)))"
  proof
    assume "\<exists>q < 100. fmlookup (mt_root_history s) q = Some r"
    then obtain q where q: "fmlookup (mt_root_history s) q = Some r" by blast
    then obtain k where "k \<le> ?n" "?n < k + 100" "k mod 100 = q" using slot dom by blast
    then show "\<exists>k. k \<le> ?n \<and> ?n < k + 100 \<and> r = merkle_root ph (take k (leaves s))"
      using ring_lookup [OF inv, of k] q by auto
  next
    assume "\<exists>k. k \<le> ?n \<and> ?n < k + 100 \<and> r = merkle_root ph (take k (leaves s))"
    then obtain k where k: "k \<le> ?n" "?n < k + 100" "r = merkle_root ph (take k (leaves s))"
      by blast
    then show "\<exists>q < 100. fmlookup (mt_root_history s) q = Some r"
      using ring_lookup [OF inv k(1,2)] by (intro exI [of _ "k mod 100"]) simp
  qed
  moreover have "is_valid_anchor r s \<longleftrightarrow> length r = 32
      \<and> (\<exists>q < 100. fmlookup (mt_root_history s) q = Some r)"
    by (auto simp: is_valid_anchor_def list_ex_iff tree_consts split: option.splits)
  ultimately show ?thesis by simp
qed

theorem valid_anchor_exact_witness:
  "\<not> is_valid_anchor (replicate 31 0) (init_tree ex_perm [7])
   \<and> is_valid_anchor (merkle_root ex_perm []) (init_tree ex_perm [7])"
proof -
  have "node ex_perm [] (Suc 31) 0 = le_bytes 32 0"
    by (simp only: node.simps poseidon_hash_pair_def poseidon_hash_pair_inner_def Let_def ex_perm_simps)
  then have "length (merkle_root ex_perm []) = 32" by (simp add: merkle_root_def)
  then show ?thesis
    using valid_anchor_exact [OF r_init [of ex_perm "[7]"], of "replicate 31 0"]
      valid_anchor_exact [OF r_init [of ex_perm "[7]"], of "merkle_root ex_perm []"]
    by (simp add: init_tree_def store_root_def set_pool_canister_mt_def leaves_def)
qed

text \<open>C24: An upgrade is transparent: from every reachable state, wiping the heap and re-deriving the
  leaf count and the root index from the stable maps passes every assertion of the upgrade hook and
  restores exactly the state before it.\<close>

theorem upgrade_restores_tree:
  assumes "tree_reach ph s"
  shows "post_upgrade_tree (s \<lparr> mt_leaf_count := 0, mt_root_index := 0, mt_pool := None \<rparr>) = Inr s"
  by (rule post_upgrade_inv [OF reach_tree_inv [OF assms]])

theorem upgrade_restores_tree_witness:
  "post_upgrade_tree (init_tree ex_perm [7]
      \<lparr> mt_leaf_count := 0, mt_root_index := 0, mt_pool := None \<rparr>) = Inr (init_tree ex_perm [7])"
  by (rule upgrade_restores_tree [OF r_init])

lemma scan_entries_run:
  "\<forall>i \<in> set ks. fmlookup (mt_commitments s) i \<noteq> None \<and> fmlookup (mt_payloads s) i \<noteq> None \<Longrightarrow>
     scan_entries ks s
       = Inr (map (\<lambda>i. (i, fmget [] (mt_commitments s) i, fmget [] (mt_payloads s) i)) ks)"
  by (induction ks) (auto simp: fmget_def)

lemma take_upt_min: "take l [i..<n] = [i ..< min (i + l) n]"
  by (rule nth_equalityI) auto

text \<open>The scan is dense and complete: in every reachable state a page request within the limits
  succeeds and returns exactly the entries of the requested range that exist, in order and without
  a gap, each with its commitment.\<close>

theorem scan_page_dense:
  assumes "tree_reach ph s" "limit \<le> 500" "i + limit < u64_limit"
  shows "\<exists>page. get_scan_page i limit s = Inr page
     \<and> map (\<lambda>(k, c, p). c) page = take limit (drop i (leaves s))
     \<and> map fst page = [i ..< min (i + limit) (length (leaves s))]"
proof -
  note inv = reach_tree_inv [OF assms(1)]
  let ?ks = "[i ..< min (i + limit) (mt_leaf_count s)]"
  have "\<forall>k \<in> set ?ks. fmlookup (mt_commitments s) k \<noteq> None \<and> fmlookup (mt_payloads s) k \<noteq> None"
    using inv by (simp add: tree_inv_def dense_def)
  then have run: "get_scan_page i limit s
      = Inr (map (\<lambda>i. (i, fmget [] (mt_commitments s) i, fmget [] (mt_payloads s) i)) ?ks)"
    using assms(2,3) scan_entries_run [of ?ks s]
    by (simp add: get_scan_page_def tree_consts checked_add_def Let_def)
  have "take limit (drop i (leaves s)) = map (fmget [] (mt_commitments s)) ?ks"
    by (simp add: leaves_def take_map drop_map take_upt_min)
  then show ?thesis using run by (simp add: comp_def)
qed

theorem scan_page_dense_witness:
  "\<exists>page. get_scan_page 0 5 (init_tree ex_perm [7]) = Inr page \<and> map fst page = []"
  using scan_page_dense [OF r_init [of ex_perm "[7]"], of 5 0]
  by (simp add: init_tree_def store_root_def set_pool_canister_mt_def)

section \<open>The root binds the leaves\<close>

text \<open>\<open>collide ph xs ys l i\<close> walks two trees with equal hashes and returns the first pair of
  distinct inputs that hash to the same value.\<close>

fun collide :: "permutation \<Rightarrow> bytes list \<Rightarrow> bytes list \<Rightarrow> nat \<Rightarrow> nat
    \<Rightarrow> ((bytes \<times> bytes) \<times> (bytes \<times> bytes)) option" where
  "collide ph xs ys 0 i = None"
| "collide ph xs ys (Suc l) i =
    (let a = (node ph xs l (2 * i), node ph xs l (2 * i + 1));
         b = (node ph ys l (2 * i), node ph ys l (2 * i + 1))
     in if a \<noteq> b then Some (a, b)
        else case collide ph xs ys l (2 * i) of
            Some r \<Rightarrow> Some r
          | None \<Rightarrow> collide ph xs ys l (2 * i + 1))"

definition canonical :: "bytes \<Rightarrow> bool" where
  "canonical bs \<longleftrightarrow> length bs = 32 \<and> is_canonical_fr_le bs"

lemma hash_bytes:
  assumes "permutation_laws ph"
  shows "poseidon_hash_pair_inner ph a b
      = le_bytes 32 (ph_hash ph (le_nat a mod fr_modulus, le_nat b mod fr_modulus))"
    and "le_nat (le_bytes 32 (ph_hash ph t)) = ph_hash ph t"
proof -
  have lt: "ph_hash ph t < fr_modulus" for t using assms unfolding permutation_laws_def by blast
  show "poseidon_hash_pair_inner ph a b
      = le_bytes 32 (ph_hash ph (le_nat a mod fr_modulus, le_nat b mod fr_modulus))"
    using assms lt by (simp add: poseidon_hash_pair_inner_def permutation_laws_def field_laws_def)
  have "fr_modulus < 256 ^ 32" by (simp add: fr_modulus_value)
  then have "ph_hash ph t < 256 ^ 32" using lt [of t] order.strict_trans by blast
  then show "le_nat (le_bytes 32 (ph_hash ph t)) = ph_hash ph t" by (rule le_nat_le_bytes_id)
qed

lemma hash_canonical:
  assumes "permutation_laws ph"
  shows "canonical (poseidon_hash_pair_inner ph a b)"
proof -
  have "ph_hash ph t < fr_modulus" for t using assms unfolding permutation_laws_def by blast
  then have "is_canonical_fr_le (le_bytes 32 (ph_hash ph t))" for t
    by (intro canonical_fr_iff [THEN iffD2]) (simp_all only: hash_bytes(2) [OF assms] length_le_bytes)
  then show ?thesis by (simp add: canonical_def hash_bytes(1) [OF assms])
qed

lemma node_canonical:
  assumes "permutation_laws ph" "\<forall>x \<in> set ls. canonical x"
  shows "canonical (node ph ls l i)"
proof (induction l arbitrary: i)
  case 0
  then show ?case
    using assms hash_canonical [of ph] by (simp add: zero_value_def)
qed (simp add: poseidon_hash_pair_def hash_canonical assms(1))

lemma hash_pair_eq:
  assumes "permutation_laws ph" "canonical a" "canonical b" "canonical c" "canonical d"
    and "poseidon_hash_pair ph a b = poseidon_hash_pair ph c d"
  shows "ph_hash ph (le_nat a, le_nat b) = ph_hash ph (le_nat c, le_nat d)"
proof -
  have "le_nat x mod fr_modulus = le_nat x" if "canonical x" for x
    using that canonical_fr_iff [of x] mod_less unfolding canonical_def by blast
  then have "le_bytes 32 (ph_hash ph (le_nat a, le_nat b)) = le_bytes 32 (ph_hash ph (le_nat c, le_nat d))"
    using assms(2-6) by (simp only: poseidon_hash_pair_def hash_bytes(1) [OF assms(1)])
  then show ?thesis using hash_bytes(2) [OF assms(1)] by metis
qed

lemma collide_sound:
  assumes "permutation_laws ph" "\<forall>x \<in> set xs \<union> set ys. canonical x"
  shows "node ph xs l i = node ph ys l i \<Longrightarrow> collide ph xs ys l i = Some ((a, b), (c, d)) \<Longrightarrow>
     (a, b) \<noteq> (c, d) \<and> canonical a \<and> canonical b \<and> canonical c \<and> canonical d
     \<and> ph_hash ph (le_nat a, le_nat b) = ph_hash ph (le_nat c, le_nat d)"
proof (induction l arbitrary: i)
  case (Suc l)
  have can: "canonical (node ph xs l j)" "canonical (node ph ys l j)" for j
    using assms by (intro node_canonical; simp)+
  show ?case
  proof (cases "(node ph xs l (2 * i), node ph xs l (2 * i + 1))
      = (node ph ys l (2 * i), node ph ys l (2 * i + 1))")
    case True
    then show ?thesis
      using Suc.prems Suc.IH [of "2 * i"] Suc.IH [of "2 * i + 1"]
      by (simp add: Let_def split: option.splits)
  next
    case False
    then have abcd: "a = node ph xs l (2 * i)" "b = node ph xs l (2 * i + 1)"
        "c = node ph ys l (2 * i)" "d = node ph ys l (2 * i + 1)"
      using Suc.prems(2) by (auto simp: Let_def)
    have "poseidon_hash_pair ph a b = poseidon_hash_pair ph c d"
      using Suc.prems(1) by (simp add: abcd)
    moreover have "canonical a" "canonical b" "canonical c" "canonical d"
      using can by (simp_all add: abcd)
    moreover have "(a, b) \<noteq> (c, d)"
      using False by (simp add: abcd)
    ultimately show ?thesis
      using hash_pair_eq [of ph a b c d] assms(1) by simp
  qed
qed simp

lemma collide_complete:
  "node ph xs l i = node ph ys l i \<Longrightarrow> collide ph xs ys l i = None \<Longrightarrow>
     i * 2 ^ l \<le> j \<Longrightarrow> j < (i + 1) * 2 ^ l \<Longrightarrow> node ph xs 0 j = node ph ys 0 j"
proof (induction l arbitrary: i)
  case 0
  then have "j = i" by simp
  then show ?case using 0 by simp
next
  case (Suc l)
  then have eq: "node ph xs l (2 * i) = node ph ys l (2 * i)"
      "node ph xs l (2 * i + 1) = node ph ys l (2 * i + 1)"
      "collide ph xs ys l (2 * i) = None" "collide ph xs ys l (2 * i + 1) = None"
    by (auto simp: Let_def split: if_splits option.splits)
  show ?case
  proof (cases "j < (2 * i + 1) * 2 ^ l")
    case True
    then show ?thesis using Suc.IH [of "2 * i"] eq Suc.prems(3) by (simp add: algebra_simps)
  next
    case False
    then show ?thesis using Suc.IH [of "2 * i + 1"] eq Suc.prems(4) by (simp add: algebra_simps)
  qed
qed

lemma append_leaves_set: "append_leaves ph items s = (s', ids) \<Longrightarrow> set (leaves s') = set (leaves s) \<union> fst ` set items"
  using append_leaves_run [of ph items s s' ids] by simp

text \<open>The endpoints validate every commitment, so all leaves of a reachable tree are canonical.\<close>

lemma reach_leaves_canonical: "tree_reach ph s \<Longrightarrow> \<forall>x \<in> set (leaves s). canonical x"
proof (induction rule: tree_reach.induct)
  case (r_init pool)
  then show ?case by (simp add: leaves_def init_tree_def store_root_def set_pool_canister_mt_def)
next
  case (r_step s op s')
  from r_step.hyps(2) show ?case
  proof cases
    case (t_append caller c p r)
    show ?thesis
    proof (cases r)
      case (Inl e)
      then show ?thesis using r_step.IH t_append(2) append_commitment_Inl by blast
    next
      case (Inr i)
      then have ok: "canonical c" "append_leaf ph c p s = (s', i)"
        using t_append(2) by (simp_all add: append_commitment_Inr canonical_def)
      show ?thesis using r_step.IH ok(1) by (simp add: leaves_append_leaf(1) [OF ok(2)])
    qed
  next
    case (t_batch caller items r)
    show ?thesis
    proof (cases r)
      case (Inl e)
      then show ?thesis using r_step.IH t_batch(2) append_commitments_Inl by blast
    next
      case (Inr ids)
      then have acc: "append_commitments ph caller items s = (s', Inr ids)" using t_batch(2) by simp
      have "append_leaves ph items s = (s', ids)"
        using acc unfolding append_commitments_Inr by blast
      note set = append_leaves_set [OF this]
      have "canonical (fst it)" if "it \<in> set items" for it
        using acc that unfolding append_commitments_Inr canonical_def by fastforce
      then show ?thesis using r_step.IH unfolding set by blast
    qed
  next
    case t_upgrade
    then show ?thesis using r_step.IH post_upgrade_inv [OF reach_tree_inv [OF r_step.hyps(1)]] by simp
  qed
qed

lemma leaves_differ:
  assumes "tree_inv ph s" "tree_inv ph t" "leaves s = leaves t"
  shows "get_leaf i s = get_leaf i t"
proof -
  have n: "mt_leaf_count s = mt_leaf_count t" using assms(3) length_leaves by metis
  have d: "get_leaf i u \<noteq> None \<longleftrightarrow> i < mt_leaf_count u" if "tree_inv ph u" for u
    using that by (simp add: tree_inv_def dense_def get_leaf_def)
  have l: "get_leaf i u = Some (leaves u ! i)" if "i < mt_leaf_count u" "tree_inv ph u" for u
    using that d [OF that(2)] by (auto simp: leaves_def get_leaf_def fmget_def)
  show ?thesis
  proof (cases "i < mt_leaf_count t")
    case True
    then show ?thesis using l [of s] l [of t] n assms by simp
  next
    case False
    then show ?thesis using d [OF assms(1)] d [OF assms(2)] n by simp
  qed
qed

lemma collision_found:
  assumes "length xs = length ys" "length xs \<le> 2 ^ 32" "xs \<noteq> ys" "permutation_laws ph"
    and can: "\<forall>x \<in> set xs \<union> set ys. canonical x"
    and "merkle_root ph xs = merkle_root ph ys"
  shows "\<exists>a b c d. collide ph xs ys 32 0 = Some ((a, b), (c, d))
     \<and> (le_nat a, le_nat b) \<noteq> (le_nat c, le_nat d)
     \<and> ph_hash ph (le_nat a, le_nat b) = ph_hash ph (le_nat c, le_nat d)"
proof (cases "collide ph xs ys 32 0")
  case None
  have "xs ! j = ys ! j" if "j < length xs" for j
    using collide_complete [OF _ None, of j] assms(1,2,6) that by (simp add: merkle_root_def)
  then have "xs = ys" using assms(1) by (intro nth_equalityI) auto
  then show ?thesis using assms(3) by simp
next
  case (Some r)
  obtain a b c d where r: "r = ((a, b), (c, d))" by (metis prod.exhaust)
  have col: "collide ph xs ys 32 0 = Some ((a, b), (c, d))" using Some r by (simp only:)
  have found: "(a, b) \<noteq> (c, d)" "canonical a" "canonical b" "canonical c" "canonical d"
      "ph_hash ph (le_nat a, le_nat b) = ph_hash ph (le_nat c, le_nat d)"
    using collide_sound [OF assms(4) can assms(6) [unfolded merkle_root_def] col] by blast+
  have "x = y" if "le_nat x = le_nat y" "canonical x" "canonical y" for x y
    using le_nat_inj that by (simp add: canonical_def)
  then have "(le_nat a, le_nat b) \<noteq> (le_nat c, le_nat d)"
    using found by blast
  then show ?thesis using col found(6) by blast
qed

text \<open>C25: The published scan head binds the whole leaf sequence: if two reachable trees, of whatever
  histories of appends and upgrades, answer the scan-head query with the same leaf count and root and yet
  return different leaves at some index, then the extractor returns an explicit collision of the
  permutation, two distinct pairs of field elements with the same hash.\<close>

theorem root_binds_leaves:
  assumes "tree_reach ph s" "tree_reach ph t" "permutation_laws ph"
    and "get_scan_head ph s = get_scan_head ph t" "get_leaf i s \<noteq> get_leaf i t"
  shows "\<exists>a b c d. collide ph (leaves s) (leaves t) 32 0 = Some ((a, b), (c, d))
     \<and> (le_nat a, le_nat b) \<noteq> (le_nat c, le_nat d)
     \<and> ph_hash ph (le_nat a, le_nat b) = ph_hash ph (le_nat c, le_nat d)"
proof (rule collision_found [OF _ _ _ assms(3)])
  note inv = reach_tree_inv [OF assms(1)] reach_tree_inv [OF assms(2)]
  show "length (leaves s) = length (leaves t)" "merkle_root ph (leaves s) = merkle_root ph (leaves t)"
    using assms(4) by (simp_all add: get_scan_head_def root_of_inv inv)
  show "length (leaves s) \<le> 2 ^ 32" using inv(1) by (simp add: tree_inv_def)
  show "leaves s \<noteq> leaves t" using leaves_differ [OF inv] assms(5) by blast
  show "\<forall>x \<in> set (leaves s) \<union> set (leaves t). canonical x"
    using reach_leaves_canonical [OF assms(1)] reach_leaves_canonical [OF assms(2)] by blast
qed

text \<open>The tree of one leaf, for the witness.\<close>

abbreviation ex_leaf :: "8 word \<Rightarrow> bytes" where "ex_leaf b \<equiv> b # replicate 31 0"

definition ex_tree :: "8 word \<Rightarrow> tree_state" where
  "ex_tree b = fst (append_commitment ex_perm [7] (ex_leaf b) [] (init_tree ex_perm [7]))"

lemma ex_tree_accepted:
  "append_commitment ex_perm [7] (ex_leaf b) [] (init_tree ex_perm [7]) = (ex_tree b, Inr 0)"
proof -
  have "unat b < 2 ^ LENGTH(8)" by (rule unsigned_less)
  then have "le_nat (ex_leaf b) < fr_modulus" by (simp add: fr_modulus_value)
  then have "is_canonical_fr_le (ex_leaf b)" by (intro canonical_fr_iff [THEN iffD2]) simp_all
  moreover obtain s' j where "append_leaf ex_perm (ex_leaf b) [] (init_tree ex_perm [7]) = (s', j)"
    by fastforce
  moreover have "j = 0" using leaves_append_leaf(2) [OF calculation(2)]
    by (simp add: init_tree_def store_root_def set_pool_canister_mt_def)
  ultimately have "append_commitment ex_perm [7] (ex_leaf b) [] (init_tree ex_perm [7]) = (s', Inr 0)"
    unfolding append_commitment_Inr by (simp add: init_tree_def store_root_def set_pool_canister_mt_def)
  then show ?thesis by (simp add: ex_tree_def)
qed

lemma ex_tree_facts:
  "tree_reach ex_perm (ex_tree b)" "leaves (ex_tree b) = [ex_leaf b]"
  "get_scan_head ex_perm (ex_tree b) = (1, le_bytes 32 0)" "get_leaf 0 (ex_tree b) = Some (ex_leaf b)"
proof -
  show r: "tree_reach ex_perm (ex_tree b)"
    by (rule tree_reach.r_step [OF tree_reach.r_init t_append [OF ex_tree_accepted]])
  have "append_leaf ex_perm (ex_leaf b) [] (init_tree ex_perm [7]) = (ex_tree b, 0)"
    using ex_tree_accepted [of b] unfolding append_commitment_Inr by blast
  from leaves_append_leaf(1) [OF this] show l: "leaves (ex_tree b) = [ex_leaf b]"
    by (simp add: leaves_def init_tree_def store_root_def set_pool_canister_mt_def)
  have n: "mt_leaf_count (ex_tree b) = 1" using l length_leaves [of "ex_tree b"] by simp
  have "node ex_perm zs (Suc 31) 0 = le_bytes 32 0" for zs
    by (simp only: node.simps poseidon_hash_pair_def poseidon_hash_pair_inner_def Let_def ex_perm_simps)
  then show "get_scan_head ex_perm (ex_tree b) = (1, le_bytes 32 0)"
    by (simp add: get_scan_head_def root_of_inv [OF reach_tree_inv [OF r]] n merkle_root_def)
  have "get_leaf 0 (ex_tree b) \<noteq> None"
    using reach_tree_inv [OF r] n by (simp add: tree_inv_def dense_def get_leaf_def)
  then show "get_leaf 0 (ex_tree b) = Some (ex_leaf b)"
    using l n by (auto simp: leaves_def fmget_def get_leaf_def)
qed

theorem root_binds_leaves_witness:
  "\<exists>a b c d. collide ex_perm [ex_leaf 1] [ex_leaf 2] 32 0 = Some ((a, b), (c, d))
     \<and> (le_nat a, le_nat b) \<noteq> (le_nat c, le_nat d)"
  using root_binds_leaves [OF ex_tree_facts(1) [of 1] ex_tree_facts(1) [of 2] ex_perm_laws, of 0]
  by (simp add: ex_tree_facts) blast

end
