(* ===== verification/Token_Types.thy ===== *)
theory Token_Types
  imports Byte_Codec
begin

text \<open>
  The data of the token ledger (\<^verbatim>\<open>canisters/token\<close>): accounts and their storage keys,
  allowance records, deposit receipts with their stable encodings, the arguments and errors of the
  endpoints, and the hashed identities of the idempotent operations. SHA-256 is third-party code
  and is the parameter \<open>sha\<close>; what is proved here concerns its inputs.
\<close>

section \<open>Accounts and keys\<close>

record account =
  acc_owner :: principal
  acc_sub :: "bytes option"

definition encode_key :: "account \<Rightarrow> bytes" where
  "encode_key a =
    (let key = [of_nat (length (acc_owner a))] @ acc_owner a in
     case acc_sub a of
       None \<Rightarrow> key
     | Some sub \<Rightarrow> if sub \<noteq> replicate 32 0 then key @ sub else key)"

definition compound_key :: "bytes \<Rightarrow> bytes \<Rightarrow> bytes" where
  "compound_key a b = le_bytes 4 (length a) @ a @ le_bytes 4 (length b) @ b"

text \<open>Indexing, slicing, \<^verbatim>\<open>copy_from_slice\<close> and \<^verbatim>\<open>Principal::from_slice\<close> (at most 29 bytes) panic on
  malformed keys.\<close>

definition account_from_bytes :: "bytes \<Rightarrow> (unit, account) res" where
  "account_from_bytes b =
    (if b = [] then Inl Trap
     else
       let len = unat (b ! 0); rest = drop (1 + len) b in
       if length b < 1 + len \<or> len > 29 then Inl Trap
       else if rest = [] then Inr \<lparr> acc_owner = slice 1 len b, acc_sub = None \<rparr>
       else if length rest = 32 then Inr \<lparr> acc_owner = slice 1 len b, acc_sub = Some rest \<rparr>
       else Inl Trap)"

text \<open>What the type system of the source guarantees of an account.\<close>

definition account_wf :: "account \<Rightarrow> bool" where
  "account_wf a \<longleftrightarrow> length (acc_owner a) \<le> 29
     \<and> (case acc_sub a of None \<Rightarrow> True | Some s \<Rightarrow> length s = 32)"

definition normal_account :: "account \<Rightarrow> account" where
  "normal_account a =
    (if acc_sub a = Some (replicate 32 0) then a \<lparr> acc_sub := None \<rparr> else a)"

lemma encode_key_normal: "encode_key (normal_account a) = encode_key a"
  by (auto simp: encode_key_def normal_account_def split: option.splits)

lemma encode_key_parts:
  "encode_key a = of_nat (length (acc_owner a)) # acc_owner a
     @ (case acc_sub (normal_account a) of None \<Rightarrow> [] | Some s \<Rightarrow> s)"
  by (auto simp: encode_key_def normal_account_def split: option.splits)

lemma normal_account_wf: "account_wf a \<Longrightarrow> account_wf (normal_account a)"
  by (simp add: account_wf_def normal_account_def)

lemma account_from_encode_key:
  assumes "account_wf a"
  shows "account_from_bytes (encode_key a) = Inr (normal_account a)"
proof -
  let ?n = "normal_account a"
  have wf: "account_wf ?n" using assms by (rule normal_account_wf)
  have own: "acc_owner a = acc_owner ?n" by (simp add: normal_account_def)
  have len: "unat (of_nat (length (acc_owner ?n)) :: byte) = length (acc_owner ?n)"
    using wf by (simp add: unat_byte_of_nat account_wf_def)
  show ?thesis
  proof (cases "acc_sub ?n")
    case None
    then have "encode_key a = of_nat (length (acc_owner ?n)) # acc_owner ?n"
      using own by (simp add: encode_key_parts)
    then show ?thesis
      using len None wf by (simp add: account_from_bytes_def slice_def account_wf_def)
  next
    case (Some s)
    then have "encode_key a = of_nat (length (acc_owner ?n)) # acc_owner ?n @ s"
      using own by (simp add: encode_key_parts)
    moreover have "length s = 32" using wf Some by (simp add: account_wf_def)
    ultimately show ?thesis
      using len Some wf by (auto simp: account_from_bytes_def slice_def account_wf_def Let_def)
  qed
qed

lemma encode_key_inj:
  "account_wf a \<Longrightarrow> account_wf b \<Longrightarrow> encode_key a = encode_key b \<longleftrightarrow> normal_account a = normal_account b"
  by (metis account_from_encode_key encode_key_normal sum.inject(2))

lemma le_bytes_prefix_inj:
  assumes "le_bytes k (length a) @ a @ x = le_bytes k (length b) @ b @ y"
    and "length a < 256 ^ k" "length b < 256 ^ k"
  shows "a = b \<and> x = y"
proof -
  have "le_bytes k (length a) = le_bytes k (length b)" "a @ x = b @ y"
    using assms(1) by (simp_all add: append_eq_append_conv)
  moreover then have "length a = length b"
    using assms(2,3) by (metis le_nat_le_bytes_id)
  ultimately show ?thesis by (simp add: append_eq_append_conv)
qed

lemma compound_key_inj:
  assumes "compound_key a b = compound_key c d"
    and "length a < 256 ^ 4" "length b < 256 ^ 4" "length c < 256 ^ 4" "length d < 256 ^ 4"
  shows "a = c \<and> b = d"
  using le_bytes_prefix_inj [of 4 a "le_bytes 4 (length b) @ b" c "le_bytes 4 (length d) @ d"]
    le_bytes_prefix_inj [of 4 b "[]" d "[]"] assms
  by (simp add: compound_key_def)

lemma length_encode_key: "account_wf a \<Longrightarrow> length (encode_key a) \<le> 62"
  using normal_account_wf [of a]
  by (auto simp: encode_key_parts account_wf_def normal_account_def split: option.splits)

text \<open>Storage keys identify accounts: two well-formed accounts share a ledger row exactly when
  they are the same account up to the all-zero subaccount, which denotes the default one; decoding
  a stored key gives that account back; and the allowance key of an (owner, spender) pair is
  injective, so no two pairs can alias one allowance row.\<close>

theorem account_keys_injective:
  assumes "account_wf a" "account_wf b" "account_wf c" "account_wf d"
  shows "(encode_key a = encode_key b \<longleftrightarrow> normal_account a = normal_account b)
     \<and> account_from_bytes (encode_key a) = Inr (normal_account a)
     \<and> (compound_key (encode_key a) (encode_key b) = compound_key (encode_key c) (encode_key d)
        \<longleftrightarrow> normal_account a = normal_account c \<and> normal_account b = normal_account d)"
proof -
  have len: "length (encode_key x) < 256 ^ 4" if "account_wf x" for x
    using length_encode_key [OF that] by simp
  have pair: "encode_key a = encode_key c \<and> encode_key b = encode_key d"
    if "compound_key (encode_key a) (encode_key b) = compound_key (encode_key c) (encode_key d)"
    by (rule compound_key_inj [OF that]) (rule len, fact)+
  show ?thesis
    using encode_key_inj [OF assms(1,2)] encode_key_inj [OF assms(1,3)] encode_key_inj [OF assms(2,4)]
      account_from_encode_key [OF assms(1)] pair by (intro conjI iffI) simp_all
qed

theorem account_keys_injective_witness:
  "encode_key \<lparr> acc_owner = [1, 2], acc_sub = Some (replicate 32 0) \<rparr>
     = encode_key \<lparr> acc_owner = [1, 2], acc_sub = None \<rparr>"
  using account_keys_injective [of "\<lparr> acc_owner = [1, 2], acc_sub = Some (replicate 32 0) \<rparr>"
      "\<lparr> acc_owner = [1, 2], acc_sub = None \<rparr>" "\<lparr> acc_owner = [1, 2], acc_sub = None \<rparr>"
      "\<lparr> acc_owner = [1, 2], acc_sub = None \<rparr>"]
  by (simp add: account_wf_def normal_account_def)

section \<open>Allowance records\<close>

record allowance_record =
  al_amount :: nat
  al_expires_at :: "nat option"

definition allowance_to_bytes :: "allowance_record \<Rightarrow> bytes" where
  "allowance_to_bytes r =
     be_bytes 16 (al_amount r) @ [if al_expires_at r \<noteq> None then 1 else 0]
     @ (case al_expires_at r of Some exp \<Rightarrow> be_bytes 8 exp | None \<Rightarrow> [])"

definition allowance_from_bytes :: "bytes \<Rightarrow> (unit, allowance_record) res" where
  "allowance_from_bytes b =
    (if length b < 17 then Inl Trap
     else if b ! 16 = 1 then
       (if length b < 25 then Inl Trap
        else Inr \<lparr> al_amount = be_nat (slice 0 16 b), al_expires_at = Some (be_nat (slice 17 8 b)) \<rparr>)
     else Inr \<lparr> al_amount = be_nat (slice 0 16 b), al_expires_at = None \<rparr>)"

section \<open>Deposit receipts\<close>

datatype deposit_receipt =
    Applied nat nat nat bytes nat \<comment> \<open>block index, amount, fee charged, request hash, applied at\<close>
  | Cancelled bytes nat \<comment> \<open>request hash, closed at\<close>

definition DEPOSIT_RECEIPT_ENCODED_LEN :: nat where "DEPOSIT_RECEIPT_ENCODED_LEN = 81"

definition receipt_to_bytes :: "deposit_receipt \<Rightarrow> bytes" where
  "receipt_to_bytes r = (case r of
     Applied block_index amount fee_charged request_hash applied_at_ns \<Rightarrow>
       [0] @ request_hash @ le_bytes 8 block_index @ le_bytes 16 amount @ le_bytes 16 fee_charged
         @ le_bytes 8 applied_at_ns
   | Cancelled request_hash closed_at_ns \<Rightarrow>
       [1] @ request_hash @ le_bytes 8 closed_at_ns @ replicate 40 0)"

definition receipt_from_bytes :: "bytes \<Rightarrow> (unit, deposit_receipt) res" where
  "receipt_from_bytes b =
    (if length b < DEPOSIT_RECEIPT_ENCODED_LEN then Inl Trap
     else
       let request_hash = slice 1 32 b; word = le_nat (slice 33 8 b) in
       if b ! 0 = 0 then
         Inr (Applied word (le_nat (slice 41 16 b)) (le_nat (slice 57 16 b)) request_hash
                (le_nat (slice 73 8 b)))
       else if b ! 0 = 1 then Inr (Cancelled request_hash word)
       else Inl Trap)"

definition receipt_request_hash :: "deposit_receipt \<Rightarrow> bytes" where
  "receipt_request_hash r = (case r of Applied _ _ _ h _ \<Rightarrow> h | Cancelled h _ \<Rightarrow> h)"

definition receipt_wf :: "deposit_receipt \<Rightarrow> bool" where
  "receipt_wf r = (case r of
     Applied bl am fe h t \<Rightarrow> bl < u64_limit \<and> am < u128_limit \<and> fe < u128_limit \<and> length h = 32
       \<and> t < u64_limit
   | Cancelled h t \<Rightarrow> length h = 32 \<and> t < u64_limit)"

text \<open>The stable encodings of the settlement evidence are exact: every receipt and every
  allowance record reads back as it was written, a receipt always takes exactly 81 bytes, and an
  unknown tag or a short region traps instead of decoding to something plausible.\<close>

theorem receipt_roundtrip:
  assumes "receipt_wf r" "am < u128_limit" "case ex of None \<Rightarrow> True | Some e \<Rightarrow> e < u64_limit"
  shows "receipt_from_bytes (receipt_to_bytes r) = Inr r
     \<and> length (receipt_to_bytes r) = DEPOSIT_RECEIPT_ENCODED_LEN
     \<and> receipt_from_bytes (t # replicate 80 0) =
         (if t = 0 then Inr (Applied 0 0 0 (replicate 32 0) 0)
          else if t = 1 then Inr (Cancelled (replicate 32 0) 0) else Inl Trap)
     \<and> allowance_from_bytes (allowance_to_bytes \<lparr> al_amount = am, al_expires_at = ex \<rparr>)
         = Inr \<lparr> al_amount = am, al_expires_at = ex \<rparr>"
proof -
  have "receipt_from_bytes (receipt_to_bytes r) = Inr r
      \<and> length (receipt_to_bytes r) = DEPOSIT_RECEIPT_ENCODED_LEN"
    using assms(1)
    by (cases r) (auto simp: receipt_wf_def receipt_to_bytes_def receipt_from_bytes_def slice_def
        DEPOSIT_RECEIPT_ENCODED_LEN_def Let_def)
  moreover have "receipt_from_bytes (t # replicate 80 0) =
      (if t = 0 then Inr (Applied 0 0 0 (replicate 32 0) 0)
       else if t = 1 then Inr (Cancelled (replicate 32 0) 0) else Inl Trap)"
    by (simp add: receipt_from_bytes_def DEPOSIT_RECEIPT_ENCODED_LEN_def slice_def Let_def)
  moreover have "allowance_from_bytes (allowance_to_bytes \<lparr> al_amount = am, al_expires_at = ex \<rparr>)
      = Inr \<lparr> al_amount = am, al_expires_at = ex \<rparr>"
    using assms(2,3)
    by (cases ex) (auto simp: allowance_from_bytes_def allowance_to_bytes_def slice_def nth_append)
  ultimately show ?thesis by blast
qed

theorem receipt_roundtrip_witness:
  "receipt_from_bytes (receipt_to_bytes (Applied 7 100 0 (replicate 32 9) 55))
     = Inr (Applied 7 100 0 (replicate 32 9) 55)"
  using receipt_roundtrip [of "Applied 7 100 0 (replicate 32 9) 55" 5 None]
  by (simp add: receipt_wf_def)

section \<open>Arguments\<close>

text \<open>Candid \<^verbatim>\<open>nat\<close> is unbounded; \<open>to_width 128\<close> is its conversion to \<^verbatim>\<open>u128\<close>.\<close>

record transfer_args =
  ta_from_subaccount :: "bytes option"
  ta_to :: account
  ta_amount :: nat
  ta_fee :: "nat option"
  ta_memo :: "bytes option"
  ta_created_at_time :: "nat option"

record approve_args =
  aa_from_subaccount :: "bytes option"
  aa_spender :: account
  aa_amount :: nat
  aa_expected_allowance :: "nat option"
  aa_expires_at :: "nat option"
  aa_fee :: "nat option"
  aa_memo :: "bytes option"
  aa_created_at_time :: "nat option"

record transfer_from_args =
  tf_spender_subaccount :: "bytes option"
  tf_from :: account
  tf_to :: account
  tf_amount :: nat
  tf_fee :: "nat option"
  tf_memo :: "bytes option"
  tf_created_at_time :: "nat option"

record deposit_attempt_args =
  da_from :: account
  da_spender_subaccount :: "bytes option"
  da_to :: account
  da_amount :: nat
  da_fee :: "nat option"
  da_memo :: "bytes option"
  da_created_at_time :: "nat option"

section \<open>Hashed identities\<close>

definition ascii :: "string \<Rightarrow> bytes" where
  "ascii s = map of_char s"

definition hash_len_prefixed :: "bytes \<Rightarrow> bytes" where
  "hash_len_prefixed bs = le_bytes 4 (length bs) @ bs"

text \<open>An optional number: a presence byte and a fixed-width value.\<close>

definition opt_number :: "nat \<Rightarrow> nat \<Rightarrow> nat option \<Rightarrow> bytes" where
  "opt_number width too_big v =
    (case v of
       Some f \<Rightarrow> [1] @ le_bytes width (case to_width (8 * width) f of Some x \<Rightarrow> x | None \<Rightarrow> too_big)
     | None \<Rightarrow> [0] @ le_bytes width 0)"

definition opt_memo :: "bytes option \<Rightarrow> bytes" where
  "opt_memo memo = (case memo of Some m \<Rightarrow> hash_len_prefixed m | None \<Rightarrow> hash_len_prefixed [])"

definition transfer_from_preimage ::
  "account \<Rightarrow> account \<Rightarrow> account \<Rightarrow> nat \<Rightarrow> nat option \<Rightarrow> bytes option \<Rightarrow> nat \<Rightarrow> bytes" where
  "transfer_from_preimage from_acc spender to_acc amount fee memo created_at_time =
     hash_len_prefixed (ascii ''stsh.icrc2_transfer_from.dedup.v1'')
     @ hash_len_prefixed (encode_key from_acc)
     @ hash_len_prefixed (encode_key spender)
     @ hash_len_prefixed (encode_key to_acc)
     @ le_bytes 16 amount
     @ opt_number 16 0 fee
     @ opt_memo memo
     @ le_bytes 8 created_at_time"

definition transfer_preimage ::
  "account \<Rightarrow> account \<Rightarrow> nat \<Rightarrow> nat option \<Rightarrow> bytes option \<Rightarrow> nat \<Rightarrow> bytes" where
  "transfer_preimage from_acc to_acc amount fee memo created_at_time =
     hash_len_prefixed (ascii ''stsh.icrc1_transfer.dedup.v1'')
     @ hash_len_prefixed (encode_key from_acc)
     @ hash_len_prefixed (encode_key to_acc)
     @ le_bytes 16 amount
     @ opt_number 16 0 fee
     @ opt_memo memo
     @ le_bytes 8 created_at_time"

text \<open>Minimal big-endian bytes of an unbounded integer (\<^verbatim>\<open>BigUint::to_bytes_be\<close>).\<close>

fun big_bytes :: "nat \<Rightarrow> bytes" where
  "big_bytes n = (if n < 256 then [of_nat n] else big_bytes (n div 256) @ [of_nat n])"

declare big_bytes.simps [simp del]

definition approve_preimage :: "account \<Rightarrow> approve_args \<Rightarrow> nat \<Rightarrow> bytes" where
  "approve_preimage from_acc args created_at_time =
     hash_len_prefixed (ascii ''stsh.icrc2_approve.dedup.v1'')
     @ hash_len_prefixed (encode_key from_acc)
     @ hash_len_prefixed (encode_key (aa_spender args))
     @ hash_len_prefixed (big_bytes (aa_amount args))
     @ opt_number 16 (2 ^ 128 - 1) (aa_expected_allowance args)
     @ opt_number 8 0 (aa_expires_at args)
     @ opt_number 16 0 (aa_fee args)
     @ opt_memo (aa_memo args)
     @ le_bytes 8 created_at_time"

definition transfer_from_dedup_key ::
  "(bytes \<Rightarrow> bytes) \<Rightarrow> account \<Rightarrow> account \<Rightarrow> account \<Rightarrow> nat \<Rightarrow> nat option \<Rightarrow> bytes option \<Rightarrow> nat
     \<Rightarrow> bytes" where
  "transfer_from_dedup_key sha from_acc spender to_acc amount fee memo t =
     sha (transfer_from_preimage from_acc spender to_acc amount fee memo t)"

definition transfer_dedup_key ::
  "(bytes \<Rightarrow> bytes) \<Rightarrow> account \<Rightarrow> account \<Rightarrow> nat \<Rightarrow> nat option \<Rightarrow> bytes option \<Rightarrow> nat \<Rightarrow> bytes"
  where
  "transfer_dedup_key sha from_acc to_acc amount fee memo t =
     sha (transfer_preimage from_acc to_acc amount fee memo t)"

definition approve_dedup_key :: "(bytes \<Rightarrow> bytes) \<Rightarrow> account \<Rightarrow> approve_args \<Rightarrow> nat \<Rightarrow> bytes" where
  "approve_dedup_key sha from_acc args t = sha (approve_preimage from_acc args t)"

definition deposit_operation_id :: "(bytes \<Rightarrow> bytes) \<Rightarrow> bytes \<Rightarrow> bytes" where
  "deposit_operation_id sha memo =
     sha (hash_len_prefixed (ascii ''stsh.deposit.receipt.opid.v1'') @ hash_len_prefixed memo)"

definition deposit_request_hash ::
  "(bytes \<Rightarrow> bytes) \<Rightarrow> principal \<Rightarrow> account \<Rightarrow> account \<Rightarrow> account \<Rightarrow> nat \<Rightarrow> nat option
     \<Rightarrow> bytes option \<Rightarrow> nat \<Rightarrow> bytes" where
  "deposit_request_hash sha self_id from_acc spender to_acc amount fee memo created_at_time =
    (let dedup = transfer_from_dedup_key sha from_acc spender to_acc amount fee memo created_at_time
     in sha (hash_len_prefixed (ascii ''stsh.deposit.receipt.request.v1'')
             @ hash_len_prefixed self_id @ hash_len_prefixed dedup))"

lemma hash_len_prefixed_inj:
  "hash_len_prefixed a @ x = hash_len_prefixed b @ y \<Longrightarrow> length a < 256 ^ 4 \<Longrightarrow> length b < 256 ^ 4
     \<Longrightarrow> a = b \<and> x = y"
  unfolding hash_len_prefixed_def append_assoc by (rule le_bytes_prefix_inj)

lemma le_bytes_append_inj:
  "le_bytes k m @ x = le_bytes k n @ y \<Longrightarrow> m < 256 ^ k \<Longrightarrow> n < 256 ^ k \<Longrightarrow> m = n \<and> x = y"
  by (metis append_eq_append_conv length_le_bytes le_nat_le_bytes_id)

lemma opt_number_append_inj:
  assumes "opt_number w b u @ x = opt_number w b v @ y"
    and "\<forall>n. u = Some n \<longrightarrow> n < 256 ^ w" "\<forall>n. v = Some n \<longrightarrow> n < 256 ^ w"
  shows "u = v \<and> x = y"
proof -
  have pw: "(256::nat) ^ w = 2 ^ (8 * w)" by (simp add: power_mult)
  have in_width: "n < 256 ^ w \<Longrightarrow> to_width (8 * w) n = Some n" for n
    by (simp add: to_width_def pw)
  show ?thesis
  proof (cases u)
    case None
    then show ?thesis using assms(1) by (cases v) (auto simp: opt_number_def)
  next
    case (Some m)
    then obtain n where n: "v = Some n" using assms(1) by (cases v) (auto simp: opt_number_def)
    have "m < 256 ^ w" "n < 256 ^ w" using assms(2,3) Some n by auto
    then show ?thesis
      using assms(1) le_bytes_append_inj [of w m x n y]
      by (simp add: opt_number_def Some n in_width)
  qed
qed

definition memo_bytes :: "bytes option \<Rightarrow> bytes" where
  "memo_bytes memo = (case memo of None \<Rightarrow> [] | Some m \<Rightarrow> m)"

lemma opt_memo_bytes: "opt_memo memo = hash_len_prefixed (memo_bytes memo)"
  by (simp add: opt_memo_def memo_bytes_def split: option.splits)

lemma key_small: "account_wf a \<Longrightarrow> length (encode_key a) < 256 ^ 4"
  using length_encode_key [of a] by simp

text \<open>The identity that is hashed for an idempotent \<^verbatim>\<open>icrc1_transfer\<close> is unambiguous:
  for arguments within the machine widths two preimages are equal exactly when the accounts agree
  (up to the default subaccount) and amount, fee, timestamp and memo bytes agree. The only
  identification is an absent memo with an empty one; an absent fee and a zero fee stay apart.\<close>

theorem transfer_identity_injective:
  assumes "account_wf a" "account_wf b" "account_wf c" "account_wf d"
    and "m < u128_limit" "n < u128_limit" "s < u64_limit" "t < u64_limit"
    and "list_all (\<lambda>v. v < u128_limit) (case f of None \<Rightarrow> [] | Some v \<Rightarrow> [v])"
    and "list_all (\<lambda>v. v < u128_limit) (case g of None \<Rightarrow> [] | Some v \<Rightarrow> [v])"
    and "length (memo_bytes p) < u32_limit" "length (memo_bytes q) < u32_limit"
  shows "transfer_preimage a b m f p s = transfer_preimage c d n g q t \<longleftrightarrow>
     normal_account a = normal_account c \<and> normal_account b = normal_account d
     \<and> m = n \<and> f = g \<and> memo_bytes p = memo_bytes q \<and> s = t"
proof
  assume eq: "transfer_preimage a b m f p s = transfer_preimage c d n g q t"
  have w: "(256::nat) ^ 4 = 2 ^ 32" "(256::nat) ^ 16 = 2 ^ 128" "(256::nat) ^ 8 = 2 ^ 64"
    by simp_all
  have f: "\<forall>v. f = Some v \<longrightarrow> v < 256 ^ 16" and g: "\<forall>v. g = Some v \<longrightarrow> v < 256 ^ 16"
    using assms(9,10) by auto
  note eq1 = eq [unfolded transfer_preimage_def same_append_eq opt_memo_bytes]
  note k1 = hash_len_prefixed_inj [OF eq1 key_small [OF assms(1)] key_small [OF assms(3)]]
  note k2 = hash_len_prefixed_inj [OF k1 [THEN conjunct2] key_small [OF assms(2)] key_small [OF assms(4)]]
  note k3 = le_bytes_append_inj [OF k2 [THEN conjunct2], unfolded w, OF assms(5,6)]
  note k4 = opt_number_append_inj [OF k3 [THEN conjunct2] f g]
  note k5 = hash_len_prefixed_inj [OF k4 [THEN conjunct2], unfolded w, OF assms(11,12)]
  have k6: "s = t"
    using le_bytes_append_inj [of 8 s "[]" t "[]"] k5 assms(7,8) by simp
  show "normal_account a = normal_account c \<and> normal_account b = normal_account d
     \<and> m = n \<and> f = g \<and> memo_bytes p = memo_bytes q \<and> s = t"
    using k1 k2 k3 k4 k5 k6 encode_key_inj assms(1-4) by blast
next
  assume "normal_account a = normal_account c \<and> normal_account b = normal_account d
     \<and> m = n \<and> f = g \<and> memo_bytes p = memo_bytes q \<and> s = t"
  then show "transfer_preimage a b m f p s = transfer_preimage c d n g q t"
    using encode_key_inj [of a c] encode_key_inj [of b d] assms(1-4)
    by (simp add: transfer_preimage_def opt_memo_bytes)
qed

theorem transfer_identity_injective_witness:
  "transfer_preimage \<lparr> acc_owner = [1], acc_sub = None \<rparr> \<lparr> acc_owner = [2], acc_sub = None \<rparr> 5 None None 7
     \<noteq> transfer_preimage \<lparr> acc_owner = [1], acc_sub = None \<rparr> \<lparr> acc_owner = [2], acc_sub = None \<rparr>
         5 (Some 0) None 7"
  using transfer_identity_injective [of "\<lparr> acc_owner = [1], acc_sub = None \<rparr>"
      "\<lparr> acc_owner = [2], acc_sub = None \<rparr>" "\<lparr> acc_owner = [1], acc_sub = None \<rparr>"
      "\<lparr> acc_owner = [2], acc_sub = None \<rparr>" 5 5 7 7 None "Some 0" None None]
  by (simp add: account_wf_def memo_bytes_def)

lemma length_ascii [simp]: "length (ascii s) = length s"
  by (simp add: ascii_def)

lemma distinct_tags:
  "hash_len_prefixed (ascii s) @ x \<noteq> hash_len_prefixed (ascii t) @ y"
  if "length s \<noteq> length t" "length s < 256 ^ 4" "length t < 256 ^ 4"
proof
  assume eq: "hash_len_prefixed (ascii s) @ x = hash_len_prefixed (ascii t) @ y"
  have "length (ascii s) < 256 ^ 4" "length (ascii t) < 256 ^ 4"
    using that(2,3) by (simp_all only: length_ascii)
  from hash_len_prefixed_inj [OF eq this] have "length (ascii s) = length (ascii t)" by simp
  then have "length s = length t" by (simp only: length_ascii)
  with that(1) show False by simp
qed

text \<open>The three operations that share the deduplication map are domain separated: no transfer, no
  transfer-from and no approve can have the same hashed identity, whatever their arguments.\<close>

theorem dedup_domains_disjoint:
  "transfer_preimage a b m f p s \<noteq> transfer_from_preimage c d e n g q t
   \<and> transfer_preimage a b m f p s \<noteq> approve_preimage c args t
   \<and> transfer_from_preimage c d e n g q t \<noteq> approve_preimage a args s"
  unfolding transfer_preimage_def transfer_from_preimage_def approve_preimage_def
  by (intro conjI distinct_tags) simp_all

end
