(* ===== verification/Time_Index.thy ===== *)
theory Time_Index
  imports Prelude
begin

text \<open>
  Time-indexed stores of the token ledger: a primary map whose rows carry a time stamp, and a
  secondary index of (stamp, key) pairs that makes reclamation a scan of the expired prefix. The
  ledger has two of them, the deduplication map and the allowances; their scans differ only in the
  upper bound (exclusive at the cutoff there, inclusive at \<open>now\<close> here). The locale states
  what the bound must mean, and its lemmas give what both prunes promise.
\<close>

section \<open>The index and its scan\<close>

type_synonym time_key = "nat \<times> bytes"
type_synonym time_index = "time_key fset"

definition index_matches :: "('v \<Rightarrow> nat option) \<Rightarrow> (bytes, 'v) fmap \<Rightarrow> time_index \<Rightarrow> bool" where
  "index_matches stamp m idx \<longleftrightarrow>
     (\<forall>e k. (e, k) |\<in>| idx \<longleftrightarrow> (\<exists>v. fmlookup m k = Some v \<and> stamp v = Some e))"

definition below :: "time_key option \<Rightarrow> time_key \<Rightarrow> bool" where
  "below upper x = (case upper of None \<Rightarrow> True | Some u \<Rightarrow> x < u)"

definition range_scan :: "time_key option \<Rightarrow> nat \<Rightarrow> time_index \<Rightarrow> time_key list" where
  "range_scan upper cap idx = take cap (filter (below upper) (sorted_list_of_fset idx))"

fun remove_rows ::
  "time_key list \<Rightarrow> (bytes, 'v) fmap \<times> time_index \<Rightarrow> (bytes, 'v) fmap \<times> time_index" where
  "remove_rows [] st = st"
| "remove_rows (x # xs) st = remove_rows xs (fmdrop (snd x) (fst st), snd st |-| {|x|})"

definition prune_rows ::
  "time_key option \<Rightarrow> nat \<Rightarrow> (bytes, 'v) fmap \<times> time_index \<Rightarrow> (bytes, 'v) fmap \<times> time_index"
  where
  "prune_rows upper cap st = remove_rows (range_scan upper cap (snd st)) st"

definition reindex :: "nat option \<Rightarrow> nat option \<Rightarrow> bytes \<Rightarrow> time_index \<Rightarrow> time_index" where
  "reindex old new k idx =
    (let idx' = (case old of Some e \<Rightarrow> idx |-| {|(e, k)|} | None \<Rightarrow> idx) in
     case new of Some e \<Rightarrow> finsert (e, k) idx' | None \<Rightarrow> idx')"

definition stamp_at :: "('v \<Rightarrow> nat option) \<Rightarrow> (bytes, 'v) fmap \<Rightarrow> bytes \<Rightarrow> nat option" where
  "stamp_at stamp m k = (case fmlookup m k of Some v \<Rightarrow> stamp v | None \<Rightarrow> None)"

lemma stamp_at_Some: "stamp_at stamp m k = Some e \<longleftrightarrow> (\<exists>v. fmlookup m k = Some v \<and> stamp v = Some e)"
  by (auto simp: stamp_at_def split: option.splits)

lemma index_matches_iff:
  "index_matches stamp m idx \<longleftrightarrow> (\<forall>e k. (e, k) |\<in>| idx \<longleftrightarrow> stamp_at stamp m k = Some e)"
  by (simp only: index_matches_def stamp_at_Some)

lemma index_matches_empty [simp]: "index_matches stamp fmempty {||}"
  by (simp add: index_matches_def)

lemma stamp_at_upd [simp]:
  "stamp_at stamp (fmupd k v m) l = (if k = l then stamp v else stamp_at stamp m l)"
  by (simp add: stamp_at_def)

lemma stamp_at_drop [simp]:
  "stamp_at stamp (fmdrop k m) l = (if k = l then None else stamp_at stamp m l)"
  by (simp add: stamp_at_def)

lemma in_reindex:
  "(e, l) |\<in>| reindex old new k idx \<longleftrightarrow>
     (if l = k then new = Some e \<or> ((e, l) |\<in>| idx \<and> old \<noteq> Some e) else (e, l) |\<in>| idx)"
  by (auto simp: reindex_def Let_def split: option.splits)

text \<open>The single writer and the single remover keep the index in step with the map.\<close>

lemma index_matches_put:
  "index_matches stamp m idx \<Longrightarrow>
     index_matches stamp (fmupd k v m) (reindex (stamp_at stamp m k) (stamp v) k idx)"
  by (auto simp: index_matches_iff in_reindex)

lemma index_matches_same:
  "index_matches stamp m idx \<Longrightarrow> stamp_at stamp m k = stamp v \<Longrightarrow> index_matches stamp (fmupd k v m) idx"
  by (auto simp: index_matches_iff)

lemma index_matches_remove:
  "index_matches stamp m idx \<Longrightarrow>
     index_matches stamp (fmdrop k m) (reindex (stamp_at stamp m k) None k idx)"
  by (auto simp: index_matches_iff in_reindex)

section \<open>Removing scanned rows\<close>

lemma fmlookup_remove_rows:
  "fmlookup (fst (remove_rows xs st)) k = (if k \<in> snd ` set xs then None else fmlookup (fst st) k)"
  by (induction xs st rule: remove_rows.induct) auto

lemma in_remove_rows:
  "x |\<in>| snd (remove_rows xs st) \<longleftrightarrow> x |\<in>| snd st \<and> x \<notin> set xs"
  by (induction xs st rule: remove_rows.induct) auto

lemma snd_remove_rows: "snd (remove_rows xs st) = snd st |-| fset_of_list xs"
  by (rule fset_eqI) (simp add: in_remove_rows fset_of_list_elem)

lemma range_scan_subset: "set (range_scan upper cap idx) \<subseteq> {x. x |\<in>| idx \<and> below upper x}"
  using set_take_subset [of cap "filter (below upper) (sorted_list_of_fset idx)"]
  by (auto simp: range_scan_def)

lemma in_range_scan: "x \<in> set (range_scan upper cap idx) \<Longrightarrow> x |\<in>| idx \<and> below upper x"
  using range_scan_subset by auto

lemma index_matches_remove_rows:
  assumes "index_matches stamp (fst st) (snd st)" "\<forall>x \<in> set xs. x |\<in>| snd st"
  shows "index_matches stamp (fst (remove_rows xs st)) (snd (remove_rows xs st))"
  unfolding index_matches_def in_remove_rows fmlookup_remove_rows
proof (intro allI iffI)
  fix e k
  assume in_idx: "(e, k) |\<in>| snd st \<and> (e, k) \<notin> set xs"
  then obtain v where v: "fmlookup (fst st) k = Some v" "stamp v = Some e"
    using assms(1) unfolding index_matches_def by blast
  have "k \<notin> snd ` set xs"
  proof
    assume "k \<in> snd ` set xs"
    then obtain d where d: "(d, k) \<in> set xs" by auto
    then obtain w where "fmlookup (fst st) k = Some w" "stamp w = Some d"
      using assms unfolding index_matches_def by blast
    with v d in_idx show False by simp
  qed
  with v show "\<exists>v. (if k \<in> snd ` set xs then None else fmlookup (fst st) k) = Some v
      \<and> stamp v = Some e" by simp
next
  fix e k
  assume "\<exists>v. (if k \<in> snd ` set xs then None else fmlookup (fst st) k) = Some v \<and> stamp v = Some e"
  then obtain v where "k \<notin> snd ` set xs" "fmlookup (fst st) k = Some v" "stamp v = Some e"
    by (auto split: if_splits)
  then show "(e, k) |\<in>| snd st \<and> (e, k) \<notin> set xs"
    using assms(1) unfolding index_matches_def by force
qed

section \<open>The contract of a time-indexed store\<close>

definition dead_rows :: "(nat \<Rightarrow> nat \<Rightarrow> bool) \<Rightarrow> nat \<Rightarrow> time_index \<Rightarrow> time_index" where
  "dead_rows dead now idx = ffilter (\<lambda>x. dead now (fst x)) idx"

locale time_indexed_store =
  fixes stamp :: "'v \<Rightarrow> nat option"
    and dead :: "nat \<Rightarrow> nat \<Rightarrow> bool"
    and upper :: "nat \<Rightarrow> time_key option"
    and key_ok :: "time_key \<Rightarrow> bool"
  assumes upper_exact: "key_ok x \<Longrightarrow> below (upper now) x \<longleftrightarrow> dead now (fst x)"
begin

lemma prune_matches:
  "index_matches stamp (fst st) (snd st) \<Longrightarrow>
     index_matches stamp (fst (prune_rows (upper now) cap st)) (snd (prune_rows (upper now) cap st))"
  unfolding prune_rows_def by (rule index_matches_remove_rows) (auto dest: in_range_scan)

lemma prune_subset: "snd (prune_rows (upper now) cap st) |\<subseteq>| snd st"
  unfolding prune_rows_def by (auto simp: in_remove_rows)

lemma prune_lookup:
  assumes "index_matches stamp (fst st) (snd st)" "\<forall>x. x |\<in>| snd st \<longrightarrow> key_ok x"
    and "fmlookup (fst st) k = Some v" "\<forall>e. stamp v = Some e \<longrightarrow> \<not> dead now e"
  shows "fmlookup (fst (prune_rows (upper now) cap st)) k = Some v"
proof -
  have "k \<notin> snd ` set (range_scan (upper now) cap (snd st))"
  proof
    assume "k \<in> snd ` set (range_scan (upper now) cap (snd st))"
    then obtain e where "(e, k) |\<in>| snd st" "below (upper now) (e, k)"
      by (auto dest: in_range_scan)
    moreover then have "stamp v = Some e"
      using assms(1,3) unfolding index_matches_def by fastforce
    ultimately show False using assms(2,4) upper_exact [of "(e, k)" now] by simp
  qed
  with assms(3) show ?thesis by (simp add: prune_rows_def fmlookup_remove_rows)
qed

lemma prune_only_removes:
  "fmlookup (fst (prune_rows (upper now) cap st)) k = Some v \<Longrightarrow> fmlookup (fst st) k = Some v"
  by (simp add: prune_rows_def fmlookup_remove_rows split: if_splits)

lemma prune_dead_count:
  assumes "\<forall>x. x |\<in>| snd st \<longrightarrow> key_ok x"
  shows "fcard (dead_rows dead now (snd (prune_rows (upper now) cap st)))
     = fcard (dead_rows dead now (snd st)) - cap"
proof -
  let ?dead = "filter (below (upper now)) (sorted_list_of_fset (snd st))"
  have eq: "dead_rows dead now (snd st) = fset_of_list ?dead"
    using assms upper_exact [of _ now] by (intro fset_eqI) (auto simp: dead_rows_def fset_of_list_elem)
  have "distinct (sorted_list_of_fset (snd st))"
    by (simp add: sorted_list_of_fset.rep_eq)
  then have dist: "distinct ?dead" by simp
  have "dead_rows dead now (snd (prune_rows (upper now) cap st)) = fset_of_list (drop cap ?dead)"
  proof (rule fset_eqI)
    fix x
    have split: "set ?dead = set (take cap ?dead) \<union> set (drop cap ?dead)"
      by (metis append_take_drop_id set_append)
    have disj: "set (take cap ?dead) \<inter> set (drop cap ?dead) = {}"
      using dist by (simp add: set_take_disj_set_drop_if_distinct)
    have "x |\<in>| dead_rows dead now (snd (prune_rows (upper now) cap st))
        \<longleftrightarrow> x |\<in>| dead_rows dead now (snd st) \<and> x \<notin> set (take cap ?dead)"
      by (auto simp: dead_rows_def prune_rows_def in_remove_rows range_scan_def)
    also have "\<dots> \<longleftrightarrow> x \<in> set (drop cap ?dead)"
      unfolding eq fset_of_list_elem using split disj by blast
    finally show "x |\<in>| dead_rows dead now (snd (prune_rows (upper now) cap st))
        \<longleftrightarrow> x |\<in>| fset_of_list (drop cap ?dead)" by (simp add: fset_of_list_elem)
  qed
  moreover have card: "fcard (fset_of_list xs) = length xs" if "distinct xs" for xs :: "time_key list"
    using that by (simp add: fcard.rep_eq fset_of_list.rep_eq distinct_card)
  ultimately show ?thesis
    unfolding eq using card [OF dist] card [OF distinct_drop [OF dist]] by simp
qed

text \<open>Repeated bounded prunes drain the whole expired backlog.\<close>

lemma prunes_drain:
  assumes "\<forall>x. x |\<in>| snd st \<longrightarrow> key_ok x"
  shows "fcard (dead_rows dead now (snd ((prune_rows (upper now) cap ^^ n) st)))
     = fcard (dead_rows dead now (snd st)) - n * cap"
proof (induction n)
  case (Suc n)
  have "\<forall>x. x |\<in>| snd ((prune_rows (upper now) cap ^^ n) st) \<longrightarrow> key_ok x"
    using assms by (induction n) (auto dest: prune_subset [THEN fsubsetD])
  from prune_dead_count [OF this] Suc show ?case by simp
qed simp

end

end
