(* ===== verification/Token_Transfer.thy ===== *)
theory Token_Transfer
  imports Token_State
begin

text \<open>
  The money-moving endpoints of the token ledger: \<^verbatim>\<open>icrc1_transfer\<close>, \<^verbatim>\<open>icrc2_approve\<close>,
  \<^verbatim>\<open>icrc2_transfer_from\<close>, the allowance query and the staking locks. Each handler is its phase 1,
  a chain of checks that reads the state and may return an error, followed by its phase 2, the
  writes. Error messages are dropped, error codes kept. The lemmas show that phase 2 never
  fails once phase 1 has passed, that it conserves the supply, and what it moves.
\<close>

section \<open>Errors\<close>

datatype transfer_error =
    TE_BadFee nat
  | TE_BadBurn nat
  | TE_InsufficientFunds nat
  | TE_TooOld
  | TE_CreatedInFuture nat
  | TE_Duplicate nat
  | TE_TemporarilyUnavailable
  | TE_GenericError nat

datatype approve_error =
    AE_BadFee nat
  | AE_InsufficientFunds nat
  | AE_AllowanceChanged nat
  | AE_Expired nat
  | AE_TooOld
  | AE_CreatedInFuture nat
  | AE_Duplicate nat
  | AE_TemporarilyUnavailable
  | AE_GenericError nat

datatype transfer_from_error =
    FE_BadFee nat
  | FE_BadBurn nat
  | FE_InsufficientFunds nat
  | FE_InsufficientAllowance nat
  | FE_TooOld
  | FE_CreatedInFuture nat
  | FE_Duplicate nat
  | FE_TemporarilyUnavailable
  | FE_GenericError nat

fun transfer_from_error_of :: "transfer_error \<Rightarrow> transfer_from_error" where
  "transfer_from_error_of (TE_BadFee f) = FE_BadFee f"
| "transfer_from_error_of (TE_BadBurn m) = FE_BadBurn m"
| "transfer_from_error_of (TE_InsufficientFunds b) = FE_InsufficientFunds b"
| "transfer_from_error_of TE_TooOld = FE_TooOld"
| "transfer_from_error_of (TE_CreatedInFuture t) = FE_CreatedInFuture t"
| "transfer_from_error_of (TE_Duplicate b) = FE_Duplicate b"
| "transfer_from_error_of TE_TemporarilyUnavailable = FE_TemporarilyUnavailable"
| "transfer_from_error_of (TE_GenericError c) = FE_GenericError c"

section \<open>Checks the endpoints share\<close>

definition check_fee :: "'e \<Rightarrow> nat option \<Rightarrow> nat \<Rightarrow> ('e, unit) res" where
  "check_fee bad provided fee =
    (case provided of
       None \<Rightarrow> Inr ()
     | Some p \<Rightarrow>
         case to_width 128 p of
           None \<Rightarrow> fail bad
         | Some v \<Rightarrow> if v \<noteq> fee then fail bad else Inr ())"

definition check_window :: "'e \<Rightarrow> 'e \<Rightarrow> nat \<Rightarrow> nat \<Rightarrow> ('e, unit) res" where
  "check_window in_future too_old now created_at =
     bind_res (add_or_trap 64 now PERMITTED_DRIFT_NS) (\<lambda>latest.
       if created_at > latest then fail in_future
       else if now - created_at > TX_DEDUP_WINDOW_NS then fail too_old
       else Inr ())"

definition check_duplicate :: "(nat \<Rightarrow> 'e) \<Rightarrow> token \<Rightarrow> bytes \<Rightarrow> ('e, unit) res" where
  "check_duplicate dup s key =
    (case fmlookup (tk_dedup s) key of
       Some v \<Rightarrow> fail (dup (decode_dedup_block_index v))
     | None \<Rightarrow> Inr ())"

definition checked_total_debit :: "nat \<Rightarrow> nat \<Rightarrow> (transfer_error, nat) res" where
  "checked_total_debit amount fee = ok_or (TE_GenericError 3) (checked_add 128 amount fee)"

definition checked_credit :: "nat \<Rightarrow> nat \<Rightarrow> (transfer_error, nat) res" where
  "checked_credit balance amount = ok_or (TE_GenericError 4) (checked_add 128 balance amount)"

section \<open>Moving funds\<close>

text \<open>The values phase 1 of both transfer endpoints computes for the writes of phase 2.\<close>

record debit_plan =
  dp_from_key :: bytes
  dp_from_bal :: nat
  dp_new_from :: nat
  dp_to_key :: bytes
  dp_to_base :: nat
  dp_new_to :: nat

definition plan_debit ::
  "bytes \<Rightarrow> bytes \<Rightarrow> nat \<Rightarrow> nat \<Rightarrow> token \<Rightarrow> (transfer_error, debit_plan) res" where
  "plan_debit from_key to_key amount total_debit s =
    (let from_bal = get_balance s from_key;
         locked = get_lock s from_key;
         liquid = from_bal - locked in
     if liquid < total_debit then fail (TE_InsufficientFunds liquid)
     else
       bind_res (ok_or (TE_InsufficientFunds liquid) (checked_sub from_bal total_debit)) (\<lambda>new_from.
         let to_base = (if to_key = from_key then new_from else get_balance s to_key) in
         bind_res (checked_credit to_base amount) (\<lambda>new_to.
           Inr \<lparr> dp_from_key = from_key, dp_from_bal = from_bal, dp_new_from = new_from,
                 dp_to_key = to_key, dp_to_base = to_base, dp_new_to = new_to \<rparr>)))"

definition move_funds :: "debit_plan \<Rightarrow> nat \<Rightarrow> token \<Rightarrow> ('e, token \<times> nat) res" where
  "move_funds p fee s =
     bind_res (write_balance (dp_from_key p) (dp_from_bal p) (dp_new_from p) s) (\<lambda>s1.
     bind_res (write_balance (dp_to_key p) (dp_to_base p) (dp_new_to p) s1) (\<lambda>s2.
     bind_res (route_fee_to_treasury fee s2) next_block))"

definition record_dedup :: "nat \<Rightarrow> (bytes \<times> nat) option \<Rightarrow> nat \<Rightarrow> token \<Rightarrow> token" where
  "record_dedup now dedup_key block s =
    (case dedup_key of Some (key, created_at) \<Rightarrow> record_dedup_at now key block created_at s
     | None \<Rightarrow> s)"

section \<open>ICRC-1 transfer\<close>

definition icrc1_transfer_check ::
  "(bytes \<Rightarrow> bytes) \<Rightarrow> principal \<Rightarrow> nat \<Rightarrow> transfer_args \<Rightarrow> token
     \<Rightarrow> (transfer_error, debit_plan \<times> (bytes \<times> nat) option) res" where
  "icrc1_transfer_check sha caller now args s =
    (let fee = tk_fee s in
     bind_res (check_fee (TE_BadFee fee) (ta_fee args) fee) (\<lambda>_.
     bind_res (case ta_created_at_time args of
         Some t \<Rightarrow> check_window (TE_CreatedInFuture now) TE_TooOld now t
       | None \<Rightarrow> Inr ()) (\<lambda>_.
     let from_acc = \<lparr> acc_owner = caller, acc_sub = ta_from_subaccount args \<rparr>;
         from_key = encode_key from_acc;
         to_key = encode_key (ta_to args) in
     bind_res (ok_or (TE_GenericError 1) (to_width 128 (ta_amount args))) (\<lambda>amount.
     if amount = 0 then fail (TE_GenericError ERR_CODE_ZERO_AMOUNT)
     else
       bind_res (checked_total_debit amount fee) (\<lambda>total_debit.
       bind_res (case ta_created_at_time args of
           Some t \<Rightarrow>
             let key = transfer_dedup_key sha from_acc (ta_to args) amount (ta_fee args)
                         (ta_memo args) t in
             bind_res (check_duplicate TE_Duplicate s key) (\<lambda>_. Inr (Some (key, t)))
         | None \<Rightarrow> Inr None) (\<lambda>dedup_key.
       bind_res (plan_debit from_key to_key amount total_debit s) (\<lambda>plan.
         Inr (plan, dedup_key))))))))"

definition icrc1_transfer ::
  "(bytes \<Rightarrow> bytes) \<Rightarrow> principal \<Rightarrow> nat \<Rightarrow> transfer_args \<Rightarrow> token
     \<Rightarrow> (transfer_error, token \<times> nat) res" where
  "icrc1_transfer sha caller now args s =
     bind_res (icrc1_transfer_check sha caller now args s) (\<lambda>(plan, dedup_key).
     bind_res (move_funds plan (tk_fee s) s) (\<lambda>(s1, block).
       Inr (record_dedup now dedup_key block s1, block)))"

section \<open>ICRC-2 approve\<close>

datatype approval_lifetime = AlreadyExpired | Effective nat

definition effective_approval_lifetime :: "nat option \<Rightarrow> nat \<Rightarrow> approval_lifetime" where
  "effective_approval_lifetime expires_at now =
    (let cap = sat_add 64 now MAX_APPROVAL_TTL_NS in
     case expires_at of
       None \<Rightarrow> Effective cap
     | Some e \<Rightarrow> if e \<le> now then AlreadyExpired else Effective (min e cap))"

record approve_plan =
  ap_account_key :: bytes
  ap_bal :: nat
  ap_new_bal :: nat
  ap_allowance_key :: bytes
  ap_amount :: nat
  ap_previous_expires_at :: "nat option"
  ap_effective_expires_at :: nat
  ap_dedup_key :: "(bytes \<times> nat) option"

definition existing_allowance :: "token \<Rightarrow> bytes \<Rightarrow> nat \<Rightarrow> nat" where
  "existing_allowance s key now =
    (case fmlookup (tk_allowances s) key of Some r \<Rightarrow> effective_allowance r now | None \<Rightarrow> 0)"

definition icrc2_approve_check ::
  "(bytes \<Rightarrow> bytes) \<Rightarrow> principal \<Rightarrow> nat \<Rightarrow> approve_args \<Rightarrow> token \<Rightarrow> (approve_error, approve_plan) res"
  where
  "icrc2_approve_check sha caller now args s =
    (let fee = tk_fee s; from_acc = \<lparr> acc_owner = caller, acc_sub = aa_from_subaccount args \<rparr> in
     bind_res (check_fee (AE_BadFee fee) (aa_fee args) fee) (\<lambda>_.
     bind_res (case aa_created_at_time args of
         Some t \<Rightarrow>
           bind_res (check_window (AE_CreatedInFuture now) AE_TooOld now t) (\<lambda>_.
             let key = approve_dedup_key sha from_acc args t in
             bind_res (check_duplicate AE_Duplicate s key) (\<lambda>_. Inr (Some (key, t))))
       | None \<Rightarrow> Inr None) (\<lambda>dedup_key.
     case effective_approval_lifetime (aa_expires_at args) now of
       AlreadyExpired \<Rightarrow> fail (AE_Expired now)
     | Effective effective_expires_at \<Rightarrow>
         let account_key = encode_key from_acc;
             spender_key = encode_key (aa_spender args);
             allowance_key = compound_key account_key spender_key in
         bind_res (ok_or (AE_GenericError 1) (to_width 128 (aa_amount args))) (\<lambda>amount.
         let current_effective = existing_allowance s allowance_key now;
             previous_expires_at = stamp_at al_expires_at (tk_allowances s) allowance_key in
         if (case aa_expected_allowance args of
               None \<Rightarrow> False
             | Some expected \<Rightarrow> to_width 128 expected \<noteq> Some current_effective)
         then fail (AE_AllowanceChanged current_effective)
         else if amount = 0 \<and> current_effective = 0
         then fail (AE_GenericError ERR_CODE_ZERO_AMOUNT)
         else
           let bal = get_balance s account_key;
               locked = get_lock s account_key;
               liquid = bal - locked in
           if liquid < fee then fail (AE_InsufficientFunds liquid)
           else
             bind_res (ok_or (AE_InsufficientFunds liquid) (checked_sub bal fee)) (\<lambda>new_bal.
               Inr \<lparr> ap_account_key = account_key, ap_bal = bal, ap_new_bal = new_bal,
                     ap_allowance_key = allowance_key, ap_amount = amount,
                     ap_previous_expires_at = previous_expires_at,
                     ap_effective_expires_at = effective_expires_at,
                     ap_dedup_key = dedup_key \<rparr>)))))"

definition icrc2_approve ::
  "(bytes \<Rightarrow> bytes) \<Rightarrow> principal \<Rightarrow> nat \<Rightarrow> approve_args \<Rightarrow> token
     \<Rightarrow> (approve_error, token \<times> nat) res" where
  "icrc2_approve sha caller now args s =
     bind_res (icrc2_approve_check sha caller now args s) (\<lambda>p.
     bind_res (write_balance (ap_account_key p) (ap_bal p) (ap_new_bal p) s) (\<lambda>s1.
     bind_res (route_fee_to_treasury (tk_fee s) s1) (\<lambda>s2.
     let s3 = (if ap_amount p = 0
               then remove_allowance (ap_allowance_key p) (ap_previous_expires_at p) s2
               else put_allowance (ap_allowance_key p) (ap_previous_expires_at p)
                      \<lparr> al_amount = ap_amount p,
                        al_expires_at = Some (ap_effective_expires_at p) \<rparr> s2);
         s4 = run_allowance_maintenance now s3 in
     bind_res (next_block s4) (\<lambda>(s5, block).
       Inr (record_dedup now (ap_dedup_key p) block s5, block)))))"

section \<open>ICRC-2 transfer-from\<close>

definition receipt_capacity :: nat where
  "receipt_capacity = MAX_DEPOSIT_RECEIPTS"

definition pool_receipt_gate ::
  "(bytes \<Rightarrow> bytes) \<Rightarrow> principal \<Rightarrow> account \<Rightarrow> transfer_from_args \<Rightarrow> nat \<Rightarrow> token
     \<Rightarrow> (transfer_from_error, (bytes \<times> bytes) option) res" where
  "pool_receipt_gate sha self_id spender_acc args amount s =
    (case tk_pool s of
       None \<Rightarrow> Inr None
     | Some pool \<Rightarrow>
         if pool \<noteq> acc_owner spender_acc then Inr None
         else
           case (tf_memo args, tf_created_at_time args) of
             (Some memo, Some created_at_time) \<Rightarrow>
               if length memo > MAX_DEPOSIT_MEMO_LEN
               then fail (FE_GenericError ERR_CODE_DEPOSIT_UNRECEIPTABLE)
               else
                 let key = deposit_operation_id sha memo;
                     request_hash = deposit_request_hash sha self_id (tf_from args) spender_acc
                       (tf_to args) amount (tf_fee args) (tf_memo args) created_at_time in
                 (case fmlookup (tk_receipts s) key of
                    Some (Cancelled _ _) \<Rightarrow> fail (FE_GenericError ERR_CODE_DEPOSIT_FENCED)
                  | Some (Applied _ _ _ _ _) \<Rightarrow> fail (FE_GenericError ERR_CODE_RECEIPT_CONFLICT)
                  | None \<Rightarrow>
                      if fmlen (tk_receipts s) \<ge> receipt_capacity
                      then fail (FE_GenericError ERR_CODE_RECEIPT_CAPACITY)
                      else Inr (Some (key, request_hash)))
           | _ \<Rightarrow> fail (FE_GenericError ERR_CODE_DEPOSIT_UNRECEIPTABLE))"

record transfer_from_plan =
  fp_debit :: debit_plan
  fp_amount :: nat
  fp_allowance_key :: bytes
  fp_new_allow :: nat
  fp_expires_at :: "nat option"
  fp_dedup_key :: "(bytes \<times> nat) option"
  fp_receipt :: "(bytes \<times> bytes) option"

definition allowance_row :: "token \<Rightarrow> bytes \<Rightarrow> allowance_record" where
  "allowance_row s key =
    (case fmlookup (tk_allowances s) key of
       Some r \<Rightarrow> r
     | None \<Rightarrow> \<lparr> al_amount = 0, al_expires_at = None \<rparr>)"

definition icrc2_transfer_from_check ::
  "(bytes \<Rightarrow> bytes) \<Rightarrow> principal \<Rightarrow> principal \<Rightarrow> nat \<Rightarrow> transfer_from_args \<Rightarrow> token
     \<Rightarrow> (transfer_from_error, transfer_from_plan) res" where
  "icrc2_transfer_from_check sha self_id spender now args s =
    (let fee = tk_fee s in
     bind_res (check_fee (FE_BadFee fee) (tf_fee args) fee) (\<lambda>_.
     bind_res (ok_or (FE_GenericError 1) (to_width 128 (tf_amount args))) (\<lambda>amount.
     if amount = 0 then fail (FE_GenericError ERR_CODE_ZERO_AMOUNT)
     else
       let from_key = encode_key (tf_from args);
           to_key = encode_key (tf_to args);
           spender_acc = \<lparr> acc_owner = spender, acc_sub = tf_spender_subaccount args \<rparr>;
           allowance_key = compound_key from_key (encode_key spender_acc) in
       bind_res (map_err transfer_from_error_of (checked_total_debit amount fee)) (\<lambda>total_debit.
       bind_res (case tf_created_at_time args of
           Some t \<Rightarrow>
             bind_res (check_window (FE_CreatedInFuture now) FE_TooOld now t) (\<lambda>_.
               let key = transfer_from_dedup_key sha (tf_from args) spender_acc (tf_to args) amount
                           (tf_fee args) (tf_memo args) t in
               bind_res (check_duplicate FE_Duplicate s key) (\<lambda>_. Inr (Some (key, t))))
         | None \<Rightarrow> Inr None) (\<lambda>dedup_key.
       bind_res (pool_receipt_gate sha self_id spender_acc args amount s) (\<lambda>pool_receipt.
       let r = allowance_row s allowance_key; spendable = effective_allowance r now in
       if spendable < total_debit then fail (FE_InsufficientAllowance spendable)
       else
         bind_res (ok_or (FE_InsufficientAllowance spendable) (checked_sub spendable total_debit))
           (\<lambda>new_allow.
         bind_res (map_err transfer_from_error_of
             (plan_debit from_key to_key amount total_debit s)) (\<lambda>plan.
           Inr \<lparr> fp_debit = plan, fp_amount = amount, fp_allowance_key = allowance_key,
                 fp_new_allow = new_allow, fp_expires_at = al_expires_at r,
                 fp_dedup_key = dedup_key, fp_receipt = pool_receipt \<rparr>))))))))"

definition spend_allowance :: "bytes \<Rightarrow> nat \<Rightarrow> nat option \<Rightarrow> token \<Rightarrow> token" where
  "spend_allowance allowance_key new_allow expires_at s =
    (if new_allow = 0 then remove_allowance allowance_key expires_at s
     else put_allowance allowance_key expires_at
            \<lparr> al_amount = new_allow, al_expires_at = expires_at \<rparr> s)"

definition write_receipt ::
  "(bytes \<times> bytes) option \<Rightarrow> nat \<Rightarrow> nat \<Rightarrow> nat \<Rightarrow> nat \<Rightarrow> token \<Rightarrow> token" where
  "write_receipt pool_receipt block amount fee now s =
    (case pool_receipt of
       Some (key, request_hash) \<Rightarrow>
         s\<lparr> tk_receipts := fmupd key (Applied block amount fee request_hash now) (tk_receipts s) \<rparr>
     | None \<Rightarrow> s)"

definition icrc2_transfer_from ::
  "(bytes \<Rightarrow> bytes) \<Rightarrow> principal \<Rightarrow> principal \<Rightarrow> nat \<Rightarrow> transfer_from_args \<Rightarrow> token
     \<Rightarrow> (transfer_from_error, token \<times> nat) res" where
  "icrc2_transfer_from sha self_id spender now args s =
     bind_res (icrc2_transfer_from_check sha self_id spender now args s) (\<lambda>p.
     bind_res (move_funds (fp_debit p) (tk_fee s)
                 (spend_allowance (fp_allowance_key p) (fp_new_allow p) (fp_expires_at p) s))
       (\<lambda>(s1, block).
       Inr (record_dedup now (fp_dedup_key p) block
              (write_receipt (fp_receipt p) block (fp_amount p) (tk_fee s) now s1), block)))"

definition icrc2_allowance :: "account \<Rightarrow> account \<Rightarrow> nat \<Rightarrow> token \<Rightarrow> nat \<times> nat option" where
  "icrc2_allowance acc spender now s =
    (let r = allowance_row s (compound_key (encode_key acc) (encode_key spender)) in
     if allowance_is_expired (al_expires_at r) now then (0, None)
     else (effective_allowance r now, al_expires_at r))"

section \<open>Staking locks\<close>

datatype lock_error = InsufficientLiquid nat nat | StakingLockOverflow | CannotUnlock nat nat
  | StakingUnlockUnderflow

definition main_key :: "principal \<Rightarrow> bytes" where
  "main_key holder = encode_key \<lparr> acc_owner = holder, acc_sub = None \<rparr>"

definition assert_staking_canister :: "principal \<Rightarrow> token \<Rightarrow> ('e, unit) res" where
  "assert_staking_canister caller s =
    (case tk_staking s of
       None \<Rightarrow> Inl Trap
     | Some staking \<Rightarrow> if caller = staking then Inr () else Inl Trap)"

definition lock_for_staking :: "principal \<Rightarrow> principal \<Rightarrow> nat \<Rightarrow> token \<Rightarrow> (lock_error, token) res" where
  "lock_for_staking caller holder amount s =
     bind_res (assert_staking_canister caller s) (\<lambda>_.
     let key = main_key holder;
         bal = get_balance s key;
         currently_locked = get_lock s key;
         liquid = bal - currently_locked in
     if liquid < amount then fail (InsufficientLiquid liquid amount)
     else
       bind_res (ok_or StakingLockOverflow (checked_add 128 currently_locked amount)) (\<lambda>new_locked.
         write_lock key currently_locked new_locked s))"

definition unlock_from_staking ::
  "principal \<Rightarrow> principal \<Rightarrow> nat \<Rightarrow> token \<Rightarrow> (lock_error, token) res" where
  "unlock_from_staking caller holder amount s =
     bind_res (assert_staking_canister caller s) (\<lambda>_.
     let key = main_key holder; locked = get_lock s key in
     if locked < amount then fail (CannotUnlock amount locked)
     else
       bind_res (ok_or StakingUnlockUnderflow (checked_sub locked amount)) (\<lambda>new_locked.
         write_lock key locked new_locked s))"

definition staking_locked_balance :: "principal \<Rightarrow> token \<Rightarrow> nat" where
  "staking_locked_balance holder s = get_lock s (main_key holder)"

definition liquid_balance :: "principal \<Rightarrow> token \<Rightarrow> nat" where
  "liquid_balance holder s = get_balance s (main_key holder) - get_lock s (main_key holder)"

section \<open>What the writers do\<close>

text \<open>The row that collects transfer fees, if any.\<close>

definition fee_key :: "token \<Rightarrow> bytes option" where
  "fee_key s =
    (case tk_fee_collector s of
       Some c \<Rightarrow> Some (main_key c)
     | None \<Rightarrow> (case tk_treasury s of Some t \<Rightarrow> Some (main_key t) | None \<Rightarrow> None))"

definition funds_frame :: "token \<Rightarrow> token \<Rightarrow> bool" where
  "funds_frame s s' \<longleftrightarrow>
     s' = s\<lparr> tk_balances := tk_balances s', tk_sum_balances := tk_sum_balances s',
            tk_fee_reserve := tk_fee_reserve s', tk_block_height := tk_block_height s' \<rparr>"

lemma funds_frame_fields:
  assumes "funds_frame s s'"
  shows "tk_locks s' = tk_locks s" "tk_sum_locks s' = tk_sum_locks s"
    "tk_allowances s' = tk_allowances s" "tk_by_expiry s' = tk_by_expiry s"
    "tk_alloc_table s' = tk_alloc_table s" "tk_dedup s' = tk_dedup s"
    "tk_dedup_by_time s' = tk_dedup_by_time s" "tk_receipts s' = tk_receipts s"
    "tk_fee s' = tk_fee s" "tk_mint_done s' = tk_mint_done s" "tk_treasury s' = tk_treasury s"
    "tk_fee_collector s' = tk_fee_collector s" "tk_staking s' = tk_staking s"
    "tk_pool s' = tk_pool s" "tk_checkpoint s' = tk_checkpoint s" "get_lock s' = get_lock s"
  unfolding get_lock_def [abs_def]
  by (subst assms [unfolded funds_frame_def], simp)+

lemma funds_frame_trans:
  assumes "funds_frame s t" "funds_frame t u"
  shows "funds_frame s u"
  unfolding funds_frame_def
  by (subst assms(2) [unfolded funds_frame_def], subst assms(1) [unfolded funds_frame_def]) simp

lemma write_balance_frame:
  assumes "write_balance k old new s = Inr s'" "old = get_balance s k" "totals_ok s"
  shows "funds_frame s s'" "totals_ok s'" "tk_sum_balances s' + old = tk_sum_balances s + new"
    and "tk_fee_reserve s' = tk_fee_reserve s" "tk_block_height s' = tk_block_height s"
    and "get_balance s' x = (if x = k then new else get_balance s x)"
proof -
  note w = write_balance_Inr [OF assms]
  note eq = w [THEN conjunct1]
  show "tk_fee_reserve s' = tk_fee_reserve s" "tk_block_height s' = tk_block_height s"
    by (subst eq, simp)+
  then show "funds_frame s s'" using eq by (simp add: funds_frame_def)
  show "totals_ok s'" "tk_sum_balances s' + old = tk_sum_balances s + new"
    "get_balance s' x = (if x = k then new else get_balance s x)"
    using w by simp_all
qed

lemma route_fee_ok:
  assumes "totals_ok s" "tk_sum_balances s + tk_fee_reserve s + fee = TOTAL_SUPPLY"
  shows "\<exists>s'. route_fee_to_treasury fee s = Inr s' \<and> funds_frame s s' \<and> totals_ok s'
    \<and> tk_sum_balances s' + tk_fee_reserve s' = TOTAL_SUPPLY
    \<and> tk_block_height s' = tk_block_height s
    \<and> (\<forall>x. get_balance s' x = get_balance s x + (if fee_key s = Some x then fee else 0))"
proof (cases "fee = 0")
  case True
  then show ?thesis using assms by (simp add: route_fee_to_treasury_def funds_frame_def)
next
  case False
  show ?thesis
  proof (cases "fee_key s")
    case None
    then have "route_fee_to_treasury fee s = Inr (s\<lparr> tk_fee_reserve := tk_fee_reserve s + fee \<rparr>)"
      using False assms(2) TOTAL_SUPPLY_small
      by (simp add: route_fee_to_treasury_def fee_key_def split: option.splits)
    moreover have "totals_ok (s\<lparr> tk_fee_reserve := tk_fee_reserve s + fee \<rparr>)"
      using assms(1) by (simp add: totals_ok_def)
    ultimately show ?thesis
      using None assms(2)
      by (intro exI [of _ "s\<lparr> tk_fee_reserve := tk_fee_reserve s + fee \<rparr>"])
        (simp add: funds_frame_def get_balance_def)
  next
    case (Some k)
    let ?bal = "get_balance s k"
    have small: "?bal + fee < 2 ^ 128"
      using get_balance_le_sum [OF assms(1), of k] assms(2) TOTAL_SUPPLY_small by linarith
    have route: "(route_fee_to_treasury fee s :: ('a, token) res) = write_balance k ?bal (?bal + fee) s"
      using False Some small
      by (auto simp: route_fee_to_treasury_def fee_key_def main_key_def Let_def split: option.splits)
    obtain s' where s': "(write_balance k ?bal (?bal + fee) s :: ('a, token) res) = Inr s'"
      using write_balance_total [OF assms(1), of ?bal k "?bal + fee"] assms(2) TOTAL_SUPPLY_small
      by auto
    note w = write_balance_frame [OF s' refl assms(1)]
    show ?thesis
      using route s' w Some assms(2) by (intro exI [of _ s']) auto
  qed
qed

text \<open>What a plan must say about the state it was computed from.\<close>

definition plan_ok :: "token \<Rightarrow> debit_plan \<Rightarrow> nat \<Rightarrow> nat \<Rightarrow> bool" where
  "plan_ok s p amount fee \<longleftrightarrow>
     dp_from_bal p = get_balance s (dp_from_key p)
     \<and> get_lock s (dp_from_key p) + amount + fee \<le> dp_from_bal p
     \<and> dp_new_from p + amount + fee = dp_from_bal p
     \<and> dp_to_base p = (if dp_to_key p = dp_from_key p then dp_new_from p
                        else get_balance s (dp_to_key p))
     \<and> dp_new_to p = dp_to_base p + amount"

text \<open>The effect of a transfer on the balances: the sender pays amount and fee, the recipient
  receives the amount, the fee row receives the fee; the three rows may coincide.\<close>

definition moved :: "token \<Rightarrow> token \<Rightarrow> bytes \<Rightarrow> bytes \<Rightarrow> nat \<Rightarrow> nat \<Rightarrow> bool" where
  "moved s s' from_key to_key amount fee \<longleftrightarrow>
     (\<forall>x. get_balance s' x + (if x = from_key then amount + fee else 0)
          = get_balance s x + (if x = to_key then amount else 0)
            + (if fee_key s = Some x then fee else 0))"

lemma plan_debit_Inr:
  assumes "plan_debit from_key to_key amount tdebit s = Inr p" "tdebit = amount + fee"
    and "get_lock s from_key \<le> get_balance s from_key"
  shows "plan_ok s p amount fee \<and> dp_from_key p = from_key \<and> dp_to_key p = to_key"
  using assms
  by (auto simp: plan_debit_def plan_ok_def checked_credit_def result_simps Let_def split: if_splits)

lemma next_block_Inr:
  "next_block s = Inr (s', b) \<longleftrightarrow>
     b = tk_block_height s + 1 \<and> b < u64_limit \<and> s' = s\<lparr> tk_block_height := b \<rparr>"
  by (auto simp: next_block_def result_simps)

lemma fee_key_frame: "funds_frame s s' \<Longrightarrow> fee_key s' = fee_key s"
  by (simp add: fee_key_def funds_frame_fields(11,12) cong: option.case_cong)

lemma funds_frame_block: "funds_frame s (s\<lparr> tk_block_height := b \<rparr>)"
  by (simp add: funds_frame_def)

lemma move_funds_ok:
  assumes inv: "supply_ok s" and plan: "plan_ok s p amount fee"
    and height: "tk_block_height s + 1 < u64_limit"
  shows "\<exists>s'. move_funds p fee s = Inr (s', tk_block_height s + 1) \<and> supply_ok s' \<and> funds_frame s s'
     \<and> tk_block_height s' = tk_block_height s + 1
     \<and> moved s s' (dp_from_key p) (dp_to_key p) amount fee"
proof -
  let ?f = "dp_from_key p" and ?t = "dp_to_key p"
  have tot: "totals_ok s" and sum: "tk_sum_balances s + tk_fee_reserve s = TOTAL_SUPPLY"
    and locks: "\<And>k. get_lock s k \<le> get_balance s k"
    using inv by (simp_all add: supply_ok_def)
  have from_le: "get_balance s ?f \<le> tk_sum_balances s" by (rule get_balance_le_sum [OF tot])
  have from_eq: "dp_from_bal p = get_balance s ?f" "dp_new_from p + amount + fee = get_balance s ?f"
    and lock_le: "get_lock s ?f + amount + fee \<le> get_balance s ?f"
    and to_new: "dp_new_to p = dp_to_base p + amount"
    using plan by (simp_all add: plan_ok_def)
  have "tk_sum_balances s + dp_new_from p - dp_from_bal p < 2 ^ 128"
    using from_eq sum TOTAL_SUPPLY_small by linarith
  from write_balance_total [OF tot from_eq(1) this]
  obtain s1 where s1: "(write_balance ?f (dp_from_bal p) (dp_new_from p) s :: ('a, token) res) = Inr s1"
    by blast
  note w1 = write_balance_frame [OF s1 from_eq(1) tot]
  have base: "dp_to_base p = get_balance s1 ?t" using plan w1(6) by (simp add: plan_ok_def)
  have sum1: "tk_sum_balances s1 + amount + fee = tk_sum_balances s" using w1(3) from_eq by simp
  then have "tk_sum_balances s1 + dp_new_to p - dp_to_base p < 2 ^ 128"
    using to_new sum TOTAL_SUPPLY_small by linarith
  from write_balance_total [OF w1(2) base this]
  obtain s2 where s2: "(write_balance ?t (dp_to_base p) (dp_new_to p) s1 :: ('a, token) res) = Inr s2"
    by blast
  note w2 = write_balance_frame [OF s2 base w1(2)]
  have "tk_sum_balances s2 + tk_fee_reserve s2 + fee = TOTAL_SUPPLY"
    using w1(4) w2(3,4) sum1 to_new sum by simp
  from route_fee_ok [OF w2(2) this, where ?'a = 'a]
  obtain s3 where s3: "(route_fee_to_treasury fee s2 :: ('a, token) res) = Inr s3" "funds_frame s2 s3"
    "totals_ok s3" "tk_sum_balances s3 + tk_fee_reserve s3 = TOTAL_SUPPLY"
    "tk_block_height s3 = tk_block_height s2"
    "\<And>x. get_balance s3 x = get_balance s2 x + (if fee_key s2 = Some x then fee else 0)"
    by blast
  have fr: "funds_frame s s2" "funds_frame s s3"
    using w1(1) w2(1) s3(2) funds_frame_trans by blast+
  let ?s' = "s3\<lparr> tk_block_height := tk_block_height s + 1 \<rparr>"
  have bal: "get_balance ?s' x + (if x = ?f then amount + fee else 0)
      = get_balance s x + (if x = ?t then amount else 0) + (if fee_key s = Some x then fee else 0)" for x
    using s3(6) [of x] w2(6) [of x] w1(6) [of x] base to_new from_eq fee_key_frame [OF fr(1)]
    by (auto simp: get_balance_def)
  have "get_lock s x \<le> get_balance ?s' x" for x
    using bal [of x] locks [of x] lock_le by (cases "x = ?f") (auto split: if_splits)
  then have "supply_ok ?s'"
    using s3(3,4) funds_frame_fields(1) [OF fr(2)]
    by (simp add: supply_ok_def totals_ok_def get_lock_def get_balance_def)
  moreover have "move_funds p fee s = (Inr (?s', tk_block_height s + 1) :: ('a, token \<times> nat) res)"
    using s1 s2 s3(1,5) w1(5) w2(5) height by (simp add: move_funds_def next_block_Inr)
  ultimately show ?thesis
    using bal funds_frame_trans [OF fr(2) funds_frame_block] by (auto simp: moved_def)
qed

lemma write_balance_height: "write_balance k old new s = Inr s' \<Longrightarrow> tk_block_height s' = tk_block_height s"
  by (auto simp: write_balance_def result_simps)

lemma route_fee_height:
  "route_fee_to_treasury fee s = Inr s' \<Longrightarrow> tk_block_height s' = tk_block_height s"
  by (auto simp: route_fee_to_treasury_def Let_def dest: write_balance_height
      split: if_splits option.splits)

lemma move_funds_Inr:
  assumes "move_funds p fee s = Inr (s', b)" "supply_ok s" "plan_ok s p amount fee"
  shows "supply_ok s' \<and> funds_frame s s' \<and> b = tk_block_height s + 1 \<and> tk_block_height s' = b
     \<and> b < u64_limit \<and> moved s s' (dp_from_key p) (dp_to_key p) amount fee"
proof -
  have "tk_block_height s + 1 < u64_limit"
    using assms(1)
    by (auto simp: move_funds_def result_simps next_block_Inr dest!: write_balance_height route_fee_height)
  from move_funds_ok [OF assms(2,3) this] obtain s'' where
    "move_funds p fee s = (Inr (s'', tk_block_height s + 1) :: ('a, token \<times> nat) res)"
    "supply_ok s''" "funds_frame s s''" "tk_block_height s'' = tk_block_height s + 1"
    "moved s s'' (dp_from_key p) (dp_to_key p) amount fee" by blast
  then show ?thesis using assms(1) \<open>tk_block_height s + 1 < u64_limit\<close> by simp
qed

lemma move_funds_no_Err: "move_funds p fee s \<noteq> fail e"
proof -
  have "route_fee_to_treasury fee t \<noteq> (fail e :: ('a, token) res)" for t
    by (auto simp: route_fee_to_treasury_def Let_def balance_rows.write_no_Err split: option.splits)
  then show ?thesis by (auto simp: balance_rows.write_no_Err move_funds_def next_block_def result_simps)
qed

section \<open>What phase 1 establishes\<close>

lemma check_fee_Inr: "check_fee bad provided fee = Inr u \<longleftrightarrow> provided = None \<or> (provided = Some fee \<and> fee < u128_limit)"
  by (auto simp: check_fee_def to_width_def split: option.splits if_splits)

lemma check_window_Inr:
  "check_window f o' now t = Inr u \<longleftrightarrow>
     now + PERMITTED_DRIFT_NS < u64_limit \<and> t \<le> now + PERMITTED_DRIFT_NS \<and> now \<le> t + TX_DEDUP_WINDOW_NS"
  by (auto simp: check_window_def result_simps)

lemma check_duplicate_Inr: "check_duplicate dup s key = Inr u \<longleftrightarrow> fmlookup (tk_dedup s) key = None"
  by (auto simp: check_duplicate_def split: option.splits)

text \<open>A pending deduplication record: fresh, for a key of the right width and a time inside the window.\<close>

definition fresh_dedup :: "token \<Rightarrow> nat \<Rightarrow> (bytes \<times> nat) option \<Rightarrow> bool" where
  "fresh_dedup s now d \<longleftrightarrow>
     (case d of None \<Rightarrow> True
      | Some (key, t) \<Rightarrow> fmlookup (tk_dedup s) key = None \<and> length key = 32 \<and> t < u64_limit
          \<and> now \<le> t + TX_DEDUP_WINDOW_NS)"

definition transfer_key :: "(bytes \<Rightarrow> bytes) \<Rightarrow> principal \<Rightarrow> transfer_args \<Rightarrow> nat \<Rightarrow> bytes" where
  "transfer_key sha caller args t =
     transfer_dedup_key sha \<lparr> acc_owner = caller, acc_sub = ta_from_subaccount args \<rparr> (ta_to args)
       (ta_amount args) (ta_fee args) (ta_memo args) t"

lemma icrc1_transfer_check_Inr:
  assumes "icrc1_transfer_check sha caller now args s = Inr (plan, d)"
    and "\<And>k. get_lock s k \<le> get_balance s k" and "\<And>x. length (sha x) = 32"
  shows "plan_ok s plan (ta_amount args) (tk_fee s)
     \<and> dp_from_key plan = encode_key \<lparr> acc_owner = caller, acc_sub = ta_from_subaccount args \<rparr>
     \<and> dp_to_key plan = encode_key (ta_to args) \<and> 0 < ta_amount args \<and> ta_amount args < u128_limit
     \<and> fresh_dedup s now d
     \<and> d = (case ta_created_at_time args of None \<Rightarrow> None
            | Some t \<Rightarrow> Some (transfer_key sha caller args t, t))"
proof -
  let ?from = "encode_key \<lparr> acc_owner = caller, acc_sub = ta_from_subaccount args \<rparr>"
  have amount: "0 < ta_amount args" "ta_amount args < u128_limit"
    and d: "fresh_dedup s now d" "d = (case ta_created_at_time args of None \<Rightarrow> None
            | Some t \<Rightarrow> Some (transfer_key sha caller args t, t))"
    and plan: "plan_debit ?from (encode_key (ta_to args)) (ta_amount args)
        (ta_amount args + tk_fee s) s = Inr plan"
    using assms(1,3)
    by (cases "ta_created_at_time args"; force simp: icrc1_transfer_check_def Let_def result_simps
        check_window_Inr check_duplicate_Inr checked_total_debit_def fresh_dedup_def transfer_key_def
        transfer_dedup_key_def split: if_splits)+
  from plan_debit_Inr [OF plan refl assms(2)] amount d show ?thesis by simp
qed

text \<open>A pending receipt: for a fresh operation id, with room left in the receipt map.\<close>

definition fresh_receipt :: "token \<Rightarrow> (bytes \<times> bytes) option \<Rightarrow> bool" where
  "fresh_receipt s r \<longleftrightarrow>
     (case r of None \<Rightarrow> True
      | Some (key, h) \<Rightarrow> fmlookup (tk_receipts s) key = None \<and> length h = 32
          \<and> fmlen (tk_receipts s) < MAX_DEPOSIT_RECEIPTS)"

definition is_pool :: "token \<Rightarrow> principal \<Rightarrow> bool" where
  "is_pool s p \<longleftrightarrow> tk_pool s = Some p"

lemma pool_receipt_gate_Inr:
  assumes "pool_receipt_gate sha self_id sp args amount s = Inr r" and "\<And>x. length (sha x) = 32"
  shows "fresh_receipt s r \<and> (is_pool s (acc_owner sp) \<longleftrightarrow> r \<noteq> None)
     \<and> (is_pool s (acc_owner sp) \<longrightarrow> (\<exists>memo t. tf_memo args = Some memo \<and> tf_created_at_time args = Some t
         \<and> length memo \<le> MAX_DEPOSIT_MEMO_LEN
         \<and> r = Some (deposit_operation_id sha memo,
             deposit_request_hash sha self_id (tf_from args) sp (tf_to args) amount (tf_fee args)
               (tf_memo args) t)))"
proof (cases "is_pool s (acc_owner sp)")
  case False
  then show ?thesis
    using assms(1) by (auto simp: pool_receipt_gate_def is_pool_def fresh_receipt_def
        split: option.splits if_splits)
next
  case True
  then obtain memo t where mt: "tf_memo args = Some memo" "tf_created_at_time args = Some t"
    using assms(1) by (auto simp: pool_receipt_gate_def is_pool_def split: option.splits)
  then show ?thesis
    using assms True
    by (auto simp: pool_receipt_gate_def is_pool_def fresh_receipt_def Let_def receipt_capacity_def
        deposit_request_hash_def split: option.splits if_splits deposit_receipt.splits)
qed

definition spender_account :: "principal \<Rightarrow> transfer_from_args \<Rightarrow> account" where
  "spender_account spender args = \<lparr> acc_owner = spender, acc_sub = tf_spender_subaccount args \<rparr>"

definition spent_allowance_key :: "principal \<Rightarrow> transfer_from_args \<Rightarrow> bytes" where
  "spent_allowance_key spender args =
     compound_key (encode_key (tf_from args)) (encode_key (spender_account spender args))"

definition transfer_from_key ::
  "(bytes \<Rightarrow> bytes) \<Rightarrow> principal \<Rightarrow> transfer_from_args \<Rightarrow> nat \<Rightarrow> bytes" where
  "transfer_from_key sha spender args t =
     transfer_from_dedup_key sha (tf_from args) (spender_account spender args) (tf_to args)
       (tf_amount args) (tf_fee args) (tf_memo args) t"

lemma icrc2_transfer_from_check_parts:
  assumes "icrc2_transfer_from_check sha self_id spender now args s = Inr p"
    and "\<And>x. length (sha x) = 32"
  shows "0 < tf_amount args" "tf_amount args < u128_limit" "fp_amount p = tf_amount args"
    and "fresh_dedup s now (fp_dedup_key p)"
    and "fp_dedup_key p = (case tf_created_at_time args of None \<Rightarrow> None
            | Some t \<Rightarrow> Some (transfer_from_key sha spender args t, t))"
    and "fp_allowance_key p = spent_allowance_key spender args"
    and "fp_expires_at p = al_expires_at (allowance_row s (fp_allowance_key p))"
    and "fp_new_allow p + tf_amount args + tk_fee s
           = effective_allowance (allowance_row s (fp_allowance_key p)) now"
    and "pool_receipt_gate sha self_id (spender_account spender args) args (tf_amount args) s
           = Inr (fp_receipt p)"
    and "plan_debit (encode_key (tf_from args)) (encode_key (tf_to args)) (tf_amount args)
        (tf_amount args + tk_fee s) s = Inr (fp_debit p)"
  using assms
  by (cases "tf_created_at_time args"; force simp: icrc2_transfer_from_check_def Let_def result_simps
      check_window_Inr check_duplicate_Inr checked_total_debit_def fresh_dedup_def transfer_from_key_def
      transfer_from_dedup_key_def spent_allowance_key_def spender_account_def split: if_splits)+

lemma icrc2_transfer_from_check_plan:
  assumes "icrc2_transfer_from_check sha self_id spender now args s = Inr p"
    and "\<And>x. length (sha x) = 32" "\<And>k. get_lock s k \<le> get_balance s k"
  shows "plan_ok s (fp_debit p) (tf_amount args) (tk_fee s)
     \<and> dp_from_key (fp_debit p) = encode_key (tf_from args)
     \<and> dp_to_key (fp_debit p) = encode_key (tf_to args)"
  using plan_debit_Inr [OF icrc2_transfer_from_check_parts(10) [OF assms(1,2)] refl assms(3)] .

definition approve_key :: "(bytes \<Rightarrow> bytes) \<Rightarrow> principal \<Rightarrow> approve_args \<Rightarrow> nat \<Rightarrow> bytes" where
  "approve_key sha caller args t =
     approve_dedup_key sha \<lparr> acc_owner = caller, acc_sub = aa_from_subaccount args \<rparr> args t"

definition approver_key :: "principal \<Rightarrow> approve_args \<Rightarrow> bytes" where
  "approver_key caller args = encode_key \<lparr> acc_owner = caller, acc_sub = aa_from_subaccount args \<rparr>"

lemma icrc2_approve_check_parts:
  assumes "icrc2_approve_check sha caller now args s = Inr p"
    and "\<And>x. length (sha x) = 32"
  shows "fresh_dedup s now (ap_dedup_key p)"
    and "ap_dedup_key p = (case aa_created_at_time args of None \<Rightarrow> None
            | Some t \<Rightarrow> Some (approve_key sha caller args t, t))"
    and "ap_account_key p = approver_key caller args"
    and "ap_allowance_key p = compound_key (approver_key caller args) (encode_key (aa_spender args))"
    and "ap_amount p = aa_amount args" "aa_amount args < u128_limit"
    and "effective_approval_lifetime (aa_expires_at args) now = Effective (ap_effective_expires_at p)"
    and "ap_previous_expires_at p = stamp_at al_expires_at (tk_allowances s) (ap_allowance_key p)"
    and "ap_bal p = get_balance s (ap_account_key p)"
    and "ap_new_bal p + tk_fee s = ap_bal p"
    and "tk_fee s \<le> ap_bal p - get_lock s (ap_account_key p)"
  using assms
  by (cases "aa_created_at_time args"; force simp: icrc2_approve_check_def Let_def result_simps
      check_window_Inr check_duplicate_Inr fresh_dedup_def approve_key_def approver_key_def
      approve_dedup_key_def split: if_splits approval_lifetime.splits)+

end
