(* ===== verification/Token_Steps.thy ===== *)
theory Token_Steps
  imports Token_Transfer
begin

text \<open>
  The invariant of the token ledger and its preservation by every endpoint: supply conservation with
  exact running totals and covered locks, both time indexes in bijection with their maps, and a
  history (deduplication records and deposit receipts) that never mentions a block above the
  current height.
\<close>

section \<open>The invariant\<close>

definition history_ok :: "token \<Rightarrow> bool" where
  "history_ok s \<longleftrightarrow>
     tk_block_height s < u64_limit \<and> tk_fee s < u128_limit
     \<and> (\<forall>k v. fmlookup (tk_dedup s) k = Some v \<longrightarrow> decode_dedup_block_index v \<le> tk_block_height s)
     \<and> (\<forall>k b am fe h t. fmlookup (tk_receipts s) k = Some (Applied b am fe h t) \<longrightarrow> b \<le> tk_block_height s)
     \<and> (\<forall>k r. fmlookup (tk_receipts s) k = Some r \<longrightarrow> receipt_wf r)
     \<and> fmlen (tk_receipts s) \<le> MAX_DEPOSIT_RECEIPTS"

definition token_inv :: "token \<Rightarrow> bool" where
  "token_inv s \<longleftrightarrow> supply_ok s \<and> stores_ok s \<and> history_ok s"

named_theorems store_frames "writers of one store leave the other stores alone"

lemma put_allowance_fields [store_frames]:
  "tk_balances (put_allowance k e r s) = tk_balances s" "tk_locks (put_allowance k e r s) = tk_locks s"
  "tk_sum_balances (put_allowance k e r s) = tk_sum_balances s"
  "tk_sum_locks (put_allowance k e r s) = tk_sum_locks s"
  "tk_dedup (put_allowance k e r s) = tk_dedup s"
  "tk_dedup_by_time (put_allowance k e r s) = tk_dedup_by_time s"
  "tk_receipts (put_allowance k e r s) = tk_receipts s"
  "tk_block_height (put_allowance k e r s) = tk_block_height s"
  "tk_fee (put_allowance k e r s) = tk_fee s" "tk_fee_reserve (put_allowance k e r s) = tk_fee_reserve s"
  "tk_treasury (put_allowance k e r s) = tk_treasury s"
  "tk_fee_collector (put_allowance k e r s) = tk_fee_collector s"
  "tk_pool (put_allowance k e r s) = tk_pool s" "tk_staking (put_allowance k e r s) = tk_staking s"
  by (simp_all add: put_allowance_def)

lemma remove_allowance_fields [store_frames]:
  "tk_balances (remove_allowance k e s) = tk_balances s" "tk_locks (remove_allowance k e s) = tk_locks s"
  "tk_sum_balances (remove_allowance k e s) = tk_sum_balances s"
  "tk_sum_locks (remove_allowance k e s) = tk_sum_locks s"
  "tk_dedup (remove_allowance k e s) = tk_dedup s"
  "tk_dedup_by_time (remove_allowance k e s) = tk_dedup_by_time s"
  "tk_receipts (remove_allowance k e s) = tk_receipts s"
  "tk_block_height (remove_allowance k e s) = tk_block_height s"
  "tk_fee (remove_allowance k e s) = tk_fee s" "tk_fee_reserve (remove_allowance k e s) = tk_fee_reserve s"
  "tk_treasury (remove_allowance k e s) = tk_treasury s"
  "tk_fee_collector (remove_allowance k e s) = tk_fee_collector s"
  "tk_pool (remove_allowance k e s) = tk_pool s" "tk_staking (remove_allowance k e s) = tk_staking s"
  by (simp_all add: remove_allowance_def)

lemma prune_allowances_eq:
  "prune_expired_allowances now cap s =
    s\<lparr> tk_allowances := fst (prune_rows (allowance_upper now) cap (tk_allowances s, tk_by_expiry s)),
       tk_by_expiry := snd (prune_rows (allowance_upper now) cap (tk_allowances s, tk_by_expiry s)) \<rparr>"
  by (simp add: prune_expired_allowances_def split_beta)

lemma prune_allowances_fields [store_frames]:
  "tk_balances (prune_expired_allowances now cap s) = tk_balances s"
  "tk_locks (prune_expired_allowances now cap s) = tk_locks s"
  "tk_sum_balances (prune_expired_allowances now cap s) = tk_sum_balances s"
  "tk_sum_locks (prune_expired_allowances now cap s) = tk_sum_locks s"
  "tk_dedup (prune_expired_allowances now cap s) = tk_dedup s"
  "tk_dedup_by_time (prune_expired_allowances now cap s) = tk_dedup_by_time s"
  "tk_receipts (prune_expired_allowances now cap s) = tk_receipts s"
  "tk_block_height (prune_expired_allowances now cap s) = tk_block_height s"
  "tk_fee (prune_expired_allowances now cap s) = tk_fee s"
  "tk_fee_reserve (prune_expired_allowances now cap s) = tk_fee_reserve s"
  "tk_pool (prune_expired_allowances now cap s) = tk_pool s"
  "tk_staking (prune_expired_allowances now cap s) = tk_staking s"
  by (simp_all add: prune_allowances_eq)

lemma record_dedup_eq:
  "record_dedup_at now key b t s =
    s\<lparr> tk_dedup := fmupd key (encode_dedup_value b t)
         (fst (prune_rows (dedup_upper now) MAX_PRUNE_PER_CALL (tk_dedup s, tk_dedup_by_time s))),
       tk_dedup_by_time := finsert (t, key)
         (snd (prune_rows (dedup_upper now) MAX_PRUNE_PER_CALL (tk_dedup s, tk_dedup_by_time s))) \<rparr>"
  by (simp add: record_dedup_at_def prune_expired_dedup_def split_beta Let_def)

lemma record_dedup_fields [store_frames]:
  "tk_balances (record_dedup now d b s) = tk_balances s"
  "tk_locks (record_dedup now d b s) = tk_locks s"
  "tk_sum_balances (record_dedup now d b s) = tk_sum_balances s"
  "tk_sum_locks (record_dedup now d b s) = tk_sum_locks s"
  "tk_allowances (record_dedup now d b s) = tk_allowances s"
  "tk_by_expiry (record_dedup now d b s) = tk_by_expiry s"
  "tk_receipts (record_dedup now d b s) = tk_receipts s"
  "tk_block_height (record_dedup now d b s) = tk_block_height s"
  "tk_fee (record_dedup now d b s) = tk_fee s"
  "tk_fee_reserve (record_dedup now d b s) = tk_fee_reserve s"
  "tk_pool (record_dedup now d b s) = tk_pool s" "tk_staking (record_dedup now d b s) = tk_staking s"
  by (simp_all add: record_dedup_def record_dedup_eq split: option.splits)

lemma write_receipt_fields [store_frames]:
  "tk_balances (write_receipt r b a f n s) = tk_balances s"
  "tk_locks (write_receipt r b a f n s) = tk_locks s"
  "tk_sum_balances (write_receipt r b a f n s) = tk_sum_balances s"
  "tk_sum_locks (write_receipt r b a f n s) = tk_sum_locks s"
  "tk_allowances (write_receipt r b a f n s) = tk_allowances s"
  "tk_by_expiry (write_receipt r b a f n s) = tk_by_expiry s"
  "tk_dedup (write_receipt r b a f n s) = tk_dedup s"
  "tk_dedup_by_time (write_receipt r b a f n s) = tk_dedup_by_time s"
  "tk_block_height (write_receipt r b a f n s) = tk_block_height s"
  "tk_fee (write_receipt r b a f n s) = tk_fee s"
  "tk_fee_reserve (write_receipt r b a f n s) = tk_fee_reserve s"
  "tk_pool (write_receipt r b a f n s) = tk_pool s" "tk_staking (write_receipt r b a f n s) = tk_staking s"
  by (simp_all add: write_receipt_def split: option.splits)

lemma supply_ok_cong:
  "tk_balances s' = tk_balances s \<Longrightarrow> tk_locks s' = tk_locks s \<Longrightarrow> tk_sum_balances s' = tk_sum_balances s
     \<Longrightarrow> tk_sum_locks s' = tk_sum_locks s \<Longrightarrow> tk_fee_reserve s' = tk_fee_reserve s
     \<Longrightarrow> supply_ok s' \<longleftrightarrow> supply_ok s"
  by (simp add: supply_ok_def totals_ok_def get_lock_def get_balance_def)

section \<open>The stores under their writers\<close>

lemma stores_ok_cong:
  "tk_allowances s' = tk_allowances s \<Longrightarrow> tk_by_expiry s' = tk_by_expiry s
     \<Longrightarrow> tk_dedup s' = tk_dedup s \<Longrightarrow> tk_dedup_by_time s' = tk_dedup_by_time s
     \<Longrightarrow> stores_ok s' \<longleftrightarrow> stores_ok s"
  by (simp add: stores_ok_def)

lemma stores_okD:
  assumes "stores_ok s"
  shows "index_matches al_expires_at (tk_allowances s) (tk_by_expiry s)"
    and "(e, l) |\<in>| tk_by_expiry s \<Longrightarrow> e < u64_limit"
    and "fmlookup (tk_allowances s) k = Some r \<Longrightarrow> al_expires_at r \<noteq> None \<and> al_amount r \<noteq> 0"
    and "index_matches dedup_stamp (tk_dedup s) (tk_dedup_by_time s)"
    and "(e, l) |\<in>| tk_dedup_by_time s \<Longrightarrow> length l = 32"
  using assms unfolding stores_ok_def by (blast | fastforce)+

lemma stores_okI:
  assumes "index_matches al_expires_at (tk_allowances s) (tk_by_expiry s)"
    and "\<And>e k. (e, k) |\<in>| tk_by_expiry s \<Longrightarrow> e < u64_limit"
    and "\<And>k r. fmlookup (tk_allowances s) k = Some r \<Longrightarrow> al_expires_at r \<noteq> None \<and> al_amount r \<noteq> 0"
    and "index_matches dedup_stamp (tk_dedup s) (tk_dedup_by_time s)"
    and "\<And>e k. (e, k) |\<in>| tk_dedup_by_time s \<Longrightarrow> length k = 32"
  shows "stores_ok s"
  using assms unfolding stores_ok_def by (metis prod.collapse)

lemma stores_put_allowance:
  assumes "stores_ok s" "prev = stamp_at al_expires_at (tk_allowances s) k"
    and "al_expires_at r = Some e" "e < u64_limit" "al_amount r \<noteq> 0"
  shows "stores_ok (put_allowance k prev r s)"
proof (rule stores_okI)
  let ?s = "put_allowance k prev r s"
  note old = stores_okD [OF assms(1)]
  show "index_matches al_expires_at (tk_allowances ?s) (tk_by_expiry ?s)"
    using index_matches_put [OF old(1), of k r] index_matches_same [OF old(1), of k r] assms(2)
    by (auto simp: put_allowance_def)
  show "d < u64_limit" if "(d, l) |\<in>| tk_by_expiry ?s" for d l
    using that old(2) [of d l] assms(3,4) by (auto simp: put_allowance_def in_reindex split: if_splits)
  show "al_expires_at v \<noteq> None \<and> al_amount v \<noteq> 0" if "fmlookup (tk_allowances ?s) l = Some v" for l v
    using that old(3) [of l v] assms(3,5) by (auto simp: put_allowance_def split: if_splits)
qed (use stores_okD(4,5) [OF assms(1)] in \<open>simp_all add: store_frames\<close>)

lemma stores_remove_allowance:
  assumes "stores_ok s" "prev = stamp_at al_expires_at (tk_allowances s) k"
  shows "stores_ok (remove_allowance k prev s)"
proof (rule stores_okI)
  let ?s = "remove_allowance k prev s"
  note old = stores_okD [OF assms(1)]
  show "index_matches al_expires_at (tk_allowances ?s) (tk_by_expiry ?s)"
    using index_matches_remove [OF old(1), of k] assms(2) by (simp add: remove_allowance_def)
  show "d < u64_limit" if "(d, l) |\<in>| tk_by_expiry ?s" for d l
    using that old(2) [of d l] by (auto simp: remove_allowance_def in_reindex split: if_splits)
  show "al_expires_at v \<noteq> None \<and> al_amount v \<noteq> 0" if "fmlookup (tk_allowances ?s) l = Some v" for l v
    using that old(3) [of l v] by (auto simp: remove_allowance_def split: if_splits)
qed (use stores_okD(4,5) [OF assms(1)] in \<open>simp_all add: store_frames\<close>)

lemma stores_prune_allowances:
  assumes "stores_ok s"
  shows "stores_ok (prune_expired_allowances now cap s)"
proof (rule stores_okI)
  let ?s = "prune_expired_allowances now cap s" and ?st = "(tk_allowances s, tk_by_expiry s)"
  note old = stores_okD [OF assms]
  show "index_matches al_expires_at (tk_allowances ?s) (tk_by_expiry ?s)"
    using allowance_store.prune_matches [of ?st now cap] old(1) by (simp add: prune_allowances_eq)
  show "d < u64_limit" if "(d, l) |\<in>| tk_by_expiry ?s" for d l
    using that old(2) [of d l] allowance_store.prune_subset [of now cap ?st]
    by (simp add: prune_allowances_eq fsubsetD)
  show "al_expires_at v \<noteq> None \<and> al_amount v \<noteq> 0" if "fmlookup (tk_allowances ?s) l = Some v" for l v
    using that old(3) [of l v] allowance_store.prune_only_removes [of now cap ?st l v]
    by (simp add: prune_allowances_eq)
qed (use stores_okD(4,5) [OF assms(1)] in \<open>simp_all add: store_frames\<close>)

lemma stores_record_dedup:
  assumes "stores_ok s" "fresh_dedup s now d"
  shows "stores_ok (record_dedup now' d b s)"
proof (cases d)
  case (Some kt)
  then obtain k t where d: "d = Some (k, t)" by (cases kt) simp
  then have fresh: "fmlookup (tk_dedup s) k = None" "length k = 32" "t < u64_limit"
    using assms(2) by (simp_all add: fresh_dedup_def)
  let ?st = "(tk_dedup s, tk_dedup_by_time s)"
  let ?p = "prune_rows (dedup_upper now') MAX_PRUNE_PER_CALL ?st"
  note old = stores_okD [OF assms(1)]
  have matches: "index_matches dedup_stamp (fst ?p) (snd ?p)"
    by (rule dedup_store.prune_matches) (simp add: old(4))
  have gone: "fmlookup (fst ?p) k = None"
    using dedup_store.prune_only_removes [of now' MAX_PRUNE_PER_CALL ?st k] fresh(1)
    by (cases "fmlookup (fst ?p) k") auto
  show ?thesis unfolding d
  proof (rule stores_okI)
    show "index_matches dedup_stamp (tk_dedup (record_dedup now' (Some (k, t)) b s))
        (tk_dedup_by_time (record_dedup now' (Some (k, t)) b s))"
      using index_matches_put [OF matches, of k "encode_dedup_value b t"] gone fresh(3)
      by (simp add: record_dedup_def record_dedup_eq stamp_at_def reindex_def dedup_stamp_def
          dedup_value_parts)
    show "length l = 32" if "(e, l) |\<in>| tk_dedup_by_time (record_dedup now' (Some (k, t)) b s)" for e l
      using that fresh(2) old(5) [of e l]
        fsubsetD [OF dedup_store.prune_subset [of now' MAX_PRUNE_PER_CALL ?st], of "(e, l)"]
      by (auto simp: record_dedup_def record_dedup_eq)
  qed (use old(1-3) in \<open>simp_all add: store_frames\<close>)
qed (use assms in \<open>simp add: record_dedup_def\<close>)

section \<open>The history under its writers\<close>

lemma history_okD:
  assumes "history_ok s"
  shows "tk_block_height s < u64_limit" "tk_fee s < u128_limit"
    and "fmlookup (tk_dedup s) k = Some v \<Longrightarrow> decode_dedup_block_index v \<le> tk_block_height s"
    and "fmlookup (tk_receipts s) k = Some (Applied b am fe h t) \<Longrightarrow> b \<le> tk_block_height s"
    and "fmlookup (tk_receipts s) k = Some r \<Longrightarrow> receipt_wf r"
    and "fmlen (tk_receipts s) \<le> MAX_DEPOSIT_RECEIPTS"
  using assms unfolding history_ok_def by blast+

lemma history_okI:
  assumes "tk_block_height s < u64_limit" "tk_fee s < u128_limit"
    and "\<And>k v. fmlookup (tk_dedup s) k = Some v \<Longrightarrow> decode_dedup_block_index v \<le> tk_block_height s"
    and "\<And>k b am fe h t. fmlookup (tk_receipts s) k = Some (Applied b am fe h t) \<Longrightarrow> b \<le> tk_block_height s"
    and "\<And>k r. fmlookup (tk_receipts s) k = Some r \<Longrightarrow> receipt_wf r"
    and "fmlen (tk_receipts s) \<le> MAX_DEPOSIT_RECEIPTS"
  shows "history_ok s"
  using assms unfolding history_ok_def by blast

lemma history_mono:
  assumes "history_ok s" "tk_block_height s \<le> tk_block_height s'" "tk_block_height s' < u64_limit"
    and "tk_fee s' = tk_fee s" "tk_dedup s' = tk_dedup s" "tk_receipts s' = tk_receipts s"
  shows "history_ok s'"
  using assms unfolding history_ok_def by (metis le_trans)

lemma history_record_dedup:
  assumes "history_ok s" "b \<le> tk_block_height s"
  shows "history_ok (record_dedup now d b s)"
proof (cases d)
  case (Some kt)
  then obtain k t where d: "d = Some (k, t)" by (cases kt) simp
  note old = history_okD [OF assms(1)]
  have "b < u64_limit" using assms(2) old(1) by simp
  show ?thesis unfolding d
  proof (rule history_okI)
    let ?s = "record_dedup now (Some (k, t)) b s"
    show "decode_dedup_block_index v \<le> tk_block_height ?s" if "fmlookup (tk_dedup ?s) l = Some v" for l v
    proof (cases "l = k")
      case True
      then show ?thesis
        using that assms(2) \<open>b < u64_limit\<close>
        by (auto simp: record_dedup_def record_dedup_eq dedup_value_parts)
    next
      case False
      then have "fmlookup (tk_dedup s) l = Some v"
        using that dedup_store.prune_only_removes [of now MAX_PRUNE_PER_CALL
            "(tk_dedup s, tk_dedup_by_time s)" l v]
        by (simp add: record_dedup_def record_dedup_eq)
      then show ?thesis using old(3) by (simp add: store_frames)
    qed
  qed (use old in \<open>simp_all add: store_frames\<close>)
qed (use assms in \<open>simp add: record_dedup_def\<close>)

lemma history_write_receipt:
  assumes "history_ok s" "fresh_receipt s r" "b \<le> tk_block_height s" "a < u128_limit"
    "f < u128_limit" "now < u64_limit"
  shows "history_ok (write_receipt r b a f now s)"
proof (cases r)
  case (Some kh)
  then obtain k h where r: "r = Some (k, h)" by (cases kh) simp
  then have fresh: "fmlookup (tk_receipts s) k = None" "length h = 32"
    "fmlen (tk_receipts s) < MAX_DEPOSIT_RECEIPTS"
    using assms(2) by (simp_all add: fresh_receipt_def)
  note old = history_okD [OF assms(1)]
  have "b < u64_limit" using assms(3) old(1) by simp
  then have wf: "receipt_wf (Applied b a f h now)"
    using assms(4-6) fresh(2) by (simp add: receipt_wf_def)
  show ?thesis unfolding r
    by (rule history_okI)
      (use old wf fresh assms(3) in
        \<open>auto simp: write_receipt_def fmlen_upd Suc_le_eq split: if_splits\<close>)
qed (use assms in \<open>simp add: write_receipt_def\<close>)

section \<open>Every endpoint keeps the invariant\<close>

lemma token_invD:
  "token_inv s \<Longrightarrow> supply_ok s" "token_inv s \<Longrightarrow> stores_ok s" "token_inv s \<Longrightarrow> history_ok s"
  "token_inv s \<Longrightarrow> get_lock s k \<le> get_balance s k" "token_inv s \<Longrightarrow> totals_ok s"
  by (simp_all add: token_inv_def supply_ok_def)

lemma supply_record_dedup [simp]: "supply_ok (record_dedup now d b s) = supply_ok s"
  by (rule supply_ok_cong) (simp_all add: store_frames)

lemma supply_write_receipt [simp]: "supply_ok (write_receipt r b a f n s) = supply_ok s"
  by (rule supply_ok_cong) (simp_all add: store_frames)

lemma supply_put_allowance [simp]: "supply_ok (put_allowance k e r s) = supply_ok s"
  by (rule supply_ok_cong) (simp_all add: store_frames)

lemma supply_remove_allowance [simp]: "supply_ok (remove_allowance k e s) = supply_ok s"
  by (rule supply_ok_cong) (simp_all add: store_frames)

lemma supply_prune_allowances [simp]: "supply_ok (prune_expired_allowances n c s) = supply_ok s"
  by (rule supply_ok_cong) (simp_all add: store_frames)

lemma fresh_dedup_frame: "tk_dedup s' = tk_dedup s \<Longrightarrow> fresh_dedup s' now d = fresh_dedup s now d"
  by (simp add: fresh_dedup_def split: option.splits)

lemma token_inv_move:
  assumes "move_funds p fee s = Inr (s', b)" "token_inv s" "plan_ok s p amount fee"
  shows "token_inv s' \<and> tk_dedup s' = tk_dedup s \<and> tk_receipts s' = tk_receipts s \<and> b \<le> tk_block_height s'
     \<and> b = tk_block_height s + 1"
proof -
  note m = move_funds_Inr [OF assms(1) token_invD(1) [OF assms(2)] assms(3)]
  have fr: "funds_frame s s'" using m by blast
  have "stores_ok s'"
    using stores_ok_cong [of s' s] funds_frame_fields [OF fr] token_invD(2) [OF assms(2)] by simp
  moreover have "history_ok s'"
    by (rule history_mono [OF token_invD(3) [OF assms(2)]]) (use m funds_frame_fields [OF fr] in simp_all)
  ultimately show ?thesis
    using m funds_frame_fields [OF fr] by (simp add: token_inv_def)
qed

lemma token_inv_record:
  assumes "token_inv s" "fresh_dedup s now d" "b \<le> tk_block_height s"
  shows "token_inv (record_dedup now' d b s)"
  using assms stores_record_dedup [of s now d] history_record_dedup [of s b] by (simp add: token_inv_def)

lemma icrc1_transfer_inv:
  assumes "icrc1_transfer sha caller now args s = Inr (s', b)" "token_inv s"
    and sha: "\<And>x. length (sha x) = 32"
  shows "token_inv s'"
proof -
  obtain plan d s1 where check: "icrc1_transfer_check sha caller now args s = Inr (plan, d)"
    and move: "(move_funds plan (tk_fee s) s :: (transfer_error, token \<times> nat) res) = Inr (s1, b)"
    and s': "s' = record_dedup now d b s1"
    using assms(1) by (auto simp: icrc1_transfer_def result_simps)
  note c = icrc1_transfer_check_Inr [OF check token_invD(4) [OF assms(2)] sha]
  note m = token_inv_move [OF move assms(2) c [THEN conjunct1]]
  show ?thesis
    unfolding s' by (rule token_inv_record) (use m c fresh_dedup_frame [of s1 s] in auto)
qed

lemma stores_frame: "funds_frame s s' \<Longrightarrow> stores_ok s' = stores_ok s"
  by (rule stores_ok_cong) (simp_all add: funds_frame_fields)

lemma spend_allowance_fields [store_frames]:
  "tk_balances (spend_allowance k n e s) = tk_balances s" "tk_locks (spend_allowance k n e s) = tk_locks s"
  "tk_sum_balances (spend_allowance k n e s) = tk_sum_balances s"
  "tk_sum_locks (spend_allowance k n e s) = tk_sum_locks s"
  "tk_dedup (spend_allowance k n e s) = tk_dedup s"
  "tk_dedup_by_time (spend_allowance k n e s) = tk_dedup_by_time s"
  "tk_receipts (spend_allowance k n e s) = tk_receipts s"
  "tk_block_height (spend_allowance k n e s) = tk_block_height s"
  "tk_fee (spend_allowance k n e s) = tk_fee s" "tk_fee_reserve (spend_allowance k n e s) = tk_fee_reserve s"
  "tk_treasury (spend_allowance k n e s) = tk_treasury s"
  "tk_fee_collector (spend_allowance k n e s) = tk_fee_collector s"
  "tk_pool (spend_allowance k n e s) = tk_pool s" "tk_staking (spend_allowance k n e s) = tk_staking s"
  by (simp_all add: spend_allowance_def store_frames)

lemma plan_ok_cong:
  "tk_balances s' = tk_balances s \<Longrightarrow> tk_locks s' = tk_locks s \<Longrightarrow> plan_ok s' p a f = plan_ok s p a f"
  by (simp add: plan_ok_def get_balance_def get_lock_def)

text \<open>A successful spend found a live allowance row.\<close>

lemma spend_allowance_inv:
  assumes inv: "token_inv s" and pos: "0 < n + a" 
    and eff: "n + a = effective_allowance (allowance_row s k) now"
    and e: "e = al_expires_at (allowance_row s k)"
  shows "token_inv (spend_allowance k n e s)"
    and "\<exists>r. fmlookup (tk_allowances s) k = Some r \<and> al_expires_at r = e \<and> al_amount r = n + a
       \<and> \<not> allowance_is_expired e now"
proof -
  obtain r where r: "fmlookup (tk_allowances s) k = Some r" "allowance_row s k = r"
  proof (cases "fmlookup (tk_allowances s) k")
    case None
    then have "effective_allowance (allowance_row s k) now = 0"
      by (simp add: allowance_row_def effective_allowance_def)
    with eff pos show thesis by simp
  next
    case (Some r)
    with that show thesis by (simp add: allowance_row_def)
  qed
  have exp: "al_expires_at r = e" using e r(2) by simp
  have "effective_allowance r now \<noteq> 0" using eff pos r(2) by simp
  then have live: "\<not> allowance_is_expired e now" "al_amount r = n + a" "al_expires_at r = e"
    using eff r(2) exp by (simp_all add: effective_allowance_def split: if_splits)
  then show "\<exists>r. fmlookup (tk_allowances s) k = Some r \<and> al_expires_at r = e \<and> al_amount r = n + a
       \<and> \<not> allowance_is_expired e now" using r(1) by blast
  have st: "stores_ok s" by (rule token_invD(2) [OF inv])
  have stamp: "e = stamp_at al_expires_at (tk_allowances s) k" using r(1) live(3) by (simp add: stamp_at_def)
  obtain t where t: "e = Some t" using stores_okD(3) [OF st r(1)] live(3) by auto
  have "(t, k) |\<in>| tk_by_expiry s"
    using stores_okD(1) [OF st] stamp t by (simp add: index_matches_iff)
  then have small: "t < u64_limit" by (rule stores_okD(2) [OF st])
  have "stores_ok (spend_allowance k n e s)"
  proof (cases "n = 0")
    case True
    then show ?thesis using stores_remove_allowance [OF st stamp] by (simp add: spend_allowance_def)
  next
    case False
    have "stores_ok (put_allowance k e \<lparr> al_amount = n, al_expires_at = e \<rparr> s)"
      by (rule stores_put_allowance [OF st stamp _ small]) (use t False in simp_all)
    then show ?thesis using False by (simp add: spend_allowance_def)
  qed
  moreover have "supply_ok (spend_allowance k n e s)"
    using token_invD(1) [OF inv] by (simp add: spend_allowance_def)
  moreover have "history_ok (spend_allowance k n e s)"
    by (rule history_mono [OF token_invD(3) [OF inv]])
      (use history_okD(1) [OF token_invD(3) [OF inv]] in \<open>simp_all add: store_frames\<close>)
  ultimately show "token_inv (spend_allowance k n e s)" by (simp add: token_inv_def)
qed

lemma icrc2_transfer_from_inv:
  assumes "icrc2_transfer_from sha self_id spender now args s = Inr (s', b)" "token_inv s"
    and sha: "\<And>x. length (sha x) = 32" and now: "now < u64_limit"
  shows "token_inv s'"
proof -
  let ?fee = "tk_fee s"
  obtain p s1 where check: "icrc2_transfer_from_check sha self_id spender now args s = Inr p"
    and move: "(move_funds (fp_debit p) ?fee (spend_allowance (fp_allowance_key p) (fp_new_allow p)
        (fp_expires_at p) s) :: (transfer_from_error, token \<times> nat) res) = Inr (s1, b)"
    and s': "s' = record_dedup now (fp_dedup_key p) b
        (write_receipt (fp_receipt p) b (fp_amount p) ?fee now s1)"
    using assms(1) by (auto simp: icrc2_transfer_from_def result_simps)
  note c = icrc2_transfer_from_check_parts [OF check sha]
  note plan = icrc2_transfer_from_check_plan [OF check sha token_invD(4) [OF assms(2)], THEN conjunct1]
  note gate = pool_receipt_gate_Inr [OF c(9) sha, THEN conjunct1]
  let ?s0 = "spend_allowance (fp_allowance_key p) (fp_new_allow p) (fp_expires_at p) s"
  have inv0: "token_inv ?s0"
    by (rule spend_allowance_inv(1) [OF assms(2) _ _ c(7), where a = "tf_amount args + ?fee" and now = now])
      (use c(1,8) in simp_all)
  have "plan_ok ?s0 (fp_debit p) (tf_amount args) ?fee"
    using plan plan_ok_cong [of ?s0 s] by (simp add: store_frames)
  note m = token_inv_move [OF move inv0 this]
  have receipts: "tk_receipts s1 = tk_receipts s" and dedup: "tk_dedup s1 = tk_dedup s"
    using m by (simp_all add: store_frames)
  have h: "history_ok (write_receipt (fp_receipt p) b (fp_amount p) ?fee now s1)"
    by (rule history_write_receipt)
      (use m gate receipts now c(2,3) history_okD(2) [OF token_invD(3) [OF assms(2)]] in
        \<open>simp_all add: fresh_receipt_def token_inv_def cong: option.case_cong\<close>)
  have "stores_ok (write_receipt (fp_receipt p) b (fp_amount p) ?fee now s1)"
    using m stores_ok_cong [of "write_receipt (fp_receipt p) b (fp_amount p) ?fee now s1" s1]
    by (simp add: store_frames token_inv_def)
  then have "token_inv (write_receipt (fp_receipt p) b (fp_amount p) ?fee now s1)"
    using h m by (simp add: token_inv_def)
  then show ?thesis
    unfolding s'
    by (rule token_inv_record [where now = now])
      (use m c(4) dedup fresh_dedup_frame [of "write_receipt (fp_receipt p) b (fp_amount p) ?fee now s1" s]
        in \<open>simp_all add: store_frames\<close>)
qed

text \<open>The approval fee: the debit and the fee route together conserve the supply and cannot fail.\<close>

lemma charge_fee_ok:
  assumes inv: "supply_ok s" and bal: "bal = get_balance s k" and new: "new + fee = bal"
    and liquid: "fee \<le> bal - get_lock s k"
  shows "\<exists>s1 s2. write_balance k bal new s = (Inr s1 :: ('e, token) res)
     \<and> route_fee_to_treasury fee s1 = (Inr s2 :: ('e, token) res)
     \<and> supply_ok s2 \<and> funds_frame s s2 \<and> tk_block_height s2 = tk_block_height s
     \<and> (\<forall>x. get_balance s2 x + (if x = k then fee else 0)
            = get_balance s x + (if fee_key s = Some x then fee else 0))"
proof -
  have tot: "totals_ok s" and sum: "tk_sum_balances s + tk_fee_reserve s = TOTAL_SUPPLY"
    and locks: "\<And>k. get_lock s k \<le> get_balance s k"
    using inv by (simp_all add: supply_ok_def)
  have "tk_sum_balances s + new - bal < 2 ^ 128" using new sum TOTAL_SUPPLY_small by linarith
  from write_balance_total [OF tot bal this]
  obtain s1 where s1: "(write_balance k bal new s :: ('e, token) res) = Inr s1" by blast
  note w = write_balance_frame [OF s1 bal tot]
  have "tk_sum_balances s1 + tk_fee_reserve s1 + fee = TOTAL_SUPPLY"
    using w(3,4) new sum by simp
  from route_fee_ok [OF w(2) this, where ?'a = 'e]
  obtain s2 where s2: "(route_fee_to_treasury fee s1 :: ('e, token) res) = Inr s2" "funds_frame s1 s2"
    "totals_ok s2" "tk_sum_balances s2 + tk_fee_reserve s2 = TOTAL_SUPPLY"
    "tk_block_height s2 = tk_block_height s1"
    "\<And>x. get_balance s2 x = get_balance s1 x + (if fee_key s1 = Some x then fee else 0)" by blast
  have fr: "funds_frame s s2" using w(1) s2(2) by (rule funds_frame_trans)
  have eff: "get_balance s2 x + (if x = k then fee else 0)
      = get_balance s x + (if fee_key s = Some x then fee else 0)" for x
    using s2(6) [of x] w(6) [of x] bal new fee_key_frame [OF w(1)] by auto
  have "get_lock s x \<le> get_balance s2 x" for x
    using eff [of x] locks [of x] liquid bal new by (cases "x = k") (auto split: if_splits)
  then have "supply_ok s2"
    using s2(3,4) funds_frame_fields(16) [OF fr] by (simp add: supply_ok_def)
  then show ?thesis using s1 s2 fr eff w(5) by auto
qed

lemma effective_lifetime_bounds:
  assumes "effective_approval_lifetime x now = Effective e" "now < u64_limit"
  shows "e < u64_limit \<and> e \<le> now + MAX_APPROVAL_TTL_NS \<and> now \<le> e \<and> (now + 1 < u64_limit \<longrightarrow> now < e)"
  using assms
  by (auto simp: effective_approval_lifetime_def sat_add_def Let_def MAX_APPROVAL_TTL_NS_def
      split: option.splits if_splits)

text \<open>The state after the store writes of an approval, before its block number is issued.\<close>

definition approve_stores :: "approve_plan \<Rightarrow> nat \<Rightarrow> token \<Rightarrow> token" where
  "approve_stores p now s =
     run_allowance_maintenance now
       (if ap_amount p = 0
        then remove_allowance (ap_allowance_key p) (ap_previous_expires_at p) s
        else put_allowance (ap_allowance_key p) (ap_previous_expires_at p)
               \<lparr> al_amount = ap_amount p, al_expires_at = Some (ap_effective_expires_at p) \<rparr> s)"

lemma approve_stores_fields [store_frames]:
  "tk_balances (approve_stores p now s) = tk_balances s" "tk_locks (approve_stores p now s) = tk_locks s"
  "tk_sum_balances (approve_stores p now s) = tk_sum_balances s"
  "tk_sum_locks (approve_stores p now s) = tk_sum_locks s"
  "tk_dedup (approve_stores p now s) = tk_dedup s"
  "tk_dedup_by_time (approve_stores p now s) = tk_dedup_by_time s"
  "tk_receipts (approve_stores p now s) = tk_receipts s"
  "tk_block_height (approve_stores p now s) = tk_block_height s"
  "tk_fee (approve_stores p now s) = tk_fee s" "tk_fee_reserve (approve_stores p now s) = tk_fee_reserve s"
  "tk_pool (approve_stores p now s) = tk_pool s" "tk_staking (approve_stores p now s) = tk_staking s"
  by (simp_all add: approve_stores_def run_allowance_maintenance_def store_frames)

lemma approve_stores_ok:
  assumes "stores_ok s" "ap_previous_expires_at p = stamp_at al_expires_at (tk_allowances s) (ap_allowance_key p)"
    and "ap_effective_expires_at p < u64_limit"
  shows "stores_ok (approve_stores p now s)"
  unfolding approve_stores_def run_allowance_maintenance_def
  using stores_put_allowance [OF assms(1,2), of
      "\<lparr> al_amount = ap_amount p, al_expires_at = Some (ap_effective_expires_at p) \<rparr>", OF _ assms(3)]
    stores_remove_allowance [OF assms(1,2)] stores_prune_allowances
  by simp

lemma icrc2_approve_steps:
  assumes "icrc2_approve sha caller now args s = Inr (s', b)" "token_inv s"
    and sha: "\<And>x. length (sha x) = 32"
  obtains p s2 where "icrc2_approve_check sha caller now args s = Inr p"
    "supply_ok s2" "funds_frame s s2" "tk_block_height s2 = tk_block_height s"
    "\<And>x. get_balance s2 x + (if x = approver_key caller args then tk_fee s else 0)
        = get_balance s x + (if fee_key s = Some x then tk_fee s else 0)"
    "b = tk_block_height s + 1" "b < u64_limit"
    "s' = record_dedup now (ap_dedup_key p) b ((approve_stores p now s2)\<lparr> tk_block_height := b \<rparr>)"
proof -
  obtain p where check: "icrc2_approve_check sha caller now args s = Inr p"
    using assms(1) by (auto simp: icrc2_approve_def result_simps)
  note c = icrc2_approve_check_parts [OF check sha]
  from charge_fee_ok [OF token_invD(1) [OF assms(2)] c(9) c(10) c(11), where ?'e = approve_error]
  obtain s1 s2 where s12:
    "write_balance (ap_account_key p) (ap_bal p) (ap_new_bal p) s = (Inr s1 :: (approve_error, token) res)"
    "route_fee_to_treasury (tk_fee s) s1 = (Inr s2 :: (approve_error, token) res)"
    "supply_ok s2" "funds_frame s s2" "tk_block_height s2 = tk_block_height s"
    "\<And>x. get_balance s2 x + (if x = ap_account_key p then tk_fee s else 0)
        = get_balance s x + (if fee_key s = Some x then tk_fee s else 0)" by blast
  obtain s5 where n: "(next_block (approve_stores p now s2) :: (approve_error, token \<times> nat) res) = Inr (s5, b)"
    and s': "s' = record_dedup now (ap_dedup_key p) b s5"
    using assms(1) check s12(1,2)
    by (auto simp: icrc2_approve_def result_simps Let_def approve_stores_def)
  show thesis
    by (rule that [OF check s12(3,4,5)]) (use n s' s12(5,6) c(3) in \<open>simp_all add: next_block_Inr store_frames\<close>)
qed

lemma icrc2_approve_inv:
  assumes "icrc2_approve sha caller now args s = Inr (s', b)" "token_inv s"
    and sha: "\<And>x. length (sha x) = 32" and now: "now < u64_limit"
  shows "token_inv s'"
proof -
  from icrc2_approve_steps [OF assms(1,2) sha] obtain p s2 where
    check: "icrc2_approve_check sha caller now args s = Inr p"
    and s2: "supply_ok s2" "funds_frame s s2" "tk_block_height s2 = tk_block_height s"
    and b: "b = tk_block_height s + 1" "b < u64_limit"
    and s': "s' = record_dedup now (ap_dedup_key p) b ((approve_stores p now s2)\<lparr> tk_block_height := b \<rparr>)"
    by metis
  note c = icrc2_approve_check_parts [OF check sha]
  note fr = funds_frame_fields [OF s2(2)]
  let ?s4 = "(approve_stores p now s2)\<lparr> tk_block_height := b \<rparr>"
  have "supply_ok ?s4" using s2(1) supply_ok_cong [of ?s4 s2] by (simp add: store_frames)
  moreover have "stores_ok (approve_stores p now s2)"
  proof (rule approve_stores_ok)
    show "stores_ok s2" using token_invD(2) [OF assms(2)] stores_frame [OF s2(2)] by simp
    show "ap_previous_expires_at p = stamp_at al_expires_at (tk_allowances s2) (ap_allowance_key p)"
      using c(8) fr by simp
    show "ap_effective_expires_at p < u64_limit"
      using effective_lifetime_bounds [OF c(7) now] by simp
  qed
  then have "stores_ok ?s4" using stores_ok_cong [of ?s4 "approve_stores p now s2"] by simp
  moreover have "history_ok ?s4"
    by (rule history_mono [OF token_invD(3) [OF assms(2)]]) (use b fr in \<open>simp_all add: store_frames\<close>)
  ultimately have "token_inv ?s4" by (simp add: token_inv_def)
  then show ?thesis
    unfolding s'
    by (rule token_inv_record [where now = now])
      (use c(1) fresh_dedup_frame [of ?s4 s] fr in \<open>simp_all add: store_frames\<close>)
qed

lemma write_lock_inv:
  assumes "write_lock k (get_lock s k) new s = Inr s'" "token_inv s" "new \<le> get_balance s k"
  shows "token_inv s' \<and> (\<forall>x. get_lock s' x = (if x = k then new else get_lock s x))
    \<and> s' = s\<lparr> tk_locks := tk_locks s', tk_sum_locks := tk_sum_locks s' \<rparr>"
proof -
  note w = write_lock_Inr [OF assms(1) refl token_invD(5) [OF assms(2)]]
  have eq: "s' = s\<lparr> tk_locks := tk_locks s', tk_sum_locks := tk_sum_locks s' \<rparr>" using w by blast
  have same: "tk_balances s' = tk_balances s" "tk_sum_balances s' = tk_sum_balances s"
    "tk_fee_reserve s' = tk_fee_reserve s" "tk_allowances s' = tk_allowances s"
    "tk_by_expiry s' = tk_by_expiry s" "tk_dedup s' = tk_dedup s"
    "tk_dedup_by_time s' = tk_dedup_by_time s" "tk_receipts s' = tk_receipts s"
    "tk_block_height s' = tk_block_height s" "tk_fee s' = tk_fee s"
    by (subst eq, simp)+
  have "supply_ok s'"
    using w same token_invD(1) [OF assms(2)] assms(3) by (simp add: supply_ok_def get_balance_def)
  moreover have "stores_ok s'" using token_invD(2) [OF assms(2)] stores_ok_cong [of s' s] same by simp
  moreover have "history_ok s'"
    using history_mono [OF token_invD(3) [OF assms(2)], of s'] history_okD(1) [OF token_invD(3) [OF assms(2)]]
      same by simp
  ultimately show ?thesis using w eq by (simp add: token_inv_def)
qed

lemma lock_for_staking_Inr:
  assumes "lock_for_staking caller holder amount s = Inr s'" "token_inv s"
  shows "token_inv s' \<and> tk_staking s = Some caller
    \<and> (\<forall>x. get_lock s' x = get_lock s x + (if x = main_key holder then amount else 0))
    \<and> s' = s\<lparr> tk_locks := tk_locks s', tk_sum_locks := tk_sum_locks s' \<rparr>"
proof -
  let ?k = "main_key holder"
  have w: "write_lock ?k (get_lock s ?k) (get_lock s ?k + amount) s = (Inr s' :: (lock_error, token) res)"
    and le: "amount \<le> get_balance s ?k - get_lock s ?k" and auth: "tk_staking s = Some caller"
    using assms(1)
    by (auto simp: lock_for_staking_def Let_def result_simps assert_staking_canister_def
        split: if_splits option.splits)
  have "get_lock s ?k + amount \<le> get_balance s ?k"
    using le token_invD(4) [OF assms(2), of ?k] by linarith
  from write_lock_inv [OF w assms(2) this] auth show ?thesis by auto
qed

lemma unlock_from_staking_Inr:
  assumes "unlock_from_staking caller holder amount s = Inr s'" "token_inv s"
  shows "token_inv s' \<and> tk_staking s = Some caller
    \<and> (\<forall>x. get_lock s' x + (if x = main_key holder then amount else 0) = get_lock s x)
    \<and> s' = s\<lparr> tk_locks := tk_locks s', tk_sum_locks := tk_sum_locks s' \<rparr>"
proof -
  let ?k = "main_key holder"
  have w: "write_lock ?k (get_lock s ?k) (get_lock s ?k - amount) s = (Inr s' :: (lock_error, token) res)"
    and le: "amount \<le> get_lock s ?k" and auth: "tk_staking s = Some caller"
    using assms(1)
    by (auto simp: unlock_from_staking_def Let_def result_simps assert_staking_canister_def
        split: if_splits option.splits)
  have "get_lock s ?k - amount \<le> get_balance s ?k"
    using token_invD(4) [OF assms(2), of ?k] by linarith
  from write_lock_inv [OF w assms(2) this] auth le show ?thesis by auto
qed

lemma prune_allowances_inv:
  assumes "token_inv s"
  shows "token_inv (prune_expired_allowances now cap s)"
proof -
  have "history_ok (prune_expired_allowances now cap s)"
    by (rule history_mono [OF token_invD(3) [OF assms]])
      (use history_okD(1) [OF token_invD(3) [OF assms]] in \<open>simp_all add: store_frames\<close>)
  then show ?thesis
    using assms stores_prune_allowances [OF token_invD(2) [OF assms]] by (simp add: token_inv_def)
qed

end
