(* ===== verification/Token_Receipts.thy ===== *)
theory Token_Receipts
  imports Token_Steps
begin

text \<open>
  The deposit settlement endpoints of the token ledger, which only the bound pool may call: the
  authoritative receipt read and the request of the cancellation fence. Receipts are written here and
  by \<^verbatim>\<open>icrc2_transfer_from\<close>, and nothing removes or replaces one.
\<close>

datatype receipt_error = Unauthorized | RequestMismatch | UnsupportedProtocol

datatype receipt_lookup = Found deposit_receipt | Unrecorded | LookupRetiredOrUnavailable

datatype close_outcome = CloseApplied deposit_receipt | CloseCancelled deposit_receipt
  | CloseRetiredOrUnavailable

definition receipt_lookup_preamble ::
  "(bytes \<Rightarrow> bytes) \<Rightarrow> principal \<Rightarrow> principal \<Rightarrow> deposit_attempt_args \<Rightarrow> token
     \<Rightarrow> (receipt_error, bytes \<times> bytes \<times> bytes) res" where
  "receipt_lookup_preamble sha self_id caller args s =
    (if tk_pool s \<noteq> Some caller then fail Unauthorized
     else
       case (da_memo args, da_created_at_time args) of
         (Some memo, Some created_at_time) \<Rightarrow>
           if length memo > MAX_DEPOSIT_MEMO_LEN then fail UnsupportedProtocol
           else
             bind_res (ok_or UnsupportedProtocol (to_width 128 (da_amount args))) (\<lambda>amount.
               let spender_acc = \<lparr> acc_owner = caller, acc_sub = da_spender_subaccount args \<rparr> in
               Inr (deposit_operation_id sha memo,
                    deposit_request_hash sha self_id (da_from args) spender_acc (da_to args) amount
                      (da_fee args) (da_memo args) created_at_time,
                    transfer_from_dedup_key sha (da_from args) spender_acc (da_to args) amount
                      (da_fee args) (da_memo args) created_at_time))
       | _ \<Rightarrow> fail UnsupportedProtocol)"

definition get_deposit_receipt ::
  "(bytes \<Rightarrow> bytes) \<Rightarrow> principal \<Rightarrow> principal \<Rightarrow> deposit_attempt_args \<Rightarrow> token
     \<Rightarrow> (receipt_error, receipt_lookup) res" where
  "get_deposit_receipt sha self_id caller args s =
     bind_res (receipt_lookup_preamble sha self_id caller args s) (\<lambda>(key, request_hash, dedup).
       case fmlookup (tk_receipts s) key of
         Some existing \<Rightarrow>
           if receipt_request_hash existing \<noteq> request_hash then fail RequestMismatch
           else Inr (Found existing)
       | None \<Rightarrow>
           if dedup |\<in>| fmdom (tk_dedup s) then Inr LookupRetiredOrUnavailable
           else Inr Unrecorded)"

definition close_deposit_attempt ::
  "(bytes \<Rightarrow> bytes) \<Rightarrow> principal \<Rightarrow> principal \<Rightarrow> nat \<Rightarrow> deposit_attempt_args \<Rightarrow> token
     \<Rightarrow> (receipt_error, token \<times> close_outcome) res" where
  "close_deposit_attempt sha self_id caller now args s =
     bind_res (receipt_lookup_preamble sha self_id caller args s) (\<lambda>(key, request_hash, dedup).
       case fmlookup (tk_receipts s) key of
         Some existing \<Rightarrow>
           if receipt_request_hash existing \<noteq> request_hash then fail RequestMismatch
           else
             (case existing of
                Applied _ _ _ _ _ \<Rightarrow> Inr (s, CloseApplied existing)
              | Cancelled _ _ \<Rightarrow> Inr (s, CloseCancelled existing))
       | None \<Rightarrow>
           if dedup |\<in>| fmdom (tk_dedup s) then Inr (s, CloseRetiredOrUnavailable)
           else if fmlen (tk_receipts s) \<ge> receipt_capacity then fail UnsupportedProtocol
           else
             let receipt = Cancelled request_hash now in
             Inr (s\<lparr> tk_receipts := fmupd key receipt (tk_receipts s) \<rparr>, CloseCancelled receipt))"

text \<open>A close either leaves the state alone or fences one fresh operation id.\<close>

lemma receipt_lookup_preamble_Inr:
  assumes "receipt_lookup_preamble sha self_id caller args s = Inr (key, h, d)"
    and "\<And>x. length (sha x) = 32"
  shows "is_pool s caller \<and> length h = 32 \<and> length key = 32
     \<and> (\<exists>memo. da_memo args = Some memo \<and> key = deposit_operation_id sha memo)"
  using assms
  by (auto simp: receipt_lookup_preamble_def is_pool_def result_simps Let_def deposit_request_hash_def
      deposit_operation_id_def split: if_splits option.splits)

lemma close_deposit_attempt_Inr:
  assumes "close_deposit_attempt sha self_id caller now args s = Inr (s', out)"
    and sha: "\<And>x. length (sha x) = 32"
  shows "s' = s \<or> (\<exists>key h. fmlookup (tk_receipts s) key = None \<and> length h = 32
      \<and> fmlen (tk_receipts s) < MAX_DEPOSIT_RECEIPTS
      \<and> s' = s\<lparr> tk_receipts := fmupd key (Cancelled h now) (tk_receipts s) \<rparr>)"
proof -
  obtain key h d where pre: "receipt_lookup_preamble sha self_id caller args s = Inr (key, h, d)"
    using assms(1) by (auto simp: close_deposit_attempt_def result_simps)
  have h: "length h = 32" using receipt_lookup_preamble_Inr [OF pre sha] by blast
  show ?thesis
  proof (cases "fmlookup (tk_receipts s) key")
    case None
    then show ?thesis
      using assms(1) pre h
      by (auto simp: close_deposit_attempt_def receipt_capacity_def Let_def split: if_splits)
  next
    case (Some r)
    then show ?thesis
      using assms(1) pre
      by (cases r) (auto simp: close_deposit_attempt_def split: if_splits)
  qed
qed

lemma close_deposit_attempt_inv:
  assumes "close_deposit_attempt sha self_id caller now args s = Inr (s', out)" "token_inv s"
    and sha: "\<And>x. length (sha x) = 32" and now: "now < u64_limit"
  shows "token_inv s'"
proof -
  from close_deposit_attempt_Inr [OF assms(1) sha] consider "s' = s"
    | key h where "fmlookup (tk_receipts s) key = None" "length h = 32"
      "fmlen (tk_receipts s) < MAX_DEPOSIT_RECEIPTS"
      "s' = s\<lparr> tk_receipts := fmupd key (Cancelled h now) (tk_receipts s) \<rparr>" by blast
  then show ?thesis
  proof cases
    case 1
    with assms(2) show ?thesis by simp
  next
    case 2
    have "supply_ok s'" "stores_ok s'"
      using 2(4) token_invD(1,2) [OF assms(2)] supply_ok_cong [of s' s] stores_ok_cong [of s' s]
      by simp_all
    moreover have "history_ok s'"
    proof (rule history_okI)
      note old = history_okD [OF token_invD(3) [OF assms(2)]]
      show "fmlen (tk_receipts s') \<le> MAX_DEPOSIT_RECEIPTS"
        using 2 old(6) by (simp add: fmlen_upd)
      show "receipt_wf r" if "fmlookup (tk_receipts s') k = Some r" for k r
        using that 2 old(5) now by (auto simp: receipt_wf_def split: if_splits)
      show "b \<le> tk_block_height s'" if "fmlookup (tk_receipts s') k = Some (Applied b am fe h t)"
        for k b am fe h t
        using that 2 old(4) by (auto split: if_splits)
    qed (use 2 history_okD [OF token_invD(3) [OF assms(2)]] in auto)
    ultimately show ?thesis by (simp add: token_inv_def)
  qed
qed

end
