(* ===== verification/Token_Lifecycle.thy ===== *)
theory Token_Lifecycle
  imports Token_Receipts
begin

text \<open>
  Genesis, the supply audits and the upgrade of the token ledger: the validation of the allocations
  and the mint, the O(1) supply check and the O(N) reconciliation, the checkpoint written by
  \<^verbatim>\<open>pre_upgrade\<close>, the two migrations and the stale-checkpoint refusal of \<^verbatim>\<open>post_upgrade\<close>.
  An upgrade keeps the stable maps and the checkpoint cell and resets the heap (\<open>heap_reset\<close>).
\<close>

section \<open>Checked folds\<close>

fun checked_fold :: "nat \<Rightarrow> nat list \<Rightarrow> nat option" where
  "checked_fold acc [] = Some acc"
| "checked_fold acc (x # xs) =
    (case checked_add 128 acc x of None \<Rightarrow> None | Some acc' \<Rightarrow> checked_fold acc' xs)"

definition checked_sum :: "nat list \<Rightarrow> nat option" where
  "checked_sum xs = checked_fold 0 xs"

definition row_values :: "(bytes, nat) fmap \<Rightarrow> nat list" where
  "row_values m = map (fmget 0 m) (fmkeys m)"

lemma checked_fold_Some:
  "acc < 2 ^ 128 \<Longrightarrow> checked_fold acc xs = Some t \<longleftrightarrow> t = acc + sum_list xs \<and> t < 2 ^ 128"
  by (induction xs arbitrary: acc) (auto simp: result_simps split: option.splits)

lemma checked_sum_Some: "checked_sum xs = Some t \<longleftrightarrow> t = sum_list xs \<and> t < 2 ^ 128"
  by (simp add: checked_sum_def checked_fold_Some)

lemma sum_row_values: "sum_list (row_values m) = fmtotal m"
  by (simp add: row_values_def fmtotal_def sum_list_distinct_conv_sum_set)

section \<open>Genesis\<close>

record init_args =
  ia_allocations :: "allocation_category list"
  ia_treasury :: principal
  ia_staking_canister :: principal
  ia_fee_collector :: "principal option"
  ia_pool_canister :: "principal option"

datatype allocation_error =
    SumOverflow
  | SumMismatch nat
  | EmptyCategoryId
  | EmptyCategoryName
  | ZeroAllocation string
  | DuplicateCategory string

definition check_allocation :: "allocation_category \<Rightarrow> (allocation_error, unit) res" where
  "check_allocation a =
    (if ac_category_id a = [] then fail EmptyCategoryId
     else if ac_category_name a = [] then fail EmptyCategoryName
     else if ac_amount a = 0 then fail (ZeroAllocation (ac_category_id a))
     else Inr ())"

fun check_unique_ids :: "string list \<Rightarrow> allocation_category list \<Rightarrow> (allocation_error, unit) res" where
  "check_unique_ids seen_ids [] = Inr ()"
| "check_unique_ids seen_ids (a # as) =
    (if ac_category_id a \<in> set seen_ids then fail (DuplicateCategory (ac_category_id a))
     else check_unique_ids (ac_category_id a # seen_ids) as)"

definition validate_init_allocations :: "allocation_category list \<Rightarrow> (allocation_error, unit) res" where
  "validate_init_allocations allocations =
     bind_res (ok_or SumOverflow (checked_fold 0 (map ac_amount allocations))) (\<lambda>tot.
     if tot \<noteq> TOTAL_SUPPLY then fail (SumMismatch tot)
     else
       bind_res (for_each check_allocation allocations) (\<lambda>_. check_unique_ids [] allocations))"

definition allocation_key :: "allocation_category \<Rightarrow> bytes" where
  "allocation_key a = encode_key \<lparr> acc_owner = ac_recipient a, acc_sub = ac_subaccount a \<rparr>"

fun mint_allocations :: "nat \<Rightarrow> nat \<Rightarrow> allocation_category list \<Rightarrow> token \<Rightarrow> ('e, token) res" where
  "mint_allocations idx genesis_ts [] s = Inr s"
| "mint_allocations idx genesis_ts (a # as) s =
    (let key = allocation_key a; existing = get_balance s key in
     case checked_add 128 existing (ac_amount a) of
       None \<Rightarrow> Inl Trap
     | Some credited \<Rightarrow>
         bind_res (write_balance key existing credited s) (\<lambda>s1.
           mint_allocations (idx + 1) genesis_ts as
             (s1\<lparr> tk_alloc_table := fmupd idx
                    (a\<lparr> ac_created_at_genesis := True, ac_genesis_timestamp_ns := genesis_ts \<rparr>)
                    (tk_alloc_table s1) \<rparr>)))"

text \<open>The state of a canister before \<^verbatim>\<open>init\<close>: empty stable maps and the heap defaults.\<close>

definition fresh_token :: token where
  "fresh_token = \<lparr> tk_balances = fmempty, tk_locks = fmempty, tk_sum_balances = 0, tk_sum_locks = 0,
     tk_allowances = fmempty, tk_by_expiry = {||}, tk_alloc_table = fmempty, tk_dedup = fmempty,
     tk_dedup_by_time = {||}, tk_receipts = fmempty, tk_block_height = 0, tk_fee = DEFAULT_FEE,
     tk_fee_reserve = 0, tk_mint_done = False, tk_treasury = None, tk_fee_collector = None,
     tk_staking = None, tk_pool = None, tk_checkpoint = None \<rparr>"

definition init_token :: "nat \<Rightarrow> init_args \<Rightarrow> token \<Rightarrow> (allocation_error, token) res" where
  "init_token now args s =
    (if tk_mint_done s then Inl Trap
     else
       case validate_init_allocations (ia_allocations args) of
         Inl _ \<Rightarrow> Inl Trap
       | Inr _ \<Rightarrow>
           bind_res (mint_allocations 0 now (ia_allocations args)
                       (s\<lparr> tk_sum_balances := 0, tk_sum_locks := 0 \<rparr>)) (\<lambda>s1.
             Inr (s1\<lparr> tk_treasury := Some (ia_treasury args),
                      tk_fee_collector := ia_fee_collector args,
                      tk_pool := ia_pool_canister args,
                      tk_staking := Some (ia_staking_canister args),
                      tk_mint_done := True \<rparr>)))"

section \<open>Supply audits\<close>

record invariant_evaluation =
  ie_sum_balances :: nat
  ie_fee_reserve :: nat
  ie_staking_locked :: nat
  ie_invariant_holds :: bool
  ie_balances_plus_fee_overflow :: bool

definition evaluate_supply_invariant :: "token \<Rightarrow> invariant_evaluation" where
  "evaluate_supply_invariant s =
    (let balances_plus_fee = checked_add 128 (tk_sum_balances s) (tk_fee_reserve s);
         balances_plus_fee_overflow = (balances_plus_fee = None) in
     \<lparr> ie_sum_balances = tk_sum_balances s, ie_fee_reserve = tk_fee_reserve s,
       ie_staking_locked = tk_sum_locks s,
       ie_invariant_holds = (\<not> balances_plus_fee_overflow \<and> balances_plus_fee = Some TOTAL_SUPPLY),
       ie_balances_plus_fee_overflow = balances_plus_fee_overflow \<rparr>)"

record supply_reconciliation =
  sr_maintained_sum_balances :: nat
  sr_folded_sum_balances :: nat
  sr_maintained_sum_staking_locks :: nat
  sr_folded_sum_staking_locks :: nat
  sr_fee_reserve :: nat
  sr_rows_examined :: nat
  sr_totals_consistent :: bool
  sr_folded_first_law_holds :: bool

definition reconcile_supply_invariant :: "bool \<Rightarrow> token \<Rightarrow> (unit, supply_reconciliation) res" where
  "reconcile_supply_invariant is_controller s =
    (if \<not> is_controller then Inl Trap
     else
       let rows = sat_add 64 (fmlen (tk_balances s)) (fmlen (tk_locks s)) in
       if rows > RECONCILE_ROW_BUDGET then
         Inr \<lparr> sr_maintained_sum_balances = tk_sum_balances s, sr_folded_sum_balances = 0,
               sr_maintained_sum_staking_locks = tk_sum_locks s, sr_folded_sum_staking_locks = 0,
               sr_fee_reserve = tk_fee_reserve s, sr_rows_examined = 0,
               sr_totals_consistent = False, sr_folded_first_law_holds = False \<rparr>
       else
         let folded_balances = checked_sum (row_values (tk_balances s));
             folded_locks = checked_sum (row_values (tk_locks s)) in
         Inr \<lparr> sr_maintained_sum_balances = tk_sum_balances s,
               sr_folded_sum_balances = (case folded_balances of Some f \<Rightarrow> f | None \<Rightarrow> 0),
               sr_maintained_sum_staking_locks = tk_sum_locks s,
               sr_folded_sum_staking_locks = (case folded_locks of Some f \<Rightarrow> f | None \<Rightarrow> 0),
               sr_fee_reserve = tk_fee_reserve s, sr_rows_examined = rows,
               sr_totals_consistent = (folded_balances = Some (tk_sum_balances s)
                 \<and> folded_locks = Some (tk_sum_locks s)),
               sr_folded_first_law_holds =
                 ((case folded_balances of Some f \<Rightarrow> checked_add 128 f (tk_fee_reserve s) | None \<Rightarrow> None)
                   = Some TOTAL_SUPPLY) \<rparr>)"

section \<open>Upgrade\<close>

definition pre_upgrade :: "token \<Rightarrow> (unit, token) res" where
  "pre_upgrade s =
    (case (tk_treasury s, tk_staking s) of
       (Some treasury, Some staking) \<Rightarrow>
         Inr (s\<lparr> tk_checkpoint := Some \<lparr> ts_state_version = STATE_VERSION,
                   ts_block_height = tk_block_height s, ts_transfer_fee = tk_fee s,
                   ts_fee_reserve = tk_fee_reserve s, ts_mint_done = tk_mint_done s,
                   ts_treasury = treasury, ts_staking_canister = staking,
                   ts_fee_collector = tk_fee_collector s, ts_sum_balances = Some (tk_sum_balances s),
                   ts_sum_staking_locks = Some (tk_sum_locks s), ts_pool_canister = tk_pool s \<rparr> \<rparr>)
     | _ \<Rightarrow> Inl Trap)"

definition heap_reset :: "token \<Rightarrow> token" where
  "heap_reset s = s\<lparr> tk_sum_balances := 0, tk_sum_locks := 0, tk_block_height := 0,
     tk_fee := DEFAULT_FEE, tk_fee_reserve := 0, tk_mint_done := False, tk_treasury := None,
     tk_fee_collector := None, tk_staking := None, tk_pool := None \<rparr>"

definition observed_durable_block_index :: "token \<Rightarrow> nat option" where
  "observed_durable_block_index s =
    (let keys = map snd (take ROLLBACK_PROBE_ENTRIES (rev (sorted_list_of_fset (tk_dedup_by_time s))));
         blocks = map decode_dedup_block_index (List.map_filter (fmlookup (tk_dedup s)) keys) in
     if blocks = [] then None else Some (Max (set blocks)))"

definition checkpoint_rollback_detected :: "nat option \<Rightarrow> nat \<Rightarrow> bool" where
  "checkpoint_rollback_detected observed checkpoint_height =
    (case observed of Some b \<Rightarrow> b > checkpoint_height | None \<Rightarrow> False)"

definition backfill_dedup_index :: "nat \<Rightarrow> token \<Rightarrow> token" where
  "backfill_dedup_index now s =
    (let cutoff = now - TX_DEDUP_WINDOW_NS;
         created = (\<lambda>k. case fmlookup (tk_dedup s) k of Some v \<Rightarrow> dedup_created_at v | None \<Rightarrow> 0);
         live = filter (\<lambda>k. \<not> created k < cutoff) (fmkeys (tk_dedup s));
         to_drop = filter (\<lambda>k. created k < cutoff) (fmkeys (tk_dedup s)) in
     s\<lparr> tk_dedup_by_time := fold (\<lambda>k idx. finsert (created k, k) idx) live (tk_dedup_by_time s),
        tk_dedup := fold fmdrop to_drop (tk_dedup s) \<rparr>)"

definition migrate_dedup_index_v1_to_v2 :: "nat \<Rightarrow> token \<Rightarrow> (unit, token) res" where
  "migrate_dedup_index_v1_to_v2 now s =
    (if fmlen (tk_dedup s) > MAX_MIGRATION_ENTRIES then Inl Trap
     else Inr (backfill_dedup_index now s))"

definition seed_totals_state :: "token_stable_state \<Rightarrow> token \<Rightarrow> (unit, token_stable_state) res" where
  "seed_totals_state state s =
    (let rows = sat_add 64 (fmlen (tk_balances s)) (fmlen (tk_locks s)) in
     if rows > MAX_MIGRATION_ENTRIES then Inl Trap
     else
       case (checked_sum (row_values (tk_balances s)), checked_sum (row_values (tk_locks s))) of
         (Some sum_balances, Some sum_locks) \<Rightarrow>
           Inr (state\<lparr> ts_sum_balances := Some sum_balances, ts_sum_staking_locks := Some sum_locks \<rparr>)
       | _ \<Rightarrow> Inl Trap)"

definition restore_from_checkpoint :: "token_stable_state \<Rightarrow> token \<Rightarrow> (unit, token) res" where
  "restore_from_checkpoint state s =
    (case (ts_sum_balances state, ts_sum_staking_locks state) of
       (Some sb, Some sl) \<Rightarrow> Inr (s\<lparr> tk_sum_balances := sb, tk_sum_locks := sl \<rparr>)
     | _ \<Rightarrow> Inl Trap)"

definition post_upgrade :: "nat \<Rightarrow> token \<Rightarrow> (unit, token) res" where
  "post_upgrade now s =
    (case tk_checkpoint s of
       None \<Rightarrow> Inl Trap
     | Some state \<Rightarrow>
         bind_res (if ts_state_version state = STATE_VERSION then Inr s
                   else if ts_state_version state = 2 then Inr s
                   else if ts_state_version state = 1 then migrate_dedup_index_v1_to_v2 now s
                   else Inl Trap) (\<lambda>s1.
         bind_res (if ts_state_version state = STATE_VERSION then Inr state
                   else seed_totals_state state s1) (\<lambda>restore_state.
         bind_res (restore_from_checkpoint restore_state s1) (\<lambda>s2.
         if checkpoint_rollback_detected (observed_durable_block_index s2) (ts_block_height state)
         then Inl Trap
         else
           Inr (s2\<lparr> tk_block_height := ts_block_height state, tk_fee := ts_transfer_fee state,
                    tk_fee_reserve := ts_fee_reserve state, tk_mint_done := ts_mint_done state,
                    tk_treasury := Some (ts_treasury state),
                    tk_fee_collector := ts_fee_collector state, tk_pool := ts_pool_canister state,
                    tk_staking := Some (ts_staking_canister state) \<rparr>)))))"

definition upgrade_token :: "nat \<Rightarrow> token \<Rightarrow> (unit, token) res" where
  "upgrade_token now s = bind_res (pre_upgrade s) (\<lambda>s1. post_upgrade now (heap_reset s1))"

section \<open>Lemmas\<close>

lemma mint_allocations_Inr:
  assumes "mint_allocations idx ts as s = Inr s'" "totals_ok s"
  shows "totals_ok s' \<and> tk_sum_balances s' = tk_sum_balances s + sum_list (map ac_amount as)
     \<and> s' = s\<lparr> tk_balances := tk_balances s', tk_sum_balances := tk_sum_balances s',
              tk_alloc_table := tk_alloc_table s' \<rparr>
     \<and> (\<forall>k. get_balance s' k = get_balance s k
            + sum_list (map ac_amount (filter (\<lambda>a. allocation_key a = k) as)))"
  using assms
proof (induction as arbitrary: idx s)
  case (Cons a as)
  let ?k = "allocation_key a"
  let ?upd = "\<lambda>s1 :: token. s1\<lparr> tk_alloc_table := fmupd idx
      (a\<lparr> ac_created_at_genesis := True, ac_genesis_timestamp_ns := ts \<rparr>) (tk_alloc_table s1) \<rparr>"
  obtain s1 where w: "(write_balance ?k (get_balance s ?k) (get_balance s ?k + ac_amount a) s
      :: ('a, token) res) = Inr s1"
    and rec: "(mint_allocations (idx + 1) ts as (?upd s1) :: ('a, token) res) = Inr s'"
    using Cons.prems(1) by (auto simp: Let_def result_simps split: option.splits)
  note wf = write_balance_frame [OF w refl Cons.prems(2)]
  have "totals_ok (?upd s1)" using wf(2) by (simp add: totals_ok_def)
  note ih = Cons.IH [OF rec this]
  have eq1: "s1 = s\<lparr> tk_balances := tk_balances s1, tk_sum_balances := tk_sum_balances s1 \<rparr>"
    using write_balance_Inr [OF w refl Cons.prems(2)] by blast
  have eq2: "s' = (?upd s1)\<lparr> tk_balances := tk_balances s', tk_sum_balances := tk_sum_balances s',
      tk_alloc_table := tk_alloc_table s' \<rparr>" using ih by blast
  have eq: "s' = s\<lparr> tk_balances := tk_balances s', tk_sum_balances := tk_sum_balances s',
      tk_alloc_table := tk_alloc_table s' \<rparr>"
    by (subst eq2, subst (2) eq1) simp
  have bal: "get_balance s' k = get_balance s k
      + sum_list (map ac_amount (filter (\<lambda>a. allocation_key a = k) (a # as)))" for k
    using ih wf(6) [of k] by (simp add: get_balance_def)
  have "tk_sum_balances s' = tk_sum_balances s + sum_list (map ac_amount (a # as))"
    using ih wf(3) by simp
  then show ?case using ih eq bal by blast
qed simp

lemma fresh_token_ok: "totals_ok fresh_token"
  by (simp add: totals_ok_def fresh_token_def)

lemma validate_init_allocations_Inr:
  "validate_init_allocations as = Inr u \<Longrightarrow> sum_list (map ac_amount as) = TOTAL_SUPPLY"
  by (auto simp: validate_init_allocations_def result_simps checked_fold_Some split: if_splits)

lemma init_token_Inr:
  assumes "init_token now args fresh_token = Inr s"
  shows "token_inv s \<and> tk_fee_reserve s = 0 \<and> tk_fee s = DEFAULT_FEE \<and> tk_mint_done s
     \<and> tk_treasury s = Some (ia_treasury args) \<and> tk_staking s = Some (ia_staking_canister args)
     \<and> tk_pool s = ia_pool_canister args \<and> tk_fee_collector s = ia_fee_collector args
     \<and> tk_allowances s = fmempty \<and> tk_dedup s = fmempty \<and> tk_receipts s = fmempty
     \<and> (\<forall>k. get_balance s k =
          sum_list (map ac_amount (filter (\<lambda>a. allocation_key a = k) (ia_allocations args))))"
proof -
  obtain s1 where valid: "validate_init_allocations (ia_allocations args) = Inr ()"
    and mint: "(mint_allocations 0 now (ia_allocations args) fresh_token :: (allocation_error, token) res) = Inr s1"
    and s: "s = s1\<lparr> tk_treasury := Some (ia_treasury args), tk_fee_collector := ia_fee_collector args,
          tk_pool := ia_pool_canister args, tk_staking := Some (ia_staking_canister args),
          tk_mint_done := True \<rparr>"
    using assms
    by (auto simp: init_token_def result_simps fresh_token_def split: sum.splits if_splits)
  note m = mint_allocations_Inr [OF mint fresh_token_ok]
  note eq = m [THEN conjunct2, THEN conjunct2, THEN conjunct1]
  have same: "tk_locks s1 = fmempty" "tk_sum_locks s1 = 0" "tk_allowances s1 = fmempty"
    "tk_by_expiry s1 = {||}" "tk_dedup s1 = fmempty" "tk_dedup_by_time s1 = {||}"
    "tk_receipts s1 = fmempty" "tk_block_height s1 = 0" "tk_fee s1 = DEFAULT_FEE" "tk_fee_reserve s1 = 0"
    by (subst eq, simp add: fresh_token_def)+
  have "tk_sum_balances s1 = TOTAL_SUPPLY"
    using m validate_init_allocations_Inr [OF valid] by (simp add: fresh_token_def)
  then have "supply_ok s" "stores_ok s" "history_ok s"
    using m same unfolding s
    by (auto simp: supply_ok_def totals_ok_def get_lock_def get_balance_def stores_ok_def history_ok_def
        DEFAULT_FEE_def)
  moreover have "get_balance s k =
      sum_list (map ac_amount (filter (\<lambda>a. allocation_key a = k) (ia_allocations args)))" for k
    using m unfolding s by (simp add: get_balance_def fresh_token_def)
  ultimately show ?thesis
    using same unfolding s by (simp add: token_inv_def)
qed

text \<open>Minting succeeds whenever the manifest is valid.\<close>

lemma mint_allocations_total:
  assumes "totals_ok s" "tk_sum_balances s + sum_list (map ac_amount as) < 2 ^ 128"
  shows "\<exists>s'. (mint_allocations idx ts as s :: ('e, token) res) = Inr s'"
  using assms
proof (induction as arbitrary: idx s)
  case (Cons a as)
  let ?k = "allocation_key a"
  have small: "get_balance s ?k + ac_amount a < 2 ^ 128"
    using get_balance_le_sum [OF Cons.prems(1), of ?k] Cons.prems(2) by simp
  have "tk_sum_balances s + (get_balance s ?k + ac_amount a) - get_balance s ?k < 2 ^ 128"
    using Cons.prems(2) by simp
  from write_balance_total [OF Cons.prems(1) refl this] obtain s1 where
    w: "(write_balance ?k (get_balance s ?k) (get_balance s ?k + ac_amount a) s :: ('e, token) res) = Inr s1"
    by blast
  note wf = write_balance_frame [OF w refl Cons.prems(1)]
  let ?s = "s1\<lparr> tk_alloc_table := fmupd idx
      (a\<lparr> ac_created_at_genesis := True, ac_genesis_timestamp_ns := ts \<rparr>) (tk_alloc_table s1) \<rparr>"
  have "totals_ok ?s" "tk_sum_balances ?s + sum_list (map ac_amount as) < 2 ^ 128"
    using wf(2,3) Cons.prems(2) by (simp_all add: totals_ok_def)
  from Cons.IH [OF this] show ?case
    using w small by (auto simp: checked_add_def Let_def)
qed simp

lemma init_token_total:
  assumes "validate_init_allocations (ia_allocations args) = Inr ()"
  shows "\<exists>s. init_token now args fresh_token = Inr s"
proof -
  have "tk_sum_balances fresh_token + sum_list (map ac_amount (ia_allocations args)) < 2 ^ 128"
    using validate_init_allocations_Inr [OF assms] TOTAL_SUPPLY_small by (simp add: fresh_token_def)
  from mint_allocations_total [where ?'e = allocation_error, OF fresh_token_ok this, of 0 now] show ?thesis
    using assms by (auto simp: init_token_def fresh_token_def)
qed

text \<open>The rollback probe only ever sees issued blocks.\<close>

lemma observed_durable_block_index_le:
  assumes "\<And>k v. fmlookup (tk_dedup s) k = Some v \<Longrightarrow> decode_dedup_block_index v \<le> n"
    and "observed_durable_block_index s = Some b"
  shows "b \<le> n"
proof -
  let ?ks = "map snd (take ROLLBACK_PROBE_ENTRIES (rev (sorted_list_of_fset (tk_dedup_by_time s))))"
  let ?bs = "map decode_dedup_block_index (List.map_filter (fmlookup (tk_dedup s)) ?ks)"
  have "?bs \<noteq> []" "b = Max (set ?bs)"
    using assms(2) by (auto simp: observed_durable_block_index_def Let_def split: if_splits)
  moreover have "x \<le> n" if "x \<in> set ?bs" for x
    using that assms(1) by (auto simp: List.map_filter_def)
  ultimately show ?thesis by (metis List.finite_set Max_in set_empty)
qed

lemma observed_cong:
  "tk_dedup s' = tk_dedup s \<Longrightarrow> tk_dedup_by_time s' = tk_dedup_by_time s
     \<Longrightarrow> observed_durable_block_index s' = observed_durable_block_index s"
  by (simp add: observed_durable_block_index_def)

lemma upgrade_token_eq:
  assumes "history_ok s" "tk_treasury s = Some tr" "tk_staking s = Some st"
  shows "\<exists>cp. upgrade_token now s = Inr (s\<lparr> tk_checkpoint := Some cp \<rparr>)"
proof -
  let ?cp = "\<lparr> ts_state_version = STATE_VERSION, ts_block_height = tk_block_height s,
      ts_transfer_fee = tk_fee s, ts_fee_reserve = tk_fee_reserve s, ts_mint_done = tk_mint_done s,
      ts_treasury = tr, ts_staking_canister = st, ts_fee_collector = tk_fee_collector s,
      ts_sum_balances = Some (tk_sum_balances s), ts_sum_staking_locks = Some (tk_sum_locks s),
      ts_pool_canister = tk_pool s \<rparr>"
  let ?s2 = "(heap_reset (s\<lparr> tk_checkpoint := Some ?cp \<rparr>))\<lparr> tk_sum_balances := tk_sum_balances s,
      tk_sum_locks := tk_sum_locks s \<rparr>"
  have obs: "observed_durable_block_index ?s2 = observed_durable_block_index s"
    by (rule observed_cong) (simp_all add: heap_reset_def)
  have quiet: "\<not> checkpoint_rollback_detected (observed_durable_block_index s) (tk_block_height s)"
    using observed_durable_block_index_le [of s "tk_block_height s"] history_okD(3) [OF assms(1)]
    by (auto simp: checkpoint_rollback_detected_def not_less split: option.splits)
  have "pre_upgrade s = Inr (s\<lparr> tk_checkpoint := Some ?cp \<rparr>)"
    using assms(2,3) by (simp add: pre_upgrade_def)
  moreover have "tk_checkpoint (heap_reset (s\<lparr> tk_checkpoint := Some ?cp \<rparr>)) = Some ?cp"
    by (simp add: heap_reset_def)
  ultimately have "upgrade_token now s = Inr (s\<lparr> tk_checkpoint := Some ?cp \<rparr>)"
    using quiet obs assms(2,3)
    by (simp add: upgrade_token_def post_upgrade_def restore_from_checkpoint_def)
      (simp add: heap_reset_def)
  then show ?thesis by blast
qed

text \<open>The back-fill of a missing time index.\<close>

lemma fmlookup_fold_fmdrop:
  "fmlookup (fold fmdrop ks m) k = (if k \<in> set ks then None else fmlookup m k)"
  by (induction ks arbitrary: m) auto

lemma in_fold_finsert: "x |\<in>| fold (\<lambda>k. finsert (f k)) ks idx \<longleftrightarrow> x |\<in>| idx \<or> x \<in> f ` set ks"
  by (induction ks arbitrary: idx) auto

lemma backfill_dedup_index_exact:
  assumes "tk_dedup_by_time s = {||}"
  shows "index_matches dedup_stamp (tk_dedup (backfill_dedup_index now s))
           (tk_dedup_by_time (backfill_dedup_index now s))"
    and "fmlookup (tk_dedup (backfill_dedup_index now s)) k =
       (case fmlookup (tk_dedup s) k of
          Some v \<Rightarrow> if dedup_created_at v < now - TX_DEDUP_WINDOW_NS then None else Some v
        | None \<Rightarrow> None)"
    and "backfill_dedup_index now s = s\<lparr> tk_dedup := tk_dedup (backfill_dedup_index now s),
           tk_dedup_by_time := tk_dedup_by_time (backfill_dedup_index now s) \<rparr>"
proof -
  let ?s = "backfill_dedup_index now s"
  have row: "fmlookup (tk_dedup ?s) k =
       (case fmlookup (tk_dedup s) k of
          Some v \<Rightarrow> if dedup_created_at v < now - TX_DEDUP_WINDOW_NS then None else Some v
        | None \<Rightarrow> None)" for k
    by (auto simp: backfill_dedup_index_def Let_def fmlookup_fold_fmdrop fmlookup_dom_iff
        split: option.splits)
  then show "fmlookup (tk_dedup ?s) k =
       (case fmlookup (tk_dedup s) k of
          Some v \<Rightarrow> if dedup_created_at v < now - TX_DEDUP_WINDOW_NS then None else Some v
        | None \<Rightarrow> None)" .
  have idx: "(e, k) |\<in>| tk_dedup_by_time ?s \<longleftrightarrow> (\<exists>v. fmlookup (tk_dedup s) k = Some v
      \<and> e = dedup_created_at v \<and> \<not> e < now - TX_DEDUP_WINDOW_NS)" for e k
    by (auto simp: backfill_dedup_index_def Let_def in_fold_finsert assms fmlookup_dom_iff image_iff
        split: option.splits)
  show "index_matches dedup_stamp (tk_dedup ?s) (tk_dedup_by_time ?s)"
    unfolding index_matches_def
  proof (intro allI)
    fix e k
    show "(e, k) |\<in>| tk_dedup_by_time ?s \<longleftrightarrow>
        (\<exists>v. fmlookup (tk_dedup ?s) k = Some v \<and> dedup_stamp v = Some e)"
      unfolding idx row [of k] by (auto simp: dedup_stamp_def split: option.splits)
  qed
  show "?s = s\<lparr> tk_dedup := tk_dedup ?s, tk_dedup_by_time := tk_dedup_by_time ?s \<rparr>"
    by (simp add: backfill_dedup_index_def Let_def)
qed

end
