(* ===== verification/Token_Ledger.thy ===== *)
theory Token_Ledger
  imports Token_Lifecycle
begin

text \<open>
  The token ledger as a transition system with a monotone clock: genesis, then any sequence of
  endpoint calls, timer ticks, upgrades and rejected calls. Its lemmas collect what one step keeps
  (the invariant, the fee, live deduplication records, every receipt, the bounded life of every
  allowance), and the properties of the ledger follow by induction over runs.
\<close>

section \<open>Runs\<close>

inductive token_step ::
  "(bytes \<Rightarrow> bytes) \<Rightarrow> principal \<Rightarrow> nat \<times> token \<Rightarrow> nat \<times> token \<Rightarrow> bool"
  for sha :: "bytes \<Rightarrow> bytes" and self_id :: principal where
  step_transfer: "n \<le> now \<Longrightarrow> now < u64_limit \<Longrightarrow>
     icrc1_transfer sha caller now args s = Inr (s', b) \<Longrightarrow> token_step sha self_id (n, s) (now, s')"
| step_approve: "n \<le> now \<Longrightarrow> now < u64_limit \<Longrightarrow>
     icrc2_approve sha caller now aargs s = Inr (s', b) \<Longrightarrow> token_step sha self_id (n, s) (now, s')"
| step_transfer_from: "n \<le> now \<Longrightarrow> now < u64_limit \<Longrightarrow>
     icrc2_transfer_from sha self_id caller now fargs s = Inr (s', b)
     \<Longrightarrow> token_step sha self_id (n, s) (now, s')"
| step_close: "n \<le> now \<Longrightarrow> now < u64_limit \<Longrightarrow>
     close_deposit_attempt sha self_id caller now dargs s = Inr (s', out)
     \<Longrightarrow> token_step sha self_id (n, s) (now, s')"
| step_lock: "n \<le> now \<Longrightarrow> now < u64_limit \<Longrightarrow>
     lock_for_staking caller holder amount s = Inr s' \<Longrightarrow> token_step sha self_id (n, s) (now, s')"
| step_unlock: "n \<le> now \<Longrightarrow> now < u64_limit \<Longrightarrow>
     unlock_from_staking caller holder amount s = Inr s' \<Longrightarrow> token_step sha self_id (n, s) (now, s')"
| step_timer: "n \<le> now \<Longrightarrow> now < u64_limit \<Longrightarrow>
     s' = prune_expired_allowances now MAX_ALLOWANCE_PRUNE_PER_TIMER_TICK s
     \<Longrightarrow> token_step sha self_id (n, s) (now, s')"
| step_upgrade: "n \<le> now \<Longrightarrow> now < u64_limit \<Longrightarrow>
     upgrade_token now s = Inr s' \<Longrightarrow> token_step sha self_id (n, s) (now, s')"
| step_rejected: "n \<le> now \<Longrightarrow> now < u64_limit \<Longrightarrow> token_step sha self_id (n, s) (now, s)"

inductive_cases token_stepE: "token_step sha self_id (n, s) (now, s')"

inductive token_later ::
  "(bytes \<Rightarrow> bytes) \<Rightarrow> principal \<Rightarrow> nat \<times> token \<Rightarrow> nat \<times> token \<Rightarrow> bool"
  for sha :: "bytes \<Rightarrow> bytes" and self_id :: principal where
  later_refl: "token_later sha self_id x x"
| later_step: "token_later sha self_id x y \<Longrightarrow> token_step sha self_id y z \<Longrightarrow> token_later sha self_id x z"

inductive token_reach :: "(bytes \<Rightarrow> bytes) \<Rightarrow> principal \<Rightarrow> nat \<times> token \<Rightarrow> bool"
  for sha :: "bytes \<Rightarrow> bytes" and self_id :: principal where
  reach_genesis: "now < u64_limit \<Longrightarrow> init_token now args fresh_token = Inr s
     \<Longrightarrow> token_reach sha self_id (now, s)"
| reach_step: "token_reach sha self_id x \<Longrightarrow> token_step sha self_id x y \<Longrightarrow> token_reach sha self_id y"

section \<open>What one step keeps\<close>

definition dedup_kept :: "nat \<Rightarrow> token \<Rightarrow> token \<Rightarrow> bool" where
  "dedup_kept now s s' \<longleftrightarrow>
     (\<forall>k v. fmlookup (tk_dedup s) k = Some v \<longrightarrow>
        fmlookup (tk_dedup s') k = Some v \<or> dedup_created_at v + TX_DEDUP_WINDOW_NS < now)"

definition receipts_kept :: "token \<Rightarrow> token \<Rightarrow> bool" where
  "receipts_kept s s' \<longleftrightarrow>
     (\<forall>k r. fmlookup (tk_receipts s) k = Some r \<longrightarrow> fmlookup (tk_receipts s') k = Some r)"

definition rows_aged :: "nat \<Rightarrow> token \<Rightarrow> bool" where
  "rows_aged now s \<longleftrightarrow>
     (\<forall>k r e. fmlookup (tk_allowances s) k = Some r \<longrightarrow> al_expires_at r = Some e
        \<longrightarrow> e \<le> now + MAX_APPROVAL_TTL_NS)"

definition step_ok :: "nat \<Rightarrow> token \<Rightarrow> token \<Rightarrow> bool" where
  "step_ok now s s' \<longleftrightarrow> token_inv s' \<and> tk_fee s' = tk_fee s \<and> dedup_kept now s s'
     \<and> receipts_kept s s' \<and> (rows_aged now s \<longrightarrow> rows_aged now s')"

lemma dedup_kept_same: "tk_dedup s' = tk_dedup s \<Longrightarrow> dedup_kept now s s'"
  by (simp add: dedup_kept_def)

lemma receipts_kept_same: "tk_receipts s' = tk_receipts s \<Longrightarrow> receipts_kept s s'"
  by (simp add: receipts_kept_def)

lemma rows_aged_cong: "tk_allowances s' = tk_allowances s \<Longrightarrow> rows_aged now s' = rows_aged now s"
  by (simp add: rows_aged_def)

lemma record_dedup_lookup:
  assumes "stores_ok s" "fresh_dedup s now d" "fmlookup (tk_dedup s) k = Some v"
    and "now \<le> dedup_created_at v + TX_DEDUP_WINDOW_NS"
  shows "fmlookup (tk_dedup (record_dedup now d b s)) k = Some v"
proof (cases d)
  case (Some kt)
  then obtain l t where d: "d = Some (l, t)" by (cases kt) simp
  have "l \<noteq> k" using assms(2,3) d by (auto simp: fresh_dedup_def)
  have "fmlookup (fst (prune_rows (dedup_upper now) MAX_PRUNE_PER_CALL (tk_dedup s, tk_dedup_by_time s))) k
      = Some v"
    by (rule dedup_store.prune_lookup)
      (use stores_okD(4,5) [OF assms(1)] assms(3,4) in \<open>auto simp: dedup_stamp_def\<close>)
  then show ?thesis using d \<open>l \<noteq> k\<close> by (simp add: record_dedup_def record_dedup_eq)
qed (use assms in \<open>simp add: record_dedup_def\<close>)

lemma record_dedup_kept:
  assumes "stores_ok s1" "fresh_dedup s1 now d" "tk_dedup s1 = tk_dedup s"
  shows "dedup_kept now s (record_dedup now d b s1)"
  using record_dedup_lookup [OF assms(1,2)] assms(3) by (auto simp: dedup_kept_def not_less)

lemma write_receipt_kept:
  assumes "fresh_receipt s1 r"
  shows "receipts_kept s1 (write_receipt r b a f now s1)"
  using assms by (auto simp: receipts_kept_def write_receipt_def fresh_receipt_def split: option.splits)

lemma transfer_step_ok:
  assumes "icrc1_transfer sha caller now args s = Inr (s', b)" "token_inv s"
    and sha: "\<And>x. length (sha x) = 32"
  shows "step_ok now s s'"
proof -
  obtain plan d s1 where check: "icrc1_transfer_check sha caller now args s = Inr (plan, d)"
    and move: "(move_funds plan (tk_fee s) s :: (transfer_error, token \<times> nat) res) = Inr (s1, b)"
    and s': "s' = record_dedup now d b s1"
    using assms(1) by (auto simp: icrc1_transfer_def result_simps)
  note c = icrc1_transfer_check_Inr [OF check token_invD(4) [OF assms(2)] sha]
  note m = token_inv_move [OF move assms(2) c [THEN conjunct1]]
  have fr: "funds_frame s s1"
    using move_funds_Inr [OF move token_invD(1) [OF assms(2)] c [THEN conjunct1]] by blast
  have "dedup_kept now s s'"
    unfolding s' by (rule record_dedup_kept) (use m c fresh_dedup_frame [of s1 s] in \<open>auto simp: token_inv_def\<close>)
  then show ?thesis
    using icrc1_transfer_inv [OF assms] funds_frame_fields [OF fr] m rows_aged_cong [of s' s]
    by (simp add: step_ok_def s' store_frames receipts_kept_same)
qed

lemma spend_allowance_aged:
  assumes "stores_ok s" "e = al_expires_at (allowance_row s k)" "rows_aged now s"
    and "\<exists>r. fmlookup (tk_allowances s) k = Some r \<and> al_expires_at r = e"
  shows "rows_aged now (spend_allowance k n e s)"
  using assms(3,4)
  by (auto simp: rows_aged_def spend_allowance_def remove_allowance_def put_allowance_def split: if_splits)

lemma transfer_from_steps:
  assumes "icrc2_transfer_from sha self_id spender now args s = Inr (s', b)" "token_inv s"
    and sha: "\<And>x. length (sha x) = 32"
  obtains p s1 where "icrc2_transfer_from_check sha self_id spender now args s = Inr p"
    "token_inv s1" "funds_frame (spend_allowance (fp_allowance_key p) (fp_new_allow p) (fp_expires_at p) s) s1"
    "b = tk_block_height s + 1" "tk_block_height s1 = b"
    "moved s s1 (encode_key (tf_from args)) (encode_key (tf_to args)) (tf_amount args) (tk_fee s)"
    "s' = record_dedup now (fp_dedup_key p) b
        (write_receipt (fp_receipt p) b (fp_amount p) (tk_fee s) now s1)"
    "\<exists>r. fmlookup (tk_allowances s) (fp_allowance_key p) = Some r \<and> al_expires_at r = fp_expires_at p
       \<and> al_amount r = fp_new_allow p + (tf_amount args + tk_fee s)
       \<and> \<not> allowance_is_expired (fp_expires_at p) now"
proof -
  obtain p s1 where check: "icrc2_transfer_from_check sha self_id spender now args s = Inr p"
    and move: "(move_funds (fp_debit p) (tk_fee s) (spend_allowance (fp_allowance_key p) (fp_new_allow p)
        (fp_expires_at p) s) :: (transfer_from_error, token \<times> nat) res) = Inr (s1, b)"
    and s': "s' = record_dedup now (fp_dedup_key p) b
        (write_receipt (fp_receipt p) b (fp_amount p) (tk_fee s) now s1)"
    using assms(1) by (auto simp: icrc2_transfer_from_def result_simps)
  note c = icrc2_transfer_from_check_parts [OF check sha]
  note plan = icrc2_transfer_from_check_plan [OF check sha token_invD(4) [OF assms(2)]]
  let ?s0 = "spend_allowance (fp_allowance_key p) (fp_new_allow p) (fp_expires_at p) s"
  have pos: "0 < fp_new_allow p + (tf_amount args + tk_fee s)"
    and eff: "fp_new_allow p + (tf_amount args + tk_fee s)
        = effective_allowance (allowance_row s (fp_allowance_key p)) now"
    using c(1,8) by simp_all
  note sp = spend_allowance_inv [OF assms(2) pos eff c(7)]
  have plan0: "plan_ok ?s0 (fp_debit p) (tf_amount args) (tk_fee s)"
    using plan plan_ok_cong [of ?s0 s] by (simp add: store_frames)
  note m = move_funds_Inr [OF move token_invD(1) [OF sp(1)] plan0]
  note m' = token_inv_move [OF move sp(1) plan0]
  have "fee_key ?s0 = fee_key s" by (simp add: fee_key_def store_frames cong: option.case_cong)
  then have "moved s s1 (encode_key (tf_from args)) (encode_key (tf_to args)) (tf_amount args) (tk_fee s)"
    using m plan by (simp add: moved_def get_balance_def store_frames)
  then show thesis
    using that [OF check _ _ _ _ _ s' sp(2)] m m' by (simp add: store_frames)
qed

lemma transfer_from_step_ok:
  assumes "icrc2_transfer_from sha self_id spender now args s = Inr (s', b)" "token_inv s"
    and sha: "\<And>x. length (sha x) = 32" and now: "now < u64_limit"
  shows "step_ok now s s'"
proof -
  from transfer_from_steps [OF assms(1,2) sha] obtain p s1 where
    check: "icrc2_transfer_from_check sha self_id spender now args s = Inr p" and inv1: "token_inv s1"
    and fr: "funds_frame (spend_allowance (fp_allowance_key p) (fp_new_allow p) (fp_expires_at p) s) s1"
    and s': "s' = record_dedup now (fp_dedup_key p) b
        (write_receipt (fp_receipt p) b (fp_amount p) (tk_fee s) now s1)"
    and row: "\<exists>r. fmlookup (tk_allowances s) (fp_allowance_key p) = Some r \<and> al_expires_at r = fp_expires_at p"
    by metis
  note c = icrc2_transfer_from_check_parts [OF check sha]
  note f = funds_frame_fields [OF fr]
  let ?w = "write_receipt (fp_receipt p) b (fp_amount p) (tk_fee s) now s1"
  have gate: "fresh_receipt s1 (fp_receipt p)"
    using pool_receipt_gate_Inr [OF c(9) sha, THEN conjunct1] f
    by (simp add: fresh_receipt_def store_frames cong: option.case_cong)
  have "receipts_kept s s'"
    using write_receipt_kept [OF gate] f by (simp add: receipts_kept_def s' store_frames)
  moreover have "dedup_kept now s s'"
    unfolding s'
    by (rule record_dedup_kept)
      (use stores_ok_cong [of ?w s1] token_invD(2) [OF inv1] c(4) f fresh_dedup_frame [of ?w s]
        in \<open>simp_all add: store_frames\<close>)
  moreover have "rows_aged now s \<longrightarrow> rows_aged now s'"
    using spend_allowance_aged [OF token_invD(2) [OF assms(2)] c(7) _ row]
      rows_aged_cong [of s' "spend_allowance (fp_allowance_key p) (fp_new_allow p) (fp_expires_at p) s"] f
    by (simp add: s' store_frames)
  moreover have "tk_fee s' = tk_fee s" using f by (simp add: s' store_frames)
  ultimately show ?thesis
    using icrc2_transfer_from_inv [OF assms] by (simp add: step_ok_def)
qed

lemma prune_allowances_aged:
  "rows_aged now s \<Longrightarrow> rows_aged now (prune_expired_allowances n cap s)"
  using allowance_store.prune_only_removes [of n cap "(tk_allowances s, tk_by_expiry s)"]
  by (auto simp: rows_aged_def prune_allowances_eq)

lemma approve_stores_aged:
  assumes "rows_aged now s" "ap_effective_expires_at p \<le> now + MAX_APPROVAL_TTL_NS"
  shows "rows_aged now (approve_stores p now s)"
  unfolding approve_stores_def run_allowance_maintenance_def
  using assms
  by (intro prune_allowances_aged)
    (auto simp: rows_aged_def remove_allowance_def put_allowance_def split: if_splits)

lemma approve_step_ok:
  assumes "icrc2_approve sha caller now args s = Inr (s', b)" "token_inv s"
    and sha: "\<And>x. length (sha x) = 32" and now: "now < u64_limit"
  shows "step_ok now s s'"
proof -
  from icrc2_approve_steps [OF assms(1,2) sha] obtain p s2 where
    check: "icrc2_approve_check sha caller now args s = Inr p"
    and fr: "funds_frame s s2"
    and s': "s' = record_dedup now (ap_dedup_key p) b ((approve_stores p now s2)\<lparr> tk_block_height := b \<rparr>)"
    by metis
  note c = icrc2_approve_check_parts [OF check sha]
  note f = funds_frame_fields [OF fr]
  let ?s4 = "(approve_stores p now s2)\<lparr> tk_block_height := b \<rparr>"
  have life: "ap_effective_expires_at p < u64_limit"
    "ap_effective_expires_at p \<le> now + MAX_APPROVAL_TTL_NS"
    using effective_lifetime_bounds [OF c(7) now] by simp_all
  have "stores_ok s2" using token_invD(2) [OF assms(2)] stores_frame [OF fr] by simp
  then have "stores_ok (approve_stores p now s2)"
    by (rule approve_stores_ok) (use c(8) f life in simp_all)
  then have "stores_ok ?s4" using stores_ok_cong [of ?s4 "approve_stores p now s2"] by simp
  then have "dedup_kept now s s'"
    unfolding s'
    by (rule record_dedup_kept) (use c(1) fresh_dedup_frame [of ?s4 s] f in \<open>simp_all add: store_frames\<close>)
  moreover have "rows_aged now s'" if "rows_aged now s"
  proof -
    have "rows_aged now (approve_stores p now s2)"
      using approve_stores_aged [OF _ life(2)] rows_aged_cong [of s2 s now] f that by simp
    then show ?thesis
      using rows_aged_cong [of s' "approve_stores p now s2" now] by (simp add: s' store_frames)
  qed
  moreover have "receipts_kept s s'" "tk_fee s' = tk_fee s"
    using f by (simp_all add: receipts_kept_same s' store_frames)
  ultimately show ?thesis
    using icrc2_approve_inv [OF assms] by (simp add: step_ok_def)
qed

lemma quiet_step_ok:
  assumes "token_inv s'" "tk_fee s' = tk_fee s" "tk_dedup s' = tk_dedup s" "receipts_kept s s'"
    and "tk_allowances s' = tk_allowances s"
  shows "step_ok now s s'"
  using assms dedup_kept_same [of s' s] rows_aged_cong [of s' s] by (simp add: step_ok_def)

lemma close_step_ok:
  assumes "close_deposit_attempt sha self_id caller now args s = Inr (s', out)" "token_inv s"
    and sha: "\<And>x. length (sha x) = 32" and now: "now < u64_limit"
  shows "step_ok now s s'"
  using close_deposit_attempt_Inr [OF assms(1) sha]
  by (intro quiet_step_ok [OF close_deposit_attempt_inv [OF assms]]) (auto simp: receipts_kept_def)

lemma upgrade_token_Inr:
  assumes "upgrade_token now s = Inr s'" "history_ok s"
  shows "\<exists>cp. s' = s\<lparr> tk_checkpoint := cp \<rparr>"
proof -
  obtain tr st where "tk_treasury s = Some tr" "tk_staking s = Some st"
    using assms(1)
    by (cases "tk_treasury s"; cases "tk_staking s") (auto simp: upgrade_token_def pre_upgrade_def)
  from upgrade_token_eq [OF assms(2) this, of now] assms(1) show ?thesis by auto
qed

lemma checkpoint_step_ok:
  assumes "token_inv s"
  shows "step_ok now s (s\<lparr> tk_checkpoint := cp \<rparr>)"
proof -
  let ?s = "s\<lparr> tk_checkpoint := cp \<rparr>"
  have "history_ok ?s"
    by (rule history_mono [OF token_invD(3) [OF assms]])
      (use history_okD(1) [OF token_invD(3) [OF assms]] in simp_all)
  then have "token_inv ?s"
    using assms supply_ok_cong [of ?s s] stores_ok_cong [of ?s s] by (simp add: token_inv_def)
  then show ?thesis by (rule quiet_step_ok) (simp_all add: receipts_kept_def)
qed

lemma lock_step_ok:
  assumes "token_inv s'" "s' = s\<lparr> tk_locks := tk_locks s', tk_sum_locks := tk_sum_locks s' \<rparr>"
  shows "step_ok now s s'"
proof -
  have "tk_fee s' = tk_fee s" "tk_dedup s' = tk_dedup s" "tk_receipts s' = tk_receipts s"
    "tk_allowances s' = tk_allowances s"
    by (subst assms(2), simp)+
  then show ?thesis using assms(1) by (intro quiet_step_ok) (simp_all add: receipts_kept_same)
qed

lemma token_step_ok:
  assumes step: "token_step sha self_id (n, s) (now, s')" and inv: "token_inv s"
    and sha: "\<And>x. length (sha x) = 32"
  shows "step_ok now s s' \<and> n \<le> now \<and> now < u64_limit"
proof -
  have time: "n \<le> now" "now < u64_limit" using step by (auto elim: token_stepE)
  have lock: "step_ok now s s'" if "lock_for_staking caller holder amount s = Inr s'"
    for caller holder amount
    using lock_for_staking_Inr [OF that inv] lock_step_ok by blast
  have unlock: "step_ok now s s'" if "unlock_from_staking caller holder amount s = Inr s'"
    for caller holder amount
    using unlock_from_staking_Inr [OF that inv] lock_step_ok by blast
  have timer: "step_ok now s (prune_expired_allowances now MAX_ALLOWANCE_PRUNE_PER_TIMER_TICK s)"
    using prune_allowances_inv [OF inv] prune_allowances_aged
    by (simp add: step_ok_def store_frames dedup_kept_same receipts_kept_same)
  have upgrade: "step_ok now s s'" if "upgrade_token now s = Inr s'"
    using upgrade_token_Inr [OF that token_invD(3) [OF inv]] checkpoint_step_ok [OF inv] by auto
  have rejected: "step_ok now s s"
    using inv by (simp add: step_ok_def dedup_kept_same receipts_kept_same)
  have "step_ok now s s'"
    using step
    by (rule token_stepE)
      (erule transfer_step_ok [OF _ inv sha] approve_step_ok [OF _ inv sha time(2)]
        transfer_from_step_ok [OF _ inv sha time(2)] close_step_ok [OF _ inv sha time(2)]
        lock unlock upgrade | simp add: timer rejected)+
  with time show ?thesis by simp
qed

section \<open>Runs keep it too\<close>

lemma rows_aged_mono: "rows_aged n s \<Longrightarrow> n \<le> now \<Longrightarrow> rows_aged now s"
  unfolding rows_aged_def by (meson add_le_mono1 le_trans)

lemma reach_inv:
  assumes "token_reach sha self_id x" "\<And>y. length (sha y) = 32"
  shows "token_inv (snd x) \<and> rows_aged (fst x) (snd x) \<and> fst x < u64_limit \<and> tk_fee (snd x) = DEFAULT_FEE"
  using assms(1)
proof induction
  case (reach_genesis now args s)
  then show ?case using init_token_Inr [of now args s] by (simp add: rows_aged_def)
next
  case (reach_step x y)
  then have "step_ok (fst y) (snd x) (snd y) \<and> fst x \<le> fst y \<and> fst y < u64_limit"
    using token_step_ok [of sha self_id "fst x" "snd x" "fst y" "snd y"] assms(2) by simp
  with reach_step.IH rows_aged_mono [of "fst x" "snd x" "fst y"] show ?case
    by (auto simp: step_ok_def)
qed

lemma later_inv:
  assumes "token_later sha self_id x y" "token_inv (snd x)" "\<And>z. length (sha z) = 32"
  shows "token_inv (snd y) \<and> fst x \<le> fst y \<and> tk_fee (snd y) = tk_fee (snd x)
     \<and> dedup_kept (fst y) (snd x) (snd y) \<and> receipts_kept (snd x) (snd y)"
  using assms(1,2)
proof induction
  case (later_refl x)
  then show ?case by (simp add: dedup_kept_def receipts_kept_def)
next
  case (later_step x y z)
  then have ih: "token_inv (snd y)" "fst x \<le> fst y" "tk_fee (snd y) = tk_fee (snd x)"
    "dedup_kept (fst y) (snd x) (snd y)" "receipts_kept (snd x) (snd y)" by simp_all
  have st: "step_ok (fst z) (snd y) (snd z)" "fst y \<le> fst z"
    using token_step_ok [of sha self_id "fst y" "snd y" "fst z" "snd z"] later_step.hyps(2) ih(1) assms(3)
    by simp_all
  have "dedup_kept (fst z) (snd x) (snd z)"
    unfolding dedup_kept_def
  proof (intro allI impI)
    fix k v assume "fmlookup (tk_dedup (snd x)) k = Some v"
    then have "fmlookup (tk_dedup (snd y)) k = Some v
        \<or> dedup_created_at v + TX_DEDUP_WINDOW_NS < fst y"
      using ih(4) unfolding dedup_kept_def by blast
    then show "fmlookup (tk_dedup (snd z)) k = Some v
        \<or> dedup_created_at v + TX_DEDUP_WINDOW_NS < fst z"
      using st unfolding step_ok_def dedup_kept_def by fastforce
  qed
  moreover have "receipts_kept (snd x) (snd z)"
    using ih(5) st(1) unfolding step_ok_def receipts_kept_def by blast
  ultimately show ?case using ih st by (simp add: step_ok_def)
qed

section \<open>Phase 2 never fails\<close>

lemma icrc1_transfer_total:
  assumes check: "icrc1_transfer_check sha caller now args s = Inr p"
    and inv: "token_inv s" and height: "tk_block_height s + 1 < u64_limit"
    and sha: "\<And>x. length (sha x) = 32"
  shows "\<exists>s'. icrc1_transfer sha caller now args s = Inr (s', tk_block_height s + 1)"
proof -
  obtain plan d where pd: "p = (plan, d)" by (cases p)
  from move_funds_ok [OF token_invD(1) [OF inv]
      icrc1_transfer_check_Inr [OF check [unfolded pd] token_invD(4) [OF inv] sha, THEN conjunct1] height,
      where ?'a = transfer_error]
  show ?thesis using check pd by (auto simp: icrc1_transfer_def)
qed

lemma icrc2_approve_total:
  assumes check: "icrc2_approve_check sha caller now args s = Inr p"
    and inv: "token_inv s" and height: "tk_block_height s + 1 < u64_limit"
    and sha: "\<And>x. length (sha x) = 32"
  shows "\<exists>s'. icrc2_approve sha caller now args s = Inr (s', tk_block_height s + 1)"
proof -
  note c = icrc2_approve_check_parts [OF check sha]
  from charge_fee_ok [OF token_invD(1) [OF inv] c(9) c(10) c(11), where ?'e = approve_error]
  obtain s1 s2 where
    "write_balance (ap_account_key p) (ap_bal p) (ap_new_bal p) s = (Inr s1 :: (approve_error, token) res)"
    "route_fee_to_treasury (tk_fee s) s1 = (Inr s2 :: (approve_error, token) res)"
    "tk_block_height s2 = tk_block_height s" by blast
  moreover have "(next_block (approve_stores p now s2) :: (approve_error, token \<times> nat) res)
      = Inr ((approve_stores p now s2)\<lparr> tk_block_height := tk_block_height s + 1 \<rparr>, tk_block_height s + 1)"
    using calculation(3) height by (simp add: next_block_Inr store_frames)
  ultimately show ?thesis
    using check by (simp add: icrc2_approve_def Let_def approve_stores_def)
qed

lemma icrc2_transfer_from_total:
  assumes check: "icrc2_transfer_from_check sha self_id caller now args s = Inr p"
    and inv: "token_inv s" and height: "tk_block_height s + 1 < u64_limit"
    and sha: "\<And>x. length (sha x) = 32"
  shows "\<exists>s'. icrc2_transfer_from sha self_id caller now args s = Inr (s', tk_block_height s + 1)"
proof -
  note c = icrc2_transfer_from_check_parts [OF check sha]
  let ?s0 = "spend_allowance (fp_allowance_key p) (fp_new_allow p) (fp_expires_at p) s"
  have pos: "0 < fp_new_allow p + (tf_amount args + tk_fee s)"
    and eff: "fp_new_allow p + (tf_amount args + tk_fee s)
      = effective_allowance (allowance_row s (fp_allowance_key p)) now"
    using c(1,8) by simp_all
  have "plan_ok ?s0 (fp_debit p) (tf_amount args) (tk_fee s)"
    using icrc2_transfer_from_check_plan [OF check sha token_invD(4) [OF inv]] plan_ok_cong [of ?s0 s]
    by (simp add: store_frames)
  from move_funds_ok [OF token_invD(1) [OF spend_allowance_inv(1) [OF inv pos eff c(7)]] this,
      where ?'a = transfer_from_error] height
  show ?thesis using check by (auto simp: icrc2_transfer_from_def store_frames)
qed

end
