(* ===== verification/Token_Properties.thy ===== *)
theory Token_Properties
  imports Token_Ledger
begin

text \<open>
  The properties of the token ledger: supply conservation over all runs, the effect of each
  money-moving endpoint, at-most-once execution, the allowance life cycle, the finality of deposit
  receipts, and the upgrade. A small concrete ledger serves the witnesses.
\<close>

section \<open>A concrete ledger\<close>

definition ex_sha :: "bytes \<Rightarrow> bytes" where "ex_sha x = replicate 32 0"

definition ex_alice :: principal where "ex_alice = [1]"
definition ex_bob :: principal where "ex_bob = [2]"
definition ex_pool :: principal where "ex_pool = [3]"

definition ex_account :: "principal \<Rightarrow> account" where
  "ex_account p = \<lparr> acc_owner = p, acc_sub = None \<rparr>"

definition ex_allocation :: allocation_category where
  "ex_allocation = \<lparr> ac_category_id = ''a'', ac_category_name = ''A'', ac_amount = TOTAL_SUPPLY,
     ac_recipient = ex_alice, ac_subaccount = None, ac_lock_policy = ImmediatelyLiquid,
     ac_vesting_policy = None, ac_created_at_genesis = False, ac_genesis_timestamp_ns = 0 \<rparr>"

definition ex_init :: init_args where
  "ex_init = \<lparr> ia_allocations = [ex_allocation], ia_treasury = [9], ia_staking_canister = [8],
     ia_fee_collector = None, ia_pool_canister = Some ex_pool \<rparr>"

definition ex_token :: token where
  "ex_token = fresh_token\<lparr> tk_balances := fmupd (main_key ex_alice) TOTAL_SUPPLY fmempty,
     tk_sum_balances := TOTAL_SUPPLY,
     tk_alloc_table := fmupd 0 (ex_allocation\<lparr> ac_created_at_genesis := True,
       ac_genesis_timestamp_ns := 5 \<rparr>) fmempty,
     tk_treasury := Some [9], tk_pool := Some ex_pool, tk_staking := Some [8], tk_mint_done := True \<rparr>"

lemma length_ex_sha: "length (ex_sha x) = 32"
  by (simp add: ex_sha_def)

lemma ex_genesis: "init_token 5 ex_init fresh_token = Inr ex_token"
  by (simp add: init_token_def ex_init_def ex_token_def fresh_token_def validate_init_allocations_def
      checked_add_def ex_allocation_def TOTAL_SUPPLY_def check_allocation_def write_balance_def
      running_total_def get_balance_def write_row_def allocation_key_def main_key_def Let_def)

lemma ex_reach: "token_reach ex_sha [7] (5, ex_token)"
  by (rule reach_genesis [OF _ ex_genesis]) simp

lemma ex_inv: "token_inv ex_token"
  using init_token_Inr [OF ex_genesis] by simp

lemma ex_height: "tk_block_height ex_token + 1 < u64_limit" "tk_block_height ex_token = 0"
  by (simp_all add: ex_token_def fresh_token_def)

section \<open>Supply\<close>

text \<open>C1: In every reachable state of the ledger no token has been created or destroyed: all balances
  and the fee reserve sum to TOTAL_SUPPLY, both running totals equal the folds of their maps, every
  staking lock is covered by its balance, the O(1) audit reports that the invariant holds, and within
  its row budget the controller's O(N) reconciliation reports consistent totals and the first law.\<close>

theorem supply_conserved:
  assumes "token_reach sha self_id (now, s)" "\<forall>x. length (sha x) = 32"
  shows "fmtotal (tk_balances s) + tk_fee_reserve s = TOTAL_SUPPLY
     \<and> tk_sum_balances s = fmtotal (tk_balances s) \<and> tk_sum_locks s = fmtotal (tk_locks s)
     \<and> (\<forall>k. get_lock s k \<le> get_balance s k)
     \<and> ie_invariant_holds (evaluate_supply_invariant s)
     \<and> (case reconcile_supply_invariant True s of
          Inl e \<Rightarrow> False
        | Inr r \<Rightarrow> sr_rows_examined r = 0
            \<or> (sr_totals_consistent r \<and> sr_folded_first_law_holds r))"
proof -
  have inv: "token_inv s" using reach_inv [OF assms(1)] assms(2) by simp
  have tot: "tk_sum_balances s = fmtotal (tk_balances s)" "tk_sum_locks s = fmtotal (tk_locks s)"
    "fmtotal (tk_balances s) + tk_fee_reserve s = TOTAL_SUPPLY"
    "\<forall>k. get_lock s k \<le> get_balance s k"
    using inv by (simp_all add: token_inv_def supply_ok_def totals_ok_def)
  then have "fmtotal (tk_locks s) \<le> fmtotal (tk_balances s)"
    by (intro fmtotal_mono) (simp add: get_lock_def get_balance_def)
  then have small: "fmtotal (tk_locks s) < 2 ^ 128" "fmtotal (tk_balances s) < 2 ^ 128"
    using tot(3) TOTAL_SUPPLY_small by simp_all
  have "checked_add 128 (fmtotal (tk_balances s)) (tk_fee_reserve s) = Some TOTAL_SUPPLY"
    using tot(3) TOTAL_SUPPLY_small by (simp add: checked_add_def)
  moreover have "checked_sum (row_values (tk_balances s)) = Some (fmtotal (tk_balances s))"
    "checked_sum (row_values (tk_locks s)) = Some (fmtotal (tk_locks s))"
    using small by (simp_all add: checked_sum_Some sum_row_values)
  ultimately show ?thesis
    using tot by (simp add: evaluate_supply_invariant_def reconcile_supply_invariant_def Let_def)
qed

theorem supply_conserved_witness:
  "tk_sum_balances ex_token = fmtotal (tk_balances ex_token) \<and> ie_invariant_holds (evaluate_supply_invariant ex_token)"
  using supply_conserved [OF ex_reach] length_ex_sha by simp

section \<open>Transfers\<close>

text \<open>A successful \<^verbatim>\<open>icrc1_transfer\<close> is authorised by and drawn on the caller's own account
  only, moves exactly what it says (the sender pays a positive amount and the fee out of its liquid
  balance, the recipient and the fee row receive theirs, no other balance changes, also when rows
  coincide), issues the next block number, and leaves locks, allowances and receipts alone.\<close>

theorem transfer_effect:
  assumes "icrc1_transfer sha caller now args s = Inr (s', b)" "token_inv s"
    and "\<forall>x. length (sha x) = 32"
  shows "moved s s' (encode_key \<lparr> acc_owner = caller, acc_sub = ta_from_subaccount args \<rparr>)
           (encode_key (ta_to args)) (ta_amount args) (tk_fee s)
     \<and> 0 < ta_amount args
     \<and> ta_amount args + tk_fee s
         + get_lock s (encode_key \<lparr> acc_owner = caller, acc_sub = ta_from_subaccount args \<rparr>)
         \<le> get_balance s (encode_key \<lparr> acc_owner = caller, acc_sub = ta_from_subaccount args \<rparr>)
     \<and> b = tk_block_height s + 1 \<and> tk_block_height s' = b
     \<and> tk_locks s' = tk_locks s \<and> tk_allowances s' = tk_allowances s \<and> tk_receipts s' = tk_receipts s"
proof -
  have sha: "\<And>x. length (sha x) = 32" using assms(3) by simp
  obtain plan d s1 where check: "icrc1_transfer_check sha caller now args s = Inr (plan, d)"
    and move: "(move_funds plan (tk_fee s) s :: (transfer_error, token \<times> nat) res) = Inr (s1, b)"
    and s': "s' = record_dedup now d b s1"
    using assms(1) by (auto simp: icrc1_transfer_def result_simps)
  note c = icrc1_transfer_check_Inr [OF check token_invD(4) [OF assms(2)] sha]
  note m = move_funds_Inr [OF move token_invD(1) [OF assms(2)] c [THEN conjunct1]]
  have fr: "funds_frame s s1" using m by blast
  have bal: "get_balance s' x = get_balance s1 x" for x
    by (simp add: get_balance_def s' store_frames)
  have "moved s s' (dp_from_key plan) (dp_to_key plan) (ta_amount args) (tk_fee s)"
    using m unfolding moved_def bal by blast
  then show ?thesis
    using c m funds_frame_fields [OF fr] by (auto simp: s' store_frames plan_ok_def)
qed

definition ex_transfer :: transfer_args where
  "ex_transfer = \<lparr> ta_from_subaccount = None, ta_to = ex_account ex_bob, ta_amount = 100, ta_fee = Some 0,
     ta_memo = None, ta_created_at_time = Some 6 \<rparr>"

lemma ex_keys_differ: "main_key ex_alice \<noteq> main_key ex_bob"
  by (simp add: main_key_def encode_key_def ex_alice_def ex_bob_def)

lemma ex_transfer_succeeds: "\<exists>s'. icrc1_transfer ex_sha ex_alice 10 ex_transfer ex_token = Inr (s', 1)"
  using ex_keys_differ
  by (simp add: icrc1_transfer_def icrc1_transfer_check_def ex_transfer_def ex_token_def fresh_token_def
      check_fee_def to_width_def check_window_def add_or_trap_def PERMITTED_DRIFT_NS_def
      TX_DEDUP_WINDOW_NS_def checked_total_debit_def checked_add_def check_duplicate_def plan_debit_def
      checked_sub_def checked_credit_def get_balance_def get_lock_def DEFAULT_FEE_def main_key_def
      ex_account_def TOTAL_SUPPLY_def move_funds_def write_balance_def running_total_def
      write_row_def route_fee_to_treasury_def next_block_def Let_def)

theorem transfer_effect_witness:
  "\<exists>s'. icrc1_transfer ex_sha ex_alice 10 ex_transfer ex_token = Inr (s', 1) \<and> tk_block_height s' = 1
     \<and> moved ex_token s' (main_key ex_alice) (main_key ex_bob) 100 0"
proof -
  obtain s' where s': "icrc1_transfer ex_sha ex_alice 10 ex_transfer ex_token = Inr (s', 1)"
    using ex_transfer_succeeds by blast
  have "tk_fee ex_token = 0" by (simp add: ex_token_def fresh_token_def DEFAULT_FEE_def)
  then show ?thesis
    using transfer_effect [OF s' ex_inv] length_ex_sha s'
    by (simp add: ex_transfer_def main_key_def ex_account_def)
qed

text \<open>C26: Phase 2 of the money-moving endpoints is infallible. Once the checks of a transfer, an
  approval or a transfer-from have passed and a block number is left, the call succeeds; and every
  error these endpoints return comes from the checks, before the first write, so a returned error
  never commits a partial update.\<close>

theorem phase_two_infallible:
  assumes "token_inv s" "tk_block_height s + 1 < u64_limit" "\<forall>x. length (sha x) = 32"
  shows "(case icrc1_transfer_check sha caller now args s of
            Inl e \<Rightarrow> icrc1_transfer sha caller now args s = Inl e
          | Inr p \<Rightarrow> \<exists>s'. icrc1_transfer sha caller now args s = Inr (s', tk_block_height s + 1))
     \<and> (case icrc2_approve_check sha caller now aargs s of
            Inl e \<Rightarrow> icrc2_approve sha caller now aargs s = Inl e
          | Inr p \<Rightarrow> \<exists>s'. icrc2_approve sha caller now aargs s = Inr (s', tk_block_height s + 1))
     \<and> (case icrc2_transfer_from_check sha self_id caller now fargs s of
            Inl e \<Rightarrow> icrc2_transfer_from sha self_id caller now fargs s = Inl e
          | Inr p \<Rightarrow> \<exists>s'. icrc2_transfer_from sha self_id caller now fargs s = Inr (s', tk_block_height s + 1))"
  using icrc1_transfer_total [OF _ assms(1,2)] icrc2_approve_total [OF _ assms(1,2)]
    icrc2_transfer_from_total [OF _ assms(1,2)] assms(3)
  by (simp add: icrc1_transfer_def icrc2_approve_def icrc2_transfer_from_def split: sum.split)

lemma ex_transfer_check:
  "\<exists>p. icrc1_transfer_check ex_sha ex_alice 10 ex_transfer ex_token = Inr p"
  using ex_transfer_succeeds by (auto simp: icrc1_transfer_def result_simps)

theorem phase_two_infallible_witness:
  "\<exists>s'. icrc1_transfer ex_sha ex_alice 10 ex_transfer ex_token = Inr (s', 1)"
proof -
  have "tk_block_height ex_token = 0" by (simp add: ex_token_def fresh_token_def)
  then show ?thesis
    using phase_two_infallible [of ex_token ex_sha ex_alice 10 ex_transfer] ex_transfer_check ex_inv
      length_ex_sha by auto
qed

section \<open>At most once\<close>

text \<open>A recorded deduplication entry answers until its window has passed.\<close>

lemma record_dedup_new:
  "fmlookup (tk_dedup (record_dedup now (Some (k, t)) b s)) k = Some (encode_dedup_value b t)"
  by (simp add: record_dedup_def record_dedup_eq)

lemma dedup_entry_later:
  assumes "fmlookup (tk_dedup s) k = Some (encode_dedup_value b t)" "t < u64_limit"
    and "token_later sha self_id (n, s) (n', s')" "token_inv s" "\<And>z. length (sha z) = 32"
    and "n' \<le> now" "now \<le> t + TX_DEDUP_WINDOW_NS"
  shows "fmlookup (tk_dedup s') k = Some (encode_dedup_value b t)"
proof -
  have "dedup_kept n' s s'" using later_inv [OF assms(3) _ assms(5)] assms(4) by simp
  then have "fmlookup (tk_dedup s') k = Some (encode_dedup_value b t) \<or> t + TX_DEDUP_WINDOW_NS < n'"
    using assms(1,2) unfolding dedup_kept_def by (metis dedup_value_parts(2))
  with assms(6,7) show ?thesis by auto
qed

text \<open>C19: A timestamped transfer executes at most once. After it has succeeded with block \<open>b\<close>, and
  whatever happens to the ledger in between (other calls, prunes, upgrades), repeating the identical
  call never moves funds again: it returns Duplicate of \<open>b\<close> while the deduplication window is
  open and TooOld for ever after.\<close>

theorem transfer_executes_once:
  assumes "token_inv s0" "\<forall>x. length (sha x) = 32"
    and "icrc1_transfer sha caller now args s0 = Inr (s1, b)" "ta_created_at_time args = Some t"
    and "token_later sha self_id (now, s1) (n2, s2)" "n2 \<le> now2"
    and "now2 + PERMITTED_DRIFT_NS < u64_limit"
  shows "icrc1_transfer sha caller now2 args s2 =
     (if now2 \<le> t + TX_DEDUP_WINDOW_NS then fail (TE_Duplicate b) else fail TE_TooOld)"
proof -
  have sha: "\<And>x. length (sha x) = 32" using assms(2) by simp
  let ?k = "transfer_key sha caller args t"
  obtain plan d u where check: "icrc1_transfer_check sha caller now args s0 = Inr (plan, d)"
    and move: "(move_funds plan (tk_fee s0) s0 :: (transfer_error, token \<times> nat) res) = Inr (u, b)"
    and s1: "s1 = record_dedup now d b u"
    using assms(3) by (auto simp: icrc1_transfer_def result_simps)
  note c = icrc1_transfer_check_Inr [OF check token_invD(4) [OF assms(1)] sha]
  have d: "d = Some (?k, t)" using c assms(4) by simp
  have "fresh_dedup s0 now d" using c by blast
  then have "t < u64_limit" unfolding d fresh_dedup_def by simp
  have inv1: "token_inv s1" by (rule icrc1_transfer_inv [OF assms(3,1) sha])
  have b: "b < u64_limit"
    using move_funds_Inr [OF move token_invD(1) [OF assms(1)] c [THEN conjunct1]] by simp
  note l = later_inv [OF assms(5) _ sha, simplified, OF inv1]
  have fee: "tk_fee s2 = tk_fee s0"
    using transfer_step_ok [OF assms(3,1) sha] l by (simp add: step_ok_def)
  have pre: "check_fee (TE_BadFee (tk_fee s0)) (ta_fee args) (tk_fee s0) = Inr ()"
    "t \<le> now + PERMITTED_DRIFT_NS" "0 < ta_amount args" "ta_amount args < 2 ^ 128"
    "ta_amount args + tk_fee s0 < 2 ^ 128"
    using check assms(4)
    by (auto simp: icrc1_transfer_check_def Let_def result_simps check_window_Inr
        checked_total_debit_def split: if_splits)
  have order: "now \<le> now2" using l assms(6) by simp
  show ?thesis
  proof (cases "now2 \<le> t + TX_DEDUP_WINDOW_NS")
    case True
    have "fmlookup (tk_dedup s2) ?k = Some (encode_dedup_value b t)"
      by (rule dedup_entry_later [OF _ \<open>t < u64_limit\<close> assms(5) inv1 sha assms(6) True])
        (simp add: s1 d record_dedup_new)
    then have "check_duplicate TE_Duplicate s2 ?k = fail (TE_Duplicate b)"
      using b by (simp add: check_duplicate_def dedup_value_parts)
    moreover have "check_window (TE_CreatedInFuture now2) TE_TooOld now2 t = Inr ()"
      using assms(7) pre(2) order True by (simp add: check_window_Inr)
    ultimately show ?thesis
      using True pre fee assms(4)
      by (simp add: icrc1_transfer_def icrc1_transfer_check_def Let_def to_width_def
          checked_total_debit_def checked_add_def transfer_key_def)
  next
    case False
    then have "check_window (TE_CreatedInFuture now2) TE_TooOld now2 t = fail TE_TooOld"
      using assms(7) pre(2) order by (simp add: check_window_def add_or_trap_def)
    then show ?thesis
      using False pre(1) fee assms(4)
      by (simp add: icrc1_transfer_def icrc1_transfer_check_def Let_def)
  qed
qed

theorem transfer_executes_once_witness:
  "\<exists>s1. icrc1_transfer ex_sha ex_alice 10 ex_transfer ex_token = Inr (s1, 1)
     \<and> icrc1_transfer ex_sha ex_alice 11 ex_transfer s1 = fail (TE_Duplicate 1)"
proof -
  obtain s1 where s1: "icrc1_transfer ex_sha ex_alice 10 ex_transfer ex_token = Inr (s1, 1)"
    using ex_transfer_succeeds by blast
  have "token_later ex_sha [7] (10, s1) (10, s1)" by (rule later_refl)
  from transfer_executes_once [OF ex_inv _ s1 _ this, of 6 11] show ?thesis
    using s1 length_ex_sha by (simp add: ex_transfer_def TX_DEDUP_WINDOW_NS_def PERMITTED_DRIFT_NS_def)
qed

section \<open>Allowances\<close>

text \<open>What a reader sees of the allowance row \<open>k\<close> at an instant.\<close>

definition allowance_view :: "token \<Rightarrow> bytes \<Rightarrow> nat \<Rightarrow> nat \<times> nat option" where
  "allowance_view s k now =
    (let r = allowance_row s k in
     if allowance_is_expired (al_expires_at r) now then (0, None)
     else (effective_allowance r now, al_expires_at r))"

lemma icrc2_allowance_view:
  "icrc2_allowance acc sp now s = allowance_view s (compound_key (encode_key acc) (encode_key sp)) now"
  by (simp add: icrc2_allowance_def allowance_view_def)

lemma allowance_view_cong:
  "fmlookup (tk_allowances s') k = fmlookup (tk_allowances s) k \<Longrightarrow> allowance_view s' k now = allowance_view s k now"
  by (simp add: allowance_view_def allowance_row_def)

lemma allowance_view_none: "fmlookup (tk_allowances s) k = None \<Longrightarrow> allowance_view s k now = (0, None)"
  by (simp add: allowance_view_def allowance_row_def allowance_is_expired_def effective_allowance_def)

text \<open>Pruning is invisible: it only removes rows that already read as no allowance.\<close>

lemma allowance_view_prune:
  assumes "stores_ok s"
  shows "allowance_view (prune_expired_allowances now cap s) k now = allowance_view s k now"
proof (cases "fmlookup (tk_allowances s) k")
  case None
  then have "fmlookup (tk_allowances (prune_expired_allowances now cap s)) k = None"
    using allowance_store.prune_only_removes [of now cap "(tk_allowances s, tk_by_expiry s)" k]
    by (cases "fmlookup (tk_allowances (prune_expired_allowances now cap s)) k")
      (auto simp: prune_allowances_eq)
  with None show ?thesis by (simp add: allowance_view_none)
next
  case (Some r)
  show ?thesis
  proof (cases "allowance_is_expired (al_expires_at r) now")
    case True
    then have gone: "allowance_view s k now = (0, None)"
      using Some by (simp add: allowance_view_def allowance_row_def)
    show ?thesis
    proof (cases "fmlookup (tk_allowances (prune_expired_allowances now cap s)) k")
      case None
      then show ?thesis using gone by (simp add: allowance_view_none)
    next
      case (Some r')
      then have "r' = r"
        using \<open>fmlookup (tk_allowances s) k = Some r\<close>
          allowance_store.prune_only_removes [of now cap "(tk_allowances s, tk_by_expiry s)" k]
        by (simp add: prune_allowances_eq)
      with Some \<open>fmlookup (tk_allowances s) k = Some r\<close> show ?thesis
        by (intro allowance_view_cong) simp
    qed
  next
    case False
    have "fmlookup (fst (prune_rows (allowance_upper now) cap (tk_allowances s, tk_by_expiry s))) k = Some r"
      by (rule allowance_store.prune_lookup)
        (use stores_okD(1,2) [OF assms] Some False in \<open>auto simp: allowance_is_expired_def\<close>)
    with Some show ?thesis by (intro allowance_view_cong) (simp add: prune_allowances_eq)
  qed
qed

text \<open>A successful approval sets exactly one allowance. At that instant the pair reads back the
  approved amount with an end that is later than now and at most 24 hours away (the requested end,
  defaulted or clamped), a zero approval reads as no allowance, every other pair reads as it did
  before, although expired rows have been pruned, and the caller paid the fee and nothing else.\<close>

theorem approve_effect:
  assumes "icrc2_approve sha caller now args s = Inr (s', b)" "token_inv s"
    and "\<forall>x. length (sha x) = 32" "now + 1 < u64_limit"
  shows "(\<exists>e. now < e \<and> e \<le> now + MAX_APPROVAL_TTL_NS
       \<and> e = min (case aa_expires_at args of Some x \<Rightarrow> x | None \<Rightarrow> e) e
       \<and> icrc2_allowance \<lparr> acc_owner = caller, acc_sub = aa_from_subaccount args \<rparr> (aa_spender args) now s'
          = (if aa_amount args = 0 then (0, None) else (aa_amount args, Some e)))
     \<and> (\<forall>acc sp. compound_key (encode_key acc) (encode_key sp)
             \<noteq> compound_key (approver_key caller args) (encode_key (aa_spender args))
           \<longrightarrow> icrc2_allowance acc sp now s' = icrc2_allowance acc sp now s)
     \<and> (\<forall>x. get_balance s' x + (if x = approver_key caller args then tk_fee s else 0)
          = get_balance s x + (if fee_key s = Some x then tk_fee s else 0))"
proof -
  have sha: "\<And>x. length (sha x) = 32" and now: "now < u64_limit" using assms(3,4) by simp_all
  from icrc2_approve_steps [OF assms(1,2) sha] obtain p s2 where
    check: "icrc2_approve_check sha caller now args s = Inr p"
    and fr: "funds_frame s s2"
    and bal: "\<And>x. get_balance s2 x + (if x = approver_key caller args then tk_fee s else 0)
        = get_balance s x + (if fee_key s = Some x then tk_fee s else 0)"
    and s': "s' = record_dedup now (ap_dedup_key p) b ((approve_stores p now s2)\<lparr> tk_block_height := b \<rparr>)"
    by metis
  note c = icrc2_approve_check_parts [OF check sha]
  note f = funds_frame_fields [OF fr]
  let ?k = "ap_allowance_key p" and ?e = "ap_effective_expires_at p"
  let ?row = "\<lparr> al_amount = ap_amount p, al_expires_at = Some ?e \<rparr>"
  let ?s3 = "if ap_amount p = 0 then remove_allowance ?k (ap_previous_expires_at p) s2
      else put_allowance ?k (ap_previous_expires_at p) ?row s2"
  have life: "now < ?e" "?e \<le> now + MAX_APPROVAL_TTL_NS" "?e < u64_limit"
    using effective_lifetime_bounds [OF c(7) now] assms(4) by simp_all
  have capped: "?e = min (case aa_expires_at args of Some x \<Rightarrow> x | None \<Rightarrow> ?e) ?e"
    using c(7) by (auto simp: effective_approval_lifetime_def Let_def min_def
        split: option.splits if_splits)
  have st2: "stores_ok s2" using token_invD(2) [OF assms(2)] stores_frame [OF fr] by simp
  have prev: "ap_previous_expires_at p = stamp_at al_expires_at (tk_allowances s2) ?k" using c(8) f by simp
  have st3: "stores_ok ?s3"
    using stores_remove_allowance [OF st2 prev] stores_put_allowance [OF st2 prev, of ?row, OF _ life(3)]
    by simp
  have view: "allowance_view s' k now = allowance_view ?s3 k now" for k
  proof -
    have "allowance_view s' k now = allowance_view (approve_stores p now s2) k now"
      by (rule allowance_view_cong) (simp add: s' store_frames)
    also have "\<dots> = allowance_view ?s3 k now"
      unfolding approve_stores_def run_allowance_maintenance_def by (rule allowance_view_prune [OF st3])
    finally show ?thesis .
  qed
  have own: "allowance_view ?s3 ?k now = (if aa_amount args = 0 then (0, None) else (aa_amount args, Some ?e))"
  proof (cases "ap_amount p = 0")
    case True
    then show ?thesis using c(5) by (simp add: allowance_view_none remove_allowance_def)
  next
    case False
    then show ?thesis
      using c(5) life(1)
      by (simp add: allowance_view_def allowance_row_def put_allowance_def allowance_is_expired_def
          effective_allowance_def)
  qed
  have other: "allowance_view ?s3 k now = allowance_view s k now" if "k \<noteq> ?k" for k
    by (rule allowance_view_cong) (use that f in \<open>simp add: remove_allowance_def put_allowance_def\<close>)
  have same: "get_balance s' x = get_balance s2 x" for x
    by (simp add: get_balance_def s' store_frames)
  show ?thesis
    unfolding icrc2_allowance_view view same
    using own other life capped bal c(4) by (auto simp: approver_key_def)
qed

definition ex_approve :: approve_args where
  "ex_approve = \<lparr> aa_from_subaccount = None, aa_spender = ex_account ex_pool, aa_amount = 500,
     aa_expected_allowance = Some 0, aa_expires_at = None, aa_fee = None, aa_memo = None,
     aa_created_at_time = None \<rparr>"

lemma ex_approve_check:
  "\<exists>p. icrc2_approve_check ex_sha ex_alice 10 ex_approve ex_token = Inr p"
  by (simp add: icrc2_approve_check_def ex_approve_def ex_token_def fresh_token_def check_fee_def
      to_width_def effective_approval_lifetime_def existing_allowance_def DEFAULT_FEE_def get_balance_def
      get_lock_def checked_sub_def Let_def)

theorem approve_effect_witness:
  "\<exists>s' e. icrc2_approve ex_sha ex_alice 10 ex_approve ex_token = Inr (s', 1)
     \<and> icrc2_allowance (ex_account ex_alice) (ex_account ex_pool) 10 s' = (500, Some e)"
proof -
  obtain p where "icrc2_approve_check ex_sha ex_alice 10 ex_approve ex_token = Inr p"
    using ex_approve_check by blast
  from icrc2_approve_total [OF this ex_inv ex_height(1) length_ex_sha]
  obtain s' where s': "icrc2_approve ex_sha ex_alice 10 ex_approve ex_token = Inr (s', 1)"
    by (auto simp: ex_height(2))
  show ?thesis
    using approve_effect [OF s' ex_inv] length_ex_sha s' by (auto simp: ex_approve_def ex_account_def)
qed

text \<open>A successful transfer-from spends a live allowance of the caller and nothing more. Before
  the call the (owner, caller) row existed, had not expired, and held at least amount plus fee; the
  funds move exactly as said; afterwards the row holds the rest at its old expiry, or is gone when
  nothing is left; every other row is untouched; and a receipt with the block number and the amount is
  written exactly when the caller is the bound pool.\<close>

theorem transfer_from_effect:
  assumes "icrc2_transfer_from sha self_id spender now args s = Inr (s', b)" "token_inv s"
    and "\<forall>x. length (sha x) = 32"
  shows "(\<exists>r e. fmlookup (tk_allowances s) (spent_allowance_key spender args) = Some r
       \<and> al_expires_at r = Some e \<and> now < e \<and> tf_amount args + tk_fee s \<le> al_amount r
       \<and> tk_allowances s' =
          (if al_amount r = tf_amount args + tk_fee s
           then fmdrop (spent_allowance_key spender args) (tk_allowances s)
           else fmupd (spent_allowance_key spender args)
                  \<lparr> al_amount = al_amount r - tf_amount args - tk_fee s, al_expires_at = Some e \<rparr>
                  (tk_allowances s)))
     \<and> moved s s' (encode_key (tf_from args)) (encode_key (tf_to args)) (tf_amount args) (tk_fee s)
     \<and> b = tk_block_height s + 1
     \<and> (if is_pool s spender
        then \<exists>memo h. tf_memo args = Some memo
          \<and> fmlookup (tk_receipts s) (deposit_operation_id sha memo) = None
          \<and> tk_receipts s' = fmupd (deposit_operation_id sha memo)
              (Applied b (tf_amount args) (tk_fee s) h now) (tk_receipts s)
        else tk_receipts s' = tk_receipts s)"
proof -
  have sha: "\<And>x. length (sha x) = 32" using assms(3) by simp
  from transfer_from_steps [OF assms(1,2) sha] obtain p s1 r where
    check: "icrc2_transfer_from_check sha self_id spender now args s = Inr p"
    and fr: "funds_frame (spend_allowance (fp_allowance_key p) (fp_new_allow p) (fp_expires_at p) s) s1"
    and b: "b = tk_block_height s + 1"
    and mv: "moved s s1 (encode_key (tf_from args)) (encode_key (tf_to args)) (tf_amount args) (tk_fee s)"
    and s': "s' = record_dedup now (fp_dedup_key p) b
        (write_receipt (fp_receipt p) b (fp_amount p) (tk_fee s) now s1)"
    and r: "fmlookup (tk_allowances s) (fp_allowance_key p) = Some r" "al_expires_at r = fp_expires_at p"
      "al_amount r = fp_new_allow p + (tf_amount args + tk_fee s)"
      "\<not> allowance_is_expired (fp_expires_at p) now"
    by metis
  note c = icrc2_transfer_from_check_parts [OF check sha]
  note f = funds_frame_fields [OF fr]
  obtain e where e: "fp_expires_at p = Some e"
    using stores_okD(3) [OF token_invD(2) [OF assms(2)] r(1)] r(2) by auto
  have "get_balance s' x = get_balance s1 x" for x by (simp add: get_balance_def s' store_frames)
  then have moved: "moved s s' (encode_key (tf_from args)) (encode_key (tf_to args)) (tf_amount args) (tk_fee s)"
    using mv by (simp add: moved_def)
  have rows: "tk_allowances s' =
      (if al_amount r = tf_amount args + tk_fee s then fmdrop (fp_allowance_key p) (tk_allowances s)
       else fmupd (fp_allowance_key p)
              \<lparr> al_amount = al_amount r - tf_amount args - tk_fee s, al_expires_at = Some e \<rparr>
              (tk_allowances s))"
    using r(3) e f by (simp add: s' store_frames spend_allowance_def remove_allowance_def put_allowance_def)
  note gate = pool_receipt_gate_Inr [OF c(9) sha]
  have receipts: "if is_pool s spender
        then \<exists>memo h. tf_memo args = Some memo
          \<and> fmlookup (tk_receipts s) (deposit_operation_id sha memo) = None
          \<and> tk_receipts s' = fmupd (deposit_operation_id sha memo)
              (Applied b (tf_amount args) (tk_fee s) h now) (tk_receipts s)
        else tk_receipts s' = tk_receipts s"
  proof (cases "is_pool s spender")
    case True
    then obtain memo h where memo: "tf_memo args = Some memo"
      and rec: "fp_receipt p = Some (deposit_operation_id sha memo, h)"
      using gate by (auto simp: spender_account_def)
    have "fmlookup (tk_receipts s) (deposit_operation_id sha memo) = None"
      using gate rec by (simp add: fresh_receipt_def)
    then show ?thesis
      using True memo rec f(8) c(3) by (auto simp: s' store_frames write_receipt_def)
  next
    case False
    then have "fp_receipt p = None" using gate by (cases "fp_receipt p") (auto simp: spender_account_def)
    then show ?thesis using False f(8) by (simp add: s' store_frames write_receipt_def)
  qed
  have key: "fp_allowance_key p = spent_allowance_key spender args" by (rule c(6))
  have "now < e" using r(4) e by (simp add: allowance_is_expired_def)
  then show ?thesis
    using r(1,2,3) e rows receipts moved b unfolding key by fastforce
qed

text \<open>A ledger in which Alice has approved the pool.\<close>

definition ex_key :: bytes where
  "ex_key = compound_key (main_key ex_alice) (main_key ex_pool)"

definition ex_approved :: token where
  "ex_approved = ex_token\<lparr> tk_allowances := fmupd ex_key \<lparr> al_amount = 500, al_expires_at = Some 1000 \<rparr> fmempty,
     tk_by_expiry := {| (1000, ex_key) |} \<rparr>"

lemma ex_approved_inv: "token_inv ex_approved"
proof -
  have "supply_ok ex_approved"
    using supply_ok_cong [of ex_approved ex_token] token_invD(1) [OF ex_inv] by (simp add: ex_approved_def)
  moreover have "stores_ok ex_approved"
    by (auto simp: stores_ok_def ex_approved_def ex_token_def fresh_token_def index_matches_def
        split: if_splits)
  moreover have "history_ok ex_approved"
    by (simp add: history_ok_def ex_approved_def ex_token_def fresh_token_def DEFAULT_FEE_def)
  ultimately show ?thesis by (simp add: token_inv_def)
qed

definition ex_pull :: transfer_from_args where
  "ex_pull = \<lparr> tf_spender_subaccount = None, tf_from = ex_account ex_alice, tf_to = ex_account ex_bob,
     tf_amount = 500, tf_fee = None, tf_memo = Some [4], tf_created_at_time = Some 6 \<rparr>"

lemma ex_pull_check:
  "\<exists>p. icrc2_transfer_from_check ex_sha [7] ex_pool 10 ex_pull ex_approved = Inr p"
  using ex_keys_differ
  by (simp add: icrc2_transfer_from_check_def ex_pull_def ex_approved_def ex_token_def fresh_token_def
      check_fee_def to_width_def check_window_def add_or_trap_def PERMITTED_DRIFT_NS_def
      TX_DEDUP_WINDOW_NS_def checked_total_debit_def checked_add_def check_duplicate_def plan_debit_def
      checked_sub_def checked_credit_def get_balance_def get_lock_def DEFAULT_FEE_def
      ex_account_def ex_key_def main_key_def [symmetric] TOTAL_SUPPLY_def Let_def pool_receipt_gate_def
      MAX_DEPOSIT_MEMO_LEN_def receipt_capacity_def MAX_DEPOSIT_RECEIPTS_def allowance_row_def
      effective_allowance_def allowance_is_expired_def)

lemma ex_pull_succeeds:
  "\<exists>s'. icrc2_transfer_from ex_sha [7] ex_pool 10 ex_pull ex_approved = Inr (s', 1)"
proof -
  obtain p where "icrc2_transfer_from_check ex_sha [7] ex_pool 10 ex_pull ex_approved = Inr p"
    using ex_pull_check by blast
  moreover have "tk_block_height ex_approved = 0" by (simp add: ex_approved_def ex_height(2))
  ultimately show ?thesis
    using icrc2_transfer_from_total [of ex_sha "[7]" ex_pool 10 ex_pull ex_approved] ex_approved_inv
      length_ex_sha by auto
qed

theorem transfer_from_effect_witness:
  "\<exists>s'. icrc2_transfer_from ex_sha [7] ex_pool 10 ex_pull ex_approved = Inr (s', 1)
     \<and> fmlen (tk_allowances s') = 0 \<and> tk_receipts s' \<noteq> tk_receipts ex_approved"
proof -
  obtain s' where s': "icrc2_transfer_from ex_sha [7] ex_pool 10 ex_pull ex_approved = Inr (s', 1)"
    using ex_pull_succeeds by blast
  have ex: "spent_allowance_key ex_pool ex_pull = ex_key" "tf_amount ex_pull = 500" "tk_fee ex_approved = 0"
    "tk_allowances ex_approved = fmupd ex_key \<lparr> al_amount = 500, al_expires_at = Some 1000 \<rparr> fmempty"
    "tk_receipts ex_approved = fmempty"
    by (simp_all add: spent_allowance_key_def spender_account_def ex_key_def ex_pull_def ex_account_def
        main_key_def ex_approved_def ex_token_def fresh_token_def DEFAULT_FEE_def is_pool_def)
  note eff = transfer_from_effect [OF s' ex_approved_inv, unfolded ex]
  have "tk_allowances s' = fmdrop ex_key (fmupd ex_key \<lparr> al_amount = 500, al_expires_at = Some 1000 \<rparr> fmempty)"
    using eff length_ex_sha by (auto split: if_splits)
  moreover have "fmlen (fmdrop ex_key (fmupd ex_key v fmempty)) = 0" for v :: allowance_record
    by (simp add: fmlen_def)
  moreover have "is_pool ex_approved ex_pool"
    by (simp add: is_pool_def ex_approved_def ex_token_def)
  then have "\<exists>k r. tk_receipts s' = fmupd k r fmempty" using eff length_ex_sha by auto
  then have "tk_receipts s' \<noteq> fmempty" by auto
  ultimately show ?thesis using s' ex(5) by auto
qed

section \<open>Deposit receipts\<close>

text \<open>C13: Deposit receipts are final and an operation executes at most once, ever. From the moment a
  receipt exists for an operation id (applied or cancelled), in every later state the very same receipt
  is still there, and no transfer-from by the pool that carries this operation's memo succeeds, whatever
  its fee, amount or timestamp. In particular a pool that has obtained the cancellation fence can
  never see the deposit charged afterwards.\<close>

theorem deposit_operation_final:
  assumes "token_inv s" "\<forall>x. length (sha x) = 32"
    and "fmlookup (tk_receipts s) (deposit_operation_id sha memo) = Some r"
    and "token_later sha self_id (n, s) (n2, s2)"
    and "is_pool s2 spender" "tf_memo args = Some memo"
  shows "fmlookup (tk_receipts s2) (deposit_operation_id sha memo) = Some r
     \<and> (\<forall>s3 b. icrc2_transfer_from sha self_id spender now args s2 \<noteq> Inr (s3, b))"
proof -
  have sha: "\<And>x. length (sha x) = 32" using assms(2) by simp
  have "receipts_kept s s2" using later_inv [OF assms(4) _ sha] assms(1) by simp
  then have kept: "fmlookup (tk_receipts s2) (deposit_operation_id sha memo) = Some r"
    using assms(3) by (simp add: receipts_kept_def)
  moreover have False if run: "icrc2_transfer_from sha self_id spender now args s2 = Inr (s3, b)" for s3 b
  proof -
    obtain p where check: "icrc2_transfer_from_check sha self_id spender now args s2 = Inr p"
      using run by (auto simp: icrc2_transfer_from_def result_simps)
    note gate = pool_receipt_gate_Inr [OF icrc2_transfer_from_check_parts(9) [OF check sha] sha]
    then obtain h where "fp_receipt p = Some (deposit_operation_id sha memo, h)"
      using assms(5,6) by (auto simp: spender_account_def)
    then show False using gate kept by (simp add: fresh_receipt_def)
  qed
  ultimately show ?thesis by blast
qed

definition ex_fenced :: token where
  "ex_fenced = ex_approved\<lparr> tk_receipts :=
     fmupd (deposit_operation_id ex_sha [4]) (Cancelled (replicate 32 1) 9) fmempty \<rparr>"

lemma ex_fenced_inv: "token_inv ex_fenced"
  using ex_approved_inv supply_ok_cong [of ex_fenced ex_approved] stores_ok_cong [of ex_fenced ex_approved]
  by (simp add: token_inv_def ex_fenced_def history_ok_def ex_approved_def ex_token_def fresh_token_def
      receipt_wf_def fmlen_upd MAX_DEPOSIT_RECEIPTS_def DEFAULT_FEE_def)

theorem deposit_operation_final_witness:
  "\<forall>s3 b. icrc2_transfer_from ex_sha [7] ex_pool 10 ex_pull ex_fenced \<noteq> Inr (s3, b)"
proof -
  have "fmlookup (tk_receipts ex_fenced) (deposit_operation_id ex_sha [4]) = Some (Cancelled (replicate 32 1) 9)"
    by (simp add: ex_fenced_def)
  moreover have "is_pool ex_fenced ex_pool" "tf_memo ex_pull = Some [4]"
    by (simp_all add: ex_fenced_def ex_approved_def ex_token_def is_pool_def ex_pull_def)
  ultimately show ?thesis
    using deposit_operation_final [OF ex_fenced_inv _ _ later_refl [of ex_sha "[7]" "(0, ex_fenced)"]]
      length_ex_sha by blast
qed

section \<open>Bounded lifetime\<close>

text \<open>C27: Every allowance of a reachable ledger ends: it carries an expiry at most 24 hours ahead of the
  clock and a positive amount, the expiry index is in exact bijection with the rows (the code's own
  audit predicate holds), and \<open>n\<close> ticks of the maintenance timer remove \<open>n * 1000\<close> expired rows
  or all of them, so an expired backlog drains without traffic.\<close>

theorem allowances_bounded:
  assumes "token_reach sha self_id (now, s)" "\<forall>x. length (sha x) = 32"
  shows "(\<forall>k r. fmlookup (tk_allowances s) k = Some r \<longrightarrow>
        (\<exists>e. al_expires_at r = Some e \<and> e \<le> now + MAX_APPROVAL_TTL_NS \<and> 0 < al_amount r
           \<and> (e, k) |\<in>| tk_by_expiry s))
     \<and> allowance_index_consistent s
     \<and> fcard (dead_rows (\<lambda>now e. now \<ge> e) later
          (tk_by_expiry ((prune_expired_allowances later MAX_ALLOWANCE_PRUNE_PER_TIMER_TICK ^^ n) s)))
        = fcard (dead_rows (\<lambda>now e. now \<ge> e) later (tk_by_expiry s)) - n * 1000"
proof -
  have inv: "token_inv s" and aged: "rows_aged now s" using reach_inv [OF assms(1)] assms(2) by simp_all
  note st = stores_okD [OF token_invD(2) [OF inv]]
  have iff: "(e, k) |\<in>| tk_by_expiry s \<longleftrightarrow> stamp_at al_expires_at (tk_allowances s) k = Some e" for e k
    using st(1) by (simp add: index_matches_iff)
  have rows: "\<exists>e. al_expires_at r = Some e \<and> e \<le> now + MAX_APPROVAL_TTL_NS \<and> 0 < al_amount r
           \<and> (e, k) |\<in>| tk_by_expiry s" if "fmlookup (tk_allowances s) k = Some r" for k r
    using st(3) [OF that] aged that iff by (auto simp: rows_aged_def stamp_at_def)
  have card: "fcard (tk_by_expiry s)
       = length (filter (\<lambda>k. stamp_at al_expires_at (tk_allowances s) k \<noteq> None) (fmkeys (tk_allowances s)))"
  proof -
    let ?ks = "filter (\<lambda>k. stamp_at al_expires_at (tk_allowances s) k \<noteq> None) (fmkeys (tk_allowances s))"
    have dom: "stamp_at al_expires_at (tk_allowances s) k = Some e \<Longrightarrow> k |\<in>| fmdom (tk_allowances s)" for k e
      by (auto simp: stamp_at_Some intro: fmdomI)
    have "snd ` fset (tk_by_expiry s) = {k. \<exists>e. (e, k) |\<in>| tk_by_expiry s}"
      by (auto simp: image_iff) (metis snd_conv)
    also have "\<dots> = set ?ks" using dom by (auto simp: iff)
    finally have "snd ` fset (tk_by_expiry s) = set ?ks" .
    moreover have "inj_on snd (fset (tk_by_expiry s))"
      by (rule inj_onI) (auto simp: iff)
    ultimately have "card (fset (tk_by_expiry s)) = card (set ?ks)" by (metis card_image)
    also have "card (set ?ks) = length ?ks" by (rule distinct_card) simp
    finally show ?thesis by (simp only: fcard.rep_eq)
  qed
  have audit: "allowance_index_consistent s"
    using card by (auto simp: allowance_index_consistent_def iff split: option.splits)
  have pow: "((prune_expired_allowances later cap ^^ n) s)
      = s\<lparr> tk_allowances := fst ((prune_rows (allowance_upper later) cap ^^ n) (tk_allowances s, tk_by_expiry s)),
          tk_by_expiry := snd ((prune_rows (allowance_upper later) cap ^^ n) (tk_allowances s, tk_by_expiry s)) \<rparr>"
    for cap by (induction n) (simp_all add: prune_allowances_eq)
  have "\<forall>x. x |\<in>| snd (tk_allowances s, tk_by_expiry s) \<longrightarrow> fst x < u64_limit"
    using st(2) by (metis prod.collapse snd_conv)
  from allowance_store.prunes_drain [OF this, of later n MAX_ALLOWANCE_PRUNE_PER_TIMER_TICK]
  have "fcard (dead_rows (\<lambda>now e. now \<ge> e) later
          (tk_by_expiry ((prune_expired_allowances later MAX_ALLOWANCE_PRUNE_PER_TIMER_TICK ^^ n) s)))
        = fcard (dead_rows (\<lambda>now e. now \<ge> e) later (tk_by_expiry s)) - n * 1000"
    unfolding pow by (simp add: MAX_ALLOWANCE_PRUNE_PER_TIMER_TICK_def)
  then show ?thesis using rows audit by blast
qed

theorem allowances_bounded_witness:
  "\<exists>s' k r e. token_reach ex_sha [7] (10, s') \<and> fmlookup (tk_allowances s') k = Some r
     \<and> al_expires_at r = Some e \<and> e \<le> 10 + MAX_APPROVAL_TTL_NS \<and> (e, k) |\<in>| tk_by_expiry s'
     \<and> allowance_index_consistent s'"
proof -
  obtain s' where s': "icrc2_approve ex_sha ex_alice 10 ex_approve ex_token = Inr (s', 1)"
    using ex_approve_check icrc2_approve_total [OF _ ex_inv ex_height(1) length_ex_sha] by (fastforce simp: ex_height(2))
  have step: "token_step ex_sha [7] (5, ex_token) (10, s')"
    by (rule step_approve [OF _ _ s']) simp_all
  have reach: "token_reach ex_sha [7] (10, s')"
    by (rule token_reach.intros(2) [OF ex_reach step])
  obtain e where "icrc2_allowance (ex_account ex_alice) (ex_account ex_pool) 10 s' = (500, Some e)"
    using approve_effect [OF s' ex_inv] length_ex_sha by (auto simp: ex_approve_def ex_account_def)
  then obtain k r where row: "fmlookup (tk_allowances s') k = Some r"
    unfolding icrc2_allowance_view allowance_view_def allowance_row_def
    by (auto simp: effective_allowance_def allowance_is_expired_def Let_def split: option.splits if_splits)
  from allowances_bounded [OF reach] length_ex_sha row show ?thesis using reach by blast
qed

section \<open>Upgrade\<close>

text \<open>C28: An upgrade of a reachable ledger changes nothing but the checkpoint cell, although the heap
  (totals, height, fee, authorities) is rebuilt from it; it succeeds whenever the treasury and the
  staking canister are bound; and the stale-checkpoint refusal is free of false positives.\<close>

theorem token_upgrade_preserves:
  assumes "token_reach sha self_id (now, s)" "\<forall>x. length (sha x) = 32"
  shows "(\<exists>cp. upgrade_token later s =
      (if tk_treasury s \<noteq> None \<and> tk_staking s \<noteq> None then Inr (s\<lparr> tk_checkpoint := Some cp \<rparr>) else Inl Trap))
     \<and> \<not> checkpoint_rollback_detected (observed_durable_block_index s) (tk_block_height s)"
proof -
  have inv: "token_inv s" using reach_inv [OF assms(1)] assms(2) by simp
  have quiet: "\<not> checkpoint_rollback_detected (observed_durable_block_index s) (tk_block_height s)"
    using observed_durable_block_index_le [of s "tk_block_height s"] history_okD(3) [OF token_invD(3) [OF inv]]
    by (auto simp: checkpoint_rollback_detected_def not_less split: option.splits)
  show ?thesis
  proof (cases "tk_treasury s \<noteq> None \<and> tk_staking s \<noteq> None")
    case True
    then show ?thesis using upgrade_token_eq [OF token_invD(3) [OF inv]] quiet by auto
  next
    case False
    then have "upgrade_token later s = Inl Trap"
      by (auto simp: upgrade_token_def pre_upgrade_def split: option.splits)
    with False quiet show ?thesis by simp
  qed
qed

theorem token_upgrade_preserves_witness:
  "\<exists>cp. upgrade_token 20 ex_token = Inr (ex_token\<lparr> tk_checkpoint := Some cp \<rparr>)"
proof -
  have "tk_treasury ex_token \<noteq> None \<and> tk_staking ex_token \<noteq> None" by (simp add: ex_token_def)
  then show ?thesis
    using token_upgrade_preserves [OF ex_reach, of 20] length_ex_sha by simp
qed

text \<open>What a completed upgrade rules out, for every version; whatever is refused is a trap.\<close>

lemma post_upgrade_Inl: "post_upgrade now s = Inl e \<Longrightarrow> e = Trap"
  by (auto simp: post_upgrade_def bind_res_def migrate_dedup_index_v1_to_v2_def seed_totals_state_def
      restore_from_checkpoint_def Let_def split: option.splits if_splits sum.splits)

lemma post_upgrade_Inr:
  assumes "post_upgrade now s = Inr s'" "tk_checkpoint s = Some cp"
  shows "ts_state_version cp \<in> {1, 2, STATE_VERSION}"
    "ts_state_version cp = STATE_VERSION \<Longrightarrow> ts_sum_balances cp \<noteq> None \<and> ts_sum_staking_locks cp \<noteq> None"
    "\<not> checkpoint_rollback_detected (observed_durable_block_index
        (if ts_state_version cp = 1 then backfill_dedup_index now s else s)) (ts_block_height cp)"
proof -
  let ?m = "if ts_state_version cp = 1 then backfill_dedup_index now s else s"
  show v: "ts_state_version cp \<in> {1, 2, STATE_VERSION}"
    using assms by (auto simp: post_upgrade_def split: if_splits)
  show "ts_sum_balances cp \<noteq> None \<and> ts_sum_staking_locks cp \<noteq> None" if "ts_state_version cp = STATE_VERSION"
    using assms that by (auto simp: post_upgrade_def restore_from_checkpoint_def split: option.splits)
  have "(if ts_state_version cp = STATE_VERSION then Inr s
        else if ts_state_version cp = 2 then Inr s
        else if ts_state_version cp = 1 then migrate_dedup_index_v1_to_v2 now s
        else Inl Trap) \<in> {Inl Trap, Inr ?m}"
    by (auto simp: STATE_VERSION_def migrate_dedup_index_v1_to_v2_def)
  then obtain st s2 where rest: "restore_from_checkpoint st ?m = Inr s2"
    "\<not> checkpoint_rollback_detected (observed_durable_block_index s2) (ts_block_height cp)"
    using assms by (auto simp: post_upgrade_def bind_res_Inr split: if_splits)
  have "observed_durable_block_index s2 = observed_durable_block_index ?m"
    using rest(1) by (intro observed_cong) (auto simp: restore_from_checkpoint_def split: option.splits)
  then show "\<not> checkpoint_rollback_detected (observed_durable_block_index ?m) (ts_block_height cp)"
    using rest(2) by simp
qed

lemma stale_detected:
  assumes "k \<in> set (take ROLLBACK_PROBE_ENTRIES (rev (sorted_list_of_fset (tk_dedup_by_time s))))"
    and "fmlookup (tk_dedup s) (snd k) = Some v" "height < decode_dedup_block_index v"
  shows "checkpoint_rollback_detected (observed_durable_block_index s) height"
proof -
  let ?bs = "map decode_dedup_block_index (List.map_filter (fmlookup (tk_dedup s))
      (map snd (take ROLLBACK_PROBE_ENTRIES (rev (sorted_list_of_fset (tk_dedup_by_time s))))))"
  have "decode_dedup_block_index v \<in> set ?bs"
    using assms by (force simp: List.map_filter_def)
  then have "?bs \<noteq> []" "decode_dedup_block_index v \<le> Max (set ?bs)" by auto
  then show ?thesis
    using assms(3) by (simp add: observed_durable_block_index_def checkpoint_rollback_detected_def Let_def)
qed

text \<open>C29: \<^verbatim>\<open>post_upgrade\<close> fails closed. It traps without a checkpoint, on an unknown version, on a
  version 3 checkpoint that misses a total, and, for each of the three versions, on a checkpoint whose
  block height lies below a block witnessed by one of the newest deduplication rows (for version 1, of
  the rows and the time index the migration leaves), whatever else the stable maps hold.\<close>

theorem bad_checkpoint_refused:
  assumes "case tk_checkpoint s of None \<Rightarrow> True
    | Some cp \<Rightarrow> ts_state_version cp \<notin> {1, 2, STATE_VERSION}
        \<or> ts_state_version cp = STATE_VERSION \<and> (ts_sum_balances cp = None \<or> ts_sum_staking_locks cp = None)
        \<or> (let m = (if ts_state_version cp = 1 then backfill_dedup_index now s else s) in
           \<exists>k v. k \<in> set (take ROLLBACK_PROBE_ENTRIES (rev (sorted_list_of_fset (tk_dedup_by_time m))))
             \<and> fmlookup (tk_dedup m) (snd k) = Some v
             \<and> ts_block_height cp < decode_dedup_block_index v)"
  shows "post_upgrade now s = Inl Trap"
proof (cases "post_upgrade now s")
  case (Inl e)
  then show ?thesis using post_upgrade_Inl by simp
next
  case (Inr s')
  then obtain cp where cp: "tk_checkpoint s = Some cp" by (auto simp: post_upgrade_def split: option.splits)
  note good = post_upgrade_Inr [OF Inr cp]
  from assms good(1,2) obtain k v where
    "k \<in> set (take ROLLBACK_PROBE_ENTRIES (rev (sorted_list_of_fset
        (tk_dedup_by_time (if ts_state_version cp = 1 then backfill_dedup_index now s else s)))))"
    "fmlookup (tk_dedup (if ts_state_version cp = 1 then backfill_dedup_index now s else s)) (snd k) = Some v"
    "ts_block_height cp < decode_dedup_block_index v"
    unfolding cp Let_def by auto
  from stale_detected [OF this] good(3) show ?thesis by blast
qed

text \<open>A ledger before its upgrade: one lock, a deduplication row that has expired by \<open>ex_upgrade_time\<close> and
  one, of block 20, that has not; without a time index when its checkpoint has version 1.\<close>

definition ex_upgrade_time :: nat where "ex_upgrade_time = TX_DEDUP_WINDOW_NS + 25"

definition ex_stored :: "nat \<Rightarrow> nat \<Rightarrow> token" where
  "ex_stored version height = (heap_reset ex_token)\<lparr> tk_checkpoint := Some \<lparr> ts_state_version = version,
       ts_block_height = height, ts_transfer_fee = 0, ts_fee_reserve = 0, ts_mint_done = True,
       ts_treasury = [9], ts_staking_canister = [8], ts_fee_collector = None,
       ts_sum_balances = Some TOTAL_SUPPLY, ts_sum_staking_locks = Some 7, ts_pool_canister = None \<rparr>,
     tk_locks := fmupd [5] 7 fmempty,
     tk_dedup := fmupd [1] (encode_dedup_value 20 30) (fmupd [2] (encode_dedup_value 19 10) fmempty),
     tk_dedup_by_time := (if version = 1 then {||} else {|(30, [1]), (10, [2])|}) \<rparr>"

lemma ex_stored_simps:
  "tk_checkpoint (ex_stored v h) \<noteq> None" "ts_state_version (the (tk_checkpoint (ex_stored v h))) = v"
  "ts_block_height (the (tk_checkpoint (ex_stored v h))) = h"
  "tk_dedup (ex_stored v h) = fmupd [1] (encode_dedup_value 20 30) (fmupd [2] (encode_dedup_value 19 10) fmempty)"
  "tk_dedup_by_time (ex_stored v h) = (if v = 1 then {||} else {|(30, [1]), (10, [2])|})"
  "tk_balances (ex_stored v h) = fmupd (main_key ex_alice) TOTAL_SUPPLY fmempty"
  "tk_locks (ex_stored v h) = fmupd [5] 7 fmempty"
  by (simp_all add: ex_stored_def heap_reset_def ex_token_def fresh_token_def)

lemma ex_migrated:
  "fmlookup (tk_dedup (backfill_dedup_index ex_upgrade_time (ex_stored 1 h))) k
     = (if k = [1] then Some (encode_dedup_value 20 30) else None)"
  "tk_dedup_by_time (backfill_dedup_index ex_upgrade_time (ex_stored 1 h)) = {|(30, [1])|}"
proof -
  have "tk_dedup_by_time (ex_stored 1 h) = {||}" by (simp add: ex_stored_simps)
  note B = backfill_dedup_index_exact [OF this, of ex_upgrade_time]
  have st: "dedup_created_at (encode_dedup_value 20 30) = 30" "dedup_created_at (encode_dedup_value 19 10) = 10"
    by (simp_all add: dedup_value_parts)
  show L: "fmlookup (tk_dedup (backfill_dedup_index ex_upgrade_time (ex_stored 1 h))) k
     = (if k = [1] then Some (encode_dedup_value 20 30) else None)" for k
    unfolding B(2) by (simp add: ex_stored_simps ex_upgrade_time_def st del: One_nat_def)
  have "x |\<in>| tk_dedup_by_time (backfill_dedup_index ex_upgrade_time (ex_stored 1 h)) \<longleftrightarrow> x = (30, [1])" for x
    using B(1) by (cases x) (auto simp: index_matches_def L dedup_stamp_def st ex_stored_simps simp del: One_nat_def)
  then show "tk_dedup_by_time (backfill_dedup_index ex_upgrade_time (ex_stored 1 h)) = {|(30, [1])|}"
    by (intro fset_eqI) simp
qed

text \<open>The hypothesis of the theorem at these ledgers, whose recorded height 10 is stale.\<close>

lemma ex_stored_stale:
  assumes "v \<in> {1, 2, STATE_VERSION}"
  shows "case tk_checkpoint (ex_stored v 10) of None \<Rightarrow> True
    | Some cp \<Rightarrow> ts_state_version cp \<notin> {1, 2, STATE_VERSION}
        \<or> ts_state_version cp = STATE_VERSION \<and> (ts_sum_balances cp = None \<or> ts_sum_staking_locks cp = None)
        \<or> (let m = (if ts_state_version cp = 1 then backfill_dedup_index ex_upgrade_time (ex_stored v 10)
                    else ex_stored v 10) in
           \<exists>k v. k \<in> set (take ROLLBACK_PROBE_ENTRIES (rev (sorted_list_of_fset (tk_dedup_by_time m))))
             \<and> fmlookup (tk_dedup m) (snd k) = Some v
             \<and> ts_block_height cp < decode_dedup_block_index v)"
proof -
  let ?m = "if v = 1 then backfill_dedup_index ex_upgrade_time (ex_stored v 10) else ex_stored v 10"
  let ?row = "encode_dedup_value 20 30"
  obtain cp where cp: "tk_checkpoint (ex_stored v 10) = Some cp" "ts_state_version cp = v" "ts_block_height cp = 10"
    using ex_stored_simps(1-3) [of v 10] by auto
  have "(30, [1]) |\<in>| tk_dedup_by_time ?m" "fcard (tk_dedup_by_time ?m) \<le> 2" "fmlookup (tk_dedup ?m) [1] = Some ?row"
    by (simp_all add: ex_stored_simps ex_migrated fcard.rep_eq card_insert_if del: One_nat_def)
  then have "(30, [1]) \<in> set (take ROLLBACK_PROBE_ENTRIES (rev (sorted_list_of_fset (tk_dedup_by_time ?m))))"
    by (simp add: ROLLBACK_PROBE_ENTRIES_def sorted_list_of_fset.rep_eq fcard.rep_eq)
  moreover have "ts_block_height cp < decode_dedup_block_index ?row" by (simp add: cp dedup_value_parts)
  ultimately show ?thesis
    using \<open>fmlookup (tk_dedup ?m) [1] = Some ?row\<close> unfolding cp(1) option.case Let_def cp(2)
    by (intro disjI2 exI [of _ "(30, [1])"] exI [of _ ?row]) simp
qed

theorem bad_checkpoint_refused_witness:
  "post_upgrade ex_upgrade_time (ex_stored 1 10) = Inl Trap
   \<and> post_upgrade ex_upgrade_time (ex_stored 2 10) = Inl Trap
   \<and> post_upgrade ex_upgrade_time (ex_stored STATE_VERSION 10) = Inl Trap"
  by (intro conjI bad_checkpoint_refused ex_stored_stale) simp_all

text \<open>C30: The one-shot migration of a version 1 ledger is exact: it builds the missing time index as a
  bijection with the surviving deduplication rows, drops exactly the rows whose window has passed,
  seeds both running totals with the folds of the maps, leaves every balance and lock alone, and only
  completes within its two entry limits, one on the deduplication rows and one on the balance and lock
  rows together.\<close>

theorem migration_v1_exact:
  assumes "post_upgrade now s = Inr s'" "tk_checkpoint s = Some cp" "ts_state_version cp = 1"
    and "tk_dedup_by_time s = {||}"
  shows "index_matches dedup_stamp (tk_dedup s') (tk_dedup_by_time s')
     \<and> (\<forall>k. fmlookup (tk_dedup s') k =
          (case fmlookup (tk_dedup s) k of
             Some v \<Rightarrow> if dedup_created_at v < now - TX_DEDUP_WINDOW_NS then None else Some v
           | None \<Rightarrow> None))
     \<and> tk_sum_balances s' = fmtotal (tk_balances s) \<and> tk_sum_locks s' = fmtotal (tk_locks s)
     \<and> tk_balances s' = tk_balances s \<and> tk_locks s' = tk_locks s
     \<and> tk_block_height s' = ts_block_height cp \<and> tk_pool s' = ts_pool_canister cp
     \<and> fmlen (tk_dedup s) \<le> MAX_MIGRATION_ENTRIES
     \<and> fmlen (tk_balances s) + fmlen (tk_locks s) \<le> MAX_MIGRATION_ENTRIES"
proof -
  let ?b = "backfill_dedup_index now s"
  have not_current: "ts_state_version cp \<noteq> STATE_VERSION" "ts_state_version cp \<noteq> 2"
    using assms(3) by (simp_all add: STATE_VERSION_def)
  have same: "tk_balances ?b = tk_balances s" "tk_locks ?b = tk_locks s"
    by (subst backfill_dedup_index_exact(3) [OF assms(4)], simp)+
  obtain st where size: "fmlen (tk_dedup s) \<le> MAX_MIGRATION_ENTRIES"
    and seed: "seed_totals_state cp ?b = Inr st"
    and rest: "bind_res (restore_from_checkpoint st ?b) (\<lambda>s2.
         if checkpoint_rollback_detected (observed_durable_block_index s2) (ts_block_height cp)
         then Inl Trap
         else
           Inr (s2\<lparr> tk_block_height := ts_block_height cp, tk_fee := ts_transfer_fee cp,
                    tk_fee_reserve := ts_fee_reserve cp, tk_mint_done := ts_mint_done cp,
                    tk_treasury := Some (ts_treasury cp),
                    tk_fee_collector := ts_fee_collector cp, tk_pool := ts_pool_canister cp,
                    tk_staking := Some (ts_staking_canister cp) \<rparr>)) = Inr s'"
    using assms(1-3) not_current
    by (auto simp: post_upgrade_def migrate_dedup_index_v1_to_v2_def bind_res_Inr split: if_splits)
  have st: "ts_sum_balances st = Some (fmtotal (tk_balances s))"
    "ts_sum_staking_locks st = Some (fmtotal (tk_locks s))"
    using seed same
    by (auto simp: seed_totals_state_def checked_sum_Some sum_row_values Let_def split: if_splits option.splits)
  have "sat_add 64 (fmlen (tk_balances s)) (fmlen (tk_locks s)) \<le> MAX_MIGRATION_ENTRIES"
    using seed by (simp add: seed_totals_state_def same Let_def split: if_splits)
  then have rows: "fmlen (tk_balances s) + fmlen (tk_locks s) \<le> MAX_MIGRATION_ENTRIES"
    by (simp add: sat_add_def MAX_MIGRATION_ENTRIES_def min_def split: if_splits)
  have s': "s' = ?b\<lparr> tk_sum_balances := fmtotal (tk_balances s), tk_sum_locks := fmtotal (tk_locks s),
      tk_block_height := ts_block_height cp, tk_fee := ts_transfer_fee cp,
      tk_fee_reserve := ts_fee_reserve cp, tk_mint_done := ts_mint_done cp,
      tk_treasury := Some (ts_treasury cp), tk_fee_collector := ts_fee_collector cp,
      tk_pool := ts_pool_canister cp, tk_staking := Some (ts_staking_canister cp) \<rparr>"
    using rest st by (auto simp: restore_from_checkpoint_def split: if_splits)
  show ?thesis
    using backfill_dedup_index_exact(1,2) [OF assms(4), of now] same size rows unfolding s' by simp
qed

lemma ex_stored_upgrades: "\<exists>s'. post_upgrade ex_upgrade_time (ex_stored 1 20) = Inr s'"
proof -
  let ?s = "ex_stored 1 20" and ?b = "backfill_dedup_index ex_upgrade_time (ex_stored 1 20)"
  have maps: "tk_balances ?b = fmupd (main_key ex_alice) TOTAL_SUPPLY fmempty" "tk_locks ?b = fmupd [5] 7 fmempty"
    by (subst backfill_dedup_index_exact(3), simp add: ex_stored_simps, simp add: ex_stored_simps)+
  have "fmtotal (tk_balances ?b) = TOTAL_SUPPLY" "fmtotal (tk_locks ?b) = 7"
    using fmtotal_upd [of "main_key ex_alice" TOTAL_SUPPLY fmempty] fmtotal_upd [of "[5]" 7 "fmempty :: (bytes, nat) fmap"]
    by (simp_all add: maps del: One_nat_def)
  then have sums: "checked_sum (row_values (tk_balances ?b)) = Some TOTAL_SUPPLY"
    "checked_sum (row_values (tk_locks ?b)) = Some 7"
    unfolding checked_sum_Some sum_row_values using TOTAL_SUPPLY_small by simp_all
  have len: "fmlen (tk_balances ?b) = 1" "fmlen (tk_locks ?b) = 1" "fmlen (tk_dedup ?s) \<le> 2"
    by (simp_all add: maps ex_stored_simps fmlen_upd del: One_nat_def)
  have "observed_durable_block_index (?b\<lparr> tk_sum_balances := TOTAL_SUPPLY, tk_sum_locks := 7 \<rparr>) = Some 20"
    by (simp add: observed_durable_block_index_def ex_migrated ROLLBACK_PROBE_ENTRIES_def sorted_list_of_fset.rep_eq
        List.map_filter_simps dedup_value_parts del: One_nat_def)
  then show ?thesis
    using sums len ex_stored_simps(1-3) [of 1 20]
    by (auto simp: post_upgrade_def migrate_dedup_index_v1_to_v2_def seed_totals_state_def Let_def
        restore_from_checkpoint_def checkpoint_rollback_detected_def STATE_VERSION_def
        MAX_MIGRATION_ENTRIES_def sat_add_def simp del: One_nat_def)
qed

theorem migration_v1_exact_witness:
  "\<exists>s'. post_upgrade ex_upgrade_time (ex_stored 1 20) = Inr s'
     \<and> fmlookup (tk_dedup s') [1] = Some (encode_dedup_value 20 30) \<and> fmlookup (tk_dedup s') [2] = None
     \<and> (30, [1]) |\<in>| tk_dedup_by_time s' \<and> tk_sum_balances s' = TOTAL_SUPPLY \<and> tk_sum_locks s' = 7"
proof -
  obtain s' where s': "post_upgrade ex_upgrade_time (ex_stored 1 20) = Inr s'" using ex_stored_upgrades by blast
  obtain cp where cp: "tk_checkpoint (ex_stored 1 20) = Some cp" "ts_state_version cp = 1"
    using ex_stored_simps(1,2) [of 1 20] by auto
  have "tk_dedup_by_time (ex_stored 1 20) = {||}" by (simp add: ex_stored_simps)
  note M = migration_v1_exact [OF s' cp this]
  have st: "dedup_created_at (encode_dedup_value 20 30) = 30" "dedup_created_at (encode_dedup_value 19 10) = 10"
    by (simp_all add: dedup_value_parts)
  have rows: "fmlookup (tk_dedup s') [1] = Some (encode_dedup_value 20 30)" "fmlookup (tk_dedup s') [2] = None"
    using M by (simp_all add: ex_stored_simps ex_upgrade_time_def st del: One_nat_def)
  moreover have "(30, [1]) |\<in>| tk_dedup_by_time s'"
    using M rows by (simp add: index_matches_def dedup_stamp_def st)
  moreover have "fmtotal (tk_balances (ex_stored 1 20)) = TOTAL_SUPPLY" "fmtotal (tk_locks (ex_stored 1 20)) = 7"
    using fmtotal_upd [of "main_key ex_alice" TOTAL_SUPPLY fmempty] fmtotal_upd [of "[5]" 7 "fmempty :: (bytes, nat) fmap"]
    by (simp_all add: ex_stored_simps)
  ultimately show ?thesis using M s' by auto
qed

section \<open>Genesis\<close>

text \<open>Genesis mints the manifest exactly. \<^verbatim>\<open>init\<close> succeeds on a fresh canister precisely when
  the allocations pass validation (they sum to TOTAL_SUPPLY without overflow, none is unnamed or
  zero, no id repeats); then every account holds the sum of its own allocations, authorities are bound
  as given, nothing else exists, and a second genesis is refused.\<close>

theorem genesis_exact:
  "(case init_token now args fresh_token of
      Inl e \<Rightarrow> e = Trap \<and> validate_init_allocations (ia_allocations args) \<noteq> Inr ()
    | Inr s \<Rightarrow> validate_init_allocations (ia_allocations args) = Inr ()
        \<and> (\<forall>k. get_balance s k =
             sum_list (map ac_amount (filter (\<lambda>a. allocation_key a = k) (ia_allocations args))))
        \<and> fmtotal (tk_balances s) = TOTAL_SUPPLY \<and> tk_fee_reserve s = 0 \<and> tk_fee s = DEFAULT_FEE
        \<and> tk_pool s = ia_pool_canister args \<and> tk_staking s = Some (ia_staking_canister args)
        \<and> tk_treasury s = Some (ia_treasury args) \<and> tk_allowances s = fmempty \<and> tk_receipts s = fmempty
        \<and> init_token later args' s = Inl Trap)"
proof (cases "init_token now args fresh_token")
  case (Inl e)
  have "validate_init_allocations (ia_allocations args) \<noteq> Inr ()"
    using init_token_total [of args now] Inl by auto
  moreover have "e = Trap"
  proof (cases "validate_init_allocations (ia_allocations args)")
    case (Inr u)
    with calculation show ?thesis by simp
  qed (use Inl in \<open>simp add: init_token_def fresh_token_def\<close>)
  ultimately show ?thesis using Inl by simp
next
  case (Inr s)
  have "validate_init_allocations (ia_allocations args) = Inr ()"
    using Inr by (auto simp: init_token_def fresh_token_def split: sum.splits)
  moreover note i = init_token_Inr [OF Inr]
  moreover have "fmtotal (tk_balances s) = TOTAL_SUPPLY"
    using i by (simp add: token_inv_def supply_ok_def totals_ok_def)
  moreover have "init_token later args' s = Inl Trap" using i by (simp add: init_token_def)
  ultimately show ?thesis using Inr by simp
qed

end
