(* ===== verification/Icrc_Ledger.thy ===== *)
theory Icrc_Ledger
  imports Prelude
begin

text \<open>
  The ICRC-1 transfer interface as the client canisters declare it: the arguments they send, the errors
  the ledger may answer, and what an inter-canister call of \<^verbatim>\<open>icrc1_transfer\<close> can come back with, where
  \<open>CallRejected\<close> is a transport failure that says nothing about whether the ledger executed the transfer.
\<close>

record icrc_account =
  ic_owner :: principal
  ic_subaccount :: "bytes option"

record icrc_transfer_args =
  it_from_subaccount :: "bytes option"
  it_to :: icrc_account
  it_amount :: nat
  it_fee :: "nat option"
  it_memo :: "bytes option"
  it_created_at_time :: "nat option"

datatype icrc_transfer_error =
    BadFee nat | BadBurn nat | InsufficientFunds nat | TooOld | CreatedInFuture nat
  | Duplicate nat | TemporarilyUnavailable | GenericError nat string

datatype transfer_reply = TransferOk nat | TransferErr icrc_transfer_error | CallRejected

end
