(* ===== verification/Vesting.thy ===== *)
theory Vesting
  imports Eager_Cell Icrc_Ledger
begin

text \<open>
  The canister \<^verbatim>\<open>canisters/vesting\<close>: cliff and linear schedules, claims that pay through an
  inter-canister \<^verbatim>\<open>icrc1_transfer\<close>, and what happens when the outcome of that call is lost. A
  claim is two message segments, so it is two definitions: \<open>claim_start\<close> runs up to the await and
  yields the outgoing call, \<open>claim_resume\<close> runs on its reply. A marker per beneficiary witnesses
  an unresolved claim; a tombstone per operation records how it ended and is never removed. The stable
  maps are finite maps keyed by principal bytes; Candid row codecs are modelled by the values they store.
\<close>

section \<open>Data\<close>

record transfer_outcome_marker =
  tm_unknown :: bool
  tm_pending_amount :: "nat option"
  tm_claim_seq :: "nat option"
  tm_created_at_time_ns :: "nat option"

datatype claim_resolution = Executed | Reverted

record terminal_claim_tombstone =
  tc_claim_seq :: "nat option"
  tc_amount :: "nat option"
  tc_created_at_time_ns :: "nat option"
  tc_resolution :: claim_resolution
  tc_recorded_at_ns :: nat

definition NS_PER_MONTH :: nat where "NS_PER_MONTH = 30 * 24 * 60 * 60 * 1000000000"
definition MAX_SCHEDULE_MONTHS :: nat where "MAX_SCHEDULE_MONTHS = 480"

record vesting_schedule =
  vs_beneficiary :: principal
  vs_total_amount :: nat
  vs_cliff_end_ns :: nat
  vs_vesting_end_ns :: nat
  vs_claimed :: nat
  vs_start_ns :: nat

record new_schedule =
  ns_beneficiary :: principal
  ns_total_amount :: nat
  ns_cliff_months :: nat
  ns_linear_months :: nat

record vesting_init_args =
  vi_token_canister :: principal
  vi_controller :: principal
  vi_schedules :: "new_schedule list"

record vesting_upgrade_arg =
  vu_rebind_controller :: "principal option"

datatype claim_decision = DecideExecuted | DecideNotExecuted

datatype claim_marker_state = InFlight | Stuck

record outstanding_claim_marker =
  om_beneficiary :: principal
  om_state :: claim_marker_state
  om_pending_amount :: "nat option"
  om_claim_seq :: "nat option"
  om_created_at_time_ns :: "nat option"

text \<open>The error strings of the source, one constructor per message.\<close>

datatype vesting_error =
    ZeroAmount principal | ZeroDuration principal | TooManyMonths principal nat nat
  | DuplicateBeneficiary principal
  | CliffMonthsOverflow nat | LinearMonthsOverflow nat | CliffEndOverflow | VestingEndOverflow
  | RefsUninitialised
  | TransferOutcomeUnknown | NothingClaimable | ClaimedOverflow
  | TransferRejected icrc_transfer_error | TransferCallFailed
  | ControllerNotConfigured | OnlyController | NoVestingSchedule | NotStuck | LegacyWithoutAmount

text \<open>The durable maps and the eager cell, then the two heap mirrors of the cell.\<close>

record vesting =
  vt_schedules :: "(bytes, vesting_schedule) fmap"
  vt_markers :: "(bytes, transfer_outcome_marker) fmap"
  vt_tombstones :: "(bytes, terminal_claim_tombstone) fmap"
  vt_refs :: principal_refs
  vt_token :: "principal option"
  vt_controller :: "principal option"

definition fresh_vesting :: vesting where
  "fresh_vesting = \<lparr> vt_schedules = fmempty, vt_markers = fmempty, vt_tombstones = fmempty,
     vt_refs = None, vt_token = None, vt_controller = None \<rparr>"

section \<open>Keys and schedules\<close>

text \<open>\<^verbatim>\<open>Principal::from_slice\<close> panics on more than 29 bytes.\<close>

definition principal_from_slice :: "bytes \<Rightarrow> ('e, principal) res" where
  "principal_from_slice bs = (if length bs \<le> PRINCIPAL_MAX_LEN then Inr bs else Inl Trap)"

definition anonymous_principal :: principal where
  "anonymous_principal = [4]"

definition principal_key :: "principal \<Rightarrow> bytes" where
  "principal_key p = p"

definition tombstone_key :: "principal \<Rightarrow> nat \<Rightarrow> bytes" where
  "tombstone_key beneficiary claim_seq =
     of_nat (length beneficiary) # beneficiary @ be_bytes 8 claim_seq"

definition CLAIM_MEMO_DOMAIN :: bytes where
  "CLAIM_MEMO_DOMAIN =
     [83, 84, 83, 72, 45, 86, 69, 83, 84, 73, 78, 71, 45, 67, 76, 65, 73, 77, 0]"

definition claim_memo :: "principal \<Rightarrow> nat \<Rightarrow> bytes" where
  "claim_memo beneficiary claim_seq =
     CLAIM_MEMO_DOMAIN @ of_nat (length beneficiary) # beneficiary @ be_bytes 8 claim_seq"

definition claimable_at :: "vesting_schedule \<Rightarrow> nat \<Rightarrow> nat" where
  "claimable_at sch now_ns =
    (if now_ns < vs_cliff_end_ns sch then 0
     else
       let linear_duration = vs_vesting_end_ns sch - vs_cliff_end_ns sch;
           elapsed = min (now_ns - vs_cliff_end_ns sch) linear_duration;
           vested = (if linear_duration = 0 then vs_total_amount sch
                     else sat_mul 128 (vs_total_amount sch) elapsed div linear_duration)
       in vested - vs_claimed sch)"

section \<open>Markers and tombstones\<close>

definition transfer_outcome_unknown :: "bytes \<Rightarrow> vesting \<Rightarrow> bool" where
  "transfer_outcome_unknown key s =
    (case fmlookup (vt_markers s) key of None \<Rightarrow> False | Some m \<Rightarrow> tm_unknown m)"

definition next_claim_seq :: "principal \<Rightarrow> vesting \<Rightarrow> nat" where
  "next_claim_seq beneficiary s =
    (let lo = tombstone_key beneficiary 0; hi = tombstone_key beneficiary (u64_limit - 1) in
     length (filter (\<lambda>k. lo \<le> k \<and> k < hi) (fmkeys (vt_tombstones s))))"

definition resolve_marker_with_tombstone ::
  "bytes \<Rightarrow> transfer_outcome_marker \<Rightarrow> claim_resolution \<Rightarrow> nat \<Rightarrow> vesting \<Rightarrow> ('e, vesting) res" where
  "resolve_marker_with_tombstone key marker resolution recorded_at_ns s =
    bind_res (principal_from_slice key) (\<lambda>beneficiary.
    let seq = (case tm_claim_seq marker of Some n \<Rightarrow> n | None \<Rightarrow> next_claim_seq beneficiary s);
        tkey = tombstone_key beneficiary seq;
        tombstones =
          (if fmlookup (vt_tombstones s) tkey = None
           then fmupd tkey
             \<lparr> tc_claim_seq = tm_claim_seq marker, tc_amount = tm_pending_amount marker,
               tc_created_at_time_ns = tm_created_at_time_ns marker,
               tc_resolution = resolution, tc_recorded_at_ns = recorded_at_ns \<rparr>
             (vt_tombstones s)
           else vt_tombstones s)
    in Inr (s\<lparr> vt_tombstones := tombstones, vt_markers := fmdrop key (vt_markers s) \<rparr>))"

definition sweep_inflight_markers_on_upgrade :: "vesting \<Rightarrow> vesting" where
  "sweep_inflight_markers_on_upgrade s =
    (let stale = filter (\<lambda>k. \<not> transfer_outcome_unknown k s) (fmkeys (vt_markers s)) in
     s\<lparr> vt_markers := foldl (\<lambda>m key. case fmlookup (vt_markers s) key of
             None \<Rightarrow> m
           | Some marker \<Rightarrow> fmupd key (marker\<lparr> tm_unknown := True \<rparr>) m)
         (vt_markers s) stale \<rparr>)"

definition marker_blocks_claim :: "bytes \<Rightarrow> vesting \<Rightarrow> bool" where
  "marker_blocks_claim key s = (fmlookup (vt_markers s) key \<noteq> None)"

definition revert_claimed :: "bytes \<Rightarrow> nat \<Rightarrow> vesting \<Rightarrow> vesting" where
  "revert_claimed key amount s =
    (case fmlookup (vt_schedules s) key of
       None \<Rightarrow> s
     | Some sch \<Rightarrow>
         s\<lparr> vt_schedules := fmupd key (sch\<lparr> vs_claimed := vs_claimed sch - amount \<rparr>) (vt_schedules s) \<rparr>)"

section \<open>Installation\<close>

fun validate_init_from :: "principal list \<Rightarrow> new_schedule list \<Rightarrow> (vesting_error, unit) res" where
  "validate_init_from seen [] = Inr ()"
| "validate_init_from seen (s # ss) =
    (if ns_total_amount s = 0 then fail (ZeroAmount (ns_beneficiary s))
     else if ns_cliff_months s = 0 \<and> ns_linear_months s = 0 then
       fail (ZeroDuration (ns_beneficiary s))
     else if ns_cliff_months s + ns_linear_months s > MAX_SCHEDULE_MONTHS then
       fail (TooManyMonths (ns_beneficiary s) (ns_cliff_months s) (ns_linear_months s))
     else if ns_beneficiary s \<in> set seen then fail (DuplicateBeneficiary (ns_beneficiary s))
     else validate_init_from (ns_beneficiary s # seen) ss)"

definition validate_init_schedules :: "new_schedule list \<Rightarrow> (vesting_error, unit) res" where
  "validate_init_schedules schedules = validate_init_from [] schedules"

definition build_schedule :: "nat \<Rightarrow> new_schedule \<Rightarrow> (vesting_error, vesting_schedule) res" where
  "build_schedule now_ns s =
    bind_res (ok_or (CliffMonthsOverflow (ns_cliff_months s))
      (checked_mul 64 (ns_cliff_months s) NS_PER_MONTH)) (\<lambda>cliff_ns.
    bind_res (ok_or (LinearMonthsOverflow (ns_linear_months s))
      (checked_mul 64 (ns_linear_months s) NS_PER_MONTH)) (\<lambda>linear_ns.
    bind_res (ok_or CliffEndOverflow (checked_add 64 now_ns cliff_ns)) (\<lambda>cliff_end_ns.
    bind_res (ok_or VestingEndOverflow (checked_add 64 cliff_end_ns linear_ns)) (\<lambda>vesting_end_ns.
    Inr \<lparr> vs_beneficiary = ns_beneficiary s, vs_total_amount = ns_total_amount s,
      vs_cliff_end_ns = cliff_end_ns, vs_vesting_end_ns = vesting_end_ns,
      vs_claimed = 0, vs_start_ns = now_ns \<rparr>))))"

definition set_canister_refs :: "principal \<Rightarrow> principal \<Rightarrow> vesting \<Rightarrow> vesting" where
  "set_canister_refs token_canister controller s =
     s\<lparr> vt_refs := Some [token_canister, controller], vt_token := Some token_canister,
       vt_controller := Some controller \<rparr>"

definition or_trap :: "('e, 'a) res \<Rightarrow> ('f, 'a) res" where
  "or_trap r = (case r of Inl _ \<Rightarrow> Inl Trap | Inr x \<Rightarrow> Inr x)"

fun insert_schedules :: "nat \<Rightarrow> new_schedule list \<Rightarrow> vesting \<Rightarrow> (vesting_error, vesting) res" where
  "insert_schedules now [] s = Inr s"
| "insert_schedules now (n # ns) s =
    bind_res (or_trap (build_schedule now n)) (\<lambda>v.
    insert_schedules now ns
      (s\<lparr> vt_schedules := fmupd (principal_key (ns_beneficiary n)) v (vt_schedules s) \<rparr>))"

definition init_vesting :: "nat \<Rightarrow> vesting_init_args \<Rightarrow> (vesting_error, vesting) res" where
  "init_vesting now args =
    (let s = set_canister_refs (vi_token_canister args) (vi_controller args) fresh_vesting in
     bind_res (or_trap (validate_init_schedules (vi_schedules args))) (\<lambda>_.
     insert_schedules now (vi_schedules args) s))"

section \<open>Queries\<close>

definition claimable_amount :: "nat \<Rightarrow> principal \<Rightarrow> vesting \<Rightarrow> nat" where
  "claimable_amount now beneficiary s =
    (let key = principal_key beneficiary in
     if transfer_outcome_unknown key s then 0
     else case fmlookup (vt_schedules s) key of
         Some sch \<Rightarrow> claimable_at sch now
       | None \<Rightarrow> 0)"

definition get_schedule :: "principal \<Rightarrow> vesting \<Rightarrow> vesting_schedule option" where
  "get_schedule beneficiary s = fmlookup (vt_schedules s) (principal_key beneficiary)"

definition list_schedules :: "vesting \<Rightarrow> vesting_schedule list" where
  "list_schedules s = List.map_filter (fmlookup (vt_schedules s)) (fmkeys (vt_schedules s))"

definition refs_readback_from :: "principal_refs \<Rightarrow> (vesting_error, principal \<times> principal) res" where
  "refs_readback_from stored =
    (case stored of
       Some [token_canister, controller] \<Rightarrow> Inr (token_canister, controller)
     | _ \<Rightarrow> fail RefsUninitialised)"

definition get_canister_refs_readback :: "vesting \<Rightarrow> (vesting_error, principal \<times> principal) res" where
  "get_canister_refs_readback s = refs_readback_from (vt_refs s)"

definition outstanding_row :: "bytes \<Rightarrow> transfer_outcome_marker \<Rightarrow> ('e, outstanding_claim_marker) res" where
  "outstanding_row key marker =
    bind_res (principal_from_slice key) (\<lambda>p.
    Inr \<lparr> om_beneficiary = p, om_state = (if tm_unknown marker then Stuck else InFlight),
      om_pending_amount = tm_pending_amount marker, om_claim_seq = tm_claim_seq marker,
      om_created_at_time_ns = tm_created_at_time_ns marker \<rparr>)"

fun outstanding_rows ::
  "(bytes \<times> transfer_outcome_marker) list \<Rightarrow> ('e, outstanding_claim_marker list) res" where
  "outstanding_rows [] = Inr []"
| "outstanding_rows ((key, marker) # rows) =
    bind_res (outstanding_row key marker) (\<lambda>r.
    bind_res (outstanding_rows rows) (\<lambda>rs. Inr (r # rs)))"

definition list_outstanding_claim_markers :: "vesting \<Rightarrow> ('e, outstanding_claim_marker list) res" where
  "list_outstanding_claim_markers s =
     outstanding_rows (List.map_filter
       (\<lambda>key. map_option (\<lambda>m. (key, m)) (fmlookup (vt_markers s) key)) (fmkeys (vt_markers s)))"

section \<open>Claims\<close>

text \<open>What a suspended claim keeps across the await: its key, the frozen marker, the amount, and the
  call it is waiting for.\<close>

record claim_call =
  cc_key :: bytes
  cc_marker :: transfer_outcome_marker
  cc_claimable :: nat
  cc_callee :: principal
  cc_args :: icrc_transfer_args

definition claimable_now :: "bytes \<Rightarrow> nat \<Rightarrow> vesting \<Rightarrow> nat" where
  "claimable_now key now s =
    (case fmlookup (vt_schedules s) key of Some sch \<Rightarrow> claimable_at sch now | None \<Rightarrow> 0)"

definition pre_increment :: "bytes \<Rightarrow> nat \<Rightarrow> vesting \<Rightarrow> (vesting_error, vesting) res" where
  "pre_increment key claimable s =
    (case fmlookup (vt_schedules s) key of
       None \<Rightarrow> Inr s
     | Some sch \<Rightarrow>
         bind_res (ok_or ClaimedOverflow (checked_add 128 (vs_claimed sch) claimable)) (\<lambda>c.
         Inr (s\<lparr> vt_schedules := fmupd key (sch\<lparr> vs_claimed := c \<rparr>) (vt_schedules s) \<rparr>)))"

definition claim_start ::
  "nat \<Rightarrow> principal \<Rightarrow> vesting \<Rightarrow> (vesting_error, vesting \<times> claim_call) res" where
  "claim_start now caller s =
    (let beneficiary = caller; key = principal_key beneficiary in
     if marker_blocks_claim key s then fail TransferOutcomeUnknown
     else
       let claimable = claimable_now key now s in
       if claimable = 0 then fail NothingClaimable
       else
         bind_res (pre_increment key claimable s) (\<lambda>s1.
         let claim_seq = next_claim_seq beneficiary s1;
             op_marker = \<lparr> tm_unknown = False, tm_pending_amount = Some claimable,
               tm_claim_seq = Some claim_seq, tm_created_at_time_ns = Some now \<rparr>;
             s2 = s1\<lparr> vt_markers := fmupd key op_marker (vt_markers s1) \<rparr>
         in case vt_token s2 of
              None \<Rightarrow> Inl Trap
            | Some token \<Rightarrow>
                Inr (s2, \<lparr> cc_key = key, cc_marker = op_marker, cc_claimable = claimable,
                  cc_callee = token,
                  cc_args = \<lparr> it_from_subaccount = None,
                    it_to = \<lparr> ic_owner = beneficiary, ic_subaccount = None \<rparr>,
                    it_amount = claimable, it_fee = None,
                    it_memo = Some (claim_memo beneficiary claim_seq),
                    it_created_at_time = Some now \<rparr> \<rparr>)))"

text \<open>The callback commits its writes in every case; the inner result is what the claimant sees. A
  trap rolls the callback back.\<close>

definition claim_resume ::
  "nat \<Rightarrow> claim_call \<Rightarrow> transfer_reply \<Rightarrow> vesting \<Rightarrow> (vesting_error, vesting \<times> (vesting_error + nat)) res"
  where
  "claim_resume now c reply s =
    (case reply of
       TransferOk block \<Rightarrow>
         bind_res (resolve_marker_with_tombstone (cc_key c) (cc_marker c) Executed now s) (\<lambda>s'.
         Inr (s', Inr (cc_claimable c)))
     | TransferErr (Duplicate n) \<Rightarrow>
         bind_res (resolve_marker_with_tombstone (cc_key c) (cc_marker c) Executed now s) (\<lambda>s'.
         Inr (s', Inr (cc_claimable c)))
     | TransferErr e \<Rightarrow>
         bind_res (resolve_marker_with_tombstone (cc_key c) (cc_marker c) Reverted now
           (revert_claimed (cc_key c) (cc_claimable c) s)) (\<lambda>s'.
         Inr (s', Inl (TransferRejected e)))
     | CallRejected \<Rightarrow>
         Inr (s\<lparr> vt_markers := fmupd (cc_key c) ((cc_marker c)\<lparr> tm_unknown := True \<rparr>) (vt_markers s) \<rparr>,
           Inl TransferCallFailed))"

definition stuck_marker :: "bytes \<Rightarrow> vesting \<Rightarrow> transfer_outcome_marker option" where
  "stuck_marker key s =
    (case fmlookup (vt_markers s) key of
       Some m \<Rightarrow> if tm_unknown m then Some m else None
     | None \<Rightarrow> None)"

definition reconcile_claim ::
  "nat \<Rightarrow> principal \<Rightarrow> principal \<Rightarrow> claim_decision \<Rightarrow> vesting \<Rightarrow> (vesting_error, vesting) res" where
  "reconcile_claim now caller beneficiary decision s =
    bind_res (ok_or ControllerNotConfigured (vt_controller s)) (\<lambda>controller.
    if caller \<noteq> controller then fail OnlyController
    else
      let key = principal_key beneficiary in
      if fmlookup (vt_schedules s) key = None then fail NoVestingSchedule
      else bind_res (ok_or NotStuck (stuck_marker key s)) (\<lambda>marker.
        case decision of
          DecideExecuted \<Rightarrow> resolve_marker_with_tombstone key marker Executed now s
        | DecideNotExecuted \<Rightarrow>
            bind_res (ok_or LegacyWithoutAmount (tm_pending_amount marker)) (\<lambda>amount.
            resolve_marker_with_tombstone key marker Reverted now (revert_claimed key amount s))))"

section \<open>Upgrade\<close>

text \<open>The upgrade argument arrives as raw Candid bytes; \<open>decode\<close> is the Candid decoder of
  \<^verbatim>\<open>(opt VestingUpgradeArg)\<close>, \<open>self\<close> the canister's own id and \<open>is_controller\<close> the system's
  controller test.\<close>

definition rebind_controller ::
  "principal \<Rightarrow> (principal \<Rightarrow> bool) \<Rightarrow> principal \<Rightarrow> principal \<Rightarrow> vesting \<Rightarrow> (vesting_error, vesting) res"
  where
  "rebind_controller self is_controller token_canister new_controller s =
    (if new_controller = anonymous_principal \<or> new_controller = self
        \<or> new_controller = token_canister \<or> \<not> is_controller new_controller
     then Inl Trap
     else Inr (set_canister_refs token_canister new_controller s))"

definition post_upgrade_vesting ::
  "(bytes \<Rightarrow> vesting_upgrade_arg option option) \<Rightarrow> principal \<Rightarrow> (principal \<Rightarrow> bool) \<Rightarrow> bytes
     \<Rightarrow> vesting \<Rightarrow> (vesting_error, vesting) res" where
  "post_upgrade_vesting decode self is_controller raw s =
    (case vt_refs s of
       Some [token_canister, controller] \<Rightarrow>
         bind_res
           (let s1 = s\<lparr> vt_token := Some token_canister, vt_controller := Some controller \<rparr> in
            if raw = [] then Inr s1
            else case decode raw of
                None \<Rightarrow> Inl Trap
              | Some None \<Rightarrow> Inr s1
              | Some (Some arg) \<Rightarrow>
                  (case vu_rebind_controller arg of
                     None \<Rightarrow> Inr s1
                   | Some p \<Rightarrow> rebind_controller self is_controller token_canister p s1))
           (\<lambda>s2. Inr (sweep_inflight_markers_on_upgrade s2))
     | _ \<Rightarrow> Inl Trap)"

end
