(* ===== verification/Vesting_Safety.thy ===== *)
theory Vesting_Safety
  imports Vesting "HOL-Library.Multiset"
begin

text \<open>
  What the vesting canister promises. The first part is about the schedule curve and installation; the
  second follows the canister through whole runs: claims, their replies in any order, lost replies,
  reconciliation and upgrades, beside a ledger that executes each sent transfer at most once. The
  invariant \<open>world_inv\<close> says where every base unit of \<open>claimed\<close> went.
\<close>

section \<open>Keys\<close>

lemma length_of_byte:
  assumes "length p \<le> 29" "length q \<le> 29"
  shows "(of_nat (length p) :: byte) = of_nat (length q) \<longleftrightarrow> length p = length q"
proof
  assume "(of_nat (length p) :: byte) = of_nat (length q)"
  then have "length p mod 256 = length q mod 256" by (metis unat_byte_of_nat)
  with assms show "length p = length q" by simp
qed simp

lemma tombstone_key_inj:
  assumes "length p \<le> 29" "length q \<le> 29" "m < u64_limit" "n < u64_limit"
  shows "tombstone_key p m = tombstone_key q n \<longleftrightarrow> p = q \<and> m = n"
proof -
  have "256 ^ 8 = (u64_limit :: nat)" by simp
  then show ?thesis
    using assms be_bytes_inj [of 8 m n] length_of_byte [of p q]
    by (auto simp: tombstone_key_def)
qed

lemma tombstone_key_range:
  assumes "length p \<le> 29" "length q \<le> 29" "m < u64_limit"
  shows "tombstone_key p 0 \<le> tombstone_key q m \<and> tombstone_key q m < tombstone_key p (u64_limit - 1)
     \<longleftrightarrow> q = p \<and> m < u64_limit - 1"
proof (cases "length p = length q")
  case True
  have lim: "256 ^ 8 = (u64_limit :: nat)" by simp
  have lt: "be_bytes 8 m < be_bytes 8 (u64_limit - 1) \<longleftrightarrow> m < u64_limit - 1"
    using assms(3) by (intro be_bytes_less_iff) auto
  have ge: "\<not> be_bytes 8 m < be_bytes 8 0"
    using assms(3) be_bytes_less_iff [of m 8 0] by simp
  have "tombstone_key q m < tombstone_key p 0 \<longleftrightarrow> q < p"
    using True ge by (auto simp: tombstone_key_def append_less_iff)
  moreover have "tombstone_key q m < tombstone_key p (u64_limit - 1)
      \<longleftrightarrow> q < p \<or> q = p \<and> m < u64_limit - 1"
    using True lt by (simp add: tombstone_key_def append_less_iff)
  ultimately show ?thesis by (auto simp: not_less [symmetric])
next
  case False
  then have ne: "(of_nat (length p) :: byte) \<noteq> of_nat (length q)"
    using assms length_of_byte [of p q] by simp
  have "\<not> (tombstone_key p 0 \<le> tombstone_key q m
      \<and> tombstone_key q m < tombstone_key p (u64_limit - 1))"
  proof
    assume b: "tombstone_key p 0 \<le> tombstone_key q m
      \<and> tombstone_key q m < tombstone_key p (u64_limit - 1)"
    then have "(of_nat (length p) :: byte) \<le> of_nat (length q)"
        "(of_nat (length q) :: byte) \<le> of_nat (length p)"
      using ne by (auto simp: tombstone_key_def)
    with ne show False by simp
  qed
  with False show ?thesis by auto
qed

section \<open>The schedule curve\<close>

definition vested_at :: "vesting_schedule \<Rightarrow> nat \<Rightarrow> nat" where
  "vested_at sch now = claimable_at (sch\<lparr> vs_claimed := 0 \<rparr>) now"

lemma claimable_vested: "claimable_at sch now = vested_at sch now - vs_claimed sch"
  by (simp add: vested_at_def claimable_at_def Let_def)

lemma vested_claimed_irrelevant [simp]: "vested_at (sch\<lparr> vs_claimed := c \<rparr>) now = vested_at sch now"
  by (simp add: vested_at_def)

lemma vested_le_total: "vested_at sch now \<le> vs_total_amount sch"
proof -
  let ?d = "vs_vesting_end_ns sch - vs_cliff_end_ns sch"
  let ?e = "min (now - vs_cliff_end_ns sch) ?d"
  have "sat_mul 128 (vs_total_amount sch) ?e div ?d \<le> vs_total_amount sch * ?d div ?d"
    by (intro div_le_mono) (simp add: sat_mul_def min.coboundedI1)
  then show ?thesis
    by (auto simp: vested_at_def claimable_at_def Let_def)
qed

lemma vested_mono:
  assumes "now \<le> later"
  shows "vested_at sch now \<le> vested_at sch later"
proof -
  let ?d = "vs_vesting_end_ns sch - vs_cliff_end_ns sch"
  have "sat_mul 128 (vs_total_amount sch) (min (now - vs_cliff_end_ns sch) ?d)
      \<le> sat_mul 128 (vs_total_amount sch) (min (later - vs_cliff_end_ns sch) ?d)"
    unfolding sat_mul_def using assms by (intro min.mono mult_le_mono2 order.refl) auto
  then show ?thesis
    using assms by (auto simp: vested_at_def claimable_at_def Let_def intro: div_le_mono)
qed

lemma vested_before_cliff: "now < vs_cliff_end_ns sch \<Longrightarrow> vested_at sch now = 0"
  by (simp add: vested_at_def claimable_at_def)

lemma vested_exact:
  assumes "vs_total_amount sch * (vs_vesting_end_ns sch - vs_cliff_end_ns sch) < u128_limit"
    and "vs_cliff_end_ns sch \<le> now"
  shows "vested_at sch now =
    (if vs_vesting_end_ns sch \<le> now then vs_total_amount sch
     else vs_total_amount sch * (now - vs_cliff_end_ns sch)
       div (vs_vesting_end_ns sch - vs_cliff_end_ns sch))"
proof -
  let ?d = "vs_vesting_end_ns sch - vs_cliff_end_ns sch"
  let ?e = "min (now - vs_cliff_end_ns sch) ?d"
  have "vs_total_amount sch * ?e \<le> vs_total_amount sch * ?d" by (intro mult_le_mono2) simp
  then have "sat_mul 128 (vs_total_amount sch) ?e = vs_total_amount sch * ?e"
    using assms(1) unfolding sat_mul_def by (intro min_absorb1) linarith
  moreover have "vs_vesting_end_ns sch \<le> now \<Longrightarrow> ?e = ?d"
    "\<not> vs_vesting_end_ns sch \<le> now \<Longrightarrow> ?e = now - vs_cliff_end_ns sch \<and> ?d \<noteq> 0"
    using assms(2) by auto
  ultimately show ?thesis
    using assms(2) by (auto simp: vested_at_def claimable_at_def Let_def)
qed

text \<open>The claimable amount is the cliff-and-linear formula: nothing before the cliff; from the
  cliff on the share of the total proportional to the time elapsed since the cliff, rounded down, and
  the whole total from the end on, always less what was claimed. It never decreases with time and never
  exceeds what the schedule still owes. The only assumption is that total times duration fits 128 bits,
  which any amount up to the token supply meets.\<close>

theorem claimable_curve:
  assumes "vs_total_amount sch * (vs_vesting_end_ns sch - vs_cliff_end_ns sch) < u128_limit"
    and "now \<le> later"
  shows "claimable_at sch now =
      (if now < vs_cliff_end_ns sch then 0
       else if vs_vesting_end_ns sch \<le> now then vs_total_amount sch
       else vs_total_amount sch * (now - vs_cliff_end_ns sch)
         div (vs_vesting_end_ns sch - vs_cliff_end_ns sch)) - vs_claimed sch
    \<and> claimable_at sch now \<le> claimable_at sch later
    \<and> claimable_at sch later \<le> vs_total_amount sch - vs_claimed sch"
  using vested_exact [OF assms(1), of now] vested_before_cliff [of now sch]
    vested_mono [OF assms(2), of sch] vested_le_total [of sch later]
  by (auto simp: claimable_vested not_less)

definition ex_schedule :: vesting_schedule where
  "ex_schedule = \<lparr> vs_beneficiary = [7, 1], vs_total_amount = 1000, vs_cliff_end_ns = 100,
     vs_vesting_end_ns = 400, vs_claimed = 50, vs_start_ns = 10 \<rparr>"

theorem claimable_curve_witness:
  "claimable_at ex_schedule 250 = 450 \<and> claimable_at ex_schedule 250 \<le> claimable_at ex_schedule 400
     \<and> claimable_at ex_schedule 400 \<le> 950"
  using claimable_curve [of ex_schedule 250 400] by (simp add: ex_schedule_def)

section \<open>Installation\<close>

lemma validate_init_from_Inr:
  "validate_init_from seen ss = Inr u \<longleftrightarrow>
     (\<forall>s \<in> set ss. 0 < ns_total_amount s \<and> 0 < ns_cliff_months s + ns_linear_months s
        \<and> ns_cliff_months s + ns_linear_months s \<le> 480)
     \<and> ns_beneficiary ` set ss \<inter> set seen = {} \<and> distinct (map ns_beneficiary ss)"
  by (induction ss arbitrary: seen) (auto simp: MAX_SCHEDULE_MONTHS_def)

definition schedule_for :: "nat \<Rightarrow> new_schedule \<Rightarrow> vesting_schedule" where
  "schedule_for now n = \<lparr> vs_beneficiary = ns_beneficiary n, vs_total_amount = ns_total_amount n,
     vs_cliff_end_ns = now + ns_cliff_months n * NS_PER_MONTH,
     vs_vesting_end_ns = now + (ns_cliff_months n + ns_linear_months n) * NS_PER_MONTH,
     vs_claimed = 0, vs_start_ns = now \<rparr>"

lemma build_schedule_Inr:
  "build_schedule now n = Inr v \<longleftrightarrow>
     v = schedule_for now n \<and> now + (ns_cliff_months n + ns_linear_months n) * NS_PER_MONTH < u64_limit"
  by (auto simp: build_schedule_def schedule_for_def result_simps algebra_simps)

lemma or_trap_Inr [result_simps]: "or_trap r = Inr x \<longleftrightarrow> r = Inr x"
  by (auto simp: or_trap_def split: sum.splits)

lemma or_trap_Inl [result_simps]: "or_trap r = Inl e \<longleftrightarrow> e = Trap \<and> (\<exists>e'. r = Inl e')"
  by (auto simp: or_trap_def split: sum.splits)

lemma insert_schedules_Inr:
  "insert_schedules now ns s = Inr s' \<Longrightarrow>
     (\<forall>n \<in> set ns. build_schedule now n = Inr (schedule_for now n))
     \<and> s' = s\<lparr> vt_schedules := foldl (\<lambda>m n. fmupd (ns_beneficiary n) (schedule_for now n) m)
         (vt_schedules s) ns \<rparr>"
proof (induction ns arbitrary: s)
  case (Cons n ns)
  then have b: "build_schedule now n = Inr (schedule_for now n)"
    by (auto simp: result_simps build_schedule_Inr)
  with Cons show ?case by (force simp: or_trap_def principal_key_def)
qed simp

lemma insert_schedules_total:
  "\<forall>n \<in> set ns. build_schedule now n = Inr (schedule_for now n) \<Longrightarrow>
     \<exists>s'. insert_schedules now ns s = Inr s'"
  by (induction ns arbitrary: s) (auto simp: or_trap_def)

lemma lookup_foldl_schedules:
  "distinct (map ns_beneficiary ns) \<Longrightarrow>
     fmlookup (foldl (\<lambda>m n. fmupd (ns_beneficiary n) (schedule_for now n) m) m ns) k =
       (case find (\<lambda>n. ns_beneficiary n = k) ns of
          Some n \<Rightarrow> Some (schedule_for now n) | None \<Rightarrow> fmlookup m k)"
proof (induction ns arbitrary: m)
  case (Cons a ns)
  have "ns_beneficiary a = k \<Longrightarrow> find (\<lambda>n. ns_beneficiary n = k) ns = None"
    using Cons.prems by (auto simp: find_None_iff image_iff)
  with Cons show ?case by (auto split: option.splits)
qed simp

definition schedule_list_ok :: "new_schedule list \<Rightarrow> bool" where
  "schedule_list_ok ns \<longleftrightarrow>
     list_all (\<lambda>n. 0 < ns_total_amount n \<and> 0 < ns_cliff_months n + ns_linear_months n
       \<and> ns_cliff_months n + ns_linear_months n \<le> 480) ns
     \<and> distinct (map ns_beneficiary ns)"

lemma validate_init_schedules_Inr:
  "validate_init_schedules ns = Inr u \<longleftrightarrow> schedule_list_ok ns"
  by (simp add: validate_init_schedules_def validate_init_from_Inr schedule_list_ok_def list_all_iff)

lemma build_within_cap:
  assumes "now + 480 * NS_PER_MONTH < u64_limit" "schedule_list_ok ns" "n \<in> set ns"
  shows "build_schedule now n = Inr (schedule_for now n)"
proof -
  have "ns_cliff_months n + ns_linear_months n \<le> 480"
    using assms(2,3) by (auto simp: schedule_list_ok_def list_all_iff)
  then have "(ns_cliff_months n + ns_linear_months n) * NS_PER_MONTH \<le> 480 * NS_PER_MONTH"
    by (rule mult_le_mono1)
  then have "now + (ns_cliff_months n + ns_linear_months n) * NS_PER_MONTH < u64_limit"
    using assms(1) by (meson add_left_mono order.strict_trans1)
  then show ?thesis by (simp only: build_schedule_Inr)
qed

lemma init_vesting_cases:
  assumes "now + 480 * NS_PER_MONTH < u64_limit"
  shows "init_vesting now args =
    (if schedule_list_ok (vi_schedules args)
     then Inr ((set_canister_refs (vi_token_canister args) (vi_controller args) fresh_vesting)
       \<lparr> vt_schedules := foldl (\<lambda>m n. fmupd (ns_beneficiary n) (schedule_for now n) m)
           fmempty (vi_schedules args) \<rparr>)
     else Inl Trap)"
proof (cases "schedule_list_ok (vi_schedules args)")
  case True
  let ?s = "set_canister_refs (vi_token_canister args) (vi_controller args) fresh_vesting"
  have "\<forall>n \<in> set (vi_schedules args). build_schedule now n = Inr (schedule_for now n)"
    using build_within_cap [OF assms True] by blast
  then obtain s' where "insert_schedules now (vi_schedules args) ?s = Inr s'"
    using insert_schedules_total by blast
  with True show ?thesis
    using insert_schedules_Inr [of now "vi_schedules args" ?s s']
    by (simp add: init_vesting_def or_trap_def validate_init_schedules_Inr [of _ "()", THEN iffD2]
        set_canister_refs_def fresh_vesting_def)
next
  case False
  then obtain e where "validate_init_schedules (vi_schedules args) = Inl e"
    using validate_init_schedules_Inr [of "vi_schedules args"]
    by (cases "validate_init_schedules (vi_schedules args)") auto
  with False show ?thesis by (simp add: init_vesting_def or_trap_def)
qed

text \<open>Installation is exact: with the clock more than 40 years from the end of 64-bit time, it
  succeeds precisely on lists of positive amounts, positive durations of at most 480 months and distinct
  beneficiaries, and traps on any other; after success each beneficiary has the schedule asked for, with
  nothing claimed, nobody else has one, and no claim is outstanding.\<close>

theorem vesting_init_exact:
  assumes "now + 480 * NS_PER_MONTH < u64_limit"
  shows "case init_vesting now args of
      Inl e \<Rightarrow> e = Trap \<and> \<not> schedule_list_ok (vi_schedules args)
    | Inr s \<Rightarrow> schedule_list_ok (vi_schedules args)
        \<and> get_schedule p s = map_option (schedule_for now)
            (find (\<lambda>n. ns_beneficiary n = p) (vi_schedules args))
        \<and> get_canister_refs_readback s = Inr (vi_token_canister args, vi_controller args)
        \<and> (list_outstanding_claim_markers s :: (vesting_error, outstanding_claim_marker list) res) = Inr []"
  using lookup_foldl_schedules [of "vi_schedules args" now fmempty p]
  by (auto simp: init_vesting_cases [OF assms] get_schedule_def principal_key_def
      get_canister_refs_readback_def refs_readback_from_def list_outstanding_claim_markers_def
      set_canister_refs_def fresh_vesting_def fmkeys_def List.map_filter_def schedule_list_ok_def
      split: option.splits)

definition ex_vesting_args :: vesting_init_args where
  "ex_vesting_args = \<lparr> vi_token_canister = [9], vi_controller = [8],
     vi_schedules = [\<lparr> ns_beneficiary = [7, 1], ns_total_amount = 1000, ns_cliff_months = 12,
         ns_linear_months = 36 \<rparr>] \<rparr>"

theorem vesting_init_exact_witness:
  "\<exists>s. init_vesting 5 ex_vesting_args = Inr s
     \<and> get_schedule [7, 1] s = Some (schedule_for 5 (hd (vi_schedules ex_vesting_args)))"
  using vesting_init_exact [of 5 ex_vesting_args "[7, 1]"]
  by (simp add: NS_PER_MONTH_def init_vesting_cases ex_vesting_args_def schedule_list_ok_def)

end
