(* ===== verification/Vesting_Runs.thy ===== *)
theory Vesting_Runs
  imports Vesting_Safety
begin

text \<open>
  Runs of the vesting canister beside the ledger it pays through. A world is the canister, the clock,
  the claims suspended at their await, the transfers sent but not yet executed, and the transfers the
  ledger executed. The ledger executes a sent transfer at most once, at any time; it may also never
  execute it. A reply may be lost, or may come after an upgrade has dropped the callback. What the model
  asks of the outside is only this: a definite rejection, and a controller's verdict that a transfer did
  not execute, are true and stay true.
\<close>

section \<open>Worlds and steps\<close>

record vesting_world =
  vw_state :: vesting
  vw_now :: nat
  vw_awaiting :: "claim_call list"
  vw_sent :: "claim_call list"
  vw_paid :: "claim_call list"
  vw_issued :: nat

definition cc_id :: "claim_call \<Rightarrow> bytes \<times> nat option" where
  "cc_id c = (cc_key c, tm_claim_seq (cc_marker c))"

definition alive :: "vesting_world \<Rightarrow> (bytes \<times> nat option) set" where
  "alive w = cc_id ` set (vw_sent w @ vw_paid w)"

definition reply_true :: "vesting_world \<Rightarrow> claim_call \<Rightarrow> transfer_reply \<Rightarrow> bool" where
  "reply_true w c reply \<longleftrightarrow>
     (case reply of
        TransferErr (Duplicate n) \<Rightarrow> True
      | TransferErr e \<Rightarrow> cc_id c \<notin> alive w
      | _ \<Rightarrow> True)"

definition verdict_true :: "vesting_world \<Rightarrow> bytes \<Rightarrow> claim_decision \<Rightarrow> bool" where
  "verdict_true w key d \<longleftrightarrow>
     (case (d, fmlookup (vt_markers (vw_state w)) key) of
        (DecideNotExecuted, Some m) \<Rightarrow> (key, tm_claim_seq m) \<notin> alive w
      | _ \<Rightarrow> True)"

inductive vesting_step :: "vesting_world \<Rightarrow> vesting_world \<Rightarrow> bool" where
  vs_time: "vw_now w \<le> t \<Longrightarrow> vesting_step w (w\<lparr> vw_now := t \<rparr>)"
| vs_claim: "length caller \<le> 29 \<Longrightarrow> claim_start (vw_now w) caller (vw_state w) = Inr (s', c) \<Longrightarrow>
    vesting_step w (w\<lparr> vw_state := s', vw_awaiting := c # vw_awaiting w, vw_sent := c # vw_sent w,
      vw_issued := Suc (vw_issued w) \<rparr>)"
| vs_execute: "c \<in> set (vw_sent w) \<Longrightarrow>
    vesting_step w (w\<lparr> vw_sent := remove1 c (vw_sent w), vw_paid := c # vw_paid w \<rparr>)"
| vs_drop: "c \<in> set (vw_sent w) \<Longrightarrow> vesting_step w (w\<lparr> vw_sent := remove1 c (vw_sent w) \<rparr>)"
| vs_reply: "c \<in> set (vw_awaiting w) \<Longrightarrow> reply_true w c reply \<Longrightarrow>
    claim_resume (vw_now w) c reply (vw_state w) = Inr (s', r) \<Longrightarrow>
    vesting_step w (w\<lparr> vw_state := s', vw_awaiting := remove1 c (vw_awaiting w) \<rparr>)"
| vs_reconcile: "verdict_true w beneficiary d \<Longrightarrow>
    reconcile_claim (vw_now w) caller beneficiary d (vw_state w) = Inr s' \<Longrightarrow>
    vesting_step w (w\<lparr> vw_state := s' \<rparr>)"
| vs_upgrade: "post_upgrade_vesting decode self is_controller raw (vw_state w) = Inr s' \<Longrightarrow>
    vesting_step w (w\<lparr> vw_state := s', vw_awaiting := [] \<rparr>)"

definition vesting_init_world :: "nat \<Rightarrow> vesting \<Rightarrow> vesting_world" where
  "vesting_init_world now s =
     \<lparr> vw_state = s, vw_now = now, vw_awaiting = [], vw_sent = [], vw_paid = [], vw_issued = 0 \<rparr>"

inductive vesting_run :: "nat \<Rightarrow> vesting_init_args \<Rightarrow> vesting_world \<Rightarrow> bool" for now args where
  vr_init: "\<forall>n \<in> set (vi_schedules args). length (ns_beneficiary n) \<le> 29 \<Longrightarrow>
    now + 480 * NS_PER_MONTH < u64_limit \<Longrightarrow> init_vesting now args = Inr s \<Longrightarrow>
    vesting_run now args (vesting_init_world now s)"
| vr_step: "vesting_run now args w \<Longrightarrow> vesting_step w w' \<Longrightarrow> vesting_run now args w'"

section \<open>The invariant\<close>

text \<open>\<open>N k\<close> is the number of tombstones of beneficiary \<open>k\<close>; they carry the sequence numbers
  \<open>0, \<dots>, N k - 1\<close>.\<close>

definition tombs_dense :: "(bytes \<Rightarrow> nat) \<Rightarrow> vesting \<Rightarrow> bool" where
  "tombs_dense N s \<longleftrightarrow>
     (\<forall>t. t |\<in>| fmdom (vt_tombstones s)
        \<longleftrightarrow> (\<exists>k i. length k \<le> 29 \<and> i < N k \<and> t = tombstone_key k i))"

definition tomb_paid :: "vesting \<Rightarrow> bytes \<Rightarrow> nat \<Rightarrow> nat" where
  "tomb_paid s k i =
    (case fmlookup (vt_tombstones s) (tombstone_key k i) of
       None \<Rightarrow> 0
     | Some t \<Rightarrow>
         if tc_resolution t = Executed then (case tc_amount t of Some a \<Rightarrow> a | None \<Rightarrow> 0) else 0)"

definition pending_of :: "vesting \<Rightarrow> bytes \<Rightarrow> nat" where
  "pending_of s k =
    (case fmlookup (vt_markers s) k of
       None \<Rightarrow> 0
     | Some m \<Rightarrow> (case tm_pending_amount m of Some a \<Rightarrow> a | None \<Rightarrow> 0))"

definition marker_ok :: "(bytes \<Rightarrow> nat) \<Rightarrow> vesting \<Rightarrow> bytes \<Rightarrow> transfer_outcome_marker \<Rightarrow> bool" where
  "marker_ok N s k m \<longleftrightarrow> length k \<le> 29 \<and> tm_claim_seq m = Some (N k)
     \<and> tm_pending_amount m \<noteq> None \<and> tm_created_at_time_ns m \<noteq> None
     \<and> fmlookup (vt_schedules s) k \<noteq> None"

definition sched_ok :: "(bytes \<Rightarrow> nat) \<Rightarrow> nat \<Rightarrow> vesting \<Rightarrow> bytes \<Rightarrow> vesting_schedule \<Rightarrow> bool" where
  "sched_ok N now s k sch \<longleftrightarrow>
     length k \<le> 29 \<and> vs_claimed sch = (\<Sum>i < N k. tomb_paid s k i) + pending_of s k
     \<and> vs_claimed sch \<le> vested_at sch now"

text \<open>Where a transfer that was or may still be executed is accounted for: either it is the claim the
  marker witnesses, or its tombstone says it executed.\<close>

definition sent_as :: "claim_call \<Rightarrow> nat \<Rightarrow> bool" where
  "sent_as c i \<longleftrightarrow> tm_claim_seq (cc_marker c) = Some i
     \<and> it_amount (cc_args c) = cc_claimable c \<and> ic_owner (it_to (cc_args c)) = cc_key c
     \<and> it_memo (cc_args c) = Some (claim_memo (cc_key c) i)"

definition accounted :: "(bytes \<Rightarrow> nat) \<Rightarrow> vesting \<Rightarrow> bytes \<Rightarrow> nat \<Rightarrow> nat \<Rightarrow> bool" where
  "accounted N s k amount i \<longleftrightarrow>
     (if i = N k then fmlookup (vt_markers s) k \<noteq> None \<and> amount = pending_of s k
      else i < N k \<and> amount = tomb_paid s k i)"

definition op_ok :: "(bytes \<Rightarrow> nat) \<Rightarrow> vesting \<Rightarrow> claim_call \<Rightarrow> bool" where
  "op_ok N s c \<longleftrightarrow> length (cc_key c) \<le> 29 \<and> fmlookup (vt_schedules s) (cc_key c) \<noteq> None
     \<and> (\<exists>i. sent_as c i \<and> accounted N s (cc_key c) (cc_claimable c) i)"

definition await_ok :: "vesting \<Rightarrow> claim_call \<Rightarrow> bool" where
  "await_ok s c \<longleftrightarrow> fmlookup (vt_markers s) (cc_key c) = Some (cc_marker c)
     \<and> tm_pending_amount (cc_marker c) = Some (cc_claimable c) \<and> \<not> tm_unknown (cc_marker c)"

definition parts_inv ::
  "(bytes \<Rightarrow> nat) \<Rightarrow> nat \<Rightarrow> vesting \<Rightarrow> claim_call list \<Rightarrow> claim_call list \<Rightarrow> nat \<Rightarrow> bool" where
  "parts_inv N now s awaiting ops issued \<longleftrightarrow>
     tombs_dense N s
     \<and> (\<forall>k. N k + (if fmlookup (vt_markers s) k = None then 0 else 1) \<le> issued)
     \<and> (\<forall>k m. fmlookup (vt_markers s) k = Some m \<longrightarrow> marker_ok N s k m)
     \<and> (\<forall>k sch. fmlookup (vt_schedules s) k = Some sch \<longrightarrow> sched_ok N now s k sch)
     \<and> (\<forall>c \<in> set ops. op_ok N s c)
     \<and> distinct (map cc_id ops)
     \<and> (\<forall>c \<in> set awaiting. await_ok s c)
     \<and> distinct (map cc_key awaiting)"

definition world_inv :: "(bytes \<Rightarrow> nat) \<Rightarrow> vesting_world \<Rightarrow> bool" where
  "world_inv N w \<longleftrightarrow>
     parts_inv N (vw_now w) (vw_state w) (vw_awaiting w) (vw_sent w @ vw_paid w) (vw_issued w)"

lemma partsD:
  assumes "parts_inv N now s awaiting ops issued"
  shows "tombs_dense N s"
    and "N k + (if fmlookup (vt_markers s) k = None then 0 else 1) \<le> issued"
    and "fmlookup (vt_markers s) k = Some m \<Longrightarrow> marker_ok N s k m"
    and "fmlookup (vt_schedules s) k = Some sch \<Longrightarrow> sched_ok N now s k sch"
    and "c \<in> set ops \<Longrightarrow> op_ok N s c"
    and "distinct (map cc_id ops)"
    and "c \<in> set awaiting \<Longrightarrow> await_ok s c"
    and "distinct (map cc_key awaiting)"
  using assms unfolding parts_inv_def by blast+

lemmas invD = partsD [OF world_inv_def [THEN iffD1]]

lemma partsI:
  assumes "tombs_dense N s"
    and "\<And>k. N k + (if fmlookup (vt_markers s) k = None then 0 else 1) \<le> issued"
    and "\<And>k m. fmlookup (vt_markers s) k = Some m \<Longrightarrow> marker_ok N s k m"
    and "\<And>k sch. fmlookup (vt_schedules s) k = Some sch \<Longrightarrow> sched_ok N now s k sch"
    and "\<And>c. c \<in> set ops \<Longrightarrow> op_ok N s c"
    and "distinct (map cc_id ops)"
    and "\<And>c. c \<in> set awaiting \<Longrightarrow> await_ok s c"
    and "distinct (map cc_key awaiting)"
  shows "parts_inv N now s awaiting ops issued"
  using assms unfolding parts_inv_def by blast

lemma op_okE:
  assumes "op_ok N s c"
  obtains i where "length (cc_key c) \<le> 29" "fmlookup (vt_schedules s) (cc_key c) \<noteq> None"
    "sent_as c i" "accounted N s (cc_key c) (cc_claimable c) i"
  using assms unfolding op_ok_def by blast

lemma op_ok_same:
  assumes "op_ok N s c"
    and "\<And>i. tomb_paid s' (cc_key c) i = tomb_paid s (cc_key c) i"
    and "pending_of s' (cc_key c) = pending_of s (cc_key c)"
    and "fmlookup (vt_markers s') (cc_key c) = None \<longleftrightarrow> fmlookup (vt_markers s) (cc_key c) = None"
    and "fmlookup (vt_schedules s') (cc_key c) = None \<longleftrightarrow> fmlookup (vt_schedules s) (cc_key c) = None"
  shows "op_ok N s' c"
  using assms(1) unfolding op_ok_def accounted_def assms(2-5) .

lemma op_no_marker:
  assumes "op_ok N s c" "fmlookup (vt_markers s) (cc_key c) = None"
  shows "tm_claim_seq (cc_marker c) \<noteq> Some (N (cc_key c))"
  using assms(1) by (rule op_okE) (use assms(2) in \<open>auto simp: accounted_def sent_as_def\<close>)

lemma tomb_paid_cong [simp]:
  "tomb_paid (s\<lparr> vt_schedules := x \<rparr>) k i = tomb_paid s k i"
  "tomb_paid (s\<lparr> vt_markers := y \<rparr>) k i = tomb_paid s k i"
  "tomb_paid (s\<lparr> vt_refs := z \<rparr>) k i = tomb_paid s k i"
  "tomb_paid (s\<lparr> vt_token := p \<rparr>) k i = tomb_paid s k i"
  "tomb_paid (s\<lparr> vt_controller := p \<rparr>) k i = tomb_paid s k i"
  by (simp_all add: tomb_paid_def)

lemma pending_of_cong [simp]:
  "pending_of (s\<lparr> vt_schedules := x \<rparr>) k = pending_of s k"
  "pending_of (s\<lparr> vt_tombstones := t \<rparr>) k = pending_of s k"
  "pending_of (s\<lparr> vt_refs := z \<rparr>) k = pending_of s k"
  "pending_of (s\<lparr> vt_token := p \<rparr>) k = pending_of s k"
  "pending_of (s\<lparr> vt_controller := p \<rparr>) k = pending_of s k"
  by (simp_all add: pending_of_def)

lemma inv_counts:
  assumes "world_inv N w" "vw_issued w < u64_limit - 1"
  shows "N k < u64_limit - 1"
  using invD(2) [OF assms(1), of k] assms(2) by linarith

lemma dense_range:
  assumes "\<forall>k. N k < u64_limit - 1" "length k \<le> 29" "length l \<le> 29" "i < N l"
  shows "tombstone_key k 0 \<le> tombstone_key l i \<and> tombstone_key l i < tombstone_key k (u64_limit - 1)
     \<longleftrightarrow> l = k"
proof -
  have "i < u64_limit - 1" using assms(1,4) by (blast intro: order.strict_trans)
  moreover from this have "i < u64_limit" by (rule order.strict_trans2) simp
  ultimately show ?thesis using tombstone_key_range [of k l i] assms(2,3) by blast
qed

lemma dense_inj:
  assumes "\<forall>k. N k < u64_limit - 1" "length k \<le> 29"
  shows "inj_on (tombstone_key k) {..< N k}"
proof (rule inj_onI)
  have lt: "i < u64_limit" if "i \<in> {..< N k}" for i
  proof -
    from that have "i < N k" by simp
    also have "N k < u64_limit - 1" using assms(1) by blast
    also have "\<dots> < u64_limit" by simp
    finally show ?thesis .
  qed
  fix i j assume "i \<in> {..< N k}" "j \<in> {..< N k}" "tombstone_key k i = tombstone_key k j"
  with lt [of i] lt [of j] show "i = j"
    using tombstone_key_inj [of k k i j] assms(2) by blast
qed

lemma next_claim_seq_dense:
  assumes "tombs_dense N s" "\<forall>k. N k < u64_limit - 1" "length k \<le> 29"
  shows "next_claim_seq k s = N k"
proof -
  let ?P = "\<lambda>t. tombstone_key k 0 \<le> t \<and> t < tombstone_key k (u64_limit - 1)"
  let ?ks = "filter ?P (fmkeys (vt_tombstones s))"
  have "t \<in> set ?ks \<longleftrightarrow> t \<in> tombstone_key k ` {..< N k}" for t
  proof -
    have "t \<in> set ?ks \<longleftrightarrow> (\<exists>l i. length l \<le> 29 \<and> i < N l \<and> t = tombstone_key l i) \<and> ?P t"
      using assms(1) unfolding tombs_dense_def set_filter set_fmkeys by blast
    also have "\<dots> \<longleftrightarrow> (\<exists>i < N k. t = tombstone_key k i)"
      using dense_range [OF assms(2,3)] assms(3) by blast
    finally show ?thesis by blast
  qed
  then have "set ?ks = tombstone_key k ` {..< N k}" by (rule set_eqI)
  moreover have "distinct ?ks" by (rule distinct_filter [OF distinct_fmkeys])
  ultimately have "length ?ks = card (tombstone_key k ` {..< N k})"
    using distinct_card [of ?ks] by (simp only:)
  also have "\<dots> = N k"
    using card_image [OF dense_inj [OF assms(2,3)]] by (simp only: card_lessThan)
  finally show ?thesis by (simp only: next_claim_seq_def Let_def)
qed

section \<open>Settling a claim\<close>

definition settle ::
  "claim_resolution \<Rightarrow> bytes \<Rightarrow> transfer_outcome_marker \<Rightarrow> nat \<Rightarrow> nat \<Rightarrow> nat \<Rightarrow> vesting \<Rightarrow> vesting" where
  "settle r key m n a now s =
    (case r of Executed \<Rightarrow> s | Reverted \<Rightarrow> revert_claimed key a s)
      \<lparr> vt_tombstones := fmupd (tombstone_key key n)
          \<lparr> tc_claim_seq = Some n, tc_amount = Some a,
            tc_created_at_time_ns = tm_created_at_time_ns m,
            tc_resolution = r, tc_recorded_at_ns = now \<rparr> (vt_tombstones s),
        vt_markers := fmdrop key (vt_markers s) \<rparr>"

lemma revert_claimed_fields [simp]:
  "vt_tombstones (revert_claimed k a s) = vt_tombstones s"
  "vt_markers (revert_claimed k a s) = vt_markers s"
  by (simp_all add: revert_claimed_def split: option.splits)

lemma settle_fields [simp]:
  "vt_markers (settle r key m n a now s) = fmdrop key (vt_markers s)"
  "fmdom (vt_tombstones (settle r key m n a now s))
     = finsert (tombstone_key key n) (fmdom (vt_tombstones s))"
  by (simp_all add: settle_def)

lemma lookup_settle_schedules:
  "fmlookup (vt_schedules (settle r key m n a now s)) k =
    (if k = key \<and> r = Reverted
     then map_option (\<lambda>sch. sch\<lparr> vs_claimed := vs_claimed sch - a \<rparr>) (fmlookup (vt_schedules s) k)
     else fmlookup (vt_schedules s) k)"
  by (cases r) (auto simp: settle_def revert_claimed_def split: option.splits)

lemma pending_settle [simp]:
  "pending_of (settle r key m n a now s) k = (if k = key then 0 else pending_of s k)"
  by (simp add: pending_of_def)

lemma tomb_paid_settle:
  assumes "length key \<le> 29" "length k \<le> 29" "n < u64_limit" "i < u64_limit"
  shows "tomb_paid (settle r key m n a now s) k i =
    (if k = key \<and> i = n then (if r = Executed then a else 0) else tomb_paid s k i)"
  using tombstone_key_inj [of key k n i] assms by (auto simp: tomb_paid_def settle_def)

lemma resolve_is_settle:
  assumes "length key \<le> 29" "tm_claim_seq m = Some n" "tm_pending_amount m = Some a"
    and "tombstone_key key n |\<notin>| fmdom (vt_tombstones s)"
  shows "resolve_marker_with_tombstone key m Executed now s = Inr (settle Executed key m n a now s)"
    and "resolve_marker_with_tombstone key m Reverted now (revert_claimed key a s)
      = Inr (settle Reverted key m n a now s)"
  using assms by (simp_all add: resolve_marker_with_tombstone_def principal_from_slice_def
      PRINCIPAL_MAX_LEN_def Let_def settle_def fmdom_notD)

text \<open>One part of the invariant at a time: settling the marker of \<open>key\<close> moves its amount into the
  tombstone with the next sequence number, or takes it back.\<close>

lemma settle_dense:
  assumes "tombs_dense N s" "length key \<le> 29"
  shows "tombs_dense (N(key := Suc (N key))) (settle r key m (N key) a now s)"
  using assms unfolding tombs_dense_def by (auto simp: less_Suc_eq)

lemma tomb_paid_settle_old:
  assumes "\<forall>k. N k < u64_limit - 1" "length key \<le> 29" "length k \<le> 29" "i < N k"
  shows "tomb_paid (settle r key m (N key) a now s) k i = tomb_paid s k i"
proof -
  have lt: "N k < u64_limit" "N key < u64_limit"
    using assms(1) by (meson diff_le_self order.strict_trans2)+
  show ?thesis
    using assms(4) order.strict_trans [OF assms(4) lt(1)]
    by (auto simp: tomb_paid_settle [OF assms(2,3) lt(2)])
qed

lemma tomb_paid_settle_new:
  assumes "\<forall>k. N k < u64_limit - 1" "length key \<le> 29"
  shows "tomb_paid (settle r key m (N key) a now s) key (N key) = (if r = Executed then a else 0)"
proof -
  have "N key < u64_limit" using assms(1) by (meson diff_le_self order.strict_trans2)
  then show ?thesis by (simp add: tomb_paid_settle [OF assms(2,2)])
qed

lemma settle_sched:
  assumes N: "\<forall>k. N k < u64_limit - 1" and key: "length key \<le> 29" and p: "pending_of s key = a"
    and ok: "\<And>sch. fmlookup (vt_schedules s) k = Some sch \<Longrightarrow> sched_ok N now s k sch"
    and l: "fmlookup (vt_schedules (settle r key m (N key) a t s)) k = Some sch"
  shows "sched_ok (N(key := Suc (N key))) now (settle r key m (N key) a t s) k sch"
proof -
  obtain old where old: "fmlookup (vt_schedules s) k = Some old"
    and sch: "sch = (if k = key \<and> r = Reverted then old\<lparr> vs_claimed := vs_claimed old - a \<rparr> else old)"
    using l by (auto simp: lookup_settle_schedules split: if_splits)
  have k: "length k \<le> 29" and c: "vs_claimed old = (\<Sum>i < N k. tomb_paid s k i) + pending_of s k"
    and v: "vs_claimed old \<le> vested_at old now"
    using ok [OF old] by (auto simp: sched_ok_def)
  have same: "(\<Sum>i < N k. tomb_paid (settle r key m (N key) a t s) k i) = (\<Sum>i < N k. tomb_paid s k i)"
    using tomb_paid_settle_old [OF N key k] by (intro sum.cong) auto
  show ?thesis
    using k c v same sch p tomb_paid_settle_new [OF N key]
    by (cases r) (auto simp: sched_ok_def lessThan_Suc)
qed

lemma settle_op:
  assumes N: "\<forall>k. N k < u64_limit - 1" and key: "length key \<le> 29" and p: "pending_of s key = a"
    and ok: "op_ok N s c" and r: "r = Reverted \<Longrightarrow> cc_id c \<noteq> (key, Some (N key))"
  shows "op_ok (N(key := Suc (N key))) (settle r key m (N key) a t s) c"
proof -
  let ?s' = "settle r key m (N key) a t s"
  obtain i where i: "length (cc_key c) \<le> 29" "fmlookup (vt_schedules s) (cc_key c) \<noteq> None"
    "sent_as c i" "accounted N s (cc_key c) (cc_claimable c) i"
    using ok by (rule op_okE)
  have sch: "fmlookup (vt_schedules ?s') (cc_key c) \<noteq> None"
    using i(2) by (auto simp: lookup_settle_schedules)
  consider "i < N (cc_key c)" | "i = N (cc_key c)" "cc_key c \<noteq> key"
    | "i = N (cc_key c)" "cc_key c = key"
    using i(4) unfolding accounted_def by metis
  then have "accounted (N(key := Suc (N key))) ?s' (cc_key c) (cc_claimable c) i"
  proof cases
    case 1
    then show ?thesis
      using i(4) tomb_paid_settle_old [OF N key i(1) 1] by (auto simp: accounted_def)
  next
    case 2
    then show ?thesis using i(4) by (auto simp: accounted_def)
  next
    case 3
    then have "r = Executed" using r i(3) by (cases r) (auto simp: cc_id_def sent_as_def)
    then show ?thesis
      using 3 i(4) p tomb_paid_settle_new [OF N key] by (auto simp: accounted_def)
  qed
  then show ?thesis using i(1,3) sch unfolding op_ok_def by blast
qed

lemma settle_inv:
  assumes inv: "world_inv N w" and b: "vw_issued w < u64_limit - 1"
    and m: "fmlookup (vt_markers (vw_state w)) key = Some m" and a: "tm_pending_amount m = Some a"
    and honest: "r = Reverted \<Longrightarrow> (key, tm_claim_seq m) \<notin> alive w"
    and aw: "set aw \<subseteq> set (vw_awaiting w)" "distinct (map cc_key aw)" "\<forall>c \<in> set aw. cc_key c \<noteq> key"
  shows "world_inv (N(key := Suc (N key)))
    (w\<lparr> vw_state := settle r key m (N key) a t (vw_state w), vw_awaiting := aw \<rparr>)"
proof -
  let ?s = "vw_state w" and ?s' = "settle r key m (N key) a t (vw_state w)"
  note I = invD [OF inv]
  have N: "\<forall>k. N k < u64_limit - 1" using inv_counts [OF inv b] by blast
  have ok: "length key \<le> 29" "tm_claim_seq m = Some (N key)"
    using I(3) [OF m] by (auto simp: marker_ok_def)
  have p: "pending_of ?s key = a" using m a by (simp add: pending_of_def)
  have "parts_inv (N(key := Suc (N key))) (vw_now w) ?s' aw (vw_sent w @ vw_paid w) (vw_issued w)"
  proof (rule partsI)
    show "tombs_dense (N(key := Suc (N key))) ?s'" by (rule settle_dense [OF I(1) ok(1)])
    show "(N(key := Suc (N key))) k
      + (if fmlookup (vt_markers ?s') k = None then 0 else 1) \<le> vw_issued w" for k
      using I(2) [of k] m by (auto split: if_splits)
    show "marker_ok (N(key := Suc (N key))) ?s' k n" if "fmlookup (vt_markers ?s') k = Some n" for k n
      using that I(3) [of k n] by (auto simp: marker_ok_def lookup_settle_schedules split: if_splits)
    show "sched_ok (N(key := Suc (N key))) (vw_now w) ?s' k sch"
      if "fmlookup (vt_schedules ?s') k = Some sch" for k sch
      using settle_sched [OF N ok(1) p I(4) that] by blast
    show "op_ok (N(key := Suc (N key))) ?s' c" if "c \<in> set (vw_sent w @ vw_paid w)" for c
    proof (rule settle_op [OF N ok(1) p I(5) [OF that]])
      show "cc_id c \<noteq> (key, Some (N key))" if "r = Reverted"
        using honest [OF that] ok(2) \<open>c \<in> set (vw_sent w @ vw_paid w)\<close> unfolding alive_def by force
    qed
    show "await_ok ?s' c" if "c \<in> set aw" for c
      using that aw I(7) [of c] by (auto simp: await_ok_def)
  qed (fact I(6) aw(2))+
  then show ?thesis by (simp add: world_inv_def)
qed

section \<open>Every step keeps the invariant\<close>

lemma distinct_map_submset:
  assumes "mset ys \<subseteq># mset xs" "distinct (map f xs)"
  shows "distinct (map f ys)"
proof -
  have "mset (map f ys) \<subseteq># mset (map f xs)"
    using image_mset_subseteq_mono [OF assms(1), of f] by simp
  then have "count (mset (map f ys)) a \<le> count (mset (map f xs)) a" for a
    by (rule mset_subset_eq_count)
  then have le: "count (mset (map f ys)) a \<le> 1" for a
    using assms(2) by (metis distinct_count_atmost_1 order.trans zero_le_one order.refl)
  have "count (mset (map f ys)) a = (if a \<in> set (map f ys) then 1 else 0)" for a
  proof (cases "a \<in> set (map f ys)")
    case True
    then have "0 < count (mset (map f ys)) a" by (simp only: count_greater_zero_iff set_mset_mset)
    then have "count (mset (map f ys)) a = 1" using le [of a] by linarith
    with True show ?thesis by (simp only: if_True)
  next
    case False
    then have "a \<notin># mset (map f ys)" unfolding set_mset_mset .
    then have "count (mset (map f ys)) a = 0" by (rule not_in_iff [THEN iffD1])
    with False show ?thesis by (simp only: if_False)
  qed
  then show ?thesis by (subst distinct_count_atmost_1) blast
qed

lemma parts_inv_ops:
  assumes "parts_inv N now s awaiting ops issued" "mset ops' \<subseteq># mset ops"
  shows "parts_inv N now s awaiting ops' issued"
proof (rule partsI)
  note I = partsD [OF assms(1)]
  show "distinct (map cc_id ops')" by (rule distinct_map_submset [OF assms(2) I(6)])
  show "op_ok N s c" if "c \<in> set ops'" for c
    using I(5) [of c] that set_mset_mono [OF assms(2)] by auto
qed (fact partsD [OF assms(1)])+

lemma inv_time:
  assumes "world_inv N w" "vw_now w \<le> t"
  shows "world_inv N (w\<lparr> vw_now := t \<rparr>)"
proof -
  note I = invD [OF assms(1)]
  have "parts_inv N t (vw_state w) (vw_awaiting w) (vw_sent w @ vw_paid w) (vw_issued w)"
  proof (rule partsI)
    show "sched_ok N t (vw_state w) k sch" if "fmlookup (vt_schedules (vw_state w)) k = Some sch" for k sch
      using I(4) [OF that] vested_mono [OF assms(2), of sch] by (auto simp: sched_ok_def)
  qed (fact I)+
  then show ?thesis by (simp add: world_inv_def)
qed

lemma inv_execute:
  assumes "world_inv N w" "c \<in> set (vw_sent w)"
  shows "world_inv N (w\<lparr> vw_sent := remove1 c (vw_sent w), vw_paid := c # vw_paid w \<rparr>)"
proof -
  have "mset (remove1 c (vw_sent w) @ c # vw_paid w) \<subseteq># mset (vw_sent w @ vw_paid w)"
    using assms(2) by simp
  then show ?thesis
    using parts_inv_ops [OF assms(1) [unfolded world_inv_def]] by (simp add: world_inv_def)
qed

lemma inv_drop:
  assumes "world_inv N w"
  shows "world_inv N (w\<lparr> vw_sent := remove1 c (vw_sent w) \<rparr>)"
proof -
  have "mset (remove1 c (vw_sent w) @ vw_paid w) \<subseteq># mset (vw_sent w @ vw_paid w)"
    by simp
  then show ?thesis
    using parts_inv_ops [OF assms(1) [unfolded world_inv_def]] by (simp add: world_inv_def)
qed

lemma claim_start_Inr:
  assumes "claim_start now caller s = Inr (s', c)"
  obtains sch where "fmlookup (vt_markers s) caller = None"
    "fmlookup (vt_schedules s) caller = Some sch" "vs_claimed sch < vested_at sch now"
    "cc_claimable c = vested_at sch now - vs_claimed sch"
    "cc_marker c = \<lparr> tm_unknown = False, tm_pending_amount = Some (cc_claimable c),
       tm_claim_seq = Some (next_claim_seq caller s), tm_created_at_time_ns = Some now \<rparr>"
    "cc_key c = caller" "it_amount (cc_args c) = cc_claimable c"
    "ic_owner (it_to (cc_args c)) = caller"
    "it_memo (cc_args c) = Some (claim_memo caller (next_claim_seq caller s))"
    "s' = s\<lparr> vt_schedules := fmupd caller (sch\<lparr> vs_claimed := vested_at sch now \<rparr>) (vt_schedules s),
       vt_markers := fmupd caller (cc_marker c) (vt_markers s) \<rparr>"
proof -
  have seq: "next_claim_seq k (s\<lparr> vt_schedules := x \<rparr>) = next_claim_seq k s" for k x
    by (simp add: next_claim_seq_def)
  show thesis
    using assms
    by (auto simp: claim_start_def Let_def principal_key_def marker_blocks_claim_def claimable_now_def
        pre_increment_def result_simps seq claimable_vested split: if_splits option.splits
        intro!: that)
qed

lemma sum_tomb_cong: "(\<And>i. tomb_paid s' k i = tomb_paid s k i) \<Longrightarrow>
    (\<Sum>i < n. tomb_paid s' k i) = (\<Sum>i < n. tomb_paid s k i)"
  by simp

lemma inv_claim:
  assumes inv: "world_inv N w" and b: "vw_issued w < u64_limit - 1"
    and len: "length caller \<le> 29" and run: "claim_start (vw_now w) caller (vw_state w) = Inr (s', c)"
  shows "world_inv N (w\<lparr> vw_state := s', vw_awaiting := c # vw_awaiting w,
    vw_sent := c # vw_sent w, vw_issued := Suc (vw_issued w) \<rparr>)"
proof -
  let ?s = "vw_state w"
  note I = invD [OF inv]
  obtain sch where no: "fmlookup (vt_markers ?s) caller = None"
    and sch: "fmlookup (vt_schedules ?s) caller = Some sch" "vs_claimed sch < vested_at sch (vw_now w)"
    and amt: "cc_claimable c = vested_at sch (vw_now w) - vs_claimed sch"
    and m: "cc_marker c = \<lparr> tm_unknown = False, tm_pending_amount = Some (cc_claimable c),
       tm_claim_seq = Some (next_claim_seq caller ?s), tm_created_at_time_ns = Some (vw_now w) \<rparr>"
    and key: "cc_key c = caller"
    and args: "it_amount (cc_args c) = cc_claimable c" "ic_owner (it_to (cc_args c)) = caller"
      "it_memo (cc_args c) = Some (claim_memo caller (next_claim_seq caller ?s))"
    and s': "s' = ?s\<lparr> vt_schedules := fmupd caller (sch\<lparr> vs_claimed := vested_at sch (vw_now w) \<rparr>)
         (vt_schedules ?s), vt_markers := fmupd caller (cc_marker c) (vt_markers ?s) \<rparr>"
    by (rule claim_start_Inr [OF run]) (rule that)
  have "\<forall>k. N k < u64_limit - 1" using inv_counts [OF inv b] by blast
  then have seq: "next_claim_seq caller ?s = N caller" by (rule next_claim_seq_dense [OF I(1) _ len])
  have mf: "tm_claim_seq (cc_marker c) = Some (N caller)"
      "tm_pending_amount (cc_marker c) = Some (cc_claimable c)"
      "tm_created_at_time_ns (cc_marker c) \<noteq> None" "\<not> tm_unknown (cc_marker c)"
    using m seq by (metis transfer_outcome_marker.select_convs option.distinct(1))+
  have tomb: "tomb_paid s' k i = tomb_paid ?s k i" for k i by (simp add: s')
  have pend: "pending_of s' k = (if k = caller then cc_claimable c else pending_of ?s k)" for k
    by (simp add: s' pending_of_def mf)
  have fresh: "cc_id c \<notin> cc_id ` set (vw_sent w @ vw_paid w)"
  proof
    assume "cc_id c \<in> cc_id ` set (vw_sent w @ vw_paid w)"
    then obtain d where d: "d \<in> set (vw_sent w @ vw_paid w)" "cc_id c = cc_id d" by blast
    then have "cc_key d = caller" "tm_claim_seq (cc_marker d) = Some (N caller)"
      by (auto simp: cc_id_def key mf)
    then show False using op_no_marker [OF I(5) [OF d(1)]] no by simp
  qed
  have "parts_inv N (vw_now w) s' (c # vw_awaiting w) (c # vw_sent w @ vw_paid w) (Suc (vw_issued w))"
  proof (rule partsI)
    show "tombs_dense N s'" using I(1) by (simp add: tombs_dense_def s')
    show "N k + (if fmlookup (vt_markers s') k = None then 0 else 1) \<le> Suc (vw_issued w)" for k
      using I(2) [of k] by (auto split: if_splits)
    show "marker_ok N s' k n" if "fmlookup (vt_markers s') k = Some n" for k n
      using that I(3) [of k n] len sch(1) mf by (auto simp: s' marker_ok_def split: if_splits)
    show "sched_ok N (vw_now w) s' k v" if "fmlookup (vt_schedules s') k = Some v" for k v
    proof (cases "k = caller")
      case True
      then show ?thesis
        using that I(4) [OF sch(1)] no sch(2) amt
        by (auto simp: sched_ok_def s' pend [unfolded s'] pending_of_def mf)
    next
      case False
      then show ?thesis
        using that I(4) [of k v] by (auto simp: sched_ok_def pend tomb s' pending_of_def)
    qed
    show "op_ok N s' d" if "d \<in> set (c # vw_sent w @ vw_paid w)" for d
    proof (cases "d = c")
      case True
      have "sent_as c (N caller)" using mf args seq by (simp add: sent_as_def key)
      moreover have "accounted N s' caller (cc_claimable c) (N caller)"
        by (simp add: accounted_def pend) (simp add: s')
      ultimately show ?thesis using len True by (auto simp: op_ok_def key s')
    next
      case False
      then have ok: "op_ok N ?s d" using that I(5) [of d] by auto
      then obtain i where i: "length (cc_key d) \<le> 29" "fmlookup (vt_schedules ?s) (cc_key d) \<noteq> None"
          "sent_as d i" "accounted N ?s (cc_key d) (cc_claimable d) i" by (rule op_okE)
      then have "\<not> (cc_key d = caller \<and> i = N caller)"
        using no by (auto simp: accounted_def)
      then have "accounted N s' (cc_key d) (cc_claimable d) i"
        using i(4) by (auto simp: accounted_def pend tomb) (auto simp: s')
      with i show ?thesis by (auto simp: op_ok_def s')
    qed
    show "distinct (map cc_id (c # vw_sent w @ vw_paid w))"
      using fresh I(6) by auto
    show "await_ok s' d" if "d \<in> set (c # vw_awaiting w)" for d
    proof (cases "d = c")
      case True
      then show ?thesis by (simp add: await_ok_def s' key mf)
    next
      case False
      then have "await_ok ?s d" using that I(7) [of d] by auto
      then show ?thesis using no by (auto simp: await_ok_def s')
    qed
    have "caller \<notin> cc_key ` set (vw_awaiting w)" using I(7) no by (force simp: await_ok_def)
    then show "distinct (map cc_key (c # vw_awaiting w))" using I(8) by (simp add: key)
  qed
  then show ?thesis by (simp add: world_inv_def)
qed

text \<open>What a reply does to the state, given that the call's own marker is in place.\<close>

lemma claim_resume_cases:
  assumes "length (cc_key c) \<le> 29" "tm_claim_seq (cc_marker c) = Some n"
    and "tm_pending_amount (cc_marker c) = Some (cc_claimable c)"
    and "tombstone_key (cc_key c) n |\<notin>| fmdom (vt_tombstones s)"
  shows "claim_resume now c reply s =
    (case reply of
       TransferOk b \<Rightarrow> Inr (settle Executed (cc_key c) (cc_marker c) n (cc_claimable c) now s, Inr (cc_claimable c))
     | TransferErr (Duplicate d) \<Rightarrow>
         Inr (settle Executed (cc_key c) (cc_marker c) n (cc_claimable c) now s, Inr (cc_claimable c))
     | TransferErr e \<Rightarrow>
         Inr (settle Reverted (cc_key c) (cc_marker c) n (cc_claimable c) now s, Inl (TransferRejected e))
     | CallRejected \<Rightarrow>
         Inr (s\<lparr> vt_markers := fmupd (cc_key c) ((cc_marker c)\<lparr> tm_unknown := True \<rparr>) (vt_markers s) \<rparr>,
           Inl TransferCallFailed))"
  by (simp add: claim_resume_def resolve_is_settle [OF assms]
      split: transfer_reply.split icrc_transfer_error.split)

lemma distinct_map_remove1:
  assumes "distinct (map f xs)" "x \<in> set xs" "y \<in> set (remove1 x xs)"
  shows "f y \<noteq> f x"
  using assms by (induction xs) (auto split: if_splits simp: image_iff dest: notin_set_remove1)

lemma inv_reply_lost:
  assumes inv: "world_inv N w" and c: "c \<in> set (vw_awaiting w)"
  shows "world_inv N (w\<lparr> vw_state := (vw_state w)\<lparr> vt_markers := fmupd (cc_key c)
      ((cc_marker c)\<lparr> tm_unknown := True \<rparr>) (vt_markers (vw_state w)) \<rparr>,
    vw_awaiting := remove1 c (vw_awaiting w) \<rparr>)"
proof -
  note I = invD [OF inv]
  let ?s = "vw_state w"
  let ?s' = "?s\<lparr> vt_markers := fmupd (cc_key c) ((cc_marker c)\<lparr> tm_unknown := True \<rparr>) (vt_markers ?s) \<rparr>"
  have a: "fmlookup (vt_markers ?s) (cc_key c) = Some (cc_marker c)"
      "tm_pending_amount (cc_marker c) = Some (cc_claimable c)"
    using I(7) [OF c] by (auto simp: await_ok_def)
  have pend: "pending_of ?s' k = pending_of ?s k" for k using a by (auto simp: pending_of_def)
  have tomb: "tomb_paid ?s' k i = tomb_paid ?s k i" for k i by simp
  have "parts_inv N (vw_now w) ?s' (remove1 c (vw_awaiting w)) (vw_sent w @ vw_paid w) (vw_issued w)"
  proof (rule partsI)
    show "tombs_dense N ?s'" using I(1) by (simp add: tombs_dense_def)
    show "N k + (if fmlookup (vt_markers ?s') k = None then 0 else 1) \<le> vw_issued w" for k
      using I(2) [of k] a(1) by (auto split: if_splits)
    show "marker_ok N ?s' k m" if "fmlookup (vt_markers ?s') k = Some m" for k m
      using that I(3) [OF a(1)] I(3) [of k m] by (auto simp: marker_ok_def split: if_splits)
    show "sched_ok N (vw_now w) ?s' k v" if "fmlookup (vt_schedules ?s') k = Some v" for k v
      using that I(4) [of k v] by (simp add: sched_ok_def pend)
    show "op_ok N ?s' d" if "d \<in> set (vw_sent w @ vw_paid w)" for d
      by (rule op_ok_same [OF I(5) [OF that]]) (use a(1) pend in auto)
    show "await_ok ?s' d" if d: "d \<in> set (remove1 c (vw_awaiting w))" for d
      using I(7) [of d] distinct_map_remove1 [OF I(8) c d] notin_set_remove1 d
      by (fastforce simp: await_ok_def)
    show "distinct (map cc_key (remove1 c (vw_awaiting w)))"
      using I(8) by (metis distinct_map_submset diff_subset_eq_self mset_remove1)
  qed (fact I(6))
  then show ?thesis by (simp add: world_inv_def)
qed

lemma dense_next_free:
  assumes "tombs_dense N s" "\<forall>k. N k < u64_limit - 1" "length key \<le> 29"
  shows "tombstone_key key (N key) |\<notin>| fmdom (vt_tombstones s)"
proof
  assume "tombstone_key key (N key) |\<in>| fmdom (vt_tombstones s)"
  then obtain k i where k: "length k \<le> 29" "i < N k" "tombstone_key key (N key) = tombstone_key k i"
    using assms(1) unfolding tombs_dense_def by blast
  have "N key < u64_limit" "N k < u64_limit"
    using assms(2) by (meson diff_le_self order.strict_trans2)+
  then have "key = k \<and> N key = i"
    using k tombstone_key_inj [of key k "N key" i] assms(3) by (meson order.strict_trans)
  with k(2) show False by auto
qed

text \<open>A reply and a verdict either leave the claim stuck or settle it.\<close>

lemma reply_effect:
  assumes inv: "world_inv N w" and b: "vw_issued w < u64_limit - 1"
    and c: "c \<in> set (vw_awaiting w)" and true: "reply_true w c reply"
    and run: "claim_resume (vw_now w) c reply (vw_state w) = Inr (s', r)"
  obtains (lost) "s' = (vw_state w)\<lparr> vt_markers := fmupd (cc_key c) ((cc_marker c)\<lparr> tm_unknown := True \<rparr>)
      (vt_markers (vw_state w)) \<rparr>"
    | (settled) q where
      "s' = settle q (cc_key c) (cc_marker c) (N (cc_key c)) (cc_claimable c) (vw_now w) (vw_state w)"
      "q = Reverted \<longrightarrow> (cc_key c, tm_claim_seq (cc_marker c)) \<notin> alive w"
proof -
  note I = invD [OF inv]
  have a: "fmlookup (vt_markers (vw_state w)) (cc_key c) = Some (cc_marker c)"
      "tm_pending_amount (cc_marker c) = Some (cc_claimable c)"
    using I(7) [OF c] by (auto simp: await_ok_def)
  have m: "length (cc_key c) \<le> 29" "tm_claim_seq (cc_marker c) = Some (N (cc_key c))"
    using I(3) [OF a(1)] by (auto simp: marker_ok_def)
  have N: "\<forall>k. N k < u64_limit - 1" using inv_counts [OF inv b] by blast
  note free = dense_next_free [OF I(1) N m(1)]
  show thesis
    using run true lost settled [of Executed] settled [of Reverted]
    unfolding claim_resume_cases [OF m a(2) free] reply_true_def cc_id_def
    by (auto split: transfer_reply.splits icrc_transfer_error.splits)
qed

lemma reconcile_effect:
  assumes inv: "world_inv N w" and b: "vw_issued w < u64_limit - 1"
    and true: "verdict_true w key d"
    and run: "reconcile_claim (vw_now w) caller key d (vw_state w) = Inr s'"
  obtains q m a where "fmlookup (vt_markers (vw_state w)) key = Some m" "tm_unknown m"
    "tm_pending_amount m = Some a" "tm_claim_seq m = Some (N key)"
    "s' = settle q key m (N key) a (vw_now w) (vw_state w)"
    "q = Reverted \<longrightarrow> (key, tm_claim_seq m) \<notin> alive w"
proof -
  note I = invD [OF inv]
  obtain m where m: "fmlookup (vt_markers (vw_state w)) key = Some m" "tm_unknown m"
    using run by (auto simp: reconcile_claim_def Let_def result_simps stuck_marker_def principal_key_def
        split: if_splits option.splits)
  then obtain a where a: "tm_pending_amount m = Some a" "length key \<le> 29"
      "tm_claim_seq m = Some (N key)"
    using I(3) [OF m(1)] by (auto simp: marker_ok_def)
  have N: "\<forall>k. N k < u64_limit - 1" using inv_counts [OF inv b] by blast
  note res = resolve_is_settle [OF a(2) a(3) a(1) dense_next_free [OF I(1) N a(2)]]
  have "\<exists>q. s' = settle q key m (N key) a (vw_now w) (vw_state w)
      \<and> (q = Reverted \<longrightarrow> (key, tm_claim_seq m) \<notin> alive w)"
    using run true m a(1)
    by (auto simp: res reconcile_claim_def Let_def result_simps stuck_marker_def principal_key_def
        verdict_true_def split: if_splits option.splits claim_decision.splits)
  then show thesis using that [OF m a(1,3)] by blast
qed

lemma inv_reply:
  assumes inv: "world_inv N w" and b: "vw_issued w < u64_limit - 1"
    and c: "c \<in> set (vw_awaiting w)" and true: "reply_true w c reply"
    and run: "claim_resume (vw_now w) c reply (vw_state w) = Inr (s', r)"
  shows "\<exists>N'. world_inv N' (w\<lparr> vw_state := s', vw_awaiting := remove1 c (vw_awaiting w) \<rparr>)"
proof -
  note I = invD [OF inv]
  have a: "fmlookup (vt_markers (vw_state w)) (cc_key c) = Some (cc_marker c)"
      "tm_pending_amount (cc_marker c) = Some (cc_claimable c)"
    using I(7) [OF c] by (auto simp: await_ok_def)
  have rest: "set (remove1 c (vw_awaiting w)) \<subseteq> set (vw_awaiting w)"
      "distinct (map cc_key (remove1 c (vw_awaiting w)))"
      "\<forall>d \<in> set (remove1 c (vw_awaiting w)). cc_key d \<noteq> cc_key c"
    using set_remove1_subset [of c "vw_awaiting w"]
      distinct_map_submset [OF _ I(8), of "remove1 c (vw_awaiting w)"]
      distinct_map_remove1 [OF I(8) c]
    by (simp_all add: diff_subset_eq_self)
  show ?thesis
    using inv b c true run
  proof (cases rule: reply_effect)
    case lost
    then show ?thesis using inv_reply_lost [OF inv c] by auto
  next
    case (settled q)
    then show ?thesis using settle_inv [OF inv b a _ rest, of q] by auto
  qed
qed

lemma inv_reconcile:
  assumes inv: "world_inv N w" and b: "vw_issued w < u64_limit - 1"
    and true: "verdict_true w beneficiary d"
    and run: "reconcile_claim (vw_now w) caller beneficiary d (vw_state w) = Inr s'"
  shows "\<exists>N'. world_inv N' (w\<lparr> vw_state := s' \<rparr>)"
  using assms
proof (cases rule: reconcile_effect)
  case (1 q m a)
  note I = invD [OF inv]
  have aw: "\<forall>c \<in> set (vw_awaiting w). cc_key c \<noteq> beneficiary"
    using I(7) 1 by (fastforce simp: await_ok_def)
  then show ?thesis
    using settle_inv [OF inv b 1(1,3) _ order.refl I(8) aw, of q] 1 by auto
qed

lemma lookup_foldl_mark:
  "distinct ks \<Longrightarrow> fmlookup (foldl (\<lambda>m key. case fmlookup m0 key of
        None \<Rightarrow> m | Some v \<Rightarrow> fmupd key (f v) m) m ks) k =
     (if k \<in> set ks \<and> fmlookup m0 k \<noteq> None then map_option f (fmlookup m0 k) else fmlookup m k)"
proof (induction ks arbitrary: m)
  case (Cons a ks)
  then show ?case by (cases "fmlookup m0 a") auto
qed simp

lemma sweep_lookup:
  "fmlookup (vt_markers (sweep_inflight_markers_on_upgrade s)) k =
     map_option (\<lambda>m. m\<lparr> tm_unknown := True \<rparr>) (fmlookup (vt_markers s) k)"
proof (cases "fmlookup (vt_markers s) k")
  case None
  then show ?thesis
    by (simp add: sweep_inflight_markers_on_upgrade_def Let_def lookup_foldl_mark)
next
  case (Some m)
  then have "k \<in> set (filter (\<lambda>k. \<not> transfer_outcome_unknown k s) (fmkeys (vt_markers s)))
      \<longleftrightarrow> \<not> tm_unknown m"
    by (auto simp: transfer_outcome_unknown_def fmlookup_dom_iff)
  then show ?thesis
    using Some by (cases m)
      (simp add: sweep_inflight_markers_on_upgrade_def Let_def lookup_foldl_mark
        del: set_filter)
qed

lemma sweep_fields [simp]:
  "vt_schedules (sweep_inflight_markers_on_upgrade s) = vt_schedules s"
  "vt_tombstones (sweep_inflight_markers_on_upgrade s) = vt_tombstones s"
  "vt_refs (sweep_inflight_markers_on_upgrade s) = vt_refs s"
  "vt_token (sweep_inflight_markers_on_upgrade s) = vt_token s"
  "vt_controller (sweep_inflight_markers_on_upgrade s) = vt_controller s"
  by (simp_all add: sweep_inflight_markers_on_upgrade_def Let_def)

lemma post_upgrade_vesting_Inr:
  assumes "post_upgrade_vesting decode self is_controller raw s = Inr s'"
  shows "vt_schedules s' = vt_schedules s" "vt_tombstones s' = vt_tombstones s"
    and "fmlookup (vt_markers s') k = map_option (\<lambda>m. m\<lparr> tm_unknown := True \<rparr>) (fmlookup (vt_markers s) k)"
    and "\<exists>token controller controller'. vt_refs s = Some [token, controller]
      \<and> vt_refs s' = Some [token, controller'] \<and> vt_token s' = Some token
      \<and> vt_controller s' = Some controller'
      \<and> (controller' \<noteq> controller \<longrightarrow>
           (\<exists>arg. decode raw = Some (Some arg) \<and> vu_rebind_controller arg = Some controller')
           \<and> controller' \<notin> {anonymous_principal, self, token} \<and> is_controller controller')"
  using assms
  by (auto simp: post_upgrade_vesting_def rebind_controller_def set_canister_refs_def Let_def
      result_simps sweep_lookup split: option.splits list.splits if_splits)

lemma inv_upgrade:
  assumes inv: "world_inv N w"
    and run: "post_upgrade_vesting decode self is_controller raw (vw_state w) = Inr s'"
  shows "world_inv N (w\<lparr> vw_state := s', vw_awaiting := [] \<rparr>)"
proof -
  note I = invD [OF inv] and u = post_upgrade_vesting_Inr [OF run]
  have tomb: "tomb_paid s' k i = tomb_paid (vw_state w) k i" for k i by (simp add: tomb_paid_def u)
  have pend: "pending_of s' k = pending_of (vw_state w) k" for k
    by (auto simp: pending_of_def u(3) split: option.splits)
  have "parts_inv N (vw_now w) s' [] (vw_sent w @ vw_paid w) (vw_issued w)"
  proof (rule partsI)
    show "tombs_dense N s'" using I(1) by (simp add: tombs_dense_def u)
    show "N k + (if fmlookup (vt_markers s') k = None then 0 else 1) \<le> vw_issued w" for k
      using I(2) [of k] by (simp add: u(3))
    show "marker_ok N s' k m" if "fmlookup (vt_markers s') k = Some m" for k m
      using that I(3) [of k] by (auto simp: marker_ok_def u)
    show "sched_ok N (vw_now w) s' k v" if "fmlookup (vt_schedules s') k = Some v" for k v
      using that I(4) [of k v] by (simp add: sched_ok_def u tomb pend)
    show "op_ok N s' d" if "d \<in> set (vw_sent w @ vw_paid w)" for d
      by (rule op_ok_same [OF I(5) [OF that]]) (simp_all add: u tomb pend)
  qed (simp_all add: I(6) [simplified])
  then show ?thesis by (simp add: world_inv_def)
qed

lemma vesting_step_inv:
  assumes "vesting_step w w'" "world_inv N w" "vw_issued w < u64_limit - 1"
  shows "\<exists>N'. world_inv N' w'"
  using assms(1)
proof cases
  case (vs_time t)
  then show ?thesis using inv_time [OF assms(2)] by blast
next
  case (vs_claim caller s' c)
  then show ?thesis using inv_claim [OF assms(2,3)] by blast
next
  case (vs_execute c)
  then show ?thesis using inv_execute [OF assms(2)] by blast
next
  case (vs_drop c)
  then show ?thesis using inv_drop [OF assms(2)] by blast
next
  case (vs_reply c reply s' r)
  then show ?thesis using inv_reply [OF assms(2,3)] by blast
next
  case (vs_reconcile beneficiary d caller s')
  then show ?thesis using inv_reconcile [OF assms(2,3)] by blast
next
  case (vs_upgrade decode self is_controller raw s')
  then show ?thesis using inv_upgrade [OF assms(2)] by blast
qed

lemma issued_mono: "vesting_step w w' \<Longrightarrow> vw_issued w \<le> vw_issued w'"
  by (cases rule: vesting_step.cases) auto

lemma vesting_init_inv:
  assumes "\<forall>n \<in> set (vi_schedules args). length (ns_beneficiary n) \<le> 29"
    and "now + 480 * NS_PER_MONTH < u64_limit" "init_vesting now args = Inr s"
  shows "world_inv (\<lambda>_. 0) (vesting_init_world now s)"
proof -
  let ?ns = "vi_schedules args"
  have ok: "schedule_list_ok ?ns"
    and s: "s = (set_canister_refs (vi_token_canister args) (vi_controller args) fresh_vesting)
       \<lparr> vt_schedules := foldl (\<lambda>m n. fmupd (ns_beneficiary n) (schedule_for now n) m) fmempty ?ns \<rparr>"
    using assms(3) by (auto simp: init_vesting_cases [OF assms(2)] split: if_splits)
  have empty: "vt_markers s = fmempty" "vt_tombstones s = fmempty"
    by (simp_all add: s set_canister_refs_def fresh_vesting_def)
  have "length k \<le> 29 \<and> vs_claimed sch = 0" if l: "fmlookup (vt_schedules s) k = Some sch" for k sch
  proof -
    obtain n where "find (\<lambda>n. ns_beneficiary n = k) ?ns = Some n" "sch = schedule_for now n"
      using l ok lookup_foldl_schedules [of ?ns now fmempty k]
      by (auto simp: s schedule_list_ok_def split: option.splits)
    then show ?thesis using assms(1) by (auto simp: find_Some_iff schedule_for_def)
  qed
  then show ?thesis
    by (auto simp: world_inv_def parts_inv_def vesting_init_world_def empty tombs_dense_def
        sched_ok_def pending_of_def)
qed

lemma vesting_run_inv:
  assumes "vesting_run now args w" "vw_issued w < u64_limit - 1"
  shows "\<exists>N. world_inv N w"
  using assms
proof (induction rule: vesting_run.induct)
  case (vr_init s)
  then show ?case using vesting_init_inv by blast
next
  case (vr_step w w')
  then have "vw_issued w < u64_limit - 1" using issued_mono by fastforce
  then show ?case using vr_step vesting_step_inv by blast
qed

section \<open>Payments and identities\<close>

lemma paid_within_claimed:
  assumes inv: "world_inv N w" and sch: "fmlookup (vt_schedules (vw_state w)) p = Some sch"
  shows "sum_list (map cc_claimable (filter (\<lambda>c. cc_key c = p) (vw_sent w @ vw_paid w)))
    \<le> vs_claimed sch"
proof -
  note I = invD [OF inv]
  let ?ops = "filter (\<lambda>c. cc_key c = p) (vw_sent w @ vw_paid w)"
  let ?seq = "\<lambda>c. the (tm_claim_seq (cc_marker c))"
  let ?wt = "\<lambda>i. if i = N p then pending_of (vw_state w) p else tomb_paid (vw_state w) p i"
  have ops: "tm_claim_seq (cc_marker c) = Some (?seq c) \<and> ?seq c \<le> N p \<and> cc_claimable c = ?wt (?seq c)
      \<and> cc_key c = p"
    if "c \<in> set ?ops" for c
  proof -
    from that have ok: "op_ok N (vw_state w) c" and k: "cc_key c = p" using I(5) [of c] by auto
    obtain i where "sent_as c i" "accounted N (vw_state w) p (cc_claimable c) i"
      using op_okE [OF ok] k by metis
    then show ?thesis using k by (simp add: accounted_def sent_as_def split: if_splits)
  qed
  have "distinct (map cc_id ?ops)"
    by (rule distinct_map_filter [OF I(6)])
  then have "distinct ?ops" "inj_on cc_id (set ?ops)" by (simp_all only: distinct_map)
  moreover have "inj_on ?seq (set ?ops)"
  proof (rule inj_onI)
    fix c e assume c: "c \<in> set ?ops" and e: "e \<in> set ?ops" and eq: "?seq c = ?seq e"
    have "cc_id c = cc_id e" using ops [OF c] ops [OF e] eq by (metis cc_id_def)
    with \<open>inj_on cc_id (set ?ops)\<close> c e show "c = e" by (meson inj_onD)
  qed
  ultimately have d: "distinct (map ?seq ?ops)" by (simp only: distinct_map)
  have "map cc_claimable ?ops = map ?wt (map ?seq ?ops)"
    unfolding map_map using ops by (intro map_cong refl) (simp only: comp_def)
  then have "sum_list (map cc_claimable ?ops) = sum_list (map ?wt (map ?seq ?ops))"
    by (rule arg_cong)
  also have "\<dots> = sum ?wt (set (map ?seq ?ops))"
    by (rule sum_list_distinct_conv_sum_set [OF d])
  also have "\<dots> \<le> sum ?wt {..N p}"
  proof (rule sum_mono2)
    show "set (map ?seq ?ops) \<subseteq> {..N p}"
      using ops by (simp only: set_map image_subset_iff atMost_iff) blast
  qed simp_all
  also have "\<dots> = (\<Sum>i < N p. tomb_paid (vw_state w) p i) + pending_of (vw_state w) p"
    by (simp only: lessThan_Suc_atMost [symmetric] sum.lessThan_Suc) simp
  also have "\<dots> = vs_claimed sch" using I(4) [OF sch] by (simp add: sched_ok_def)
  finally show ?thesis .
qed

lemma claim_memo_inj:
  assumes "length p \<le> 29" "length q \<le> 29" "m < u64_limit" "n < u64_limit"
  shows "claim_memo p m = claim_memo q n \<longleftrightarrow> p = q \<and> m = n"
  using tombstone_key_inj [OF assms] by (simp add: claim_memo_def tombstone_key_def)

end
