(* ===== verification/Vesting_Outcomes.thy ===== *)
theory Vesting_Outcomes
  imports Vesting_Runs
begin

text \<open>
  How claims end. Tombstones are permanent and a claim that stops being outstanding leaves one with its
  identity and amount; an upgrade turns claims in flight into stuck ones without touching what they
  froze. The last section walks one concrete run, to which the properties are applied.
\<close>

section \<open>Evidence\<close>

text \<open>\<open>witnessed m t\<close>: the tombstone carries exactly what the marker froze before the transfer.\<close>

definition witnessed :: "transfer_outcome_marker \<Rightarrow> terminal_claim_tombstone \<Rightarrow> bool" where
  "witnessed m t \<longleftrightarrow> tc_claim_seq t = tm_claim_seq m \<and> tc_amount t = tm_pending_amount m
     \<and> tc_created_at_time_ns t = tm_created_at_time_ns m"

definition same_identity :: "transfer_outcome_marker \<Rightarrow> transfer_outcome_marker \<Rightarrow> bool" where
  "same_identity m m' \<longleftrightarrow> m'\<lparr> tm_unknown := tm_unknown m \<rparr> = m \<and> (tm_unknown m \<longrightarrow> tm_unknown m')"

definition evidence_kept :: "vesting \<Rightarrow> vesting \<Rightarrow> bool" where
  "evidence_kept s s' \<longleftrightarrow>
     (\<forall>t v. fmlookup (vt_tombstones s) t = Some v \<longrightarrow> fmlookup (vt_tombstones s') t = Some v)
     \<and> (\<forall>k m. fmlookup (vt_markers s) k = Some m \<longrightarrow>
          (case fmlookup (vt_markers s') k of
             Some m' \<Rightarrow> same_identity m m'
           | None \<Rightarrow> (case tm_claim_seq m of
               None \<Rightarrow> False
             | Some n \<Rightarrow> (case fmlookup (vt_tombstones s') (tombstone_key k n) of
                 None \<Rightarrow> False | Some t \<Rightarrow> witnessed m t))))"

lemma evidence_refl: "evidence_kept s s"
  by (simp add: evidence_kept_def same_identity_def split: option.splits)

lemma evidence_settle:
  assumes "tm_claim_seq m = Some n" "tm_pending_amount m = Some a"
    and "fmlookup (vt_markers s) key = Some m" "tombstone_key key n |\<notin>| fmdom (vt_tombstones s)"
  shows "evidence_kept s (settle q key m n a now s)"
proof -
  let ?s' = "settle q key m n a now s"
  have t: "fmlookup (vt_tombstones ?s') x =
      (if x = tombstone_key key n then Some \<lparr> tc_claim_seq = Some n, tc_amount = Some a,
            tc_created_at_time_ns = tm_created_at_time_ns m, tc_resolution = q, tc_recorded_at_ns = now \<rparr>
       else fmlookup (vt_tombstones s) x)" for x
    by (auto simp: settle_def)
  have "fmlookup (vt_tombstones s) (tombstone_key key n) = None"
    using assms(4) by (rule fmdom_notD)
  then show ?thesis
    using assms(1-3) by (auto simp: evidence_kept_def t witnessed_def same_identity_def split: option.splits)
qed

lemma evidence_mark:
  assumes "\<And>k. fmlookup (vt_markers s') k = fmlookup (vt_markers s) k
      \<or> fmlookup (vt_markers s') k = map_option (\<lambda>m. m\<lparr> tm_unknown := True \<rparr>) (fmlookup (vt_markers s) k)"
    and "vt_tombstones s' = vt_tombstones s"
  shows "evidence_kept s s'"
  unfolding evidence_kept_def assms(2)
proof (intro conjI allI impI)
  fix k m assume "fmlookup (vt_markers s) k = Some m"
  with assms(1) [of k] show "case fmlookup (vt_markers s') k of
      Some m' \<Rightarrow> same_identity m m'
    | None \<Rightarrow> (case tm_claim_seq m of
        None \<Rightarrow> False
      | Some n \<Rightarrow> (case fmlookup (vt_tombstones s) (tombstone_key k n) of
          None \<Rightarrow> False | Some t \<Rightarrow> witnessed m t))"
    by (auto simp: same_identity_def)
qed

lemma evidence_step:
  assumes inv: "world_inv N w" and b: "vw_issued w < u64_limit - 1" and step: "vesting_step w w'"
  shows "evidence_kept (vw_state w) (vw_state w')"
  using step
proof cases
  case (vs_claim caller s' c)
  from vs_claim(3) show ?thesis
    by (rule claim_start_Inr)
      (use vs_claim(1) in \<open>auto simp: evidence_kept_def same_identity_def split: option.splits\<close>)
next
  case (vs_reply c reply s' r)
  note I = invD [OF inv]
  have a: "fmlookup (vt_markers (vw_state w)) (cc_key c) = Some (cc_marker c)"
      "tm_pending_amount (cc_marker c) = Some (cc_claimable c)"
    using I(7) [OF vs_reply(2)] by (auto simp: await_ok_def)
  have m: "length (cc_key c) \<le> 29" "tm_claim_seq (cc_marker c) = Some (N (cc_key c))"
    using I(3) [OF a(1)] by (auto simp: marker_ok_def)
  have "\<forall>k. N k < u64_limit - 1" using inv_counts [OF inv b] by blast
  note free = dense_next_free [OF I(1) this m(1)]
  show ?thesis
    using inv b vs_reply(2-4)
  proof (cases rule: reply_effect)
    case lost
    then show ?thesis using vs_reply(1) a by (intro evidence_mark) auto
  next
    case (settled q)
    then show ?thesis using evidence_settle [OF m(2) a(2,1) free] vs_reply(1) by simp
  qed
next
  case (vs_reconcile beneficiary d caller s')
  note I = invD [OF inv]
  have N: "\<forall>k. N k < u64_limit - 1" using inv_counts [OF inv b] by blast
  show ?thesis
    using inv b vs_reconcile(2,3)
  proof (cases rule: reconcile_effect)
    case (1 q m a)
    then have "length beneficiary \<le> 29" using I(3) [OF 1(1)] by (auto simp: marker_ok_def)
    from dense_next_free [OF I(1) N this] show ?thesis
      using evidence_settle [OF 1(4,3,1)] 1(5) vs_reconcile(1) by simp
  qed
next
  case (vs_upgrade decode self is_controller raw s')
  then show ?thesis
    using post_upgrade_vesting_Inr(2,3) [OF vs_upgrade(2)] by (intro evidence_mark) auto
qed (simp_all add: evidence_refl)

text \<open>C31: The evidence of a claim is never lost. In any step of any run, every recorded tombstone stays
  exactly as written; and every outstanding marker either stays, with its frozen amount, sequence number
  and time stamp unchanged and never turning from stuck back to in flight, or is gone because a
  tombstone for that very operation, with the same frozen identity, is on record.\<close>

theorem claim_evidence_kept:
  assumes "vesting_run now args w" "vw_issued w < u64_limit - 1" "vesting_step w w'"
  shows "evidence_kept (vw_state w) (vw_state w')"
proof -
  obtain N where "world_inv N w" using vesting_run_inv [OF assms(1,2)] by blast
  then show ?thesis using evidence_step assms(2,3) by blast
qed

text \<open>An upgrade keeps schedules and tombstones, turns every outstanding claim into a stuck one with
  its frozen identity unchanged, and blocks further claims of those beneficiaries. It keeps the token and
  the controller, unless the argument names a new controller that is not anonymous, not the canister, not
  the token and is a controller of the canister; without initialised references it traps.\<close>

theorem vesting_upgrade:
  "case post_upgrade_vesting decode self is_controller raw s of
     Inr s' \<Rightarrow> vt_schedules s' = vt_schedules s \<and> vt_tombstones s' = vt_tombstones s
       \<and> fmlookup (vt_markers s') k = map_option (\<lambda>m. m\<lparr> tm_unknown := True \<rparr>) (fmlookup (vt_markers s) k)
       \<and> claimable_amount now k s'
           = (if fmlookup (vt_markers s) k = None then claimable_amount now k s else 0)
       \<and> (fmlookup (vt_markers s) k = None \<or> claim_start now k s' = fail TransferOutcomeUnknown)
       \<and> (case vt_refs s of
            Some [token, controller] \<Rightarrow>
              vt_token s' = Some token
              \<and> (vt_controller s' = Some controller
                 \<or> (case decode raw of
                      Some (Some arg) \<Rightarrow> (case vu_rebind_controller arg of
                          Some p \<Rightarrow> vt_controller s' = Some p
                            \<and> p \<notin> {anonymous_principal, self, token} \<and> is_controller p
                        | None \<Rightarrow> False)
                    | _ \<Rightarrow> False))
              \<and> get_canister_refs_readback s' = Inr (token, the (vt_controller s'))
          | _ \<Rightarrow> False)
   | Inl e \<Rightarrow> e = Trap"
proof (cases "post_upgrade_vesting decode self is_controller raw s")
  case (Inl e)
  then show ?thesis
    by (auto simp: post_upgrade_vesting_def rebind_controller_def Let_def result_simps
        split: option.splits list.splits if_splits)
next
  case (Inr s')
  note u = post_upgrade_vesting_Inr [OF Inr]
  have "claimable_amount now k s'
      = (if fmlookup (vt_markers s) k = None then claimable_amount now k s else 0)"
    by (auto simp: claimable_amount_def Let_def principal_key_def transfer_outcome_unknown_def u
        split: option.splits)
  moreover have "fmlookup (vt_markers s) k = None \<or> claim_start now k s' = fail TransferOutcomeUnknown"
    by (auto simp: claim_start_def principal_key_def marker_blocks_claim_def u)
  moreover obtain token controller controller' where
    "vt_refs s = Some [token, controller]" "vt_refs s' = Some [token, controller']"
    "vt_token s' = Some token" "vt_controller s' = Some controller'"
    "controller' = controller \<or> (\<exists>arg. decode raw = Some (Some arg)
       \<and> vu_rebind_controller arg = Some controller')
       \<and> controller' \<notin> {anonymous_principal, self, token} \<and> is_controller controller'"
    using u(4) by blast
  ultimately show ?thesis
    using Inr u(1-3) by (auto simp: get_canister_refs_readback_def refs_readback_from_def)
qed

section \<open>A concrete run\<close>

text \<open>One beneficiary with 1000 units, twelve months cliff and thirty-six months linear, claims one month
  after the cliff: 27 units; the ledger executes the transfer, the reply is lost.\<close>

definition exv_t1 :: nat where "exv_t1 = 5 + 13 * NS_PER_MONTH"

definition exv_v0 :: vesting where
  "exv_v0 = (set_canister_refs [9] [8] fresh_vesting)\<lparr> vt_schedules :=
     fmupd [7, 1] (schedule_for 5 (hd (vi_schedules ex_vesting_args))) fmempty \<rparr>"

definition exv_call :: claim_call where
  "exv_call = (case claim_start exv_t1 [7, 1] exv_v0 of Inr (_, c) \<Rightarrow> c | _ \<Rightarrow> undefined)"

definition exv_v1 :: vesting where
  "exv_v1 = (case claim_start exv_t1 [7, 1] exv_v0 of Inr (s, _) \<Rightarrow> s | _ \<Rightarrow> exv_v0)"

lemma exv_init: "init_vesting 5 ex_vesting_args = Inr exv_v0"
  by (simp add: init_vesting_cases NS_PER_MONTH_def ex_vesting_args_def schedule_list_ok_def exv_v0_def)

lemma exv_vested:
  "vested_at (schedule_for 5 (hd (vi_schedules ex_vesting_args))) exv_t1 = 27"
  by (simp add: vested_at_def claimable_at_def schedule_for_def ex_vesting_args_def exv_t1_def
      NS_PER_MONTH_def sat_mul_def Let_def)

lemma exv_claim: "claim_start exv_t1 [7, 1] exv_v0 = Inr (exv_v1, exv_call)"
proof -
  have "\<exists>r. claim_start exv_t1 [7, 1] exv_v0 = Inr r"
    using exv_vested
    by (simp add: claim_start_def Let_def principal_key_def marker_blocks_claim_def claimable_now_def
        claimable_vested pre_increment_def checked_add_def exv_v0_def set_canister_refs_def
        fresh_vesting_def schedule_for_def)
  then show ?thesis by (auto simp: exv_v1_def exv_call_def)
qed

lemma exv_claim_parts:
  "cc_claimable exv_call = 27" "cc_key exv_call = [7, 1]" "it_amount (cc_args exv_call) = 27"
  "ic_owner (it_to (cc_args exv_call)) = [7, 1]"
  "get_schedule [7, 1] exv_v1
     = Some ((schedule_for 5 (hd (vi_schedules ex_vesting_args)))\<lparr> vs_claimed := 27 \<rparr>)"
  "\<exists>m. fmlookup (vt_markers exv_v1) [7, 1] = Some m \<and> \<not> tm_unknown m"
proof -
  have "fmlookup (vt_schedules exv_v0) [7, 1] = Some (schedule_for 5 (hd (vi_schedules ex_vesting_args)))"
    by (simp add: exv_v0_def)
  moreover obtain sch where r: "fmlookup (vt_schedules exv_v0) [7, 1] = Some sch"
      "cc_claimable exv_call = vested_at sch exv_t1 - vs_claimed sch" "cc_key exv_call = [7, 1]"
      "it_amount (cc_args exv_call) = cc_claimable exv_call"
      "ic_owner (it_to (cc_args exv_call)) = [7, 1]" "\<not> tm_unknown (cc_marker exv_call)"
      "exv_v1 = exv_v0\<lparr> vt_schedules := fmupd [7, 1] (sch\<lparr> vs_claimed := vested_at sch exv_t1 \<rparr>) (vt_schedules exv_v0),
         vt_markers := fmupd [7, 1] (cc_marker exv_call) (vt_markers exv_v0) \<rparr>"
    by (rule claim_start_Inr [OF exv_claim]) (rule that; simp)
  ultimately have sch: "sch = schedule_for 5 (hd (vi_schedules ex_vesting_args))" by simp
  show c: "cc_claimable exv_call = 27" using r(2) exv_vested by (simp add: sch schedule_for_def)
  show "cc_key exv_call = [7, 1]" "it_amount (cc_args exv_call) = 27"
    "ic_owner (it_to (cc_args exv_call)) = [7, 1]" using r c by simp_all
  show "get_schedule [7, 1] exv_v1
     = Some ((schedule_for 5 (hd (vi_schedules ex_vesting_args)))\<lparr> vs_claimed := 27 \<rparr>)"
    unfolding r(7) get_schedule_def principal_key_def by (simp add: exv_vested sch)
  show "\<exists>m. fmlookup (vt_markers exv_v1) [7, 1] = Some m \<and> \<not> tm_unknown m" unfolding r(7) using r(6) by simp
qed

definition exv_w1 :: vesting_world where
  "exv_w1 = (vesting_init_world 5 exv_v0)\<lparr> vw_now := exv_t1, vw_state := exv_v1,
     vw_awaiting := [exv_call], vw_sent := [exv_call], vw_issued := 1 \<rparr>"

definition exv_w2 :: vesting_world where
  "exv_w2 = exv_w1\<lparr> vw_sent := [], vw_paid := [exv_call] \<rparr>"

definition exv_w3 :: vesting_world where
  "exv_w3 = exv_w2\<lparr> vw_state := exv_v1\<lparr> vt_markers := fmupd (cc_key exv_call)
       ((cc_marker exv_call)\<lparr> tm_unknown := True \<rparr>) (vt_markers exv_v1) \<rparr>, vw_awaiting := [] \<rparr>"

lemma exv_run1: "vesting_run 5 ex_vesting_args exv_w1"
proof -
  let ?w0 = "vesting_init_world 5 exv_v0"
  have "\<forall>n \<in> set (vi_schedules ex_vesting_args). length (ns_beneficiary n) \<le> 29"
    "(5::nat) + 480 * NS_PER_MONTH < u64_limit"
    by (simp_all add: ex_vesting_args_def NS_PER_MONTH_def)
  then have "vesting_run 5 ex_vesting_args ?w0" using exv_init by (rule vr_init)
  moreover have "vesting_step ?w0 (?w0\<lparr> vw_now := exv_t1 \<rparr>)"
    by (rule vs_time) (simp add: vesting_init_world_def exv_t1_def)
  ultimately have "vesting_run 5 ex_vesting_args (?w0\<lparr> vw_now := exv_t1 \<rparr>)" by (rule vr_step)
  moreover have "vesting_step (?w0\<lparr> vw_now := exv_t1 \<rparr>) exv_w1"
    using vs_claim [of "[7, 1]" "?w0\<lparr> vw_now := exv_t1 \<rparr>" exv_v1 exv_call] exv_claim
    by (simp add: vesting_init_world_def exv_w1_def)
  ultimately show ?thesis by (rule vr_step)
qed

lemma exv_run2: "vesting_run 5 ex_vesting_args exv_w2"
proof -
  have "vesting_step exv_w1 exv_w2"
    using vs_execute [of exv_call exv_w1] by (simp add: exv_w1_def exv_w2_def vesting_init_world_def)
  with exv_run1 show ?thesis by (rule vr_step)
qed

lemma exv_step3: "vesting_step exv_w2 exv_w3"
  using vs_reply [of exv_call exv_w2 CallRejected "vw_state exv_w3"]
  by (simp add: exv_w1_def exv_w2_def exv_w3_def vesting_init_world_def claim_resume_def reply_true_def)

section \<open>Payments\<close>

text \<open>C3: No beneficiary is ever paid more than has vested. In every run of the canister (claims,
  replies in any order, lost replies, reconciliation, upgrades that drop callbacks) the transfers the
  ledger executed to a beneficiary add up to at most the \<open>claimed\<close> counter of the schedule, which is at
  most what has vested at the current time, which is at most the schedule's total. The run asks of the
  outside only that a definite rejection and a verdict of non-execution are true.\<close>

theorem vesting_never_overpays:
  assumes "vesting_run now args w" "vw_issued w < u64_limit - 1"
    and "get_schedule p (vw_state w) = Some sch"
  shows "sum_list (map (\<lambda>c. it_amount (cc_args c))
        (filter (\<lambda>c. ic_owner (it_to (cc_args c)) = p) (vw_paid w))) \<le> vs_claimed sch
    \<and> vs_claimed sch \<le> vested_at sch (vw_now w)
    \<and> vested_at sch (vw_now w) \<le> vs_total_amount sch"
proof -
  obtain N where inv: "world_inv N w" using vesting_run_inv [OF assms(1,2)] by blast
  have sch: "fmlookup (vt_schedules (vw_state w)) p = Some sch"
    using assms(3) by (simp add: get_schedule_def principal_key_def)
  have args: "ic_owner (it_to (cc_args c)) = cc_key c \<and> it_amount (cc_args c) = cc_claimable c"
    if "c \<in> set (vw_paid w)" for c
    using invD(5) [OF inv, of c] that by (auto simp: op_ok_def sent_as_def)
  have "filter (\<lambda>c. ic_owner (it_to (cc_args c)) = p) (vw_paid w) = filter (\<lambda>c. cc_key c = p) (vw_paid w)"
    using args by (intro filter_cong) auto
  then have "map (\<lambda>c. it_amount (cc_args c)) (filter (\<lambda>c. ic_owner (it_to (cc_args c)) = p) (vw_paid w))
      = map cc_claimable (filter (\<lambda>c. cc_key c = p) (vw_paid w))" (is "?paid = _")
    using args by (simp only:) (intro map_cong, auto)
  then have "sum_list ?paid \<le> vs_claimed sch"
    using paid_within_claimed [OF inv sch] by (simp only: filter_append map_append sum_list_append)
  then show ?thesis
    using invD(4) [OF inv sch] vested_le_total [of sch "vw_now w"] unfolding sched_ok_def by blast
qed

theorem vesting_never_overpays_witness:
  "\<exists>w sch. vesting_run 5 ex_vesting_args w \<and> get_schedule [7, 1] (vw_state w) = Some sch
     \<and> vw_paid w = [exv_call] \<and> 27 \<le> vs_claimed sch \<and> vs_claimed sch \<le> vested_at sch (vw_now w)"
proof -
  have g: "get_schedule [7, 1] (vw_state exv_w2)
      = Some ((schedule_for 5 (hd (vi_schedules ex_vesting_args)))\<lparr> vs_claimed := 27 \<rparr>)"
    and p: "vw_paid exv_w2 = [exv_call]" and i: "vw_issued exv_w2 < u64_limit - 1"
    by (simp_all add: exv_w2_def exv_w1_def exv_claim_parts)
  from vesting_never_overpays [OF exv_run2 i g] show ?thesis
    using exv_run2 g p by (intro exI conjI) (auto simp: exv_claim_parts)
qed

text \<open>C18: The ledger identity of a claim is unique: in every run the transfers that were or may still be
  executed carry pairwise different memos, each the claim memo of the beneficiary it pays with a sequence
  number, so the ledger's deduplication never swallows a legitimate later claim.\<close>

theorem claim_identities_unique:
  assumes "vesting_run now args w" "vw_issued w < u64_limit - 1"
  shows "distinct (map (\<lambda>c. it_memo (cc_args c)) (vw_sent w @ vw_paid w))
     \<and> (\<forall>c \<in> set (vw_sent w @ vw_paid w). \<exists>i < u64_limit.
          it_memo (cc_args c) = Some (claim_memo (ic_owner (it_to (cc_args c))) i))"
proof -
  obtain N where inv: "world_inv N w" using vesting_run_inv [OF assms(1,2)] by blast
  let ?ops = "vw_sent w @ vw_paid w"
  note d = invD(6) [OF inv, unfolded distinct_map]
  have ok: "length (cc_key c) \<le> 29 \<and> (\<exists>i. sent_as c i \<and> i < u64_limit)" if c: "c \<in> set ?ops" for c
  proof -
    obtain i where i: "length (cc_key c) \<le> 29" "sent_as c i" "accounted N (vw_state w) (cc_key c) (cc_claimable c) i"
      using op_okE [OF invD(5) [OF inv c]] by blast
    then have "i \<le> N (cc_key c)" by (simp add: accounted_def split: if_splits)
    also have "\<dots> < u64_limit - 1" by (rule inv_counts [OF inv assms(2)])
    finally have "i < u64_limit" by simp
    with i show ?thesis by blast
  qed
  have "inj_on (\<lambda>c. it_memo (cc_args c)) (set ?ops)"
  proof (rule inj_onI)
    fix c e assume c: "c \<in> set ?ops" and e: "e \<in> set ?ops" and eq: "it_memo (cc_args c) = it_memo (cc_args e)"
    obtain i j where i: "sent_as c i" "i < u64_limit" and j: "sent_as e j" "j < u64_limit"
      using ok [OF c] ok [OF e] by blast
    then have "cc_key c = cc_key e \<and> i = j"
      using eq claim_memo_inj [of "cc_key c" "cc_key e" i j] ok [OF c] ok [OF e] by (simp add: sent_as_def)
    then have "cc_id c = cc_id e" using i j by (simp add: cc_id_def sent_as_def)
    then show "c = e" using d c e by (meson inj_onD)
  qed
  with d have "distinct (map (\<lambda>c. it_memo (cc_args c)) ?ops)" unfolding distinct_map by blast
  moreover have "\<exists>i < u64_limit. it_memo (cc_args c) = Some (claim_memo (ic_owner (it_to (cc_args c))) i)"
    if "c \<in> set ?ops" for c
    using ok [OF that] by (auto simp: sent_as_def)
  ultimately show ?thesis by blast
qed

theorem claim_identities_unique_witness:
  "\<exists>w. vesting_run 5 ex_vesting_args w \<and> vw_paid w = [exv_call]
     \<and> distinct (map (\<lambda>c. it_memo (cc_args c)) (vw_sent w @ vw_paid w))"
proof -
  have "vw_paid exv_w2 = [exv_call]" "vw_issued exv_w2 < u64_limit - 1"
    by (simp_all add: exv_w2_def exv_w1_def)
  with claim_identities_unique [OF exv_run2] exv_run2 show ?thesis by blast
qed

theorem claim_evidence_kept_witness:
  "\<exists>w w'. vesting_run 5 ex_vesting_args w \<and> vesting_step w w' \<and> vw_paid w = [exv_call]
     \<and> evidence_kept (vw_state w) (vw_state w')"
proof -
  have "vw_paid exv_w2 = [exv_call]" "vw_issued exv_w2 < u64_limit - 1"
    by (simp_all add: exv_w2_def exv_w1_def)
  with claim_evidence_kept [OF exv_run2 _ exv_step3] exv_run2 exv_step3 show ?thesis by blast
qed

end
