(* ===== verification/Segment.thy ===== *)
theory Segment
  imports Prelude
begin

text \<open>
  Message segments of asynchronous code. A segment runs without an await on the canister's state:
  \<open>None\<close> is a trap, which rolls the segment back; otherwise it ends with a result or an error and the state
  reached, which is committed in both cases.
\<close>

type_synonym ('s, 'e, 'a) segment = "'s \<Rightarrow> (('e + 'a) \<times> 's) option"

definition return_act :: "'a \<Rightarrow> ('s, 'e, 'a) segment" where
  "return_act x s = Some (Inr x, s)"

definition fail_act :: "'e \<Rightarrow> ('s, 'e, 'a) segment" where
  "fail_act e s = Some (Inl e, s)"

definition trap_act :: "('s, 'e, 'a) segment" where
  "trap_act s = None"

definition bind_act :: "('s, 'e, 'a) segment \<Rightarrow> ('a \<Rightarrow> ('s, 'e, 'b) segment) \<Rightarrow> ('s, 'e, 'b) segment" where
  "bind_act m f s = (case m s of
     None \<Rightarrow> None
   | Some (Inl e, s') \<Rightarrow> Some (Inl e, s')
   | Some (Inr x, s') \<Rightarrow> f x s')"

definition get_act :: "('s \<Rightarrow> 'a) \<Rightarrow> ('s, 'e, 'a) segment" where
  "get_act f s = Some (Inr (f s), s)"

definition modify_act :: "('s \<Rightarrow> 's) \<Rightarrow> ('s, 'e, unit) segment" where
  "modify_act f s = Some (Inr (), f s)"

definition need :: "'e \<Rightarrow> 'a option \<Rightarrow> ('s, 'e, 'a) segment" where
  "need e v = (case v of None \<Rightarrow> fail_act e | Some x \<Rightarrow> return_act x)"

lemma action_simps [simp]:
  fixes x :: 'a and s :: 's and e :: 'e and f :: "'s \<Rightarrow> 'b" and g :: "'s \<Rightarrow> 's"
  shows "return_act x s = Some (Inr x, s)" "fail_act e s = Some (Inl e, s)"
    "trap_act s = None" "get_act f s = Some (Inr (f s), s)" "modify_act g s = Some (Inr (), g s)"
    "need e (Some x) = return_act x" "need e None = fail_act e"
  by (simp_all add: return_act_def fail_act_def trap_act_def get_act_def modify_act_def need_def)

lemma bind_return [simp]: "bind_act (return_act x) f = f x"
  by (simp add: bind_act_def fun_eq_iff)

lemma bind_fail [simp]: "bind_act (fail_act e) f = fail_act e"
  by (simp add: bind_act_def fun_eq_iff)

lemma bind_trap [simp]: "bind_act trap_act f = trap_act"
  by (simp add: bind_act_def fun_eq_iff)

lemma bind_get [simp]: "bind_act (get_act g) f s = f (g s) s"
  by (simp add: bind_act_def)

lemma bind_modify [simp]: "bind_act (modify_act h) f s = f () (h s)"
  by (simp add: bind_act_def)

lemma bind_pure [simp]:
  "bind_act (\<lambda>a. Some (Inr x, a)) f = f x" "bind_act (\<lambda>a. Some (Inl e, a)) f = fail_act e"
  by (simp_all add: bind_act_def fun_eq_iff)

lemma bind_step: "m s = Some (Inr x, s') \<Longrightarrow> bind_act m f s = f x s'"
  by (simp add: bind_act_def)

lemma bind_act_Inr [result_simps]:
  "bind_act m f s = Some (Inr y, s'') \<longleftrightarrow> (\<exists>x s'. m s = Some (Inr x, s') \<and> f x s' = Some (Inr y, s''))"
  by (auto simp: bind_act_def split: option.splits sum.splits prod.splits)

lemma bind_act_Inl [result_simps]:
  "bind_act m f s = Some (Inl e, s'') \<longleftrightarrow> m s = Some (Inl e, s'')
     \<or> (\<exists>x s'. m s = Some (Inr x, s') \<and> f x s' = Some (Inl e, s''))"
  by (auto simp: bind_act_def split: option.splits sum.splits prod.splits)

lemma need_Inr [result_simps]: "need e v s = Some (Inr x, s') \<longleftrightarrow> v = Some x \<and> s' = s"
  by (cases v) auto

lemma need_Inl [result_simps]: "need e v s = Some (Inl e', s') \<longleftrightarrow> v = None \<and> e' = e \<and> s' = s"
  by (cases v) auto

text \<open>Resuming one of several suspended futures that are told apart by a key.\<close>

lemma distinct_keys_remove1:
  "distinct (map f W) \<Longrightarrow> distinct (map f (remove1 v W))"
  by (induction W) (auto dest: subsetD [OF set_remove1_subset])

lemma keys_remove1_other:
  "distinct (map f W) \<Longrightarrow> v \<in> set W \<Longrightarrow> f v \<notin> f ` set (remove1 v W)"
  by (induction W) (auto simp: image_iff)

end
