(* ===== verification/Payout_State.thy ===== *)
theory Payout_State
  imports Byte_Codec Segment Icrc_Ledger Fee_Policy
begin

text \<open>
  Payouts of private spends (\<^verbatim>\<open>shielded-pool/src/payout_retry.rs\<close> and its call sites in
  \<^verbatim>\<open>shielded-pool/src/lib.rs\<close>): the control cell with its boot number, sequence counter and memo key; the
  retry state a spend record carries; executors, which own a payout while their guard is alive; and the
  payout itself, one definition per message segment between awaits. An operation is an action on the
  state: \<open>None\<close> is a trap, which rolls the segment back; otherwise a result or an error with the state
  reached so far, which is committed in both cases. HMAC-SHA-256 is a parameter.
\<close>

section \<open>Data\<close>

datatype payout_phase = PreDispatch | MayHaveDispatched

record frozen_payout =
  fp_ledger :: principal
  fp_from_subaccount :: "bytes option"
  fp_destination :: principal
  fp_destination_subaccount :: "bytes option"
  fp_amount :: nat
  fp_fee :: "nat option"
  fp_memo :: "bytes option"
  fp_created_at_time :: "nat option"

record payout_retry_state =
  pr_memo_sequence :: nat
  pr_generation :: nat
  pr_boot :: nat
  pr_phase :: payout_phase
  pr_prior_ambiguity :: bool
  pr_dispatched :: bool
  pr_frozen :: "frozen_payout option"

datatype payout_error =
    PayoutMemoKeyNotReady | PayoutStateInvalid | SpendNotFound | PayoutLegacyHold
  | PayoutNotPending | PayoutExecutorBusy | WrongSpendStatus | PayoutOutcomeUnknown | PayoutOutcomePrivate
  | GrossAmountBelowFees nat nat | EscrowUnderfunded nat nat
  | TransferFailed string | PayoutRejected icrc_transfer_error | Paused | NotInitialised
  | RecoveryInProgress

text \<open>The reason string of a status: a literal of the source, or the debug rendering of an error.\<close>

datatype status_reason = Literal string | DebugOf payout_error

datatype spend_status =
    Requested | OutputsStaged | Finalized
  | FailedBeforeStateChange status_reason | FailedAfterOutputsStaged status_reason
  | VerificationPending | NullifierReserved
  | PayoutPending status_reason | PayoutSubmitting | PayoutUnknown status_reason
  | NullifierInsertUnknown status_reason | NullifierReconcileInFlight
  | NullifierFinalizedOutputsPending | ActiveAppendInFlight | ActiveAppendUnknown status_reason
  | ActiveAppendRejected status_reason | ActiveRootPending | RootAccepted

record pending_public_payout =
  pp_destination :: principal
  pp_destination_subaccount :: "bytes option"
  pp_public_amount :: nat
  pp_protocol_fee :: nat
  pp_block_index :: "nat option"
  pp_ledger_created_at_time_ns :: "nat option"
  pp_retry :: "payout_retry_state option"

record pending_spend =
  ps_spend_id :: nat
  ps_nullifiers :: "bytes list"
  ps_output_commitments :: "bytes list"
  ps_public_payout :: "pending_public_payout option"
  ps_outputs_committed :: nat
  ps_fee :: "nat option"
  ps_status :: spend_status
  ps_created_at_ns :: nat
  ps_submitter :: "principal option"
  ps_finalized_at_ns :: "nat option"
  ps_fee_model_version :: "nat option"
  ps_params_epoch :: "nat option"
  ps_spend_fee_mode :: "spend_fee_mode option"
  ps_fee_split_ops :: "nat option"
  ps_fee_split_insurance :: "nat option"
  ps_fee_split_staking :: "nat option"

record payout_control =
  pc_boot :: nat
  pc_next :: nat
  pc_key :: "bytes option"

text \<open>An executor's identity; its guard holds the same value.\<close>

record attempt =
  at_id :: nat
  at_sequence :: nat
  at_generation :: nat
  at_boot :: nat

record payouts =
  po_control :: bytes
  po_live :: "(nat, attempt) fmap"
  po_spends :: "(nat, pending_spend) fmap"
  po_terminal_index :: "(nat \<times> nat) fset"
  po_active_index :: "(principal \<times> nat) fset"
  po_accrual :: "(nat \<times> nat \<times> nat) option"
  po_controller :: "principal option"
  po_token :: "principal option"
  po_spends_paused :: bool

definition MAX_LIVE_PAYOUT_ATTEMPTS :: nat where "MAX_LIVE_PAYOUT_ATTEMPTS = 64"

definition CONTROL_MAGIC :: bytes where "CONTROL_MAGIC = [83, 84, 83, 72, 82, 49, 53, 1]"

type_synonym 'a action = "(payouts, payout_error, 'a) segment"

section \<open>The control cell\<close>

definition control_encode :: "payout_control \<Rightarrow> bytes" where
  "control_encode c = CONTROL_MAGIC @ le_bytes 8 (pc_boot c) @ le_bytes 16 (pc_next c)
     @ (if pc_key c = None then 0 else 1)
     # (case pc_key c of None \<Rightarrow> replicate 32 0 | Some k \<Rightarrow> k)"

text \<open>\<open>None\<close> is the trap on a missing, foreign or invalid region.\<close>

definition control_decode :: "bytes \<Rightarrow> payout_control option" where
  "control_decode b =
    (if length b \<noteq> 65 \<or> slice 0 8 b \<noteq> CONTROL_MAGIC \<or> b ! 32 > 1 then None
     else
       let boot = le_nat (slice 8 8 b) in
       if boot = 0 \<or> (b ! 32 = 0 \<and> list_ex (\<lambda>v. v \<noteq> 0) (drop 33 b)) then None
       else Some \<lparr> pc_boot = boot, pc_next = le_nat (slice 16 16 b),
         pc_key = (if b ! 32 = 1 then Some (slice 33 32 b) else None) \<rparr>)"

definition control :: "payout_control action" where
  "control s = (case control_decode (po_control s) of None \<Rightarrow> None | Some c \<Rightarrow> Some (Inr c, s))"

definition write_control :: "payout_control \<Rightarrow> payouts \<Rightarrow> payouts" where
  "write_control c s = s\<lparr> po_control := control_encode c \<rparr>"

definition payout_control_init :: "payouts \<Rightarrow> payouts" where
  "payout_control_init s = write_control \<lparr> pc_boot = 1, pc_next = 0, pc_key = None \<rparr> s"

definition payout_control_upgrade :: "nat \<Rightarrow> unit action" where
  "payout_control_upgrade predecessor =
    bind_act
      (if predecessor = 3 then
         bind_act (get_act po_control) (\<lambda>b.
         if b \<noteq> [] then trap_act else modify_act payout_control_init)
       else
         bind_act control (\<lambda>c.
         case checked_add 64 (pc_boot c) 1 of
           None \<Rightarrow> trap_act
         | Some boot \<Rightarrow> modify_act (write_control (c\<lparr> pc_boot := boot \<rparr>))))
      (\<lambda>_. modify_act (\<lambda>s. s\<lparr> po_live := fmempty \<rparr>))"

text \<open>Provisioning the memo key awaits the randomness beacon; the control value read before the await
  is kept to detect an upgrade in between.\<close>

datatype key_progress = KeyReady | KeyAwaitsRandom payout_control

definition ensure_payout_memo_key_start :: "key_progress action" where
  "ensure_payout_memo_key_start =
    bind_act control (\<lambda>initial.
    return_act (if pc_key initial \<noteq> None then KeyReady else KeyAwaitsRandom initial))"

definition ensure_payout_memo_key_resume :: "payout_control \<Rightarrow> bytes option \<Rightarrow> bool action" where
  "ensure_payout_memo_key_resume initial reply =
    bind_act (need PayoutMemoKeyNotReady reply) (\<lambda>bytes.
    if length bytes \<noteq> 32 then fail_act PayoutMemoKeyNotReady
    else
      bind_act control (\<lambda>latest.
      if pc_boot latest \<noteq> pc_boot initial then fail_act PayoutStateInvalid
      else if pc_key latest = None then
        bind_act (modify_act (write_control (latest\<lparr> pc_key := Some bytes \<rparr>))) (\<lambda>_. return_act True)
      else return_act True))"

definition reserve_payout_sequence :: "payout_retry_state action" where
  "reserve_payout_sequence =
    bind_act control (\<lambda>c.
    if pc_key c = None then fail_act PayoutMemoKeyNotReady
    else
      bind_act (need PayoutStateInvalid (checked_add 128 (pc_next c) 1)) (\<lambda>n.
      bind_act (modify_act (write_control (c\<lparr> pc_next := n \<rparr>))) (\<lambda>_.
      return_act \<lparr> pr_memo_sequence = pc_next c, pr_generation = 0, pr_boot = pc_boot c,
        pr_phase = PreDispatch, pr_prior_ambiguity = False, pr_dispatched = False,
        pr_frozen = None \<rparr>)))"

definition MEMO_DOMAIN :: bytes where
  "MEMO_DOMAIN = [115, 116, 115, 104, 46, 112, 114, 105, 118, 97, 116, 101, 45, 112, 97, 121, 111,
     117, 116, 46, 109, 101, 109, 111, 46, 118, 49]"

definition payout_memo ::
  "(bytes \<Rightarrow> bytes \<Rightarrow> bytes) \<Rightarrow> bytes \<Rightarrow> principal \<Rightarrow> principal \<Rightarrow> nat \<Rightarrow> nat \<Rightarrow> bytes" where
  "payout_memo hmac key pool ledger spend_id sequence =
     hmac key (MEMO_DOMAIN @ of_nat (length pool) # pool @ of_nat (length ledger) # ledger
       @ le_bytes 8 spend_id @ le_bytes 16 sequence)"

section \<open>Records and executors\<close>

definition frozen_args :: "frozen_payout \<Rightarrow> icrc_transfer_args" where
  "frozen_args f = \<lparr> it_from_subaccount = fp_from_subaccount f,
     it_to = \<lparr> ic_owner = fp_destination f, ic_subaccount = fp_destination_subaccount f \<rparr>,
     it_amount = fp_amount f, it_fee = fp_fee f, it_memo = fp_memo f,
     it_created_at_time = fp_created_at_time f \<rparr>"

definition payout_record :: "nat \<Rightarrow> payouts \<Rightarrow> pending_spend option" where
  "payout_record spend_id s = fmlookup (po_spends s) spend_id"

definition put_spend :: "nat \<Rightarrow> pending_spend \<Rightarrow> payouts \<Rightarrow> payouts" where
  "put_spend spend_id rec s = s\<lparr> po_spends := fmupd spend_id rec (po_spends s) \<rparr>"

definition retry_of :: "pending_spend \<Rightarrow> payout_retry_state option" where
  "retry_of rec = (case ps_public_payout rec of None \<Rightarrow> None | Some p \<Rightarrow> pp_retry p)"

definition with_retry :: "payout_retry_state \<Rightarrow> pending_spend \<Rightarrow> pending_spend" where
  "with_retry r rec =
     rec\<lparr> ps_public_payout := map_option (\<lambda>p. p\<lparr> pp_retry := Some r \<rparr>) (ps_public_payout rec) \<rparr>"

definition attempt_of :: "nat \<Rightarrow> payout_retry_state \<Rightarrow> attempt option" where
  "attempt_of spend_id r = (case to_width 128 (pr_memo_sequence r) of
     None \<Rightarrow> None
   | Some q \<Rightarrow> Some \<lparr> at_id = spend_id, at_sequence = q, at_generation = pr_generation r,
       at_boot = pr_boot r \<rparr>)"

definition drop_guard :: "attempt \<Rightarrow> payouts \<Rightarrow> payouts" where
  "drop_guard g s =
    (if fmlookup (po_live s) (at_id g) = Some g then s\<lparr> po_live := fmdrop (at_id g) (po_live s) \<rparr>
     else s)"

definition owned :: "attempt \<Rightarrow> pending_spend action" where
  "owned g =
    bind_act (get_act (payout_record (at_id g))) (\<lambda>found.
    bind_act (need SpendNotFound found) (\<lambda>rec.
    bind_act (need PayoutLegacyHold (retry_of rec)) (\<lambda>r.
    if ps_status rec \<noteq> PayoutSubmitting then fail_act PayoutStateInvalid
    else
      bind_act (need PayoutStateInvalid (attempt_of (at_id g) r)) (\<lambda>a.
      bind_act (get_act po_live) (\<lambda>live.
      if a \<noteq> g \<or> fmlookup live (at_id g) \<noteq> Some g then fail_act PayoutStateInvalid
      else return_act rec)))))"

definition frozen_valid :: "pending_public_payout \<Rightarrow> payout_retry_state \<Rightarrow> frozen_payout \<Rightarrow> bool" where
  "frozen_valid p r f =
    (case (to_width 128 (fp_amount f), case fp_fee f of None \<Rightarrow> None | Some n \<Rightarrow> to_width 128 n) of
       (Some amount, Some fee) \<Rightarrow>
         \<not> (amount = 0 \<or> checked_add 128 amount fee \<noteq> Some (pp_public_amount p)
            \<or> fp_destination f \<noteq> pp_destination p
            \<or> fp_destination_subaccount f \<noteq> pp_destination_subaccount p
            \<or> map_option length (fp_memo f) \<noteq> Some 32
            \<or> fp_created_at_time f = None
            \<or> fp_created_at_time f \<noteq> pp_ledger_created_at_time_ns p
            \<or> pr_generation r = 0)
     | _ \<Rightarrow> False)"

definition retry_valid :: "payout_control \<Rightarrow> pending_public_payout \<Rightarrow> payout_retry_state \<Rightarrow> bool" where
  "retry_valid c p r =
    (case to_width 128 (pr_memo_sequence r) of
       None \<Rightarrow> False
     | Some q \<Rightarrow>
         \<not> (pr_boot r = 0 \<or> pr_boot r > pc_boot c \<or> q \<ge> pc_next c
            \<or> (pr_dispatched r \<and> pr_frozen r = None)
            \<or> (pr_phase r = MayHaveDispatched \<and> (\<not> pr_dispatched r \<or> pr_generation r = 0)))
         \<and> (case pr_frozen r of None \<Rightarrow> True | Some f \<Rightarrow> frozen_valid p r f))"

definition validate_retry :: "pending_public_payout \<Rightarrow> unit action" where
  "validate_retry p =
    (case pp_retry p of
       None \<Rightarrow> return_act ()
     | Some r \<Rightarrow>
         bind_act control (\<lambda>c.
         if retry_valid c p r then return_act () else fail_act PayoutStateInvalid))"

definition normalize_payout :: "nat \<Rightarrow> pending_spend action" where
  "normalize_payout spend_id =
    bind_act (get_act (payout_record spend_id)) (\<lambda>found.
    bind_act (need SpendNotFound found) (\<lambda>rec.
    bind_act (case ps_public_payout rec of None \<Rightarrow> return_act () | Some p \<Rightarrow> validate_retry p) (\<lambda>_.
    if ps_status rec \<noteq> PayoutSubmitting then return_act rec
    else
      bind_act (get_act po_live) (\<lambda>live.
      if fmlookup live spend_id \<noteq> None then return_act rec
      else case retry_of rec of
          None \<Rightarrow>
            let rec' = rec\<lparr> ps_status :=
                  PayoutUnknown (Literal ''legacy payout identity unavailable'') \<rparr> in
            bind_act (modify_act (put_spend spend_id rec')) (\<lambda>_. return_act rec')
        | Some r \<Rightarrow>
            bind_act control (\<lambda>c.
            if pr_boot r > pc_boot c \<or> pr_generation r = 0 then fail_act PayoutStateInvalid
            else
              let ambiguous = (pr_phase r = MayHaveDispatched \<or> pr_prior_ambiguity r);
                  rec1 = (if ambiguous then with_retry (r\<lparr> pr_prior_ambiguity := True \<rparr>) rec else rec);
                  rec' = rec1\<lparr> ps_status :=
                    (if ambiguous then PayoutUnknown (Literal ''quiescent payout requires reconciliation'')
                     else PayoutPending (Literal ''quiescent preflight may retry'')) \<rparr>
              in bind_act (modify_act (put_spend spend_id rec')) (\<lambda>_. return_act rec'))))))"

definition is_payout_pending :: "spend_status \<Rightarrow> bool" where
  "is_payout_pending st = (case st of PayoutPending _ \<Rightarrow> True | _ \<Rightarrow> False)"

definition is_payout_unknown :: "spend_status \<Rightarrow> bool" where
  "is_payout_unknown st = (case st of PayoutUnknown _ \<Rightarrow> True | _ \<Rightarrow> False)"

definition claim_payout :: "nat \<Rightarrow> attempt action" where
  "claim_payout spend_id =
    bind_act (normalize_payout spend_id) (\<lambda>rec.
    if \<not> is_payout_pending (ps_status rec) then fail_act PayoutNotPending
    else
      bind_act (need PayoutLegacyHold (retry_of rec)) (\<lambda>r.
      bind_act (get_act po_live) (\<lambda>live.
      if fmlen live \<ge> MAX_LIVE_PAYOUT_ATTEMPTS then fail_act PayoutExecutorBusy
      else if fmlookup live spend_id \<noteq> None then fail_act PayoutNotPending
      else
        bind_act (need PayoutStateInvalid (checked_add 64 (pr_generation r) 1)) (\<lambda>generation.
        bind_act control (\<lambda>c.
        let r' = r\<lparr> pr_generation := generation, pr_boot := pc_boot c, pr_phase := PreDispatch \<rparr> in
        bind_act (need PayoutStateInvalid (attempt_of spend_id r')) (\<lambda>a.
        bind_act (modify_act (\<lambda>s. s\<lparr> po_live := fmupd spend_id a (po_live s) \<rparr>)) (\<lambda>_.
        bind_act (modify_act (put_spend spend_id
          ((with_retry r' rec)\<lparr> ps_status := PayoutSubmitting \<rparr>))) (\<lambda>_.
        return_act a))))))))"

definition finish_error :: "attempt \<Rightarrow> payout_error \<Rightarrow> bool \<Rightarrow> 'a action" where
  "finish_error g error ambiguous =
    bind_act (owned g) (\<lambda>rec.
    case retry_of rec of
      None \<Rightarrow> trap_act
    | Some r \<Rightarrow>
        let r' = r\<lparr> pr_prior_ambiguity := pr_prior_ambiguity r \<or> ambiguous \<rparr>;
            rec' = (with_retry r' rec)\<lparr> ps_status :=
              (if pr_prior_ambiguity r' then PayoutUnknown (DebugOf error)
               else PayoutPending (DebugOf error)) \<rparr>
        in bind_act (modify_act (put_spend (at_id g) rec')) (\<lambda>_. fail_act error))"

section \<open>Terminal transitions\<close>

definition is_terminal_spend_status :: "spend_status \<Rightarrow> bool" where
  "is_terminal_spend_status st = (case st of
     Finalized \<Rightarrow> True | FailedBeforeStateChange _ \<Rightarrow> True | FailedAfterOutputsStaged _ \<Rightarrow> True
   | _ \<Rightarrow> False)"

definition insert_terminal_spend_index :: "nat \<Rightarrow> nat \<Rightarrow> payouts \<Rightarrow> payouts" where
  "insert_terminal_spend_index finalized_at_ns spend_id s =
     s\<lparr> po_terminal_index := finsert (finalized_at_ns, spend_id) (po_terminal_index s) \<rparr>"

definition remove_active_spend_index :: "principal option \<Rightarrow> nat \<Rightarrow> payouts \<Rightarrow> payouts" where
  "remove_active_spend_index submitter spend_id s = (case submitter of
     None \<Rightarrow> s
   | Some o' \<Rightarrow> s\<lparr> po_active_index := po_active_index s |-| {|(o', spend_id)|} \<rparr>)"

definition mark_spend_terminal :: "nat \<Rightarrow> spend_status \<Rightarrow> nat \<Rightarrow> unit action" where
  "mark_spend_terminal spend_id terminal_status now_ns =
    (if \<not> is_terminal_spend_status terminal_status then trap_act
     else
       bind_act (get_act (payout_record spend_id)) (\<lambda>found.
       bind_act (need SpendNotFound found) (\<lambda>rec.
       if is_terminal_spend_status (ps_status rec) then
         (case ps_finalized_at_ns rec of
            Some ts \<Rightarrow> modify_act (\<lambda>s. remove_active_spend_index (ps_submitter rec) spend_id
                (insert_terminal_spend_index ts spend_id s))
          | None \<Rightarrow> modify_act (\<lambda>s. remove_active_spend_index (ps_submitter rec) spend_id
                (insert_terminal_spend_index now_ns spend_id
                  (put_spend spend_id (rec\<lparr> ps_finalized_at_ns := Some now_ns \<rparr>) s))))
       else
         modify_act (\<lambda>s. remove_active_spend_index (ps_submitter rec) spend_id
           (insert_terminal_spend_index now_ns spend_id
             (put_spend spend_id
               (rec\<lparr> ps_finalized_at_ns := Some now_ns, ps_status := terminal_status \<rparr>) s))))))"

definition read_fee_accrual :: "payouts \<Rightarrow> nat \<times> nat \<times> nat" where
  "read_fee_accrual s = (case po_accrual s of None \<Rightarrow> (0, 0, 0) | Some ws \<Rightarrow> ws)"

definition accrue_private_transfer_fee :: "(nat \<times> nat \<times> nat) option \<Rightarrow> payouts \<Rightarrow> payouts" where
  "accrue_private_transfer_fee split s = (case split of
     None \<Rightarrow> s
   | Some (ops, ins, stk) \<Rightarrow>
       (case read_fee_accrual s of (a, b, c) \<Rightarrow>
         s\<lparr> po_accrual := Some (sat_add 128 a ops, sat_add 128 b ins, sat_add 128 c stk) \<rparr>))"

definition stored_split :: "pending_spend \<Rightarrow> (nat \<times> nat \<times> nat) option" where
  "stored_split rec =
    (case (ps_fee_split_ops rec, ps_fee_split_insurance rec, ps_fee_split_staking rec) of
       (Some a, Some i, Some k) \<Rightarrow> Some (a, i, k)
     | _ \<Rightarrow> None)"

definition terminal_payout :: "nat \<Rightarrow> nat option \<Rightarrow> nat \<Rightarrow> unit action" where
  "terminal_payout spend_id block now =
    bind_act (get_act (payout_record spend_id)) (\<lambda>found.
    bind_act (need SpendNotFound found) (\<lambda>rec.
    if ps_status rec = Finalized then return_act ()
    else
      bind_act
        (case block of
           None \<Rightarrow> return_act rec
         | Some b \<Rightarrow>
             bind_act (need WrongSpendStatus (ps_public_payout rec)) (\<lambda>p.
             return_act (rec\<lparr> ps_public_payout := Some (p\<lparr> pp_block_index := Some b \<rparr>) \<rparr>)))
        (\<lambda>rec'.
      bind_act (modify_act (put_spend spend_id rec')) (\<lambda>_.
      bind_act (mark_spend_terminal spend_id Finalized now) (\<lambda>_.
      modify_act (accrue_private_transfer_fee (stored_split rec')))))))"

definition set_spend_status :: "nat \<Rightarrow> spend_status \<Rightarrow> payouts \<Rightarrow> payouts" where
  "set_spend_status spend_id status s = (case payout_record spend_id s of
     None \<Rightarrow> s
   | Some rec \<Rightarrow> put_spend spend_id (rec\<lparr> ps_status := status \<rparr>) s)"

section \<open>One payout, segment by segment\<close>

text \<open>What a suspended payout holds: its guard, and the snapshot of the payout read at the start.\<close>

datatype payout_wait =
    AwaitBalance attempt pending_public_payout principal
  | AwaitFee attempt principal
  | AwaitTransfer attempt

text \<open>The call a suspension makes.\<close>

datatype payout_query =
    BalanceOf principal icrc_account
  | LedgerFee principal
  | SubmitTransfer principal icrc_transfer_args

datatype run_step = Suspended payout_wait payout_query | Settled nat

fun wait_guard :: "payout_wait \<Rightarrow> attempt" where
  "wait_guard (AwaitBalance g p l) = g"
| "wait_guard (AwaitFee g l) = g"
| "wait_guard (AwaitTransfer g) = g"

definition payout_dispatch :: "attempt \<Rightarrow> run_step action" where
  "payout_dispatch g =
    bind_act (owned g) (\<lambda>latest.
    case retry_of latest of
      None \<Rightarrow> trap_act
    | Some r \<Rightarrow>
        bind_act (need PayoutStateInvalid (pr_frozen r)) (\<lambda>frozen.
        bind_act (modify_act (put_spend (at_id g)
          (with_retry (r\<lparr> pr_phase := MayHaveDispatched, pr_dispatched := True \<rparr>) latest))) (\<lambda>_.
        return_act (Suspended (AwaitTransfer g) (SubmitTransfer (fp_ledger frozen) (frozen_args frozen))))))"

definition payout_after_balance ::
  "attempt \<Rightarrow> pending_public_payout \<Rightarrow> principal \<Rightarrow> run_step action" where
  "payout_after_balance g p ledger =
    (case pp_retry p of
       None \<Rightarrow> trap_act
     | Some r \<Rightarrow>
         if pr_frozen r = None then return_act (Suspended (AwaitFee g ledger) (LedgerFee ledger))
         else payout_dispatch g)"

definition run_payout_start :: "principal \<Rightarrow> attempt \<Rightarrow> principal \<Rightarrow> run_step action" where
  "run_payout_start self g configured_ledger =
    bind_act (owned g) (\<lambda>rec.
    case ps_public_payout rec of
      None \<Rightarrow> trap_act
    | Some p \<Rightarrow>
        bind_act (validate_retry p) (\<lambda>_.
        case pp_retry p of
          None \<Rightarrow> trap_act
        | Some r \<Rightarrow>
            let ledger = (case pr_frozen r of None \<Rightarrow> configured_ledger | Some f \<Rightarrow> fp_ledger f) in
            if \<not> pr_dispatched r then
              return_act (Suspended (AwaitBalance g p ledger)
                (BalanceOf ledger \<lparr> ic_owner = self, ic_subaccount =
                  (case pr_frozen r of None \<Rightarrow> None | Some f \<Rightarrow> fp_from_subaccount f) \<rparr>))
            else payout_after_balance g p ledger))"

text \<open>The reply of a query: \<open>None\<close> when the call failed, otherwise the number it returned.\<close>

definition query_result :: "nat option \<Rightarrow> (payout_error + nat)" where
  "query_result reply = (case reply of
     None \<Rightarrow> Inl (TransferFailed ''query failed'')
   | Some v \<Rightarrow> (case to_width 128 v of
       None \<Rightarrow> Inl (TransferFailed ''exceeds u128'')
     | Some n \<Rightarrow> Inr n))"

definition resume_balance ::
  "attempt \<Rightarrow> pending_public_payout \<Rightarrow> principal \<Rightarrow> nat option \<Rightarrow> run_step action" where
  "resume_balance g p ledger reply =
    bind_act (owned g) (\<lambda>_.
    case query_result reply of
      Inl e \<Rightarrow> finish_error g e False
    | Inr available \<Rightarrow>
        if available < pp_public_amount p then
          finish_error g (EscrowUnderfunded (pp_public_amount p) available) False
        else payout_after_balance g p ledger)"

definition freeze_payout ::
  "(bytes \<Rightarrow> bytes \<Rightarrow> bytes) \<Rightarrow> bytes \<Rightarrow> principal \<Rightarrow> principal \<Rightarrow> attempt \<Rightarrow> nat \<Rightarrow> nat
     \<Rightarrow> pending_public_payout \<Rightarrow> nat \<Rightarrow> frozen_payout" where
  "freeze_payout hmac key self ledger g fee stamp payout sequence =
     \<lparr> fp_ledger = ledger, fp_from_subaccount = None, fp_destination = pp_destination payout,
       fp_destination_subaccount = pp_destination_subaccount payout,
       fp_amount = pp_public_amount payout - fee, fp_fee = Some fee,
       fp_memo = Some (payout_memo hmac key self ledger (at_id g) sequence),
       fp_created_at_time = Some stamp \<rparr>"

definition resume_fee ::
  "(bytes \<Rightarrow> bytes \<Rightarrow> bytes) \<Rightarrow> principal \<Rightarrow> nat \<Rightarrow> attempt \<Rightarrow> principal \<Rightarrow> nat option \<Rightarrow> run_step action"
  where
  "resume_fee hmac self now g ledger reply =
    bind_act (owned g) (\<lambda>latest.
    case query_result reply of
      Inl e \<Rightarrow> finish_error g e False
    | Inr fee \<Rightarrow>
      (case ps_public_payout latest of
         None \<Rightarrow> trap_act
       | Some payout \<Rightarrow>
         if pp_public_amount payout \<le> fee then
           finish_error g (GrossAmountBelowFees (pp_public_amount payout) fee) False
         else
           (case pp_retry payout of
              None \<Rightarrow> trap_act
            | Some retry \<Rightarrow>
              bind_act control (\<lambda>c.
              case pc_key c of
                None \<Rightarrow> finish_error g PayoutMemoKeyNotReady False
              | Some key \<Rightarrow>
                bind_act (need PayoutStateInvalid (to_width 128 (pr_memo_sequence retry))) (\<lambda>sequence.
                let f = freeze_payout hmac key self ledger g fee now payout sequence;
                    payout' = payout\<lparr> pp_retry := Some (retry\<lparr> pr_frozen := Some f \<rparr>),
                      pp_ledger_created_at_time_ns := Some now \<rparr>
                in bind_act (modify_act (put_spend (at_id g)
                     (latest\<lparr> ps_public_payout := Some payout' \<rparr>))) (\<lambda>_.
                   payout_dispatch g))))))"

definition rejection_ambiguous :: "icrc_transfer_error \<Rightarrow> bool" where
  "rejection_ambiguous e = (case e of
     BadFee _ \<Rightarrow> True | TooOld \<Rightarrow> True | CreatedInFuture _ \<Rightarrow> True | _ \<Rightarrow> False)"

definition resume_transfer :: "nat \<Rightarrow> attempt \<Rightarrow> transfer_reply \<Rightarrow> run_step action" where
  "resume_transfer now g reply =
    bind_act (owned g) (\<lambda>_.
    case reply of
      TransferOk b \<Rightarrow> bind_act (terminal_payout (at_id g) (Some b) now) (\<lambda>_. return_act (Settled b))
    | TransferErr (Duplicate b) \<Rightarrow>
        bind_act (terminal_payout (at_id g) (Some b) now) (\<lambda>_. return_act (Settled b))
    | TransferErr e \<Rightarrow> finish_error g (PayoutRejected e) (rejection_ambiguous e)
    | CallRejected \<Rightarrow> finish_error g (TransferFailed ''payout transport unknown'') True)"

text \<open>The guard lives as long as the future: a segment that ends the future, with a value or with an
  error, drops it.\<close>

definition run_segment :: "attempt \<Rightarrow> run_step action \<Rightarrow> run_step action" where
  "run_segment g m s = (case m s of
     None \<Rightarrow> None
   | Some (Inl e, s') \<Rightarrow> Some (Inl e, drop_guard g s')
   | Some (Inr (Settled n), s') \<Rightarrow> Some (Inr (Settled n), drop_guard g s')
   | Some (Inr (Suspended w q), s') \<Rightarrow> Some (Inr (Suspended w q), s'))"

section \<open>Endpoints\<close>

definition claim_and_run :: "principal \<Rightarrow> principal \<Rightarrow> nat \<Rightarrow> run_step action" where
  "claim_and_run self ledger spend_id =
    bind_act (claim_payout spend_id) (\<lambda>g. run_segment g (run_payout_start self g ledger))"

text \<open>The recovery gate of the pool reads and advances state of other components; its verdict is an
  argument here.\<close>

definition retry_private_spend_payout_inner ::
  "principal \<Rightarrow> bool \<Rightarrow> nat \<Rightarrow> run_step action" where
  "retry_private_spend_payout_inner self recovered spend_id =
    bind_act (get_act po_spends_paused) (\<lambda>paused.
    if paused then fail_act Paused
    else if \<not> recovered then fail_act RecoveryInProgress
    else
      bind_act (normalize_payout spend_id) (\<lambda>record.
      case ps_status record of
        Finalized \<Rightarrow>
          bind_act (need WrongSpendStatus
            (case ps_public_payout record of None \<Rightarrow> None | Some p \<Rightarrow> pp_block_index p)) (\<lambda>b.
          return_act (Settled b))
      | PayoutUnknown _ \<Rightarrow> fail_act PayoutOutcomeUnknown
      | PayoutSubmitting \<Rightarrow> fail_act PayoutNotPending
      | PayoutPending _ \<Rightarrow>
          bind_act (get_act po_token) (\<lambda>t.
          bind_act (need NotInitialised t) (\<lambda>token. claim_and_run self token spend_id))
      | _ \<Rightarrow> fail_act WrongSpendStatus))"

definition can_read_owned_or_controller :: "principal \<Rightarrow> principal option \<Rightarrow> payouts \<Rightarrow> bool" where
  "can_read_owned_or_controller caller owner s =
     ((caller \<noteq> [4] \<and> owner = Some caller) \<or> po_controller s = Some caller)"

definition retry_authorized :: "principal \<Rightarrow> nat \<Rightarrow> payouts \<Rightarrow> bool" where
  "retry_authorized caller spend_id s = (case payout_record spend_id s of
     Some r \<Rightarrow> can_read_owned_or_controller caller (ps_submitter r) s
   | None \<Rightarrow> po_controller s = Some caller)"

definition mask_outcome :: "bool \<Rightarrow> payout_error + nat \<Rightarrow> payout_error + nat" where
  "mask_outcome authorized result = (if authorized then result else Inl PayoutOutcomePrivate)"

datatype payout_outcome = OutcomeExecuted nat | OutcomeNotExecuted

datatype reconcile_payout_result = ReconciledFinalized nat | RevertedToPending | AlreadyExecuted nat

definition reconcile_settle ::
  "nat \<Rightarrow> nat \<Rightarrow> payout_outcome \<Rightarrow> pending_spend \<Rightarrow> reconcile_payout_result action" where
  "reconcile_settle now spend_id outcome record =
    (case outcome of
       OutcomeExecuted b \<Rightarrow>
         bind_act (terminal_payout spend_id (Some b) now) (\<lambda>_. return_act (ReconciledFinalized b))
     | OutcomeNotExecuted \<Rightarrow>
         if (case retry_of record of None \<Rightarrow> None | Some r \<Rightarrow> pr_frozen r) = None
         then fail_act PayoutLegacyHold
         else
           bind_act (modify_act (set_spend_status spend_id
             (PayoutPending (Literal ''controller reconciled: payout NOT executed'')))) (\<lambda>_.
           return_act RevertedToPending))"

definition reconcile_private_spend_payout ::
  "nat \<Rightarrow> principal \<Rightarrow> bool \<Rightarrow> nat \<Rightarrow> payout_outcome \<Rightarrow> reconcile_payout_result action" where
  "reconcile_private_spend_payout now caller recovered spend_id outcome =
    bind_act (get_act po_controller) (\<lambda>controller.
    if controller \<noteq> Some caller then trap_act
    else if \<not> recovered then fail_act RecoveryInProgress
    else
      bind_act (normalize_payout spend_id) (\<lambda>record.
      case ps_status record of
        PayoutSubmitting \<Rightarrow> fail_act PayoutNotPending
      | Finalized \<Rightarrow>
          bind_act (need WrongSpendStatus
            (case ps_public_payout record of None \<Rightarrow> None | Some p \<Rightarrow> pp_block_index p)) (\<lambda>b.
          return_act (AlreadyExecuted b))
      | PayoutUnknown _ \<Rightarrow> reconcile_settle now spend_id outcome record
      | PayoutPending _ \<Rightarrow>
          if ps_public_payout record = None \<or> retry_of record \<noteq> None then fail_act WrongSpendStatus
          else if outcome = OutcomeNotExecuted then fail_act PayoutLegacyHold
          else reconcile_settle now spend_id outcome record
      | _ \<Rightarrow> fail_act WrongSpendStatus))"

text \<open>The tail of \<^verbatim>\<open>finalize_promotion\<close>: the spend is promoted and accounted for; a payout, if any, is
  recorded as owed and, on the direct path, attempted at once.\<close>

datatype promote_result = PromoteFinalized | PromotePayoutPending | PromoteRunning payout_wait payout_query

definition finish_promotion ::
  "principal \<Rightarrow> principal \<Rightarrow> nat \<Rightarrow> nat \<Rightarrow> pending_spend \<Rightarrow> bool \<Rightarrow> promote_result action" where
  "finish_promotion self token now spend_id pending attempt_payout =
    (if ps_public_payout pending = None then
       bind_act (terminal_payout spend_id None now) (\<lambda>_. return_act PromoteFinalized)
     else if \<not> attempt_payout then
       bind_act (modify_act (set_spend_status spend_id
         (PayoutPending (Literal ''promoted: outputs appended + root accepted; public payout outstanding''))))
         (\<lambda>_. return_act PromotePayoutPending)
     else
       bind_act (modify_act (set_spend_status spend_id
         (PayoutPending (Literal ''promoted payout outstanding'')))) (\<lambda>_ s.
       case claim_payout spend_id s of
         None \<Rightarrow> None
       | Some (Inl PayoutExecutorBusy, s') \<Rightarrow> Some (Inr PromotePayoutPending, s')
       | Some (Inl e, s') \<Rightarrow> Some (Inl e, s')
       | Some (Inr g, s') \<Rightarrow>
           bind_act (run_segment g (run_payout_start self g token)) (\<lambda>r. case r of
             Settled b \<Rightarrow> return_act PromoteFinalized
           | Suspended w q \<Rightarrow> return_act (PromoteRunning w q)) s'))"

end
