(* ===== verification/Payout_Runs.thy ===== *)
theory Payout_Runs
  imports Payout_State
begin

text \<open>
  Runs of the payout machinery: admissions that reserve a sequence number, promotions, retries by
  anybody, replies in any order, callbacks that trap and lose their executor, reconciliation, key
  provisioning and upgrades. A world is the payout state, the clock, the suspended payouts, the suspended
  key provisionings, and, as a ghost, every transfer ever submitted with the sequence number it was
  submitted for. The invariant \<open>payout_inv\<close> ties records, executors and submitted transfers together.
\<close>

section \<open>Worlds and steps\<close>

type_synonym submission = "nat \<times> principal \<times> icrc_transfer_args"

record payout_world =
  pw_state :: payouts
  pw_now :: nat
  pw_waiting :: "payout_wait list"
  pw_key_waiting :: "payout_control list"
  pw_sent :: "submission list"

definition submissions :: "payout_wait \<Rightarrow> payout_query \<Rightarrow> submission list" where
  "submissions w q = (case q of
     SubmitTransfer l a \<Rightarrow> [(at_sequence (wait_guard w), l, a)]
   | _ \<Rightarrow> [])"

text \<open>What a segment leaves behind.\<close>

definition absorb :: "payout_world \<Rightarrow> (payout_error + run_step) \<times> payouts \<Rightarrow> payout_world" where
  "absorb w r = (case r of
     (Inr (Suspended wt q), s) \<Rightarrow>
       w\<lparr> pw_state := s, pw_waiting := wt # pw_waiting w, pw_sent := submissions wt q @ pw_sent w \<rparr>
   | (_, s) \<Rightarrow> w\<lparr> pw_state := s \<rparr>)"

text \<open>The reply a suspended payout gets: a number, nothing because the query failed, or the outcome of
  the transfer call.\<close>

datatype payout_reply = QueryReply "nat option" | LedgerReply transfer_reply

fun resume :: "(bytes \<Rightarrow> bytes \<Rightarrow> bytes) \<Rightarrow> principal \<Rightarrow> nat \<Rightarrow> payout_wait \<Rightarrow> payout_reply \<Rightarrow> run_step action" where
  "resume hmac self now (AwaitBalance g p l) (QueryReply v) = run_segment g (resume_balance g p l v)"
| "resume hmac self now (AwaitFee g l) (QueryReply v) = run_segment g (resume_fee hmac self now g l v)"
| "resume hmac self now (AwaitTransfer g) (LedgerReply r) = run_segment g (resume_transfer now g r)"
| "resume hmac self now w r = trap_act"

definition payout_stage :: "spend_status \<Rightarrow> bool" where
  "payout_stage st \<longleftrightarrow> is_payout_pending st \<or> st = PayoutSubmitting \<or> is_payout_unknown st"

definition admitted_record :: "payout_retry_state \<Rightarrow> pending_spend \<Rightarrow> bool" where
  "admitted_record r rec \<longleftrightarrow> ps_status rec = VerificationPending
     \<and> (case ps_public_payout rec of
          None \<Rightarrow> False
        | Some p \<Rightarrow> pp_retry p = Some r \<and> pp_public_amount p < u128_limit
            \<and> pp_ledger_created_at_time_ns p = None)"

inductive payout_step ::
  "(bytes \<Rightarrow> bytes \<Rightarrow> bytes) \<Rightarrow> principal \<Rightarrow> payout_world \<Rightarrow> payout_world \<Rightarrow> bool" for hmac self where
  py_time: "pw_now w \<le> t \<Longrightarrow> payout_step hmac self w (w\<lparr> pw_now := t \<rparr>)"
| py_admit: "fmlookup (po_spends (pw_state w)) i = None \<Longrightarrow>
    reserve_payout_sequence (pw_state w) = Some (Inr r, s) \<Longrightarrow> admitted_record r rec \<Longrightarrow>
    payout_step hmac self w (w\<lparr> pw_state := put_spend i rec s \<rparr>)"
| py_admit_plain: "fmlookup (po_spends (pw_state w)) i = None \<Longrightarrow> ps_public_payout rec = None \<Longrightarrow>
    \<not> payout_stage (ps_status rec) \<Longrightarrow>
    payout_step hmac self w (w\<lparr> pw_state := put_spend i rec (pw_state w) \<rparr>)"
| py_progress: "fmlookup (po_spends (pw_state w)) i = Some rec \<Longrightarrow> \<not> payout_stage (ps_status rec) \<Longrightarrow>
    ps_status rec \<noteq> Finalized \<Longrightarrow> \<not> payout_stage st \<Longrightarrow> st \<noteq> Finalized \<Longrightarrow>
    payout_step hmac self w (w\<lparr> pw_state :=
      put_spend i (rec\<lparr> ps_status := st, ps_finalized_at_ns := x \<rparr>) (pw_state w) \<rparr>)"
| py_forget: "fmlookup (po_spends (pw_state w)) i = Some rec \<Longrightarrow> \<not> payout_stage (ps_status rec) \<Longrightarrow>
    payout_step hmac self w (w\<lparr> pw_state :=
      (pw_state w)\<lparr> po_spends := fmdrop i (po_spends (pw_state w)) \<rparr> \<rparr>)"
| py_promote: "fmlookup (po_spends (pw_state w)) i = Some rec \<Longrightarrow> ps_status rec = RootAccepted \<Longrightarrow>
    finish_promotion self token (pw_now w) i rec attempt_payout (pw_state w) = Some (r, s) \<Longrightarrow>
    payout_step hmac self w (absorb w (case r of
        Inr (PromoteRunning wt q) \<Rightarrow> Inr (Suspended wt q)
      | Inr _ \<Rightarrow> Inl PayoutNotPending
      | Inl e \<Rightarrow> Inl e, s))"
| py_retry: "retry_private_spend_payout_inner self recovered i (pw_state w) = Some r \<Longrightarrow>
    payout_step hmac self w (absorb w r)"
| py_resume: "wt \<in> set (pw_waiting w) \<Longrightarrow>
    resume hmac self (pw_now w) wt reply (pw_state w) = Some r \<Longrightarrow>
    payout_step hmac self w (absorb (w\<lparr> pw_waiting := remove1 wt (pw_waiting w) \<rparr>) r)"
| py_lost: "wt \<in> set (pw_waiting w) \<Longrightarrow>
    payout_step hmac self w (w\<lparr> pw_waiting := remove1 wt (pw_waiting w),
      pw_state := drop_guard (wait_guard wt) (pw_state w) \<rparr>)"
| py_reconcile: "reconcile_private_spend_payout (pw_now w) caller recovered i outcome (pw_state w)
      = Some (r, s) \<Longrightarrow>
    payout_step hmac self w (w\<lparr> pw_state := s \<rparr>)"
| py_key_start: "ensure_payout_memo_key_start (pw_state w) = Some (Inr (KeyAwaitsRandom c), s) \<Longrightarrow>
    payout_step hmac self w (w\<lparr> pw_state := s, pw_key_waiting := c # pw_key_waiting w \<rparr>)"
| py_key_resume: "c \<in> set (pw_key_waiting w) \<Longrightarrow>
    ensure_payout_memo_key_resume c reply (pw_state w) = Some (r, s) \<Longrightarrow>
    payout_step hmac self w (w\<lparr> pw_state := s, pw_key_waiting := remove1 c (pw_key_waiting w) \<rparr>)"
| py_upgrade: "predecessor \<noteq> 3 \<Longrightarrow> payout_control_upgrade predecessor (pw_state w) = Some (Inr (), s) \<Longrightarrow>
    payout_step hmac self w (w\<lparr> pw_state := s, pw_waiting := [], pw_key_waiting := [] \<rparr>)"

text \<open>A pool starts either by installation, with no spends, or by adopting the spends of a predecessor
  that had no retry state.\<close>

definition payout_start :: "payouts \<Rightarrow> payouts \<Rightarrow> bool" where
  "payout_start s0 s \<longleftrightarrow> po_live s0 = fmempty
     \<and> (po_spends s0 = fmempty \<and> s = payout_control_init s0
        \<or> (\<forall>i rec. fmlookup (po_spends s0) i = Some rec \<longrightarrow> retry_of rec = None)
          \<and> payout_control_upgrade 3 s0 = Some (Inr (), s))"

inductive payout_run :: "(bytes \<Rightarrow> bytes \<Rightarrow> bytes) \<Rightarrow> principal \<Rightarrow> payout_world \<Rightarrow> bool" for hmac self where
  pn_start: "payout_start s0 s \<Longrightarrow> payout_run hmac self \<lparr> pw_state = s, pw_now = t, pw_waiting = [],
     pw_key_waiting = [], pw_sent = [] \<rparr>"
| pn_step: "payout_run hmac self w \<Longrightarrow> payout_step hmac self w w' \<Longrightarrow> payout_run hmac self w'"

section \<open>The control codec\<close>

definition control_ok :: "payout_control \<Rightarrow> bool" where
  "control_ok c \<longleftrightarrow> 0 < pc_boot c \<and> pc_boot c < u64_limit \<and> pc_next c < u128_limit
     \<and> (case pc_key c of None \<Rightarrow> True | Some k \<Rightarrow> length k = 32)"

lemma control_decode_encode:
  assumes "control_ok c"
  shows "control_decode (control_encode c) = Some c"
proof -
  let ?m = CONTROL_MAGIC and ?b = "le_bytes 8 (pc_boot c)" and ?n = "le_bytes 16 (pc_next c)"
  let ?tag = "(if pc_key c = None then 0 else 1) :: byte"
  let ?k = "(case pc_key c of None \<Rightarrow> replicate 32 0 | Some k \<Rightarrow> k)"
  have lens: "length ?m = 8" "length ?k = 32"
    using assms by (auto simp: CONTROL_MAGIC_def control_ok_def split: option.splits)
  have e: "control_encode c = ?m @ ?b @ ?n @ ?tag # ?k" by (simp add: control_encode_def)
  have len: "length (control_encode c) = 65" unfolding e using lens by simp
  have s: "slice 0 8 (control_encode c) = ?m" "slice 8 8 (control_encode c) = ?b"
      "slice 16 16 (control_encode c) = ?n" "slice 33 32 (control_encode c) = ?k"
    unfolding e slice_def using lens by simp_all
  have tag: "control_encode c ! 32 = ?tag" "drop 33 (control_encode c) = ?k"
    unfolding e using lens by (simp_all add: nth_append)
  have w: "le_nat ?b = pc_boot c" "le_nat ?n = pc_next c"
    using assms by (simp_all add: control_ok_def)
  have eta: "\<lparr> pc_boot = pc_boot c, pc_next = pc_next c, pc_key = pc_key c \<rparr> = c" by simp
  show ?thesis
  proof (cases "pc_key c")
    case None
    then show ?thesis
      using assms len s tag w eta
      by (simp add: control_decode_def Let_def control_ok_def list_ex_iff)
  next
    case (Some k)
    then show ?thesis
      using assms len s tag w eta
      by (simp add: control_decode_def Let_def control_ok_def list_ex_iff)
  qed
qed

lemma control_decode_ok: "control_decode b = Some c \<Longrightarrow> control_ok c"
proof -
  assume d: "control_decode b = Some c"
  then have len: "length b = 65" by (auto simp: control_decode_def split: if_splits)
  then have l: "length (slice 8 8 b) = 8" "length (slice 16 16 b) = 16" "length (slice 33 32 b) = 32"
    by (simp_all add: slice_def)
  have "le_nat (slice 8 8 b) < 256 ^ 8" "le_nat (slice 16 16 b) < 256 ^ 16"
    using le_nat_lt [of "slice 8 8 b"] le_nat_lt [of "slice 16 16 b"] l by simp_all
  with d l show "control_ok c"
    by (auto simp: control_decode_def control_ok_def Let_def split: if_splits)
qed

lemma split_65:
  assumes "length b = 65"
  shows "b = slice 0 8 b @ slice 8 8 b @ slice 16 16 b @ b ! 32 # drop 33 b"
    and "slice 33 32 b = drop 33 b"
proof -
  have "drop 32 b = b ! 32 # drop 33 b"
    using assms Cons_nth_drop_Suc [of 32 b] by simp
  moreover have cut: "drop n b = slice n k b @ drop (n + k) b" for n k
    by (simp add: slice_def add.commute flip: drop_drop)
  have "b = slice 0 8 b @ slice 8 8 b @ slice 16 16 b @ drop 32 b"
    using cut [of 0 8] cut [of 8 8] cut [of 16 16] by simp
  ultimately show "b = slice 0 8 b @ slice 8 8 b @ slice 16 16 b @ b ! 32 # drop 33 b" by (simp only:)
  show "slice 33 32 b = drop 33 b" using assms by (simp add: slice_def)
qed

lemma byte_le_one: "\<not> 1 < (x::byte) \<Longrightarrow> x = 0 \<or> x = 1"
proof -
  assume "\<not> 1 < x"
  then have "unat x \<le> 1" by (simp add: word_less_nat_alt)
  then have "unat x = unat (0::byte) \<or> unat x = unat (1::byte)" by auto
  then show ?thesis by (simp only: word_unat_eq_iff)
qed

lemma control_encode_decode:
  assumes "control_decode b = Some c"
  shows "control_encode c = b"
proof -
  have len: "length b = 65" and magic: "slice 0 8 b = CONTROL_MAGIC"
    and boot: "pc_boot c = le_nat (slice 8 8 b)" and "pc_next c = le_nat (slice 16 16 b)"
    and key: "pc_key c = (if b ! 32 = 1 then Some (drop 33 b) else None)"
    and tag: "b ! 32 = 0 \<or> b ! 32 = 1" and zero: "b ! 32 = 0 \<Longrightarrow> \<forall>v \<in> set (drop 33 b). v = 0"
    using assms split_65(2) [of b] byte_le_one [of "b ! 32"]
    by (auto simp: control_decode_def Let_def list_ex_iff split: if_splits)
  then have w: "le_bytes 8 (pc_boot c) = slice 8 8 b" "le_bytes 16 (pc_next c) = slice 16 16 b"
    using le_bytes_le_nat [of "slice 8 8 b"] le_bytes_le_nat [of "slice 16 16 b"]
    by (simp_all add: slice_def)
  have "b ! 32 = 0 \<Longrightarrow> drop 33 b = replicate 32 0"
    using zero len by (intro replicate_eqI) auto
  then have "(if pc_key c = None then 0 else 1)
      # (case pc_key c of None \<Rightarrow> replicate 32 0 | Some k \<Rightarrow> k) = b ! 32 # drop 33 b"
    using tag key by auto
  then show ?thesis
    unfolding control_encode_def w magic [symmetric] using split_65(1) [OF len] by (simp only:)
qed

section \<open>The invariant\<close>

definition rec_ok :: "payout_control \<Rightarrow> pending_spend \<Rightarrow> bool" where
  "rec_ok c rec \<longleftrightarrow> (case ps_public_payout rec of
     None \<Rightarrow> True
   | Some p \<Rightarrow> (case pp_retry p of
       None \<Rightarrow> True
     | Some r \<Rightarrow> pp_public_amount p < u128_limit \<and> retry_valid c p r))"

definition seq_of :: "pending_spend \<Rightarrow> nat option" where
  "seq_of rec = map_option pr_memo_sequence (retry_of rec)"

definition frozen_of :: "pending_spend \<Rightarrow> frozen_payout option" where
  "frozen_of rec = (case retry_of rec of None \<Rightarrow> None | Some r \<Rightarrow> pr_frozen r)"

text \<open>What a suspended payout may rely on: its record is the one it claimed, and nobody froze it behind
  its back.\<close>

definition executing :: "pending_spend \<Rightarrow> attempt \<Rightarrow> bool" where
  "executing rec g \<longleftrightarrow> ps_status rec = PayoutSubmitting
     \<and> (case retry_of rec of
          None \<Rightarrow> False
        | Some r \<Rightarrow> attempt_of (at_id g) r = Some g \<and> pr_generation r \<noteq> 0)"

fun wait_ok :: "pending_spend \<Rightarrow> payout_wait \<Rightarrow> bool" where
  "wait_ok rec (AwaitBalance g p l) \<longleftrightarrow> executing rec g \<and> ps_public_payout rec = Some p"
| "wait_ok rec (AwaitFee g l) \<longleftrightarrow> executing rec g \<and> frozen_of rec = None"
| "wait_ok rec (AwaitTransfer g) \<longleftrightarrow> executing rec g \<and> frozen_of rec \<noteq> None"

definition sub_ok :: "payout_control \<Rightarrow> (nat, pending_spend) fmap \<Rightarrow> submission \<Rightarrow> bool" where
  "sub_ok c spends x \<longleftrightarrow> (case x of (q, l, a) \<Rightarrow>
     q < pc_next c
     \<and> (\<forall>i rec. fmlookup spends i = Some rec \<longrightarrow> seq_of rec = Some q \<longrightarrow>
          (case frozen_of rec of None \<Rightarrow> False | Some f \<Rightarrow> l = fp_ledger f \<and> a = frozen_args f)))"

definition payout_inv ::
  "payout_control \<Rightarrow> (nat, pending_spend) fmap \<Rightarrow> (nat, attempt) fmap \<Rightarrow> payout_wait list
     \<Rightarrow> submission list \<Rightarrow> bool" where
  "payout_inv c spends live waiting sent \<longleftrightarrow>
     (\<forall>i rec. fmlookup spends i = Some rec \<longrightarrow> rec_ok c rec)
     \<and> (\<forall>i j rec rec' q. fmlookup spends i = Some rec \<longrightarrow> fmlookup spends j = Some rec' \<longrightarrow>
          seq_of rec = Some q \<longrightarrow> seq_of rec' = Some q \<longrightarrow> i = j)
     \<and> (\<forall>x \<in> set sent. sub_ok c spends x)
     \<and> (\<forall>q l a l' a'. (q, l, a) \<in> set sent \<longrightarrow> (q, l', a') \<in> set sent \<longrightarrow> l = l' \<and> a = a')
     \<and> (\<forall>w \<in> set waiting. \<exists>rec. fmlookup spends (at_id (wait_guard w)) = Some rec \<and> wait_ok rec w)
     \<and> distinct (map (at_id \<circ> wait_guard) waiting)
     \<and> (\<forall>i a. fmlookup live i = Some a \<longleftrightarrow> (\<exists>w \<in> set waiting. wait_guard w = a \<and> at_id a = i))
     \<and> fmlen live \<le> 64"

lemma payout_invD:
  assumes "payout_inv c spends live waiting sent"
  shows "fmlookup spends i = Some rec \<Longrightarrow> rec_ok c rec"
    and "fmlookup spends i = Some rec \<Longrightarrow> fmlookup spends j = Some rec' \<Longrightarrow> seq_of rec = Some q
      \<Longrightarrow> seq_of rec' = Some q \<Longrightarrow> i = j"
    and "x \<in> set sent \<Longrightarrow> sub_ok c spends x"
    and "(q, l, a) \<in> set sent \<Longrightarrow> (q, l', a') \<in> set sent \<Longrightarrow> l = l' \<and> a = a'"
    and "w \<in> set waiting \<Longrightarrow> \<exists>rec. fmlookup spends (at_id (wait_guard w)) = Some rec \<and> wait_ok rec w"
    and "distinct (map (at_id \<circ> wait_guard) waiting)"
    and "fmlookup live i = Some g \<longleftrightarrow> (\<exists>w \<in> set waiting. wait_guard w = g \<and> at_id g = i)"
    and "fmlen live \<le> 64"
  using assms unfolding payout_inv_def by blast+

lemma payout_invI:
  assumes "\<And>i rec. fmlookup spends i = Some rec \<Longrightarrow> rec_ok c rec"
    and "\<And>i j rec rec' q. fmlookup spends i = Some rec \<Longrightarrow> fmlookup spends j = Some rec' \<Longrightarrow>
      seq_of rec = Some q \<Longrightarrow> seq_of rec' = Some q \<Longrightarrow> i = j"
    and "\<And>x. x \<in> set sent \<Longrightarrow> sub_ok c spends x"
    and "\<And>q l a l' a'. (q, l, a) \<in> set sent \<Longrightarrow> (q, l', a') \<in> set sent \<Longrightarrow> l = l' \<and> a = a'"
    and "\<And>w. w \<in> set waiting \<Longrightarrow> \<exists>rec. fmlookup spends (at_id (wait_guard w)) = Some rec \<and> wait_ok rec w"
    and "distinct (map (at_id \<circ> wait_guard) waiting)"
    and "\<And>i a. fmlookup live i = Some a \<longleftrightarrow> (\<exists>w \<in> set waiting. wait_guard w = a \<and> at_id a = i)"
    and "fmlen live \<le> 64"
  shows "payout_inv c spends live waiting sent"
  using assms unfolding payout_inv_def by blast

text \<open>Every operation touches one record and at most that record's executor. \<open>others\<close> are the
  executors of other spends; \<open>h\<close> is the executor the operation leaves behind, if any.\<close>

definition others :: "nat \<Rightarrow> payout_wait list \<Rightarrow> payout_wait list" where
  "others i waiting = filter (\<lambda>w. at_id (wait_guard w) \<noteq> i) waiting"

definition holders :: "payout_wait option \<Rightarrow> nat \<Rightarrow> payout_wait list \<Rightarrow> payout_wait list" where
  "holders h i waiting = (case h of None \<Rightarrow> others i waiting | Some w \<Rightarrow> w # others i waiting)"

definition live_with :: "payout_wait option \<Rightarrow> nat \<Rightarrow> (nat, attempt) fmap \<Rightarrow> (nat, attempt) fmap" where
  "live_with h i live = (case h of None \<Rightarrow> fmdrop i live | Some w \<Rightarrow> fmupd i (wait_guard w) live)"

lemma in_holders:
  "w \<in> set (holders h i waiting) \<longleftrightarrow> h = Some w \<or> w \<in> set waiting \<and> at_id (wait_guard w) \<noteq> i"
  by (auto simp: holders_def others_def split: option.splits)

lemma rec_ok_seq: "rec_ok c rec \<Longrightarrow> seq_of rec = Some q \<Longrightarrow> q < pc_next c"
  by (auto simp: rec_ok_def seq_of_def retry_of_def retry_valid_def to_width_def
      split: option.splits if_splits)

lemma fmlen_drop: "fmlen (fmdrop k m) \<le> fmlen m"
  by (auto simp: fmlen_def intro!: fcard_mono)

lemma sub_okD:
  assumes "sub_ok c spends (q, l, a)"
  shows "q < pc_next c"
    and "fmlookup spends i = Some rec \<Longrightarrow> seq_of rec = Some q \<Longrightarrow>
      \<exists>f. frozen_of rec = Some f \<and> l = fp_ledger f \<and> a = frozen_args f"
proof -
  have all: "q < pc_next c \<and> (\<forall>i rec. fmlookup spends i = Some rec \<longrightarrow> seq_of rec = Some q \<longrightarrow>
      (case frozen_of rec of None \<Rightarrow> False | Some f \<Rightarrow> l = fp_ledger f \<and> a = frozen_args f))"
    using assms unfolding sub_ok_def prod.case .
  then show "q < pc_next c" by blast
  assume "fmlookup spends i = Some rec" "seq_of rec = Some q"
  with all have "case frozen_of rec of None \<Rightarrow> False | Some f \<Rightarrow> l = fp_ledger f \<and> a = frozen_args f"
    by blast
  then show "\<exists>f. frozen_of rec = Some f \<and> l = fp_ledger f \<and> a = frozen_args f"
    by (simp split: option.splits)
qed

lemma sub_okI:
  assumes "q < pc_next c"
    and "\<And>i rec. fmlookup spends i = Some rec \<Longrightarrow> seq_of rec = Some q \<Longrightarrow>
      \<exists>f. frozen_of rec = Some f \<and> l = fp_ledger f \<and> a = frozen_args f"
  shows "sub_ok c spends (q, l, a)"
  unfolding sub_ok_def prod.case
proof (intro conjI allI impI)
  fix i rec assume "fmlookup spends i = Some rec" "seq_of rec = Some q"
  from assms(2) [OF this] show "case frozen_of rec of None \<Rightarrow> False
    | Some f \<Rightarrow> l = fp_ledger f \<and> a = frozen_args f" by auto
qed (fact assms(1))

lemma sub_ok_update:
  assumes "sub_ok c spends x" "fmlookup spends i = Some rec" "seq_of rec' = seq_of rec"
    and "\<And>f. frozen_of rec = Some f \<Longrightarrow> frozen_of rec' = Some f"
  shows "sub_ok c (fmupd i rec' spends) x"
proof (cases x)
  case (fields q l a)
  note ok = assms(1) [unfolded fields]
  show ?thesis unfolding fields
  proof (rule sub_okI)
    fix j r assume j: "fmlookup (fmupd i rec' spends) j = Some r" "seq_of r = Some q"
    show "\<exists>f. frozen_of r = Some f \<and> l = fp_ledger f \<and> a = frozen_args f"
    proof (cases "j = i")
      case True
      then have r: "r = rec'" using j(1) by simp
      then have "seq_of rec = Some q" using j(2) assms(3) by simp
      from sub_okD(2) [OF ok assms(2) this] r assms(4) show ?thesis by blast
    next
      case False
      then have "fmlookup spends j = Some r" using j(1) by simp
      from sub_okD(2) [OF ok this j(2)] show ?thesis .
    qed
  qed (rule sub_okD(1) [OF ok])
qed

lemma inv_update:
  assumes inv: "payout_inv c spends live waiting sent" and rec: "fmlookup spends i = Some rec"
    and ok: "rec_ok c rec'" and seq: "seq_of rec' = seq_of rec"
    and frozen: "\<And>f. frozen_of rec = Some f \<Longrightarrow> frozen_of rec' = Some f"
    and h: "\<And>w. h = Some w \<Longrightarrow> at_id (wait_guard w) = i \<and> wait_ok rec' w"
    and len: "fmlen (live_with h i live) \<le> 64"
    and sent: "\<And>x. x \<in> set sent' \<Longrightarrow> x \<in> set sent \<or> (\<exists>q f. seq_of rec' = Some q
      \<and> frozen_of rec' = Some f \<and> x = (q, fp_ledger f, frozen_args f))"
  shows "payout_inv c (fmupd i rec' spends) (live_with h i live) (holders h i waiting) sent'"
proof (rule payout_invI)
  note I = payout_invD [OF inv]
  let ?sp = "fmupd i rec' spends"
  show "rec_ok c r" if "fmlookup ?sp j = Some r" for j r
    using that I(1) [of j r] ok by (simp split: if_splits)
  have prev: "\<exists>r0. fmlookup spends j = Some r0 \<and> seq_of r0 = seq_of r" if "fmlookup ?sp j = Some r" for j r
    using that rec seq by (cases "j = i") auto
  show uniq: "j = k"
    if u: "fmlookup ?sp j = Some r" "fmlookup ?sp k = Some r'"
    "seq_of r = Some q" "seq_of r' = Some q" for j k r r' q
  proof -
    obtain r0 r1 where "fmlookup spends j = Some r0" "seq_of r0 = Some q"
        "fmlookup spends k = Some r1" "seq_of r1 = Some q"
      using prev [OF u(1)] prev [OF u(2)] u(3,4) by auto
    then show ?thesis using I(2) [of j r0 k r1 q] by blast
  qed
  have new: "sub_ok c ?sp (q, fp_ledger f, frozen_args f)"
    if f: "seq_of rec' = Some q" "frozen_of rec' = Some f" for q f
  proof (rule sub_okI)
    show "q < pc_next c" by (rule rec_ok_seq [OF ok f(1)])
    fix j r assume j: "fmlookup ?sp j = Some r" "seq_of r = Some q"
    have "fmlookup ?sp i = Some rec'" by simp
    from uniq [OF j(1) this j(2) f(1)] j(1) have "r = rec'" by simp
    with f(2) show "\<exists>f'. frozen_of r = Some f' \<and> fp_ledger f = fp_ledger f' \<and> frozen_args f = frozen_args f'"
      by blast
  qed
  have old: "sub_ok c ?sp x" if "x \<in> set sent" for x
    by (rule sub_ok_update [OF I(3) [OF that] rec seq frozen])
  show all_ok: "sub_ok c ?sp x" if "x \<in> set sent'" for x
    using sent [OF that] new old by blast
  show "l = l' \<and> a = a'" if x: "(q, l, a) \<in> set sent'" "(q, l', a') \<in> set sent'" for q l a l' a'
  proof (cases "(q, l, a) \<in> set sent \<and> (q, l', a') \<in> set sent")
    case True
    then show ?thesis using I(4) by blast
  next
    case False
    then obtain f where f: "seq_of rec' = Some q" "frozen_of rec' = Some f"
      using sent [OF x(1)] sent [OF x(2)] by auto
    have "fmlookup ?sp i = Some rec'" by simp
    from sub_okD(2) [OF all_ok [OF x(1)] this f(1)] sub_okD(2) [OF all_ok [OF x(2)] this f(1)] f(2)
    show ?thesis by auto
  qed
  show "\<exists>r. fmlookup ?sp (at_id (wait_guard w)) = Some r \<and> wait_ok r w"
    if "w \<in> set (holders h i waiting)" for w
  proof (cases "h = Some w")
    case True
    then show ?thesis using h [OF True] by simp
  next
    case False
    then have "w \<in> set waiting" "at_id (wait_guard w) \<noteq> i" using that by (auto simp: in_holders)
    then show ?thesis using I(5) [of w] by simp
  qed
  have "distinct (map (at_id \<circ> wait_guard) (others i waiting))"
    unfolding others_def by (rule distinct_map_filter [OF I(6)])
  then show "distinct (map (at_id \<circ> wait_guard) (holders h i waiting))"
    using h by (cases h) (auto simp: holders_def others_def)
  show "fmlookup (live_with h i live) j = Some g
      \<longleftrightarrow> (\<exists>w \<in> set (holders h i waiting). wait_guard w = g \<and> at_id g = j)" for j g
  proof (cases h)
    case None
    have "fmlookup (live_with h i live) j = Some g \<longleftrightarrow> j \<noteq> i \<and> fmlookup live j = Some g"
      by (simp add: None live_with_def)
    moreover have "w \<in> set (holders h i waiting) \<longleftrightarrow> w \<in> set waiting \<and> at_id (wait_guard w) \<noteq> i" for w
      by (simp add: in_holders None)
    ultimately show ?thesis unfolding I(7) [of j g] by blast
  next
    case (Some v)
    have "fmlookup (live_with h i live) j = Some g
        \<longleftrightarrow> j = i \<and> g = wait_guard v \<or> j \<noteq> i \<and> fmlookup live j = Some g"
      by (auto simp: Some live_with_def)
    moreover have "w \<in> set (holders h i waiting)
        \<longleftrightarrow> w = v \<or> w \<in> set waiting \<and> at_id (wait_guard w) \<noteq> i" for w
      by (auto simp: in_holders Some)
    moreover have "at_id (wait_guard v) = i" using h [OF Some] by blast
    ultimately show ?thesis unfolding I(7) [of j g] by metis
  qed
qed (fact len)

end
