(* ===== verification/Payout_Steps.thy ===== *)
theory Payout_Steps
  imports Payout_Runs
begin

text \<open>
  What each action of the payout machinery does to the record and the executor it is about, and that
  every step keeps \<open>payout_inv\<close>. \<open>touches\<close> is the shape all of them share: one record replaced by one
  with the same sequence number and the same frozen request, one executor added, kept or removed.
\<close>

definition good :: "payout_control \<Rightarrow> pending_spend \<Rightarrow> pending_spend \<Rightarrow> bool" where
  "good c rec rec' \<longleftrightarrow> rec_ok c rec' \<and> seq_of rec' = seq_of rec
     \<and> (\<forall>f. frozen_of rec = Some f \<longrightarrow> frozen_of rec' = Some f)"

definition touches ::
  "payout_control \<Rightarrow> payouts \<Rightarrow> payouts \<Rightarrow> nat \<Rightarrow> pending_spend \<Rightarrow> pending_spend \<Rightarrow> payout_wait option
     \<Rightarrow> submission list \<Rightarrow> bool" where
  "touches c s s' i rec rec' h new \<longleftrightarrow>
     po_control s' = po_control s
     \<and> po_spends s' = fmupd i rec' (po_spends s)
     \<and> po_live s' = live_with h i (po_live s)
     \<and> fmlen (po_live s') \<le> 64
     \<and> good c rec rec'
     \<and> (\<forall>w. h = Some w \<longrightarrow> at_id (wait_guard w) = i \<and> wait_ok rec' w)
     \<and> (\<forall>x \<in> set new. \<exists>q f. seq_of rec' = Some q \<and> frozen_of rec' = Some f
          \<and> x = (q, fp_ledger f, frozen_args f))"

lemma inv_touches:
  assumes "payout_inv c (po_spends s) (po_live s) waiting sent" "fmlookup (po_spends s) i = Some rec"
    and "touches c s s' i rec rec' h new"
  shows "payout_inv c (po_spends s') (po_live s') (holders h i waiting) (new @ sent)"
proof -
  have t: "po_spends s' = fmupd i rec' (po_spends s)" "po_live s' = live_with h i (po_live s)"
    "fmlen (live_with h i (po_live s)) \<le> 64" "rec_ok c rec'" "seq_of rec' = seq_of rec"
    "\<And>f. frozen_of rec = Some f \<Longrightarrow> frozen_of rec' = Some f"
    "\<And>w. h = Some w \<Longrightarrow> at_id (wait_guard w) = i \<and> wait_ok rec' w"
    "\<And>x. x \<in> set new \<Longrightarrow> \<exists>q f. seq_of rec' = Some q \<and> frozen_of rec' = Some f
          \<and> x = (q, fp_ledger f, frozen_args f)"
    using assms(3) unfolding touches_def good_def by metis+
  show ?thesis unfolding t(1,2)
  proof (rule inv_update [OF assms(1,2) t(4,5,6,7,3)])
    fix x assume "x \<in> set (new @ sent)"
    then consider "x \<in> set new" | "x \<in> set sent" by auto
    then show "x \<in> set sent \<or> (\<exists>q f. seq_of rec' = Some q \<and> frozen_of rec' = Some f
        \<and> x = (q, fp_ledger f, frozen_args f))"
      using t(8) by cases blast+
  qed
qed

lemma live_with_twice [simp]: "live_with h i (live_with h' i live) = live_with h i live"
  by (cases h; cases h'; auto simp: live_with_def intro: fmap_ext)

lemma touches_trans:
  assumes "touches c s s1 i rec rec1 h1 []" "touches c s1 s2 i rec1 rec2 h2 new"
  shows "touches c s s2 i rec rec2 h2 new"
proof -
  have a: "po_control s1 = po_control s" "po_spends s1 = fmupd i rec1 (po_spends s)"
      "po_live s1 = live_with h1 i (po_live s)" "seq_of rec1 = seq_of rec"
      "\<And>f. frozen_of rec = Some f \<Longrightarrow> frozen_of rec1 = Some f"
    using assms(1) unfolding touches_def good_def by blast+
  have b: "po_control s2 = po_control s1" "po_spends s2 = fmupd i rec2 (po_spends s1)"
      "po_live s2 = live_with h2 i (po_live s1)" "fmlen (po_live s2) \<le> 64" "rec_ok c rec2"
      "seq_of rec2 = seq_of rec1" "\<And>f. frozen_of rec1 = Some f \<Longrightarrow> frozen_of rec2 = Some f"
      "\<forall>w. h2 = Some w \<longrightarrow> at_id (wait_guard w) = i \<and> wait_ok rec2 w"
      "\<forall>x \<in> set new. \<exists>q f. seq_of rec2 = Some q \<and> frozen_of rec2 = Some f
          \<and> x = (q, fp_ledger f, frozen_args f)"
    using assms(2) unfolding touches_def good_def by blast+
  have "po_spends s2 = fmupd i rec2 (po_spends s)" "po_live s2 = live_with h2 i (po_live s)"
    using a(2,3) b(2,3) by simp_all
  then show ?thesis unfolding touches_def good_def using a b by simp
qed

section \<open>Record updates\<close>

lemma retry_of_Some: "retry_of rec = Some r \<longleftrightarrow> (\<exists>p. ps_public_payout rec = Some p \<and> pp_retry p = Some r)"
  by (simp add: retry_of_def split: option.split)

lemma with_retry_simps [simp]:
  "retry_of rec \<noteq> None \<Longrightarrow> retry_of (with_retry r rec) = Some r"
  "ps_status (with_retry r rec) = ps_status rec"
  "retry_of (rec\<lparr> ps_status := st \<rparr>) = retry_of rec"
  by (auto simp: with_retry_def retry_of_def split: option.splits)

lemma public_with_retry:
  "ps_public_payout rec = Some p \<Longrightarrow> ps_public_payout (with_retry r rec) = Some (p\<lparr> pp_retry := Some r \<rparr>)"
  by (simp add: with_retry_def)

lemma status_irrelevant [simp]:
  "rec_ok c (rec\<lparr> ps_status := st \<rparr>) = rec_ok c rec"
  "seq_of (rec\<lparr> ps_status := st \<rparr>) = seq_of rec"
  "frozen_of (rec\<lparr> ps_status := st \<rparr>) = frozen_of rec"
  "rec_ok c (rec\<lparr> ps_finalized_at_ns := t \<rparr>) = rec_ok c rec"
  "retry_of (rec\<lparr> ps_finalized_at_ns := t \<rparr>) = retry_of rec"
  "seq_of (rec\<lparr> ps_finalized_at_ns := t \<rparr>) = seq_of rec"
  "frozen_of (rec\<lparr> ps_finalized_at_ns := t \<rparr>) = frozen_of rec"
  by (simp_all add: rec_ok_def seq_of_def frozen_of_def retry_of_def)

lemma seq_frozen_with_retry:
  assumes "retry_of rec = Some r"
  shows "seq_of (with_retry r' rec) = Some (pr_memo_sequence r')"
    and "frozen_of (with_retry r' rec) = pr_frozen r'"
    and "seq_of rec = Some (pr_memo_sequence r)" "frozen_of rec = pr_frozen r"
  using assms by (simp_all add: seq_of_def frozen_of_def)

text \<open>The validity of a retry state does not look at the ambiguity flag, and survives dispatch and a
  new claim.\<close>

lemma retry_valid_mark [simp]:
  "retry_valid c (p\<lparr> pp_retry := x \<rparr>) r = retry_valid c p r"
  "retry_valid c (p\<lparr> pp_block_index := b \<rparr>) r = retry_valid c p r"
  "retry_valid c p (r\<lparr> pr_prior_ambiguity := a \<rparr>) = retry_valid c p r"
  by (simp_all add: retry_valid_def frozen_valid_def cong: option.case_cong)

lemma frozen_valid_generation:
  "frozen_valid p r f \<Longrightarrow> pr_generation r' \<noteq> 0 \<Longrightarrow> frozen_valid p r' f"
  by (auto simp: frozen_valid_def split: option.splits)

lemma retry_valid_dispatch:
  assumes "retry_valid c p r" "pr_frozen r = Some f" "pr_generation r \<noteq> 0"
  shows "retry_valid c p (r\<lparr> pr_phase := MayHaveDispatched, pr_dispatched := True \<rparr>)"
  using assms frozen_valid_generation [of p r f "r\<lparr> pr_phase := MayHaveDispatched, pr_dispatched := True \<rparr>"]
  by (simp add: retry_valid_def split: option.splits)

lemma retry_valid_claim:
  assumes "retry_valid c p r" "0 < pc_boot c" "0 < g"
  shows "retry_valid c p (r\<lparr> pr_generation := g, pr_boot := pc_boot c, pr_phase := PreDispatch \<rparr>)"
proof (cases "pr_frozen r")
  case None
  then show ?thesis using assms by (simp add: retry_valid_def split: option.splits)
next
  case (Some f)
  then show ?thesis
    using assms frozen_valid_generation [of p r f
        "r\<lparr> pr_generation := g, pr_boot := pc_boot c, pr_phase := PreDispatch \<rparr>"]
    by (simp add: retry_valid_def split: option.splits)
qed

lemma retry_valid_mono:
  assumes "retry_valid c p r" "pc_boot c \<le> pc_boot c'" "pc_next c \<le> pc_next c'"
  shows "retry_valid c' p r"
  using assms by (auto simp: retry_valid_def split: option.splits)

lemma good_retry:
  assumes "rec_ok c rec" "ps_public_payout rec = Some p" "pp_retry p = Some r"
    and "retry_valid c p r \<Longrightarrow> retry_valid c p r'" "pr_memo_sequence r' = pr_memo_sequence r"
    and "pr_frozen r' = pr_frozen r"
  shows "good c rec ((with_retry r' rec)\<lparr> ps_status := st \<rparr>)"
proof -
  have r: "retry_of rec = Some r" using assms(2,3) by (simp add: retry_of_def)
  show ?thesis
    using assms public_with_retry [OF assms(2), of r']
    by (simp add: good_def seq_frozen_with_retry [OF r]) (simp add: rec_ok_def)
qed

lemma good_retry_same_status:
  assumes "rec_ok c rec" "ps_public_payout rec = Some p" "pp_retry p = Some r"
    and "retry_valid c p r \<Longrightarrow> retry_valid c p r'" "pr_memo_sequence r' = pr_memo_sequence r"
    and "pr_frozen r' = pr_frozen r"
  shows "good c rec (with_retry r' rec)"
  using good_retry [OF assms, of "ps_status (with_retry r' rec)"] by (simp add: good_def)

lemma good_status: "rec_ok c rec \<Longrightarrow> good c rec (rec\<lparr> ps_status := st \<rparr>)"
  by (simp add: good_def)

section \<open>Actions of an executor\<close>

text \<open>\<open>running s c g rec p r\<close>: executor \<open>g\<close> is alive and owns record \<open>rec\<close>, whose payout is \<open>p\<close> with
  retry state \<open>r\<close>.\<close>

definition running ::
  "payouts \<Rightarrow> payout_control \<Rightarrow> attempt \<Rightarrow> pending_spend \<Rightarrow> pending_public_payout \<Rightarrow> payout_retry_state \<Rightarrow> bool"
  where
  "running s c g rec p r \<longleftrightarrow> control_decode (po_control s) = Some c
     \<and> fmlookup (po_spends s) (at_id g) = Some rec \<and> rec_ok c rec
     \<and> ps_public_payout rec = Some p \<and> pp_retry p = Some r
     \<and> ps_status rec = PayoutSubmitting \<and> attempt_of (at_id g) r = Some g \<and> pr_generation r \<noteq> 0
     \<and> fmlookup (po_live s) (at_id g) = Some g \<and> fmlen (po_live s) \<le> 64"

lemma executing_iff:
  "executing rec g \<longleftrightarrow> (\<exists>p r. ps_status rec = PayoutSubmitting \<and> ps_public_payout rec = Some p
     \<and> pp_retry p = Some r \<and> attempt_of (at_id g) r = Some g \<and> pr_generation r \<noteq> 0)"
  by (auto simp: executing_def retry_of_def split: option.splits)

lemma owned_running: "running s c g rec p r \<Longrightarrow> owned g s = Some (Inr rec, s)"
  by (simp add: running_def owned_def payout_record_def retry_of_def)

lemma bind_owned: "running s c g rec p r \<Longrightarrow> bind_act (owned g) k s = k rec s"
  by (simp add: bind_act_def owned_running)

lemma bind_control: "control_decode (po_control s) = Some c \<Longrightarrow> bind_act control k s = k c s"
  by (simp add: bind_act_def control_def)

lemma attempt_of_irrelevant [simp]:
  "attempt_of i (r\<lparr> pr_phase := ph \<rparr>) = attempt_of i r"
  "attempt_of i (r\<lparr> pr_dispatched := d \<rparr>) = attempt_of i r"
  "attempt_of i (r\<lparr> pr_frozen := f \<rparr>) = attempt_of i r"
  by (simp_all add: attempt_of_def cong: option.case_cong)

lemma attempt_of_parts:
  "attempt_of i r = Some g \<Longrightarrow> at_id g = i \<and> at_sequence g = pr_memo_sequence r"
  by (auto simp: attempt_of_def to_width_def split: if_splits)

lemma running_parts:
  assumes "running s c g rec p r"
  shows "control_decode (po_control s) = Some c" "fmlookup (po_spends s) (at_id g) = Some rec"
    "rec_ok c rec" "ps_public_payout rec = Some p" "pp_retry p = Some r" "retry_of rec = Some r"
    "ps_status rec = PayoutSubmitting" "attempt_of (at_id g) r = Some g" "pr_generation r \<noteq> 0"
    "fmlookup (po_live s) (at_id g) = Some g" "fmlen (po_live s) \<le> 64"
    "at_sequence g = pr_memo_sequence r" "retry_valid c p r" "pp_public_amount p < u128_limit"
proof -
  show "at_sequence g = pr_memo_sequence r" using assms by (auto simp: running_def dest: attempt_of_parts)
qed (use assms in \<open>auto simp: running_def retry_of_def rec_ok_def\<close>)

lemma drop_guard_touches:
  assumes "running s c g rec p r" "good c rec rec'"
  shows "touches c s (drop_guard g (put_spend (at_id g) rec' s)) (at_id g) rec rec' None []"
  using running_parts [OF assms(1)] assms(2) fmlen_drop [of "at_id g" "po_live s"]
  by (simp add: touches_def drop_guard_def put_spend_def live_with_def)

lemma finish_error_running:
  assumes "running s c g rec p r"
  obtains rec' where "finish_error g e b s = Some (Inl e, put_spend (at_id g) rec' s)" "good c rec rec'"
proof
  note R = running_parts [OF assms]
  let ?r = "r\<lparr> pr_prior_ambiguity := pr_prior_ambiguity r \<or> b \<rparr>"
  let ?rec' = "(with_retry ?r rec)\<lparr> ps_status :=
      (if pr_prior_ambiguity ?r then PayoutUnknown (DebugOf e) else PayoutPending (DebugOf e)) \<rparr>"
  show "finish_error g e b s = Some (Inl e, put_spend (at_id g) ?rec' s)"
    by (simp add: finish_error_def bind_owned [OF assms] R(6) Let_def)
  show "good c rec ?rec'" by (rule good_retry [OF R(3,4,5)]) simp_all
qed

lemma dispatch_running:
  assumes "running s c g rec p r" "pr_frozen r = Some f"
  obtains rec' where
    "payout_dispatch g s = Some (Inr (Suspended (AwaitTransfer g)
       (SubmitTransfer (fp_ledger f) (frozen_args f))), put_spend (at_id g) rec' s)"
    "touches c s (put_spend (at_id g) rec' s) (at_id g) rec rec' (Some (AwaitTransfer g))
       [(at_sequence g, fp_ledger f, frozen_args f)]"
proof
  note R = running_parts [OF assms(1)]
  let ?r = "r\<lparr> pr_phase := MayHaveDispatched, pr_dispatched := True \<rparr>"
  let ?rec' = "with_retry ?r rec"
  show "payout_dispatch g s = Some (Inr (Suspended (AwaitTransfer g)
       (SubmitTransfer (fp_ledger f) (frozen_args f))), put_spend (at_id g) ?rec' s)"
    by (simp add: payout_dispatch_def bind_owned [OF assms(1)] R(6) assms(2))
  have good: "good c rec ?rec'"
    using retry_valid_dispatch [of c p r f] R(9) assms(2)
    by (intro good_retry_same_status [OF R(3,4,5)]) auto
  have ex: "executing ?rec' g"
    using R(6,7,8,9) by (simp add: executing_def)
  have live: "fmupd (at_id g) g (po_live s) = po_live s"
    using R(10) by (intro fmap_ext) auto
  show "touches c s (put_spend (at_id g) ?rec' s) (at_id g) rec ?rec' (Some (AwaitTransfer g))
       [(at_sequence g, fp_ledger f, frozen_args f)]"
    using good ex live R(11,12) assms(2)
    by (simp add: touches_def put_spend_def live_with_def seq_frozen_with_retry [OF R(6)])
qed

section \<open>Segments\<close>

text \<open>What a finished or suspended segment leaves: nothing of the executor when it ends, the suspended
  payout with its submission when it waits.\<close>

definition held :: "payout_error + run_step \<Rightarrow> payout_wait option \<times> submission list" where
  "held r = (case r of Inr (Suspended wt q) \<Rightarrow> (Some wt, submissions wt q) | _ \<Rightarrow> (None, []))"

definition seg_ok ::
  "payout_control \<Rightarrow> payouts \<Rightarrow> nat \<Rightarrow> pending_spend \<Rightarrow> (payout_error + run_step) \<times> payouts \<Rightarrow> bool" where
  "seg_ok c s i rec x \<longleftrightarrow>
     (\<exists>rec'. touches c s (snd x) i rec rec' (fst (held (fst x))) (snd (held (fst x))))"

lemma held_simps [simp]:
  "held (Inl e) = (None, [])" "held (Inr (Settled b)) = (None, [])"
  "held (Inr (Suspended wt q)) = (Some wt, submissions wt q)"
  by (simp_all add: held_def)

lemma live_same: "fmlookup live i = Some g \<Longrightarrow> fmupd i g live = live"
  by (intro fmap_ext) auto

lemma good_refl: "rec_ok c rec \<Longrightarrow> good c rec rec"
  by (simp add: good_def)

lemma seg_wait:
  assumes "running s c g rec p r" "wait_ok rec wt" "wait_guard wt = g" "submissions wt q = []"
  shows "seg_ok c s (at_id g) rec (Inr (Suspended wt q), s)"
proof -
  note R = running_parts [OF assms(1)]
  have "fmupd (at_id g) rec (po_spends s) = po_spends s" by (rule live_same [OF R(2)])
  moreover have "fmupd (at_id g) g (po_live s) = po_live s" by (rule live_same [OF R(10)])
  ultimately have "touches c s s (at_id g) rec rec (Some wt) []"
    using R(3,11) assms(2,3) by (simp add: touches_def live_with_def good_refl)
  then show ?thesis using assms(4) by (auto simp: seg_ok_def)
qed

lemma seg_error:
  assumes "running s c g rec p r" "good c rec rec'" "m s = Some (Inl e, put_spend (at_id g) rec' s)"
    and "run_segment g m s = Some x"
  shows "seg_ok c s (at_id g) rec x"
  using assms(3,4) drop_guard_touches [OF assms(1,2)] by (auto simp: run_segment_def seg_ok_def)

lemma seg_finish_error:
  assumes "running s c g rec p r" "run_segment g (finish_error g e b) s = Some x"
  shows "seg_ok c s (at_id g) rec x"
proof -
  obtain rec' where "(finish_error g e b :: run_step action) s = Some (Inl e, put_spend (at_id g) rec' s)"
      "good c rec rec'"
    using finish_error_running [OF assms(1)] by blast
  then show ?thesis using seg_error [OF assms(1)] assms(2) by blast
qed

lemma seg_dispatch:
  assumes "running s c g rec p r" "pr_frozen r = Some f" "run_segment g (payout_dispatch g) s = Some x"
  shows "seg_ok c s (at_id g) rec x"
proof -
  obtain rec' where "payout_dispatch g s = Some (Inr (Suspended (AwaitTransfer g)
       (SubmitTransfer (fp_ledger f) (frozen_args f))), put_spend (at_id g) rec' s)"
    "touches c s (put_spend (at_id g) rec' s) (at_id g) rec rec' (Some (AwaitTransfer g))
       [(at_sequence g, fp_ledger f, frozen_args f)]"
    using dispatch_running [OF assms(1,2)] by blast
  then show ?thesis using assms(3) by (auto simp: run_segment_def seg_ok_def submissions_def)
qed

lemma seg_after_balance:
  assumes "running s c g rec p r" "run_segment g (payout_after_balance g p l) s = Some x"
  shows "seg_ok c s (at_id g) rec x"
proof (cases "pr_frozen r")
  case None
  note R = running_parts [OF assms(1)]
  have "wait_ok rec (AwaitFee g l)"
    using R(6-9) None by (simp add: executing_def frozen_of_def)
  then have "seg_ok c s (at_id g) rec (Inr (Suspended (AwaitFee g l) (LedgerFee l)), s)"
    by (rule seg_wait [OF assms(1)]) (simp_all add: submissions_def)
  then show ?thesis
    using assms(2) None R(5) by (auto simp: payout_after_balance_def run_segment_def)
next
  case (Some f)
  with assms(2) running_parts(5) [OF assms(1)] show ?thesis
    by (intro seg_dispatch [OF assms(1) Some]) (simp add: payout_after_balance_def)
qed

lemma run_segment_owned:
  assumes "running s c g rec p r"
  shows "run_segment g (bind_act (owned g) k) s = run_segment g (k rec) s"
  by (simp add: run_segment_def bind_owned [OF assms])

lemma seg_resume_balance:
  assumes "running s c g rec p r" "run_segment g (resume_balance g p l v) s = Some x"
  shows "seg_ok c s (at_id g) rec x"
  using assms(2) unfolding resume_balance_def run_segment_owned [OF assms(1)]
  by (auto split: sum.splits if_splits intro: seg_finish_error [OF assms(1)] seg_after_balance [OF assms(1)])

lemma seg_run_start:
  assumes "running s c g rec p r" "run_segment g (run_payout_start self g l) s = Some x"
  shows "seg_ok c s (at_id g) rec x"
proof -
  note R = running_parts [OF assms(1)]
  have v: "validate_retry p s = Some (Inr (), s)"
    using R(1,5,13) by (simp add: validate_retry_def bind_act_def control_def)
  define ledger where "ledger = (case pr_frozen r of None \<Rightarrow> l | Some f \<Rightarrow> fp_ledger f)"
  define sub where "sub = (case pr_frozen r of None \<Rightarrow> None | Some f \<Rightarrow> fp_from_subaccount f)"
  have "run_segment g (run_payout_start self g l) s = run_segment g
      (if \<not> pr_dispatched r then return_act (Suspended (AwaitBalance g p ledger)
         (BalanceOf ledger \<lparr> ic_owner = self, ic_subaccount = sub \<rparr>))
       else payout_after_balance g p ledger) s"
    unfolding run_payout_start_def run_segment_owned [OF assms(1)]
    using R(4,5) by (simp add: run_segment_def bind_act_def v Let_def ledger_def sub_def)
  then consider "x = (Inr (Suspended (AwaitBalance g p ledger)
      (BalanceOf ledger \<lparr> ic_owner = self, ic_subaccount = sub \<rparr>)), s)"
    | "run_segment g (payout_after_balance g p ledger) s = Some x"
    using assms(2) by (auto simp: run_segment_def split: if_splits)
  then show ?thesis
  proof cases
    case 1
    have "wait_ok rec (AwaitBalance g p ledger)" using R(4-9) by (simp add: executing_def)
    then show ?thesis unfolding 1 by (rule seg_wait [OF assms(1)]) (simp_all add: submissions_def)
  next
    case 2
    then show ?thesis by (rule seg_after_balance [OF assms(1)])
  qed
qed

lemma submitting_not_terminal:
  "ps_status rec = PayoutSubmitting \<Longrightarrow> \<not> is_terminal_spend_status (ps_status rec)"
  by (simp add: is_terminal_spend_status_def)

text \<open>A terminal transition rewrites the record and the indexes; no executor is involved.\<close>

lemma mark_spend_terminal_fresh:
  assumes "fmlookup (po_spends s) i = Some rec" "\<not> is_terminal_spend_status (ps_status rec)"
  shows "mark_spend_terminal i Finalized now s =
    Some (Inr (), remove_active_spend_index (ps_submitter rec) i
      (insert_terminal_spend_index now i (put_spend i
        (rec\<lparr> ps_finalized_at_ns := Some now, ps_status := Finalized \<rparr>) s)))"
  using assms by (simp add: mark_spend_terminal_def payout_record_def is_terminal_spend_status_def)

lemma index_fields [simp]:
  "po_control (remove_active_spend_index o' i s) = po_control s"
  "po_spends (remove_active_spend_index o' i s) = po_spends s"
  "po_live (remove_active_spend_index o' i s) = po_live s"
  "po_control (insert_terminal_spend_index t i s) = po_control s"
  "po_spends (insert_terminal_spend_index t i s) = po_spends s"
  "po_live (insert_terminal_spend_index t i s) = po_live s"
  "po_accrual (remove_active_spend_index o' i s) = po_accrual s"
  "po_accrual (insert_terminal_spend_index t i s) = po_accrual s"
  by (simp_all add: remove_active_spend_index_def insert_terminal_spend_index_def split: option.split)

lemma accrue_fields [simp]:
  "po_control (accrue_private_transfer_fee x s) = po_control s"
  "po_spends (accrue_private_transfer_fee x s) = po_spends s"
  "po_live (accrue_private_transfer_fee x s) = po_live s"
  by (simp_all add: accrue_private_transfer_fee_def split: option.split prod.split)

lemma put_spend_fields [simp]:
  "po_control (put_spend i rec s) = po_control s"
  "po_spends (put_spend i rec s) = fmupd i rec (po_spends s)"
  "po_live (put_spend i rec s) = po_live s"
  "po_accrual (put_spend i rec s) = po_accrual s"
  by (simp_all add: put_spend_def)

text \<open>Settling with a block: the record becomes final, keeps sequence and frozen request, and the fee
  split it stored is accrued.\<close>

lemma terminal_payout_settles:
  assumes "fmlookup (po_spends s) i = Some rec" "ps_public_payout rec = Some p"
    and "\<not> is_terminal_spend_status (ps_status rec)" "rec_ok c rec"
  obtains s' rec' where "terminal_payout i (Some b) now s = Some (Inr (), s')"
    "po_control s' = po_control s" "po_spends s' = fmupd i rec' (po_spends s)" "po_live s' = po_live s"
    "good c rec rec'" "ps_status rec' = Finalized"
    "po_accrual s' = po_accrual (accrue_private_transfer_fee (stored_split rec) s)"
proof -
  let ?r1 = "rec\<lparr> ps_public_payout := Some (p\<lparr> pp_block_index := Some b \<rparr>) \<rparr>"
  let ?r2 = "?r1\<lparr> ps_finalized_at_ns := Some now, ps_status := Finalized \<rparr>"
  let ?s = "accrue_private_transfer_fee (stored_split ?r1) (remove_active_spend_index (ps_submitter ?r1) i
      (insert_terminal_spend_index now i (put_spend i ?r2 (put_spend i ?r1 s))))"
  have nf: "ps_status rec \<noteq> Finalized" using assms(3) by (auto simp: is_terminal_spend_status_def)
  have look: "fmlookup (po_spends (put_spend i ?r1 s)) i = Some ?r1" by simp
  have nt: "\<not> is_terminal_spend_status (ps_status ?r1)" using assms(3) by simp
  note m = mark_spend_terminal_fresh [OF look nt, of now]
  have "terminal_payout i (Some b) now s = bind_act (mark_spend_terminal i Finalized now)
      (\<lambda>_. modify_act (accrue_private_transfer_fee (stored_split ?r1))) (put_spend i ?r1 s)"
    using assms(1,2) nf by (simp add: terminal_payout_def payout_record_def)
  then have t: "terminal_payout i (Some b) now s = Some (Inr (), ?s)"
    by (simp only: bind_act_def m option.case prod.case sum.case action_simps)
  have good: "good c rec ?r2"
    using assms(2,4) by (simp add: good_def rec_ok_def seq_of_def frozen_of_def retry_of_def
        split: option.splits)
  have split: "stored_split ?r1 = stored_split rec" by (simp add: stored_split_def)
  have accr: "po_accrual (accrue_private_transfer_fee y s1) = po_accrual (accrue_private_transfer_fee y s2)"
    if "po_accrual s1 = po_accrual s2" for y s1 s2
    using that by (simp add: accrue_private_transfer_fee_def read_fee_accrual_def split: option.split prod.split)
  have fields: "po_control ?s = po_control s" "po_spends ?s = fmupd i ?r2 (po_spends s)"
      "po_live ?s = po_live s" "ps_status ?r2 = Finalized"
    by simp_all
  have "po_accrual ?s = po_accrual (accrue_private_transfer_fee (stored_split rec) s)"
    unfolding split by (rule accr) simp
  then show thesis by (rule that [OF t fields(1-3) good fields(4)])
qed

lemma seg_resume_transfer:
  assumes "running s c g rec p r" "run_segment g (resume_transfer now g reply) s = Some x"
  shows "seg_ok c s (at_id g) rec x"
proof -
  note R = running_parts [OF assms(1)]
  have settle: "seg_ok c s (at_id g) rec x"
    if "run_segment g (bind_act (terminal_payout (at_id g) (Some b) now) (\<lambda>_. return_act (Settled b))) s = Some x"
    for b
  proof -
    obtain s' rec' where t: "terminal_payout (at_id g) (Some b) now s = Some (Inr (), s')"
      "po_control s' = po_control s" "po_spends s' = fmupd (at_id g) rec' (po_spends s)"
      "po_live s' = po_live s" "good c rec rec'"
      using terminal_payout_settles [OF R(2,4) submitting_not_terminal [OF R(7)] R(3)] by metis
    have "x = (Inr (Settled b), drop_guard g s')"
      using that by (simp add: run_segment_def bind_act_def t(1))
    moreover have "touches c s (drop_guard g s') (at_id g) rec rec' None []"
      using t R(10,11) fmlen_drop [of "at_id g" "po_live s"]
      by (simp add: touches_def drop_guard_def live_with_def)
    ultimately show ?thesis by (auto simp: seg_ok_def)
  qed
  show ?thesis
    using assms(2) settle unfolding resume_transfer_def run_segment_owned [OF assms(1)]
    by (auto split: transfer_reply.splits icrc_transfer_error.splits
        intro: seg_finish_error [OF assms(1)])
qed

text \<open>Freezing: the request is built once from the recorded payout, and is valid.\<close>

lemma retry_valid_freeze:
  assumes "retry_valid c p r" "pr_frozen r = None" "pr_generation r \<noteq> 0"
    and "fee < pp_public_amount p" "pp_public_amount p < u128_limit"
    and "length (payout_memo hmac key self l (at_id g) q) = 32"
  shows "retry_valid c (p\<lparr> pp_retry := x, pp_ledger_created_at_time_ns := Some now \<rparr>)
    (r\<lparr> pr_frozen := Some (freeze_payout hmac key self l g fee now p q) \<rparr>)"
proof -
  have "to_width 128 (pp_public_amount p - fee) = Some (pp_public_amount p - fee)"
    "to_width 128 fee = Some fee"
    "checked_add 128 (pp_public_amount p - fee) fee = Some (pp_public_amount p)"
    using assms(4,5) by (simp_all add: to_width_def checked_add_def)
  then show ?thesis
    using assms by (auto simp: retry_valid_def frozen_valid_def freeze_payout_def split: option.splits)
qed

lemma frozen_running:
  fixes key self l now q
  assumes run: "running s c g rec p r" and none: "pr_frozen r = None" and fee: "fee < pp_public_amount p"
    and mac: "\<forall>k m. length (hmac k m) = 32"
  defines "f \<equiv> freeze_payout hmac key self l g fee now p q"
  defines "p' \<equiv> p\<lparr> pp_retry := Some (r\<lparr> pr_frozen := Some f \<rparr>), pp_ledger_created_at_time_ns := Some now \<rparr>"
  defines "rec' \<equiv> rec\<lparr> ps_public_payout := Some p' \<rparr>"
  shows "running (put_spend (at_id g) rec' s) c g rec' p' (r\<lparr> pr_frozen := Some f \<rparr>)"
    and "touches c s (put_spend (at_id g) rec' s) (at_id g) rec rec' (Some (AwaitTransfer g)) []"
proof -
  note R = running_parts [OF run]
  let ?r = "r\<lparr> pr_frozen := Some f \<rparr>"
  have rt: "retry_of rec' = Some ?r" by (simp add: rec'_def p'_def retry_of_def)
  have "retry_valid c p' ?r"
    unfolding p'_def f_def by (rule retry_valid_freeze [OF R(13) none R(9) fee R(14)]) (simp add: payout_memo_def mac)
  then have ok: "rec_ok c rec'" using R(14) by (simp add: rec_ok_def rec'_def p'_def)
  have st: "ps_status rec' = PayoutSubmitting" using R(7) by (simp add: rec'_def)
  show "running (put_spend (at_id g) rec' s) c g rec' p' ?r"
    using R ok st by (simp add: running_def rec'_def p'_def)
  have good: "good c rec rec'"
    using ok none by (simp add: good_def seq_of_def frozen_of_def rt R(6))
  have "wait_ok rec' (AwaitTransfer g)"
    using st R(8,9) by (simp add: executing_def rt frozen_of_def)
  then show "touches c s (put_spend (at_id g) rec' s) (at_id g) rec rec' (Some (AwaitTransfer g)) []"
    using good R(11) live_same [OF R(10)] by (simp add: touches_def live_with_def)
qed

lemma seg_ok_trans:
  assumes "touches c s s1 i rec rec1 h []" "seg_ok c s1 i rec1 x"
  shows "seg_ok c s i rec x"
  using assms(2) touches_trans [OF assms(1)] unfolding seg_ok_def by blast

lemma seg_resume_fee:
  assumes run: "running s c g rec p r" and none: "pr_frozen r = None"
    and mac: "\<forall>k m. length (hmac k m) = 32"
    and x: "run_segment g (resume_fee hmac self now g l v) s = Some x"
  shows "seg_ok c s (at_id g) rec x"
proof -
  note R = running_parts [OF run]
  note fin = seg_finish_error [OF run]
  show ?thesis
  proof (cases "query_result v")
    case (Inl e)
    then show ?thesis using x fin unfolding resume_fee_def run_segment_owned [OF run] by simp
  next
    case (Inr fee)
    show ?thesis
    proof (cases "pp_public_amount p \<le> fee \<or> pc_key c = None")
      case True
      then show ?thesis
        using x Inr R(4,5) fin unfolding resume_fee_def run_segment_owned [OF run]
        by (auto simp: bind_control [OF R(1)] run_segment_def split: if_splits)
    next
      case False
      then obtain key where key: "pc_key c = Some key" and fee: "fee < pp_public_amount p" by auto
      have q: "to_width 128 (pr_memo_sequence r) = Some (pr_memo_sequence r)"
        using R(8) by (auto simp: attempt_of_def to_width_def split: if_splits)
      let ?f = "freeze_payout hmac key self l g fee now p (pr_memo_sequence r)"
      let ?p = "p\<lparr> pp_retry := Some (r\<lparr> pr_frozen := Some ?f \<rparr>), pp_ledger_created_at_time_ns := Some now \<rparr>"
      let ?rec = "rec\<lparr> ps_public_payout := Some ?p \<rparr>"
      have "resume_fee hmac self now g l v s = payout_dispatch g (put_spend (at_id g) ?rec s)"
        using Inr R(4,5) key fee q
        by (simp add: resume_fee_def bind_owned [OF run] bind_control [OF R(1)] Let_def)
      then have d: "run_segment g (payout_dispatch g) (put_spend (at_id g) ?rec s) = Some x"
        using x by (simp add: run_segment_def)
      note fr = frozen_running [where key = key and self = self and l = l and now = now
          and q = "pr_memo_sequence r", OF run none fee mac]
      show ?thesis by (rule seg_ok_trans [OF fr(2) seg_dispatch [OF fr(1) _ d]]) simp
    qed
  qed
qed

section \<open>Actions on an idle record\<close>

definition idle :: "payouts \<Rightarrow> payout_control \<Rightarrow> nat \<Rightarrow> pending_spend \<Rightarrow> bool" where
  "idle s c i rec \<longleftrightarrow> control_decode (po_control s) = Some c \<and> fmlookup (po_spends s) i = Some rec
     \<and> rec_ok c rec \<and> fmlookup (po_live s) i = None \<and> fmlen (po_live s) \<le> 64"

lemma fmdrop_none: "fmlookup m k = None \<Longrightarrow> fmdrop k m = m"
  by (intro fmap_ext) auto

lemma touches_put:
  assumes "idle s c i rec" "good c rec rec'"
  shows "touches c s (put_spend i rec' s) i rec rec' None []"
  using assms by (simp add: idle_def touches_def live_with_def fmdrop_none)

lemma touches_same:
  assumes "idle s c i rec"
  shows "touches c s s i rec rec None []"
proof -
  have "fmupd i rec (po_spends s) = po_spends s" using assms by (intro live_same) (simp add: idle_def)
  then show ?thesis
    using assms by (simp add: idle_def touches_def live_with_def fmdrop_none good_refl)
qed

lemma idle_after:
  assumes "idle s c i rec" "touches c s s' i rec rec' None []"
  shows "idle s' c i rec'"
  using assms by (simp add: idle_def touches_def good_def live_with_def fmdrop_none)

lemma validate_idle:
  assumes "control_decode (po_control s) = Some c" "rec_ok c rec" "ps_public_payout rec = Some p"
  shows "validate_retry p s = Some (Inr (), s)"
  using assms by (auto simp: validate_retry_def rec_ok_def bind_control split: option.splits)

lemma normalize_checks:
  assumes "control_decode (po_control s) = Some c" "fmlookup (po_spends s) i = Some rec" "rec_ok c rec"
  shows "bind_act (get_act (payout_record i)) (\<lambda>found. bind_act (need SpendNotFound found) (\<lambda>rec.
      bind_act (case ps_public_payout rec of None \<Rightarrow> return_act () | Some p \<Rightarrow> validate_retry p)
        (\<lambda>_. k rec))) s = k rec s"
  using assms validate_idle [OF assms(1,3)]
  by (cases "ps_public_payout rec") (simp_all add: payout_record_def bind_act_def)

lemma normalize_idle:
  assumes "idle s c i rec" "normalize_payout i s = Some x"
  shows "(\<exists>e. x = (Inl e, s))
    \<or> (\<exists>rec' s'. x = (Inr rec', s') \<and> touches c s s' i rec rec' None []
        \<and> ps_status rec' \<noteq> PayoutSubmitting
        \<and> (ps_status rec \<noteq> PayoutSubmitting \<longrightarrow> rec' = rec \<and> s' = s))"
proof -
  have I: "control_decode (po_control s) = Some c" "fmlookup (po_spends s) i = Some rec" "rec_ok c rec"
    "fmlookup (po_live s) i = None"
    using assms(1) by (auto simp: idle_def)
  note run = assms(2) [unfolded normalize_payout_def normalize_checks [OF I(1-3)]]
  show ?thesis
  proof (cases "ps_status rec = PayoutSubmitting")
    case False
    then show ?thesis using run touches_same [OF assms(1)] by auto
  next
    case True
    show ?thesis
    proof (cases "retry_of rec")
      case None
      let ?rec = "rec\<lparr> ps_status := PayoutUnknown (Literal ''legacy payout identity unavailable'') \<rparr>"
      have "x = (Inr ?rec, put_spend i ?rec s)" using run True I(4) None by (simp add: Let_def)
      moreover have "touches c s (put_spend i ?rec s) i rec ?rec None []"
        by (rule touches_put [OF assms(1) good_status [OF I(3)]])
      ultimately show ?thesis using True by simp
    next
      case (Some r)
      then obtain p where p: "ps_public_payout rec = Some p" "pp_retry p = Some r"
        by (auto simp: retry_of_Some)
      define rec1 where "rec1 = (if pr_phase r = MayHaveDispatched \<or> pr_prior_ambiguity r
          then with_retry (r\<lparr> pr_prior_ambiguity := True \<rparr>) rec else rec)"
      define st where "st = (if pr_phase r = MayHaveDispatched \<or> pr_prior_ambiguity r
          then PayoutUnknown (Literal ''quiescent payout requires reconciliation'')
          else PayoutPending (Literal ''quiescent preflight may retry''))"
      have "good c rec (rec1\<lparr> ps_status := st \<rparr>)"
        unfolding rec1_def using good_status [OF I(3), of st]
          good_retry [OF I(3) p, of "r\<lparr> pr_prior_ambiguity := True \<rparr>" st] by simp
      note t = touches_put [OF assms(1) this]
      have "x = (Inl PayoutStateInvalid, s)
          \<or> x = (Inr (rec1\<lparr> ps_status := st \<rparr>), put_spend i (rec1\<lparr> ps_status := st \<rparr>) s)"
        using run True I(4) Some
        by (auto simp: bind_control [OF I(1)] Let_def rec1_def st_def split: if_splits)
      then show ?thesis using t True by (auto simp: st_def split: if_splits)
    qed
  qed
qed

lemma claim_idle:
  assumes idle: "idle s c i rec" and x: "claim_payout i s = Some x"
  shows "(\<exists>e s' rec'. x = (Inl e, s') \<and> touches c s s' i rec rec' None [])
    \<or> (\<exists>g s' rec' p r. x = (Inr g, s') \<and> at_id g = i \<and> running s' c g rec' p r
        \<and> touches c s s' i rec rec' (Some (AwaitBalance g p [])) [])"
proof -
  obtain y where y: "normalize_payout i s = Some y"
    using x by (auto simp: claim_payout_def bind_act_def split: option.splits)
  from normalize_idle [OF idle this] show ?thesis
  proof (elim disjE exE conjE)
    fix e assume "y = (Inl e, s)"
    then show ?thesis
      using x y touches_same [OF idle] by (auto simp: claim_payout_def bind_act_def)
  next
    fix rec1 s1 assume yy: "y = (Inr rec1, s1)" and t1: "touches c s s1 i rec rec1 None []"
    note idle1 = idle_after [OF idle t1]
    then have I: "control_decode (po_control s1) = Some c" "fmlookup (po_spends s1) i = Some rec1"
      "rec_ok c rec1" "fmlookup (po_live s1) i = None" "fmlen (po_live s1) \<le> 64"
      by (auto simp: idle_def)
    show ?thesis
    proof (cases "\<exists>e. x = (Inl e, s1)")
      case True
      then show ?thesis using t1 by blast
    next
      case False
      then obtain r a where r: "retry_of rec1 = Some r" "fmlen (po_live s1) < 64"
        "pr_generation r + 1 < u64_limit"
        and a: "attempt_of i (r\<lparr> pr_generation := pr_generation r + 1, pr_boot := pc_boot c,
            pr_phase := PreDispatch \<rparr>) = Some a"
        and xx: "x = (Inr a, put_spend i ((with_retry (r\<lparr> pr_generation := pr_generation r + 1,
            pr_boot := pc_boot c, pr_phase := PreDispatch \<rparr>) rec1)\<lparr> ps_status := PayoutSubmitting \<rparr>)
            (s1\<lparr> po_live := fmupd i a (po_live s1) \<rparr>))"
        using x y yy I
        by (auto simp: claim_payout_def bind_act_def [of "normalize_payout i"] bind_control [OF I(1)]
            checked_add_def need_def MAX_LIVE_PAYOUT_ATTEMPTS_def Let_def
            split: if_splits option.splits)
      define r' where "r' = r\<lparr> pr_generation := pr_generation r + 1, pr_boot := pc_boot c,
          pr_phase := PreDispatch \<rparr>"
      define rec' where "rec' = (with_retry r' rec1)\<lparr> ps_status := PayoutSubmitting \<rparr>"
      define s' where "s' = put_spend i rec' (s1\<lparr> po_live := fmupd i a (po_live s1) \<rparr>)"
      obtain p where p: "ps_public_payout rec1 = Some p" "pp_retry p = Some r"
        using r(1) by (auto simp: retry_of_Some)
      have "0 < pc_boot c" using control_decode_ok [OF I(1)] by (simp add: control_ok_def)
      then have good: "good c rec1 rec'"
        unfolding rec'_def r'_def by (intro good_retry [OF I(3) p] retry_valid_claim) simp_all
      have at: "at_id a = i" using attempt_of_parts [OF a] by simp
      have len: "fmlen (fmupd i a (po_live s1)) \<le> 64" using r(2) by (simp add: fmlen_upd)
      have pub: "ps_public_payout rec' = Some (p\<lparr> pp_retry := Some r' \<rparr>)"
        by (simp add: rec'_def with_retry_def p(1))
      have run: "running s' c a rec' (p\<lparr> pp_retry := Some r' \<rparr>) r'"
        using good pub a at len I(1) by (simp add: running_def s'_def good_def rec'_def r'_def)
      have "touches c s1 s' i rec1 rec' (Some (AwaitBalance a (p\<lparr> pp_retry := Some r' \<rparr>) [])) []"
        using good len at pub running_parts(6-9) [OF run]
        by (simp add: touches_def s'_def live_with_def executing_def)
      then have "touches c s s' i rec rec' (Some (AwaitBalance a (p\<lparr> pp_retry := Some r' \<rparr>) [])) []"
        by (rule touches_trans [OF t1])
      moreover have "x = (Inr a, s')" using xx by (simp add: s'_def rec'_def r'_def)
      ultimately show ?thesis using run at by blast
    qed
  qed
qed

text \<open>Endpoints on an idle record: a retry and the tail of a promotion are segments, a reconciliation
  leaves no executor.\<close>

lemma seg_claim_and_run:
  assumes "idle s c i rec" "claim_and_run self l i s = Some x"
  shows "seg_ok c s i rec x"
proof -
  obtain y where y: "claim_payout i s = Some y"
    using assms(2) by (auto simp: claim_and_run_def bind_act_def split: option.splits)
  from claim_idle [OF assms(1) this] show ?thesis
  proof (elim disjE exE conjE)
    fix e s' rec' assume "y = (Inl e, s')" "touches c s s' i rec rec' None []"
    then show ?thesis using assms(2) y by (auto simp: claim_and_run_def bind_act_def seg_ok_def)
  next
    fix g s' rec' p r
    assume c: "y = (Inr g, s')" "at_id g = i" "running s' c g rec' p r"
      "touches c s s' i rec rec' (Some (AwaitBalance g p [])) []"
    then have "run_segment g (run_payout_start self g l) s' = Some x"
      using assms(2) y by (simp add: claim_and_run_def bind_act_def)
    from seg_run_start [OF c(3) this] c(2) show ?thesis by (intro seg_ok_trans [OF c(4)]) simp
  qed
qed

lemma seg_same: "idle s c i rec \<Longrightarrow> fst x = Inl e \<or> fst x = Inr (Settled b) \<Longrightarrow> snd x = s \<Longrightarrow> seg_ok c s i rec x"
  unfolding seg_ok_def using touches_same [of s c i rec] by (auto intro!: exI [of _ rec])

lemma seg_of_touch:
  "touches c s s' i rec rec' None [] \<Longrightarrow> fst x = Inl e \<or> fst x = Inr (Settled b) \<Longrightarrow> snd x = s'
     \<Longrightarrow> seg_ok c s i rec x"
  by (auto simp: seg_ok_def)

lemma seg_retry:
  assumes idle: "idle s c i rec" and x: "retry_private_spend_payout_inner self recovered i s = Some x"
  shows "seg_ok c s i rec x"
proof (cases "po_spends_paused s \<or> \<not> recovered")
  case True
  then show ?thesis
    using x by (auto simp: retry_private_spend_payout_inner_def split: if_splits
        intro!: seg_same [OF idle])
next
  case False
  then obtain y where y: "normalize_payout i s = Some y"
    using x by (auto simp: retry_private_spend_payout_inner_def bind_act_def split: option.splits if_splits)
  from normalize_idle [OF idle this] show ?thesis
  proof (elim disjE exE conjE)
    fix e assume "y = (Inl e, s)"
    then show ?thesis
      using x y False
      by (auto simp: retry_private_spend_payout_inner_def bind_act_def intro!: seg_same [OF idle])
  next
    fix rec1 s1 assume yy: "y = (Inr rec1, s1)" and t: "touches c s s1 i rec rec1 None []"
    note idle1 = idle_after [OF idle t]
    have "(\<exists>e. x = (Inl e, s1)) \<or> (\<exists>b. x = (Inr (Settled b), s1))
        \<or> (\<exists>l. claim_and_run self l i s1 = Some x)"
      using x y yy False
      by (auto simp: retry_private_spend_payout_inner_def bind_act_def [of "normalize_payout i"] need_def
          split: spend_status.splits option.splits)
    then show ?thesis
    proof (elim disjE exE)
      fix l assume "claim_and_run self l i s1 = Some x"
      from seg_claim_and_run [OF idle1 this] show ?thesis by (rule seg_ok_trans [OF t])
    qed (auto intro: seg_of_touch [OF t])
  qed
qed

lemma set_status_idle:
  assumes "idle s c i rec"
  shows "touches c s (set_spend_status i st s) i rec (rec\<lparr> ps_status := st \<rparr>) None []"
proof -
  have "set_spend_status i st s = put_spend i (rec\<lparr> ps_status := st \<rparr>) s"
    using assms by (simp add: set_spend_status_def payout_record_def idle_def)
  then show ?thesis using touches_put [OF assms good_status] assms by (simp add: idle_def)
qed

definition promoted :: "payout_error + promote_result \<Rightarrow> payout_error + run_step" where
  "promoted r = (case r of
     Inr (PromoteRunning wt q) \<Rightarrow> Inr (Suspended wt q)
   | Inr _ \<Rightarrow> Inl PayoutNotPending
   | Inl e \<Rightarrow> Inl e)"

lemma terminal_payout_idle:
  assumes idle: "idle s c i rec" and nt: "\<not> is_terminal_spend_status (ps_status rec)"
    and pub: "b = None \<or> ps_public_payout rec \<noteq> None"
  obtains s' rec' where "terminal_payout i b now s = Some (Inr (), s')"
    "touches c s s' i rec rec' None []" "ps_status rec' = Finalized"
    "po_accrual s' = po_accrual (accrue_private_transfer_fee (stored_split rec) s)"
proof -
  have I: "fmlookup (po_spends s) i = Some rec" "rec_ok c rec" using idle by (auto simp: idle_def)
  show thesis
  proof (cases b)
    case (Some n)
    then obtain p where p: "ps_public_payout rec = Some p" using pub by auto
    obtain s' rec' where t: "terminal_payout i (Some n) now s = Some (Inr (), s')"
      "po_control s' = po_control s" "po_spends s' = fmupd i rec' (po_spends s)"
      "po_live s' = po_live s" "good c rec rec'" "ps_status rec' = Finalized"
      "po_accrual s' = po_accrual (accrue_private_transfer_fee (stored_split rec) s)"
      by (rule terminal_payout_settles [OF I(1) p nt I(2)])
    moreover have "touches c s s' i rec rec' None []"
      using idle t by (simp add: idle_def touches_def live_with_def fmdrop_none)
    ultimately show thesis using Some that by simp
  next
    case None
    have nf: "ps_status rec \<noteq> Finalized" using nt by (auto simp: is_terminal_spend_status_def)
    have look: "fmlookup (po_spends (put_spend i rec s)) i = Some rec" by simp
    note m = mark_spend_terminal_fresh [OF look nt, of now]
    let ?r2 = "rec\<lparr> ps_finalized_at_ns := Some now, ps_status := Finalized \<rparr>"
    let ?s = "accrue_private_transfer_fee (stored_split rec) (remove_active_spend_index (ps_submitter rec) i
        (insert_terminal_spend_index now i (put_spend i ?r2 (put_spend i rec s))))"
    have "terminal_payout i None now s = bind_act (mark_spend_terminal i Finalized now)
        (\<lambda>_. modify_act (accrue_private_transfer_fee (stored_split rec))) (put_spend i rec s)"
      using I(1) nf by (simp add: terminal_payout_def payout_record_def)
    then have t: "terminal_payout i b now s = Some (Inr (), ?s)"
      by (simp only: None bind_act_def m option.case prod.case sum.case action_simps)
    have touch: "touches c s ?s i rec ?r2 None []"
      using idle by (simp add: idle_def touches_def live_with_def fmdrop_none good_def)
    have fin: "ps_status ?r2 = Finalized" by simp
    have "po_accrual ?s = po_accrual (accrue_private_transfer_fee (stored_split rec) s)"
      by (simp add: accrue_private_transfer_fee_def read_fee_accrual_def split: option.split prod.split)
    then show thesis by (rule that [OF t touch fin])
  qed
qed

lemma seg_promote:
  assumes idle: "idle s c i rec" and st: "ps_status rec = RootAccepted"
    and x: "finish_promotion self token now i rec attempt_payout s = Some (r, s')"
  shows "seg_ok c s i rec (promoted r, s')"
proof -
  have nt: "\<not> is_terminal_spend_status (ps_status rec)" by (simp add: st is_terminal_spend_status_def)
  show ?thesis
  proof (cases "ps_public_payout rec = None")
    case True
    obtain s1 rec' where t: "terminal_payout i None now s = Some (Inr (), s1)"
        "touches c s s1 i rec rec' None []"
      by (rule terminal_payout_idle [OF idle nt, of None now]) auto
    then show ?thesis
      using x True by (auto simp: finish_promotion_def bind_act_def promoted_def intro!: seg_of_touch)
  next
    case False
    note t = set_status_idle [OF idle]
    show ?thesis
    proof (cases attempt_payout)
      case no: False
      then show ?thesis
        using x False t by (auto simp: finish_promotion_def promoted_def intro!: seg_of_touch)
    next
      case True
      let ?s1 = "set_spend_status i (PayoutPending (Literal ''promoted payout outstanding'')) s"
      note t1 = t [of "PayoutPending (Literal ''promoted payout outstanding'')"]
      obtain y where y: "claim_payout i ?s1 = Some y"
        using x False True by (auto simp: finish_promotion_def split: option.splits)
      from claim_idle [OF idle_after [OF idle t1] this] show ?thesis
      proof (elim disjE exE conjE)
        fix e s2 rec2 assume c: "y = (Inl e, s2)"
          "touches c ?s1 s2 i (rec\<lparr> ps_status := PayoutPending (Literal ''promoted payout outstanding'') \<rparr>) rec2 None []"
        then have "\<exists>e'. (promoted r, s') = (Inl e', s2)"
          using x y False True by (cases e) (auto simp: finish_promotion_def promoted_def)
        then show ?thesis using touches_trans [OF t1 c(2)] by (auto intro: seg_of_touch)
      next
        fix g s2 rec2 p r2
        assume c: "y = (Inr g, s2)" "at_id g = i" "running s2 c g rec2 p r2"
          "touches c ?s1 s2 i (rec\<lparr> ps_status := PayoutPending (Literal ''promoted payout outstanding'') \<rparr>) rec2
             (Some (AwaitBalance g p [])) []"
        obtain z sz where z: "run_segment g (run_payout_start self g token) s2 = Some (z, sz)"
          using x y c(1) False True by (auto simp: finish_promotion_def bind_act_def split: option.splits)
        have "s' = sz \<and> held (promoted r) = held z"
          using x y c(1) False True z
          by (auto simp: finish_promotion_def bind_act_def promoted_def split: sum.splits run_step.splits)
        moreover have "seg_ok c s i rec (z, sz)"
          using seg_ok_trans [OF touches_trans [OF t1 c(4)]] seg_run_start [OF c(3) z] c(2) by simp
        ultimately show ?thesis by (simp add: seg_ok_def)
      qed
    qed
  qed
qed

lemma reconcile_idle:
  assumes idle: "idle s c i rec" and x: "reconcile_private_spend_payout now caller ok i outcome s = Some (r, s')"
  shows "\<exists>rec'. touches c s s' i rec rec' None []"
proof (cases "po_controller s = Some caller \<and> ok")
  case False
  then have "s' = s" using x by (auto simp: reconcile_private_spend_payout_def split: if_splits)
  then show ?thesis using touches_same [OF idle] by blast
next
  case True
  then obtain y where y: "normalize_payout i s = Some y"
    using x by (auto simp: reconcile_private_spend_payout_def bind_act_def split: option.splits)
  from normalize_idle [OF idle this] show ?thesis
  proof (elim disjE exE conjE)
    fix e assume "y = (Inl e, s)"
    then have "s' = s" using x y True by (auto simp: reconcile_private_spend_payout_def bind_act_def)
    then show ?thesis using touches_same [OF idle] by blast
  next
    fix rec1 s1 assume yy: "y = (Inr rec1, s1)" and t: "touches c s s1 i rec rec1 None []"
    note idle1 = idle_after [OF idle t]
    have "s' = s1 \<or> (is_payout_unknown (ps_status rec1) \<or> is_payout_pending (ps_status rec1)
          \<and> ps_public_payout rec1 \<noteq> None) \<and> reconcile_settle now i outcome rec1 s1 = Some (r, s')"
      using x y yy True
      by (auto simp: reconcile_private_spend_payout_def bind_act_def [of "normalize_payout i"] need_def
          is_payout_unknown_def is_payout_pending_def split: spend_status.splits option.splits if_splits)
    then consider (same) "s' = s1" | (settle) "is_payout_unknown (ps_status rec1)
          \<or> is_payout_pending (ps_status rec1) \<and> ps_public_payout rec1 \<noteq> None"
        "reconcile_settle now i outcome rec1 s1 = Some (r, s')"
      by blast
    then show ?thesis
    proof cases
      case same
      with t show ?thesis by blast
    next
      case settle
      note st = settle(1) and set = settle(2)
      have nt: "\<not> is_terminal_spend_status (ps_status rec1)"
        using st by (auto simp: is_payout_unknown_def is_payout_pending_def is_terminal_spend_status_def
            split: spend_status.splits)
      show ?thesis
      proof (cases outcome)
        case OutcomeNotExecuted
        then have "s' = s1 \<or> s' = set_spend_status i
            (PayoutPending (Literal ''controller reconciled: payout NOT executed'')) s1"
          using set by (auto simp: reconcile_settle_def split: if_splits)
        then show ?thesis using t touches_trans [OF t set_status_idle [OF idle1]] by blast
      next
        case (OutcomeExecuted b)
        show ?thesis
        proof (cases "ps_public_payout rec1 = None")
          case True
          have "fmlookup (po_spends s1) i = Some rec1" using idle1 by (simp add: idle_def)
          moreover have "ps_status rec1 \<noteq> Finalized" using nt by (auto simp: is_terminal_spend_status_def)
          ultimately have "terminal_payout i (Some b) now s1 = Some (Inl WrongSpendStatus, s1)"
            using True by (simp add: terminal_payout_def payout_record_def)
          then have "s' = s1" using set OutcomeExecuted by (simp add: reconcile_settle_def bind_act_def)
          with t show ?thesis by blast
        next
          case False
          obtain s2 rec2 where s2: "terminal_payout i (Some b) now s1 = Some (Inr (), s2)"
              "touches c s1 s2 i rec1 rec2 None []"
            by (rule terminal_payout_idle [OF idle1 nt, of "Some b" now]) (use False in auto)
          then have "s' = s2" using set OutcomeExecuted by (auto simp: reconcile_settle_def bind_act_def)
          then show ?thesis using touches_trans [OF t s2(2)] by blast
        qed
      qed
    qed
  qed
qed

section \<open>An executing record\<close>

text \<open>While an executor is alive, nobody else can move the record.\<close>

lemma normalize_busy:
  assumes "running s c g rec p r"
  shows "normalize_payout (at_id g) s = Some (Inr rec, s)"
proof -
  note R = running_parts [OF assms]
  show ?thesis
    unfolding normalize_payout_def normalize_checks [OF R(1-3)] by (simp add: R(7,10))
qed

lemma retry_busy:
  assumes "running s c g rec p r" "retry_private_spend_payout_inner self ok (at_id g) s = Some x"
  shows "\<exists>e. x = (Inl e, s)"
  using assms(2) running_parts(7) [OF assms(1)]
  by (auto simp: retry_private_spend_payout_inner_def bind_act_def normalize_busy [OF assms(1)]
      split: if_splits)

lemma reconcile_busy:
  assumes "running s c g rec p r"
    and "reconcile_private_spend_payout now caller ok (at_id g) outcome s = Some (r', s')"
  shows "s' = s"
  using assms(2) running_parts(7) [OF assms(1)]
  by (auto simp: reconcile_private_spend_payout_def bind_act_def normalize_busy [OF assms(1)]
      split: if_splits)

end
