(* ===== verification/Payout_Invariant.thy ===== *)
theory Payout_Invariant
  imports Payout_Steps
begin

text \<open>
  Every reachable payout world satisfies \<open>payout_inv\<close>: preservation step by step, from the \<open>touches\<close>
  summaries of the actions.
\<close>

definition world_ok :: "payout_control \<Rightarrow> payout_world \<Rightarrow> bool" where
  "world_ok c w \<longleftrightarrow> control_decode (po_control (pw_state w)) = Some c
     \<and> payout_inv c (po_spends (pw_state w)) (po_live (pw_state w)) (pw_waiting w) (pw_sent w)"

lemma world_okD:
  assumes "world_ok c w"
  shows "control_decode (po_control (pw_state w)) = Some c"
    and "payout_inv c (po_spends (pw_state w)) (po_live (pw_state w)) (pw_waiting w) (pw_sent w)"
  using assms by (auto simp: world_ok_def)

section \<open>Who is running\<close>

lemma running_of_wait:
  assumes "world_ok c w" "wt \<in> set (pw_waiting w)"
  obtains rec p r where "running (pw_state w) c (wait_guard wt) rec p r" "wait_ok rec wt"
proof -
  note W = world_okD [OF assms(1)]
  note I = payout_invD [OF W(2)]
  obtain rec where rec: "fmlookup (po_spends (pw_state w)) (at_id (wait_guard wt)) = Some rec" "wait_ok rec wt"
    using I(5) [OF assms(2)] by blast
  have "executing rec (wait_guard wt)" using rec(2) by (cases wt) auto
  then obtain p r where "ps_status rec = PayoutSubmitting" "ps_public_payout rec = Some p"
      "pp_retry p = Some r" "attempt_of (at_id (wait_guard wt)) r = Some (wait_guard wt)" "pr_generation r \<noteq> 0"
    by (auto simp: executing_iff)
  moreover have "fmlookup (po_live (pw_state w)) (at_id (wait_guard wt)) = Some (wait_guard wt)"
    using I(7) assms(2) by blast
  ultimately have "running (pw_state w) c (wait_guard wt) rec p r"
    using W(1) rec(1) I(1) [OF rec(1)] I(8) by (simp add: running_def)
  then show thesis using rec(2) by (rule that)
qed

lemma live_or_idle:
  assumes "world_ok c w" "fmlookup (po_spends (pw_state w)) i = Some rec"
  obtains (live) wt p r where "wt \<in> set (pw_waiting w)" "at_id (wait_guard wt) = i"
      "running (pw_state w) c (wait_guard wt) rec p r"
    | (idle) "idle (pw_state w) c i rec" "others i (pw_waiting w) = pw_waiting w"
proof (cases "fmlookup (po_live (pw_state w)) i")
  case None
  note W = world_okD [OF assms(1)]
  note I = payout_invD [OF W(2)]
  have "at_id (wait_guard wt) \<noteq> i" if "wt \<in> set (pw_waiting w)" for wt
    using I(7) [of i "wait_guard wt"] that None by auto
  then have "others i (pw_waiting w) = pw_waiting w" by (simp add: others_def filter_True)
  then show thesis
    using idle W(1) assms(2) I(1) [OF assms(2)] I(8) None by (simp add: idle_def)
next
  case (Some g)
  note I = payout_invD [OF world_okD(2) [OF assms(1)]]
  obtain wt where wt: "wt \<in> set (pw_waiting w)" "wait_guard wt = g" "at_id g = i"
    using I(7) [of i g] Some by blast
  obtain rec' p r where r: "running (pw_state w) c (wait_guard wt) rec' p r"
    by (rule running_of_wait [OF assms(1) wt(1)])
  have "rec' = rec" using running_parts(2) [OF r] wt assms(2) by simp
  with r show thesis using live wt by simp
qed

lemma idle_of_status:
  assumes "world_ok c w" "fmlookup (po_spends (pw_state w)) i = Some rec" "ps_status rec \<noteq> PayoutSubmitting"
  shows "idle (pw_state w) c i rec" "others i (pw_waiting w) = pw_waiting w"
  using live_or_idle [OF assms(1,2)] running_parts(7) assms(3) by metis+

section \<open>Segments in a world\<close>

lemma absorb_fields:
  "pw_state (absorb w x) = snd x"
  "pw_waiting (absorb w x) = (case fst (held (fst x)) of None \<Rightarrow> pw_waiting w | Some wt \<Rightarrow> wt # pw_waiting w)"
  "pw_sent (absorb w x) = snd (held (fst x)) @ pw_sent w"
  by (cases x; simp add: absorb_def held_def split: sum.splits run_step.splits)+

lemma world_absorb:
  assumes "world_ok c w" "fmlookup (po_spends (pw_state w)) i = Some rec"
    and "seg_ok c (pw_state w) i rec x" "others i (pw_waiting w) = ws"
  shows "world_ok c (absorb (w\<lparr> pw_waiting := ws \<rparr>) x)"
proof -
  note W = world_okD [OF assms(1)]
  obtain rec' where t: "touches c (pw_state w) (snd x) i rec rec' (fst (held (fst x))) (snd (held (fst x)))"
    using assms(3) by (auto simp: seg_ok_def)
  have "po_control (snd x) = po_control (pw_state w)" using t by (simp add: touches_def)
  moreover have "pw_waiting (absorb (w\<lparr> pw_waiting := ws \<rparr>) x) = holders (fst (held (fst x))) i (pw_waiting w)"
    by (simp add: absorb_fields holders_def assms(4) split: option.split)
  ultimately show ?thesis
    using inv_touches [OF W(2) assms(2) t] W(1) by (simp add: world_ok_def absorb_fields)
qed

lemma world_touch:
  assumes "world_ok c w" "fmlookup (po_spends (pw_state w)) i = Some rec"
    and "touches c (pw_state w) s' i rec rec' None []" "others i (pw_waiting w) = ws"
  shows "world_ok c (w\<lparr> pw_state := s', pw_waiting := ws \<rparr>)"
proof -
  note W = world_okD [OF assms(1)]
  have "po_control s' = po_control (pw_state w)" using assms(3) by (simp add: touches_def)
  then show ?thesis
    using inv_touches [OF W(2) assms(2,3)] W(1) assms(4) by (simp add: world_ok_def holders_def)
qed

lemma others_remove:
  assumes "world_ok c w" "wt \<in> set (pw_waiting w)"
  shows "others (at_id (wait_guard wt)) (pw_waiting w) = remove1 wt (pw_waiting w)"
proof -
  have "distinct (map (at_id \<circ> wait_guard) ws) \<Longrightarrow> wt \<in> set ws \<Longrightarrow>
      others (at_id (wait_guard wt)) ws = remove1 wt ws" for ws
  proof (induction ws)
    case (Cons v ws)
    show ?case
    proof (cases "v = wt")
      case True
      with Cons.prems show ?thesis by (auto simp: others_def filter_id_conv image_iff)
    next
      case False
      then have "wt \<in> set ws" using Cons.prems(2) by simp
      moreover from this have "at_id (wait_guard v) \<noteq> at_id (wait_guard wt)"
        using Cons.prems(1) by (auto simp: image_iff)
      ultimately show ?thesis using Cons False by (simp add: others_def)
    qed
  qed simp
  then show ?thesis using payout_invD(6) [OF world_okD(2) [OF assms(1)]] assms(2) by blast
qed

lemma seg_resume:
  assumes "running s c (wait_guard wt) rec p r" "wait_ok rec wt" "\<forall>k m. length (hmac k m) = 32"
    and "resume hmac self now wt reply s = Some x"
  shows "seg_ok c s (at_id (wait_guard wt)) rec x"
proof (cases wt)
  case (AwaitBalance g p' l)
  have "p' = p" using assms(2) running_parts(4) [OF assms(1)] by (simp add: AwaitBalance)
  then show ?thesis
    using assms(1,4) seg_resume_balance by (cases reply) (auto simp: AwaitBalance)
next
  case (AwaitFee g l)
  have "pr_frozen r = None" using assms(2) running_parts(6) [OF assms(1)] by (simp add: AwaitFee frozen_of_def)
  then show ?thesis
    using assms(1,4) seg_resume_fee [OF _ _ assms(3)] by (cases reply) (auto simp: AwaitFee)
next
  case (AwaitTransfer g)
  then show ?thesis
    using assms(1,4) seg_resume_transfer by (cases reply) (auto simp: AwaitTransfer)
qed

section \<open>Control changes and new records\<close>

lemma rec_ok_mono:
  "rec_ok c rec \<Longrightarrow> pc_boot c \<le> pc_boot c' \<Longrightarrow> pc_next c \<le> pc_next c' \<Longrightarrow> rec_ok c' rec"
  by (auto simp: rec_ok_def intro: retry_valid_mono split: option.splits)

lemma payout_inv_mono:
  assumes inv: "payout_inv c spends live waiting sent" and le: "pc_boot c \<le> pc_boot c'" "pc_next c \<le> pc_next c'"
  shows "payout_inv c' spends live waiting sent"
proof (rule payout_invI)
  note I = payout_invD [OF inv]
  show "rec_ok c' rec" if "fmlookup spends i = Some rec" for i rec
    using rec_ok_mono [OF I(1) [OF that] le] .
  show "sub_ok c' spends x" if "x \<in> set sent" for x
    using I(3) [OF that] le(2) by (cases x) (auto intro!: sub_okI dest: sub_okD)
qed (fact payout_invD [OF inv])+

text \<open>A record under a fresh id, with a fresh sequence number or none.\<close>

lemma payout_inv_insert:
  assumes inv: "payout_inv c spends live waiting sent" and free: "fmlookup spends i = None"
    and ok: "rec_ok c rec"
    and seq: "\<And>j r. fmlookup spends j = Some r \<Longrightarrow> seq_of rec \<noteq> None \<Longrightarrow> seq_of r \<noteq> seq_of rec"
    and sub: "\<And>x. x \<in> set sent \<Longrightarrow> seq_of rec \<noteq> Some (fst x)"
  shows "payout_inv c (fmupd i rec spends) live waiting sent"
proof (rule payout_invI)
  note I = payout_invD [OF inv]
  let ?sp = "fmupd i rec spends"
  show "rec_ok c r" if "fmlookup ?sp j = Some r" for j r
    using that I(1) [of j r] ok by (simp split: if_splits)
  show "j = k" if u: "fmlookup ?sp j = Some r" "fmlookup ?sp k = Some r'"
    "seq_of r = Some q" "seq_of r' = Some q" for j k r r' q
  proof (cases "j = i \<or> k = i")
    case True
    then show ?thesis using u seq [of j r] seq [of k r'] by (auto split: if_splits)
  next
    case False
    then show ?thesis using u I(2) [of j r k r' q] by simp
  qed
  show "sub_ok c ?sp x" if x: "x \<in> set sent" for x
  proof (cases x)
    case (fields q l a)
    note ok = I(3) [OF x, unfolded fields]
    show ?thesis unfolding fields
    proof (rule sub_okI [OF sub_okD(1) [OF ok]])
      fix j r assume j: "fmlookup ?sp j = Some r" "seq_of r = Some q"
      then have "fmlookup spends j = Some r" using sub [OF x] fields by (auto split: if_splits)
      from sub_okD(2) [OF ok this j(2)] show "\<exists>f. frozen_of r = Some f \<and> l = fp_ledger f \<and> a = frozen_args f" .
    qed
  qed
  show "\<exists>r. fmlookup ?sp (at_id (wait_guard w)) = Some r \<and> wait_ok r w" if "w \<in> set waiting" for w
    using I(5) [OF that] free by auto
qed (fact payout_invD [OF inv])+

lemma payout_inv_forget:
  assumes inv: "payout_inv c spends live waiting sent" and idle: "fmlookup live i = None"
  shows "payout_inv c (fmdrop i spends) live waiting sent"
proof (rule payout_invI)
  note I = payout_invD [OF inv]
  let ?sp = "fmdrop i spends"
  have old: "fmlookup ?sp j = Some r \<Longrightarrow> fmlookup spends j = Some r" for j r by (simp split: if_splits)
  show "rec_ok c r" if "fmlookup ?sp j = Some r" for j r using I(1) [OF old [OF that]] .
  show "j = k" if "fmlookup ?sp j = Some r" "fmlookup ?sp k = Some r'"
    "seq_of r = Some q" "seq_of r' = Some q" for j k r r' q
    using I(2) [OF old [OF that(1)] old [OF that(2)] that(3,4)] .
  show "sub_ok c ?sp x" if "x \<in> set sent" for x
    using I(3) [OF that] by (cases x) (auto intro!: sub_okI dest: sub_okD split: if_splits)
  show "\<exists>r. fmlookup ?sp (at_id (wait_guard w)) = Some r \<and> wait_ok r w" if "w \<in> set waiting" for w
  proof -
    have "fmlookup live (at_id (wait_guard w)) = Some (wait_guard w)" using I(7) that by blast
    then have "at_id (wait_guard w) \<noteq> i" using idle by auto
    then show ?thesis using I(5) [OF that] by simp
  qed
qed (fact payout_invD [OF inv])+

lemma control_write_ok:
  "control_ok c \<Longrightarrow> control_decode (po_control (write_control c s)) = Some c"
  by (simp add: write_control_def control_decode_encode)

lemma write_control_fields [simp]:
  "po_spends (write_control c s) = po_spends s" "po_live (write_control c s) = po_live s"
  by (simp_all add: write_control_def)

section \<open>Preservation\<close>

lemma ok_admit:
  assumes w: "world_ok c w" and free: "fmlookup (po_spends (pw_state w)) i = None"
    and res: "reserve_payout_sequence (pw_state w) = Some (Inr r, s)" and rec: "admitted_record r rec"
  shows "\<exists>c'. world_ok c' (w\<lparr> pw_state := put_spend i rec s \<rparr>)"
proof -
  note W = world_okD [OF w]
  note I = payout_invD [OF W(2)]
  have ok: "control_ok c" by (rule control_decode_ok [OF W(1)])
  let ?c = "c\<lparr> pc_next := pc_next c + 1 \<rparr>"
  have r: "pc_next c + 1 < u128_limit" "s = write_control ?c (pw_state w)"
    "r = \<lparr> pr_memo_sequence = pc_next c, pr_generation = 0, pr_boot = pc_boot c, pr_phase = PreDispatch,
        pr_prior_ambiguity = False, pr_dispatched = False, pr_frozen = None \<rparr>"
    using res by (auto simp: reserve_payout_sequence_def bind_control [OF W(1)] result_simps split: if_splits)
  obtain p where p: "ps_public_payout rec = Some p" "pp_retry p = Some r" "pp_public_amount p < u128_limit"
    using rec by (auto simp: admitted_record_def split: option.splits)
  then have seq: "seq_of rec = Some (pc_next c)" by (simp add: seq_of_def retry_of_def r(3))
  have "retry_valid ?c p r"
    using ok r(1) by (simp add: retry_valid_def r(3) to_width_def control_ok_def)
  then have rok: "rec_ok ?c rec" using p by (simp add: rec_ok_def)
  have "payout_inv ?c (po_spends (pw_state w)) (po_live (pw_state w)) (pw_waiting w) (pw_sent w)"
    by (rule payout_inv_mono [OF W(2)]) simp_all
  then have "payout_inv ?c (fmupd i rec (po_spends (pw_state w))) (po_live (pw_state w)) (pw_waiting w) (pw_sent w)"
  proof (rule payout_inv_insert [OF _ free rok])
    fix j r' assume "fmlookup (po_spends (pw_state w)) j = Some r'"
    then show "seq_of r' \<noteq> seq_of rec" using rec_ok_seq [OF I(1)] seq by fastforce
  next
    fix x assume x: "x \<in> set (pw_sent w)"
    obtain q l a where f: "x = (q, l, a)" by (cases x) auto
    have "q < pc_next c" by (rule sub_okD(1) [OF I(3) [OF x, unfolded f]])
    then show "seq_of rec \<noteq> Some (fst x)" using seq f by simp
  qed
  moreover have "control_ok ?c" using ok r(1) by (simp add: control_ok_def)
  ultimately have "world_ok ?c (w\<lparr> pw_state := put_spend i rec s \<rparr>)"
    using control_write_ok [of ?c "pw_state w"] by (simp add: world_ok_def r(2))
  then show ?thesis by blast
qed

lemma ok_key_resume:
  assumes w: "world_ok c w" and run: "ensure_payout_memo_key_resume c0 reply (pw_state w) = Some (r, s)"
  shows "\<exists>c'. world_ok c' (w\<lparr> pw_state := s, pw_key_waiting := ks \<rparr>)"
proof -
  note W = world_okD [OF w]
  have "s = pw_state w \<or> (\<exists>k. length k = 32 \<and> s = write_control (c\<lparr> pc_key := Some k \<rparr>) (pw_state w))"
    using run by (cases reply)
      (auto simp: ensure_payout_memo_key_resume_def bind_control [OF W(1)] split: if_splits)
  then show ?thesis
  proof (elim disjE exE conjE)
    assume "s = pw_state w"
    with w show ?thesis by (auto simp: world_ok_def)
  next
    fix k :: bytes assume k: "length k = 32" "s = write_control (c\<lparr> pc_key := Some k \<rparr>) (pw_state w)"
    let ?c = "c\<lparr> pc_key := Some k \<rparr>"
    have "control_ok ?c" using control_decode_ok [OF W(1)] k(1) by (simp add: control_ok_def)
    moreover have "payout_inv ?c (po_spends (pw_state w)) (po_live (pw_state w)) (pw_waiting w) (pw_sent w)"
      by (rule payout_inv_mono [OF W(2)]) simp_all
    ultimately have "world_ok ?c (w\<lparr> pw_state := s, pw_key_waiting := ks \<rparr>)"
      using control_write_ok by (simp add: world_ok_def k(2))
    then show ?thesis by blast
  qed
qed

lemma payout_inv_no_executors:
  assumes "payout_inv c spends live waiting sent"
  shows "payout_inv c spends fmempty [] sent"
proof (rule payout_invI)
  show "fmlen (fmempty :: (nat, attempt) fmap) \<le> 64" by simp
qed (use payout_invD [OF assms] in \<open>blast | simp\<close>)+

lemma ok_upgrade:
  assumes w: "world_ok c w" and n: "predecessor \<noteq> 3"
    and run: "payout_control_upgrade predecessor (pw_state w) = Some (Inr (), s)"
  shows "\<exists>c'. world_ok c' (w\<lparr> pw_state := s, pw_waiting := [], pw_key_waiting := [] \<rparr>)"
proof -
  note W = world_okD [OF w]
  let ?c = "c\<lparr> pc_boot := pc_boot c + 1 \<rparr>"
  have s: "pc_boot c + 1 < u64_limit" "s = (write_control ?c (pw_state w))\<lparr> po_live := fmempty \<rparr>"
    using run n by (auto simp: payout_control_upgrade_def bind_act_def bind_control [OF W(1)] control_def W(1)
        checked_add_def split: option.splits if_splits)
  have "control_ok ?c" using control_decode_ok [OF W(1)] s(1) by (simp add: control_ok_def)
  moreover have "payout_inv ?c (po_spends (pw_state w)) fmempty [] (pw_sent w)"
    by (rule payout_inv_no_executors [OF payout_inv_mono [OF W(2)]]) simp_all
  ultimately have "world_ok ?c (w\<lparr> pw_state := s, pw_waiting := [], pw_key_waiting := [] \<rparr>)"
    using control_write_ok [of ?c "pw_state w"] by (simp add: world_ok_def s(2))
  then show ?thesis by blast
qed

lemma ok_retry:
  assumes w: "world_ok c w" and x: "retry_private_spend_payout_inner self recovered i (pw_state w) = Some x"
  shows "world_ok c (absorb w x)"
proof (cases "fmlookup (po_spends (pw_state w)) i")
  case None
  then have "\<exists>e. x = (Inl e, pw_state w)"
    using x by (auto simp: retry_private_spend_payout_inner_def normalize_payout_def payout_record_def
        bind_act_def split: if_splits)
  then show ?thesis using w by (auto simp: absorb_def world_ok_def)
next
  case (Some rec)
  show ?thesis
  proof (cases rule: live_or_idle [OF w Some])
    case (1 wt p r)
    then have "\<exists>e. x = (Inl e, pw_state w)" using retry_busy [OF 1(3)] x by simp
    then show ?thesis using w by (auto simp: absorb_def world_ok_def)
  next
    case 2
    from world_absorb [OF w Some seg_retry [OF 2(1) x] 2(2)] show ?thesis by simp
  qed
qed

lemma ok_reconcile:
  assumes w: "world_ok c w"
    and x: "reconcile_private_spend_payout now caller recovered i outcome (pw_state w) = Some (r, s)"
  shows "world_ok c (w\<lparr> pw_state := s \<rparr>)"
proof (cases "fmlookup (po_spends (pw_state w)) i")
  case None
  then have "s = pw_state w"
    using x by (auto simp: reconcile_private_spend_payout_def normalize_payout_def payout_record_def
        bind_act_def split: if_splits)
  then show ?thesis using w by simp
next
  case (Some rec)
  show ?thesis
  proof (cases rule: live_or_idle [OF w Some])
    case (1 wt p q)
    have "s = pw_state w" using reconcile_busy [OF 1(3)] x unfolding 1(2) by blast
    then show ?thesis using w by simp
  next
    case 2
    obtain rec' where "touches c (pw_state w) s i rec rec' None []"
      using reconcile_idle [OF 2(1) x] by blast
    from world_touch [OF w Some this 2(2)] show ?thesis by simp
  qed
qed

lemma ok_lost:
  assumes w: "world_ok c w" and wt: "wt \<in> set (pw_waiting w)"
  shows "world_ok c (w\<lparr> pw_waiting := remove1 wt (pw_waiting w),
    pw_state := drop_guard (wait_guard wt) (pw_state w) \<rparr>)"
proof -
  obtain rec p r where run: "running (pw_state w) c (wait_guard wt) rec p r"
    by (rule running_of_wait [OF w wt])
  note R = running_parts [OF run]
  have "put_spend (at_id (wait_guard wt)) rec (pw_state w) = pw_state w"
    using live_same [OF R(2)] by (simp add: put_spend_def)
  then have "touches c (pw_state w) (drop_guard (wait_guard wt) (pw_state w)) (at_id (wait_guard wt)) rec rec None []"
    using drop_guard_touches [OF run good_refl [OF R(3)]] by simp
  from world_touch [OF w R(2) this others_remove [OF w wt]] show ?thesis by (simp add: world_ok_def)
qed

lemma ok_resume:
  assumes w: "world_ok c w" and wt: "wt \<in> set (pw_waiting w)" and mac: "\<forall>k m. length (hmac k m) = 32"
    and x: "resume hmac self now wt reply (pw_state w) = Some x"
  shows "world_ok c (absorb (w\<lparr> pw_waiting := remove1 wt (pw_waiting w) \<rparr>) x)"
proof -
  obtain rec p r where run: "running (pw_state w) c (wait_guard wt) rec p r" "wait_ok rec wt"
    by (rule running_of_wait [OF w wt])
  show ?thesis
    by (rule world_absorb [OF w running_parts(2) [OF run(1)] seg_resume [OF run mac x] others_remove [OF w wt]])
qed

lemma world_step:
  assumes "payout_step hmac self w w'" "world_ok c w" "\<forall>k m. length (hmac k m) = 32"
  shows "\<exists>c'. world_ok c' w'"
  using assms(1)
proof cases
  case (py_time t)
  then show ?thesis using assms(2) by (auto simp: world_ok_def)
next
  case (py_admit i r s rec)
  then show ?thesis using ok_admit [OF assms(2)] by blast
next
  case (py_admit_plain i rec)
  have "retry_of rec = None" "rec_ok c rec" using py_admit_plain(3) by (simp_all add: retry_of_def rec_ok_def)
  then have "payout_inv c (fmupd i rec (po_spends (pw_state w))) (po_live (pw_state w)) (pw_waiting w) (pw_sent w)"
    using py_admit_plain(2) by (intro payout_inv_insert [OF world_okD(2) [OF assms(2)]]) (simp_all add: seq_of_def)
  then show ?thesis using world_okD(1) [OF assms(2)] py_admit_plain(1) by (auto simp: world_ok_def)
next
  case (py_progress i rec st x)
  have "ps_status rec \<noteq> PayoutSubmitting" using py_progress(3) by (auto simp: payout_stage_def)
  note d = idle_of_status [OF assms(2) py_progress(2) this]
  have "good c rec (rec\<lparr> ps_status := st, ps_finalized_at_ns := x \<rparr>)"
    using d(1) by (simp add: good_def idle_def)
  from world_touch [OF assms(2) py_progress(2) touches_put [OF d(1) this] d(2)] show ?thesis
    using py_progress(1) by auto
next
  case (py_forget i rec)
  have "ps_status rec \<noteq> PayoutSubmitting" using py_forget(3) by (auto simp: payout_stage_def)
  note d = idle_of_status [OF assms(2) py_forget(2) this]
  have "payout_inv c (fmdrop i (po_spends (pw_state w))) (po_live (pw_state w)) (pw_waiting w) (pw_sent w)"
    using d(1) by (intro payout_inv_forget [OF world_okD(2) [OF assms(2)]]) (simp add: idle_def)
  then show ?thesis using world_okD(1) [OF assms(2)] py_forget(1) by (auto simp: world_ok_def)
next
  case (py_promote i rec token attempt_payout r s)
  have "ps_status rec \<noteq> PayoutSubmitting" using py_promote(3) by simp
  note d = idle_of_status [OF assms(2) py_promote(2) this]
  from world_absorb [OF assms(2) py_promote(2) seg_promote [OF d(1) py_promote(3,4)] d(2)] show ?thesis
    using py_promote(1) by (auto simp: promoted_def)
next
  case (py_retry recovered i r)
  then show ?thesis using ok_retry [OF assms(2)] by blast
next
  case (py_resume wt reply r)
  from ok_resume [OF assms(2) py_resume(2) assms(3) py_resume(3)] show ?thesis
    using py_resume(1) by blast
next
  case (py_lost wt)
  then show ?thesis using ok_lost [OF assms(2)] by blast
next
  case (py_reconcile caller recovered i outcome r s)
  then show ?thesis using ok_reconcile [OF assms(2)] by blast
next
  case (py_key_start c0 s)
  have "s = pw_state w"
    using py_key_start(2) by (auto simp: ensure_payout_memo_key_start_def bind_control [OF world_okD(1) [OF assms(2)]])
  then show ?thesis using assms(2) py_key_start(1) by (auto simp: world_ok_def)
next
  case (py_key_resume c0 reply r s)
  then show ?thesis using ok_key_resume [OF assms(2)] by blast
next
  case (py_upgrade predecessor s)
  then show ?thesis using ok_upgrade [OF assms(2)] by blast
qed

lemma world_start:
  assumes "payout_start s0 s"
  shows "world_ok \<lparr> pc_boot = 1, pc_next = 0, pc_key = None \<rparr>
    \<lparr> pw_state = s, pw_now = t, pw_waiting = [], pw_key_waiting = [], pw_sent = [] \<rparr>"
proof -
  let ?c = "\<lparr> pc_boot = 1, pc_next = 0, pc_key = None \<rparr>"
  have s: "control_decode (po_control s) = Some ?c" "po_live s = fmempty" "po_spends s = po_spends s0"
    using assms control_write_ok [of ?c]
    by (auto simp: payout_start_def payout_control_init_def payout_control_upgrade_def bind_act_def
        control_ok_def split: if_splits)
  have "retry_of rec = None" if "fmlookup (po_spends s) i = Some rec" for i rec
    using assms that by (auto simp: payout_start_def s(3))
  moreover have "rec_ok c rec" if "retry_of rec = None" for c rec
    using that by (auto simp: rec_ok_def retry_of_def split: option.splits)
  ultimately have "payout_inv ?c (po_spends s) fmempty [] []"
    by (intro payout_invI) (auto simp: seq_of_def)
  then show ?thesis using s by (simp add: world_ok_def)
qed

lemma run_world_ok:
  assumes "payout_run hmac self w" "\<forall>k m. length (hmac k m) = 32"
  shows "\<exists>c. world_ok c w"
  using assms(1)
proof (induction rule: payout_run.induct)
  case (pn_start s0 s t)
  then show ?case using world_start by blast
next
  case (pn_step w w')
  then show ?case using world_step assms(2) by blast
qed

end
