(* ===== verification/Payout_Properties.thy ===== *)
theory Payout_Properties
  imports Payout_Invariant
begin

text \<open>
  What the payouts of the pool guarantee in every run, and a concrete run: a payout is promoted,
  submitted, its callback is lost, the controller reconciles it, and it is submitted again.
\<close>

section \<open>A concrete run\<close>

definition exq_hmac :: "bytes \<Rightarrow> bytes \<Rightarrow> bytes" where "exq_hmac k m = replicate 32 0"

lemma exq_hmac_length: "\<forall>k m. length (exq_hmac k m) = 32" by (simp add: exq_hmac_def)

definition exq_control :: payout_control where
  "exq_control = \<lparr> pc_boot = 1, pc_next = 1, pc_key = Some (replicate 32 7) \<rparr>"

definition exq_state :: "payout_control \<Rightarrow> (nat, attempt) fmap \<Rightarrow> (nat, pending_spend) fmap \<Rightarrow> payouts" where
  "exq_state c live spends = \<lparr> po_control = control_encode c, po_live = live, po_spends = spends,
     po_terminal_index = {||}, po_active_index = {||}, po_accrual = None, po_controller = Some [1],
     po_token = Some [2], po_spends_paused = False \<rparr>"

text \<open>The retry state at generation \<open>g\<close>, in phase \<open>ph\<close>, ambiguous or not, dispatched and frozen or not.\<close>

definition exq_frozen :: frozen_payout where
  "exq_frozen = \<lparr> fp_ledger = [2], fp_from_subaccount = None, fp_destination = [9],
     fp_destination_subaccount = None, fp_amount = 90, fp_fee = Some 10, fp_memo = Some (replicate 32 0),
     fp_created_at_time = Some 5 \<rparr>"

definition exq_retry :: "nat \<Rightarrow> payout_phase \<Rightarrow> bool \<Rightarrow> bool \<Rightarrow> payout_retry_state" where
  "exq_retry g ph ambiguous sent = \<lparr> pr_memo_sequence = 0, pr_generation = g, pr_boot = 1, pr_phase = ph,
     pr_prior_ambiguity = ambiguous, pr_dispatched = sent,
     pr_frozen = (if sent then Some exq_frozen else None) \<rparr>"

definition exq_payout :: "payout_retry_state \<Rightarrow> pending_public_payout" where
  "exq_payout r = \<lparr> pp_destination = [9], pp_destination_subaccount = None, pp_public_amount = 100,
     pp_protocol_fee = 3, pp_block_index = None,
     pp_ledger_created_at_time_ns = (if pr_dispatched r then Some 5 else None), pp_retry = Some r \<rparr>"

definition exq_spend :: "payout_retry_state \<Rightarrow> spend_status \<Rightarrow> pending_spend" where
  "exq_spend r st = \<lparr> ps_spend_id = 7, ps_nullifiers = [], ps_output_commitments = [],
     ps_public_payout = Some (exq_payout r), ps_outputs_committed = 0, ps_fee = None, ps_status = st,
     ps_created_at_ns = 0, ps_submitter = None, ps_finalized_at_ns = None, ps_fee_model_version = None,
     ps_params_epoch = None, ps_spend_fee_mode = None, ps_fee_split_ops = None, ps_fee_split_insurance = None,
     ps_fee_split_staking = None \<rparr>"

definition exq_attempt :: "nat \<Rightarrow> attempt" where
  "exq_attempt g = \<lparr> at_id = 7, at_sequence = 0, at_generation = g, at_boot = 1 \<rparr>"

abbreviation exq_at :: "(nat, attempt) fmap \<Rightarrow> payout_retry_state \<Rightarrow> spend_status \<Rightarrow> payouts" where
  "exq_at live r st \<equiv> exq_state exq_control live (fmupd 7 (exq_spend r st) fmempty)"

abbreviation exq_world :: "payouts \<Rightarrow> payout_wait list \<Rightarrow> submission list \<Rightarrow> payout_world" where
  "exq_world s ws sent \<equiv> \<lparr> pw_state = s, pw_now = 5, pw_waiting = ws, pw_key_waiting = [], pw_sent = sent \<rparr>"

definition exq_promoted :: spend_status where
  "exq_promoted = PayoutPending (Literal ''promoted payout outstanding'')"

definition exq_unknown :: spend_status where
  "exq_unknown = PayoutUnknown (Literal ''quiescent payout requires reconciliation'')"

definition exq_sent :: submission where "exq_sent = (0, [2], frozen_args exq_frozen)"

lemma exq_control_ok:
  "control_ok exq_control" "control_ok \<lparr> pc_boot = 1, pc_next = 0, pc_key = None \<rparr>"
  "control_ok \<lparr> pc_boot = 1, pc_next = 0, pc_key = Some (replicate 32 7) \<rparr>"
  by (simp_all add: control_ok_def exq_control_def)

lemmas exq_controls = exq_control_ok exq_control_ok [simplified]

lemma exq_control_read [simp]:
  "control_ok c \<Longrightarrow> control (exq_state c live spends) = Some (Inr c, exq_state c live spends)"
  by (simp add: control_def exq_state_def control_decode_encode)

lemma exq_state_simps [simp]:
  "po_live (exq_state c live spends) = live" "po_spends (exq_state c live spends) = spends"
  "po_controller (exq_state c live spends) = Some [1]" "po_token (exq_state c live spends) = Some [2]"
  "\<not> po_spends_paused (exq_state c live spends)"
  "put_spend i rec (exq_state c live spends) = exq_state c live (fmupd i rec spends)"
  "write_control c' (exq_state c live spends) = exq_state c' live spends"
  "(exq_state c live spends)\<lparr> po_live := live' \<rparr> = exq_state c live' spends"
  "payout_record i (exq_state c live spends) = fmlookup spends i"
  by (simp_all add: exq_state_def put_spend_def write_control_def payout_record_def)

lemma exq_simps [simp]:
  "ps_status (exq_spend r st) = st" "ps_public_payout (exq_spend r st) = Some (exq_payout r)"
  "retry_of (exq_spend r st) = Some r" "(exq_spend r st)\<lparr> ps_status := st' \<rparr> = exq_spend r st'"
  "pp_retry (exq_payout r) = Some r" "pp_public_amount (exq_payout r) = 100"
  "pr_frozen (exq_retry g ph a b) = (if b then Some exq_frozen else None)"
  "pr_generation (exq_retry g ph a b) = g" "pr_boot (exq_retry g ph a b) = 1" "pr_phase (exq_retry g ph a b) = ph"
  "pr_prior_ambiguity (exq_retry g ph a b) = a" "pr_dispatched (exq_retry g ph a b) = b"
  "pr_memo_sequence (exq_retry g ph a b) = 0"
  "(exq_retry g ph a b)\<lparr> pr_generation := g' \<rparr> = exq_retry g' ph a b"
  "(exq_retry g ph a b)\<lparr> pr_boot := Suc 0 \<rparr> = exq_retry g ph a b"
  "(exq_retry g ph a b)\<lparr> pr_phase := ph' \<rparr> = exq_retry g ph' a b"
  "(exq_retry g ph a b)\<lparr> pr_prior_ambiguity := a' \<rparr> = exq_retry g ph a' b"
  "with_retry (exq_retry g' ph' a' b) (exq_spend (exq_retry g ph a b) st) = exq_spend (exq_retry g' ph' a' b) st"
  "attempt_of 7 (exq_retry g ph a b) = Some (exq_attempt g)"
  "(exq_retry g ph a True)\<lparr> pr_dispatched := True \<rparr> = exq_retry g ph a True"
  "((exq_retry g ph a False)\<lparr> pr_frozen := Some exq_frozen \<rparr>)\<lparr> pr_dispatched := True \<rparr> = exq_retry g ph a True"
  "at_id (exq_attempt g) = 7" "at_sequence (exq_attempt g) = 0" "pc_boot exq_control = 1"
  by (simp_all add: exq_spend_def exq_payout_def exq_retry_def retry_of_def with_retry_def attempt_of_def
      exq_attempt_def to_width_def exq_control_def)

lemma exq_valid [simp]:
  "g \<noteq> 0 \<or> ph = PreDispatch \<and> \<not> b \<Longrightarrow> ph = MayHaveDispatched \<longrightarrow> b \<Longrightarrow>
     retry_valid exq_control (exq_payout (exq_retry g ph a b)) (exq_retry g ph a b)"
  by (auto simp: retry_valid_def frozen_valid_def exq_payout_def exq_retry_def exq_control_def exq_frozen_def
      to_width_def checked_add_def)

lemma exq_promote:
  "finish_promotion [8] [2] 5 7 (exq_spend (exq_retry 0 PreDispatch False False) RootAccepted) True
     (exq_at fmempty (exq_retry 0 PreDispatch False False) RootAccepted)
   = Some (Inr (PromoteRunning
       (AwaitBalance (exq_attempt 1) (exq_payout (exq_retry 1 PreDispatch False False)) [2])
       (BalanceOf [2] \<lparr> ic_owner = [8], ic_subaccount = None \<rparr>)),
     exq_at (fmupd 7 (exq_attempt 1) fmempty) (exq_retry 1 PreDispatch False False) PayoutSubmitting)"
  by (simp add: finish_promotion_def set_spend_status_def claim_payout_def normalize_payout_def
      validate_retry_def exq_control_ok is_payout_pending_def MAX_LIVE_PAYOUT_ATTEMPTS_def checked_add_def
      run_segment_def run_payout_start_def owned_def bind_act_def Let_def)



lemma exq_owned [simp]:
  "owned (exq_attempt g) (exq_at (fmupd 7 (exq_attempt g) fmempty) (exq_retry g ph a b) PayoutSubmitting)
   = Some (Inr (exq_spend (exq_retry g ph a b) PayoutSubmitting),
       exq_at (fmupd 7 (exq_attempt g) fmempty) (exq_retry g ph a b) PayoutSubmitting)"
  by (simp add: owned_def)

lemma exq_balance:
  "run_segment (exq_attempt g) (resume_balance (exq_attempt g) (exq_payout (exq_retry g PreDispatch False False)) [2] (Some 500))
     (exq_at (fmupd 7 (exq_attempt g) fmempty) (exq_retry g PreDispatch False False) PayoutSubmitting)
   = Some (Inr (Suspended (AwaitFee (exq_attempt g) [2]) (LedgerFee [2])),
     exq_at (fmupd 7 (exq_attempt g) fmempty) (exq_retry g PreDispatch False False) PayoutSubmitting)"
  by (simp add: run_segment_def resume_balance_def owned_def query_result_def to_width_def
      payout_after_balance_def bind_act_def)

lemma exq_freeze:
  "pc_key exq_control = Some (replicate 32 7)"
  "freeze_payout exq_hmac k [8] [2] g 10 5 (exq_payout r) q = exq_frozen"
  "fp_ledger exq_frozen = [2]"
  by (simp_all add: freeze_payout_def exq_payout_def exq_frozen_def payout_memo_def exq_hmac_def exq_control_def)

lemma exq_dispatched:
  "with_retry ((exq_retry g ph a False)\<lparr> pr_frozen := Some exq_frozen, pr_phase := MayHaveDispatched,
       pr_dispatched := True \<rparr>)
     ((exq_spend (exq_retry g ph a False) st)\<lparr> ps_public_payout := Some ((exq_payout (exq_retry g ph a False))
      \<lparr> pp_retry := Some ((exq_retry g ph a False)\<lparr> pr_frozen := Some exq_frozen \<rparr>),
        pp_ledger_created_at_time_ns := Some 5 \<rparr>) \<rparr>)
   = exq_spend (exq_retry g MayHaveDispatched a True) st"
  by (simp add: with_retry_def exq_spend_def exq_payout_def exq_retry_def)

lemma exq_fee:
  "run_segment (exq_attempt 1) (resume_fee exq_hmac [8] 5 (exq_attempt 1) [2] (Some 10))
     (exq_at (fmupd 7 (exq_attempt 1) fmempty) (exq_retry 1 PreDispatch False False) PayoutSubmitting)
   = Some (Inr (Suspended (AwaitTransfer (exq_attempt 1)) (SubmitTransfer [2] (frozen_args exq_frozen))),
     exq_at (fmupd 7 (exq_attempt 1) fmempty) (exq_retry 1 MayHaveDispatched False True) PayoutSubmitting)"
  by (simp add: run_segment_def resume_fee_def owned_def query_result_def to_width_def exq_control_ok
      payout_dispatch_def bind_act_def exq_freeze owned_def
      retry_of_def exq_dispatched)


lemma exq_retry_unknown:
  "retry_private_spend_payout_inner [8] True 7
     (exq_at fmempty (exq_retry 1 MayHaveDispatched False True) PayoutSubmitting)
   = Some (Inl PayoutOutcomeUnknown, exq_at fmempty (exq_retry 1 MayHaveDispatched True True) exq_unknown)"
  by (simp add: retry_private_spend_payout_inner_def normalize_payout_def validate_retry_def exq_control_ok
      bind_act_def Let_def exq_unknown_def)

lemma exq_reconcile:
  "reconcile_private_spend_payout 5 [1] True 7 OutcomeNotExecuted
     (exq_at fmempty (exq_retry 1 MayHaveDispatched True True) exq_unknown)
   = Some (Inr RevertedToPending, exq_at fmempty (exq_retry 1 MayHaveDispatched True True)
       (PayoutPending (Literal ''controller reconciled: payout NOT executed'')))"
  by (simp add: reconcile_private_spend_payout_def normalize_payout_def validate_retry_def exq_control_ok
      bind_act_def Let_def exq_unknown_def reconcile_settle_def set_spend_status_def)

lemma exq_retry_again:
  "retry_private_spend_payout_inner [8] True 7
     (exq_at fmempty (exq_retry 1 MayHaveDispatched True True) (PayoutPending x))
   = Some (Inr (Suspended (AwaitTransfer (exq_attempt 2)) (SubmitTransfer [2] (frozen_args exq_frozen))),
      exq_at (fmupd 7 (exq_attempt 2) fmempty) (exq_retry 2 MayHaveDispatched True True) PayoutSubmitting)"
  by (simp add: retry_private_spend_payout_inner_def normalize_payout_def validate_retry_def exq_control_ok
      bind_act_def Let_def claim_and_run_def claim_payout_def is_payout_pending_def
      MAX_LIVE_PAYOUT_ATTEMPTS_def checked_add_def run_segment_def run_payout_start_def
      payout_after_balance_def payout_dispatch_def exq_freeze numeral_2_eq_2 [symmetric])


text \<open>The worlds of the run.\<close>

abbreviation exq_submitted :: payout_world where
  "exq_submitted \<equiv> exq_world
     (exq_at (fmupd 7 (exq_attempt 1) fmempty) (exq_retry 1 MayHaveDispatched False True) PayoutSubmitting)
     [AwaitTransfer (exq_attempt 1)] [exq_sent]"

abbreviation exq_stuck :: payout_world where
  "exq_stuck \<equiv> exq_world (exq_at fmempty (exq_retry 1 MayHaveDispatched True True) exq_unknown) [] [exq_sent]"

abbreviation exq_resubmitted :: payout_world where
  "exq_resubmitted \<equiv> exq_world
     (exq_at (fmupd 7 (exq_attempt 2) fmempty) (exq_retry 2 MayHaveDispatched True True) PayoutSubmitting)
     [AwaitTransfer (exq_attempt 2)] [exq_sent, exq_sent]"

lemma exq_run_admitted:
  "payout_run exq_hmac [8]
     (exq_world (exq_at fmempty (exq_retry 0 PreDispatch False False) RootAccepted) [] [])"
proof -
  let ?c0 = "\<lparr> pc_boot = 1, pc_next = 0, pc_key = None \<rparr>"
  let ?c1 = "\<lparr> pc_boot = 1, pc_next = 0, pc_key = Some (replicate 32 7) \<rparr>"
  let ?r = "exq_retry 0 PreDispatch False False"
  have "payout_start ((exq_state ?c0 fmempty fmempty)\<lparr> po_control := [] \<rparr>) (exq_state ?c0 fmempty fmempty)"
    by (simp add: payout_start_def payout_control_init_def exq_state_def write_control_def)
  from payout_run.pn_start [OF this, of exq_hmac "[8]" 5]
  have "payout_run exq_hmac [8] (exq_world (exq_state ?c0 fmempty fmempty) [] [])" .
  moreover have "payout_step exq_hmac [8] (exq_world (exq_state ?c0 fmempty fmempty) [] [])
      ((exq_world (exq_state ?c0 fmempty fmempty) [] [])\<lparr> pw_key_waiting := [?c0] \<rparr>)"
    using payout_step.py_key_start [of "exq_world (exq_state ?c0 fmempty fmempty) [] []" ?c0
        "exq_state ?c0 fmempty fmempty" exq_hmac "[8]"]
    by (simp add: ensure_payout_memo_key_start_def exq_controls bind_act_def)
  ultimately have "payout_run exq_hmac [8]
      ((exq_world (exq_state ?c0 fmempty fmempty) [] [])\<lparr> pw_key_waiting := [?c0] \<rparr>)"
    by (rule payout_run.pn_step)
  moreover have "payout_step exq_hmac [8]
      ((exq_world (exq_state ?c0 fmempty fmempty) [] [])\<lparr> pw_key_waiting := [?c0] \<rparr>)
      (exq_world (exq_state ?c1 fmempty fmempty) [] [])"
    using payout_step.py_key_resume [of ?c0
        "(exq_world (exq_state ?c0 fmempty fmempty) [] [])\<lparr> pw_key_waiting := [?c0] \<rparr>"
        "Some (replicate 32 7)" "Inr True" "exq_state ?c1 fmempty fmempty" exq_hmac "[8]"]
    by (simp add: ensure_payout_memo_key_resume_def exq_controls bind_act_def)
  ultimately have "payout_run exq_hmac [8] (exq_world (exq_state ?c1 fmempty fmempty) [] [])"
    by (rule payout_run.pn_step)
  moreover have "payout_step exq_hmac [8] (exq_world (exq_state ?c1 fmempty fmempty) [] [])
      (exq_world (exq_at fmempty ?r VerificationPending) [] [])"
    using payout_step.py_admit [of "exq_world (exq_state ?c1 fmempty fmempty) [] []" 7 ?r
        "exq_state exq_control fmempty fmempty" "exq_spend ?r VerificationPending" exq_hmac "[8]"]
    by (simp add: reserve_payout_sequence_def exq_controls bind_act_def checked_add_def exq_control_def
        exq_retry_def admitted_record_def exq_payout_def)
  ultimately have "payout_run exq_hmac [8] (exq_world (exq_at fmempty ?r VerificationPending) [] [])"
    by (rule payout_run.pn_step)
  moreover have "payout_step exq_hmac [8] (exq_world (exq_at fmempty ?r VerificationPending) [] [])
      (exq_world (exq_at fmempty ?r RootAccepted) [] [])"
    using payout_step.py_progress [of "exq_world (exq_at fmempty ?r VerificationPending) [] []" 7
        "exq_spend ?r VerificationPending" RootAccepted exq_hmac "[8]" None]
    by (simp add: payout_stage_def is_payout_pending_def is_payout_unknown_def exq_spend_def)
  ultimately show ?thesis by (rule payout_run.pn_step)
qed

lemma exq_run_submitted: "payout_run exq_hmac [8] exq_submitted"
proof -
  let ?r = "exq_retry 0 PreDispatch False False" and ?r1 = "exq_retry 1 PreDispatch False False"
  let ?live = "fmupd 7 (exq_attempt 1) fmempty :: (nat, attempt) fmap"
  let ?w1 = "exq_world (exq_at ?live ?r1 PayoutSubmitting) [AwaitBalance (exq_attempt 1) (exq_payout ?r1) [2]] []"
  let ?w2 = "exq_world (exq_at ?live ?r1 PayoutSubmitting) [AwaitFee (exq_attempt 1) [2]] []"
  have "payout_step exq_hmac [8] (exq_world (exq_at fmempty ?r RootAccepted) [] []) ?w1"
    using payout_step.py_promote [of "exq_world (exq_at fmempty ?r RootAccepted) [] []" 7
        "exq_spend ?r RootAccepted" "[8]" "[2]" True _ _ exq_hmac]
    by (simp add: exq_promote [simplified] absorb_def submissions_def)
  with exq_run_admitted have "payout_run exq_hmac [8] ?w1" by (rule payout_run.pn_step)
  moreover have "payout_step exq_hmac [8] ?w1 ?w2"
    using payout_step.py_resume [of "AwaitBalance (exq_attempt 1) (exq_payout ?r1) [2]" ?w1 exq_hmac "[8]"
        "QueryReply (Some 500)"]
    by (simp add: exq_balance [simplified] absorb_def submissions_def)
  ultimately have "payout_run exq_hmac [8] ?w2" by (rule payout_run.pn_step)
  moreover have "payout_step exq_hmac [8] ?w2 exq_submitted"
    using payout_step.py_resume [of "AwaitFee (exq_attempt 1) [2]" ?w2 exq_hmac "[8]" "QueryReply (Some 10)"]
    by (simp add: exq_fee [simplified] absorb_def submissions_def exq_sent_def)
  ultimately show ?thesis by (rule payout_run.pn_step)
qed

lemma exq_run_stuck: "payout_run exq_hmac [8] exq_stuck"
proof -
  let ?w = "exq_world (exq_at fmempty (exq_retry 1 MayHaveDispatched False True) PayoutSubmitting) [] [exq_sent]"
  have "payout_step exq_hmac [8] exq_submitted ?w"
    using payout_step.py_lost [of "AwaitTransfer (exq_attempt 1)" exq_submitted exq_hmac "[8]"]
    by (simp add: drop_guard_def fmdrop_fmupd_same)
  with exq_run_submitted have "payout_run exq_hmac [8] ?w" by (rule payout_run.pn_step)
  moreover have "payout_step exq_hmac [8] ?w exq_stuck"
    using payout_step.py_retry [of "[8]" True 7 ?w _ exq_hmac] by (simp add: exq_retry_unknown [simplified] absorb_def)
  ultimately show ?thesis by (rule payout_run.pn_step)
qed

lemma exq_step_reconcile:
  "payout_step exq_hmac [8] exq_stuck (exq_world (exq_at fmempty (exq_retry 1 MayHaveDispatched True True)
     (PayoutPending (Literal ''controller reconciled: payout NOT executed''))) [] [exq_sent])"
  using payout_step.py_reconcile [of exq_stuck "[1]" True 7 OutcomeNotExecuted _ _ exq_hmac "[8]"]
  by (simp add: exq_reconcile [simplified])

lemma exq_run_resubmitted: "payout_run exq_hmac [8] exq_resubmitted"
proof -
  let ?w = "exq_world (exq_at fmempty (exq_retry 1 MayHaveDispatched True True)
     (PayoutPending (Literal ''controller reconciled: payout NOT executed''))) [] [exq_sent]"
  have "payout_run exq_hmac [8] ?w"
    using exq_run_stuck exq_step_reconcile by (rule payout_run.pn_step)
  moreover have "payout_step exq_hmac [8] ?w exq_resubmitted"
    using payout_step.py_retry [of "[8]" True 7 ?w _ exq_hmac]
    by (simp add: exq_retry_again [simplified] absorb_def submissions_def exq_sent_def)
  ultimately show ?thesis by (rule payout_run.pn_step)
qed

section \<open>What the invariant says\<close>

lemma run_inv:
  assumes "payout_run hmac self w" "\<forall>k m. length (hmac k m) = 32"
  obtains c where "control_decode (po_control (pw_state w)) = Some c"
    "payout_inv c (po_spends (pw_state w)) (po_live (pw_state w)) (pw_waiting w) (pw_sent w)"
  using run_world_ok [OF assms] world_okD by blast



section \<open>Requests\<close>

text \<open>C14: A payout's request never changes. In every run (retries by anybody, lost callbacks,
  reconciliation, upgrades) two transfers submitted under the same sequence number are the same call to
  the same ledger with the same arguments, memo, fee and timestamp included, so the ledger's
  deduplication makes the second one harmless.\<close>

theorem payout_request_frozen:
  assumes "payout_run hmac self w" "\<forall>k m. length (hmac k m) = 32"
    and "(q, l, a) \<in> set (pw_sent w)" "(q, l', a') \<in> set (pw_sent w)"
  shows "l = l' \<and> a = a'"
proof -
  obtain c where "payout_inv c (po_spends (pw_state w)) (po_live (pw_state w)) (pw_waiting w) (pw_sent w)"
    by (rule run_inv [OF assms(1,2)])
  from payout_invD(4) [OF this assms(3,4)] show ?thesis .
qed

theorem payout_request_frozen_witness:
  "\<exists>w. payout_run exq_hmac [8] w \<and> length (pw_sent w) = 2
     \<and> (\<forall>x \<in> set (pw_sent w). snd x = ([2], frozen_args exq_frozen))"
proof -
  have x: "(0, [2], frozen_args exq_frozen) \<in> set (pw_sent exq_resubmitted)" by (simp add: exq_sent_def)
  have "snd y = ([2], frozen_args exq_frozen)" if "y \<in> set (pw_sent exq_resubmitted)" for y
    using payout_request_frozen [OF exq_run_resubmitted exq_hmac_length x, of "fst (snd y)" "snd (snd y)"] that
    by (auto simp: exq_sent_def)
  then show ?thesis using exq_run_resubmitted by (intro exI [of _ exq_resubmitted]) simp
qed



text \<open>C21: Every payout record of every reachable state passes the validation each operation starts with:
  no sequence of messages leaves a record the code would refuse as invalid, and two records never share a
  sequence number.\<close>

theorem payout_records_valid:
  assumes "payout_run hmac self w" "\<forall>k m. length (hmac k m) = 32"
    and "fmlookup (po_spends (pw_state w)) i = Some rec" "ps_public_payout rec = Some p"
  shows "validate_retry p (pw_state w) = Some (Inr (), pw_state w)
    \<and> (\<forall>j rec' r r'. fmlookup (po_spends (pw_state w)) j = Some rec' \<longrightarrow> retry_of rec = Some r
         \<longrightarrow> retry_of rec' = Some r' \<longrightarrow> pr_memo_sequence r = pr_memo_sequence r' \<longrightarrow> i = j)"
proof -
  obtain c where c: "control_decode (po_control (pw_state w)) = Some c"
    "payout_inv c (po_spends (pw_state w)) (po_live (pw_state w)) (pw_waiting w) (pw_sent w)"
    by (rule run_inv [OF assms(1,2)])
  note I = payout_invD [OF c(2)]
  have "i = j" if "fmlookup (po_spends (pw_state w)) j = Some rec'" "retry_of rec = Some r"
    "retry_of rec' = Some r'" "pr_memo_sequence r = pr_memo_sequence r'" for j rec' r r'
    using I(2) [OF assms(3) that(1)] that(2-4) by (simp add: seq_of_def)
  then show ?thesis using validate_idle [OF c(1) I(1) [OF assms(3)] assms(4)] by blast
qed

theorem payout_records_valid_witness:
  "\<exists>w rec p. payout_run exq_hmac [8] w \<and> fmlookup (po_spends (pw_state w)) 7 = Some rec
     \<and> ps_public_payout rec = Some p \<and> pp_retry p \<noteq> None
     \<and> validate_retry p (pw_state w) = Some (Inr (), pw_state w)"
proof -
  let ?r = "exq_retry 1 MayHaveDispatched True True"
  have "fmlookup (po_spends (pw_state exq_stuck)) 7 = Some (exq_spend ?r exq_unknown)"
    "ps_public_payout (exq_spend ?r exq_unknown) = Some (exq_payout ?r)" "pp_retry (exq_payout ?r) \<noteq> None"
    by simp_all
  with payout_records_valid [OF exq_run_stuck exq_hmac_length] exq_run_stuck show ?thesis by blast
qed

section \<open>Executors\<close>

text \<open>C32: A payout has one executor at most, and the pool at most 64. In every run the live table and
  the suspended calls are the same thing: no two suspended calls are about the same spend, there are
  never more than 64 of them, and each still owns its spend, so none finds itself evicted when its reply
  arrives.\<close>

theorem payout_single_executor:
  assumes "payout_run hmac self w" "\<forall>k m. length (hmac k m) = 32"
  shows "distinct (map (\<lambda>wt. at_id (wait_guard wt)) (pw_waiting w))
    \<and> length (pw_waiting w) = fmlen (po_live (pw_state w)) \<and> length (pw_waiting w) \<le> MAX_LIVE_PAYOUT_ATTEMPTS
    \<and> (\<forall>wt \<in> set (pw_waiting w). \<exists>rec. owned (wait_guard wt) (pw_state w) = Some (Inr rec, pw_state w))"
proof -
  obtain c where ok: "world_ok c w" using run_world_ok [OF assms] by blast
  note I = payout_invD [OF world_okD(2) [OF ok]]
  let ?id = "\<lambda>wt. at_id (wait_guard wt)"
  have d: "distinct (map ?id (pw_waiting w))" using I(6) by (simp add: comp_def)
  have "fset (fmdom (po_live (pw_state w))) = ?id ` set (pw_waiting w)"
  proof (intro set_eqI iffI)
    fix i assume "i \<in> fset (fmdom (po_live (pw_state w)))"
    then obtain g where "fmlookup (po_live (pw_state w)) i = Some g" by (auto simp: fmlookup_dom_iff)
    then show "i \<in> ?id ` set (pw_waiting w)" using I(7) [of i g] by auto
  next
    fix i assume "i \<in> ?id ` set (pw_waiting w)"
    then obtain wt where "wt \<in> set (pw_waiting w)" "?id wt = i" by auto
    then have "fmlookup (po_live (pw_state w)) i = Some (wait_guard wt)" using I(7) by blast
    then show "i \<in> fset (fmdom (po_live (pw_state w)))" by (rule fmdomI)
  qed
  then have len: "length (pw_waiting w) = fmlen (po_live (pw_state w))"
    using distinct_card [OF d] by (simp add: fmlen_def fcard.rep_eq)
  have "\<exists>rec. owned (wait_guard wt) (pw_state w) = Some (Inr rec, pw_state w)" if "wt \<in> set (pw_waiting w)" for wt
    using running_of_wait [OF ok that] owned_running by metis
  then show ?thesis using d len I(8) by (simp add: MAX_LIVE_PAYOUT_ATTEMPTS_def)
qed

theorem payout_single_executor_witness:
  "\<exists>w. payout_run exq_hmac [8] w \<and> pw_waiting w = [AwaitTransfer (exq_attempt 2)]
     \<and> length (pw_waiting w) \<le> MAX_LIVE_PAYOUT_ATTEMPTS"
proof -
  have "pw_waiting exq_resubmitted = [AwaitTransfer (exq_attempt 2)]" by simp
  with payout_single_executor [OF exq_run_resubmitted exq_hmac_length] exq_run_resubmitted show ?thesis by blast
qed

section \<open>Ambiguity\<close>

lemma touches_other:
  "touches c s s' i rec rec' h new \<Longrightarrow> j \<noteq> i \<Longrightarrow> fmlookup (po_spends s') j = fmlookup (po_spends s) j"
  by (simp add: touches_def)

lemma seg_other: "seg_ok c s i rec x \<Longrightarrow> j \<noteq> i \<Longrightarrow> fmlookup (po_spends (snd x)) j = fmlookup (po_spends s) j"
  unfolding seg_ok_def using touches_other by blast

lemma retry_unknown:
  assumes "idle s c i rec" "is_payout_unknown (ps_status rec)"
    and "retry_private_spend_payout_inner self recovered i s = Some x"
  shows "snd x = s"
proof (cases "po_spends_paused s \<or> \<not> recovered")
  case True
  then show ?thesis using assms(3) by (auto simp: retry_private_spend_payout_inner_def split: if_splits)
next
  case False
  obtain e where e: "ps_status rec = PayoutUnknown e"
    using assms(2) by (auto simp: is_payout_unknown_def split: spend_status.splits)
  obtain y where y: "normalize_payout i s = Some y"
    using assms(3) False by (auto simp: retry_private_spend_payout_inner_def bind_act_def split: option.splits)
  from normalize_idle [OF assms(1) this] have "(\<exists>e. y = (Inl e, s)) \<or> y = (Inr rec, s)" using e by auto
  then show ?thesis
    using assms(3) False y e
    by (auto simp: retry_private_spend_payout_inner_def bind_act_def [of "normalize_payout i"])
qed

text \<open>Whatever a step is about, the other records stay as they are.\<close>

lemma step_other:
  assumes w: "world_ok c w" and rec: "fmlookup (po_spends (pw_state w)) j = Some rec"
  shows "retry_private_spend_payout_inner self recovered j (pw_state w) = Some x \<Longrightarrow> i \<noteq> j \<Longrightarrow>
      fmlookup (po_spends (snd x)) i = fmlookup (po_spends (pw_state w)) i"
    and "reconcile_private_spend_payout now caller recovered j outcome (pw_state w) = Some (r, s) \<Longrightarrow> i \<noteq> j \<Longrightarrow>
      fmlookup (po_spends s) i = fmlookup (po_spends (pw_state w)) i"
proof -
  assume x: "retry_private_spend_payout_inner self recovered j (pw_state w) = Some x" and ij: "i \<noteq> j"
  show "fmlookup (po_spends (snd x)) i = fmlookup (po_spends (pw_state w)) i"
  proof (cases rule: live_or_idle [OF w rec])
    case (1 wt p q)
    have "\<exists>e. x = (Inl e, pw_state w)" using retry_busy [OF 1(3)] x unfolding 1(2) by blast
    then show ?thesis by auto
  next
    case 2
    from seg_other [OF seg_retry [OF 2(1) x] ij] show ?thesis .
  qed
next
  assume x: "reconcile_private_spend_payout now caller recovered j outcome (pw_state w) = Some (r, s)"
    and ij: "i \<noteq> j"
  show "fmlookup (po_spends s) i = fmlookup (po_spends (pw_state w)) i"
  proof (cases rule: live_or_idle [OF w rec])
    case (1 wt p q)
    have "s = pw_state w" using reconcile_busy [OF 1(3)] x unfolding 1(2) by blast
    then show ?thesis by simp
  next
    case 2
    obtain rec' where "touches c (pw_state w) s j rec rec' None []" using reconcile_idle [OF 2(1) x] by blast
    from touches_other [OF this ij] show ?thesis .
  qed
qed

lemma missing_unchanged:
  assumes "fmlookup (po_spends s) j = None"
  shows "retry_private_spend_payout_inner self recovered j s = Some x \<Longrightarrow> snd x = s"
    and "reconcile_private_spend_payout now caller recovered j outcome s = Some (r, s') \<Longrightarrow> s' = s"
  using assms
  by (auto simp: retry_private_spend_payout_inner_def reconcile_private_spend_payout_def normalize_payout_def
      payout_record_def bind_act_def split: if_splits)

lemma resume_other:
  assumes w: "world_ok c w" and wt: "wt \<in> set (pw_waiting w)" and mac: "\<forall>k m. length (hmac k m) = 32"
    and x: "resume hmac self now wt reply (pw_state w) = Some x"
    and rec: "fmlookup (po_spends (pw_state w)) i = Some rec" "ps_status rec \<noteq> PayoutSubmitting"
  shows "fmlookup (po_spends (snd x)) i = Some rec"
proof -
  obtain rec' p r where run: "running (pw_state w) c (wait_guard wt) rec' p r" "wait_ok rec' wt"
    by (rule running_of_wait [OF w wt])
  have "i \<noteq> at_id (wait_guard wt)" using running_parts(2,7) [OF run(1)] rec by auto
  from seg_other [OF seg_resume [OF run mac x] this] show ?thesis using rec(1) by simp
qed

lemma state_untouched:
  "ensure_payout_memo_key_start s = Some (Inr k, s') \<Longrightarrow> po_spends s' = po_spends s"
  "ensure_payout_memo_key_resume c0 reply s = Some (r, s') \<Longrightarrow> po_spends s' = po_spends s"
  "reserve_payout_sequence s = Some (r', s') \<Longrightarrow> po_spends s' = po_spends s"
  "payout_control_upgrade n s = Some (Inr (), s') \<Longrightarrow> po_spends s' = po_spends s"
  "po_spends (drop_guard g s) = po_spends s"
  by (auto simp: ensure_payout_memo_key_start_def ensure_payout_memo_key_resume_def reserve_payout_sequence_def
      payout_control_upgrade_def payout_control_init_def write_control_def bind_act_def control_def need_def
      drop_guard_def split: option.splits if_splits sum.splits)

text \<open>C17: An unknown outcome stays unknown until the controller decides. If a payout may have reached the
  ledger without an answer, no step of anybody (a retry, a late reply, an upgrade, work on other spends)
  makes it pending or final again; only the controller's reconciliation call does.\<close>

theorem payout_unknown_sticky:
  assumes "payout_run hmac self w" "\<forall>k m. length (hmac k m) = 32" "payout_step hmac self w w'"
    and "fmlookup (po_spends (pw_state w)) i = Some rec" "is_payout_unknown (ps_status rec)"
  shows "fmlookup (po_spends (pw_state w')) i = Some rec
    \<or> (\<exists>caller recovered outcome r. po_controller (pw_state w) = Some caller
         \<and> reconcile_private_spend_payout (pw_now w) caller recovered i outcome (pw_state w)
             = Some (r, pw_state w'))"
proof -
  obtain c where w: "world_ok c w" using run_world_ok [OF assms(1,2)] by blast
  have ns: "ps_status rec \<noteq> PayoutSubmitting" and stage: "payout_stage (ps_status rec)"
    and nr: "ps_status rec \<noteq> RootAccepted"
    using assms(5) by (auto simp: is_payout_unknown_def payout_stage_def)
  note idle = idle_of_status [OF w assms(4) ns]
  from assms(3) show ?thesis
  proof cases
    case (py_time t)
    then show ?thesis using assms(4) by simp
  next
    case (py_admit j r s rec')
    then show ?thesis using assms(4) state_untouched(3) by (cases "j = i") auto
  next
    case (py_admit_plain j rec')
    then show ?thesis using assms(4) by auto
  next
    case (py_progress j rec' st x)
    then show ?thesis using assms(4) stage by auto
  next
    case (py_forget j rec')
    then show ?thesis using assms(4) stage by auto
  next
    case (py_promote j rec' token attempt_payout r s)
    then have "i \<noteq> j" using assms(4) nr by auto
    have "ps_status rec' \<noteq> PayoutSubmitting" using py_promote(3) by simp
    from idle_of_status(1) [OF w py_promote(2) this]
    have "seg_ok c (pw_state w) j rec' (promoted r, s)" using seg_promote py_promote(3,4) by blast
    from seg_other [OF this \<open>i \<noteq> j\<close>] show ?thesis
      using assms(4) py_promote(1) by (simp add: absorb_fields)
  next
    case (py_retry recovered j x)
    have "fmlookup (po_spends (snd x)) i = fmlookup (po_spends (pw_state w)) i"
    proof (cases "i = j")
      case True
      then show ?thesis using retry_unknown [OF idle(1) assms(5)] py_retry(2) by simp
    next
      case False
      then show ?thesis using step_other(1) [OF w _ py_retry(2)] missing_unchanged(1) [OF _ py_retry(2)]
        by (cases "fmlookup (po_spends (pw_state w)) j") auto
    qed
    then show ?thesis using assms(4) py_retry(1) by (simp add: absorb_fields)
  next
    case (py_resume wt reply x)
    from resume_other [OF w py_resume(2) assms(2) py_resume(3) assms(4) ns] show ?thesis
      using py_resume(1) by (simp add: absorb_fields)
  next
    case (py_lost wt)
    then show ?thesis using assms(4) state_untouched(5) by simp
  next
    case (py_reconcile caller recovered j outcome r s)
    show ?thesis
    proof (cases "i = j")
      case True
      moreover have "po_controller (pw_state w) = Some caller"
        using py_reconcile(2) by (auto simp: reconcile_private_spend_payout_def split: if_splits)
      ultimately show ?thesis using py_reconcile by auto
    next
      case False
      have "fmlookup (po_spends s) i = fmlookup (po_spends (pw_state w)) i"
        using False step_other(2) [OF w _ py_reconcile(2)] missing_unchanged(2) [OF _ py_reconcile(2)]
        by (cases "fmlookup (po_spends (pw_state w)) j") auto
      then show ?thesis using assms(4) py_reconcile(1) by simp
    qed
  next
    case (py_key_start c0 s)
    then show ?thesis using assms(4) state_untouched(1) by simp
  next
    case (py_key_resume c0 reply r s)
    then show ?thesis using assms(4) state_untouched(2) by simp
  next
    case (py_upgrade predecessor s)
    then show ?thesis using assms(4) state_untouched(4) by simp
  qed
qed

theorem payout_unknown_sticky_witness:
  "\<exists>w w' rec. payout_run exq_hmac [8] w \<and> payout_step exq_hmac [8] w w'
     \<and> fmlookup (po_spends (pw_state w)) 7 = Some rec \<and> is_payout_unknown (ps_status rec)
     \<and> (fmlookup (po_spends (pw_state w')) 7 = Some rec
       \<or> (\<exists>caller recovered outcome r. po_controller (pw_state w) = Some caller
            \<and> reconcile_private_spend_payout (pw_now w) caller recovered 7 outcome (pw_state w)
                = Some (r, pw_state w')))"
proof -
  let ?rec = "exq_spend (exq_retry 1 MayHaveDispatched True True) exq_unknown"
  have f: "fmlookup (po_spends (pw_state exq_stuck)) 7 = Some ?rec" by simp
  have u: "is_payout_unknown (ps_status ?rec)" by (simp add: exq_unknown_def is_payout_unknown_def)
  from payout_unknown_sticky [OF exq_run_stuck exq_hmac_length exq_step_reconcile f u]
  show ?thesis using exq_run_stuck exq_step_reconcile f u by blast
qed

section \<open>Settling\<close>

lemma put_spend_twice: "put_spend i a (put_spend i b s) = put_spend i a s"
  by (simp add: put_spend_def fmap_ext)

lemma accrue_reads:
  "read_fee_accrual (accrue_private_transfer_fee split s) = (case split of
     None \<Rightarrow> read_fee_accrual s
   | Some (x, y, z) \<Rightarrow> (case read_fee_accrual s of (a, b, c) \<Rightarrow>
       (sat_add 128 a x, sat_add 128 b y, sat_add 128 c z)))"
  by (simp add: accrue_private_transfer_fee_def read_fee_accrual_def split: option.split prod.split)

text \<open>A payout is settled exactly once. Settling a spend that is not terminal succeeds, records the
  ledger block, makes the status final and accrues the stored fee split with saturating addition;
  settling it again, with any block at any time, changes nothing, so no fee is ever accrued twice.\<close>

theorem settling_once:
  assumes "fmlookup (po_spends s) i = Some rec" "ps_public_payout rec = Some p"
    and "\<not> is_terminal_spend_status (ps_status rec)"
  shows "\<exists>s' rec'. terminal_payout i (Some b) now s = Some (Inr (), s')
    \<and> fmlookup (po_spends s') i = Some rec' \<and> ps_status rec' = Finalized
    \<and> ps_public_payout rec' = Some (p\<lparr> pp_block_index := Some b \<rparr>) \<and> ps_finalized_at_ns rec' = Some now
    \<and> read_fee_accrual s' = (case stored_split rec of
         None \<Rightarrow> read_fee_accrual s
       | Some (x, y, z) \<Rightarrow> (case read_fee_accrual s of (u, v, t) \<Rightarrow>
           (sat_add 128 u x, sat_add 128 v y, sat_add 128 t z)))
    \<and> (\<forall>b' now'. terminal_payout i b' now' s' = Some (Inr (), s'))"
proof -
  let ?r1 = "rec\<lparr> ps_public_payout := Some (p\<lparr> pp_block_index := Some b \<rparr>) \<rparr>"
  let ?r2 = "?r1\<lparr> ps_finalized_at_ns := Some now, ps_status := Finalized \<rparr>"
  let ?t = "remove_active_spend_index (ps_submitter rec) i (insert_terminal_spend_index now i
      (put_spend i ?r2 s))"
  let ?s = "accrue_private_transfer_fee (stored_split rec) ?t"
  have nf: "ps_status rec \<noteq> Finalized" using assms(3) by (auto simp: is_terminal_spend_status_def)
  have look: "fmlookup (po_spends (put_spend i ?r1 s)) i = Some ?r1" by simp
  have nt: "\<not> is_terminal_spend_status (ps_status ?r1)" using assms(3) by simp
  note m = mark_spend_terminal_fresh [OF look nt, of now]
  have split: "stored_split ?r1 = stored_split rec" by (simp add: stored_split_def)
  have "terminal_payout i (Some b) now s = bind_act (mark_spend_terminal i Finalized now)
      (\<lambda>_. modify_act (accrue_private_transfer_fee (stored_split rec))) (put_spend i ?r1 s)"
    using assms(1,2) nf split by (simp add: terminal_payout_def payout_record_def)
  also have "\<dots> = Some (Inr (), ?s)"
    by (simp add: bind_act_def m put_spend_twice)
  finally have run: "terminal_payout i (Some b) now s = Some (Inr (), ?s)" .
  have again: "terminal_payout i b' now' ?s = Some (Inr (), ?s)" for b' now'
    by (simp add: terminal_payout_def payout_record_def)
  have keep: "read_fee_accrual ?t = read_fee_accrual s" by (simp add: read_fee_accrual_def)
  have accrued: "read_fee_accrual ?s = (case stored_split rec of
      None \<Rightarrow> read_fee_accrual s
    | Some (x, y, z) \<Rightarrow> (case read_fee_accrual s of (u, v, t) \<Rightarrow>
        (sat_add 128 u x, sat_add 128 v y, sat_add 128 t z)))"
    by (simp only: accrue_reads keep)
  have fields: "fmlookup (po_spends ?s) i = Some ?r2" "ps_status ?r2 = Finalized"
    "ps_public_payout ?r2 = Some (p\<lparr> pp_block_index := Some b \<rparr>)" "ps_finalized_at_ns ?r2 = Some now"
    by simp_all
  from run fields accrued again show ?thesis by (intro exI [of _ ?s] exI [of _ ?r2] conjI allI)
qed

theorem settling_once_witness:
  "\<exists>s'. terminal_payout 7 (Some 42) 9 (exq_at fmempty (exq_retry 1 MayHaveDispatched True True) exq_unknown)
        = Some (Inr (), s')
     \<and> terminal_payout 7 (Some 43) 10 s' = Some (Inr (), s')"
proof -
  let ?rec = "exq_spend (exq_retry 1 MayHaveDispatched True True) exq_unknown"
  have "fmlookup (po_spends (exq_at fmempty (exq_retry 1 MayHaveDispatched True True) exq_unknown)) 7 = Some ?rec"
    "ps_public_payout ?rec = Some (exq_payout (exq_retry 1 MayHaveDispatched True True))"
    "\<not> is_terminal_spend_status (ps_status ?rec)"
    by (simp_all add: exq_unknown_def is_terminal_spend_status_def)
  from settling_once [OF this] show ?thesis by blast
qed

section \<open>The control cell\<close>

text \<open>The control cell is read back exactly as written: a byte string decodes to a control value just
  when the value is admissible (a positive 64-bit boot number, a 128-bit counter, no key or one of 32
  bytes) and the string is its encoding. Every other content of the region is a trap.\<close>

theorem control_codec_exact:
  "control_decode b = Some c \<longleftrightarrow> control_ok c \<and> b = control_encode c"
  using control_decode_encode control_decode_ok control_encode_decode by blast

end
