(* ===== verification/Treasury.thy ===== *)
theory Treasury
  imports Segment Eager_Cell "HOL-Library.Char_ord"
begin

text \<open>
  The treasury (\<^verbatim>\<open>treasury/src/lib.rs\<close>): named buckets credited by the pool's fee splits, withdrawal
  proposals behind a timelock, and their execution, which asks the pool to disburse and debits the bucket
  only after the pool confirmed. \<^verbatim>\<open>execute_withdrawal\<close> is cut at its two awaits: the ledger fee query and
  the call of \<^verbatim>\<open>treasury_disburse\<close>. Reservations are never deleted; an active one encumbers its bucket.
\<close>

section \<open>Data\<close>

datatype treasury_reserve_bucket = OperationsBucket | InsuranceBucket | StakingRewardsBucket

record treasury_disburse_args =
  td_proposal_id :: nat
  td_bucket :: treasury_reserve_bucket
  td_recipient :: principal
  td_recipient_subaccount :: "bytes option"
  td_amount :: nat
  td_expected_ledger_fee :: nat

datatype treasury_disburse_result = DisburseExecuted nat | DisburseAlreadyExecuted nat

text \<open>Of the pool's errors the treasury tells two apart; the others only appear in a message.\<close>

datatype disburse_error = DisbursementProposalIdRetired | IdempotencyKeyConflict | OtherPoolError string

datatype disburse_reply =
    DisburseOk treasury_disburse_result | DisburseErr disburse_error | DisburseCallRejected

datatype fee_source = ShieldFee | PrivateTransferFee | UnshieldFee | DexRevenue

record subaccount_balance =
  sb_name :: string
  sb_balance :: nat

datatype proposal_status = ProposalPending | ProposalExecuted | ProposalRejected | ProposalExpired

record withdrawal_proposal =
  wp_id :: nat
  wp_proposer :: principal
  wp_subaccount_name :: string
  wp_recipient :: principal
  wp_amount :: nat
  wp_description :: string
  wp_created_at_ns :: nat
  wp_execute_after_ns :: nat
  wp_status :: proposal_status

datatype reservation_status =
    Reserved | ReservationExecuted | ReservationFailed | OutcomeUnknown | RetryingUnknown
  | RetiredNotExecuted

definition is_active :: "reservation_status \<Rightarrow> bool" where
  "is_active st = (case st of
     Reserved \<Rightarrow> True | OutcomeUnknown \<Rightarrow> True | RetryingUnknown \<Rightarrow> True | _ \<Rightarrow> False)"

record inflight_reservation =
  ir_proposal_id :: nat
  ir_args_fingerprint :: "64 word"
  ir_reserved_at_ns :: nat
  ir_status :: reservation_status
  ir_subaccount_name :: "string option"
  ir_encumbered_total_debit :: "nat option"

record bucket_shortfall =
  bs_total :: nat
  bs_events :: nat
  bs_overflowed :: bool

record bucket_integrity =
  bi_subaccount_name :: string
  bi_shortfall_total :: nat
  bi_shortfall_events :: nat
  bi_shortfall_overflowed :: bool
  bi_encumbered_total :: nat
  bi_legacy_active_count :: nat
  bi_retired_count :: nat

record fee_log_entry =
  fl_timestamp_ns :: nat
  fl_source :: fee_source
  fl_total_amount :: nat
  fl_operations :: nat
  fl_insurance :: nat
  fl_audit :: nat
  fl_staking :: nat

datatype attempt_class = Fresh | UnknownRetry "nat option"

datatype refusal_code =
    LegacyBlocked | AdmissionOverflow | BucketEncumbered | Retired | RetiredNotReReservable

text \<open>The error strings of the source, one constructor per message.\<close>

datatype treasury_error =
    PoolCanisterNotSet | TokenCanisterNotSet | OnlyPool | CreditOverflow string
  | Refusal refusal_code | ProposalNotFound | ProposalNotPending proposal_status
  | TimelockActive nat | NoPoolReserve string | FingerprintConflict nat | AlreadyExecuting nat
  | LedgerFeeTooLarge | LedgerFeeCallFailed | FrozenBelowAmount nat | TotalDebitOverflow
  | InsufficientBucketBalance nat nat | RetryStillUnknown disburse_error | PoolConflict nat
  | DisburseFailed disburse_error | DisburseCallFailed

datatype reject_error = RejectNotFound | RejectNotPending proposal_status | RejectInFlight

text \<open>The stable maps and eager cells, then the heap mirrors.\<close>

record treasury =
  ty_subaccounts :: "(string, subaccount_balance) fmap"
  ty_proposals :: "(nat, withdrawal_proposal) fmap"
  ty_fee_log :: "(nat, fee_log_entry) fmap"
  ty_reservations :: "(nat, inflight_reservation) fmap"
  ty_shortfalls :: "(string, bucket_shortfall) fmap"
  ty_refs :: principal_refs
  ty_next_proposal_cell :: "nat list option"
  ty_fee_index_cell :: "nat list option"
  ty_token :: "principal option"
  ty_pool :: "principal option"
  ty_controller :: "principal option"
  ty_next_proposal_id :: nat
  ty_fee_log_index :: nat

definition fresh_treasury :: treasury where
  "fresh_treasury = \<lparr> ty_subaccounts = fmempty, ty_proposals = fmempty, ty_fee_log = fmempty,
     ty_reservations = fmempty, ty_shortfalls = fmempty, ty_refs = None, ty_next_proposal_cell = None,
     ty_fee_index_cell = None, ty_token = None, ty_pool = None, ty_controller = None,
     ty_next_proposal_id = 1, ty_fee_log_index = 0 \<rparr>"

definition WITHDRAWAL_TIMELOCK_NS :: nat where
  "WITHDRAWAL_TIMELOCK_NS = 7 * 24 * 60 * 60 * 1000000000"
definition INSURANCE_WITHDRAWAL_TIMELOCK_NS :: nat where
  "INSURANCE_WITHDRAWAL_TIMELOCK_NS = 14 * 24 * 60 * 60 * 1000000000"
definition MAX_UPGRADE_SCAN :: nat where "MAX_UPGRADE_SCAN = 1000"

type_synonym 'a tact = "(treasury, treasury_error, 'a) segment"

section \<open>Counters and references\<close>

definition decode_id_counter :: "nat \<Rightarrow> nat option" where
  "decode_id_counter word = (case to_width 64 word of None \<Rightarrow> None | Some v \<Rightarrow> if v = 0 then None else Some v)"

definition decode_index_counter :: "nat \<Rightarrow> nat option" where
  "decode_index_counter word = to_width 64 word"

definition bump_counter :: "nat \<Rightarrow> nat option" where
  "bump_counter cur = checked_add 64 cur 1"

definition set_treasury_refs :: "principal \<Rightarrow> principal \<Rightarrow> principal \<Rightarrow> treasury \<Rightarrow> treasury" where
  "set_treasury_refs token pool controller s =
     s\<lparr> ty_refs := Some [token, pool, controller], ty_token := Some token, ty_pool := Some pool,
       ty_controller := Some controller \<rparr>"

definition alloc_proposal_id :: "nat tact" where
  "alloc_proposal_id =
    bind_act (get_act ty_next_proposal_id) (\<lambda>id.
    case bump_counter id of
      None \<Rightarrow> trap_act
    | Some next \<Rightarrow>
        bind_act (modify_act (\<lambda>s. s\<lparr> ty_next_proposal_cell := Some [next], ty_next_proposal_id := next \<rparr>))
          (\<lambda>_. return_act id))"

definition alloc_fee_log_index :: "nat tact" where
  "alloc_fee_log_index =
    bind_act (get_act ty_fee_log_index) (\<lambda>idx.
    case bump_counter idx of
      None \<Rightarrow> trap_act
    | Some next \<Rightarrow>
        bind_act (modify_act (\<lambda>s. s\<lparr> ty_fee_index_cell := Some [next], ty_fee_log_index := next \<rparr>))
          (\<lambda>_. return_act idx))"

definition seed_treasury_counters :: "treasury \<Rightarrow> treasury" where
  "seed_treasury_counters s = s\<lparr> ty_next_proposal_cell := Some [1], ty_fee_index_cell := Some [0] \<rparr>"

definition treasury_bucket_names :: "string list" where
  "treasury_bucket_names = [''operations'', ''audit'', ''insurance'', ''bug_bounty'',
     ''staking_rewards'', ''liquidity'', ''community'']"

definition init_treasury :: "principal \<Rightarrow> principal \<Rightarrow> principal \<Rightarrow> treasury" where
  "init_treasury token pool controller =
    (let s = seed_treasury_counters (set_treasury_refs token pool controller fresh_treasury) in
     s\<lparr> ty_subaccounts := foldl (\<lambda>m name. fmupd name \<lparr> sb_name = name, sb_balance = 0 \<rparr> m)
          (ty_subaccounts s) treasury_bucket_names \<rparr>)"

section \<open>Fee revenue\<close>

fun stage_credits ::
  "(string, subaccount_balance) fmap \<Rightarrow> (string \<times> nat) list
     \<Rightarrow> treasury_error + (string \<times> subaccount_balance) list" where
  "stage_credits m [] = Inr []"
| "stage_credits m ((name, amount) # rest) =
    (if amount = 0 then stage_credits m rest
     else case fmlookup m name of
         None \<Rightarrow> stage_credits m rest
       | Some e \<Rightarrow>
           (case checked_add 128 (sb_balance e) amount of
              None \<Rightarrow> Inl (CreditOverflow name)
            | Some v \<Rightarrow>
                (case stage_credits m rest of
                   Inl err \<Rightarrow> Inl err
                 | Inr staged \<Rightarrow> Inr ((name, e\<lparr> sb_balance := v \<rparr>) # staged))))"

definition credit_many :: "(string \<times> nat) list \<Rightarrow> unit tact" where
  "credit_many credits =
    bind_act (get_act ty_subaccounts) (\<lambda>m.
    case stage_credits m credits of
      Inl e \<Rightarrow> fail_act e
    | Inr staged \<Rightarrow>
        modify_act (\<lambda>s. s\<lparr> ty_subaccounts := foldl (\<lambda>m (name, e). fmupd name e m) m staged \<rparr>))"

definition receive_fee_split ::
  "principal \<Rightarrow> fee_source \<Rightarrow> nat \<Rightarrow> nat \<Rightarrow> nat \<Rightarrow> nat \<Rightarrow> unit tact" where
  "receive_fee_split caller source operations_amount insurance_amount staking_rewards_amount timestamp_ns =
    bind_act (get_act ty_pool) (\<lambda>p.
    bind_act (need PoolCanisterNotSet p) (\<lambda>pool.
    if caller \<noteq> pool then fail_act OnlyPool
    else
      bind_act (credit_many [(''operations'', operations_amount), (''insurance'', insurance_amount),
          (''staking_rewards'', staking_rewards_amount)]) (\<lambda>_.
      let entry = \<lparr> fl_timestamp_ns = timestamp_ns, fl_source = source,
            fl_total_amount =
              sat_add 128 (sat_add 128 operations_amount insurance_amount) staking_rewards_amount,
            fl_operations = operations_amount, fl_insurance = insurance_amount, fl_audit = 0,
            fl_staking = staking_rewards_amount \<rparr>
      in bind_act alloc_fee_log_index (\<lambda>idx.
         modify_act (\<lambda>s. s\<lparr> ty_fee_log := fmupd idx entry (ty_fee_log s) \<rparr>)))))"

section \<open>Queries\<close>

definition bucket_balance :: "string \<Rightarrow> treasury \<Rightarrow> nat" where
  "bucket_balance name s = (case fmlookup (ty_subaccounts s) name of None \<Rightarrow> 0 | Some e \<Rightarrow> sb_balance e)"

definition get_subaccount_balances :: "treasury \<Rightarrow> subaccount_balance list" where
  "get_subaccount_balances s = List.map_filter (fmlookup (ty_subaccounts s)) (fmkeys (ty_subaccounts s))"

definition get_subaccount_balance :: "string \<Rightarrow> treasury \<Rightarrow> nat option" where
  "get_subaccount_balance name s = map_option sb_balance (fmlookup (ty_subaccounts s) name)"

definition get_fee_log :: "nat \<Rightarrow> nat \<Rightarrow> fee_log_entry list tact" where
  "get_fee_log from_index limit =
    (let limit = min limit 200 in
     case checked_add 64 from_index limit of
       None \<Rightarrow> trap_act
     | Some hi \<Rightarrow> get_act (\<lambda>s. List.map_filter (fmlookup (ty_fee_log s)) [from_index..<hi]))"

definition list_proposals :: "treasury \<Rightarrow> withdrawal_proposal list" where
  "list_proposals s = List.map_filter (fmlookup (ty_proposals s)) (fmkeys (ty_proposals s))"

definition get_treasury_refs_readback :: "treasury \<Rightarrow> (principal \<times> principal \<times> principal) option" where
  "get_treasury_refs_readback s = (case ty_refs s of
     Some [token, pool, controller] \<Rightarrow> Some (token, pool, controller)
   | _ \<Rightarrow> None)"

section \<open>Proposals\<close>

definition assert_controller :: "principal \<Rightarrow> unit tact" where
  "assert_controller caller =
    bind_act (get_act ty_controller) (\<lambda>c. if c = Some caller then return_act () else trap_act)"

definition propose_withdrawal ::
  "nat \<Rightarrow> principal \<Rightarrow> string \<Rightarrow> principal \<Rightarrow> nat \<Rightarrow> string \<Rightarrow> nat tact" where
  "propose_withdrawal now caller subaccount_name recipient amount description =
    bind_act (assert_controller caller) (\<lambda>_.
    bind_act (get_act (bucket_balance subaccount_name)) (\<lambda>balance.
    if balance < amount then trap_act
    else
      let timelock = (if subaccount_name = ''insurance'' then INSURANCE_WITHDRAWAL_TIMELOCK_NS
                      else WITHDRAWAL_TIMELOCK_NS)
      in bind_act alloc_proposal_id (\<lambda>id.
         case checked_add 64 now timelock of
           None \<Rightarrow> trap_act
         | Some execute_after \<Rightarrow>
             bind_act (modify_act (\<lambda>s. s\<lparr> ty_proposals := fmupd id
               \<lparr> wp_id = id, wp_proposer = caller, wp_subaccount_name = subaccount_name,
                 wp_recipient = recipient, wp_amount = amount, wp_description = description,
                 wp_created_at_ns = now, wp_execute_after_ns = execute_after,
                 wp_status = ProposalPending \<rparr> (ty_proposals s) \<rparr>)) (\<lambda>_. return_act id))))"

definition reserve_bucket_for :: "string \<Rightarrow> treasury_reserve_bucket option" where
  "reserve_bucket_for name =
    (if name = ''operations'' then Some OperationsBucket
     else if name = ''insurance'' then Some InsuranceBucket
     else if name = ''staking_rewards'' then Some StakingRewardsBucket
     else None)"

text \<open>FNV-1a over the Candid bytes of the fields the disbursement depends on; \<open>encode\<close> is the Candid
  encoder of that tuple.\<close>

definition fnv1a :: "bytes \<Rightarrow> 64 word" where
  "fnv1a bs = foldl (\<lambda>h b. xor h (ucast b) * 0x100000001b3) 0xcbf29ce484222325 bs"

definition args_fingerprint ::
  "(nat \<times> string \<times> principal \<times> nat \<Rightarrow> bytes) \<Rightarrow> withdrawal_proposal \<Rightarrow> 64 word" where
  "args_fingerprint encode p =
     fnv1a (encode (wp_id p, wp_subaccount_name p, wp_recipient p, wp_amount p))"

definition update_proposal_status :: "nat \<Rightarrow> proposal_status \<Rightarrow> treasury \<Rightarrow> treasury" where
  "update_proposal_status pid status s = (case fmlookup (ty_proposals s) pid of
     None \<Rightarrow> s
   | Some p \<Rightarrow> s\<lparr> ty_proposals := fmupd pid (p\<lparr> wp_status := status \<rparr>) (ty_proposals s) \<rparr>)"

section \<open>Reservations\<close>

definition put_reservation :: "nat \<Rightarrow> inflight_reservation \<Rightarrow> treasury \<Rightarrow> treasury" where
  "put_reservation pid r s = s\<lparr> ty_reservations := fmupd pid r (ty_reservations s) \<rparr>"

definition reserve_withdrawal :: "nat \<Rightarrow> 64 word \<Rightarrow> nat \<Rightarrow> attempt_class tact" where
  "reserve_withdrawal proposal_id fingerprint now_ns =
    bind_act (get_act ty_reservations) (\<lambda>m.
    case fmlookup m proposal_id of
      None \<Rightarrow>
        bind_act (modify_act (put_reservation proposal_id
          \<lparr> ir_proposal_id = proposal_id, ir_args_fingerprint = fingerprint, ir_reserved_at_ns = now_ns,
            ir_status = Reserved, ir_subaccount_name = None, ir_encumbered_total_debit = None \<rparr>))
          (\<lambda>_. return_act Fresh)
    | Some r \<Rightarrow>
        if ir_args_fingerprint r \<noteq> fingerprint then fail_act (FingerprintConflict proposal_id)
        else (case ir_status r of
            Reserved \<Rightarrow> fail_act (AlreadyExecuting proposal_id)
          | RetryingUnknown \<Rightarrow> fail_act (AlreadyExecuting proposal_id)
          | ReservationExecuted \<Rightarrow> return_act Fresh
          | RetiredNotExecuted \<Rightarrow> fail_act (Refusal RetiredNotReReservable)
          | ReservationFailed \<Rightarrow>
              bind_act (modify_act (put_reservation proposal_id
                (r\<lparr> ir_status := Reserved, ir_reserved_at_ns := now_ns \<rparr>))) (\<lambda>_. return_act Fresh)
          | OutcomeUnknown \<Rightarrow>
              bind_act (modify_act (put_reservation proposal_id
                (r\<lparr> ir_status := RetryingUnknown, ir_reserved_at_ns := now_ns \<rparr>)))
                (\<lambda>_. return_act (UnknownRetry (ir_encumbered_total_debit r)))))"

definition reservation_bucket :: "treasury \<Rightarrow> inflight_reservation \<Rightarrow> string option" where
  "reservation_bucket s r = (case ir_subaccount_name r of
     Some name \<Rightarrow> Some name
   | None \<Rightarrow> map_option wp_subaccount_name (fmlookup (ty_proposals s) (ir_proposal_id r)))"

text \<open>The scan over the other reservations: the checked sum of the recorded encumbrances on the bucket,
  and the active records without one that block the admission.\<close>

fun scan_rows ::
  "treasury \<Rightarrow> nat \<Rightarrow> string \<Rightarrow> nat list \<Rightarrow> nat option \<Rightarrow> nat list \<Rightarrow> nat option \<times> nat list" where
  "scan_rows s self_id bucket [] acc blockers = (acc, blockers)"
| "scan_rows s self_id bucket (pid # ids) acc blockers =
    (case fmlookup (ty_reservations s) pid of
       None \<Rightarrow> scan_rows s self_id bucket ids acc blockers
     | Some r \<Rightarrow>
         if pid = self_id \<or> \<not> is_active (ir_status r) then scan_rows s self_id bucket ids acc blockers
         else (case ir_encumbered_total_debit r of
             Some amount \<Rightarrow>
               if reservation_bucket s r = Some bucket
               then scan_rows s self_id bucket ids
                      (case acc of None \<Rightarrow> None | Some t \<Rightarrow> checked_add 128 t amount) blockers
               else scan_rows s self_id bucket ids acc blockers
           | None \<Rightarrow>
               (case reservation_bucket s r of
                  Some b \<Rightarrow> scan_rows s self_id bucket ids acc
                      (if b = bucket then blockers @ [pid] else blockers)
                | None \<Rightarrow> scan_rows s self_id bucket ids acc (blockers @ [pid]))))"

definition scan_bucket_encumbrance :: "nat \<Rightarrow> string \<Rightarrow> treasury \<Rightarrow> nat option \<times> nat list" where
  "scan_bucket_encumbrance self_id bucket s =
     scan_rows s self_id bucket (fmkeys (ty_reservations s)) (Some 0) []"

definition admit_and_encumber :: "nat \<Rightarrow> string \<Rightarrow> nat \<Rightarrow> nat \<Rightarrow> unit tact" where
  "admit_and_encumber proposal_id bucket total_debit balance =
    bind_act (get_act (scan_bucket_encumbrance proposal_id bucket)) (\<lambda>(acc, legacy_blockers).
    if legacy_blockers \<noteq> [] then fail_act (Refusal LegacyBlocked)
    else
      bind_act (need (Refusal AdmissionOverflow) acc) (\<lambda>encumbered.
      bind_act (need (Refusal AdmissionOverflow) (checked_add 128 total_debit encumbered)) (\<lambda>required.
      if balance < required then fail_act (Refusal BucketEncumbered)
      else modify_act (\<lambda>s. case fmlookup (ty_reservations s) proposal_id of
          None \<Rightarrow> s
        | Some r \<Rightarrow> put_reservation proposal_id
            (r\<lparr> ir_subaccount_name := Some bucket, ir_encumbered_total_debit := Some total_debit \<rparr>) s))))"

definition settle_reservation :: "nat \<Rightarrow> reservation_status \<Rightarrow> treasury \<Rightarrow> treasury" where
  "settle_reservation proposal_id status s = (case fmlookup (ty_reservations s) proposal_id of
     None \<Rightarrow> s
   | Some r \<Rightarrow> put_reservation proposal_id (r\<lparr> ir_status := status \<rparr>) s)"

definition settle_local_refusal :: "nat \<Rightarrow> attempt_class \<Rightarrow> treasury \<Rightarrow> treasury" where
  "settle_local_refusal proposal_id attempt = settle_reservation proposal_id
     (case attempt of Fresh \<Rightarrow> ReservationFailed | UnknownRetry _ \<Rightarrow> OutcomeUnknown)"

definition claim_execution :: "nat \<Rightarrow> bool tact" where
  "claim_execution proposal_id s = (case fmlookup (ty_reservations s) proposal_id of
     Some r \<Rightarrow>
       if ir_status r \<noteq> ReservationExecuted
       then Some (Inr True, put_reservation proposal_id (r\<lparr> ir_status := ReservationExecuted \<rparr>) s)
       else Some (Inr False, s)
   | None \<Rightarrow> Some (Inr False, s))"

definition reservation_is_inflight :: "nat \<Rightarrow> treasury \<Rightarrow> bool" where
  "reservation_is_inflight proposal_id s = (case fmlookup (ty_reservations s) proposal_id of
     None \<Rightarrow> False | Some r \<Rightarrow> is_active (ir_status r))"

definition reservation_is_retired :: "nat \<Rightarrow> treasury \<Rightarrow> bool" where
  "reservation_is_retired proposal_id s = (case fmlookup (ty_reservations s) proposal_id of
     None \<Rightarrow> False | Some r \<Rightarrow> ir_status r = RetiredNotExecuted)"

definition record_debit_shortfall :: "string \<Rightarrow> nat \<Rightarrow> treasury \<Rightarrow> treasury" where
  "record_debit_shortfall name shortfall s =
    (let rec = (case fmlookup (ty_shortfalls s) name of
           None \<Rightarrow> \<lparr> bs_total = 0, bs_events = 0, bs_overflowed = False \<rparr> | Some r \<Rightarrow> r);
         rec1 = (case checked_add 128 (bs_total rec) shortfall of
           Some v \<Rightarrow> rec\<lparr> bs_total := v \<rparr>
         | None \<Rightarrow> rec\<lparr> bs_total := u128_limit - 1, bs_overflowed := True \<rparr>);
         rec2 = (case checked_add 64 (bs_events rec1) 1 of
           Some v \<Rightarrow> rec1\<lparr> bs_events := v \<rparr>
         | None \<Rightarrow> rec1\<lparr> bs_events := u64_limit - 1, bs_overflowed := True \<rparr>)
     in s\<lparr> ty_shortfalls := fmupd name rec2 (ty_shortfalls s) \<rparr>)"

definition debit_subaccount :: "string \<Rightarrow> nat \<Rightarrow> treasury \<Rightarrow> treasury" where
  "debit_subaccount name amount s = (case fmlookup (ty_subaccounts s) name of
     None \<Rightarrow> s
   | Some e \<Rightarrow>
       let applied = min (sb_balance e) amount;
           shortfall = amount - applied;
           s1 = s\<lparr> ty_subaccounts :=
             fmupd name (e\<lparr> sb_balance := sb_balance e - applied \<rparr>) (ty_subaccounts s) \<rparr>
       in if shortfall > 0 then record_debit_shortfall name shortfall s1 else s1)"

section \<open>Executing a withdrawal\<close>

text \<open>What a suspended execution holds.\<close>

record treasury_turn =
  tt_proposal_id :: nat
  tt_proposal :: withdrawal_proposal
  tt_pool :: principal
  tt_token :: principal
  tt_bucket :: treasury_reserve_bucket
  tt_attempt :: attempt_class

definition execute_start ::
  "(nat \<times> string \<times> principal \<times> nat \<Rightarrow> bytes) \<Rightarrow> nat \<Rightarrow> principal \<Rightarrow> nat \<Rightarrow> treasury_turn tact" where
  "execute_start encode now caller proposal_id =
    bind_act (assert_controller caller) (\<lambda>_.
    bind_act (get_act (reservation_is_retired proposal_id)) (\<lambda>retired.
    if retired then fail_act (Refusal Retired)
    else
      bind_act (get_act (\<lambda>s. fmlookup (ty_proposals s) proposal_id)) (\<lambda>found.
      bind_act (need ProposalNotFound found) (\<lambda>proposal.
      if wp_status proposal \<noteq> ProposalPending then fail_act (ProposalNotPending (wp_status proposal))
      else if now < wp_execute_after_ns proposal then
        fail_act (TimelockActive ((wp_execute_after_ns proposal - now) div 1000000000))
      else
        bind_act (get_act ty_pool) (\<lambda>p. bind_act (need PoolCanisterNotSet p) (\<lambda>pool.
        bind_act (get_act ty_token) (\<lambda>t. bind_act (need TokenCanisterNotSet t) (\<lambda>token.
        bind_act (need (NoPoolReserve (wp_subaccount_name proposal))
          (reserve_bucket_for (wp_subaccount_name proposal))) (\<lambda>bucket.
        bind_act (reserve_withdrawal proposal_id (args_fingerprint encode proposal) now) (\<lambda>attempt.
        return_act \<lparr> tt_proposal_id = proposal_id, tt_proposal = proposal, tt_pool = pool,
          tt_token = token, tt_bucket = bucket, tt_attempt = attempt \<rparr>))))))))))"

text \<open>A local refusal settles the reservation by the attempt's class and commits.\<close>

definition refuse_locally :: "treasury_turn \<Rightarrow> treasury_error \<Rightarrow> 'a tact" where
  "refuse_locally t e =
     bind_act (modify_act (settle_local_refusal (tt_proposal_id t) (tt_attempt t))) (\<lambda>_. fail_act e)"

definition frozen_total :: "treasury_turn \<Rightarrow> nat option" where
  "frozen_total t = (case tt_attempt t of UnknownRetry f \<Rightarrow> f | Fresh \<Rightarrow> None)"

text \<open>The debit and the fee to present: frozen by an earlier attempt, or from the fee just queried.\<close>

definition debit_and_fee :: "treasury_turn \<Rightarrow> nat \<Rightarrow> (nat \<times> nat) tact" where
  "debit_and_fee t ledger_fee =
    (case frozen_total t of
       Some total_debit \<Rightarrow>
         (case checked_sub total_debit (wp_amount (tt_proposal t)) of
            Some fee \<Rightarrow> return_act (total_debit, fee)
          | None \<Rightarrow>
              bind_act (modify_act (settle_reservation (tt_proposal_id t) OutcomeUnknown)) (\<lambda>_.
              fail_act (FrozenBelowAmount (tt_proposal_id t))))
     | None \<Rightarrow>
         (case checked_add 128 (wp_amount (tt_proposal t)) ledger_fee of
            Some v \<Rightarrow> return_act (v, ledger_fee)
          | None \<Rightarrow> refuse_locally t TotalDebitOverflow))"

text \<open>The reply of \<^verbatim>\<open>icrc1_fee\<close>: \<open>None\<close> is a failed call. The result is the total debit held across the next
  await and the arguments of \<^verbatim>\<open>treasury_disburse\<close>.\<close>

definition execute_fee ::
  "treasury_turn \<Rightarrow> nat option \<Rightarrow> (nat \<times> treasury_disburse_args) tact" where
  "execute_fee t reply =
    (case reply of
       None \<Rightarrow> refuse_locally t LedgerFeeCallFailed
     | Some f \<Rightarrow>
       (case to_width 128 f of
          None \<Rightarrow> refuse_locally t LedgerFeeTooLarge
        | Some queried \<Rightarrow>
          bind_act (debit_and_fee t queried) (\<lambda>(total_debit, ledger_fee).
          bind_act (get_act (bucket_balance (wp_subaccount_name (tt_proposal t)))) (\<lambda>balance.
          if balance < total_debit then refuse_locally t (InsufficientBucketBalance balance total_debit)
          else (\<lambda>s.
            case admit_and_encumber (tt_proposal_id t) (wp_subaccount_name (tt_proposal t)) total_debit
                balance s of
              None \<Rightarrow> None
            | Some (Inl refusal, s') \<Rightarrow> refuse_locally t refusal s'
            | Some (Inr _, s') \<Rightarrow>
                Some (Inr (total_debit, \<lparr> td_proposal_id = tt_proposal_id t, td_bucket = tt_bucket t,
                  td_recipient = wp_recipient (tt_proposal t), td_recipient_subaccount = None,
                  td_amount = wp_amount (tt_proposal t), td_expected_ledger_fee = ledger_fee \<rparr>), s'))))))"

definition execute_settle :: "treasury_turn \<Rightarrow> nat \<Rightarrow> disburse_reply \<Rightarrow> unit tact" where
  "execute_settle t total_debit reply =
    (let pid = tt_proposal_id t in
     case reply of
       DisburseOk _ \<Rightarrow>
         bind_act (claim_execution pid) (\<lambda>claimed.
         if claimed then
           bind_act (modify_act (debit_subaccount (wp_subaccount_name (tt_proposal t)) total_debit)) (\<lambda>_.
           modify_act (update_proposal_status pid ProposalExecuted))
         else return_act ())
     | DisburseErr DisbursementProposalIdRetired \<Rightarrow>
         bind_act (modify_act (settle_reservation pid RetiredNotExecuted)) (\<lambda>_. fail_act (Refusal Retired))
     | DisburseErr e \<Rightarrow>
         (case tt_attempt t of
            UnknownRetry _ \<Rightarrow>
              bind_act (modify_act (settle_reservation pid OutcomeUnknown)) (\<lambda>_.
              fail_act (RetryStillUnknown e))
          | Fresh \<Rightarrow>
              bind_act (modify_act (settle_reservation pid ReservationFailed)) (\<lambda>_.
              fail_act (if e = IdempotencyKeyConflict then PoolConflict pid else DisburseFailed e)))
     | DisburseCallRejected \<Rightarrow>
         bind_act (modify_act (settle_reservation pid OutcomeUnknown)) (\<lambda>_. fail_act DisburseCallFailed))"

text \<open>The inner result is what the caller sees.\<close>

definition reject_proposal :: "principal \<Rightarrow> nat \<Rightarrow> (reject_error + unit) tact" where
  "reject_proposal caller proposal_id =
    bind_act (assert_controller caller) (\<lambda>_.
    bind_act (get_act (reservation_is_inflight proposal_id)) (\<lambda>inflight.
    if inflight then return_act (Inl RejectInFlight)
    else
      bind_act (get_act (\<lambda>s. fmlookup (ty_proposals s) proposal_id)) (\<lambda>found.
      case found of
        None \<Rightarrow> return_act (Inl RejectNotFound)
      | Some p \<Rightarrow>
          if wp_status p \<noteq> ProposalPending then return_act (Inl (RejectNotPending (wp_status p)))
          else bind_act (modify_act (update_proposal_status proposal_id ProposalRejected))
            (\<lambda>_. return_act (Inr ())))))"

section \<open>The integrity report\<close>

text \<open>One pass over the reservations: per bucket the encumbered total (saturating), the count of legacy
  records and the count of retired ones, and the legacy records of no bucket.\<close>

definition agg_entry :: "(string, nat \<times> nat \<times> nat) fmap \<Rightarrow> string \<Rightarrow> nat \<times> nat \<times> nat" where
  "agg_entry agg b = (case fmlookup agg b of None \<Rightarrow> (0, 0, 0) | Some e \<Rightarrow> e)"

definition integrity_row ::
  "treasury \<Rightarrow> inflight_reservation \<Rightarrow> (string, nat \<times> nat \<times> nat) fmap \<times> nat
     \<Rightarrow> (string, nat \<times> nat \<times> nat) fmap \<times> nat" where
  "integrity_row s r = (\<lambda>(agg, global_legacy).
    if ir_status r = RetiredNotExecuted then
      (case reservation_bucket s r of
         Some b \<Rightarrow> (case agg_entry agg b of (e, l, t) \<Rightarrow> (fmupd b (e, l, t + 1) agg, global_legacy))
       | None \<Rightarrow> (agg, global_legacy))
    else if is_active (ir_status r) then
      (case (ir_encumbered_total_debit r, reservation_bucket s r) of
         (Some amount, Some b) \<Rightarrow>
           (case agg_entry agg b of (e, l, t) \<Rightarrow> (fmupd b (sat_add 128 e amount, l, t) agg, global_legacy))
       | (Some amount, None) \<Rightarrow> (agg, global_legacy)
       | (None, Some b) \<Rightarrow>
           (case agg_entry agg b of (e, l, t) \<Rightarrow> (fmupd b (e, l + 1, t) agg, global_legacy))
       | (None, None) \<Rightarrow> (agg, global_legacy + 1))
    else (agg, global_legacy))"

definition integrity_scan :: "treasury \<Rightarrow> (string, nat \<times> nat \<times> nat) fmap \<times> nat" where
  "integrity_scan s =
     fold (integrity_row s) (List.map_filter (fmlookup (ty_reservations s)) (fmkeys (ty_reservations s)))
       (fmempty, 0)"

definition get_treasury_admission_integrity :: "treasury \<Rightarrow> bucket_integrity list" where
  "get_treasury_admission_integrity s =
    (case integrity_scan s of (agg, global_legacy) \<Rightarrow>
       map (\<lambda>name.
         let sf = (case fmlookup (ty_shortfalls s) name of
               None \<Rightarrow> \<lparr> bs_total = 0, bs_events = 0, bs_overflowed = False \<rparr> | Some r \<Rightarrow> r)
         in case agg_entry agg name of (encumbered, legacy, retired) \<Rightarrow>
           \<lparr> bi_subaccount_name = name, bi_shortfall_total = bs_total sf,
             bi_shortfall_events = bs_events sf, bi_shortfall_overflowed = bs_overflowed sf,
             bi_encumbered_total = encumbered,
             bi_legacy_active_count = sat_add 64 legacy global_legacy, bi_retired_count = retired \<rparr>)
         (sorted_list_of_fset (fmdom (ty_subaccounts s) |\<union>| fmdom agg |\<union>| fmdom (ty_shortfalls s))))"

section \<open>Upgrade\<close>

definition sweep_reserved_reservations_on_upgrade :: "unit tact" where
  "sweep_reserved_reservations_on_upgrade =
    bind_act (get_act ty_reservations) (\<lambda>m.
    let stale = take (MAX_UPGRADE_SCAN + 1) (filter (\<lambda>k. case fmlookup m k of
            None \<Rightarrow> False
          | Some r \<Rightarrow> ir_status r = Reserved \<or> ir_status r = RetryingUnknown) (fmkeys m))
    in if length stale > MAX_UPGRADE_SCAN then trap_act
       else modify_act (\<lambda>s. foldl (\<lambda>s k. settle_reservation k OutcomeUnknown s) s stale))"

text \<open>An upgrade keeps stable memory and loses the heap mirrors, which \<^verbatim>\<open>post_upgrade\<close> writes again.\<close>

definition treasury_heap_lost :: "treasury \<Rightarrow> treasury" where
  "treasury_heap_lost s = s\<lparr> ty_token := None, ty_pool := None, ty_controller := None,
     ty_next_proposal_id := 1, ty_fee_log_index := 0 \<rparr>"

definition post_upgrade_treasury :: "unit tact" where
  "post_upgrade_treasury =
    bind_act (get_act (\<lambda>s. (ty_refs s, ty_next_proposal_cell s, ty_fee_index_cell s))) (\<lambda>cells.
    case cells of
      (Some [token, pool, controller], Some [p], Some [f]) \<Rightarrow>
        (case (decode_id_counter p, decode_index_counter f) of
           (Some next_proposal_id, Some fee_log_index) \<Rightarrow>
             bind_act (modify_act (\<lambda>s. s\<lparr> ty_token := Some token, ty_pool := Some pool,
               ty_controller := Some controller, ty_next_proposal_id := next_proposal_id,
               ty_fee_log_index := fee_log_index \<rparr>)) (\<lambda>_.
             sweep_reserved_reservations_on_upgrade)
         | _ \<Rightarrow> trap_act)
    | _ \<Rightarrow> trap_act)"

end
