(* ===== verification/Treasury_Runs.thy ===== *)
theory Treasury_Runs
  imports Treasury
begin

text \<open>
  Runs of the treasury beside the pool it disburses through. A world is the treasury, the clock, the
  suspended executions, the disbursement calls the pool may still act on, what the pool paid, the ids it
  retired, and the revenue credited to each bucket. The pool pays a call at most once per proposal id.

  The pool may answer anything at any time. An answer that is true of what the pool paid (a success for
  the arguments that were paid, a retirement for an id that was not and will not be, an error of a fresh
  attempt after which nothing is paid) is a step of its own that also records what it means. Every other
  answer, an error of a pool that does not know the outcome of its ledger call, or a success or a
  retirement that contradicts what was paid, sets the ghost flag \<open>tw_ambiguous\<close>.
\<close>

section \<open>Worlds and steps\<close>

datatype treasury_wait =
    AwaitLedgerFee treasury_turn
  | AwaitDisburse treasury_turn nat treasury_disburse_args

fun wait_turn :: "treasury_wait \<Rightarrow> treasury_turn" where
  "wait_turn (AwaitLedgerFee t) = t"
| "wait_turn (AwaitDisburse t n a) = t"

abbreviation wait_id :: "treasury_wait \<Rightarrow> nat" where
  "wait_id wt \<equiv> tt_proposal_id (wait_turn wt)"

record treasury_world =
  tw_state :: treasury
  tw_now :: nat
  tw_waiting :: "treasury_wait list"
  tw_calls :: "treasury_disburse_args set"
  tw_paid :: "nat \<Rightarrow> treasury_disburse_args option"
  tw_dead :: "nat set"
  tw_credited :: "string \<Rightarrow> nat"
  tw_ambiguous :: bool

definition args_total :: "treasury_disburse_args \<Rightarrow> nat" where
  "args_total a = td_amount a + td_expected_ledger_fee a"

text \<open>The pool's answer to a suspended execution, and what it leaves behind: the calls, the retired ids
  and the flag. By \<open>pa_untrue\<close> every answer is possible in every world, at the price of the flag.\<close>

inductive pool_answers ::
  "treasury_world \<Rightarrow> treasury_turn \<Rightarrow> treasury_disburse_args \<Rightarrow> disburse_reply \<Rightarrow> treasury_world \<Rightarrow> bool"
  for w t a where
  pa_ok: "tw_paid w (tt_proposal_id t) = Some a \<Longrightarrow> pool_answers w t a (DisburseOk r) w"
| pa_retired: "tw_paid w (tt_proposal_id t) = None \<Longrightarrow>
    pool_answers w t a (DisburseErr DisbursementProposalIdRetired)
      (w\<lparr> tw_dead := insert (tt_proposal_id t) (tw_dead w) \<rparr>)"
| pa_definite: "tt_attempt t = Fresh \<Longrightarrow> e \<noteq> DisbursementProposalIdRetired \<Longrightarrow>
    tw_paid w (tt_proposal_id t) = None \<Longrightarrow>
    pool_answers w t a (DisburseErr e) (w\<lparr> tw_calls := tw_calls w - {a} \<rparr>)"
| pa_ambiguous: "tt_attempt t = Fresh \<Longrightarrow> e \<noteq> DisbursementProposalIdRetired \<Longrightarrow>
    pool_answers w t a (DisburseErr e) (w\<lparr> tw_ambiguous := True \<rparr>)"
| pa_retry: "tt_attempt t = UnknownRetry f \<Longrightarrow> e \<noteq> DisbursementProposalIdRetired \<Longrightarrow>
    pool_answers w t a (DisburseErr e) w"
| pa_rejected: "pool_answers w t a DisburseCallRejected w"
| pa_untrue: "pool_answers w t a reply (w\<lparr> tw_ambiguous := True \<rparr>)"

definition split_credit :: "nat \<Rightarrow> nat \<Rightarrow> nat \<Rightarrow> string \<Rightarrow> nat" where
  "split_credit ops ins stk b =
    (if b = ''operations'' then ops else if b = ''insurance'' then ins
     else if b = ''staking_rewards'' then stk else 0)"

inductive treasury_step ::
  "(nat \<times> string \<times> principal \<times> nat \<Rightarrow> bytes) \<Rightarrow> treasury_world \<Rightarrow> treasury_world \<Rightarrow> bool"
  for encode where
  ts_time: "tw_now w \<le> n \<Longrightarrow> treasury_step encode w (w\<lparr> tw_now := n \<rparr>)"
| ts_revenue: "receive_fee_split caller source ops ins stk ts (tw_state w) = Some (r, s) \<Longrightarrow>
    treasury_step encode w (w\<lparr> tw_state := s, tw_credited :=
      (case r of Inl _ \<Rightarrow> tw_credited w
       | Inr _ \<Rightarrow> (\<lambda>b. tw_credited w b + split_credit ops ins stk b)) \<rparr>)"
| ts_propose: "propose_withdrawal (tw_now w) caller name recipient amount description (tw_state w)
      = Some (r, s) \<Longrightarrow>
    treasury_step encode w (w\<lparr> tw_state := s \<rparr>)"
| ts_start: "execute_start encode (tw_now w) caller pid (tw_state w) = Some (r, s) \<Longrightarrow>
    treasury_step encode w (w\<lparr> tw_state := s, tw_waiting :=
      (case r of Inl _ \<Rightarrow> tw_waiting w | Inr t \<Rightarrow> AwaitLedgerFee t # tw_waiting w) \<rparr>)"
| ts_fee: "AwaitLedgerFee t \<in> set (tw_waiting w) \<Longrightarrow> execute_fee t reply (tw_state w) = Some (r, s) \<Longrightarrow>
    treasury_step encode w (case r of
        Inl _ \<Rightarrow> w\<lparr> tw_state := s, tw_waiting := remove1 (AwaitLedgerFee t) (tw_waiting w) \<rparr>
      | Inr (n, a) \<Rightarrow> w\<lparr> tw_state := s,
          tw_waiting := AwaitDisburse t n a # remove1 (AwaitLedgerFee t) (tw_waiting w),
          tw_calls := insert a (tw_calls w) \<rparr>)"
| ts_pay: "a \<in> tw_calls w \<Longrightarrow> td_proposal_id a = pid \<Longrightarrow> tw_paid w pid = None \<Longrightarrow> pid \<notin> tw_dead w \<Longrightarrow>
    treasury_step encode w (w\<lparr> tw_paid := (tw_paid w)(pid \<mapsto> a) \<rparr>)"
| ts_reply: "AwaitDisburse t n a \<in> set (tw_waiting w) \<Longrightarrow> pool_answers w t a reply w1 \<Longrightarrow>
    execute_settle t n reply (tw_state w) = Some (r, s) \<Longrightarrow>
    treasury_step encode w (w1\<lparr> tw_state := s, tw_waiting := remove1 (AwaitDisburse t n a) (tw_waiting w) \<rparr>)"
| ts_lost: "wt \<in> set (tw_waiting w) \<Longrightarrow>
    treasury_step encode w (w\<lparr> tw_waiting := remove1 wt (tw_waiting w) \<rparr>)"
| ts_reject: "reject_proposal caller pid (tw_state w) = Some (r, s) \<Longrightarrow>
    treasury_step encode w (w\<lparr> tw_state := s \<rparr>)"
| ts_upgrade: "post_upgrade_treasury (treasury_heap_lost (tw_state w)) = Some (Inr (), s) \<Longrightarrow>
    treasury_step encode w (w\<lparr> tw_state := s, tw_waiting := [] \<rparr>)"

inductive treasury_run ::
  "(nat \<times> string \<times> principal \<times> nat \<Rightarrow> bytes) \<Rightarrow> treasury_world \<Rightarrow> bool" for encode where
  tr_init: "treasury_run encode \<lparr> tw_state = init_treasury token pool controller, tw_now = n,
    tw_waiting = [], tw_calls = {}, tw_paid = (\<lambda>_. None), tw_dead = {}, tw_credited = (\<lambda>_. 0),
    tw_ambiguous = False \<rparr>"
| tr_step: "treasury_run encode w \<Longrightarrow> treasury_step encode w w' \<Longrightarrow> treasury_run encode w'"

section \<open>Sums over reservations\<close>

definition resv :: "treasury \<Rightarrow> nat \<Rightarrow> inflight_reservation option" where
  "resv s pid = fmlookup (ty_reservations s) pid"

definition prop_of :: "treasury \<Rightarrow> nat \<Rightarrow> withdrawal_proposal option" where
  "prop_of s pid = fmlookup (ty_proposals s) pid"

text \<open>What a reservation weighs on a bucket when it satisfies \<open>P\<close>.\<close>

definition weight :: "(nat \<Rightarrow> inflight_reservation \<Rightarrow> bool) \<Rightarrow> string \<Rightarrow> treasury \<Rightarrow> nat \<Rightarrow> nat" where
  "weight P b s pid = (case resv s pid of
     None \<Rightarrow> 0
   | Some r \<Rightarrow> if P pid r \<and> ir_subaccount_name r = Some b
       then (case ir_encumbered_total_debit r of None \<Rightarrow> 0 | Some n \<Rightarrow> n) else 0)"

definition weight_sum :: "(nat \<Rightarrow> inflight_reservation \<Rightarrow> bool) \<Rightarrow> string \<Rightarrow> treasury \<Rightarrow> nat" where
  "weight_sum P b s = (\<Sum>pid \<in> fset (fmdom (ty_reservations s)). weight P b s pid)"

definition spent :: "string \<Rightarrow> treasury \<Rightarrow> nat" where
  "spent = weight_sum (\<lambda>_ r. ir_status r = ReservationExecuted)"

lemma weight_outside: "pid \<notin> fset (fmdom (ty_reservations s)) \<Longrightarrow> weight P b s pid = 0"
  by (simp add: weight_def resv_def fmdom_notD)

lemma weight_sum_over:
  assumes "finite A" "fset (fmdom (ty_reservations s)) \<subseteq> A"
  shows "weight_sum P b s = sum (weight P b s) A"
  unfolding weight_sum_def by (rule sum.mono_neutral_left) (use assms weight_outside in auto)

lemma weight_sum_change:
  assumes "\<And>x. x \<noteq> k \<Longrightarrow> weight P b s x = weight Q b s' x"
  shows "weight_sum P b s + weight Q b s' k = weight_sum Q b s' + weight P b s k"
proof -
  define A where "A = insert k (fset (fmdom (ty_reservations s)) \<union> fset (fmdom (ty_reservations s')))"
  have A: "finite A" "k \<in> A" by (simp_all add: A_def)
  have "weight_sum P b s = sum (weight P b s) A" "weight_sum Q b s' = sum (weight Q b s') A"
    by (rule weight_sum_over; auto simp: A_def)+
  then have "weight_sum P b s = weight P b s k + sum (weight P b s) (A - {k})"
    "weight_sum Q b s' = weight Q b s' k + sum (weight Q b s') (A - {k})"
    using sum.remove [OF A] by simp_all
  moreover have "sum (weight P b s) (A - {k}) = sum (weight Q b s') (A - {k})"
    by (rule sum.cong) (use assms in auto)
  ultimately show ?thesis by simp
qed

lemma weight_sum_cong:
  assumes "\<And>x. weight P b s x = weight Q b s' x"
  shows "weight_sum P b s = weight_sum Q b s'"
  using weight_sum_change [of undefined P b s Q s'] assms by simp

lemma weight_sum_mono:
  assumes "\<And>x. weight P b s x \<le> weight Q b s x"
  shows "weight_sum P b s \<le> weight_sum Q b s"
  unfolding weight_sum_def using assms by (rule sum_mono)

lemma weight_le_sum: "weight P b s k \<le> weight_sum P b s"
proof (cases "k \<in> fset (fmdom (ty_reservations s))")
  case True
  then show ?thesis unfolding weight_sum_def by (intro member_le_sum) auto
qed (simp add: weight_outside)

section \<open>What each operation does\<close>

lemma state_reads [simp]:
  "resv (put_reservation pid r s) x = (if x = pid then Some r else resv s x)"
  "prop_of (put_reservation pid r s) x = prop_of s x"
  "bucket_balance b (put_reservation pid r s) = bucket_balance b s"
  "ty_subaccounts (put_reservation pid r s) = ty_subaccounts s"
  "ty_shortfalls (put_reservation pid r s) = ty_shortfalls s"
  "ty_next_proposal_id (put_reservation pid r s) = ty_next_proposal_id s"
  "ty_next_proposal_cell (put_reservation pid r s) = ty_next_proposal_cell s"
  by (auto simp: resv_def prop_of_def put_reservation_def bucket_balance_def)

lemma weight_put [simp]:
  "x \<noteq> pid \<Longrightarrow> weight P b (put_reservation pid r s) x = weight P b s x"
  "weight P b (put_reservation pid r s) pid =
     (if P pid r \<and> ir_subaccount_name r = Some b
      then (case ir_encumbered_total_debit r of None \<Rightarrow> 0 | Some n \<Rightarrow> n) else 0)"
  by (simp_all add: weight_def)

lemma settle_as_put:
  "resv s pid = Some r \<Longrightarrow> settle_reservation pid st s = put_reservation pid (r\<lparr> ir_status := st \<rparr>) s"
  by (simp add: settle_reservation_def resv_def)

lemma assert_controller_bind:
  "bind_act (assert_controller caller) k s = Some x \<Longrightarrow> k () s = Some x"
  by (simp add: assert_controller_def bind_act_def split: if_splits)

text \<open>Rows of the scan: the accumulated total covers the recorded encumbrances of the others.\<close>

lemma scan_rows_none: "fst (scan_rows s self b ids None bl) = None"
  by (induction ids arbitrary: bl) (auto split: option.splits)

text \<open>A row never lowers the accumulated total.\<close>

lemma row_step:
  assumes look: "fmlookup (ty_reservations s) x = Some r"
  obtains m bl1 where "scan_rows s self b (x # ids) (Some n) bl = scan_rows s self b ids m bl1"
    "\<forall>k. m = Some k \<longrightarrow> n \<le> k"
proof (cases "x = self \<or> \<not> is_active (ir_status r)")
  case True
  then show thesis using look that [of "Some n" bl] by simp
next
  case act: False
  show thesis
  proof (cases "ir_encumbered_total_debit r")
    case None
    then show thesis
      using look act that [of "Some n"] by (cases "reservation_bucket s r") simp_all
  next
    case (Some a)
    then show thesis
      using look act that [of "Some n" bl] that [of "checked_add 128 n a" bl]
      by (cases "reservation_bucket s r = Some b") (simp_all add: checked_add_def)
  qed
qed

lemma scan_rows_covers:
  assumes "scan_rows s self b ids (Some n) bl = (Some v, bl')"
  shows "n + sum_list (map (weight (\<lambda>x r. x \<noteq> self \<and> is_active (ir_status r)) b s) ids) \<le> v"
  using assms
proof (induction ids arbitrary: n bl)
  case (Cons x ids)
  let ?w = "weight (\<lambda>x r. x \<noteq> self \<and> is_active (ir_status r)) b s"
  show ?case
  proof (cases "resv s x")
    case None
    then have "?w x = 0" by (simp add: weight_def)
    then show ?thesis using Cons None by (simp add: resv_def)
  next
    case (Some r)
    then have look: "fmlookup (ty_reservations s) x = Some r" by (simp add: resv_def)
    show ?thesis
    proof (cases "x = self \<or> \<not> is_active (ir_status r) \<or> ir_subaccount_name r \<noteq> Some b
        \<or> ir_encumbered_total_debit r = None")
      case True
      then have w: "?w x = 0" using Some by (auto simp: weight_def)
      obtain m bl1 where m: "scan_rows s self b (x # ids) (Some n) bl = scan_rows s self b ids m bl1"
        "\<forall>k. m = Some k \<longrightarrow> n \<le> k"
        by (rule row_step [OF look])
      have "m \<noteq> None"
        using scan_rows_none [of s self b ids bl1] Cons.prems m(1) by (metis fst_conv option.distinct(1))
      then obtain k where k: "m = Some k" "n \<le> k" using m(2) by auto
      have "k + sum_list (map ?w ids) \<le> v" using Cons.IH [of k bl1] Cons.prems m(1) k(1) by simp
      then show ?thesis using w k(2) by simp
    next
      case False
      then obtain a where a: "ir_encumbered_total_debit r = Some a" "ir_subaccount_name r = Some b"
          "x \<noteq> self" "is_active (ir_status r)" by auto
      have w: "?w x = a" using Some a by (simp add: weight_def)
      have "reservation_bucket s r = Some b" using a by (simp add: reservation_bucket_def)
      then have step: "scan_rows s self b (x # ids) (Some n) bl
          = scan_rows s self b ids (checked_add 128 n a) bl"
        using look a by simp
      have "checked_add 128 n a \<noteq> None"
        using Cons.prems step scan_rows_none [of s self b ids bl] by (metis fst_conv option.distinct(1))
      then have "checked_add 128 n a = Some (n + a)" by (simp add: checked_add_def split: if_splits)
      then show ?thesis using Cons.IH [of "n + a" bl] Cons.prems step w by simp
    qed
  qed
qed simp

lemma scan_covers:
  assumes "scan_bucket_encumbrance self b s = (Some v, bl)"
  shows "weight_sum (\<lambda>x r. x \<noteq> self \<and> is_active (ir_status r)) b s \<le> v"
  using scan_rows_covers [OF assms [unfolded scan_bucket_encumbrance_def]]
  by (simp add: weight_sum_def sum.distinct_set_conv_list [OF distinct_fmkeys, of _ "ty_reservations s", symmetric]
      flip: set_fmkeys)

lemma execute_start_Inl:
  assumes "execute_start encode now caller pid s = Some (Inl e, s')"
  shows "s' = s"
proof -
  have "reserve_withdrawal pid fp now s = Some (Inl e', s'') \<Longrightarrow> s'' = s" for fp e' s''
    by (auto simp: reserve_withdrawal_def split: option.splits if_splits reservation_status.splits)
  then show ?thesis
    using assms by (auto simp: execute_start_def assert_controller_def result_simps need_def split: if_splits option.splits)
qed

text \<open>The reservation an execution takes, from the one it finds.\<close>

definition reserved_from ::
  "inflight_reservation option \<Rightarrow> nat \<Rightarrow> attempt_class \<Rightarrow> inflight_reservation \<Rightarrow> bool" where
  "reserved_from old pid attempt r \<longleftrightarrow> ir_proposal_id r = pid \<and> (case old of
     None \<Rightarrow> attempt = Fresh \<and> ir_status r = Reserved \<and> ir_subaccount_name r = None
       \<and> ir_encumbered_total_debit r = None
   | Some o' \<Rightarrow> ir_proposal_id o' = pid \<longrightarrow>
       ir_subaccount_name r = ir_subaccount_name o'
       \<and> ir_encumbered_total_debit r = ir_encumbered_total_debit o'
       \<and> (ir_status o' = ReservationFailed \<and> attempt = Fresh \<and> ir_status r = Reserved
          \<or> ir_status o' = OutcomeUnknown \<and> attempt = UnknownRetry (ir_encumbered_total_debit o')
            \<and> ir_status r = RetryingUnknown))"

lemma execute_start_Inr:
  assumes "execute_start encode now caller pid s = Some (Inr t, s')"
    and old: "\<And>o'. resv s pid = Some o' \<Longrightarrow> ir_proposal_id o' = pid
      \<and> (ir_status o' = ReservationExecuted \<longrightarrow> (\<exists>p. prop_of s pid = Some p \<and> wp_status p \<noteq> ProposalPending))"
  obtains r where "prop_of s pid = Some (tt_proposal t)" "wp_status (tt_proposal t) = ProposalPending"
    "wp_execute_after_ns (tt_proposal t) \<le> now" "tt_proposal_id t = pid"
    "reserve_bucket_for (wp_subaccount_name (tt_proposal t)) = Some (tt_bucket t)"
    "s' = put_reservation pid r s" "reserved_from (resv s pid) pid (tt_attempt t) r"
proof -
  obtain attempt where start: "prop_of s pid = Some (tt_proposal t)" "wp_status (tt_proposal t) = ProposalPending"
    "wp_execute_after_ns (tt_proposal t) \<le> now" "tt_proposal_id t = pid" "tt_attempt t = attempt"
    "reserve_bucket_for (wp_subaccount_name (tt_proposal t)) = Some (tt_bucket t)"
    "reserve_withdrawal pid (args_fingerprint encode (tt_proposal t)) now s = Some (Inr attempt, s')"
    using assms(1)
    by (auto simp: execute_start_def assert_controller_def result_simps prop_of_def split: if_splits)
  have "ir_status o' \<noteq> ReservationExecuted" if "resv s pid = Some o'" for o'
    using old [OF that] start(1,2) by auto
  then obtain r where "s' = put_reservation pid r s" "reserved_from (resv s pid) pid attempt r"
    using start(7) old
    by (auto simp: reserve_withdrawal_def reserved_from_def resv_def split: option.splits if_splits reservation_status.splits)
  then show thesis using that start by simp
qed

lemma admit_Inl: "admit_and_encumber pid b n v s = Some (Inl e, s') \<Longrightarrow> s' = s"
  by (auto simp: admit_and_encumber_def result_simps split: if_splits prod.splits)

lemma refuse_locally_simp [simp]:
  "refuse_locally t e s = Some (Inl e, settle_local_refusal (tt_proposal_id t) (tt_attempt t) s)"
  by (simp add: refuse_locally_def)

lemma debit_and_fee_Inl:
  assumes "debit_and_fee t f s = Some (Inl e, s')"
  shows "s' = settle_local_refusal (tt_proposal_id t) (tt_attempt t) s"
proof (cases "frozen_total t")
  case None
  then show ?thesis
    using assms by (cases "checked_add 128 (wp_amount (tt_proposal t)) f") (simp_all add: debit_and_fee_def)
next
  case (Some n)
  then have "settle_local_refusal (tt_proposal_id t) (tt_attempt t) = settle_reservation (tt_proposal_id t) OutcomeUnknown"
    by (cases "tt_attempt t") (simp_all add: frozen_total_def settle_local_refusal_def)
  with Some assms show ?thesis
    by (cases "checked_sub n (wp_amount (tt_proposal t))") (simp_all add: debit_and_fee_def)
qed

lemma debit_and_fee_Inr:
  assumes "debit_and_fee t f s = Some (Inr (n, fee), s')"
  shows "s' = s \<and> wp_amount (tt_proposal t) + fee = n \<and> (\<forall>v. frozen_total t = Some v \<longrightarrow> n = v)"
  using assms
  by (auto simp: debit_and_fee_def checked_add_def checked_sub_def split: option.splits if_splits)

lemma execute_fee_Inl:
  assumes "execute_fee t reply s = Some (Inl e, s')"
  shows "s' = settle_local_refusal (tt_proposal_id t) (tt_attempt t) s"
proof (cases reply)
  case (Some f)
  show ?thesis
  proof (cases "to_width 128 f")
    case q: (Some queried)
    show ?thesis
    proof (cases "debit_and_fee t queried s")
      case None
      then show ?thesis using assms Some q by (simp add: execute_fee_def bind_act_def)
    next
      case d: (Some x)
      obtain v s1 where x: "x = (v, s1)" by (cases x)
      show ?thesis
      proof (cases v)
        case (Inl e1)
        then show ?thesis using assms Some q d x by (simp add: execute_fee_def bind_act_def debit_and_fee_Inl)
      next
        case (Inr nf)
        then obtain n fee where nf: "v = Inr (n, fee)" by (cases nf) simp
        have "s1 = s" using debit_and_fee_Inr d x nf by simp
        then show ?thesis
          using assms Some q d x nf
          by (auto simp: execute_fee_def bind_step split: if_splits option.splits prod.splits sum.splits dest!: admit_Inl)
      qed
    qed
  qed (use assms Some in \<open>simp add: execute_fee_def\<close>)
qed (use assms in \<open>simp add: execute_fee_def\<close>)

lemma admit_Inr:
  assumes "admit_and_encumber pid b n balance s = Some (Inr (), s')" "resv s pid = Some r"
  shows "s' = put_reservation pid (r\<lparr> ir_subaccount_name := Some b, ir_encumbered_total_debit := Some n \<rparr>) s"
    and "n + weight_sum (\<lambda>x r. x \<noteq> pid \<and> is_active (ir_status r)) b s \<le> balance"
proof -
  obtain v where v: "scan_bucket_encumbrance pid b s = (Some v, [])" "n + v \<le> balance"
    using assms(1) by (auto simp: admit_and_encumber_def result_simps not_less split: if_splits prod.splits)
  show "s' = put_reservation pid (r\<lparr> ir_subaccount_name := Some b, ir_encumbered_total_debit := Some n \<rparr>) s"
    using assms by (auto simp: admit_and_encumber_def result_simps resv_def split: if_splits prod.splits)
  show "n + weight_sum (\<lambda>x r. x \<noteq> pid \<and> is_active (ir_status r)) b s \<le> balance"
    using scan_covers [OF v(1)] v(2) by simp
qed

definition args_ok :: "withdrawal_proposal \<Rightarrow> treasury_disburse_args \<Rightarrow> bool" where
  "args_ok p a \<longleftrightarrow> td_proposal_id a = wp_id p
     \<and> reserve_bucket_for (wp_subaccount_name p) = Some (td_bucket a)
     \<and> td_recipient a = wp_recipient p \<and> td_recipient_subaccount a = None \<and> td_amount a = wp_amount p"

lemma execute_fee_Inr:
  assumes "execute_fee t reply s = Some (Inr (n, a), s')" "resv s (tt_proposal_id t) = Some r"
    and "wp_id (tt_proposal t) = tt_proposal_id t"
    and "reserve_bucket_for (wp_subaccount_name (tt_proposal t)) = Some (tt_bucket t)"
  shows "args_ok (tt_proposal t) a" "args_total a = n" "\<And>f. frozen_total t = Some f \<Longrightarrow> n = f"
    "s' = put_reservation (tt_proposal_id t) (r\<lparr> ir_subaccount_name := Some (wp_subaccount_name (tt_proposal t)),
        ir_encumbered_total_debit := Some n \<rparr>) s"
    "n + weight_sum (\<lambda>x r. x \<noteq> tt_proposal_id t \<and> is_active (ir_status r))
        (wp_subaccount_name (tt_proposal t)) s \<le> bucket_balance (wp_subaccount_name (tt_proposal t)) s"
proof -
  let ?name = "wp_subaccount_name (tt_proposal t)"
  obtain fee where fee: "wp_amount (tt_proposal t) + fee = n" "\<forall>f. frozen_total t = Some f \<longrightarrow> n = f"
    "admit_and_encumber (tt_proposal_id t) ?name n (bucket_balance ?name s) s = Some (Inr (), s')"
    "a = \<lparr> td_proposal_id = tt_proposal_id t, td_bucket = tt_bucket t,
         td_recipient = wp_recipient (tt_proposal t), td_recipient_subaccount = None,
         td_amount = wp_amount (tt_proposal t), td_expected_ledger_fee = fee \<rparr>"
    using assms(1)
    by (auto simp: execute_fee_def result_simps dest!: debit_and_fee_Inr
        split: option.splits if_splits prod.splits sum.splits)
  show "args_ok (tt_proposal t) a" "args_total a = n" "\<And>f. frozen_total t = Some f \<Longrightarrow> n = f"
    using fee assms(3,4) by (simp_all add: args_ok_def args_total_def)
  show "s' = put_reservation (tt_proposal_id t) (r\<lparr> ir_subaccount_name := Some ?name,
        ir_encumbered_total_debit := Some n \<rparr>) s"
    "n + weight_sum (\<lambda>x r. x \<noteq> tt_proposal_id t \<and> is_active (ir_status r)) ?name s
       \<le> bucket_balance ?name s"
    using admit_Inr [OF fee(3) assms(2)] by simp_all
qed

end
