(* ===== verification/Treasury_Invariant.thy ===== *)
theory Treasury_Invariant
  imports Treasury_Runs
begin

text \<open>
  The invariant of a treasury run, in two parts. The unconditional part ties proposals, reservations,
  suspended executions, calls and payments together and keeps the account of every bucket. The other part
  holds as long as the pool never answered a fresh attempt ambiguously: then a payment that may still
  happen is covered by its bucket.
\<close>

section \<open>Statement\<close>

definition timelock_of :: "withdrawal_proposal \<Rightarrow> nat" where
  "timelock_of p = (if wp_subaccount_name p = ''insurance'' then INSURANCE_WITHDRAWAL_TIMELOCK_NS
     else WITHDRAWAL_TIMELOCK_NS)"

definition prop_ok :: "treasury \<Rightarrow> nat \<Rightarrow> withdrawal_proposal \<Rightarrow> bool" where
  "prop_ok s pid p \<longleftrightarrow> wp_id p = pid \<and> pid < ty_next_proposal_id s
     \<and> wp_execute_after_ns p = wp_created_at_ns p + timelock_of p
     \<and> (wp_status p = ProposalExecuted \<longrightarrow> (\<exists>r. resv s pid = Some r \<and> ir_status r = ReservationExecuted))"

definition resv_ok :: "treasury \<Rightarrow> nat \<Rightarrow> inflight_reservation \<Rightarrow> bool" where
  "resv_ok s pid r \<longleftrightarrow> ir_proposal_id r = pid
     \<and> (\<exists>p. prop_of s pid = Some p
          \<and> (ir_status r = ReservationExecuted \<longrightarrow> wp_status p = ProposalExecuted)
          \<and> (is_active (ir_status r) \<longrightarrow> wp_status p = ProposalPending)
          \<and> (\<forall>b. ir_subaccount_name r = Some b \<longrightarrow> b = wp_subaccount_name p))
     \<and> (ir_encumbered_total_debit r \<noteq> None \<longrightarrow> ir_subaccount_name r \<noteq> None)"

definition base_ok :: "treasury \<Rightarrow> bool" where
  "base_ok s \<longleftrightarrow> ty_next_proposal_cell s = Some [ty_next_proposal_id s]
     \<and> (\<forall>b. reserve_bucket_for b \<noteq> None \<longrightarrow> fmlookup (ty_subaccounts s) b \<noteq> None)
     \<and> (\<forall>pid p. prop_of s pid = Some p \<longrightarrow> prop_ok s pid p)
     \<and> (\<forall>pid r. resv s pid = Some r \<longrightarrow> resv_ok s pid r)"

definition turn_ok :: "treasury \<Rightarrow> nat \<Rightarrow> treasury_wait \<Rightarrow> bool" where
  "turn_ok s now wt \<longleftrightarrow> (let t = wait_turn wt in
     prop_of s (wait_id wt) = Some (tt_proposal t) \<and> wp_status (tt_proposal t) = ProposalPending
     \<and> wp_execute_after_ns (tt_proposal t) \<le> now
     \<and> reserve_bucket_for (wp_subaccount_name (tt_proposal t)) = Some (tt_bucket t)
     \<and> (\<exists>r. resv s (wait_id wt) = Some r
          \<and> ir_status r = (case tt_attempt t of Fresh \<Rightarrow> Reserved | UnknownRetry _ \<Rightarrow> RetryingUnknown)
          \<and> (case wt of
               AwaitLedgerFee _ \<Rightarrow> \<forall>f. tt_attempt t = UnknownRetry f \<longrightarrow> f = ir_encumbered_total_debit r
             | AwaitDisburse _ n a \<Rightarrow> ir_encumbered_total_debit r = Some n
                 \<and> ir_subaccount_name r = Some (wp_subaccount_name (tt_proposal t))
                 \<and> args_ok (tt_proposal t) a \<and> args_total a = n)))"

definition waits_ok :: "treasury \<Rightarrow> nat \<Rightarrow> treasury_wait list \<Rightarrow> bool" where
  "waits_ok s now W \<longleftrightarrow> distinct (map wait_id W) \<and> (\<forall>wt \<in> set W. turn_ok s now wt)"

text \<open>A call asks for what its proposal says, after the timelock.\<close>

definition call_ok :: "treasury \<Rightarrow> nat \<Rightarrow> treasury_disburse_args \<Rightarrow> bool" where
  "call_ok s now a \<longleftrightarrow> (\<exists>p. prop_of s (td_proposal_id a) = Some p \<and> args_ok p a
     \<and> wp_execute_after_ns p \<le> now)"

definition calls_ok ::
  "treasury \<Rightarrow> nat \<Rightarrow> treasury_disburse_args set \<Rightarrow> (nat \<Rightarrow> treasury_disburse_args option) \<Rightarrow> bool" where
  "calls_ok s now C paid \<longleftrightarrow> (\<forall>a \<in> C. call_ok s now a)
     \<and> (\<forall>pid a. paid pid = Some a \<longrightarrow> td_proposal_id a = pid \<and> call_ok s now a)"

definition shortfall_of :: "string \<Rightarrow> treasury \<Rightarrow> nat" where
  "shortfall_of b s = (case fmlookup (ty_shortfalls s) b of None \<Rightarrow> 0 | Some r \<Rightarrow> bs_total r)"

definition overflowed :: "string \<Rightarrow> treasury \<Rightarrow> bool" where
  "overflowed b s = (case fmlookup (ty_shortfalls s) b of None \<Rightarrow> False | Some r \<Rightarrow> bs_overflowed r)"

definition accounts_ok :: "treasury \<Rightarrow> (string \<Rightarrow> nat) \<Rightarrow> bool" where
  "accounts_ok s credited \<longleftrightarrow> (\<forall>b. \<not> overflowed b s \<longrightarrow>
     bucket_balance b s + spent b s = credited b + shortfall_of b s)"

text \<open>The part that needs unambiguous answers.\<close>

definition touched :: "treasury_disburse_args set \<Rightarrow> (nat \<Rightarrow> treasury_disburse_args option) \<Rightarrow> nat \<Rightarrow> bool" where
  "touched C paid pid \<longleftrightarrow> paid pid \<noteq> None \<or> (\<exists>a \<in> C. td_proposal_id a = pid)"

definition pid_clear ::
  "inflight_reservation option \<Rightarrow> treasury_disburse_args set \<Rightarrow> (nat \<Rightarrow> treasury_disburse_args option)
     \<Rightarrow> nat set \<Rightarrow> nat \<Rightarrow> bool" where
  "pid_clear ro C paid dead pid \<longleftrightarrow>
     (\<forall>a \<in> C. td_proposal_id a = pid \<longrightarrow> (\<exists>r. ro = Some r
        \<and> ir_encumbered_total_debit r = Some (args_total a) \<and> ir_status r \<noteq> ReservationFailed))
     \<and> (\<forall>a. paid pid = Some a \<longrightarrow> pid \<notin> dead \<and> (\<exists>r. ro = Some r
        \<and> ir_encumbered_total_debit r = Some (args_total a)
        \<and> (is_active (ir_status r) \<or> ir_status r = ReservationExecuted)))
     \<and> (\<forall>r. ro = Some r \<longrightarrow> ir_status r = RetiredNotExecuted \<longrightarrow> pid \<in> dead)
     \<and> (\<forall>r. ro = Some r \<longrightarrow> ir_status r = ReservationExecuted \<longrightarrow> paid pid \<noteq> None)"

definition wait_clear ::
  "treasury_disburse_args set \<Rightarrow> (nat \<Rightarrow> treasury_disburse_args option) \<Rightarrow> treasury_wait \<Rightarrow> bool" where
  "wait_clear C paid wt \<longleftrightarrow> tt_attempt (wait_turn wt) = Fresh \<longrightarrow> (case wt of
     AwaitLedgerFee t \<Rightarrow> \<not> touched C paid (wait_id wt)
   | AwaitDisburse t n a \<Rightarrow> \<forall>a' \<in> C. td_proposal_id a' = wait_id wt \<longrightarrow> a' = a)"

abbreviation exposed ::
  "treasury_disburse_args set \<Rightarrow> (nat \<Rightarrow> treasury_disburse_args option) \<Rightarrow> string \<Rightarrow> treasury \<Rightarrow> nat" where
  "exposed C paid \<equiv> weight_sum (\<lambda>pid r. is_active (ir_status r) \<and> touched C paid pid)"

definition clear ::
  "treasury \<Rightarrow> treasury_wait list \<Rightarrow> treasury_disburse_args set \<Rightarrow> (nat \<Rightarrow> treasury_disburse_args option)
     \<Rightarrow> nat set \<Rightarrow> bool" where
  "clear s W C paid dead \<longleftrightarrow> (\<forall>pid. pid_clear (resv s pid) C paid dead pid)
     \<and> (\<forall>wt \<in> set W. wait_clear C paid wt)
     \<and> (\<forall>b. exposed C paid b s \<le> bucket_balance b s) \<and> ty_shortfalls s = fmempty"

definition treasury_inv :: "treasury_world \<Rightarrow> bool" where
  "treasury_inv w \<longleftrightarrow> base_ok (tw_state w) \<and> waits_ok (tw_state w) (tw_now w) (tw_waiting w)
     \<and> calls_ok (tw_state w) (tw_now w) (tw_calls w) (tw_paid w)
     \<and> accounts_ok (tw_state w) (tw_credited w)
     \<and> (\<not> tw_ambiguous w \<longrightarrow> clear (tw_state w) (tw_waiting w) (tw_calls w) (tw_paid w) (tw_dead w))"

section \<open>Changing one reservation\<close>

lemma base_put:
  assumes "base_ok s" "prop_of s pid = Some p" "wp_status p = ProposalPending" "ir_proposal_id r = pid"
    "ir_status r \<noteq> ReservationExecuted" "\<forall>b. ir_subaccount_name r = Some b \<longrightarrow> b = wp_subaccount_name p"
    "ir_encumbered_total_debit r \<noteq> None \<longrightarrow> ir_subaccount_name r \<noteq> None"
  shows "base_ok (put_reservation pid r s)"
proof -
  have "prop_ok (put_reservation pid r s) x q" if "prop_of s x = Some q" for x q
    using that assms(1-3) by (auto simp: base_ok_def prop_ok_def)
  moreover have "resv_ok (put_reservation pid r s) x q" if "resv (put_reservation pid r s) x = Some q" for x q
    using that assms by (cases "x = pid") (auto simp: base_ok_def resv_ok_def)
  ultimately show ?thesis using assms(1) by (simp add: base_ok_def)
qed

lemma spent_put:
  assumes "ir_status r \<noteq> ReservationExecuted" "\<And>q. resv s pid = Some q \<Longrightarrow> ir_status q \<noteq> ReservationExecuted"
  shows "spent b (put_reservation pid r s) = spent b s"
  unfolding spent_def
proof (rule weight_sum_cong)
  show "weight (\<lambda>_ r. ir_status r = ReservationExecuted) b (put_reservation pid r s) x
      = weight (\<lambda>_ r. ir_status r = ReservationExecuted) b s x" for x
    using assms by (cases "x = pid") (auto simp: weight_def split: option.splits)
qed

lemma accounts_put:
  assumes "accounts_ok s credited" "ir_status r \<noteq> ReservationExecuted"
    "\<And>q. resv s pid = Some q \<Longrightarrow> ir_status q \<noteq> ReservationExecuted"
  shows "accounts_ok (put_reservation pid r s) credited"
  using assms spent_put [OF assms(2,3)]
  by (simp add: accounts_ok_def overflowed_def shortfall_of_def)

lemma turn_ok_put:
  "turn_ok s now wt \<Longrightarrow> wait_id wt \<noteq> pid \<Longrightarrow> turn_ok (put_reservation pid r s) now wt"
  by (cases wt) (auto simp: turn_ok_def Let_def)

lemma waits_put:
  "waits_ok s now W \<Longrightarrow> pid \<notin> wait_id ` set W \<Longrightarrow> waits_ok (put_reservation pid r s) now W"
  by (auto simp: waits_ok_def intro!: turn_ok_put)

lemma waits_remove:
  assumes "waits_ok s now W"
  shows "waits_ok s now (remove1 wt W)"
    and "wt \<in> set W \<Longrightarrow> wait_id wt \<notin> wait_id ` set (remove1 wt W)"
proof -
  have d: "distinct (map wait_id W)" using assms by (simp add: waits_ok_def)
  from distinct_keys_remove1 [OF d, of wt] show "waits_ok s now (remove1 wt W)"
    using assms set_remove1_subset [of wt W] by (auto simp: waits_ok_def)
  show "wait_id wt \<notin> wait_id ` set (remove1 wt W)" if "wt \<in> set W" by (rule keys_remove1_other [OF d that])
qed

lemma waits_cons:
  "waits_ok s now W \<Longrightarrow> turn_ok s now wt \<Longrightarrow> wait_id wt \<notin> wait_id ` set W \<Longrightarrow> waits_ok s now (wt # W)"
  by (simp add: waits_ok_def)

lemma calls_put [simp]:
  "call_ok (put_reservation pid r s) = call_ok s"
  "calls_ok (put_reservation pid r s) = calls_ok s"
  by (simp_all add: fun_eq_iff calls_ok_def call_ok_def)

text \<open>The part with unambiguous answers. Only the calls and the retirement of the one id may change.\<close>

definition agree_off ::
  "nat \<Rightarrow> treasury_disburse_args set \<Rightarrow> treasury_disburse_args set \<Rightarrow> bool" where
  "agree_off pid C C' \<longleftrightarrow> (\<forall>a. td_proposal_id a \<noteq> pid \<longrightarrow> (a \<in> C' \<longleftrightarrow> a \<in> C))"

lemma agree_off_simps [simp]:
  "agree_off pid C C"
  "td_proposal_id a = pid \<Longrightarrow> agree_off pid C (insert a C)"
  "td_proposal_id a = pid \<Longrightarrow> agree_off pid C (C - {a})"
  by (auto simp: agree_off_def)

lemma touched_off: "agree_off pid C C' \<Longrightarrow> x \<noteq> pid \<Longrightarrow> touched C' paid x = touched C paid x"
  by (auto simp: agree_off_def touched_def)

lemma wait_clear_off:
  "agree_off pid C C' \<Longrightarrow> wait_id wt \<noteq> pid \<Longrightarrow> wait_clear C paid wt \<Longrightarrow> wait_clear C' paid wt"
  by (cases wt) (auto simp: wait_clear_def touched_off agree_off_def)

lemma waits_clear_off:
  assumes "\<forall>wt \<in> set W. wait_clear C paid wt" "agree_off pid C C'" "pid \<notin> wait_id ` set W"
  shows "\<forall>wt \<in> set W. wait_clear C' paid wt"
  using assms(1,3) by (auto intro: wait_clear_off [OF assms(2)])

lemma pid_clear_off:
  assumes "pid_clear ro C paid dead x" "agree_off pid C C'" "x \<noteq> pid" "x \<in> dead' \<longleftrightarrow> x \<in> dead"
  shows "pid_clear ro C' paid dead' x"
proof -
  have calls: "td_proposal_id a = x \<Longrightarrow> a \<in> C' \<longleftrightarrow> a \<in> C" for a
    using assms(2,3) by (auto simp: agree_off_def)
  have all: "(\<forall>a \<in> C'. td_proposal_id a = x \<longrightarrow> Q a) \<longleftrightarrow> (\<forall>a \<in> C. td_proposal_id a = x \<longrightarrow> Q a)" for Q
    using calls by blast
  show ?thesis using assms(1) unfolding pid_clear_def all by (simp add: assms(4))
qed

lemma exposed_put_le:
  assumes "agree_off pid C C'"
    and "\<And>n. is_active (ir_status r) \<Longrightarrow> touched C' paid pid \<Longrightarrow> ir_subaccount_name r = Some b
      \<Longrightarrow> ir_encumbered_total_debit r = Some n \<Longrightarrow> \<exists>q. resv s pid = Some q \<and> is_active (ir_status q)
        \<and> touched C paid pid \<and> ir_subaccount_name q = Some b \<and> ir_encumbered_total_debit q = Some n"
  shows "exposed C' paid b (put_reservation pid r s) \<le> exposed C paid b s"
proof -
  let ?P = "\<lambda>C pid r. is_active (ir_status r) \<and> touched C paid pid"
  have le: "weight (?P C') b (put_reservation pid r s) pid \<le> weight (?P C) b s pid"
    using assms(2) by (cases "ir_encumbered_total_debit r") (auto simp: weight_def)
  have "x \<noteq> pid \<Longrightarrow> weight (?P C') b (put_reservation pid r s) x = weight (?P C) b s x" for x
    by (cases "resv s x") (simp_all add: weight_def touched_off [OF assms(1)])
  then have "weight_sum (?P C') b (put_reservation pid r s) + weight (?P C) b s pid
      = weight_sum (?P C) b s + weight (?P C') b (put_reservation pid r s) pid"
    by (rule weight_sum_change)
  then show ?thesis using le by simp
qed

lemma clear_put:
  assumes "clear s W C paid dead" "agree_off pid C C'" "\<forall>x. x \<noteq> pid \<longrightarrow> (x \<in> dead' \<longleftrightarrow> x \<in> dead)"
    "pid_clear (Some r) C' paid dead' pid" "\<forall>wt \<in> set W'. wait_clear C' paid wt"
    "\<And>b. exposed C' paid b (put_reservation pid r s) \<le> bucket_balance b s"
  shows "clear (put_reservation pid r s) W' C' paid dead'"
proof -
  have "pid_clear (resv (put_reservation pid r s) x) C' paid dead' x" for x
  proof (cases "x = pid")
    case False
    have "pid_clear (resv s x) C paid dead x" using assms(1) by (simp add: clear_def)
    from pid_clear_off [OF this assms(2) False] assms(3) False show ?thesis by simp
  qed (use assms(4) in simp)
  then show ?thesis using assms(1,5,6) by (simp add: clear_def)
qed

lemma pid_clear_Some:
  "pid_clear (Some r) C paid dead pid \<longleftrightarrow>
     (\<forall>a \<in> C. td_proposal_id a = pid \<longrightarrow>
        ir_encumbered_total_debit r = Some (args_total a) \<and> ir_status r \<noteq> ReservationFailed)
     \<and> (\<forall>a. paid pid = Some a \<longrightarrow> pid \<notin> dead \<and> ir_encumbered_total_debit r = Some (args_total a)
        \<and> (is_active (ir_status r) \<or> ir_status r = ReservationExecuted))
     \<and> (ir_status r = RetiredNotExecuted \<longrightarrow> pid \<in> dead)
     \<and> (ir_status r = ReservationExecuted \<longrightarrow> paid pid \<noteq> None)"
  by (simp add: pid_clear_def)

lemma clear_fewer:
  assumes "clear s W C paid dead" "set W' \<subseteq> set W"
  shows "clear s W' C paid dead"
  using assms by (auto simp: clear_def)

lemma clearD:
  assumes "clear s W C paid dead"
  shows "pid_clear (resv s pid) C paid dead pid" "wt \<in> set W \<Longrightarrow> wait_clear C paid wt"
    "exposed C paid b s \<le> bucket_balance b s" "ty_shortfalls s = fmempty"
  using assms by (auto simp: clear_def)

lemma treasury_invD:
  assumes "treasury_inv w"
  shows "base_ok (tw_state w)" "waits_ok (tw_state w) (tw_now w) (tw_waiting w)"
    "calls_ok (tw_state w) (tw_now w) (tw_calls w) (tw_paid w)" "accounts_ok (tw_state w) (tw_credited w)"
    "\<not> tw_ambiguous w \<Longrightarrow> clear (tw_state w) (tw_waiting w) (tw_calls w) (tw_paid w) (tw_dead w)"
  using assms by (simp_all add: treasury_inv_def)

section \<open>Preservation: starting an execution\<close>

lemma untouchedI:
  assumes "pid_clear ro C paid dead pid" "\<And>r. ro = Some r \<Longrightarrow> ir_status r = ReservationFailed"
  shows "\<not> touched C paid pid"
  using assms by (cases ro) (fastforce simp: pid_clear_def touched_def is_active_def)+

lemma clear_start:
  assumes clear: "clear s W C paid dead" and r: "reserved_from (resv s pid) pid (tt_attempt t) r"
    and t: "tt_proposal_id t = pid" and ids: "\<And>o'. resv s pid = Some o' \<Longrightarrow> ir_proposal_id o' = pid"
  shows "clear (put_reservation pid r s) (AwaitLedgerFee t # W) C paid dead"
proof (rule clear_put [OF clear, where C' = C and dead' = dead])
  note K = clearD(1) [OF clear, of pid]
  have fresh: "\<not> touched C paid pid" if "tt_attempt t = Fresh"
    by (rule untouchedI [OF K]) (use r ids that in \<open>auto simp: reserved_from_def\<close>)
  have retry: "\<exists>q. resv s pid = Some q \<and> ir_status q = OutcomeUnknown \<and> ir_status r = RetryingUnknown
      \<and> ir_subaccount_name r = ir_subaccount_name q \<and> ir_encumbered_total_debit r = ir_encumbered_total_debit q"
    if "tt_attempt t \<noteq> Fresh"
    using r ids that by (auto simp: reserved_from_def split: option.splits)
  show "pid_clear (Some r) C paid dead pid"
  proof (cases "tt_attempt t = Fresh")
    case True
    then have "ir_status r = Reserved" using r ids by (auto simp: reserved_from_def split: option.splits)
    then show ?thesis using fresh [OF True] by (auto simp: pid_clear_def touched_def)
  next
    case False
    then show ?thesis using retry K by (auto simp: pid_clear_def is_active_def)
  qed
  show "\<forall>wt \<in> set (AwaitLedgerFee t # W). wait_clear C paid wt"
    using clearD(2) [OF clear] fresh t by (auto simp: wait_clear_def)
  show "exposed C paid b (put_reservation pid r s) \<le> bucket_balance b s" for b
  proof (rule order_trans [OF exposed_put_le clearD(3) [OF clear]])
    fix n assume a: "is_active (ir_status r)" "touched C paid pid" "ir_subaccount_name r = Some b"
      "ir_encumbered_total_debit r = Some n"
    then have "tt_attempt t \<noteq> Fresh" using fresh by auto
    from retry [OF this] a show "\<exists>q. resv s pid = Some q \<and> is_active (ir_status q)
        \<and> touched C paid pid \<and> ir_subaccount_name q = Some b \<and> ir_encumbered_total_debit q = Some n"
      by (auto simp: is_active_def)
  qed simp
qed simp_all

lemma inv_start:
  assumes inv: "treasury_inv w"
    and start: "execute_start encode (tw_now w) caller pid (tw_state w) = Some (Inr t, s)"
  shows "treasury_inv (w\<lparr> tw_state := s, tw_waiting := AwaitLedgerFee t # tw_waiting w \<rparr>)"
proof -
  note I = treasury_invD [OF inv]
  let ?s = "tw_state w" and ?W = "tw_waiting w"
  have base: "\<And>x r. resv ?s x = Some r \<Longrightarrow> resv_ok ?s x r"
    using I(1) by (simp add: base_ok_def)
  have "ir_proposal_id o' = pid \<and> (ir_status o' = ReservationExecuted \<longrightarrow>
      (\<exists>p. prop_of ?s pid = Some p \<and> wp_status p \<noteq> ProposalPending))" if "resv ?s pid = Some o'" for o'
    using base [OF that] by (auto simp: resv_ok_def)
  then obtain r where p: "prop_of ?s pid = Some (tt_proposal t)" "wp_status (tt_proposal t) = ProposalPending"
    "wp_execute_after_ns (tt_proposal t) \<le> tw_now w" "tt_proposal_id t = pid"
    "reserve_bucket_for (wp_subaccount_name (tt_proposal t)) = Some (tt_bucket t)"
    and r: "s = put_reservation pid r ?s" "reserved_from (resv ?s pid) pid (tt_attempt t) r"
    using execute_start_Inr [OF start] by metis
  have idle: "pid \<notin> wait_id ` set ?W"
  proof
    assume "pid \<in> wait_id ` set ?W"
    then obtain wt where "wt \<in> set ?W" "wait_id wt = pid" by auto
    then have "turn_ok ?s (tw_now w) wt" using I(2) by (simp add: waits_ok_def)
    then show False
      using r(2) base \<open>wait_id wt = pid\<close>
      by (auto simp: turn_ok_def Let_def reserved_from_def resv_ok_def split: attempt_class.splits)
  qed
  have old: "ir_status q \<noteq> ReservationExecuted" if "resv ?s pid = Some q" for q
    using base [OF that] p(1,2) by (auto simp: resv_ok_def)
  have new: "ir_proposal_id r = pid" "ir_status r \<noteq> ReservationExecuted"
    "\<forall>b. ir_subaccount_name r = Some b \<longrightarrow> b = wp_subaccount_name (tt_proposal t)"
    "ir_encumbered_total_debit r \<noteq> None \<longrightarrow> ir_subaccount_name r \<noteq> None"
    "ir_status r = (case tt_attempt t of Fresh \<Rightarrow> Reserved | UnknownRetry _ \<Rightarrow> RetryingUnknown)"
    "\<forall>f. tt_attempt t = UnknownRetry f \<longrightarrow> f = ir_encumbered_total_debit r"
    using r(2) p(1) base [of pid] by (auto simp: reserved_from_def resv_ok_def split: option.splits)
  have "base_ok s" unfolding r(1) by (rule base_put [OF I(1) p(1,2) new(1-4)])
  moreover have "waits_ok s (tw_now w) (AwaitLedgerFee t # ?W)"
    unfolding r(1)
    by (rule waits_cons [OF waits_put [OF I(2) idle]])
       (use p new(5,6) idle in \<open>auto simp: turn_ok_def\<close>)
  moreover have "accounts_ok s (tw_credited w)" unfolding r(1) by (rule accounts_put [OF I(4) new(2) old])
  moreover have "clear s (AwaitLedgerFee t # ?W) (tw_calls w) (tw_paid w) (tw_dead w)" if "\<not> tw_ambiguous w"
    unfolding r(1) by (rule clear_start [OF I(5) [OF that] r(2) p(4)]) (use base in \<open>simp add: resv_ok_def\<close>)
  ultimately show ?thesis using I(3) by (simp add: treasury_inv_def r(1))
qed

section \<open>Preservation: ending an execution without a payment\<close>

lemma waiting_parts:
  assumes inv: "treasury_inv w" and wt: "wt \<in> set (tw_waiting w)"
  obtains r where "resv (tw_state w) (wait_id wt) = Some r"
    "ir_status r = (case tt_attempt (wait_turn wt) of Fresh \<Rightarrow> Reserved | UnknownRetry _ \<Rightarrow> RetryingUnknown)"
    "is_active (ir_status r)" "turn_ok (tw_state w) (tw_now w) wt" "resv_ok (tw_state w) (wait_id wt) r"
    "prop_of (tw_state w) (wait_id wt) = Some (tt_proposal (wait_turn wt))"
    "wp_status (tt_proposal (wait_turn wt)) = ProposalPending"
proof -
  note I = treasury_invD [OF inv]
  have ok: "turn_ok (tw_state w) (tw_now w) wt" using I(2) wt by (simp add: waits_ok_def)
  then obtain r where r: "resv (tw_state w) (wait_id wt) = Some r"
    "ir_status r = (case tt_attempt (wait_turn wt) of Fresh \<Rightarrow> Reserved | UnknownRetry _ \<Rightarrow> RetryingUnknown)"
    unfolding turn_ok_def Let_def by blast
  moreover have "is_active (ir_status r)" using r(2) by (simp add: is_active_def split: attempt_class.split)
  moreover have "resv_ok (tw_state w) (wait_id wt) r" using I(1) r(1) by (simp add: base_ok_def)
  ultimately show thesis using that ok by (simp add: turn_ok_def Let_def)
qed

lemma inv_settle:
  assumes inv: "treasury_inv w" and wt: "wt \<in> set (tw_waiting w)" and r: "resv (tw_state w) (wait_id wt) = Some r"
    and st: "st \<noteq> ReservationExecuted"
    and w': "tw_state w' = settle_reservation (wait_id wt) st (tw_state w)" "tw_now w' = tw_now w"
      "tw_waiting w' = remove1 wt (tw_waiting w)" "tw_paid w' = tw_paid w" "tw_credited w' = tw_credited w"
      "tw_calls w' \<subseteq> tw_calls w"
    and unamb: "\<not> tw_ambiguous w' \<Longrightarrow> \<not> tw_ambiguous w \<and> agree_off (wait_id wt) (tw_calls w) (tw_calls w')
      \<and> (\<forall>x. x \<noteq> wait_id wt \<longrightarrow> (x \<in> tw_dead w' \<longleftrightarrow> x \<in> tw_dead w))
      \<and> pid_clear (Some (r\<lparr> ir_status := st \<rparr>)) (tw_calls w') (tw_paid w) (tw_dead w') (wait_id wt)"
  shows "treasury_inv w'"
proof -
  note I = treasury_invD [OF inv]
  let ?pid = "wait_id wt" and ?s = "tw_state w" and ?r = "r\<lparr> ir_status := st \<rparr>"
  have s': "tw_state w' = put_reservation ?pid ?r ?s" using w'(1) settle_as_put [OF r] by simp
  obtain q where q: "resv ?s ?pid = Some q" "is_active (ir_status q)" "resv_ok ?s ?pid q"
    "prop_of ?s ?pid = Some (tt_proposal (wait_turn wt))" "wp_status (tt_proposal (wait_turn wt)) = ProposalPending"
    by (rule waiting_parts [OF inv wt])
  then have act: "is_active (ir_status r)" and ok: "resv_ok ?s ?pid r" using r by simp_all
  have nx: "ir_status q \<noteq> ReservationExecuted" if "resv ?s ?pid = Some q" for q
    using that r act by (auto simp: is_active_def)
  note rem = waits_remove [OF I(2), of wt]
  have "base_ok (tw_state w')"
    unfolding s' by (rule base_put [OF I(1) q(4,5)]) (use ok st q(4) in \<open>auto simp: resv_ok_def\<close>)
  moreover have "waits_ok (tw_state w') (tw_now w') (tw_waiting w')"
    unfolding s' w' by (rule waits_put [OF rem(1) rem(2) [OF wt]])
  moreover have "calls_ok (tw_state w') (tw_now w') (tw_calls w') (tw_paid w')"
    using I(3) w'(6) by (auto simp: s' w'(2,4) calls_ok_def call_ok_def)
  moreover have "accounts_ok (tw_state w') (tw_credited w')"
    unfolding s' w' by (rule accounts_put [OF I(4) _ nx]) (use st in simp_all)
  moreover have "clear (tw_state w') (tw_waiting w') (tw_calls w') (tw_paid w') (tw_dead w')" if "\<not> tw_ambiguous w'"
  proof -
    note U = unamb [OF that]
    then have cl: "clear ?s (tw_waiting w) (tw_calls w) (tw_paid w) (tw_dead w)" using I(5) by simp
    have "clear (put_reservation ?pid ?r ?s) (remove1 wt (tw_waiting w)) (tw_calls w') (tw_paid w) (tw_dead w')"
    proof (rule clear_put [OF cl])
      show "\<forall>v \<in> set (remove1 wt (tw_waiting w)). wait_clear (tw_calls w') (tw_paid w) v"
        by (rule waits_clear_off [where C = "tw_calls w"])
           (use clearD(2) [OF clear_fewer [OF cl set_remove1_subset]] U rem(2) [OF wt] in auto)
      show "exposed (tw_calls w') (tw_paid w) b (put_reservation ?pid ?r ?s) \<le> bucket_balance b ?s" for b
        by (rule order_trans [OF exposed_put_le clearD(3) [OF cl]])
           (use U r act w'(6) in \<open>auto simp: touched_def\<close>)
    qed (use U in simp_all)
    then show ?thesis by (simp add: s' w')
  qed
  ultimately show ?thesis by (simp add: treasury_inv_def)
qed

text \<open>A local refusal: a fresh attempt has not called the pool, a retry goes back to unknown.\<close>

lemma refusal_clear:
  assumes K: "pid_clear (Some r) C paid dead pid" and act: "is_active (ir_status r)"
    and fresh: "attempt = Fresh \<Longrightarrow> \<not> touched C paid pid"
  shows "pid_clear (Some (r\<lparr> ir_status := (case attempt of Fresh \<Rightarrow> ReservationFailed | UnknownRetry _ \<Rightarrow> OutcomeUnknown) \<rparr>))
    C paid dead pid"
proof (cases attempt)
  case Fresh
  then show ?thesis using fresh by (auto simp: pid_clear_def touched_def)
next
  case (UnknownRetry f)
  then show ?thesis using K act by (auto simp: pid_clear_def is_active_def)
qed

lemma inv_fee_refused:
  assumes inv: "treasury_inv w" and wt: "AwaitLedgerFee t \<in> set (tw_waiting w)"
    and fee: "execute_fee t reply (tw_state w) = Some (Inl e, s)"
  shows "treasury_inv (w\<lparr> tw_state := s, tw_waiting := remove1 (AwaitLedgerFee t) (tw_waiting w) \<rparr>)"
proof -
  note I = treasury_invD [OF inv]
  let ?pid = "tt_proposal_id t"
  obtain r where r: "resv (tw_state w) ?pid = Some r" "is_active (ir_status r)"
    by (rule waiting_parts [OF inv wt], rule that) (assumption | simp)+
  let ?st = "case tt_attempt t of Fresh \<Rightarrow> ReservationFailed | UnknownRetry _ \<Rightarrow> OutcomeUnknown"
  define w' where "w' = w\<lparr> tw_state := s, tw_waiting := remove1 (AwaitLedgerFee t) (tw_waiting w) \<rparr>"
  have w': "tw_state w' = settle_reservation (wait_id (AwaitLedgerFee t)) ?st (tw_state w)" "tw_now w' = tw_now w"
    "tw_waiting w' = remove1 (AwaitLedgerFee t) (tw_waiting w)" "tw_paid w' = tw_paid w"
    "tw_credited w' = tw_credited w" "tw_calls w' = tw_calls w" "tw_dead w' = tw_dead w"
    "tw_ambiguous w' = tw_ambiguous w"
    using execute_fee_Inl [OF fee] by (simp_all add: w'_def settle_local_refusal_def)
  have "pid_clear (Some (r\<lparr> ir_status := ?st \<rparr>)) (tw_calls w) (tw_paid w) (tw_dead w) ?pid"
    if "\<not> tw_ambiguous w"
  proof -
    note cl = I(5) [OF that]
    have "tt_attempt t = Fresh \<Longrightarrow> \<not> touched (tw_calls w) (tw_paid w) ?pid"
      using clearD(2) [OF cl wt] by (simp add: wait_clear_def)
    from refusal_clear [OF clearD(1) [OF cl, of ?pid, unfolded r(1)] r(2) this] show ?thesis by simp
  qed
  moreover have "?st \<noteq> ReservationExecuted" by (simp split: attempt_class.split)
  moreover have "resv (tw_state w) (wait_id (AwaitLedgerFee t)) = Some r" using r(1) by simp
  ultimately have "treasury_inv w'" by (intro inv_settle [OF inv wt _ _ w'(1-5)]) (simp_all add: w')
  then show ?thesis by (simp add: w'_def)
qed

section \<open>Preservation: calling the pool\<close>

lemma exposed_admitted:
  assumes n: "n + weight_sum (\<lambda>x r. x \<noteq> pid \<and> is_active (ir_status r)) b s \<le> bucket_balance b s"
    and r: "ir_encumbered_total_debit r = Some n"
  shows "exposed C paid b (put_reservation pid r s) \<le> bucket_balance b s"
proof -
  let ?A = "\<lambda>x r. is_active (ir_status r)" and ?O = "\<lambda>x r. x \<noteq> pid \<and> is_active (ir_status r)"
  have "exposed C paid b (put_reservation pid r s) \<le> weight_sum ?A b (put_reservation pid r s)"
  proof (rule weight_sum_mono)
    show "weight (\<lambda>pid r. is_active (ir_status r) \<and> touched C paid pid) b (put_reservation pid r s) x
        \<le> weight ?A b (put_reservation pid r s) x" for x
      by (cases "resv (put_reservation pid r s) x") (auto simp: weight_def)
  qed
  also have "\<dots> \<le> weight_sum ?O b s + n"
  proof -
    have "x \<noteq> pid \<Longrightarrow> weight ?A b (put_reservation pid r s) x = weight ?O b s x" for x
      by (cases "resv s x") (simp_all add: weight_def)
    from weight_sum_change [OF this] have "weight_sum ?A b (put_reservation pid r s) + weight ?O b s pid
        = weight_sum ?O b s + weight ?A b (put_reservation pid r s) pid" by simp
    then show ?thesis using r by (auto split: if_splits)
  qed
  finally show ?thesis using n by simp
qed

lemma calling_clear:
  assumes K: "pid_clear (Some r) C paid dead pid" and act: "is_active (ir_status r)"
    and a: "args_total a = n" "td_proposal_id a = pid"
    and same: "touched C paid pid \<Longrightarrow> ir_encumbered_total_debit r = Some n \<or> ir_encumbered_total_debit r = None"
  shows "pid_clear (Some (r\<lparr> ir_subaccount_name := Some b, ir_encumbered_total_debit := Some n \<rparr>))
    (insert a C) paid dead pid"
proof -
  note K = K [unfolded pid_clear_Some]
  have st: "ir_status r \<noteq> ReservationFailed" "ir_status r \<noteq> RetiredNotExecuted" "ir_status r \<noteq> ReservationExecuted"
    using act by (auto simp: is_active_def)
  have "args_total a' = n" if "a' \<in> insert a C" "td_proposal_id a' = pid" for a'
  proof (cases "a' = a")
    case False
    then have "touched C paid pid" "ir_encumbered_total_debit r = Some (args_total a')"
      using that K by (auto simp: touched_def)
    then show ?thesis using same by simp
  qed (use a in simp)
  moreover have "args_total a' = n \<and> pid \<notin> dead" if "paid pid = Some a'" for a'
  proof -
    have "touched C paid pid" "ir_encumbered_total_debit r = Some (args_total a') \<and> pid \<notin> dead"
      using that K by (auto simp: touched_def)
    then show ?thesis using same by simp
  qed
  ultimately show ?thesis using st act unfolding pid_clear_Some by simp
qed

lemma inv_fee_called:
  assumes inv: "treasury_inv w" and wt: "AwaitLedgerFee t \<in> set (tw_waiting w)"
    and fee: "execute_fee t reply (tw_state w) = Some (Inr (n, a), s)"
  shows "treasury_inv (w\<lparr> tw_state := s, tw_waiting := AwaitDisburse t n a # remove1 (AwaitLedgerFee t) (tw_waiting w),
    tw_calls := insert a (tw_calls w) \<rparr>)"
proof -
  note I = treasury_invD [OF inv]
  let ?pid = "tt_proposal_id t" and ?s = "tw_state w" and ?W = "remove1 (AwaitLedgerFee t) (tw_waiting w)"
    and ?name = "wp_subaccount_name (tt_proposal t)"
  obtain r where r: "resv ?s ?pid = Some r" "is_active (ir_status r)" "turn_ok ?s (tw_now w) (AwaitLedgerFee t)"
    "resv_ok ?s ?pid r" "prop_of ?s ?pid = Some (tt_proposal t)" "wp_status (tt_proposal t) = ProposalPending"
    "ir_status r = (case tt_attempt t of Fresh \<Rightarrow> Reserved | UnknownRetry _ \<Rightarrow> RetryingUnknown)"
    by (rule waiting_parts [OF inv wt], rule that) (assumption | simp)+
  have now: "wp_execute_after_ns (tt_proposal t) \<le> tw_now w"
    "reserve_bucket_for ?name = Some (tt_bucket t)"
    "\<forall>f. tt_attempt t = UnknownRetry f \<longrightarrow> f = ir_encumbered_total_debit r"
    using r(3) r(1) by (simp_all add: turn_ok_def Let_def)
  have id: "wp_id (tt_proposal t) = ?pid" using I(1) r(5) by (simp add: base_ok_def prop_ok_def)
  define r' where "r' = r\<lparr> ir_subaccount_name := Some ?name, ir_encumbered_total_debit := Some n \<rparr>"
  note called = execute_fee_Inr [OF fee r(1) id now(2)]
  have s: "s = put_reservation ?pid r' ?s" using called(4) by (simp add: r'_def)
  have r': "ir_status r' = ir_status r" "ir_encumbered_total_debit r' = Some n" "ir_subaccount_name r' = Some ?name"
    "ir_proposal_id r' = ?pid" "ir_status r' \<noteq> ReservationExecuted"
    using r(2,4) by (auto simp: r'_def resv_ok_def is_active_def)
  have nx: "ir_status q \<noteq> ReservationExecuted" if "resv ?s ?pid = Some q" for q
    using that r(1,2) by (auto simp: is_active_def)
  note rem = waits_remove [OF I(2), of "AwaitLedgerFee t"]
  have pid: "td_proposal_id a = ?pid" using called(1) id by (simp add: args_ok_def)
  have "base_ok s" unfolding s by (rule base_put [OF I(1) r(5,6)]) (use r' in simp_all)
  moreover have idle: "?pid \<notin> wait_id ` set ?W" using rem(2) wt by simp
  moreover have "waits_ok s (tw_now w) (AwaitDisburse t n a # ?W)"
    unfolding s
  proof (rule waits_cons [OF waits_put [OF rem(1) idle]])
    show "turn_ok (put_reservation ?pid r' ?s) (tw_now w) (AwaitDisburse t n a)"
      using r r' now called(1,2) by (simp add: turn_ok_def)
  qed (use idle in simp)
  moreover have "calls_ok s (tw_now w) (insert a (tw_calls w)) (tw_paid w)"
  proof -
    have "call_ok ?s (tw_now w) a" using called(1) r(5) now(1) pid by (simp add: call_ok_def)
    then show ?thesis using I(3) by (simp add: s calls_ok_def)
  qed
  moreover have "accounts_ok s (tw_credited w)" unfolding s by (rule accounts_put [OF I(4) r'(5) nx])
  moreover have "clear s (AwaitDisburse t n a # ?W) (insert a (tw_calls w)) (tw_paid w) (tw_dead w)"
    if "\<not> tw_ambiguous w"
    unfolding s
  proof (rule clear_put [OF I(5) [OF that]])
    note cl = I(5) [OF that]
    have fresh: "tt_attempt t = Fresh \<Longrightarrow> \<not> touched (tw_calls w) (tw_paid w) ?pid"
      using clearD(2) [OF cl wt] by (simp add: wait_clear_def)
    have "ir_encumbered_total_debit r = Some n \<or> ir_encumbered_total_debit r = None"
      if "touched (tw_calls w) (tw_paid w) ?pid"
    proof (cases "tt_attempt t")
      case (UnknownRetry f)
      then show ?thesis using now(3) called(3) by (cases f) (auto simp: frozen_total_def)
    qed (use fresh that in simp)
    then show "pid_clear (Some r') (insert a (tw_calls w)) (tw_paid w) (tw_dead w) ?pid"
      unfolding r'_def using clearD(1) [OF cl, of ?pid] r(1,2) called(2) pid
      by (intro calling_clear) simp_all
    have "\<forall>v \<in> set ?W. wait_clear (insert a (tw_calls w)) (tw_paid w) v"
      by (rule waits_clear_off [where C = "tw_calls w" and pid = ?pid])
         (use clearD(2) [OF clear_fewer [OF cl set_remove1_subset]] pid idle in auto)
    then show "\<forall>v \<in> set (AwaitDisburse t n a # ?W). wait_clear (insert a (tw_calls w)) (tw_paid w) v"
      using fresh by (auto simp: wait_clear_def touched_def)
    show "exposed (insert a (tw_calls w)) (tw_paid w) b (put_reservation ?pid r' ?s) \<le> bucket_balance b ?s" for b
    proof (cases "b = ?name")
      case True
      show ?thesis unfolding True by (rule exposed_admitted [OF called(5) r'(2)])
    next
      case False
      show ?thesis
        by (rule order_trans [OF exposed_put_le clearD(3) [OF cl]]) (use pid r'(3) False in simp_all)
    qed
  qed (use pid in simp_all)
  ultimately show ?thesis by (simp add: treasury_inv_def)
qed

section \<open>Preservation: settling a payment\<close>

lemma debit_reads [simp]:
  "resv (debit_subaccount name n s) x = resv s x" "prop_of (debit_subaccount name n s) x = prop_of s x"
  "ty_next_proposal_id (debit_subaccount name n s) = ty_next_proposal_id s"
  "ty_next_proposal_cell (debit_subaccount name n s) = ty_next_proposal_cell s"
  "fmlookup (ty_subaccounts (debit_subaccount name n s)) b = None \<longleftrightarrow> fmlookup (ty_subaccounts s) b = None"
  by (auto simp: resv_def prop_of_def debit_subaccount_def record_debit_shortfall_def Let_def
      split: option.split)

lemma debit_balance [simp]:
  "bucket_balance b (debit_subaccount name n s) = (if b = name then bucket_balance b s - n else bucket_balance b s)"
  by (auto simp: bucket_balance_def debit_subaccount_def record_debit_shortfall_def Let_def split: option.split)

lemma debit_covered: "n \<le> bucket_balance name s \<Longrightarrow> ty_shortfalls (debit_subaccount name n s) = ty_shortfalls s"
  by (auto simp: bucket_balance_def debit_subaccount_def Let_def split: option.splits)

lemma record_shortfall_reads:
  assumes "\<not> overflowed b (record_debit_shortfall name d s)"
  shows "\<not> overflowed b s"
    "shortfall_of b (record_debit_shortfall name d s) = shortfall_of b s + (if b = name then d else 0)"
  using assms
  by (auto simp: overflowed_def shortfall_of_def record_debit_shortfall_def Let_def checked_add_def
      split: option.splits if_splits)

lemma debit_account:
  assumes "\<not> overflowed b (debit_subaccount name n s)" "fmlookup (ty_subaccounts s) name \<noteq> None"
  shows "\<not> overflowed b s"
    "bucket_balance b s + shortfall_of b (debit_subaccount name n s)
       = bucket_balance b (debit_subaccount name n s) + shortfall_of b s + (if b = name then n else 0)"
proof -
  obtain e where e: "fmlookup (ty_subaccounts s) name = Some e" using assms(2) by auto
  let ?s1 = "s\<lparr> ty_subaccounts := fmupd name (e\<lparr> sb_balance := sb_balance e - min (sb_balance e) n \<rparr>) (ty_subaccounts s) \<rparr>"
  have same: "overflowed b ?s1 = overflowed b s" "shortfall_of b ?s1 = shortfall_of b s"
    by (simp_all add: overflowed_def shortfall_of_def)
  have bal: "bucket_balance name s = sb_balance e" using e by (simp add: bucket_balance_def)
  have "\<not> overflowed b s \<and> shortfall_of b (debit_subaccount name n s)
      = shortfall_of b s + (if b = name then n - min (sb_balance e) n else 0)"
  proof (cases "n - min (sb_balance e) n > 0")
    case True
    then have d: "debit_subaccount name n s = record_debit_shortfall name (n - min (sb_balance e) n) ?s1"
      using e by (simp add: debit_subaccount_def Let_def)
    show ?thesis using record_shortfall_reads [of b name _ ?s1] assms(1) same unfolding d by simp
  next
    case False
    then have "debit_subaccount name n s = ?s1" using e by (simp add: debit_subaccount_def Let_def)
    then show ?thesis using assms(1) same False by simp
  qed
  then show "\<not> overflowed b s"
    "bucket_balance b s + shortfall_of b (debit_subaccount name n s)
       = bucket_balance b (debit_subaccount name n s) + shortfall_of b s + (if b = name then n else 0)"
    using bal by auto
qed

lemma status_reads [simp]:
  "resv (update_proposal_status pid st s) x = resv s x"
  "prop_of (update_proposal_status pid st s) x =
     (if x = pid then map_option (\<lambda>p. p\<lparr> wp_status := st \<rparr>) (prop_of s x) else prop_of s x)"
  "ty_next_proposal_id (update_proposal_status pid st s) = ty_next_proposal_id s"
  "ty_next_proposal_cell (update_proposal_status pid st s) = ty_next_proposal_cell s"
  "ty_subaccounts (update_proposal_status pid st s) = ty_subaccounts s"
  "ty_shortfalls (update_proposal_status pid st s) = ty_shortfalls s"
  by (auto simp: resv_def prop_of_def update_proposal_status_def split: option.splits)

lemma status_more [simp]:
  "bucket_balance b (update_proposal_status pid st s) = bucket_balance b s"
  "weight_sum P b (update_proposal_status pid st s) = weight_sum P b s"
  "overflowed b (update_proposal_status pid st s) = overflowed b s"
  "shortfall_of b (update_proposal_status pid st s) = shortfall_of b s"
  by (auto simp: bucket_balance_def overflowed_def shortfall_of_def weight_def intro!: weight_sum_cong)

lemma debit_weight [simp]: "weight_sum P b (debit_subaccount name n s) = weight_sum P b s"
  by (rule weight_sum_cong) (simp add: weight_def)

lemma put_more [simp]:
  "overflowed b (put_reservation pid r s) = overflowed b s"
  "shortfall_of b (put_reservation pid r s) = shortfall_of b s"
  by (simp_all add: overflowed_def shortfall_of_def)

text \<open>What waits and calls read of the state.\<close>

lemma waits_cong:
  assumes "waits_ok s now W" "now \<le> now'"
    and "\<And>wt. wt \<in> set W \<Longrightarrow> resv s' (wait_id wt) = resv s (wait_id wt) \<and> prop_of s' (wait_id wt) = prop_of s (wait_id wt)"
  shows "waits_ok s' now' W"
proof -
  have "turn_ok s' now' wt" if "wt \<in> set W" for wt
    using assms that by (auto simp: waits_ok_def turn_ok_def Let_def intro: order_trans)
  then show ?thesis using assms(1) by (simp add: waits_ok_def)
qed

definition kept :: "treasury \<Rightarrow> treasury \<Rightarrow> bool" where
  "kept s s' \<longleftrightarrow> (\<forall>pid p. prop_of s pid = Some p \<longrightarrow> (\<exists>st. prop_of s' pid = Some (p\<lparr> wp_status := st \<rparr>)))"

lemma kept_same: "(\<And>pid. prop_of s' pid = prop_of s pid) \<Longrightarrow> kept s s'"
  unfolding kept_def by (metis withdrawal_proposal.surjective withdrawal_proposal.update_convs(9))

lemma kept_status: "kept s (update_proposal_status pid st s)"
proof -
  have "\<exists>st'. p = p\<lparr> wp_status := st' \<rparr>" for p :: withdrawal_proposal
    by (intro exI [of _ "wp_status p"]) simp
  then show ?thesis by (auto simp: kept_def)
qed

lemma calls_kept:
  assumes "calls_ok s now C paid" "kept s s'" "now \<le> now'"
  shows "calls_ok s' now' C paid"
proof -
  have "call_ok s' now' a" if c: "call_ok s now a" for a
  proof -
    obtain p where p: "prop_of s (td_proposal_id a) = Some p" "args_ok p a" "wp_execute_after_ns p \<le> now"
      using c by (auto simp: call_ok_def)
    then obtain st where "prop_of s' (td_proposal_id a) = Some (p\<lparr> wp_status := st \<rparr>)"
      using assms(2) by (auto simp: kept_def)
    then show ?thesis using p assms(3) by (auto simp: call_ok_def args_ok_def)
  qed
  then show ?thesis using assms(1) by (simp add: calls_ok_def)
qed

text \<open>The state after a confirmed payment of \<open>n\<close> for \<open>pid\<close>.\<close>

definition settled :: "nat \<Rightarrow> inflight_reservation \<Rightarrow> string \<Rightarrow> nat \<Rightarrow> treasury \<Rightarrow> treasury" where
  "settled pid r name n s = update_proposal_status pid ProposalExecuted (debit_subaccount name n
     (put_reservation pid (r\<lparr> ir_status := ReservationExecuted \<rparr>) s))"

lemma weight_sum_put:
  "weight_sum P b (put_reservation pid r s) + weight P b s pid
     = weight_sum P b s + weight P b (put_reservation pid r s) pid"
  by (rule weight_sum_change) simp

lemma timelock_status [simp]: "timelock_of (p\<lparr> wp_status := st \<rparr>) = timelock_of p"
  by (simp add: timelock_of_def)

lemma settled_weight:
  assumes "resv s pid = Some r" "ir_encumbered_total_debit r = Some n" "ir_subaccount_name r = Some name"
    and "P pid r" "\<not> P pid (r\<lparr> ir_status := ReservationExecuted \<rparr>)"
  shows "weight_sum P b (settled pid r name n s) + (if b = name then n else 0) = weight_sum P b s"
proof -
  from weight_sum_put [of P b pid "r\<lparr> ir_status := ReservationExecuted \<rparr>" s] assms show ?thesis
    by (auto simp: settled_def weight_def split: if_splits)
qed

lemma settled_spent:
  assumes "resv s pid = Some r" "ir_encumbered_total_debit r = Some n" "ir_subaccount_name r = Some name"
    and "ir_status r \<noteq> ReservationExecuted"
  shows "spent b (settled pid r name n s) = spent b s + (if b = name then n else 0)"
proof -
  let ?P = "\<lambda>_::nat. \<lambda>r. ir_status r = ReservationExecuted"
  from weight_sum_put [of ?P b pid "r\<lparr> ir_status := ReservationExecuted \<rparr>" s] assms show ?thesis
    by (auto simp: settled_def weight_def spent_def split: if_splits)
qed

lemma settled_reads [simp]:
  "resv (settled pid r name n s) x = (if x = pid then Some (r\<lparr> ir_status := ReservationExecuted \<rparr>) else resv s x)"
  "prop_of (settled pid r name n s) x =
     (if x = pid then map_option (\<lambda>p. p\<lparr> wp_status := ProposalExecuted \<rparr>) (prop_of s x) else prop_of s x)"
  "ty_next_proposal_id (settled pid r name n s) = ty_next_proposal_id s"
  "ty_next_proposal_cell (settled pid r name n s) = ty_next_proposal_cell s"
  "fmlookup (ty_subaccounts (settled pid r name n s)) b = None \<longleftrightarrow> fmlookup (ty_subaccounts s) b = None"
  "bucket_balance b (settled pid r name n s) = (if b = name then bucket_balance b s - n else bucket_balance b s)"
  by (simp_all add: settled_def)

lemma settled_base:
  assumes "base_ok s" "resv s pid = Some r" "ir_encumbered_total_debit r \<noteq> None"
  shows "base_ok (settled pid r name n s)"
proof -
  have "prop_ok (settled pid r name n s) x q" if "prop_of (settled pid r name n s) x = Some q" for x q
    using that assms(1) by (cases "x = pid") (auto simp: base_ok_def prop_ok_def)
  moreover have "resv_ok (settled pid r name n s) x q" if "resv (settled pid r name n s) x = Some q" for x q
  proof -
    have ok: "\<And>y r. resv s y = Some r \<Longrightarrow> resv_ok s y r" using assms(1) by (simp add: base_ok_def)
    show ?thesis
      using that ok [OF assms(2)] ok [of x q] by (cases "x = pid") (auto simp: resv_ok_def is_active_def)
  qed
  ultimately show ?thesis using assms(1) by (simp add: base_ok_def)
qed

lemma settled_accounts:
  assumes acc: "accounts_ok s credited" and r: "resv s pid = Some r" "ir_encumbered_total_debit r = Some n"
    "ir_subaccount_name r = Some name" "ir_status r \<noteq> ReservationExecuted"
    and name: "fmlookup (ty_subaccounts s) name \<noteq> None"
  shows "accounts_ok (settled pid r name n s) credited"
  unfolding accounts_ok_def
proof (intro allI impI)
  fix b assume "\<not> overflowed b (settled pid r name n s)"
  then have "\<not> overflowed b (debit_subaccount name n (put_reservation pid (r\<lparr> ir_status := ReservationExecuted \<rparr>) s))"
    by (simp add: settled_def)
  from debit_account [OF this] name
  have d: "\<not> overflowed b s" "bucket_balance b s + shortfall_of b (settled pid r name n s)
      = bucket_balance b (settled pid r name n s) + shortfall_of b s + (if b = name then n else 0)"
    by (simp_all add: settled_def)
  have "bucket_balance b s + spent b s = credited b + shortfall_of b s"
    using acc d(1) by (simp add: accounts_ok_def)
  then show "bucket_balance b (settled pid r name n s) + spent b (settled pid r name n s)
      = credited b + shortfall_of b (settled pid r name n s)"
    using d(2) settled_spent [OF r, of b] by linarith
qed

lemma settled_clear:
  assumes cl: "clear s W C paid dead" and r: "resv s pid = Some r" "ir_encumbered_total_debit r = Some n"
    "ir_subaccount_name r = Some name" "is_active (ir_status r)" and a: "paid pid = Some a"
  shows "clear (settled pid r name n s) W C paid dead"
proof -
  let ?P = "\<lambda>pid r. is_active (ir_status r) \<and> touched C paid pid"
  have ex: "exposed C paid b (settled pid r name n s) + (if b = name then n else 0) = exposed C paid b s" for b
    by (rule settled_weight [OF r(1-3)]) (use r(4) a in \<open>simp_all add: touched_def is_active_def\<close>)
  have le: "exposed C paid b s \<le> bucket_balance b s" for b by (rule clearD(3) [OF cl])
  have "exposed C paid b (settled pid r name n s) \<le> bucket_balance b (settled pid r name n s)" for b
    using ex [of b] le [of b] by (auto split: if_splits)
  moreover have "ty_shortfalls (settled pid r name n s) = fmempty"
    using ex [of name] le [of name] clearD(4) [OF cl] by (simp add: settled_def debit_covered)
  moreover have "pid_clear (resv (settled pid r name n s) x) C paid dead x" for x
    using clearD(1) [OF cl, of x] r(1) a by (auto simp: pid_clear_Some)
  ultimately show ?thesis using clearD(2) [OF cl] by (simp add: clear_def)
qed

lemma settle_paid:
  assumes "resv s (tt_proposal_id t) = Some r" "ir_status r \<noteq> ReservationExecuted"
  shows "execute_settle t n (DisburseOk v) s
    = Some (Inr (), settled (tt_proposal_id t) r (wp_subaccount_name (tt_proposal t)) n s)"
  using assms
  by (simp add: execute_settle_def Let_def claim_execution_def bind_act_def settled_def resv_def)

lemma inv_paid:
  assumes inv: "treasury_inv w" and wt: "AwaitDisburse t n a \<in> set (tw_waiting w)"
    and paid: "tw_ambiguous w \<or> tw_paid w (tt_proposal_id t) = Some a"
    and set: "execute_settle t n (DisburseOk v) (tw_state w) = Some (x, s)"
  shows "treasury_inv (w\<lparr> tw_state := s, tw_waiting := remove1 (AwaitDisburse t n a) (tw_waiting w) \<rparr>)"
proof -
  note I = treasury_invD [OF inv]
  let ?pid = "tt_proposal_id t" and ?s = "tw_state w" and ?name = "wp_subaccount_name (tt_proposal t)"
    and ?W = "remove1 (AwaitDisburse t n a) (tw_waiting w)"
  obtain r where r: "resv ?s ?pid = Some r" "is_active (ir_status r)" "turn_ok ?s (tw_now w) (AwaitDisburse t n a)"
    by (rule waiting_parts [OF inv wt], rule that) (assumption | simp)+
  have q: "ir_encumbered_total_debit r = Some n" "ir_subaccount_name r = Some ?name" "reserve_bucket_for ?name \<noteq> None"
    using r(3) r(1) by (simp_all add: turn_ok_def Let_def)
  have nx: "ir_status r \<noteq> ReservationExecuted" using r(2) by (auto simp: is_active_def)
  have s: "s = settled ?pid r ?name n ?s" using set settle_paid [OF r(1) nx, of n v] by simp
  have name: "fmlookup (ty_subaccounts ?s) ?name \<noteq> None" using I(1) q(3) by (simp add: base_ok_def)
  note rem = waits_remove [OF I(2), of "AwaitDisburse t n a"]
  have "base_ok s" unfolding s by (rule settled_base [OF I(1) r(1)]) (simp add: q(1))
  moreover have "waits_ok s (tw_now w) ?W"
    by (rule waits_cong [OF rem(1)]) (use rem(2) [OF wt] in \<open>auto simp: s image_iff\<close>)
  moreover have "calls_ok s (tw_now w) (tw_calls w) (tw_paid w)"
  proof (rule calls_kept [OF I(3)])
    show "kept ?s s"
      using kept_status [of "debit_subaccount ?name n (put_reservation ?pid (r\<lparr> ir_status := ReservationExecuted \<rparr>) ?s)"]
      by (simp add: kept_def s settled_def)
  qed simp
  moreover have "accounts_ok s (tw_credited w)" unfolding s by (rule settled_accounts [OF I(4) r(1) q(1,2) nx name])
  moreover have "clear s ?W (tw_calls w) (tw_paid w) (tw_dead w)" if "\<not> tw_ambiguous w"
  proof -
    have "tw_paid w ?pid = Some a" using paid that by simp
    then show ?thesis
      unfolding s by (rule clear_fewer [OF settled_clear [OF I(5) [OF that] r(1) q(1,2) r(2)] set_remove1_subset])
  qed
  ultimately show ?thesis by (simp add: treasury_inv_def)
qed

lemma inv_flagged: "treasury_inv w \<Longrightarrow> treasury_inv (w\<lparr> tw_ambiguous := True \<rparr>)"
  by (simp add: treasury_inv_def)

section \<open>Preservation: the other steps\<close>

lemma settle_not_paid:
  assumes "execute_settle t n reply s = Some (x, s')" "\<And>v. reply \<noteq> DisburseOk v"
  shows "s' = settle_reservation (tt_proposal_id t)
    (case reply of DisburseErr e \<Rightarrow> if e = DisbursementProposalIdRetired then RetiredNotExecuted
        else if tt_attempt t = Fresh then ReservationFailed else OutcomeUnknown
     | _ \<Rightarrow> OutcomeUnknown) s"
proof (cases reply)
  case (DisburseErr e)
  then show ?thesis
    using assms(1)
    by (cases e; cases "tt_attempt t") (auto simp: execute_settle_def Let_def)
qed (use assms in \<open>auto simp: execute_settle_def Let_def\<close>)

lemma answer_cases:
  assumes "pool_answers w t a reply w1" "\<And>v. reply \<noteq> DisburseOk v"
    "st = (case reply of DisburseErr e \<Rightarrow> if e = DisbursementProposalIdRetired then RetiredNotExecuted
        else if tt_attempt t = Fresh then ReservationFailed else OutcomeUnknown
     | _ \<Rightarrow> OutcomeUnknown)"
  shows "tw_ambiguous w1 \<and> tw_calls w1 = tw_calls w
    \<or> st = OutcomeUnknown \<and> w1 = w
    \<or> st = RetiredNotExecuted \<and> tw_paid w (tt_proposal_id t) = None
        \<and> w1 = w\<lparr> tw_dead := insert (tt_proposal_id t) (tw_dead w) \<rparr>
    \<or> st = ReservationFailed \<and> tt_attempt t = Fresh \<and> tw_paid w (tt_proposal_id t) = None
        \<and> w1 = w\<lparr> tw_calls := tw_calls w - {a} \<rparr>"
  using assms(1)
proof cases
  case (pa_ok r)
  then show ?thesis using assms(2) by simp
next
  case (pa_definite e)
  then show ?thesis using assms(3) by simp
qed (simp_all add: assms(3))

lemma answer_frame:
  assumes "pool_answers w t a reply w1"
  shows "tw_state w1 = tw_state w" "tw_now w1 = tw_now w" "tw_paid w1 = tw_paid w"
    "tw_credited w1 = tw_credited w" "tw_calls w1 \<subseteq> tw_calls w" "tw_waiting w1 = tw_waiting w"
  using assms by (cases; simp; blast)+

lemma inv_unpaid:
  assumes inv: "treasury_inv w" and wt: "AwaitDisburse t n a \<in> set (tw_waiting w)"
    and ans: "pool_answers w t a reply w1" and nok: "\<And>v. reply \<noteq> DisburseOk v"
    and set: "execute_settle t n reply (tw_state w) = Some (x, s)"
  shows "treasury_inv (w1\<lparr> tw_state := s, tw_waiting := remove1 (AwaitDisburse t n a) (tw_waiting w) \<rparr>)"
proof -
  note I = treasury_invD [OF inv]
  let ?pid = "tt_proposal_id t" and ?wt = "AwaitDisburse t n a"
  define st where "st = (case reply of DisburseErr e \<Rightarrow> if e = DisbursementProposalIdRetired then RetiredNotExecuted
        else if tt_attempt t = Fresh then ReservationFailed else OutcomeUnknown
     | _ \<Rightarrow> OutcomeUnknown)"
  obtain r where r: "resv (tw_state w) ?pid = Some r" "is_active (ir_status r)" "turn_ok (tw_state w) (tw_now w) ?wt"
    by (rule waiting_parts [OF inv wt], rule that) (assumption | simp)+
  have pid: "td_proposal_id a = ?pid"
    using r(3) I(1) by (auto simp: turn_ok_def Let_def args_ok_def base_ok_def prop_ok_def)
  note frame = answer_frame [OF ans] and cases = answer_cases [OF ans nok st_def]
  have dis: "st \<noteq> ReservationExecuted" by (simp add: st_def split: disburse_reply.split)
  define w' where "w' = w1\<lparr> tw_state := s, tw_waiting := remove1 ?wt (tw_waiting w) \<rparr>"
  have w': "tw_state w' = settle_reservation (wait_id ?wt) st (tw_state w)" "tw_now w' = tw_now w"
    "tw_waiting w' = remove1 ?wt (tw_waiting w)" "tw_paid w' = tw_paid w"
    "tw_credited w' = tw_credited w" "tw_calls w' \<subseteq> tw_calls w"
    using settle_not_paid [OF set nok] frame by (simp_all add: w'_def st_def)
  have c': "tw_calls w' = tw_calls w1" "tw_dead w' = tw_dead w1" "tw_ambiguous w' = tw_ambiguous w1"
    by (simp_all add: w'_def)
  have "treasury_inv w'"
  proof (rule inv_settle [OF inv wt _ dis w'])
    show "resv (tw_state w) (wait_id ?wt) = Some r" using r(1) by simp
    assume "\<not> tw_ambiguous w'"
    then have na: "\<not> tw_ambiguous w1" using c' by simp
    then have nw: "\<not> tw_ambiguous w" using cases by auto
    note cl = I(5) [OF nw]
    note K = clearD(1) [OF cl, of ?pid, unfolded r(1)]
    have own: "tt_attempt t = Fresh \<Longrightarrow> \<forall>a' \<in> tw_calls w. td_proposal_id a' = ?pid \<longrightarrow> a' = a"
      using clearD(2) [OF cl wt] by (simp add: wait_clear_def)
    have "agree_off ?pid (tw_calls w) (tw_calls w1) \<and> (\<forall>x. x \<noteq> ?pid \<longrightarrow> (x \<in> tw_dead w1 \<longleftrightarrow> x \<in> tw_dead w))
      \<and> pid_clear (Some (r\<lparr> ir_status := st \<rparr>)) (tw_calls w1) (tw_paid w) (tw_dead w1) ?pid"
      using cases na
    proof (elim disjE conjE)
      assume "st = OutcomeUnknown" "w1 = w"
      then show ?thesis using K r(2) by (auto simp: pid_clear_Some is_active_def)
    next
      assume "st = RetiredNotExecuted" "tw_paid w ?pid = None" "w1 = w\<lparr> tw_dead := insert ?pid (tw_dead w) \<rparr>"
      then show ?thesis using K by (auto simp: pid_clear_Some)
    next
      assume "st = ReservationFailed" "tt_attempt t = Fresh" "tw_paid w ?pid = None"
        "w1 = w\<lparr> tw_calls := tw_calls w - {a} \<rparr>"
      then show ?thesis using own pid by (auto simp: pid_clear_Some)
    qed simp
    then show "\<not> tw_ambiguous w \<and> agree_off (wait_id ?wt) (tw_calls w) (tw_calls w')
      \<and> (\<forall>x. x \<noteq> wait_id ?wt \<longrightarrow> (x \<in> tw_dead w' \<longleftrightarrow> x \<in> tw_dead w))
      \<and> pid_clear (Some (r\<lparr> ir_status := st \<rparr>)) (tw_calls w') (tw_paid w) (tw_dead w') (wait_id ?wt)"
      using nw c' by simp
  qed
  then show ?thesis by (simp add: w'_def)
qed

lemma inv_pay:
  assumes inv: "treasury_inv w" and a: "a \<in> tw_calls w" "td_proposal_id a = pid" "tw_paid w pid = None"
    "pid \<notin> tw_dead w"
  shows "treasury_inv (w\<lparr> tw_paid := (tw_paid w)(pid \<mapsto> a) \<rparr>)"
proof -
  note I = treasury_invD [OF inv]
  let ?paid = "(tw_paid w)(pid \<mapsto> a)"
  have t: "touched (tw_calls w) ?paid = touched (tw_calls w) (tw_paid w)"
    using a by (auto simp: touched_def fun_eq_iff)
  have "calls_ok (tw_state w) (tw_now w) (tw_calls w) ?paid" using I(3) a by (auto simp: calls_ok_def)
  moreover have "clear (tw_state w) (tw_waiting w) (tw_calls w) ?paid (tw_dead w)" if "\<not> tw_ambiguous w"
  proof -
    note cl = I(5) [OF that]
    have "pid_clear (resv (tw_state w) x) (tw_calls w) ?paid (tw_dead w) x" for x
    proof (cases "x = pid")
      case True
      obtain r where r: "resv (tw_state w) pid = Some r"
        using clearD(1) [OF cl, of pid] a by (auto simp: pid_clear_def)
      have "ir_status r \<noteq> RetiredNotExecuted" "ir_status r \<noteq> ReservationFailed"
        using clearD(1) [OF cl, of pid] a by (auto simp: r pid_clear_Some)
      then have "is_active (ir_status r) \<or> ir_status r = ReservationExecuted"
        by (cases "ir_status r") (simp_all add: is_active_def)
      then show ?thesis using clearD(1) [OF cl, of pid] a True by (auto simp: r pid_clear_Some)
    qed (use clearD(1) [OF cl, of x] in \<open>simp add: pid_clear_def\<close>)
    moreover have "wait_clear (tw_calls w) ?paid v" if "v \<in> set (tw_waiting w)" for v
      using clearD(2) [OF cl that] by (cases v) (simp_all add: wait_clear_def t)
    ultimately show ?thesis using cl by (simp add: clear_def t)
  qed
  ultimately show ?thesis using I by (simp add: treasury_inv_def)
qed

lemma inv_clock:
  assumes "treasury_inv w" "tw_now w \<le> n"
  shows "treasury_inv (w\<lparr> tw_now := n \<rparr>)"
  using treasury_invD [OF assms(1)] assms(2) waits_cong [OF _ assms(2), of "tw_state w" "tw_waiting w" "tw_state w"]
    calls_kept [OF _ kept_same assms(2), of "tw_state w"]
  by (simp add: treasury_inv_def)

lemma inv_lost:
  assumes "treasury_inv w"
  shows "treasury_inv (w\<lparr> tw_waiting := remove1 wt (tw_waiting w) \<rparr>)"
  using treasury_invD [OF assms] waits_remove(1) [of _ _ "tw_waiting w" wt]
    clear_fewer [OF _ set_remove1_subset [of wt "tw_waiting w"]]
  by (simp add: treasury_inv_def)

text \<open>Revenue: every bucket with a credit gets it, or nothing changes.\<close>

fun credit_of :: "(string \<times> nat) list \<Rightarrow> string \<Rightarrow> nat" where
  "credit_of [] b = 0"
| "credit_of ((name, amount) # rest) b = (if b = name then amount else credit_of rest b)"

definition credited_lookup :: "(string \<times> nat) list \<Rightarrow> (string, subaccount_balance) fmap \<Rightarrow> string \<Rightarrow> subaccount_balance option" where
  "credited_lookup cs m b =
     map_option (\<lambda>e. e\<lparr> sb_balance := sb_balance e + credit_of cs b \<rparr>) (fmlookup m b)"

lemma staged_lookup:
  assumes "stage_credits m cs = Inr staged" "distinct (map fst cs)"
  shows "(\<forall>b \<in> fst ` set cs. fmlookup m' b = fmlookup m b) \<Longrightarrow>
    fmlookup (foldl (\<lambda>m (name, e). fmupd name e m) m' staged) b
      = (if b \<in> fst ` set cs then credited_lookup cs m b else fmlookup m' b)"
  using assms
proof (induction cs arbitrary: staged m' rule: stage_credits.induct)
  case (2 m name amount rest)
  have d: "distinct (map fst rest)" "name \<notin> fst ` set rest" using "2.prems"(3) by auto
  have tail: "credited_lookup ((name, amount) # rest) m b = credited_lookup rest m b" if "b \<in> fst ` set rest"
    using that d(2) by (auto simp: credited_lookup_def)
  show ?case
  proof (cases "amount = 0 \<or> fmlookup m name = None")
    case True
    then have st: "stage_credits m rest = Inr staged"
      using "2.prems"(2) by (cases "fmlookup m name") (auto split: if_splits)
    have "fmlookup (foldl (\<lambda>m (name, e). fmupd name e m) m' staged) b
        = (if b \<in> fst ` set rest then credited_lookup rest m b else fmlookup m' b)"
      using "2.IH" True st d(1) "2.prems"(1) by (cases "amount = 0") auto
    moreover have "credited_lookup ((name, amount) # rest) m name = fmlookup m name"
      using True by (cases "fmlookup m name") (auto simp: credited_lookup_def)
    ultimately show ?thesis using "2.prems"(1) tail d(2) by auto
  next
    case False
    then obtain e where e: "fmlookup m name = Some e" "amount \<noteq> 0" by auto
    obtain rest' where st: "stage_credits m rest = Inr rest'"
      "staged = (name, e\<lparr> sb_balance := sb_balance e + amount \<rparr>) # rest'"
      "checked_add 128 (sb_balance e) amount = Some (sb_balance e + amount)"
      using "2.prems"(2) e by (auto simp: checked_add_def split: if_splits sum.splits)
    let ?m1 = "fmupd name (e\<lparr> sb_balance := sb_balance e + amount \<rparr>) m'"
    have "fmlookup (foldl (\<lambda>m (name, e). fmupd name e m) ?m1 rest') b
        = (if b \<in> fst ` set rest then credited_lookup rest m b else fmlookup ?m1 b)"
      by (rule "2.IH"(3) [OF e(2) e(1) st(3) _ st(1) d(1)]) (use "2.prems"(1) d(2) in auto)
    then show ?thesis using st(2) e tail d(2) by (auto simp: credited_lookup_def)
  qed
qed simp

lemma credit_many_cases:
  assumes "credit_many cs s = Some (r, s')" "distinct (map fst cs)"
  obtains (refused) e where "r = Inl e" "s' = s"
  | (credited) m where "r = Inr ()" "s' = s\<lparr> ty_subaccounts := m \<rparr>"
      "\<forall>b. fmlookup m b = (if b \<in> fst ` set cs then credited_lookup cs (ty_subaccounts s) b
          else fmlookup (ty_subaccounts s) b)"
proof (cases "stage_credits (ty_subaccounts s) cs")
  case (Inl e)
  then show thesis using assms(1) refused by (auto simp: credit_many_def)
next
  case (Inr staged)
  show thesis
    by (rule credited [of "foldl (\<lambda>m (name, e). fmupd name e m) (ty_subaccounts s) staged"])
       (use assms(1) Inr staged_lookup [OF Inr assms(2), of "ty_subaccounts s"] in \<open>simp_all add: credit_many_def\<close>)
qed

definition only_subaccounts :: "treasury \<Rightarrow> treasury \<Rightarrow> bool" where
  "only_subaccounts s s' \<longleftrightarrow> resv s' = resv s \<and> prop_of s' = prop_of s \<and> ty_shortfalls s' = ty_shortfalls s
    \<and> ty_next_proposal_id s' = ty_next_proposal_id s \<and> ty_next_proposal_cell s' = ty_next_proposal_cell s
    \<and> (\<forall>b. fmlookup (ty_subaccounts s') b = None \<longleftrightarrow> fmlookup (ty_subaccounts s) b = None)"

lemma only_subaccounts_simps:
  "only_subaccounts s s"
  "(\<forall>b. fmlookup m b = None \<longleftrightarrow> fmlookup (ty_subaccounts s) b = None) \<Longrightarrow> only_subaccounts s (s\<lparr> ty_subaccounts := m,
     ty_fee_index_cell := c, ty_fee_log_index := i, ty_fee_log := l \<rparr>)"
  by (simp_all add: only_subaccounts_def resv_def prop_of_def fun_eq_iff)

abbreviation split_list :: "nat \<Rightarrow> nat \<Rightarrow> nat \<Rightarrow> (string \<times> nat) list" where
  "split_list ops ins stk \<equiv> [(''operations'', ops), (''insurance'', ins), (''staking_rewards'', stk)]"

lemma receive_fee_split_cases:
  assumes "receive_fee_split caller source ops ins stk ts s = Some (r, s')"
  obtains (refused) e where "r = Inl e" "s' = s"
  | (credited) s1 idx entry where "r = Inr ()" "credit_many (split_list ops ins stk) s = Some (Inr (), s1)"
      "s' = s1\<lparr> ty_fee_index_cell := Some [idx], ty_fee_log_index := idx, ty_fee_log := entry \<rparr>"
proof (cases "ty_pool s = Some caller")
  case False
  then show thesis using assms refused
    by (cases "ty_pool s") (auto simp: receive_fee_split_def)
next
  case pool: True
  show thesis
  proof (cases "credit_many (split_list ops ins stk) s")
    case None
    then show thesis using assms pool by (simp add: receive_fee_split_def bind_act_def)
  next
    case (Some x)
    obtain v s1 where x: "x = (v, s1)" by (cases x)
    have d: "distinct (map fst (split_list ops ins stk))" by simp
    from Some [unfolded x] d show thesis
    proof (cases rule: credit_many_cases)
      case (refused e)
      then show thesis using assms pool Some x that(1) [of e] by (auto simp: receive_fee_split_def bind_act_def)
    next
      case (credited m)
      then have c: "credit_many (split_list ops ins stk) s = Some (Inr (), s1)" using Some x by simp
      show thesis
        using assms pool that(2) [OF _ c]
        by (cases "bump_counter (ty_fee_log_index s1)")
           (auto simp: receive_fee_split_def bind_step [where m = "credit_many (split_list ops ins stk)", OF c] c alloc_fee_log_index_def Let_def bind_act_def)
    qed
  qed
qed

lemma receive_fee_split_effect:
  assumes "receive_fee_split caller source ops ins stk ts s = Some (r, s')"
  shows "only_subaccounts s s'"
    and "(\<And>b. reserve_bucket_for b \<noteq> None \<Longrightarrow> fmlookup (ty_subaccounts s) b \<noteq> None) \<Longrightarrow>
      bucket_balance b s' = bucket_balance b s + (case r of Inl _ \<Rightarrow> 0 | Inr _ \<Rightarrow> split_credit ops ins stk b)"
proof -
  let ?cs = "split_list ops ins stk"
  have "only_subaccounts s s' \<and> ((\<forall>b. reserve_bucket_for b \<noteq> None \<longrightarrow> fmlookup (ty_subaccounts s) b \<noteq> None) \<longrightarrow>
      bucket_balance b s' = bucket_balance b s + (case r of Inl _ \<Rightarrow> 0 | Inr _ \<Rightarrow> split_credit ops ins stk b))"
    using assms
  proof (cases rule: receive_fee_split_cases)
    case (credited s1 idx entry)
    have d: "distinct (map fst ?cs)" by simp
    from credited(2) d show ?thesis
    proof (cases rule: credit_many_cases)
      case (credited m)
      have look: "fmlookup m b = (if b \<in> fst ` set ?cs then credited_lookup ?cs (ty_subaccounts s) b
          else fmlookup (ty_subaccounts s) b)" for b using credited(3) by simp
      have dom: "\<forall>b. fmlookup m b = None \<longleftrightarrow> fmlookup (ty_subaccounts s) b = None"
        by (simp add: look credited_lookup_def)
      have s': "s' = s\<lparr> ty_subaccounts := m, ty_fee_index_cell := Some [idx], ty_fee_log_index := idx, ty_fee_log := entry \<rparr>"
        using \<open>s' = _\<close> credited(2) by simp
      have "bucket_balance b s' = bucket_balance b s + split_credit ops ins stk b"
        if "\<forall>b. reserve_bucket_for b \<noteq> None \<longrightarrow> fmlookup (ty_subaccounts s) b \<noteq> None"
      proof (cases "b \<in> fst ` set ?cs")
        case True
        then have "reserve_bucket_for b \<noteq> None" by (auto simp: reserve_bucket_for_def)
        with that have "fmlookup (ty_subaccounts s) b \<noteq> None" by blast
        then obtain e where "fmlookup (ty_subaccounts s) b = Some e" by blast
        then show ?thesis using look [of b] True
          by (auto simp: s' bucket_balance_def credited_lookup_def split_credit_def)
      next
        case False
        then show ?thesis using look [of b] by (simp add: s' bucket_balance_def split_credit_def)
      qed
      then show ?thesis using only_subaccounts_simps(2) [OF dom] \<open>r = Inr ()\<close> by (simp add: s')
    qed simp
  qed (simp add: only_subaccounts_simps)
  then show "only_subaccounts s s'"
    and "(\<And>b. reserve_bucket_for b \<noteq> None \<Longrightarrow> fmlookup (ty_subaccounts s) b \<noteq> None) \<Longrightarrow>
      bucket_balance b s' = bucket_balance b s + (case r of Inl _ \<Rightarrow> 0 | Inr _ \<Rightarrow> split_credit ops ins stk b)"
    by blast+
qed

text \<open>States that differ only in the balances.\<close>

lemma only_subaccounts_frame:
  assumes "only_subaccounts s s'"
  shows "base_ok s \<Longrightarrow> base_ok s'" "waits_ok s now W \<Longrightarrow> waits_ok s' now W" "calls_ok s now C paid \<Longrightarrow> calls_ok s' now C paid"
    "weight_sum P b s' = weight_sum P b s" "shortfall_of b s' = shortfall_of b s" "overflowed b s' = overflowed b s"
    "(\<And>b. bucket_balance b s \<le> bucket_balance b s') \<Longrightarrow> clear s W C paid dead \<Longrightarrow> clear s' W C paid dead"
proof -
  have same: "resv s' = resv s" "prop_of s' = prop_of s" "ty_shortfalls s' = ty_shortfalls s"
    "ty_next_proposal_id s' = ty_next_proposal_id s" "ty_next_proposal_cell s' = ty_next_proposal_cell s"
    "\<And>b. fmlookup (ty_subaccounts s') b = None \<longleftrightarrow> fmlookup (ty_subaccounts s) b = None"
    using assms by (simp_all add: only_subaccounts_def)
  have w: "weight_sum P b s' = weight_sum P b s" for P b
    by (rule weight_sum_cong) (simp add: weight_def same)
  show "weight_sum P b s' = weight_sum P b s" by (rule w)
  show "base_ok s \<Longrightarrow> base_ok s'" by (simp add: base_ok_def prop_ok_def resv_ok_def same)
  show "waits_ok s now W \<Longrightarrow> waits_ok s' now W" by (rule waits_cong [OF _ order_refl]) (simp_all add: same)
  show "calls_ok s now C paid \<Longrightarrow> calls_ok s' now C paid" by (rule calls_kept [OF _ kept_same order_refl]) (simp_all add: same)
  show "shortfall_of b s' = shortfall_of b s" "overflowed b s' = overflowed b s"
    by (simp_all add: shortfall_of_def overflowed_def same)
  show "(\<And>b. bucket_balance b s \<le> bucket_balance b s') \<Longrightarrow> clear s W C paid dead \<Longrightarrow> clear s' W C paid dead"
    by (simp add: clear_def same w) (blast intro: order_trans)
qed

lemma inv_revenue:
  assumes inv: "treasury_inv w"
    and rev: "receive_fee_split caller source ops ins stk ts (tw_state w) = Some (r, s)"
  shows "treasury_inv (w\<lparr> tw_state := s, tw_credited :=
      (case r of Inl _ \<Rightarrow> tw_credited w | Inr _ \<Rightarrow> (\<lambda>b. tw_credited w b + split_credit ops ins stk b)) \<rparr>)"
proof -
  note I = treasury_invD [OF inv]
  have only: "only_subaccounts (tw_state w) s" by (rule receive_fee_split_effect(1) [OF rev])
  note F = only_subaccounts_frame [OF only]
  have bal: "bucket_balance b s = bucket_balance b (tw_state w) + (case r of Inl _ \<Rightarrow> 0 | Inr _ \<Rightarrow> split_credit ops ins stk b)" for b
    by (rule receive_fee_split_effect(2) [OF rev]) (use I(1) in \<open>simp add: base_ok_def\<close>)
  have "accounts_ok s (case r of Inl _ \<Rightarrow> tw_credited w | Inr _ \<Rightarrow> (\<lambda>b. tw_credited w b + split_credit ops ins stk b))"
    using I(4) by (cases r) (simp_all add: accounts_ok_def bal F(4-6) spent_def)
  moreover have "bucket_balance b (tw_state w) \<le> bucket_balance b s" for b by (simp add: bal)
  ultimately show ?thesis using I(5) F(1) [OF I(1)] F(2) [OF I(2)] F(3) [OF I(3)] F(7)
    by (simp add: treasury_inv_def)
qed

lemma propose_effect:
  assumes "propose_withdrawal now caller name recipient amount description s = Some (r, s')"
  obtains p where "prop_of s' = (prop_of s)(ty_next_proposal_id s \<mapsto> p)" "resv s' = resv s"
    "ty_subaccounts s' = ty_subaccounts s" "ty_shortfalls s' = ty_shortfalls s"
    "ty_next_proposal_id s' = ty_next_proposal_id s + 1" "ty_next_proposal_cell s' = Some [ty_next_proposal_id s']"
    "wp_id p = ty_next_proposal_id s" "wp_execute_after_ns p = wp_created_at_ns p + timelock_of p"
    "wp_status p = ProposalPending" "amount \<le> bucket_balance name s"
proof -
  have c: "ty_controller s = Some caller" "amount \<le> bucket_balance name s"
    using assms by (auto simp: propose_withdrawal_def assert_controller_def bind_act_def not_less split: if_splits)
  define tl where "tl = (if name = ''insurance'' then INSURANCE_WITHDRAWAL_TIMELOCK_NS else WITHDRAWAL_TIMELOCK_NS)"
  have b: "bump_counter (ty_next_proposal_id s) = Some (ty_next_proposal_id s + 1)"
    using assms c by (auto simp: propose_withdrawal_def assert_controller_def bind_act_def alloc_proposal_id_def
        bump_counter_def checked_add_def Let_def split: if_splits)
  have t: "checked_add 64 now tl = Some (now + tl)"
    using assms c b by (auto simp: propose_withdrawal_def assert_controller_def bind_act_def alloc_proposal_id_def
        checked_add_def Let_def tl_def split: if_splits)
  let ?p = "\<lparr> wp_id = ty_next_proposal_id s, wp_proposer = caller, wp_subaccount_name = name,
    wp_recipient = recipient, wp_amount = amount, wp_description = description,
    wp_created_at_ns = now, wp_execute_after_ns = now + tl, wp_status = ProposalPending \<rparr>"
  have s': "s' = s\<lparr> ty_next_proposal_cell := Some [ty_next_proposal_id s + 1],
      ty_next_proposal_id := ty_next_proposal_id s + 1, ty_proposals := fmupd (ty_next_proposal_id s) ?p (ty_proposals s) \<rparr>"
    using assms c b t by (simp add: propose_withdrawal_def assert_controller_def bind_act_def alloc_proposal_id_def
        Let_def tl_def [symmetric])
  show thesis
  proof (rule that)
    show "prop_of s' = (prop_of s)(ty_next_proposal_id s \<mapsto> ?p)" "resv s' = resv s"
      by (simp_all add: s' fun_eq_iff prop_of_def resv_def)
    show "wp_execute_after_ns ?p = wp_created_at_ns ?p + timelock_of ?p" by (simp add: timelock_of_def tl_def)
  qed (use c in \<open>simp_all add: s'\<close>)
qed

lemma inv_propose:
  assumes inv: "treasury_inv w"
    and pw: "propose_withdrawal (tw_now w) caller name recipient amount description (tw_state w) = Some (r, s)"
  shows "treasury_inv (w\<lparr> tw_state := s \<rparr>)"
proof -
  note I = treasury_invD [OF inv]
  let ?s = "tw_state w" let ?next = "ty_next_proposal_id ?s"
  obtain p where p: "prop_of s = (prop_of ?s)(?next \<mapsto> p)" "resv s = resv ?s"
    "ty_subaccounts s = ty_subaccounts ?s" "ty_shortfalls s = ty_shortfalls ?s"
    "ty_next_proposal_id s = ?next + 1" "ty_next_proposal_cell s = Some [ty_next_proposal_id s]"
    "wp_id p = ?next" "wp_execute_after_ns p = wp_created_at_ns p + timelock_of p" "wp_status p = ProposalPending"
    by (rule propose_effect [OF pw]) (rule that)
  have old: "x < ?next" if "prop_of ?s x \<noteq> None" for x
    using that I(1) by (auto simp: base_ok_def prop_ok_def)
  have same: "prop_of s x = prop_of ?s x" if "prop_of ?s x \<noteq> None" for x
    using old [OF that] by (simp add: p(1))
  have w: "weight_sum P b s = weight_sum P b ?s" for P b
    by (rule weight_sum_cong) (simp add: weight_def p(2))
  have reads: "bucket_balance b s = bucket_balance b ?s" "overflowed b s = overflowed b ?s"
    "shortfall_of b s = shortfall_of b ?s" for b
    by (simp_all add: bucket_balance_def overflowed_def shortfall_of_def p(3,4))
  have "prop_ok s x q" if "prop_of s x = Some q" for x q
  proof (cases "x = ?next")
    case True
    then show ?thesis using that p by (simp add: prop_ok_def)
  next
    case False
    then have "prop_ok ?s x q" using that I(1) by (simp add: p(1) base_ok_def)
    then show ?thesis by (simp add: prop_ok_def p(2,5))
  qed
  moreover have "resv_ok s x q" if "resv s x = Some q" for x q
  proof -
    have "resv_ok ?s x q" using that I(1) by (simp add: base_ok_def p(2))
    then show ?thesis using same [of x] by (auto simp: resv_ok_def)
  qed
  ultimately have "base_ok s" using I(1) p(3,6) by (simp add: base_ok_def)
  moreover have "waits_ok s (tw_now w) (tw_waiting w)"
    by (rule waits_cong [OF I(2) order_refl]) (use I(2) same p(2) in \<open>auto simp: waits_ok_def turn_ok_def Let_def\<close>)
  moreover have "calls_ok s (tw_now w) (tw_calls w) (tw_paid w)"
  proof (rule calls_kept [OF I(3) _ order_refl])
    have "\<exists>st. q = q\<lparr> wp_status := st \<rparr>" for q :: withdrawal_proposal
      by (intro exI [of _ "wp_status q"]) simp
    then show "kept ?s s" using same by (simp add: kept_def)
  qed
  moreover have "accounts_ok s (tw_credited w)" using I(4) by (simp add: accounts_ok_def reads spent_def w)
  moreover have "clear s (tw_waiting w) (tw_calls w) (tw_paid w) (tw_dead w)" if "\<not> tw_ambiguous w"
    using I(5) [OF that] by (simp add: clear_def p(2,4) w reads)
  ultimately show ?thesis by (simp add: treasury_inv_def)
qed

lemma reject_effect:
  assumes "reject_proposal caller pid s = Some (r, s')"
  obtains "s' = s"
  | p where "prop_of s pid = Some p" "wp_status p = ProposalPending" "\<not> reservation_is_inflight pid s"
      "s' = update_proposal_status pid ProposalRejected s"
  using assms
  by (auto simp: reject_proposal_def assert_controller_def bind_act_def prop_of_def split: if_splits option.splits)

lemma inv_reject:
  assumes inv: "treasury_inv w" and rej: "reject_proposal caller pid (tw_state w) = Some (r, s)"
  shows "treasury_inv (w\<lparr> tw_state := s \<rparr>)"
  using rej
proof (cases rule: reject_effect)
  case (2 p)
  note I = treasury_invD [OF inv]
  let ?s = "tw_state w"
  have idle: "\<not> is_active (ir_status q)" if "resv ?s pid = Some q" for q
    using 2(3) that by (simp add: reservation_is_inflight_def resv_def)
  have s: "prop_of s x = (if x = pid then Some (p\<lparr> wp_status := ProposalRejected \<rparr>) else prop_of ?s x)" for x
    using 2 by simp
  have "prop_ok s x q" if "prop_of s x = Some q" for x q
    using that I(1) 2 by (auto simp: s base_ok_def prop_ok_def split: if_splits)
  moreover have "resv_ok s x q" if "resv s x = Some q" for x q
  proof -
    have x: "resv ?s x = Some q" using that 2(4) by simp
    then have "resv_ok ?s x q" using I(1) by (simp add: base_ok_def)
    then show ?thesis using 2(1,2) idle x by (cases "x = pid") (auto simp: resv_ok_def s)
  qed
  ultimately have "base_ok s" using I(1) by (simp add: base_ok_def 2(4))
  moreover have "waits_ok s (tw_now w) (tw_waiting w)"
  proof (rule waits_cong [OF I(2) order_refl])
    fix wt assume wt: "wt \<in> set (tw_waiting w)"
    have "\<exists>q. resv ?s (wait_id wt) = Some q \<and> is_active (ir_status q)"
      using waiting_parts [OF inv wt] by metis
    then have "wait_id wt \<noteq> pid" using idle by auto
    then show "resv s (wait_id wt) = resv ?s (wait_id wt) \<and> prop_of s (wait_id wt) = prop_of ?s (wait_id wt)"
      by (simp add: 2(4))
  qed
  moreover have "calls_ok s (tw_now w) (tw_calls w) (tw_paid w)"
    unfolding 2(4) by (rule calls_kept [OF I(3) kept_status order_refl])
  moreover have "accounts_ok s (tw_credited w)" using I(4) by (simp add: accounts_ok_def spent_def 2(4))
  moreover have "clear s (tw_waiting w) (tw_calls w) (tw_paid w) (tw_dead w)" if "\<not> tw_ambiguous w"
    using I(5) [OF that] by (simp add: clear_def 2(4))
  ultimately show ?thesis by (simp add: treasury_inv_def)
qed (use inv in simp)

text \<open>The upgrade: every reservation in an execution becomes unknown, nothing else changes.\<close>

lemma settle_resv:
  "resv (settle_reservation k st s) x
     = (if x = k then map_option (\<lambda>r. r\<lparr> ir_status := st \<rparr>) (resv s x) else resv s x)"
  by (cases "resv s k") (auto simp: settle_reservation_def resv_def put_reservation_def)

lemma foldl_settle:
  "resv (foldl (\<lambda>s k. settle_reservation k st s) s ks) x
     = (if x \<in> set ks then map_option (\<lambda>r. r\<lparr> ir_status := st \<rparr>) (resv s x) else resv s x)"
proof (induction ks arbitrary: s)
  case (Cons k ks)
  show ?case
    unfolding foldl_Cons Cons.IH settle_resv
    by (cases "x = k") (simp_all add: option.map_comp o_def)
qed simp

lemma settle_frame: "\<exists>m. settle_reservation k st s = s\<lparr> ty_reservations := m \<rparr>"
proof (cases "fmlookup (ty_reservations s) k")
  case None
  then show ?thesis by (intro exI [of _ "ty_reservations s"]) (simp add: settle_reservation_def)
qed (auto simp: settle_reservation_def put_reservation_def)

lemma foldl_settle_frame:
  "\<exists>m. foldl (\<lambda>s k. settle_reservation k st s) s ks = s\<lparr> ty_reservations := m \<rparr>"
proof (induction ks arbitrary: s)
  case Nil
  then show ?case by (intro exI [of _ "ty_reservations s"]) simp
next
  case (Cons k ks)
  obtain m1 where "settle_reservation k st s = s\<lparr> ty_reservations := m1 \<rparr>" using settle_frame by blast
  moreover obtain m2 where "foldl (\<lambda>s k. settle_reservation k st s) (settle_reservation k st s) ks
      = (settle_reservation k st s)\<lparr> ty_reservations := m2 \<rparr>" using Cons.IH by blast
  ultimately show ?case by (intro exI [of _ m2]) simp
qed

lemma upgrade_effect:
  assumes "post_upgrade_treasury (treasury_heap_lost s) = Some (Inr (), s')" and cell: "ty_next_proposal_cell s = Some [ty_next_proposal_id s]"
  obtains ks where "\<And>x. resv s' x = (if x \<in> ks then map_option (\<lambda>r. r\<lparr> ir_status := OutcomeUnknown \<rparr>) (resv s x) else resv s x)"
    "\<And>x. x \<in> ks \<Longrightarrow> \<exists>r. resv s x = Some r \<and> (ir_status r = Reserved \<or> ir_status r = RetryingUnknown)"
    "prop_of s' = prop_of s" "ty_subaccounts s' = ty_subaccounts s" "ty_shortfalls s' = ty_shortfalls s"
    "ty_next_proposal_id s' = ty_next_proposal_id s" "ty_next_proposal_cell s' = Some [ty_next_proposal_id s']"
proof -
  define ks where "ks = take (MAX_UPGRADE_SCAN + 1) (filter (\<lambda>k. case fmlookup (ty_reservations s) k of
            None \<Rightarrow> False
          | Some r \<Rightarrow> ir_status r = Reserved \<or> ir_status r = RetryingUnknown) (fmkeys (ty_reservations s)))"
  obtain s1 where s1: "resv s1 = resv s" "prop_of s1 = prop_of s" "ty_subaccounts s1 = ty_subaccounts s"
    "ty_shortfalls s1 = ty_shortfalls s" "ty_next_proposal_id s1 = ty_next_proposal_id s"
    "ty_next_proposal_cell s1 = ty_next_proposal_cell s"
    "s' = foldl (\<lambda>s k. settle_reservation k OutcomeUnknown s) s1 ks"
  proof -
    obtain t p c f g where "s' = foldl (\<lambda>s k. settle_reservation k OutcomeUnknown s) (s\<lparr> ty_token := t, ty_pool := p,
        ty_controller := c, ty_next_proposal_id := f, ty_fee_log_index := g \<rparr>) ks" "f = ty_next_proposal_id s"
      using assms(1) cell
      by (auto simp: post_upgrade_treasury_def treasury_heap_lost_def sweep_reserved_reservations_on_upgrade_def Let_def ks_def
          decode_id_counter_def to_width_def split: option.splits list.splits if_splits)
    then show thesis by (intro that) (auto simp: resv_def prop_of_def fun_eq_iff)
  qed
  obtain m where m: "s' = s1\<lparr> ty_reservations := m \<rparr>" using foldl_settle_frame s1(7) by metis
  have live: "\<exists>r. resv s x = Some r \<and> (ir_status r = Reserved \<or> ir_status r = RetryingUnknown)" if "x \<in> set ks" for x
    using in_set_takeD [OF that [unfolded ks_def]] by (auto simp: resv_def split: option.splits)
  have rest: "prop_of s' = prop_of s" "ty_subaccounts s' = ty_subaccounts s" "ty_shortfalls s' = ty_shortfalls s"
    "ty_next_proposal_id s' = ty_next_proposal_id s" "ty_next_proposal_cell s' = Some [ty_next_proposal_id s']"
    using s1(2-6) cell unfolding m by (simp_all add: prop_of_def fun_eq_iff)
  have reads: "resv s' x = (if x \<in> set ks then map_option (\<lambda>r. r\<lparr> ir_status := OutcomeUnknown \<rparr>) (resv s x) else resv s x)" for x
    unfolding s1(7) foldl_settle s1(1) ..
  show thesis by (rule that [OF reads live rest])
qed

lemma inv_upgraded:
  assumes inv: "treasury_inv w" and up: "post_upgrade_treasury (treasury_heap_lost (tw_state w)) = Some (Inr (), s)"
  shows "treasury_inv (w\<lparr> tw_state := s, tw_waiting := [] \<rparr>)"
proof -
  note I = treasury_invD [OF inv]
  let ?s = "tw_state w"
  have "ty_next_proposal_cell ?s = Some [ty_next_proposal_id ?s]" using I(1) by (simp add: base_ok_def)
  from upgrade_effect [OF up this]
  obtain ks where u: "\<And>x. resv s x = (if x \<in> ks then map_option (\<lambda>r. r\<lparr> ir_status := OutcomeUnknown \<rparr>) (resv ?s x) else resv ?s x)"
    "\<And>x. x \<in> ks \<Longrightarrow> \<exists>r. resv ?s x = Some r \<and> (ir_status r = Reserved \<or> ir_status r = RetryingUnknown)"
    "prop_of s = prop_of ?s" "ty_subaccounts s = ty_subaccounts ?s" "ty_shortfalls s = ty_shortfalls ?s"
    "ty_next_proposal_id s = ty_next_proposal_id ?s" "ty_next_proposal_cell s = Some [ty_next_proposal_id s]"
    by metis
  have change: "resv s x = resv ?s x \<or> (\<exists>r. resv ?s x = Some r \<and> resv s x = Some (r\<lparr> ir_status := OutcomeUnknown \<rparr>)
      \<and> (ir_status r = Reserved \<or> ir_status r = RetryingUnknown))" for x
    using u(1) [of x] u(2) [of x] by auto
  have w: "weight_sum P b s = weight_sum P b ?s"
    if "\<forall>x r. ir_status r = Reserved \<or> ir_status r = RetryingUnknown \<longrightarrow> P x (r\<lparr> ir_status := OutcomeUnknown \<rparr>) = P x r" for P b
  proof (rule weight_sum_cong)
    show "weight P b s x = weight P b ?s x" for x
      using change [of x] that by (auto simp: weight_def)
  qed
  have reads: "bucket_balance b s = bucket_balance b ?s" "overflowed b s = overflowed b ?s"
    "shortfall_of b s = shortfall_of b ?s" for b
    by (simp_all add: bucket_balance_def overflowed_def shortfall_of_def u(4,5))
  have "prop_ok s x q" if "prop_of s x = Some q" for x q
  proof -
    have "prop_ok ?s x q" using that I(1) by (simp add: u(3) base_ok_def)
    then show ?thesis using change [of x] by (auto simp: prop_ok_def u(6))
  qed
  moreover have "resv_ok s x q" if "resv s x = Some q" for x q
  proof -
    have "\<And>r. resv ?s x = Some r \<Longrightarrow> resv_ok ?s x r" using I(1) by (simp add: base_ok_def)
    then show ?thesis using change [of x] that by (auto simp: resv_ok_def u(3) is_active_def)
  qed
  ultimately have "base_ok s" using I(1) by (simp add: base_ok_def u(4,7))
  moreover have "calls_ok s (tw_now w) (tw_calls w) (tw_paid w)"
    by (rule calls_kept [OF I(3) kept_same order_refl]) (simp add: u(3))
  moreover have "accounts_ok s (tw_credited w)"
  proof -
    have "spent b s = spent b ?s" for b unfolding spent_def by (rule w) auto
    then show ?thesis using I(4) by (simp add: accounts_ok_def reads)
  qed
  moreover have "clear s [] (tw_calls w) (tw_paid w) (tw_dead w)" if "\<not> tw_ambiguous w"
  proof -
    note cl = I(5) [OF that]
    have "pid_clear (resv s x) (tw_calls w) (tw_paid w) (tw_dead w) x" for x
      using change [of x] clearD(1) [OF cl, of x] by (auto simp: pid_clear_Some is_active_def)
    moreover have "exposed (tw_calls w) (tw_paid w) b s = exposed (tw_calls w) (tw_paid w) b ?s" for b
      by (rule w) (auto simp: is_active_def)
    ultimately show ?thesis using cl by (simp add: clear_def reads u(5))
  qed
  ultimately show ?thesis by (simp add: treasury_inv_def waits_ok_def)
qed

section \<open>Every run\<close>

lemma inv_init:
  "treasury_inv \<lparr> tw_state = init_treasury token pool controller, tw_now = n, tw_waiting = [], tw_calls = {},
    tw_paid = (\<lambda>_. None), tw_dead = {}, tw_credited = (\<lambda>_. 0), tw_ambiguous = False \<rparr>"
proof -
  let ?s = "init_treasury token pool controller"
  have e: "ty_reservations ?s = fmempty" "ty_proposals ?s = fmempty" "ty_shortfalls ?s = fmempty"
    "ty_next_proposal_cell ?s = Some [ty_next_proposal_id ?s]"
    by (simp_all add: init_treasury_def seed_treasury_counters_def set_treasury_refs_def fresh_treasury_def Let_def)
  have r: "resv ?s x = None" "prop_of ?s x = None" for x by (simp_all add: resv_def prop_of_def e)
  have w: "weight_sum P b ?s = 0" for P b by (simp add: weight_sum_def e)
  have "bucket_balance b ?s = 0" for b
    by (simp add: bucket_balance_def init_treasury_def Let_def treasury_bucket_names_def seed_treasury_counters_def
        set_treasury_refs_def fresh_treasury_def)
  moreover have "reserve_bucket_for b \<noteq> None \<Longrightarrow> fmlookup (ty_subaccounts ?s) b \<noteq> None" for b
    by (simp add: reserve_bucket_for_def init_treasury_def Let_def treasury_bucket_names_def seed_treasury_counters_def
        set_treasury_refs_def fresh_treasury_def split: if_splits)
  ultimately show ?thesis
    by (simp add: treasury_inv_def base_ok_def waits_ok_def calls_ok_def accounts_ok_def clear_def pid_clear_def
        touched_def spent_def shortfall_of_def r e w)
qed

lemma inv_step:
  assumes "treasury_step encode w w'" "treasury_inv w"
  shows "treasury_inv w'"
  using assms(1)
proof cases
  case (ts_start caller pid r s)
  show ?thesis
  proof (cases r)
    case (Inl e)
    then have "s = tw_state w" using ts_start(2) execute_start_Inl by blast
    then show ?thesis using ts_start(1) Inl assms(2) by simp
  next
    case (Inr t)
    then show ?thesis using ts_start inv_start [OF assms(2)] by simp
  qed
next
  case (ts_fee t reply r s)
  show ?thesis
  proof (cases r)
    case (Inl e)
    then show ?thesis using ts_fee inv_fee_refused [OF assms(2)] by simp
  next
    case (Inr x)
    then show ?thesis using ts_fee inv_fee_called [OF assms(2)] by (cases x) simp
  qed
next
  case (ts_reply t n a reply w1 r s)
  show ?thesis
  proof (cases "\<exists>v. reply = DisburseOk v")
    case True
    then obtain v where v: "reply = DisburseOk v" by blast
    then consider (paid) "w1 = w" "tw_paid w (tt_proposal_id t) = Some a" | (untrue) "w1 = w\<lparr> tw_ambiguous := True \<rparr>"
      using ts_reply(3) by (auto elim: pool_answers.cases)
    then show ?thesis
    proof cases
      case paid
      then show ?thesis using ts_reply v inv_paid [OF assms(2)] by simp
    next
      case untrue
      then show ?thesis using ts_reply v inv_paid [OF inv_flagged [OF assms(2)]] by simp
    qed
  next
    case False
    then show ?thesis using ts_reply inv_unpaid [OF assms(2)] by simp
  qed
qed (use assms(2) in \<open>simp_all add: inv_clock inv_revenue inv_propose inv_pay inv_lost inv_reject inv_upgraded\<close>)

lemma inv_run: "treasury_run encode w \<Longrightarrow> treasury_inv w"
  by (induction rule: treasury_run.induct) (auto intro: inv_init inv_step)

end
