(* ===== verification/Treasury_Properties.thy ===== *)
theory Treasury_Properties
  imports Treasury_Invariant
begin

text \<open>
  The properties of the treasury over every run of \<^verbatim>\<open>Treasury_Runs\<close>, and a concrete run for their
  witnesses: 100 units of revenue, a proposal of 50, its execution after the timelock, and the two ways the
  pool may answer.
\<close>

section \<open>A concrete run\<close>

definition exw_encode :: "nat \<times> string \<times> principal \<times> nat \<Rightarrow> bytes" where
  "exw_encode = (\<lambda>_. [1, 2, 3])"

definition exw_later :: nat where "exw_later = WITHDRAWAL_TIMELOCK_NS + 10"

text \<open>The treasury with a balance in the operations bucket, the proposal, its reservation and the next id.\<close>

definition exw_log :: fee_log_entry where
  "exw_log = \<lparr> fl_timestamp_ns = 5, fl_source = UnshieldFee, fl_total_amount = 100, fl_operations = 100,
     fl_insurance = 0, fl_audit = 0, fl_staking = 0 \<rparr>"

definition exw_state ::
  "nat \<Rightarrow> (nat, withdrawal_proposal) fmap \<Rightarrow> (nat, inflight_reservation) fmap \<Rightarrow> nat \<Rightarrow> treasury" where
  "exw_state balance P R next = (init_treasury [1] [2] [3])\<lparr>
     ty_subaccounts := fmupd ''operations'' \<lparr> sb_name = ''operations'', sb_balance = balance \<rparr>
       (ty_subaccounts (init_treasury [1] [2] [3])),
     ty_proposals := P, ty_reservations := R, ty_next_proposal_id := next, ty_next_proposal_cell := Some [next],
     ty_fee_index_cell := Some [1], ty_fee_log_index := 1, ty_fee_log := fmupd 0 exw_log fmempty \<rparr>"

definition exw_proposal :: "proposal_status \<Rightarrow> withdrawal_proposal" where
  "exw_proposal st = \<lparr> wp_id = 1, wp_proposer = [3], wp_subaccount_name = ''operations'', wp_recipient = [9],
     wp_amount = 50, wp_description = ''x'', wp_created_at_ns = 10,
     wp_execute_after_ns = 10 + WITHDRAWAL_TIMELOCK_NS, wp_status = st \<rparr>"

definition exw_reservation :: "reservation_status \<Rightarrow> nat option \<Rightarrow> inflight_reservation" where
  "exw_reservation st enc = \<lparr> ir_proposal_id = 1, ir_args_fingerprint = args_fingerprint exw_encode (exw_proposal ProposalPending),
     ir_reserved_at_ns = exw_later, ir_status = st,
     ir_subaccount_name = (if enc = None then None else Some ''operations''), ir_encumbered_total_debit = enc \<rparr>"

definition exw_at :: "nat \<Rightarrow> proposal_status \<Rightarrow> reservation_status \<Rightarrow> nat option \<Rightarrow> treasury" where
  "exw_at balance p r enc = exw_state balance (fmupd 1 (exw_proposal p) fmempty) (fmupd 1 (exw_reservation r enc) fmempty) 2"

definition exw_turn :: treasury_turn where
  "exw_turn = \<lparr> tt_proposal_id = 1, tt_proposal = exw_proposal ProposalPending, tt_pool = [2], tt_token = [1],
     tt_bucket = OperationsBucket, tt_attempt = Fresh \<rparr>"

definition exw_args :: treasury_disburse_args where
  "exw_args = \<lparr> td_proposal_id = 1, td_bucket = OperationsBucket, td_recipient = [9],
     td_recipient_subaccount = None, td_amount = 50, td_expected_ledger_fee = 2 \<rparr>"

lemma exw_init [simp]:
  "ty_controller (init_treasury t p c) = Some c" "ty_pool (init_treasury t p c) = Some p"
  "ty_token (init_treasury t p c) = Some t" "ty_fee_log_index (init_treasury t p c) = 0"
  "ty_fee_log (init_treasury t p c) = fmempty" "ty_proposals (init_treasury t p c) = fmempty"
  "ty_reservations (init_treasury t p c) = fmempty" "ty_shortfalls (init_treasury t p c) = fmempty"
  "ty_next_proposal_id (init_treasury t p c) = 1" "ty_next_proposal_cell (init_treasury t p c) = Some [1]"
  by (simp_all add: init_treasury_def set_treasury_refs_def seed_treasury_counters_def fresh_treasury_def Let_def)

lemma exw_reads [simp]:
  "ty_controller (exw_state b P R n) = Some [3]" "ty_pool (exw_state b P R n) = Some [2]"
  "ty_token (exw_state b P R n) = Some [1]" "ty_proposals (exw_state b P R n) = P"
  "ty_reservations (exw_state b P R n) = R" "ty_next_proposal_id (exw_state b P R n) = n"
  "bucket_balance ''operations'' (exw_state b P R n) = b"
  "(exw_state b P R n)\<lparr> ty_reservations := R' \<rparr> = exw_state b P R' n"
  "(exw_state b P R n)\<lparr> ty_proposals := P' \<rparr> = exw_state b P' R n"
  by (simp_all add: exw_state_def bucket_balance_def)

lemma exw_propose_state [simp]:
  "(exw_state b P R n)\<lparr> ty_next_proposal_cell := Some [n'], ty_next_proposal_id := n', ty_proposals := P' \<rparr> = exw_state b P' R n'"
  by (rule treasury.equality) (simp_all add: exw_state_def)

lemma exw_keys: "fmkeys (fmupd k v fmempty) = [k]"
  by (simp add: fmkeys_def sorted_list_of_fset.rep_eq)

lemma exw_revenue:
  "receive_fee_split [2] UnshieldFee 100 0 0 5 (init_treasury [1] [2] [3]) = Some (Inr (), exw_state 100 fmempty fmempty 1)"
proof -
  let ?s = "init_treasury [1] [2] [3]"
  have s: "fmlookup (ty_subaccounts ?s) ''operations'' = Some \<lparr> sb_name = ''operations'', sb_balance = 0 \<rparr>"
    by (simp add: init_treasury_def set_treasury_refs_def seed_treasury_counters_def fresh_treasury_def Let_def
        treasury_bucket_names_def)
  let ?s1 = "?s\<lparr> ty_subaccounts := fmupd ''operations'' \<lparr> sb_name = ''operations'', sb_balance = 100 \<rparr> (ty_subaccounts ?s) \<rparr>"
  have c: "credit_many [(''operations'', 100), (''insurance'', 0), (''staking_rewards'', 0)] ?s = Some (Inr (), ?s1)"
    using s by (simp add: credit_many_def checked_add_def)
  have "receive_fee_split [2] UnshieldFee 100 0 0 5 ?s
      = Some (Inr (), ?s1\<lparr> ty_fee_index_cell := Some [1], ty_fee_log_index := 1, ty_fee_log := fmupd 0 exw_log fmempty \<rparr>)"
    by (simp add: receive_fee_split_def bind_act_def c alloc_fee_log_index_def bump_counter_def checked_add_def
        Let_def exw_log_def sat_add_def)
  also have "?s1\<lparr> ty_fee_index_cell := Some [1], ty_fee_log_index := 1, ty_fee_log := fmupd 0 exw_log fmempty \<rparr>
      = exw_state 100 fmempty fmempty 1"
    by (rule treasury.equality) (simp_all add: exw_state_def)
  finally show ?thesis .
qed

lemma exw_propose:
  "propose_withdrawal 10 [3] ''operations'' [9] 50 ''x'' (exw_state 100 fmempty fmempty 1)
     = Some (Inr 1, exw_state 100 (fmupd 1 (exw_proposal ProposalPending) fmempty) fmempty 2)"
  by (simp add: propose_withdrawal_def assert_controller_def bind_act_def alloc_proposal_id_def bump_counter_def
      checked_add_def Let_def exw_proposal_def WITHDRAWAL_TIMELOCK_NS_def numeral_2_eq_2 [symmetric])

lemma exw_start:
  "execute_start exw_encode exw_later [3] 1 (exw_state 100 (fmupd 1 (exw_proposal ProposalPending) fmempty) fmempty 2)
     = Some (Inr exw_turn, exw_at 100 ProposalPending Reserved None)"
  by (simp add: execute_start_def assert_controller_def bind_act_def reservation_is_retired_def need_def
      exw_later_def reserve_bucket_for_def reserve_withdrawal_def put_reservation_def exw_turn_def exw_at_def
      exw_reservation_def) (simp add: exw_proposal_def)

lemma exw_admit:
  "admit_and_encumber 1 ''operations'' 52 100 (exw_at 100 ProposalPending Reserved None)
     = Some (Inr (), exw_at 100 ProposalPending Reserved (Some 52))"
proof -
  have "scan_bucket_encumbrance 1 ''operations'' (exw_at 100 ProposalPending Reserved None) = (Some 0, [])"
    by (simp add: scan_bucket_encumbrance_def exw_at_def exw_keys)
  then show ?thesis
    by (simp add: admit_and_encumber_def bind_act_def checked_add_def)
       (simp add: exw_at_def exw_reservation_def put_reservation_def)
qed

lemma exw_fee:
  "execute_fee exw_turn (Some 2) (exw_at 100 ProposalPending Reserved None)
     = Some (Inr (52, exw_args), exw_at 100 ProposalPending Reserved (Some 52))"
proof -
  have t: "tt_proposal_id exw_turn = 1" "tt_proposal exw_turn = exw_proposal ProposalPending"
    "wp_subaccount_name (exw_proposal ProposalPending) = ''operations''" "wp_amount (exw_proposal ProposalPending) = 50"
    "wp_recipient (exw_proposal ProposalPending) = [9]" "tt_bucket exw_turn = OperationsBucket"
    "tt_attempt exw_turn = Fresh"
    by (simp_all add: exw_turn_def exw_proposal_def)
  have "bucket_balance ''operations'' (exw_at 100 ProposalPending Reserved None) = 100" by (simp add: exw_at_def)
  moreover have "debit_and_fee exw_turn 2 s = Some (Inr (52, 2), s)" for s
    by (simp add: debit_and_fee_def frozen_total_def t checked_add_def)
  ultimately show ?thesis
    using exw_admit by (simp add: execute_fee_def bind_act_def t to_width_def exw_args_def)
qed

lemma exw_settle_ok:
  "execute_settle exw_turn 52 (DisburseOk v) (exw_at 100 ProposalPending Reserved (Some 52))
     = Some (Inr (), exw_at 48 ProposalExecuted ReservationExecuted (Some 52))"
proof -
  have "execute_settle exw_turn 52 (DisburseOk v) (exw_at 100 ProposalPending Reserved (Some 52))
      = Some (Inr (), settled 1 (exw_reservation Reserved (Some 52)) ''operations'' 52 (exw_at 100 ProposalPending Reserved (Some 52)))"
    using settle_paid [of "exw_at 100 ProposalPending Reserved (Some 52)" exw_turn "exw_reservation Reserved (Some 52)" 52 v]
    by (simp add: exw_turn_def exw_at_def exw_proposal_def resv_def exw_reservation_def)
  also have "settled 1 (exw_reservation Reserved (Some 52)) ''operations'' 52 (exw_at 100 ProposalPending Reserved (Some 52))
      = exw_at 48 ProposalExecuted ReservationExecuted (Some 52)"
    by (simp add: settled_def put_reservation_def exw_at_def update_proposal_status_def debit_subaccount_def)
       (simp add: exw_state_def exw_proposal_def exw_reservation_def)
  finally show ?thesis .
qed

lemma exw_settle_err:
  "execute_settle exw_turn 52 (DisburseErr (OtherPoolError e)) (exw_at 100 ProposalPending Reserved (Some 52))
     = Some (Inl (DisburseFailed (OtherPoolError e)), exw_at 100 ProposalPending ReservationFailed (Some 52))"
  by (simp add: execute_settle_def exw_turn_def)
     (simp add: settle_reservation_def put_reservation_def exw_at_def exw_reservation_def)

lemma exw_reject:
  "reject_proposal [3] 1 (exw_at 100 ProposalPending ReservationFailed (Some 52))
     = Some (Inr (Inr ()), exw_at 100 ProposalRejected ReservationFailed (Some 52))"
  by (simp add: reject_proposal_def bind_act_def assert_controller_def exw_at_def reservation_is_inflight_def
      exw_reservation_def is_active_def update_proposal_status_def) (simp add: exw_proposal_def)

text \<open>The worlds of the run.\<close>

definition exw_world ::
  "treasury \<Rightarrow> nat \<Rightarrow> treasury_wait list \<Rightarrow> treasury_disburse_args set \<Rightarrow> treasury_disburse_args option \<Rightarrow> bool
     \<Rightarrow> treasury_world" where
  "exw_world s now W C paid amb = \<lparr> tw_state = s, tw_now = now, tw_waiting = W, tw_calls = C,
     tw_paid = (case paid of None \<Rightarrow> (\<lambda>_. None) | Some a \<Rightarrow> (\<lambda>_. None)(1 \<mapsto> a)), tw_dead = {},
     tw_credited = (\<lambda>b. 0 + split_credit 100 0 0 b), tw_ambiguous = amb \<rparr>"

abbreviation exw_waiting :: "treasury_disburse_args option \<Rightarrow> treasury_world" where
  "exw_waiting paid \<equiv> exw_world (exw_at 100 ProposalPending Reserved (Some 52)) exw_later
     [AwaitDisburse exw_turn 52 exw_args] {exw_args} paid False"

abbreviation exw_settled :: treasury_world where
  "exw_settled \<equiv> exw_world (exw_at 48 ProposalExecuted ReservationExecuted (Some 52)) exw_later [] {exw_args}
     (Some exw_args) False"

lemma exw_run_called: "treasury_run exw_encode (exw_waiting None)"
proof -
  let ?P = "fmupd 1 (exw_proposal ProposalPending) fmempty"
  let ?w0 = "\<lparr> tw_state = init_treasury [1] [2] [3], tw_now = 10, tw_waiting = [], tw_calls = {},
    tw_paid = (\<lambda>_. None), tw_dead = {}, tw_credited = (\<lambda>_. 0), tw_ambiguous = False \<rparr>"
  let ?w1 = "exw_world (exw_state 100 fmempty fmempty 1) 10 [] {} None False"
  let ?w2 = "exw_world (exw_state 100 ?P fmempty 2) 10 [] {} None False"
  let ?w3 = "exw_world (exw_state 100 ?P fmempty 2) exw_later [] {} None False"
  let ?w4 = "exw_world (exw_at 100 ProposalPending Reserved None) exw_later [AwaitLedgerFee exw_turn] {} None False"
  have "treasury_run exw_encode ?w0" by (rule treasury_run.tr_init)
  moreover have "treasury_step exw_encode ?w0 ?w1"
    using treasury_step.ts_revenue [of "[2]" UnshieldFee 100 0 0 5 ?w0 "Inr ()"
        "exw_state 100 fmempty fmempty 1" exw_encode] exw_revenue by (simp add: exw_world_def)
  ultimately have "treasury_run exw_encode ?w1" by (rule treasury_run.tr_step)
  moreover have "treasury_step exw_encode ?w1 ?w2"
    using treasury_step.ts_propose [of ?w1 "[3]" "''operations''" "[9]" 50 "''x''"] exw_propose
    by (simp add: exw_world_def)
  ultimately have "treasury_run exw_encode ?w2" by (rule treasury_run.tr_step)
  moreover have "treasury_step exw_encode ?w2 ?w3"
    using treasury_step.ts_time [of ?w2 exw_later exw_encode] by (simp add: exw_world_def exw_later_def)
  ultimately have "treasury_run exw_encode ?w3" by (rule treasury_run.tr_step)
  moreover have "treasury_step exw_encode ?w3 ?w4"
    using treasury_step.ts_start [of exw_encode ?w3 "[3]" 1] exw_start by (simp add: exw_world_def)
  ultimately have "treasury_run exw_encode ?w4" by (rule treasury_run.tr_step)
  moreover have "treasury_step exw_encode ?w4 (exw_waiting None)"
    using treasury_step.ts_fee [of exw_turn ?w4 "Some 2" "Inr (52, exw_args)"
        "exw_at 100 ProposalPending Reserved (Some 52)" exw_encode] exw_fee by (simp add: exw_world_def)
  ultimately show ?thesis by (rule treasury_run.tr_step)
qed

lemma exw_run_paid: "treasury_run exw_encode (exw_waiting (Some exw_args))"
proof (rule treasury_run.tr_step [OF exw_run_called])
  show "treasury_step exw_encode (exw_waiting None) (exw_waiting (Some exw_args))"
    using treasury_step.ts_pay [of exw_args "exw_waiting None" 1] by (simp add: exw_world_def exw_args_def)
qed

lemma exw_run_settled: "treasury_run exw_encode exw_settled"
proof (rule treasury_run.tr_step [OF exw_run_paid])
  let ?w = "exw_waiting (Some exw_args)"
  have "pool_answers ?w exw_turn exw_args (DisburseOk (DisburseExecuted 4)) ?w"
    by (rule pool_answers.pa_ok) (simp add: exw_world_def exw_turn_def)
  from treasury_step.ts_reply [OF _ this, of 52] exw_settle_ok
  show "treasury_step exw_encode ?w exw_settled" by (simp add: exw_world_def)
qed

text \<open>The same run with an ambiguous error of the pool, a rejection by the controller, and the payment.\<close>

lemma exw_run_answered:
  assumes "pool_answers (exw_waiting None) exw_turn exw_args (DisburseErr (OtherPoolError e))
    (exw_world (exw_at 100 ProposalPending Reserved (Some 52)) exw_later [AwaitDisburse exw_turn 52 exw_args] C None amb)"
  shows "treasury_run exw_encode (exw_world (exw_at 100 ProposalRejected ReservationFailed (Some 52)) exw_later [] C None amb)"
proof -
  let ?w2 = "exw_world (exw_at 100 ProposalPending ReservationFailed (Some 52)) exw_later [] C None amb"
  from treasury_step.ts_reply [OF _ assms, of 52] exw_settle_err
  have "treasury_step exw_encode (exw_waiting None) ?w2" by (simp add: exw_world_def)
  with exw_run_called have "treasury_run exw_encode ?w2" by (rule treasury_run.tr_step)
  moreover have "treasury_step exw_encode ?w2
      (exw_world (exw_at 100 ProposalRejected ReservationFailed (Some 52)) exw_later [] C None amb)"
    using treasury_step.ts_reject [of "[3]" 1 ?w2] exw_reject by (simp add: exw_world_def)
  ultimately show ?thesis by (rule treasury_run.tr_step)
qed

lemma exw_run_refused:
  "treasury_run exw_encode (exw_world (exw_at 100 ProposalRejected ReservationFailed (Some 52)) exw_later [] {exw_args} None True)"
proof (rule exw_run_answered [of "''TransferFailed''"])
  have "pool_answers (exw_waiting None) exw_turn exw_args (DisburseErr (OtherPoolError ''TransferFailed''))
      ((exw_waiting None)\<lparr> tw_ambiguous := True \<rparr>)"
    by (rule pool_answers.pa_ambiguous) (simp_all add: exw_turn_def)
  then show "pool_answers (exw_waiting None) exw_turn exw_args (DisburseErr (OtherPoolError ''TransferFailed''))
      (exw_world (exw_at 100 ProposalPending Reserved (Some 52)) exw_later [AwaitDisburse exw_turn 52 exw_args] {exw_args} None True)"
    by (simp add: exw_world_def)
qed

text \<open>And with an error that means that the pool paid nothing.\<close>

lemma exw_run_dropped:
  "treasury_run exw_encode (exw_world (exw_at 100 ProposalRejected ReservationFailed (Some 52)) exw_later [] {} None False)"
proof (rule exw_run_answered [of "''InsufficientReserve''"])
  have "pool_answers (exw_waiting None) exw_turn exw_args (DisburseErr (OtherPoolError ''InsufficientReserve''))
      ((exw_waiting None)\<lparr> tw_calls := tw_calls (exw_waiting None) - {exw_args} \<rparr>)"
    by (rule pool_answers.pa_definite) (simp_all add: exw_turn_def exw_world_def)
  then show "pool_answers (exw_waiting None) exw_turn exw_args (DisburseErr (OtherPoolError ''InsufficientReserve''))
      (exw_world (exw_at 100 ProposalPending Reserved (Some 52)) exw_later [AwaitDisburse exw_turn 52 exw_args] {} None False)"
    by (simp add: exw_world_def)
qed

section \<open>Properties\<close>

text \<open>C6: The treasury's books balance in every run, whatever the pool answers to an execution, also when
  the answer is not true of what it paid: for each bucket whose shortfall counter has not saturated, what is left plus what executed withdrawals took is the revenue
  credited plus the recorded shortfall. No revenue is lost and none appears, across overlapping
  executions, lost callbacks, retries, rejections and upgrades.\<close>

theorem treasury_conserves:
  assumes "treasury_run encode w" "\<not> overflowed b (tw_state w)"
  shows "bucket_balance b (tw_state w) + spent b (tw_state w) = tw_credited w b + shortfall_of b (tw_state w)"
  using treasury_invD(4) [OF inv_run [OF assms(1)]] assms(2) by (simp add: accounts_ok_def)

theorem treasury_conserves_witness:
  "\<exists>w. treasury_run exw_encode w \<and> bucket_balance ''operations'' (tw_state w) = 48
     \<and> tw_credited w ''operations'' = 100 \<and> spent ''operations'' (tw_state w) = 52"
proof -
  have st: "\<not> overflowed ''operations'' (tw_state exw_settled)" "shortfall_of ''operations'' (tw_state exw_settled) = 0"
    "bucket_balance ''operations'' (tw_state exw_settled) = 48" "tw_credited exw_settled ''operations'' = 100"
    by (simp_all add: exw_world_def exw_at_def overflowed_def shortfall_of_def split_credit_def)
       (simp_all add: exw_state_def)
  have "spent ''operations'' (tw_state exw_settled) = 52"
    using treasury_conserves [OF exw_run_settled st(1)] st(2-4) by simp
  then show ?thesis using exw_run_settled st by blast
qed

text \<open>C4: As long as the pool never answers a fresh attempt ambiguously, nor any attempt against what it
  paid, the treasury can always cover what it owes: no shortfall is ever recorded, whatever executions overlap on a bucket; the payments made
  but not yet debited and the calls the pool may still act on are within the bucket's balance; and every
  executed withdrawal debits exactly what the pool paid, ledger fee included.\<close>

theorem treasury_no_shortfall:
  assumes "treasury_run encode w" "\<not> tw_ambiguous w"
  shows "ty_shortfalls (tw_state w) = fmempty
    \<and> exposed (tw_calls w) (tw_paid w) b (tw_state w) \<le> bucket_balance b (tw_state w)
    \<and> (\<forall>pid r. resv (tw_state w) pid = Some r \<longrightarrow> ir_status r = ReservationExecuted \<longrightarrow>
         (\<exists>a. tw_paid w pid = Some a \<and> ir_encumbered_total_debit r = Some (args_total a)))"
proof -
  have cl: "clear (tw_state w) (tw_waiting w) (tw_calls w) (tw_paid w) (tw_dead w)"
    by (rule treasury_invD(5) [OF inv_run [OF assms(1)] assms(2)])
  have "\<exists>a. tw_paid w pid = Some a \<and> ir_encumbered_total_debit r = Some (args_total a)"
    if "resv (tw_state w) pid = Some r" "ir_status r = ReservationExecuted" for pid r
    using clearD(1) [OF cl, of pid] that by (auto simp: pid_clear_Some)
  then show ?thesis using clearD(3,4) [OF cl] by blast
qed

theorem treasury_no_shortfall_witness:
  "\<exists>w a. treasury_run exw_encode w \<and> tw_paid w 1 = Some a \<and> args_total a = 52"
proof -
  let ?r = "exw_reservation ReservationExecuted (Some 52)"
  have r: "resv (tw_state exw_settled) 1 = Some ?r" "ir_status ?r = ReservationExecuted"
    "ir_encumbered_total_debit ?r = Some 52" "\<not> tw_ambiguous exw_settled"
    by (simp_all add: exw_world_def exw_at_def resv_def exw_reservation_def)
  have "\<exists>a. tw_paid exw_settled 1 = Some a \<and> ir_encumbered_total_debit ?r = Some (args_total a)"
    using treasury_no_shortfall [OF exw_run_settled r(4), of "''operations''"] r(1,2) by blast
  then show ?thesis using exw_run_settled r(3) by auto
qed

text \<open>C33: The pool pays a proposal's id only what the proposal says (bucket, recipient, amount), and only
  after its timelock: seven days after the proposal, fourteen for the insurance bucket.\<close>

theorem treasury_pays_as_approved:
  assumes "treasury_run encode w" "tw_paid w pid = Some a"
  shows "\<exists>p. prop_of (tw_state w) pid = Some p \<and> args_ok p a \<and> wp_id p = pid
    \<and> wp_created_at_ns p + timelock_of p \<le> tw_now w"
proof -
  note I = treasury_invD [OF inv_run [OF assms(1)]]
  have "td_proposal_id a = pid" "call_ok (tw_state w) (tw_now w) a"
    using I(3) assms(2) by (simp_all add: calls_ok_def)
  then obtain p where p: "prop_of (tw_state w) pid = Some p" "args_ok p a" "wp_execute_after_ns p \<le> tw_now w"
    by (auto simp: call_ok_def)
  have "prop_ok (tw_state w) pid p" using I(1) p(1) by (simp add: base_ok_def)
  then show ?thesis using p by (auto simp: prop_ok_def)
qed

theorem treasury_pays_as_approved_witness:
  "\<exists>w a. treasury_run exw_encode w \<and> tw_paid w 1 = Some a \<and> WITHDRAWAL_TIMELOCK_NS \<le> tw_now w"
proof -
  have a: "tw_paid exw_settled 1 = Some exw_args" by (simp add: exw_world_def)
  obtain p where p: "prop_of (tw_state exw_settled) 1 = Some p" "wp_created_at_ns p + timelock_of p \<le> tw_now exw_settled"
    using treasury_pays_as_approved [OF exw_run_settled a] by blast
  have "timelock_of p = WITHDRAWAL_TIMELOCK_NS"
    using p(1) by (auto simp: exw_world_def exw_at_def prop_of_def exw_proposal_def timelock_of_def)
  then show ?thesis using exw_run_settled a p(2) by (intro exI [of _ exw_settled] exI [of _ exw_args]) simp
qed

text \<open>C11: As long as the pool never answers a fresh attempt ambiguously, nor any attempt against what it
  paid, a rejected proposal was not paid and never will be: any call of it that the pool still holds is for an id the pool retired.\<close>

theorem treasury_rejected_never_paid:
  assumes "treasury_run encode w" "\<not> tw_ambiguous w"
    and "prop_of (tw_state w) pid = Some p" "wp_status p = ProposalRejected"
  shows "tw_paid w pid = None \<and> (\<forall>a \<in> tw_calls w. td_proposal_id a = pid \<longrightarrow> pid \<in> tw_dead w)"
proof -
  note I = treasury_invD [OF inv_run [OF assms(1)]]
  note K = clearD(1) [OF I(5) [OF assms(2)], of pid]
  have idle: "ir_status r = ReservationFailed \<or> ir_status r = RetiredNotExecuted" if "resv (tw_state w) pid = Some r" for r
  proof -
    have "resv_ok (tw_state w) pid r" using I(1) that by (simp add: base_ok_def)
    then show ?thesis using assms(3,4) by (cases "ir_status r") (auto simp: resv_ok_def is_active_def)
  qed
  show ?thesis
  proof (cases "resv (tw_state w) pid")
    case (Some r)
    then show ?thesis using K idle [OF Some] by (auto simp: pid_clear_Some is_active_def)
  qed (use K in \<open>auto simp: pid_clear_def\<close>)
qed

theorem treasury_rejected_never_paid_witness:
  "\<exists>w p. treasury_run exw_encode w \<and> prop_of (tw_state w) 1 = Some p \<and> wp_status p = ProposalRejected
     \<and> tw_paid w 1 = None"
proof -
  let ?w = "exw_world (exw_at 100 ProposalRejected ReservationFailed (Some 52)) exw_later [] {} None False"
  have p: "\<not> tw_ambiguous ?w" "prop_of (tw_state ?w) 1 = Some (exw_proposal ProposalRejected)"
    "wp_status (exw_proposal ProposalRejected) = ProposalRejected"
    by (simp_all add: exw_world_def exw_at_def prop_of_def exw_proposal_def)
  from treasury_rejected_never_paid [OF exw_run_dropped p] exw_run_dropped p(2,3) show ?thesis by blast
qed

text \<open>C34: Without that, it fails: \<^verbatim>\<open>execute_withdrawal\<close> settles any error of a fresh attempt as a definite
  failure, so after an error that leaves the pool's own transfer unresolved the proposal can be rejected
  while the pool still pays it, and the bucket is never debited.\<close>

theorem treasury_rejected_but_paid:
  "\<exists>w p a. treasury_run exw_encode w \<and> prop_of (tw_state w) 1 = Some p \<and> wp_status p = ProposalRejected
     \<and> tw_paid w 1 = Some a \<and> args_total a = 52 \<and> bucket_balance ''operations'' (tw_state w) = tw_credited w ''operations''"
proof -
  let ?w = "exw_world (exw_at 100 ProposalRejected ReservationFailed (Some 52)) exw_later [] {exw_args} None True"
  let ?w1 = "exw_world (exw_at 100 ProposalRejected ReservationFailed (Some 52)) exw_later [] {exw_args} (Some exw_args) True"
  have "treasury_step exw_encode ?w ?w1"
    using treasury_step.ts_pay [of exw_args ?w 1] by (simp add: exw_world_def exw_args_def)
  with exw_run_refused have run: "treasury_run exw_encode ?w1" by (rule treasury_run.tr_step)
  have "prop_of (tw_state ?w1) 1 = Some (exw_proposal ProposalRejected)" "tw_paid ?w1 1 = Some exw_args"
    "bucket_balance ''operations'' (tw_state ?w1) = 100" "tw_credited ?w1 ''operations'' = 100"
    by (simp_all add: exw_world_def exw_at_def prop_of_def split_credit_def)
  moreover have "wp_status (exw_proposal ProposalRejected) = ProposalRejected" "args_total exw_args = 52"
    by (simp_all add: exw_proposal_def exw_args_def args_total_def)
  ultimately show ?thesis using run by metis
qed

end
