(* ===== verification/Pool_Disburse.thy ===== *)
theory Pool_Disburse
  imports Treasury Icrc_Ledger
begin

text \<open>
  The pool's side of a treasury withdrawal (\<^verbatim>\<open>shielded-pool/src/lib.rs\<close>): \<^verbatim>\<open>treasury_disburse\<close>, cut at the fee
  query, the balance query and the ledger transfer; its idempotency records; the controller's
  reconciliation with its tombstones; and the treatment of the records at an upgrade. The arguments and
  the result are the types the treasury mirrors.
\<close>

section \<open>Data\<close>

text \<open>\<open>LegacyPending\<close> is only found in records of old builds.\<close>

datatype treasury_disbursement_status =
    LegacyPending | PendingValidation | PendingTransfer | DisbursedAt nat | TransportUnknown

record treasury_disbursement =
  di_proposal_id :: nat
  di_bucket :: treasury_reserve_bucket
  di_recipient :: principal
  di_recipient_subaccount :: "bytes option"
  di_amount :: nat
  di_expected_ledger_fee :: nat
  di_status :: treasury_disbursement_status
  di_created_at_ns :: nat
  di_ledger_created_at :: "nat option"

datatype reconciliation_decision = DecidedExecuted | DecidedNotExecuted

record reconciliation_tombstone =
  rt_disbursement :: treasury_disbursement
  rt_memo :: bytes
  rt_decision :: reconciliation_decision
  rt_asserted_block_index :: "nat option"
  rt_reconciler :: principal
  rt_reconciled_at_ns :: nat

datatype disburse_pool_error =
    PoolNotInitialised | NotTreasury | PoolIdConflict | PoolIdRetired
  | StuckLegacyPending | ValidationInProgress | TransferInProgress | OutcomeUnresolved
  | PoolSumOverflow | LedgerQueryFailed | LedgerFeeMismatch nat nat | EscrowUnderfunded nat nat
  | InsufficientReserve treasury_reserve_bucket nat nat | DedupExhausted | LedgerRejected icrc_transfer_error
  | TransportFailed | DisbursementNotFound | DisbursementNotReconcilable

text \<open>The slice of the pool's state the disbursements use.\<close>

record custody =
  cu_reserve :: "treasury_reserve_bucket \<Rightarrow> nat"
  cu_records :: "(nat, treasury_disbursement) fmap"
  cu_tombstones :: "(nat, reconciliation_tombstone) fmap"
  cu_treasury :: "principal option"
  cu_token :: "principal option"
  cu_controller :: "principal option"

type_synonym 'a dact = "(custody, disburse_pool_error, 'a) segment"

definition POOL_UPGRADE_SCAN :: nat where "POOL_UPGRADE_SCAN = 1000"

section \<open>Reserves\<close>

definition acct_add :: "treasury_reserve_bucket \<Rightarrow> nat \<Rightarrow> unit dact" where
  "acct_add b n = bind_act (get_act cu_reserve) (\<lambda>w.
     case checked_add 128 (w b) n of
       None \<Rightarrow> trap_act
     | Some v \<Rightarrow> modify_act (\<lambda>s. s\<lparr> cu_reserve := w(b := v) \<rparr>))"

definition acct_sub :: "treasury_reserve_bucket \<Rightarrow> nat \<Rightarrow> unit dact" where
  "acct_sub b n = bind_act (get_act cu_reserve) (\<lambda>w.
     case checked_sub (w b) n of
       None \<Rightarrow> trap_act
     | Some v \<Rightarrow> modify_act (\<lambda>s. s\<lparr> cu_reserve := w(b := v) \<rparr>))"

definition debit_reserve_bucket :: "treasury_reserve_bucket \<Rightarrow> nat \<Rightarrow> unit dact" where
  "debit_reserve_bucket b n = bind_act (get_act (\<lambda>s. cu_reserve s b)) (\<lambda>available.
     if available < n then fail_act (InsufficientReserve b n available) else acct_sub b n)"

definition credit_reserve_bucket :: "treasury_reserve_bucket \<Rightarrow> nat \<Rightarrow> unit dact" where
  "credit_reserve_bucket b n = acct_add b n"

section \<open>Records\<close>

definition treasury_disburse_memo :: "nat \<Rightarrow> bytes" where
  "treasury_disburse_memo pid = be_bytes 8 pid"

definition treasury_disbursement_matches :: "treasury_disbursement \<Rightarrow> treasury_disburse_args \<Rightarrow> bool" where
  "treasury_disbursement_matches d a \<longleftrightarrow> di_bucket d = td_bucket a \<and> di_recipient d = td_recipient a
     \<and> di_recipient_subaccount d = td_recipient_subaccount a \<and> di_amount d = td_amount a
     \<and> di_expected_ledger_fee d = td_expected_ledger_fee a"

datatype disburse_claim = DisburseClaimed | ClaimAlreadyExecuted nat

definition claim_treasury_disbursement :: "nat \<Rightarrow> treasury_disburse_args \<Rightarrow> disburse_claim dact" where
  "claim_treasury_disbursement now a =
    bind_act (get_act (\<lambda>s. fmlookup (cu_tombstones s) (td_proposal_id a))) (\<lambda>tomb.
    case tomb of
      Some t \<Rightarrow>
        (case (rt_decision t, rt_asserted_block_index t) of
           (DecidedExecuted, Some b) \<Rightarrow> return_act (ClaimAlreadyExecuted b)
         | _ \<Rightarrow> fail_act PoolIdRetired)
    | None \<Rightarrow>
        bind_act (get_act (\<lambda>s. fmlookup (cu_records s) (td_proposal_id a))) (\<lambda>found.
        case found of
          Some d \<Rightarrow>
            if \<not> treasury_disbursement_matches d a then fail_act PoolIdConflict
            else (case di_status d of
                DisbursedAt b \<Rightarrow> return_act (ClaimAlreadyExecuted b)
              | LegacyPending \<Rightarrow> fail_act StuckLegacyPending
              | PendingValidation \<Rightarrow> fail_act ValidationInProgress
              | PendingTransfer \<Rightarrow> fail_act TransferInProgress
              | TransportUnknown \<Rightarrow> fail_act OutcomeUnresolved)
        | None \<Rightarrow>
            bind_act (modify_act (\<lambda>s. s\<lparr> cu_records := fmupd (td_proposal_id a)
              \<lparr> di_proposal_id = td_proposal_id a, di_bucket = td_bucket a, di_recipient = td_recipient a,
                di_recipient_subaccount = td_recipient_subaccount a, di_amount = td_amount a,
                di_expected_ledger_fee = td_expected_ledger_fee a, di_status = PendingValidation,
                di_created_at_ns = now, di_ledger_created_at = None \<rparr> (cu_records s) \<rparr>))
              (\<lambda>_. return_act DisburseClaimed)))"

definition remove_treasury_disbursement :: "nat \<Rightarrow> custody \<Rightarrow> custody" where
  "remove_treasury_disbursement pid s = s\<lparr> cu_records := fmdrop pid (cu_records s) \<rparr>"

definition abort_treasury_disbursement :: "treasury_disburse_args \<Rightarrow> nat \<Rightarrow> unit dact" where
  "abort_treasury_disbursement a total_debit =
     bind_act (credit_reserve_bucket (td_bucket a) total_debit) (\<lambda>_.
     modify_act (remove_treasury_disbursement (td_proposal_id a)))"

definition set_treasury_disbursement_status ::
  "nat \<Rightarrow> treasury_disbursement_status \<Rightarrow> custody \<Rightarrow> custody" where
  "set_treasury_disbursement_status pid st s = (case fmlookup (cu_records s) pid of
     None \<Rightarrow> s
   | Some d \<Rightarrow> s\<lparr> cu_records := fmupd pid (d\<lparr> di_status := st \<rparr>) (cu_records s) \<rparr>)"

section \<open>The disbursement\<close>

text \<open>What a segment ends with: the final result, or the next call.\<close>

datatype disburse_next =
    DisburseDone treasury_disburse_result
  | AskLedgerFee principal
  | AskPoolBalance principal
  | SendDisbursement principal icrc_transfer_args

definition drop_claim :: "treasury_disburse_args \<Rightarrow> disburse_pool_error \<Rightarrow> 'a dact" where
  "drop_claim a e = bind_act (modify_act (remove_treasury_disbursement (td_proposal_id a))) (\<lambda>_. fail_act e)"

definition disburse_start :: "nat \<Rightarrow> principal \<Rightarrow> treasury_disburse_args \<Rightarrow> disburse_next dact" where
  "disburse_start now caller a =
    bind_act (get_act cu_treasury) (\<lambda>t. bind_act (need PoolNotInitialised t) (\<lambda>treasury.
    if caller \<noteq> treasury then fail_act NotTreasury
    else
      bind_act (claim_treasury_disbursement now a) (\<lambda>claim.
      case claim of
        ClaimAlreadyExecuted b \<Rightarrow> return_act (DisburseDone (DisburseAlreadyExecuted b))
      | DisburseClaimed \<Rightarrow>
          (case checked_add 128 (td_amount a) (td_expected_ledger_fee a) of
             None \<Rightarrow> drop_claim a PoolSumOverflow
           | Some _ \<Rightarrow>
               bind_act (get_act cu_token) (\<lambda>token.
               case token of
                 None \<Rightarrow> drop_claim a PoolNotInitialised
               | Some l \<Rightarrow> return_act (AskLedgerFee l))))))"

text \<open>A query reply: \<open>None\<close> is a failed call; a value beyond 128 bits is an error too.\<close>

definition query_value :: "nat option \<Rightarrow> nat option" where
  "query_value reply = (case reply of None \<Rightarrow> None | Some v \<Rightarrow> to_width 128 v)"

definition disburse_fee :: "treasury_disburse_args \<Rightarrow> principal \<Rightarrow> nat option \<Rightarrow> disburse_next dact" where
  "disburse_fee a token reply =
    (case query_value reply of
       None \<Rightarrow> drop_claim a LedgerQueryFailed
     | Some fee \<Rightarrow>
         if fee \<noteq> td_expected_ledger_fee a then drop_claim a (LedgerFeeMismatch (td_expected_ledger_fee a) fee)
         else return_act (AskPoolBalance token))"

text \<open>The ledger identity is frozen once on the record; without a record the continuation traps.\<close>

definition freeze_ledger_time :: "nat \<Rightarrow> nat \<Rightarrow> nat dact" where
  "freeze_ledger_time now pid =
    bind_act (get_act (\<lambda>s. fmlookup (cu_records s) pid)) (\<lambda>found.
    case found of
      None \<Rightarrow> trap_act
    | Some d \<Rightarrow>
        let t = (case di_ledger_created_at d of None \<Rightarrow> now | Some t \<Rightarrow> t)
        in bind_act (modify_act (\<lambda>s. s\<lparr> cu_records := fmupd pid (d\<lparr> di_ledger_created_at := Some t \<rparr>) (cu_records s) \<rparr>))
             (\<lambda>_. return_act t))"

definition disbursement_transfer :: "treasury_disburse_args \<Rightarrow> nat \<Rightarrow> icrc_transfer_args" where
  "disbursement_transfer a t =
     \<lparr> it_from_subaccount = None,
       it_to = \<lparr> ic_owner = td_recipient a, ic_subaccount = td_recipient_subaccount a \<rparr>,
       it_amount = td_amount a, it_fee = Some (td_expected_ledger_fee a),
       it_memo = Some (treasury_disburse_memo (td_proposal_id a)), it_created_at_time = Some t \<rparr>"

definition args_debit :: "treasury_disburse_args \<Rightarrow> nat" where
  "args_debit a = td_amount a + td_expected_ledger_fee a"

definition disburse_balance ::
  "nat \<Rightarrow> treasury_disburse_args \<Rightarrow> principal \<Rightarrow> nat option \<Rightarrow> disburse_next dact" where
  "disburse_balance now a token reply =
    (case query_value reply of
       None \<Rightarrow> drop_claim a LedgerQueryFailed
     | Some available \<Rightarrow>
         if available < args_debit a then drop_claim a (EscrowUnderfunded (args_debit a) available)
         else (\<lambda>s. case debit_reserve_bucket (td_bucket a) (args_debit a) s of
             None \<Rightarrow> None
           | Some (Inl e, s') \<Rightarrow> drop_claim a e s'
           | Some (Inr _, s') \<Rightarrow>
               bind_act (modify_act (set_treasury_disbursement_status (td_proposal_id a) PendingTransfer)) (\<lambda>_.
               bind_act (freeze_ledger_time now (td_proposal_id a)) (\<lambda>t.
               return_act (SendDisbursement token (disbursement_transfer a t)))) s'))"

datatype ledger_settle_outcome = SettleConfirmed | SettleDedupExhausted | SettleDefiniteError

definition classify_ledger_settlement :: "icrc_transfer_error + nat \<Rightarrow> ledger_settle_outcome" where
  "classify_ledger_settlement inner = (case inner of
     Inr _ \<Rightarrow> SettleConfirmed
   | Inl (Duplicate _) \<Rightarrow> SettleConfirmed
   | Inl TooOld \<Rightarrow> SettleDedupExhausted
   | Inl (CreatedInFuture _) \<Rightarrow> SettleDedupExhausted
   | Inl _ \<Rightarrow> SettleDefiniteError)"

definition settled_block :: "icrc_transfer_error + nat \<Rightarrow> nat option" where
  "settled_block inner = (case inner of Inr b \<Rightarrow> Some b | Inl (Duplicate b) \<Rightarrow> Some b | Inl _ \<Rightarrow> None)"

definition disburse_settle ::
  "treasury_disburse_args \<Rightarrow> icrc_transfer_error + nat \<Rightarrow> treasury_disburse_result dact" where
  "disburse_settle a inner =
    (case classify_ledger_settlement inner of
       SettleConfirmed \<Rightarrow>
         (case settled_block inner of
            None \<Rightarrow> trap_act
          | Some b \<Rightarrow>
              bind_act (modify_act (set_treasury_disbursement_status (td_proposal_id a) (DisbursedAt b))) (\<lambda>_.
              return_act (DisburseExecuted b)))
     | SettleDedupExhausted \<Rightarrow>
         bind_act (modify_act (set_treasury_disbursement_status (td_proposal_id a) TransportUnknown)) (\<lambda>_.
         fail_act DedupExhausted)
     | SettleDefiniteError \<Rightarrow>
         bind_act (abort_treasury_disbursement a (args_debit a)) (\<lambda>_.
         fail_act (case inner of Inl e \<Rightarrow> LedgerRejected e | Inr _ \<Rightarrow> TransportFailed)))"

definition disburse_transfer :: "treasury_disburse_args \<Rightarrow> transfer_reply \<Rightarrow> treasury_disburse_result dact" where
  "disburse_transfer a reply = (case reply of
     TransferOk b \<Rightarrow> disburse_settle a (Inr b)
   | TransferErr e \<Rightarrow> disburse_settle a (Inl e)
   | CallRejected \<Rightarrow>
       bind_act (modify_act (set_treasury_disbursement_status (td_proposal_id a) TransportUnknown)) (\<lambda>_.
       fail_act TransportFailed))"

section \<open>Reconciliation\<close>

datatype disburse_outcome = AssertExecuted nat | AssertNotExecuted

datatype reconcile_disburse_result = DisburseRecorded nat | DisburseReverted | ReconcileAlreadyExecuted nat

definition write_reconciliation_tombstone ::
  "nat \<Rightarrow> principal \<Rightarrow> treasury_disbursement \<Rightarrow> reconciliation_decision \<Rightarrow> nat option \<Rightarrow> custody \<Rightarrow> custody" where
  "write_reconciliation_tombstone now caller d decision block s =
    (case fmlookup (cu_tombstones s) (di_proposal_id d) of
       Some _ \<Rightarrow> s
     | None \<Rightarrow> s\<lparr> cu_tombstones := fmupd (di_proposal_id d)
         \<lparr> rt_disbursement = d, rt_memo = treasury_disburse_memo (di_proposal_id d), rt_decision = decision,
           rt_asserted_block_index = block, rt_reconciler = caller, rt_reconciled_at_ns = now \<rparr>
         (cu_tombstones s) \<rparr>)"

definition get_treasury_reconciliation_tombstone ::
  "principal \<Rightarrow> nat \<Rightarrow> reconciliation_tombstone option dact" where
  "get_treasury_reconciliation_tombstone caller pid =
    bind_act (get_act cu_controller) (\<lambda>c.
    if c \<noteq> Some caller then trap_act else get_act (\<lambda>s. fmlookup (cu_tombstones s) pid))"

definition reconcile_ambiguous ::
  "nat \<Rightarrow> principal \<Rightarrow> nat \<Rightarrow> treasury_disbursement \<Rightarrow> disburse_outcome \<Rightarrow> reconcile_disburse_result dact" where
  "reconcile_ambiguous now caller pid d outcome =
    (case outcome of
       AssertExecuted b \<Rightarrow>
         bind_act (modify_act (write_reconciliation_tombstone now caller d DecidedExecuted (Some b))) (\<lambda>_.
         bind_act (modify_act (set_treasury_disbursement_status pid (DisbursedAt b))) (\<lambda>_.
         return_act (DisburseRecorded b)))
     | AssertNotExecuted \<Rightarrow>
         bind_act (modify_act (write_reconciliation_tombstone now caller d DecidedNotExecuted None)) (\<lambda>_.
         bind_act (credit_reserve_bucket (di_bucket d) (sat_add 128 (di_amount d) (di_expected_ledger_fee d))) (\<lambda>_.
         bind_act (modify_act (remove_treasury_disbursement pid)) (\<lambda>_.
         return_act DisburseReverted))))"

definition reconcile_treasury_disburse ::
  "nat \<Rightarrow> principal \<Rightarrow> nat \<Rightarrow> disburse_outcome \<Rightarrow> reconcile_disburse_result dact" where
  "reconcile_treasury_disburse now caller pid outcome =
    bind_act (get_act cu_controller) (\<lambda>c.
    if c \<noteq> Some caller then trap_act
    else
      bind_act (get_act (\<lambda>s. fmlookup (cu_records s) pid)) (\<lambda>found.
      bind_act (need DisbursementNotFound found) (\<lambda>d.
      case di_status d of
        DisbursedAt b \<Rightarrow> return_act (ReconcileAlreadyExecuted b)
      | TransportUnknown \<Rightarrow> reconcile_ambiguous now caller pid d outcome
      | PendingTransfer \<Rightarrow> reconcile_ambiguous now caller pid d outcome
      | PendingValidation \<Rightarrow>
          (case outcome of
             AssertExecuted _ \<Rightarrow> fail_act DisbursementNotReconcilable
           | AssertNotExecuted \<Rightarrow>
               bind_act (modify_act (remove_treasury_disbursement pid)) (\<lambda>_. return_act DisburseReverted))
      | LegacyPending \<Rightarrow> fail_act DisbursementNotReconcilable)))"

section \<open>Upgrade\<close>

text \<open>The step of \<^verbatim>\<open>post_upgrade\<close> that normalises the records: a claim without a debit is removed.\<close>

definition preserved_on_upgrade :: "treasury_disbursement_status \<Rightarrow> bool" where
  "preserved_on_upgrade st = (case st of PendingValidation \<Rightarrow> False | _ \<Rightarrow> True)"

definition normalize_disbursements :: "unit dact" where
  "normalize_disbursements =
    bind_act (get_act cu_records) (\<lambda>m.
    if length (take (POOL_UPGRADE_SCAN + 1) (fmkeys m)) > POOL_UPGRADE_SCAN then trap_act
    else modify_act (\<lambda>s. s\<lparr> cu_records := fmfilter (\<lambda>k. case fmlookup m k of
        None \<Rightarrow> False | Some d \<Rightarrow> preserved_on_upgrade (di_status d)) m \<rparr>))"

end
