(* ===== verification/Pool_Disburse_Runs.thy ===== *)
theory Pool_Disburse_Runs
  imports Pool_Disburse Byte_Codec
begin

text \<open>
  Runs of concurrent disbursements beside the ledger. The ledger may execute a submitted transfer at any
  time, at most once per transfer (its deduplication), until it answers it with a definite error. The
  controller tells the truth when it reconciles. The ghost flag \<open>dw_raced\<close> is set when it reconciles a
  disbursement whose turn is still waiting for a reply.
\<close>

section \<open>Worlds and steps\<close>

datatype disburse_wait =
    AwaitFeeReply treasury_disburse_args principal
  | AwaitBalanceReply treasury_disburse_args principal
  | AwaitTransferReply treasury_disburse_args icrc_transfer_args

fun wait_args :: "disburse_wait \<Rightarrow> treasury_disburse_args" where
  "wait_args (AwaitFeeReply a l) = a"
| "wait_args (AwaitBalanceReply a l) = a"
| "wait_args (AwaitTransferReply a x) = a"

abbreviation wait_pid :: "disburse_wait \<Rightarrow> nat" where
  "wait_pid v \<equiv> td_proposal_id (wait_args v)"

record disburse_world =
  dw_state :: custody
  dw_now :: nat
  dw_waiting :: "disburse_wait list"
  dw_sent :: "icrc_transfer_args set"
  dw_done :: "icrc_transfer_args set"
  dw_funded :: "treasury_reserve_bucket \<Rightarrow> nat"
  dw_raced :: bool

definition record_transfer :: "treasury_disbursement \<Rightarrow> icrc_transfer_args option" where
  "record_transfer d = map_option (\<lambda>t.
     \<lparr> it_from_subaccount = None,
       it_to = \<lparr> ic_owner = di_recipient d, ic_subaccount = di_recipient_subaccount d \<rparr>,
       it_amount = di_amount d, it_fee = Some (di_expected_ledger_fee d),
       it_memo = Some (treasury_disburse_memo (di_proposal_id d)), it_created_at_time = Some t \<rparr>)
     (di_ledger_created_at d)"

text \<open>What the end of a segment adds to the suspended turns and the submitted transfers.\<close>

fun next_waits :: "treasury_disburse_args \<Rightarrow> disburse_next \<Rightarrow> disburse_wait list" where
  "next_waits a (DisburseDone r) = []"
| "next_waits a (AskLedgerFee l) = [AwaitFeeReply a l]"
| "next_waits a (AskPoolBalance l) = [AwaitBalanceReply a l]"
| "next_waits a (SendDisbursement l x) = [AwaitTransferReply a x]"

fun next_sent :: "disburse_next \<Rightarrow> icrc_transfer_args set" where
  "next_sent (SendDisbursement l x) = {x}"
| "next_sent _ = {}"

definition after_segment ::
  "treasury_disburse_args \<Rightarrow> disburse_wait list \<Rightarrow> (disburse_pool_error + disburse_next) \<Rightarrow> custody
     \<Rightarrow> disburse_world \<Rightarrow> disburse_world" where
  "after_segment a W r s w = w\<lparr> dw_state := s,
     dw_waiting := (case r of Inl _ \<Rightarrow> [] | Inr n \<Rightarrow> next_waits a n) @ W,
     dw_sent := (case r of Inl _ \<Rightarrow> {} | Inr n \<Rightarrow> next_sent n) \<union> dw_sent w \<rparr>"

definition definite_error :: "icrc_transfer_error \<Rightarrow> bool" where
  "definite_error e \<longleftrightarrow> classify_ledger_settlement (Inl e) = SettleDefiniteError"

inductive ledger_answers :: "disburse_world \<Rightarrow> icrc_transfer_args \<Rightarrow> transfer_reply \<Rightarrow> disburse_world \<Rightarrow> bool"
  for w x where
  la_ok: "x \<in> dw_done w \<Longrightarrow> ledger_answers w x (TransferOk b) w"
| la_duplicate: "x \<in> dw_done w \<Longrightarrow> ledger_answers w x (TransferErr (Duplicate b)) w"
| la_refused: "x \<notin> dw_done w \<Longrightarrow> definite_error e \<Longrightarrow>
    ledger_answers w x (TransferErr e) (w\<lparr> dw_sent := dw_sent w - {x} \<rparr>)"
| la_window: "e = TooOld \<or> (\<exists>n. e = CreatedInFuture n) \<Longrightarrow> ledger_answers w x (TransferErr e) w"
| la_rejected: "ledger_answers w x CallRejected w"

text \<open>A truthful reconciliation: of an ambiguous record, by what the ledger did and will do.\<close>

definition truthful :: "disburse_world \<Rightarrow> nat \<Rightarrow> disburse_outcome \<Rightarrow> bool" where
  "truthful w pid outcome \<longleftrightarrow> (\<forall>d. fmlookup (cu_records (dw_state w)) pid = Some d \<longrightarrow> (case outcome of
     AssertExecuted _ \<Rightarrow> \<exists>x. record_transfer d = Some x \<and> x \<in> dw_done w
   | AssertNotExecuted \<Rightarrow> \<forall>x. record_transfer d = Some x \<longrightarrow> x \<notin> dw_done w))"

definition never_sent :: "disburse_world \<Rightarrow> nat \<Rightarrow> disburse_outcome \<Rightarrow> icrc_transfer_args set" where
  "never_sent w pid outcome = (case outcome of
     AssertExecuted _ \<Rightarrow> {}
   | AssertNotExecuted \<Rightarrow> {x. \<exists>d. fmlookup (cu_records (dw_state w)) pid = Some d \<and> record_transfer d = Some x})"

inductive disburse_step :: "disburse_world \<Rightarrow> disburse_world \<Rightarrow> bool" where
  ds_time: "dw_now w \<le> n \<Longrightarrow> disburse_step w (w\<lparr> dw_now := n \<rparr>)"
| ds_fund: "acct_add b n (dw_state w) = Some (Inr (), s) \<Longrightarrow>
    disburse_step w (w\<lparr> dw_state := s, dw_funded := (dw_funded w)(b := dw_funded w b + n) \<rparr>)"
| ds_start: "disburse_start (dw_now w) caller a (dw_state w) = Some (r, s) \<Longrightarrow> td_proposal_id a < u64_limit \<Longrightarrow>
    disburse_step w (after_segment a (dw_waiting w) r s w)"
| ds_fee: "AwaitFeeReply a l \<in> set (dw_waiting w) \<Longrightarrow> disburse_fee a l reply (dw_state w) = Some (r, s) \<Longrightarrow>
    disburse_step w (after_segment a (remove1 (AwaitFeeReply a l) (dw_waiting w)) r s w)"
| ds_balance: "AwaitBalanceReply a l \<in> set (dw_waiting w) \<Longrightarrow>
    disburse_balance (dw_now w) a l reply (dw_state w) = Some (r, s) \<Longrightarrow>
    disburse_step w (after_segment a (remove1 (AwaitBalanceReply a l) (dw_waiting w)) r s w)"
| ds_execute: "x \<in> dw_sent w \<Longrightarrow> disburse_step w (w\<lparr> dw_done := insert x (dw_done w) \<rparr>)"
| ds_transfer: "AwaitTransferReply a x \<in> set (dw_waiting w) \<Longrightarrow> ledger_answers w x reply w1 \<Longrightarrow>
    disburse_transfer a reply (dw_state w) = Some (r, s) \<Longrightarrow>
    disburse_step w (w1\<lparr> dw_state := s, dw_waiting := remove1 (AwaitTransferReply a x) (dw_waiting w) \<rparr>)"
| ds_lost: "disburse_step w (w\<lparr> dw_waiting := remove1 v (dw_waiting w) \<rparr>)"
| ds_reconcile: "truthful w pid outcome \<Longrightarrow>
    reconcile_treasury_disburse (dw_now w) caller pid outcome (dw_state w) = Some (r, s) \<Longrightarrow>
    disburse_step w (w\<lparr> dw_state := s, dw_sent := dw_sent w - never_sent w pid outcome,
      dw_raced := (dw_raced w \<or> pid \<in> wait_pid ` set (dw_waiting w)) \<rparr>)"
| ds_upgrade: "normalize_disbursements (dw_state w) = Some (Inr (), s) \<Longrightarrow>
    disburse_step w (w\<lparr> dw_state := s, dw_waiting := [] \<rparr>)"

inductive disburse_run :: "disburse_world \<Rightarrow> bool" where
  dr_init: "cu_records s = fmempty \<Longrightarrow> cu_tombstones s = fmempty \<Longrightarrow>
    disburse_run \<lparr> dw_state = s, dw_now = n, dw_waiting = [], dw_sent = {}, dw_done = {},
      dw_funded = cu_reserve s, dw_raced = False \<rparr>"
| dr_step: "disburse_run w \<Longrightarrow> disburse_step w w' \<Longrightarrow> disburse_run w'"

section \<open>The invariant\<close>

definition debited :: "treasury_disbursement_status \<Rightarrow> bool" where
  "debited st \<longleftrightarrow> (case st of LegacyPending \<Rightarrow> False | PendingValidation \<Rightarrow> False | _ \<Rightarrow> True)"

definition charge :: "treasury_reserve_bucket \<Rightarrow> treasury_disbursement \<Rightarrow> nat" where
  "charge b d = (if debited (di_status d) \<and> di_bucket d = b then di_amount d + di_expected_ledger_fee d else 0)"

text \<open>What the records have taken out of a bucket.\<close>

definition charges :: "treasury_reserve_bucket \<Rightarrow> custody \<Rightarrow> nat" where
  "charges b s = fmtotal (fmmap (charge b) (cu_records s))"

definition record_good :: "icrc_transfer_args set \<Rightarrow> nat \<Rightarrow> treasury_disbursement \<Rightarrow> bool" where
  "record_good D pid d \<longleftrightarrow> di_proposal_id d = pid \<and> pid < u64_limit
     \<and> di_amount d + di_expected_ledger_fee d < u128_limit \<and> di_status d \<noteq> LegacyPending
     \<and> (di_status d = PendingValidation \<longleftrightarrow> di_ledger_created_at d = None)
     \<and> (\<forall>b. di_status d = DisbursedAt b \<longrightarrow> (\<exists>x \<in> D. record_transfer d = Some x))"

definition wait_good :: "custody \<Rightarrow> disburse_wait \<Rightarrow> bool" where
  "wait_good s v \<longleftrightarrow> (\<exists>d. fmlookup (cu_records s) (wait_pid v) = Some d
     \<and> treasury_disbursement_matches d (wait_args v) \<and> (case v of
         AwaitTransferReply a x \<Rightarrow> di_status d = PendingTransfer \<and> record_transfer d = Some x
       | _ \<Rightarrow> di_status d = PendingValidation))"

definition tombstone_good :: "custody \<Rightarrow> nat \<Rightarrow> reconciliation_tombstone \<Rightarrow> bool" where
  "tombstone_good s pid t \<longleftrightarrow> (case (rt_decision t, rt_asserted_block_index t) of
     (DecidedExecuted, Some _) \<Rightarrow> \<exists>d b. fmlookup (cu_records s) pid = Some d \<and> di_status d = DisbursedAt b
   | _ \<Rightarrow> fmlookup (cu_records s) pid = None)"

lemma tombstone_good_alt:
  "tombstone_good s pid t \<longleftrightarrow> (if rt_decision t = DecidedExecuted \<and> rt_asserted_block_index t \<noteq> None
     then \<exists>d b. fmlookup (cu_records s) pid = Some d \<and> di_status d = DisbursedAt b
     else fmlookup (cu_records s) pid = None)"
  by (auto simp: tombstone_good_def split: option.split reconciliation_decision.split)

definition custody_ok ::
  "custody \<Rightarrow> disburse_wait list \<Rightarrow> icrc_transfer_args set \<Rightarrow> icrc_transfer_args set
     \<Rightarrow> (treasury_reserve_bucket \<Rightarrow> nat) \<Rightarrow> bool" where
  "custody_ok s W S D F \<longleftrightarrow>
     (\<forall>pid d. fmlookup (cu_records s) pid = Some d \<longrightarrow> record_good D pid d)
     \<and> distinct (map wait_pid W) \<and> (\<forall>v \<in> set W. wait_good s v)
     \<and> (\<forall>x \<in> S. \<exists>pid d. fmlookup (cu_records s) pid = Some d \<and> record_transfer d = Some x)
     \<and> D \<subseteq> S
     \<and> (\<forall>pid t. fmlookup (cu_tombstones s) pid = Some t \<longrightarrow> tombstone_good s pid t)
     \<and> (\<forall>b. cu_reserve s b + charges b s = F b)"

lemma custody_okD:
  assumes "custody_ok s W S D F"
  shows "fmlookup (cu_records s) pid = Some d \<Longrightarrow> record_good D pid d"
    "distinct (map wait_pid W)" "v \<in> set W \<Longrightarrow> wait_good s v"
    "x \<in> S \<Longrightarrow> \<exists>pid d. fmlookup (cu_records s) pid = Some d \<and> record_transfer d = Some x"
    "D \<subseteq> S" "fmlookup (cu_tombstones s) pid = Some t \<Longrightarrow> tombstone_good s pid t"
    "cu_reserve s b + charges b s = F b"
  using assms by (auto simp: custody_ok_def)

text \<open>What a record's change does to the charges.\<close>

definition old_charge :: "treasury_reserve_bucket \<Rightarrow> custody \<Rightarrow> nat \<Rightarrow> nat" where
  "old_charge b s pid = (case fmlookup (cu_records s) pid of None \<Rightarrow> 0 | Some d \<Rightarrow> charge b d)"

lemma old_charge_get: "fmget 0 (fmmap (charge b) (cu_records s)) pid = old_charge b s pid"
  by (simp add: fmget_def old_charge_def split: option.split)

lemma charges_put:
  "cu_records s' = fmupd pid d (cu_records s) \<Longrightarrow> charges b s' + old_charge b s pid = charges b s + charge b d"
  using fmtotal_upd [of pid "charge b d" "fmmap (charge b) (cu_records s)"]
  by (simp add: charges_def fmmap_fmupd old_charge_get)

lemma charges_drop:
  "cu_records s' = fmdrop pid (cu_records s) \<Longrightarrow> charges b s' + old_charge b s pid = charges b s"
  using fmtotal_drop [of pid "fmmap (charge b) (cu_records s)"]
  by (simp add: charges_def old_charge_get)

section \<open>Changing one record\<close>

lemma ok_put:
  assumes ok: "custody_ok s W S D F" and s': "cu_records s' = fmupd pid d (cu_records s)"
    and good: "record_good D pid d"
    and keep: "\<And>d0. fmlookup (cu_records s) pid = Some d0 \<Longrightarrow> record_transfer d0 = None \<or> record_transfer d0 = record_transfer d"
    and W: "distinct (map wait_pid W')" "\<And>v. v \<in> set W' \<Longrightarrow> v \<in> set W \<and> wait_pid v \<noteq> pid \<or> wait_good s' v"
    and S: "\<And>x. x \<in> S' \<Longrightarrow> x \<in> S \<or> record_transfer d = Some x" "D \<subseteq> S'"
    and tomb: "\<And>k t. fmlookup (cu_tombstones s') k = Some t \<Longrightarrow> k = pid \<and> tombstone_good s' k t
        \<or> k \<noteq> pid \<and> fmlookup (cu_tombstones s) k = Some t"
    and res: "\<And>b. cu_reserve s' b + charge b d = cu_reserve s b + old_charge b s pid"
  shows "custody_ok s' W' S' D F"
proof -
  have look: "fmlookup (cu_records s') k = (if k = pid then Some d else fmlookup (cu_records s) k)" for k
    by (simp add: s')
  have "record_good D k e" if "fmlookup (cu_records s') k = Some e" for k e
    using that good custody_okD(1) [OF ok, of k e] by (auto simp: look split: if_splits)
  moreover have "wait_good s' v" if "v \<in> set W'" for v
    using W(2) [OF that] custody_okD(3) [OF ok, of v] by (auto simp: wait_good_def look)
  moreover have "\<exists>k e. fmlookup (cu_records s') k = Some e \<and> record_transfer e = Some x" if x: "x \<in> S'" for x
  proof (cases "record_transfer d = Some x")
    case True
    then show ?thesis using look [of pid] by (intro exI [of _ pid] exI [of _ d]) simp
  next
    case False
    then obtain k e where e: "fmlookup (cu_records s) k = Some e" "record_transfer e = Some x"
      using S(1) [OF x] custody_okD(4) [OF ok, of x] by blast
    then have "k \<noteq> pid" using keep [of e] False by auto
    then show ?thesis using e look [of k] by auto
  qed
  moreover have "tombstone_good s' k t" if "fmlookup (cu_tombstones s') k = Some t" for k t
    using tomb [OF that] custody_okD(6) [OF ok, of k t] by (auto simp: tombstone_good_def look split: option.splits reconciliation_decision.splits)
  moreover have "cu_reserve s' b + charges b s' = F b" for b
    using res [of b] charges_put [OF s', of b] custody_okD(7) [OF ok, of b] by linarith
  ultimately show ?thesis using W(1) S(2) by (simp add: custody_ok_def)
qed

lemma ok_drop:
  assumes ok: "custody_ok s W S D F" and s': "cu_records s' = fmdrop pid (cu_records s)"
    and W: "distinct (map wait_pid W')" "\<And>v. v \<in> set W' \<Longrightarrow> v \<in> set W \<and> wait_pid v \<noteq> pid"
    and S: "\<And>x. x \<in> S' \<Longrightarrow> x \<in> S" "\<And>x d. x \<in> S' \<Longrightarrow> fmlookup (cu_records s) pid = Some d \<Longrightarrow> record_transfer d \<noteq> Some x"
      "D \<subseteq> S'"
    and tomb: "\<And>k t. fmlookup (cu_tombstones s') k = Some t \<Longrightarrow> k = pid \<and> tombstone_good s' k t
        \<or> k \<noteq> pid \<and> fmlookup (cu_tombstones s) k = Some t"
    and res: "\<And>b. cu_reserve s' b = cu_reserve s b + old_charge b s pid"
  shows "custody_ok s' W' S' D F"
proof -
  have look: "fmlookup (cu_records s') k = (if k = pid then None else fmlookup (cu_records s) k)" for k
    by (simp add: s')
  have "record_good D k e" if "fmlookup (cu_records s') k = Some e" for k e
    using that custody_okD(1) [OF ok, of k e] by (auto simp: look split: if_splits)
  moreover have "wait_good s' v" if "v \<in> set W'" for v
    using W(2) [OF that] custody_okD(3) [OF ok, of v] by (auto simp: wait_good_def look)
  moreover have "\<exists>k e. fmlookup (cu_records s') k = Some e \<and> record_transfer e = Some x" if x: "x \<in> S'" for x
  proof -
    obtain k e where e: "fmlookup (cu_records s) k = Some e" "record_transfer e = Some x"
      using S(1) [OF x] custody_okD(4) [OF ok, of x] by blast
    then have "k \<noteq> pid" using S(2) [OF x, of e] by auto
    then show ?thesis using e look [of k] by auto
  qed
  moreover have "tombstone_good s' k t" if "fmlookup (cu_tombstones s') k = Some t" for k t
    using tomb [OF that] custody_okD(6) [OF ok, of k t] by (auto simp: tombstone_good_def look split: option.splits reconciliation_decision.splits)
  moreover have "cu_reserve s' b + charges b s' = F b" for b
    using res [of b] charges_drop [OF s', of b] custody_okD(7) [OF ok, of b] by linarith
  ultimately show ?thesis using W(1) S(3) by (simp add: custody_ok_def)
qed

lemma drop_waits:
  assumes "distinct (map wait_pid W)" "v \<in> set W"
  shows "distinct (map wait_pid (remove1 v W))"
    and "u \<in> set (remove1 v W) \<Longrightarrow> u \<in> set W \<and> wait_pid u \<noteq> wait_pid v"
  using distinct_keys_remove1 [OF assms(1), of v] keys_remove1_other [OF assms]
    set_remove1_subset [of v W] by (auto simp: image_iff)

section \<open>What each segment does\<close>

definition claimed_record :: "nat \<Rightarrow> treasury_disburse_args \<Rightarrow> treasury_disbursement" where
  "claimed_record now a = \<lparr> di_proposal_id = td_proposal_id a, di_bucket = td_bucket a, di_recipient = td_recipient a,
     di_recipient_subaccount = td_recipient_subaccount a, di_amount = td_amount a,
     di_expected_ledger_fee = td_expected_ledger_fee a, di_status = PendingValidation,
     di_created_at_ns = now, di_ledger_created_at = None \<rparr>"

lemma drop_claim_simp [simp]:
  "drop_claim a e s = Some (Inl e, remove_treasury_disbursement (td_proposal_id a) s)"
  by (simp add: drop_claim_def)

lemma drop_fresh:
  "fmlookup (cu_records s) pid = None \<Longrightarrow>
     remove_treasury_disbursement pid (s\<lparr> cu_records := fmupd pid d (cu_records s) \<rparr>) = s"
proof -
  assume "fmlookup (cu_records s) pid = None"
  then have "fmdrop pid (cu_records s) = cu_records s" by (intro fmap_ext) simp
  then show ?thesis by (simp add: remove_treasury_disbursement_def fmdrop_fmupd_same)
qed

text \<open>The answer of a claim, in its own right: what the caller learns and what the records must be.\<close>

definition claim_answer ::
  "custody \<Rightarrow> treasury_disburse_args \<Rightarrow> (disburse_pool_error + disburse_next) \<Rightarrow> bool" where
  "claim_answer s a r \<longleftrightarrow> (case r of
     Inr (DisburseDone _) \<Rightarrow>
       (\<exists>t b. fmlookup (cu_tombstones s) (td_proposal_id a) = Some t \<and> rt_decision t = DecidedExecuted
          \<and> rt_asserted_block_index t = Some b)
       \<or> (\<exists>d b. fmlookup (cu_records s) (td_proposal_id a) = Some d \<and> di_status d = DisbursedAt b
          \<and> treasury_disbursement_matches d a)
   | Inr _ \<Rightarrow> False
   | Inl e \<Rightarrow> e = PoolIdRetired \<longrightarrow> (\<exists>t. fmlookup (cu_tombstones s) (td_proposal_id a) = Some t
       \<and> \<not> (rt_decision t = DecidedExecuted \<and> rt_asserted_block_index t \<noteq> None)))"

lemma claim_cases:
  assumes "claim_treasury_disbursement now a s = Some (r, s')"
  obtains (answered) r' where "s' = s" "claim_answer s a r'"
      "r' = (case r of Inl e \<Rightarrow> Inl e | Inr (ClaimAlreadyExecuted b) \<Rightarrow> Inr (DisburseDone (DisburseAlreadyExecuted b))
             | Inr DisburseClaimed \<Rightarrow> Inl OutcomeUnresolved)" "r \<noteq> Inr DisburseClaimed"
  | (claimed) "r = Inr DisburseClaimed" "fmlookup (cu_tombstones s) (td_proposal_id a) = None"
      "fmlookup (cu_records s) (td_proposal_id a) = None"
      "s' = s\<lparr> cu_records := fmupd (td_proposal_id a) (claimed_record now a) (cu_records s) \<rparr>"
proof (cases "fmlookup (cu_tombstones s) (td_proposal_id a)")
  case (Some t)
  then show thesis
    using assms that(1) [of "case r of Inl e \<Rightarrow> Inl e | Inr (ClaimAlreadyExecuted b) \<Rightarrow> Inr (DisburseDone (DisburseAlreadyExecuted b))
             | Inr DisburseClaimed \<Rightarrow> Inl OutcomeUnresolved"]
    by (cases "rt_decision t"; cases "rt_asserted_block_index t")
       (auto simp: claim_treasury_disbursement_def claim_answer_def)
next
  case None
  note tomb = None
  show thesis
  proof (cases "fmlookup (cu_records s) (td_proposal_id a)")
    case None
    then show thesis using assms tomb that(2) by (simp add: claim_treasury_disbursement_def claimed_record_def)
  next
    case (Some d)
    then show thesis
      using assms tomb that(1) [of "case r of Inl e \<Rightarrow> Inl e | Inr (ClaimAlreadyExecuted b) \<Rightarrow> Inr (DisburseDone (DisburseAlreadyExecuted b))
             | Inr DisburseClaimed \<Rightarrow> Inl OutcomeUnresolved"]
      by (cases "treasury_disbursement_matches d a"; cases "di_status d")
         (auto simp: claim_treasury_disbursement_def claim_answer_def)
  qed
qed

lemma start_cases:
  assumes "disburse_start now caller a s = Some (r, s')"
  obtains (answered) "s' = s" "claim_answer s a r"
  | (claimed) l where "r = Inr (AskLedgerFee l)" "fmlookup (cu_tombstones s) (td_proposal_id a) = None"
      "fmlookup (cu_records s) (td_proposal_id a) = None" "args_debit a < u128_limit"
      "s' = s\<lparr> cu_records := fmupd (td_proposal_id a) (claimed_record now a) (cu_records s) \<rparr>"
proof (cases "cu_treasury s = Some caller")
  case False
  then show thesis using assms that(1)
    by (cases "cu_treasury s") (auto simp: disburse_start_def claim_answer_def)
next
  case True
  obtain c s1 where c: "claim_treasury_disbursement now a s = Some (c, s1)"
    using assms True by (cases "claim_treasury_disbursement now a s") (auto simp: disburse_start_def bind_act_def)
  have run: "disburse_start now caller a s = bind_act (claim_treasury_disbursement now a) (\<lambda>claim.
      case claim of
        ClaimAlreadyExecuted b \<Rightarrow> return_act (DisburseDone (DisburseAlreadyExecuted b))
      | DisburseClaimed \<Rightarrow>
          (case checked_add 128 (td_amount a) (td_expected_ledger_fee a) of
             None \<Rightarrow> drop_claim a PoolSumOverflow
           | Some _ \<Rightarrow>
               bind_act (get_act cu_token) (\<lambda>token.
               case token of
                 None \<Rightarrow> drop_claim a PoolNotInitialised
               | Some l \<Rightarrow> return_act (AskLedgerFee l)))) s"
    using True by (simp add: disburse_start_def)
  from c show thesis
  proof (cases rule: claim_cases)
    case (answered r')
    have "s' = s" "r = r'"
      using assms answered(1,3,4) unfolding run
      by (cases c; simp add: bind_act_def c split: disburse_claim.splits)+
    then show thesis using that(1) answered(2) by simp
  next
    case claimed
    note restored = drop_fresh [OF claimed(3), of "claimed_record now a"]
    show thesis
    proof (cases "checked_add 128 (td_amount a) (td_expected_ledger_fee a)")
      case None
      then have "r = Inl PoolSumOverflow" "s' = s"
        using assms restored unfolding run by (simp_all add: bind_act_def c claimed)
      then show thesis using that(1) by (simp add: claim_answer_def)
    next
      case (Some v)
      then have v: "args_debit a < u128_limit" by (simp add: checked_add_def args_debit_def split: if_splits)
      show thesis
      proof (cases "cu_token s")
        case None
        then have "r = Inl PoolNotInitialised" "s' = s"
          using assms restored Some unfolding run by (simp_all add: bind_act_def c claimed)
        then show thesis using that(1) by (simp add: claim_answer_def)
      next
        case (Some l)
        then have "r = Inr (AskLedgerFee l)" "s' = s1"
          using assms \<open>checked_add 128 _ _ = Some v\<close> unfolding run by (simp_all add: bind_act_def c claimed)
        then show thesis using that(2) claimed v by simp
      qed
    qed
  qed
qed

lemma fee_cases:
  assumes "disburse_fee a l reply s = Some (r, s')"
  obtains (refused) e where "r = Inl e" "s' = remove_treasury_disbursement (td_proposal_id a) s"
  | (continued) "r = Inr (AskPoolBalance l)" "s' = s"
  using assms by (auto simp: disburse_fee_def split: option.splits if_splits)

text \<open>A record once its transfer is frozen.\<close>

definition frozen_record :: "nat \<Rightarrow> treasury_disbursement \<Rightarrow> treasury_disbursement" where
  "frozen_record now d = d\<lparr> di_status := PendingTransfer,
     di_ledger_created_at := Some (case di_ledger_created_at d of None \<Rightarrow> now | Some t \<Rightarrow> t) \<rparr>"

lemma frozen_transfer:
  "treasury_disbursement_matches d a \<Longrightarrow> di_proposal_id d = td_proposal_id a \<Longrightarrow>
     record_transfer (frozen_record now d)
       = Some (disbursement_transfer a (case di_ledger_created_at d of None \<Rightarrow> now | Some t \<Rightarrow> t))"
  by (simp add: record_transfer_def frozen_record_def disbursement_transfer_def treasury_disbursement_matches_def)

lemma freeze_step:
  assumes "fmlookup (cu_records s) pid = Some d"
  shows "freeze_ledger_time now pid s = Some (Inr (case di_ledger_created_at d of None \<Rightarrow> now | Some t \<Rightarrow> t),
    s\<lparr> cu_records := fmupd pid (d\<lparr> di_ledger_created_at :=
      Some (case di_ledger_created_at d of None \<Rightarrow> now | Some t \<Rightarrow> t) \<rparr>) (cu_records s) \<rparr>)"
  using assms by (simp add: freeze_ledger_time_def Let_def)

lemma balance_cases:
  assumes "disburse_balance now a l reply s = Some (r, s')" "fmlookup (cu_records s) (td_proposal_id a) = Some d"
  obtains (refused) e where "r = Inl e" "s' = remove_treasury_disbursement (td_proposal_id a) s"
  | (sent) "r = Inr (SendDisbursement l (disbursement_transfer a (case di_ledger_created_at d of None \<Rightarrow> now | Some t \<Rightarrow> t)))"
      "args_debit a \<le> cu_reserve s (td_bucket a)"
      "s' = s\<lparr> cu_reserve := (cu_reserve s)(td_bucket a := cu_reserve s (td_bucket a) - args_debit a),
         cu_records := fmupd (td_proposal_id a) (frozen_record now d) (cu_records s) \<rparr>"
proof (cases "query_value reply")
  case None
  then show thesis using assms(1) that(1) [of LedgerQueryFailed] by (auto simp: disburse_balance_def)
next
  case (Some v)
  show thesis
  proof (cases "v < args_debit a \<or> cu_reserve s (td_bucket a) < args_debit a")
    case True
    then show thesis using assms(1) Some that(1)
      by (auto simp: disburse_balance_def debit_reserve_bucket_def split: if_splits)
  next
    case False
    then have debit: "debit_reserve_bucket (td_bucket a) (args_debit a) s = Some (Inr (),
        s\<lparr> cu_reserve := (cu_reserve s)(td_bucket a := cu_reserve s (td_bucket a) - args_debit a) \<rparr>)"
      by (simp add: debit_reserve_bucket_def acct_sub_def checked_sub_def not_less)
    have "r = Inr (SendDisbursement l (disbursement_transfer a (case di_ledger_created_at d of None \<Rightarrow> now | Some t \<Rightarrow> t)))
      \<and> s' = s\<lparr> cu_reserve := (cu_reserve s)(td_bucket a := cu_reserve s (td_bucket a) - args_debit a),
         cu_records := fmupd (td_proposal_id a) (frozen_record now d) (cu_records s) \<rparr>"
      using assms Some False
      by (auto simp: disburse_balance_def debit set_treasury_disbursement_status_def bind_act_def freeze_step
          frozen_record_def)
    then show thesis using that(2) False by simp
  qed
qed

section \<open>Preservation\<close>

abbreviation world_good :: "disburse_world \<Rightarrow> bool" where
  "world_good w \<equiv> custody_ok (dw_state w) (dw_waiting w) (dw_sent w) (dw_done w) (dw_funded w)"

lemma waiting_record:
  assumes "custody_ok s W S D F" "v \<in> set W"
  obtains d where "fmlookup (cu_records s) (wait_pid v) = Some d" "treasury_disbursement_matches d (wait_args v)"
    "record_good D (wait_pid v) d" "wait_good s v"
  using custody_okD(3) [OF assms] custody_okD(1) [OF assms(1)] that by (auto simp: wait_good_def)

lemma no_tombstone_while_waiting:
  assumes "custody_ok s W S D F" "v \<in> set W"
  shows "fmlookup (cu_tombstones s) (wait_pid v) = None"
proof (rule ccontr)
  assume "fmlookup (cu_tombstones s) (wait_pid v) \<noteq> None"
  then obtain t where "fmlookup (cu_tombstones s) (wait_pid v) = Some t" by auto
  then have "tombstone_good s (wait_pid v) t" by (rule custody_okD(6) [OF assms(1)])
  then show False using custody_okD(3) [OF assms]
    by (cases v) (auto simp: tombstone_good_def wait_good_def split: option.splits reconciliation_decision.splits)
qed

lemma good_started:
  assumes ok: "custody_ok s W S D F" and start: "disburse_start now caller a s = Some (r, s')"
    and pid: "td_proposal_id a < u64_limit"
  shows "custody_ok s' ((case r of Inl _ \<Rightarrow> [] | Inr n \<Rightarrow> next_waits a n) @ W)
    ((case r of Inl _ \<Rightarrow> {} | Inr n \<Rightarrow> next_sent n) \<union> S) D F"
  using start
proof (cases rule: start_cases)
  case answered
  then have "(case r of Inl _ \<Rightarrow> [] | Inr n \<Rightarrow> next_waits a n) = []" "(case r of Inl _ \<Rightarrow> {} | Inr n \<Rightarrow> next_sent n) = {}"
    by (auto simp: claim_answer_def split: sum.splits disburse_next.splits)
  then show ?thesis using ok answered(1) by simp
next
  case (claimed l)
  let ?pid = "td_proposal_id a" and ?d = "claimed_record now a"
  have new: "?pid \<notin> wait_pid ` set W"
  proof
    assume "?pid \<in> wait_pid ` set W"
    then obtain v where "v \<in> set W" "wait_pid v = ?pid" by auto
    then show False using custody_okD(3) [OF ok, of v] claimed(3) by (auto simp: wait_good_def)
  qed
  have d: "di_status ?d = PendingValidation" "di_ledger_created_at ?d = None" "di_proposal_id ?d = ?pid"
    "di_amount ?d + di_expected_ledger_fee ?d = args_debit a"
    by (simp_all add: claimed_record_def args_debit_def)
  have "custody_ok s' (AwaitFeeReply a l # W) S D F"
  proof (rule ok_put [OF ok])
    show "cu_records s' = fmupd ?pid ?d (cu_records s)" by (simp add: claimed(5))
    show "record_good D ?pid ?d" using d pid claimed(4) by (simp add: record_good_def)
    show "distinct (map wait_pid (AwaitFeeReply a l # W))" using custody_okD(2) [OF ok] new by simp
    show "v \<in> set W \<and> wait_pid v \<noteq> ?pid \<or> wait_good s' v" if v: "v \<in> set (AwaitFeeReply a l # W)" for v
    proof (cases "v = AwaitFeeReply a l")
      case True
      have "treasury_disbursement_matches ?d a" by (simp add: treasury_disbursement_matches_def claimed_record_def)
      then show ?thesis using d(1) by (simp add: True wait_good_def claimed(5))
    next
      case False
      then have "v \<in> set W" using v by simp
      moreover from this have "wait_pid v \<noteq> ?pid" using new by force
      ultimately show ?thesis by simp
    qed
    show "D \<subseteq> S" by (rule custody_okD(5) [OF ok])
    show "cu_reserve s' b + charge b ?d = cu_reserve s b + old_charge b s ?pid" for b
      by (simp add: claimed(3,5) charge_def d debited_def old_charge_def)
    show "k = ?pid \<and> tombstone_good s' k t \<or> k \<noteq> ?pid \<and> fmlookup (cu_tombstones s) k = Some t"
      if "fmlookup (cu_tombstones s') k = Some t" for k t
    proof -
      have "fmlookup (cu_tombstones s) k = Some t" using that by (simp add: claimed(5))
      then show ?thesis using claimed(2) by (cases "k = ?pid") simp_all
    qed
  qed (use claimed(3) in simp_all)
  then show ?thesis by (simp add: claimed(1))
qed

text \<open>A turn that gives up before the debit.\<close>

lemma good_gives_up:
  assumes ok: "custody_ok s W S D F" and v: "v \<in> set W" "\<And>a x. v \<noteq> AwaitTransferReply a x"
  shows "custody_ok (remove_treasury_disbursement (wait_pid v) s) (remove1 v W) S D F"
proof -
  obtain d where d: "fmlookup (cu_records s) (wait_pid v) = Some d" "record_good D (wait_pid v) d" "wait_good s v"
    by (rule waiting_record [OF ok v(1)]) (rule that)
  have st: "di_status d = PendingValidation" using d(1,3) v(2) by (cases v) (auto simp: wait_good_def)
  then have none: "record_transfer d = None" using d(2) by (simp add: record_good_def record_transfer_def)
  show ?thesis
  proof (rule ok_drop [OF ok, where pid = "wait_pid v"])
    show "distinct (map wait_pid (remove1 v W))" by (rule drop_waits(1) [OF custody_okD(2) [OF ok] v(1)])
    show "u \<in> set (remove1 v W) \<Longrightarrow> u \<in> set W \<and> wait_pid u \<noteq> wait_pid v" for u
      by (rule drop_waits(2) [OF custody_okD(2) [OF ok] v(1)])
    show "D \<subseteq> S" by (rule custody_okD(5) [OF ok])
    show "k = wait_pid v \<and> tombstone_good (remove_treasury_disbursement (wait_pid v) s) k t
        \<or> k \<noteq> wait_pid v \<and> fmlookup (cu_tombstones s) k = Some t"
      if "fmlookup (cu_tombstones (remove_treasury_disbursement (wait_pid v) s)) k = Some t" for k t
      using that no_tombstone_while_waiting [OF ok v(1)] by (auto simp: remove_treasury_disbursement_def)
  qed (use d none st in \<open>simp_all add: remove_treasury_disbursement_def old_charge_def charge_def debited_def\<close>)
qed

lemma good_fee:
  assumes ok: "custody_ok s W S D F" and v: "AwaitFeeReply a l \<in> set W"
    and fee: "disburse_fee a l reply s = Some (r, s')"
  shows "custody_ok s' ((case r of Inl _ \<Rightarrow> [] | Inr n \<Rightarrow> next_waits a n) @ remove1 (AwaitFeeReply a l) W)
    ((case r of Inl _ \<Rightarrow> {} | Inr n \<Rightarrow> next_sent n) \<union> S) D F"
  using fee
proof (cases rule: fee_cases)
  case (refused e)
  then show ?thesis using good_gives_up [OF ok v] by simp
next
  case continued
  note drop = drop_waits [OF custody_okD(2) [OF ok] v]
  have "distinct (map wait_pid (AwaitBalanceReply a l # remove1 (AwaitFeeReply a l) W))"
    using drop by fastforce
  moreover have "wait_good s (AwaitBalanceReply a l)" using custody_okD(3) [OF ok v] by (simp add: wait_good_def)
  moreover have "wait_good s u" if "u \<in> set (remove1 (AwaitFeeReply a l) W)" for u
    using drop(2) [OF that] custody_okD(3) [OF ok] by blast
  ultimately show ?thesis using ok continued by (simp add: custody_ok_def)
qed

lemma good_balance:
  assumes ok: "custody_ok s W S D F" and v: "AwaitBalanceReply a l \<in> set W"
    and bal: "disburse_balance now a l reply s = Some (r, s')"
  shows "custody_ok s' ((case r of Inl _ \<Rightarrow> [] | Inr n \<Rightarrow> next_waits a n) @ remove1 (AwaitBalanceReply a l) W)
    ((case r of Inl _ \<Rightarrow> {} | Inr n \<Rightarrow> next_sent n) \<union> S) D F"
proof -
  let ?pid = "td_proposal_id a" and ?v = "AwaitBalanceReply a l"
  obtain d where d: "fmlookup (cu_records s) ?pid = Some d" "treasury_disbursement_matches d a"
    "record_good D ?pid d" "wait_good s ?v"
    by (rule waiting_record [OF ok v]) (auto intro: that)
  have st: "di_status d = PendingValidation" using d(1,4) by (simp add: wait_good_def)
  have id: "di_proposal_id d = ?pid" using d(3) by (simp add: record_good_def)
  have none: "record_transfer d = None" using d(3) st by (simp add: record_good_def record_transfer_def)
  from bal d(1) show ?thesis
  proof (cases rule: balance_cases)
    case (refused e)
    then show ?thesis using good_gives_up [OF ok v] by simp
  next
    case sent
    let ?t = "case di_ledger_created_at d of None \<Rightarrow> now | Some t \<Rightarrow> t"
    let ?f = "frozen_record now d" and ?x = "disbursement_transfer a ?t"
    have x: "record_transfer ?f = Some ?x" by (rule frozen_transfer [OF d(2) id])
    have f: "di_status ?f = PendingTransfer" "di_ledger_created_at ?f \<noteq> None" "di_bucket ?f = td_bucket a"
      "di_amount ?f + di_expected_ledger_fee ?f = args_debit a" "di_proposal_id ?f = ?pid"
      "treasury_disbursement_matches ?f a"
      using d(2) id by (simp_all add: frozen_record_def args_debit_def treasury_disbursement_matches_def)
    note drop = drop_waits [OF custody_okD(2) [OF ok] v]
    have "custody_ok s' (AwaitTransferReply a ?x # remove1 ?v W) (insert ?x S) D F"
    proof (rule ok_put [OF ok])
      show "cu_records s' = fmupd ?pid ?f (cu_records s)" by (simp add: sent(3))
      show "record_good D ?pid ?f"
        using d(3) f d(2) by (simp add: record_good_def treasury_disbursement_matches_def args_debit_def)
      show "distinct (map wait_pid (AwaitTransferReply a ?x # remove1 ?v W))" using drop by fastforce
      show "u \<in> set W \<and> wait_pid u \<noteq> ?pid \<or> wait_good s' u" if u: "u \<in> set (AwaitTransferReply a ?x # remove1 ?v W)" for u
      proof (cases "u = AwaitTransferReply a ?x")
        case True
        then show ?thesis using f x by (simp add: wait_good_def sent(3))
      next
        case False
        then show ?thesis using u drop(2) [of u] by auto
      qed
      show "D \<subseteq> insert ?x S" using custody_okD(5) [OF ok] by blast
      show "cu_reserve s' b + charge b ?f = cu_reserve s b + old_charge b s ?pid" for b
        using sent(2) f d(1) st by (auto simp: sent(3) charge_def debited_def old_charge_def)
      show "k = ?pid \<and> tombstone_good s' k t \<or> k \<noteq> ?pid \<and> fmlookup (cu_tombstones s) k = Some t"
        if "fmlookup (cu_tombstones s') k = Some t" for k t
        using that no_tombstone_while_waiting [OF ok v] by (auto simp: sent(3))
    qed (use none d(1) x in auto)
    then show ?thesis by (simp add: sent(1))
  qed
qed

text \<open>A record whose status moves between debited ones.\<close>

lemma good_restated:
  assumes ok: "custody_ok s W S D F" and d: "fmlookup (cu_records s) pid = Some d" "debited (di_status d)"
    and st: "debited st" "\<And>b. st = DisbursedAt b \<Longrightarrow> \<exists>x \<in> D. record_transfer d = Some x"
    and W: "distinct (map wait_pid W')" "\<And>u. u \<in> set W' \<Longrightarrow> u \<in> set W \<and> wait_pid u \<noteq> pid"
    and s': "cu_records s' = fmupd pid (d\<lparr> di_status := st \<rparr>) (cu_records s)" "cu_reserve s' = cu_reserve s"
    and tomb: "\<And>k t. fmlookup (cu_tombstones s') k = Some t \<Longrightarrow> k = pid \<and> tombstone_good s' k t
        \<or> k \<noteq> pid \<and> fmlookup (cu_tombstones s) k = Some t"
  shows "custody_ok s' W' S D F"
proof (rule ok_put [OF ok s'(1)])
  have same: "record_transfer (d\<lparr> di_status := st' \<rparr>) = record_transfer d" for st' by (simp add: record_transfer_def)
  have "di_ledger_created_at d \<noteq> None"
    using custody_okD(1) [OF ok d(1)] d(2) by (auto simp: record_good_def debited_def)
  moreover have "st \<noteq> PendingValidation" "st \<noteq> LegacyPending" using st(1) by (auto simp: debited_def)
  ultimately show "record_good D pid (d\<lparr> di_status := st \<rparr>)"
    using custody_okD(1) [OF ok d(1)] st(2) by (auto simp: record_good_def same)
  show "D \<subseteq> S" by (rule custody_okD(5) [OF ok])
  show "cu_reserve s' b + charge b (d\<lparr> di_status := st \<rparr>) = cu_reserve s b + old_charge b s pid" for b
    using d st(1) by (simp add: s'(2) charge_def old_charge_def)
qed (use d W tomb in \<open>auto simp: record_transfer_def\<close>)

text \<open>A debited record that goes away with its charge.\<close>

lemma good_credit_drop:
  assumes ok: "custody_ok s W S D F" and d: "fmlookup (cu_records s) pid = Some d" "debited (di_status d)"
    and x: "record_transfer d = Some x" "x \<notin> D"
    and W: "distinct (map wait_pid W')" "\<And>u. u \<in> set W' \<Longrightarrow> u \<in> set W \<and> wait_pid u \<noteq> pid"
    and s': "cu_records s' = fmdrop pid (cu_records s)"
      "cu_reserve s' = (cu_reserve s)(di_bucket d := cu_reserve s (di_bucket d) + (di_amount d + di_expected_ledger_fee d))"
    and tomb: "\<And>k t. fmlookup (cu_tombstones s') k = Some t \<Longrightarrow> k = pid \<and> tombstone_good s' k t
        \<or> k \<noteq> pid \<and> fmlookup (cu_tombstones s) k = Some t"
  shows "custody_ok s' W' (S - {x}) D F"
proof (rule ok_drop [OF ok s'(1)])
  show "D \<subseteq> S - {x}" using custody_okD(5) [OF ok] x(2) by blast
  show "cu_reserve s' b = cu_reserve s b + old_charge b s pid" for b
    using d by (simp add: s'(2) old_charge_def charge_def)
qed (use d x W tomb in auto)

lemma acct_add_effect:
  assumes "acct_add b n s = Some (r, s')"
  shows "r = Inr () \<and> s' = s\<lparr> cu_reserve := (cu_reserve s)(b := cu_reserve s b + n) \<rparr>"
  using assms by (auto simp: acct_add_def checked_add_def split: if_splits)

lemma good_transfer:
  assumes ok: "world_good w" and v: "AwaitTransferReply a x \<in> set (dw_waiting w)"
    and ans: "ledger_answers w x reply w1" and set: "disburse_transfer a reply (dw_state w) = Some (r, s')"
  shows "custody_ok s' (remove1 (AwaitTransferReply a x) (dw_waiting w)) (dw_sent w1) (dw_done w1) (dw_funded w1)"
proof -
  let ?s = "dw_state w" and ?pid = "td_proposal_id a" and ?v = "AwaitTransferReply a x" and ?D = "dw_done w"
  let ?W = "remove1 ?v (dw_waiting w)"
  obtain d where d: "fmlookup (cu_records ?s) ?pid = Some d" "treasury_disbursement_matches d a"
    "wait_good ?s ?v"
    by (rule waiting_record [OF ok v]) (auto intro: that)
  have st: "di_status d = PendingTransfer" "record_transfer d = Some x" using d(1,3) by (simp_all add: wait_good_def)
  then have deb: "debited (di_status d)" by (simp add: debited_def)
  note drop = drop_waits [OF custody_okD(2) [OF ok] v]
  have W: "distinct (map wait_pid ?W)" "\<And>u. u \<in> set ?W \<Longrightarrow> u \<in> set (dw_waiting w) \<and> wait_pid u \<noteq> ?pid"
    using drop by simp_all
  have notomb: "fmlookup (cu_tombstones ?s) ?pid = None" using no_tombstone_while_waiting [OF ok v] by simp
  have put: "custody_ok (set_treasury_disbursement_status ?pid st' ?s) ?W (dw_sent w) ?D (dw_funded w)"
    if "debited st'" "\<And>b. st' = DisbursedAt b \<Longrightarrow> x \<in> ?D" for st'
  proof (rule good_restated [OF ok d(1) deb that(1) _ W])
    show "st' = DisbursedAt b \<Longrightarrow> \<exists>y \<in> ?D. record_transfer d = Some y" for b using that(2) st(2) by auto
    show "k = ?pid \<and> tombstone_good (set_treasury_disbursement_status ?pid st' ?s) k t
        \<or> k \<noteq> ?pid \<and> fmlookup (cu_tombstones ?s) k = Some t"
      if "fmlookup (cu_tombstones (set_treasury_disbursement_status ?pid st' ?s)) k = Some t" for k t
    proof -
      have "fmlookup (cu_tombstones ?s) k = Some t" using that d(1) by (simp add: set_treasury_disbursement_status_def)
      then show ?thesis using notomb by (cases "k = ?pid") simp_all
    qed
  qed (simp_all add: set_treasury_disbursement_status_def d(1))
  from ans show ?thesis
  proof cases
    case (la_ok b)
    then show ?thesis using set put [of "DisbursedAt b"]
      by (auto simp: disburse_transfer_def disburse_settle_def classify_ledger_settlement_def settled_block_def debited_def)
  next
    case (la_duplicate b)
    then show ?thesis using set put [of "DisbursedAt b"]
      by (auto simp: disburse_transfer_def disburse_settle_def classify_ledger_settlement_def settled_block_def debited_def)
  next
    case (la_window e)
    then show ?thesis using set put [of TransportUnknown]
      by (auto simp: disburse_transfer_def disburse_settle_def classify_ledger_settlement_def debited_def)
  next
    case la_rejected
    then show ?thesis using set put [of TransportUnknown] by (auto simp: disburse_transfer_def debited_def)
  next
    case (la_refused e)
    have "classify_ledger_settlement (Inl e) = SettleDefiniteError" using la_refused(4) by (simp add: definite_error_def)
    then have "disburse_transfer a reply ?s
        = bind_act (abort_treasury_disbursement a (args_debit a)) (\<lambda>_. fail_act (LedgerRejected e)) ?s"
      by (simp add: la_refused(1) disburse_transfer_def disburse_settle_def)
    then obtain s1 where s1: "acct_add (td_bucket a) (args_debit a) ?s = Some (Inr (), s1)"
      "s' = remove_treasury_disbursement ?pid s1"
      using set by (cases "acct_add (td_bucket a) (args_debit a) ?s")
        (auto simp: abort_treasury_disbursement_def credit_reserve_bucket_def bind_act_def dest: acct_add_effect split: sum.splits)
    have s1': "s1 = ?s\<lparr> cu_reserve := (cu_reserve ?s)(td_bucket a := cu_reserve ?s (td_bucket a) + args_debit a) \<rparr>"
      using acct_add_effect [OF s1(1)] by simp
    have same: "di_bucket d = td_bucket a" "di_amount d + di_expected_ledger_fee d = args_debit a"
      using d(2) by (simp_all add: treasury_disbursement_matches_def args_debit_def)
    have "custody_ok s' ?W (dw_sent w - {x}) ?D (dw_funded w)"
    proof (rule good_credit_drop [OF ok d(1) deb st(2) la_refused(3) W])
      show "k = ?pid \<and> tombstone_good s' k t \<or> k \<noteq> ?pid \<and> fmlookup (cu_tombstones ?s) k = Some t"
        if "fmlookup (cu_tombstones s') k = Some t" for k t
      proof -
        have "fmlookup (cu_tombstones ?s) k = Some t" using that by (simp add: s1 s1' remove_treasury_disbursement_def)
        then show ?thesis using notomb by (cases "k = ?pid") simp_all
      qed
    qed (simp_all add: s1 s1' remove_treasury_disbursement_def same)
    then show ?thesis by (simp add: la_refused)
  qed
qed

lemma reconcile_cases:
  assumes "reconcile_treasury_disburse now caller pid outcome s = Some (r, s')"
  obtains (unchanged) "s' = s"
  | (stuck) d where "fmlookup (cu_records s) pid = Some d" "di_status d = PendingValidation"
      "outcome = AssertNotExecuted" "s' = remove_treasury_disbursement pid s"
  | (ambiguous) d where "fmlookup (cu_records s) pid = Some d"
      "di_status d = PendingTransfer \<or> di_status d = TransportUnknown"
      "reconcile_ambiguous now caller pid d outcome s = Some (r, s')"
  using assms
  by (auto simp: reconcile_treasury_disburse_def need_def split: if_splits option.splits
      treasury_disbursement_status.splits disburse_outcome.splits)

lemma ambiguous_executed:
  "reconcile_ambiguous now caller pid d (AssertExecuted b) s = Some (r, s') \<Longrightarrow>
     s' = set_treasury_disbursement_status pid (DisbursedAt b)
       (write_reconciliation_tombstone now caller d DecidedExecuted (Some b) s)"
  by (simp add: reconcile_ambiguous_def)

lemma ambiguous_not_executed:
  assumes "reconcile_ambiguous now caller pid d AssertNotExecuted s = Some (r, s')"
    "di_amount d + di_expected_ledger_fee d < u128_limit"
  shows "s' = remove_treasury_disbursement pid
    ((write_reconciliation_tombstone now caller d DecidedNotExecuted None s)\<lparr> cu_reserve :=
       (cu_reserve s)(di_bucket d := cu_reserve s (di_bucket d) + (di_amount d + di_expected_ledger_fee d)) \<rparr>)"
proof -
  let ?s = "write_reconciliation_tombstone now caller d DecidedNotExecuted None s"
  have r: "cu_reserve ?s = cu_reserve s" by (simp add: write_reconciliation_tombstone_def split: option.split)
  have n: "sat_add 128 (di_amount d) (di_expected_ledger_fee d) = di_amount d + di_expected_ledger_fee d"
    using assms(2) by (simp add: sat_add_def)
  obtain r1 s1 where s1: "acct_add (di_bucket d) (di_amount d + di_expected_ledger_fee d) ?s = Some (r1, s1)"
    using assms(1) by (cases "acct_add (di_bucket d) (di_amount d + di_expected_ledger_fee d) ?s")
      (auto simp: reconcile_ambiguous_def credit_reserve_bucket_def n bind_act_def)
  from acct_add_effect [OF this] s1 assms(1) show ?thesis
    by (auto simp: reconcile_ambiguous_def credit_reserve_bucket_def n bind_act_def r)
qed

lemma good_fewer_sent: "custody_ok s W S D F \<Longrightarrow> N \<inter> D = {} \<Longrightarrow> custody_ok s W (S - N) D F"
  by (auto simp: custody_ok_def)

lemma no_tombstone_undecided:
  assumes "custody_ok s W S D F" "fmlookup (cu_records s) pid = Some d" "\<And>b. di_status d \<noteq> DisbursedAt b"
  shows "fmlookup (cu_tombstones s) pid = None"
proof (cases "fmlookup (cu_tombstones s) pid")
  case (Some t)
  then show ?thesis using custody_okD(6) [OF assms(1) Some] assms(2,3)
    by (auto simp: tombstone_good_def split: option.splits reconciliation_decision.splits)
qed

lemma tombstone_step:
  assumes "fmlookup (cu_tombstones s) pid = None" "fmlookup (cu_tombstones s') = fmlookup (fmupd pid t0 (cu_tombstones s))"
    "tombstone_good s' pid t0" "fmlookup (cu_tombstones s') k = Some t"
  shows "k = pid \<and> tombstone_good s' k t \<or> k \<noteq> pid \<and> fmlookup (cu_tombstones s) k = Some t"
  using assms by (cases "k = pid") simp_all

lemma good_reconcile:
  assumes ok: "world_good w" and true: "truthful w pid outcome"
    and idle: "pid \<notin> wait_pid ` set (dw_waiting w)"
    and rec: "reconcile_treasury_disburse now caller pid outcome (dw_state w) = Some (r, s')"
  shows "custody_ok s' (dw_waiting w) (dw_sent w - never_sent w pid outcome) (dw_done w) (dw_funded w)"
proof -
  let ?s = "dw_state w" and ?D = "dw_done w" and ?W = "dw_waiting w"
  have W: "distinct (map wait_pid ?W)" "\<And>u. u \<in> set ?W \<Longrightarrow> u \<in> set ?W \<and> wait_pid u \<noteq> pid"
    using custody_okD(2) [OF ok] idle by auto
  have gone: "never_sent w pid outcome \<inter> ?D = {}"
    using true by (auto simp: never_sent_def truthful_def split: disburse_outcome.splits)
  from rec show ?thesis
  proof (cases rule: reconcile_cases)
    case unchanged
    then show ?thesis using good_fewer_sent [OF ok gone] by simp
  next
    case (stuck d)
    have none: "record_transfer d = None"
      using custody_okD(1) [OF ok stuck(1)] stuck(2) by (simp add: record_good_def record_transfer_def)
    have "fmlookup (cu_tombstones ?s) pid = None" by (rule no_tombstone_undecided [OF ok stuck(1)]) (simp add: stuck(2))
    then have "custody_ok s' ?W (dw_sent w) ?D (dw_funded w)"
      by (intro ok_drop [OF ok, where pid = pid] W)
         (use stuck none custody_okD(5) [OF ok] in \<open>auto simp: remove_treasury_disbursement_def old_charge_def charge_def debited_def\<close>)
    then show ?thesis by (rule good_fewer_sent [OF _ gone])
  next
    case (ambiguous d)
    have deb: "debited (di_status d)" and und: "\<And>b. di_status d \<noteq> DisbursedAt b"
      using ambiguous(2) by (auto simp: debited_def)
    note good = custody_okD(1) [OF ok ambiguous(1)]
    obtain x where x: "record_transfer d = Some x"
      using good deb by (auto simp: record_good_def record_transfer_def debited_def)
    have id: "di_proposal_id d = pid" and small: "di_amount d + di_expected_ledger_fee d < u128_limit"
      using good by (simp_all add: record_good_def)
    note fresh = no_tombstone_undecided [OF ok ambiguous(1) und]
    show ?thesis
    proof (cases outcome)
      case (AssertExecuted b)
      have paid: "x \<in> ?D" using true ambiguous(1) x by (auto simp: truthful_def AssertExecuted)
      let ?s1 = "write_reconciliation_tombstone now caller d DecidedExecuted (Some b) ?s"
      have s': "s' = set_treasury_disbursement_status pid (DisbursedAt b) ?s1"
        by (rule ambiguous_executed [OF ambiguous(3) [unfolded AssertExecuted]])
      have put: "cu_records s' = fmupd pid (d\<lparr> di_status := DisbursedAt b \<rparr>) (cu_records ?s)" "cu_reserve s' = cu_reserve ?s"
        using fresh ambiguous(1) by (simp_all add: s' write_reconciliation_tombstone_def id set_treasury_disbursement_status_def)
      obtain t0 where t0: "cu_tombstones s' = fmupd pid t0 (cu_tombstones ?s)" "rt_decision t0 = DecidedExecuted"
        "rt_asserted_block_index t0 = Some b"
        using fresh ambiguous(1) by (simp add: s' write_reconciliation_tombstone_def id set_treasury_disbursement_status_def)
      have tg: "tombstone_good s' pid t0" using t0 put by (simp add: tombstone_good_def)
      have "custody_ok s' ?W (dw_sent w) ?D (dw_funded w)"
        by (rule good_restated [OF ok ambiguous(1) deb _ _ W put])
           (use paid x tombstone_step [OF fresh _ tg] t0 in \<open>auto simp: debited_def\<close>)
      then show ?thesis by (rule good_fewer_sent [OF _ gone])
    next
      case AssertNotExecuted
      have undone: "x \<notin> ?D" using true ambiguous(1) x by (auto simp: truthful_def AssertNotExecuted)
      have s': "s' = remove_treasury_disbursement pid
        ((write_reconciliation_tombstone now caller d DecidedNotExecuted None ?s)\<lparr> cu_reserve :=
           (cu_reserve ?s)(di_bucket d := cu_reserve ?s (di_bucket d) + (di_amount d + di_expected_ledger_fee d)) \<rparr>)"
        by (rule ambiguous_not_executed [OF ambiguous(3) [unfolded AssertNotExecuted] small])
      have drop: "cu_records s' = fmdrop pid (cu_records ?s)"
        "cu_reserve s' = (cu_reserve ?s)(di_bucket d := cu_reserve ?s (di_bucket d) + (di_amount d + di_expected_ledger_fee d))"
        using fresh by (simp_all add: s' write_reconciliation_tombstone_def id remove_treasury_disbursement_def)
      obtain t0 where t0: "cu_tombstones s' = fmupd pid t0 (cu_tombstones ?s)" "rt_decision t0 = DecidedNotExecuted"
        using fresh by (simp add: s' write_reconciliation_tombstone_def id remove_treasury_disbursement_def)
      have tg: "tombstone_good s' pid t0" using t0 drop by (simp add: tombstone_good_def)
      have "never_sent w pid outcome = {x}" using ambiguous(1) x by (auto simp: never_sent_def AssertNotExecuted)
      moreover have "custody_ok s' ?W (dw_sent w - {x}) ?D (dw_funded w)"
        by (rule good_credit_drop [OF ok ambiguous(1) deb x undone W drop])
           (use tombstone_step [OF fresh _ tg] t0 in auto)
      ultimately show ?thesis by simp
    qed
  qed
qed

text \<open>The upgrade removes claims without a debit, and only those.\<close>

lemma good_upgrade:
  assumes ok: "custody_ok s W S D F" and up: "normalize_disbursements s = Some (Inr (), s')"
  shows "custody_ok s' [] S D F"
proof -
  let ?keep = "\<lambda>k. case fmlookup (cu_records s) k of None \<Rightarrow> False | Some d \<Rightarrow> preserved_on_upgrade (di_status d)"
  have s': "s' = s\<lparr> cu_records := fmfilter ?keep (cu_records s) \<rparr>"
    using up by (auto simp: normalize_disbursements_def split: if_splits)
  have pres: "preserved_on_upgrade st \<longleftrightarrow> st \<noteq> PendingValidation" for st
    by (simp add: preserved_on_upgrade_def split: treasury_disbursement_status.split)
  have kept: "fmlookup (cu_records s') k = Some d" if "fmlookup (cu_records s) k = Some d" "di_status d \<noteq> PendingValidation" for k d
    using that by (simp add: s' pres)
  have dropped: "fmlookup (cu_records s') k = None" if "fmlookup (cu_records s) k = Some d" "di_status d = PendingValidation" for k d
    using that by (simp add: s' pres)
  have absent: "fmlookup (cu_records s') k = None" if "fmlookup (cu_records s) k = None" for k
    using that by (simp add: s')
  have old: "fmlookup (cu_records s) k = Some d" if "fmlookup (cu_records s') k = Some d" for k d
    using that by (simp add: s' split: if_splits)
  have charge: "charges b s' = charges b s" for b
  proof -
    have "fmget 0 (fmmap (charge b) (cu_records s')) k = fmget 0 (fmmap (charge b) (cu_records s)) k" for k
    proof (cases "fmlookup (cu_records s) k")
      case None
      then show ?thesis using absent [OF None] by (simp add: fmget_def)
    next
      case (Some d)
      then show ?thesis using kept [OF Some] dropped [OF Some]
        by (cases "di_status d = PendingValidation") (simp_all add: fmget_def charge_def debited_def)
    qed
    then show ?thesis unfolding charges_def by (intro antisym fmtotal_mono) simp_all
  qed
  have "\<exists>k d. fmlookup (cu_records s') k = Some d \<and> record_transfer d = Some x" if x: "x \<in> S" for x
  proof -
    obtain k d where d: "fmlookup (cu_records s) k = Some d" "record_transfer d = Some x"
      using custody_okD(4) [OF ok x] by blast
    then have "di_status d \<noteq> PendingValidation"
      using custody_okD(1) [OF ok d(1)] by (auto simp: record_good_def record_transfer_def)
    then show ?thesis using kept [OF d(1)] d(2) by blast
  qed
  moreover have "tombstone_good s' k t" if t: "fmlookup (cu_tombstones s') k = Some t" for k t
  proof -
    have good: "tombstone_good s k t" using custody_okD(6) [OF ok, of k t] t by (simp add: s')
    show ?thesis
    proof (cases "rt_decision t = DecidedExecuted \<and> rt_asserted_block_index t \<noteq> None")
      case True
      then obtain d b where "fmlookup (cu_records s) k = Some d" "di_status d = DisbursedAt b"
        using good by (auto simp: tombstone_good_alt)
      then have "fmlookup (cu_records s') k = Some d \<and> di_status d = DisbursedAt b" using kept [of k d] by simp
      then show ?thesis unfolding tombstone_good_alt if_P [OF True] by blast
    next
      case False
      have "fmlookup (cu_records s) k = None" using good unfolding tombstone_good_alt if_not_P [OF False] .
      then have "fmlookup (cu_records s') k = None" by (rule absent)
      then show ?thesis unfolding tombstone_good_alt if_not_P [OF False] .
    qed
  qed
  moreover have "cu_reserve s' b + charges b s' = F b" for b
    using custody_okD(7) [OF ok, of b] by (simp add: charge) (simp add: s')
  moreover have "record_good D k d" if "fmlookup (cu_records s') k = Some d" for k d
    using custody_okD(1) [OF ok old [OF that]] .
  ultimately show ?thesis unfolding custody_ok_def using custody_okD(5) [OF ok] by (intro conjI allI impI ballI) simp_all
qed

lemma good_fund:
  assumes ok: "custody_ok s W S D F" and add: "acct_add b n s = Some (Inr (), s')"
  shows "custody_ok s' W S D (F(b := F b + n))"
proof -
  have s': "s' = s\<lparr> cu_reserve := (cu_reserve s)(b := cu_reserve s b + n) \<rparr>" using acct_add_effect [OF add] by simp
  then have eq: "cu_records s' = cu_records s" by simp
  have "charges c s' = charges c s" "wait_good s' v = wait_good s v" "tombstone_good s' k t = tombstone_good s k t" for c v k t
    unfolding charges_def wait_good_def tombstone_good_def eq by (rule refl)+
  then show ?thesis using ok by (simp add: custody_ok_def eq) (simp add: s')
qed

lemma good_step:
  assumes "disburse_step w w'" "world_good w" "\<not> dw_raced w'"
  shows "world_good w'"
  using assms(1)
proof cases
  case (ds_time n)
  then show ?thesis using assms(2) by simp
next
  case (ds_fund b n s)
  then show ?thesis using good_fund [OF assms(2)] by simp
next
  case (ds_start caller a r s)
  then show ?thesis using good_started [OF assms(2)] by (simp add: after_segment_def)
next
  case (ds_fee a l reply r s)
  then show ?thesis using good_fee [OF assms(2)] by (simp add: after_segment_def)
next
  case (ds_balance a l reply r s)
  then show ?thesis using good_balance [OF assms(2)] by (simp add: after_segment_def)
next
  case (ds_execute x)
  then show ?thesis using assms(2) by (auto simp: custody_ok_def record_good_def)
next
  case (ds_transfer a x reply w1 r s)
  then show ?thesis using good_transfer [OF assms(2)] by simp
next
  case (ds_lost v)
  then show ?thesis
    using assms(2) distinct_keys_remove1 [of wait_pid "dw_waiting w" v] set_remove1_subset [of v "dw_waiting w"]
    by (auto simp: custody_ok_def)
next
  case (ds_reconcile pid outcome caller r s)
  then show ?thesis using good_reconcile [OF assms(2)] assms(3) by simp
next
  case (ds_upgrade s)
  then show ?thesis using good_upgrade [OF assms(2)] by simp
qed

lemma raced_step: "disburse_step w w' \<Longrightarrow> dw_raced w \<Longrightarrow> dw_raced w'"
  by (induction rule: disburse_step.induct) (auto simp: after_segment_def elim: ledger_answers.cases)

lemma good_run: "disburse_run w \<Longrightarrow> \<not> dw_raced w \<Longrightarrow> world_good w"
proof (induction rule: disburse_run.induct)
  case (dr_init s n)
  then show ?case by (simp add: custody_ok_def charges_def)
next
  case (dr_step w w')
  then show ?case using good_step raced_step by blast
qed

end
