(* ===== verification/Pool_Disburse_Properties.thy ===== *)
theory Pool_Disburse_Properties
  imports Pool_Disburse_Runs
begin

text \<open>
  The properties of the pool's disbursements, with a concrete run: 100 units in the operations reserve and
  a disbursement of 50 with a ledger fee of 2.
\<close>

section \<open>A concrete run\<close>

definition exd_args :: treasury_disburse_args where
  "exd_args = \<lparr> td_proposal_id = 1, td_bucket = OperationsBucket, td_recipient = [9],
     td_recipient_subaccount = None, td_amount = 50, td_expected_ledger_fee = 2 \<rparr>"

definition exd_record :: "treasury_disbursement_status \<Rightarrow> nat option \<Rightarrow> treasury_disbursement" where
  "exd_record st t = \<lparr> di_proposal_id = 1, di_bucket = OperationsBucket, di_recipient = [9],
     di_recipient_subaccount = None, di_amount = 50, di_expected_ledger_fee = 2, di_status = st,
     di_created_at_ns = 7, di_ledger_created_at = t \<rparr>"

definition exd_state ::
  "nat \<Rightarrow> (nat, treasury_disbursement) fmap \<Rightarrow> (nat, reconciliation_tombstone) fmap \<Rightarrow> custody" where
  "exd_state n R T = \<lparr> cu_reserve = (\<lambda>b. if b = OperationsBucket then n else 0), cu_records = R,
     cu_tombstones = T, cu_treasury = Some [2], cu_token = Some [1], cu_controller = Some [3] \<rparr>"

definition exd_world ::
  "custody \<Rightarrow> disburse_wait list \<Rightarrow> icrc_transfer_args set \<Rightarrow> icrc_transfer_args set \<Rightarrow> bool \<Rightarrow> disburse_world" where
  "exd_world s W S D raced = \<lparr> dw_state = s, dw_now = 7, dw_waiting = W, dw_sent = S, dw_done = D,
     dw_funded = (\<lambda>b. if b = OperationsBucket then 100 else 0), dw_raced = raced \<rparr>"

abbreviation exd_transfer :: icrc_transfer_args where
  "exd_transfer \<equiv> disbursement_transfer exd_args 7"

abbreviation exd_one :: "treasury_disbursement_status \<Rightarrow> nat option \<Rightarrow> (nat, treasury_disbursement) fmap" where
  "exd_one st t \<equiv> fmupd 1 (exd_record st t) fmempty"

lemma exd_fields [simp]:
  "td_proposal_id exd_args = 1" "td_bucket exd_args = OperationsBucket" "args_debit exd_args = 52"
  "td_expected_ledger_fee exd_args = 2" "td_amount exd_args = 50"
  "di_status (exd_record st t) = st" "di_ledger_created_at (exd_record st t) = t"
  "di_proposal_id (exd_record st t) = 1"
  "cu_records (exd_state n R T) = R" "cu_tombstones (exd_state n R T) = T" "cu_treasury (exd_state n R T) = Some [2]"
  "cu_token (exd_state n R T) = Some [1]" "cu_controller (exd_state n R T) = Some [3]"
  "cu_reserve (exd_state n R T) OperationsBucket = n"
  by (simp_all add: exd_args_def args_debit_def exd_record_def exd_state_def)

lemma exd_updates [simp]:
  "(exd_state n R T)\<lparr> cu_records := R' \<rparr> = exd_state n R' T"
  "(exd_state n R T)\<lparr> cu_tombstones := T' \<rparr> = exd_state n R T'"
  "(exd_state n R T)\<lparr> cu_reserve := (cu_reserve (exd_state n R T))(OperationsBucket := m) \<rparr> = exd_state m R T"
  "(exd_record st t)\<lparr> di_status := st' \<rparr> = exd_record st' t"
  "(exd_record st t)\<lparr> di_ledger_created_at := t' \<rparr> = exd_record st t'"
  by (auto simp: exd_state_def exd_record_def fun_eq_iff)

lemma exd_record_transfer [simp]: "record_transfer (exd_record st (Some 7)) = Some exd_transfer"
  by (simp add: record_transfer_def exd_record_def disbursement_transfer_def exd_args_def)

lemma exd_start:
  "disburse_start 7 [2] exd_args (exd_state 100 fmempty fmempty)
     = Some (Inr (AskLedgerFee [1]), exd_state 100 (exd_one PendingValidation None) fmempty)"
  by (simp add: disburse_start_def claim_treasury_disbursement_def bind_act_def checked_add_def)
     (simp add: exd_record_def exd_args_def)

lemma exd_fee: "disburse_fee exd_args [1] (Some 2) s = Some (Inr (AskPoolBalance [1]), s)"
  by (simp add: disburse_fee_def query_value_def to_width_def)

lemma exd_balance:
  "disburse_balance 7 exd_args [1] (Some 1000) (exd_state 100 (exd_one PendingValidation None) fmempty)
     = Some (Inr (SendDisbursement [1] exd_transfer), exd_state 48 (exd_one PendingTransfer (Some 7)) fmempty)"
  by (simp add: disburse_balance_def query_value_def to_width_def debit_reserve_bucket_def bind_act_def acct_sub_def
      checked_sub_def set_treasury_disbursement_status_def freeze_ledger_time_def)

lemma exd_run_sent:
  "disburse_run (exd_world (exd_state 48 (exd_one PendingTransfer (Some 7)) fmempty)
     [AwaitTransferReply exd_args exd_transfer] {exd_transfer} {} False)"
proof -
  let ?w0 = "exd_world (exd_state 100 fmempty fmempty) [] {} {} False"
  let ?s1 = "exd_state 100 (exd_one PendingValidation None) fmempty"
  let ?w1 = "exd_world ?s1 [AwaitFeeReply exd_args [1]] {} {} False"
  let ?w2 = "exd_world ?s1 [AwaitBalanceReply exd_args [1]] {} {} False"
  have "disburse_run ?w0"
    using disburse_run.dr_init [of "exd_state 100 fmempty fmempty" 7] by (simp add: exd_world_def exd_state_def)
  moreover have "disburse_step ?w0 ?w1"
    using disburse_step.ds_start [of ?w0 "[2]" exd_args] exd_start by (simp add: exd_world_def after_segment_def)
  ultimately have "disburse_run ?w1" by (rule disburse_run.dr_step)
  moreover have "disburse_step ?w1 ?w2"
    using disburse_step.ds_fee [of exd_args "[1]" ?w1 "Some 2"] exd_fee by (simp add: exd_world_def after_segment_def)
  ultimately have "disburse_run ?w2" by (rule disburse_run.dr_step)
  moreover have "disburse_step ?w2 (exd_world (exd_state 48 (exd_one PendingTransfer (Some 7)) fmempty)
     [AwaitTransferReply exd_args exd_transfer] {exd_transfer} {} False)"
    using disburse_step.ds_balance [of exd_args "[1]" ?w2 "Some 1000"] exd_balance
    by (simp add: exd_world_def after_segment_def)
  ultimately show ?thesis by (rule disburse_run.dr_step)
qed

lemma exd_run_settled:
  "disburse_run (exd_world (exd_state 48 (exd_one (DisbursedAt 4) (Some 7)) fmempty) [] {exd_transfer} {exd_transfer} False)"
proof -
  let ?s = "exd_state 48 (exd_one PendingTransfer (Some 7)) fmempty"
  let ?w0 = "exd_world ?s [AwaitTransferReply exd_args exd_transfer] {exd_transfer} {} False"
  let ?w1 = "exd_world ?s [AwaitTransferReply exd_args exd_transfer] {exd_transfer} {exd_transfer} False"
  have "disburse_step ?w0 ?w1"
    using disburse_step.ds_execute [of exd_transfer ?w0] by (simp add: exd_world_def)
  with exd_run_sent have "disburse_run ?w1" by (rule disburse_run.dr_step)
  moreover have "disburse_step ?w1 (exd_world (exd_state 48 (exd_one (DisbursedAt 4) (Some 7)) fmempty) []
      {exd_transfer} {exd_transfer} False)"
  proof -
    have "ledger_answers ?w1 exd_transfer (TransferOk 4) ?w1" by (rule ledger_answers.la_ok) (simp add: exd_world_def)
    moreover have "disburse_transfer exd_args (TransferOk 4) ?s
        = Some (Inr (DisburseExecuted 4), exd_state 48 (exd_one (DisbursedAt 4) (Some 7)) fmempty)"
      by (simp add: disburse_transfer_def disburse_settle_def classify_ledger_settlement_def settled_block_def
          set_treasury_disbursement_status_def)
    ultimately show ?thesis
      using disburse_step.ds_transfer [of exd_args exd_transfer ?w1 "TransferOk 4" ?w1] by (simp add: exd_world_def)
  qed
  ultimately show ?thesis by (rule disburse_run.dr_step)
qed

abbreviation exd_settled :: disburse_world where
  "exd_settled \<equiv> exd_world (exd_state 48 (exd_one (DisbursedAt 4) (Some 7)) fmempty) [] {exd_transfer} {exd_transfer} False"

lemma exd_settled_facts:
  "\<not> dw_raced exd_settled" "exd_transfer \<in> dw_done exd_settled"
  "fmlookup (cu_records (dw_state exd_settled)) 1 = Some (exd_record (DisbursedAt 4) (Some 7))"
  "cu_reserve (dw_state exd_settled) OperationsBucket = 48" "dw_funded exd_settled OperationsBucket = 100"
  by (simp_all add: exd_world_def)

section \<open>Properties\<close>

text \<open>C7: The pool's reserves are exact through all disbursements (lost callbacks, ambiguous outcomes,
  truthful reconciliation and upgrades included), provided nothing is reconciled while its own turn is
  still waiting: a bucket's reserve plus what its debited disbursements took is what was put in, and every
  transfer the ledger executed belongs to a debited record with the same recipient, amount and fee.\<close>

theorem disburse_reserve_exact:
  assumes "disburse_run w" "\<not> dw_raced w"
  shows "cu_reserve (dw_state w) b + charges b (dw_state w) = dw_funded w b
    \<and> (\<forall>x \<in> dw_done w. \<exists>pid d. fmlookup (cu_records (dw_state w)) pid = Some d
         \<and> record_transfer d = Some x \<and> debited (di_status d))"
proof -
  note ok = good_run [OF assms]
  have "\<exists>pid d. fmlookup (cu_records (dw_state w)) pid = Some d \<and> record_transfer d = Some x \<and> debited (di_status d)"
    if x: "x \<in> dw_done w" for x
  proof -
    have "x \<in> dw_sent w" using custody_okD(5) [OF ok] x by blast
    then obtain pid d where d: "fmlookup (cu_records (dw_state w)) pid = Some d" "record_transfer d = Some x"
      using custody_okD(4) [OF ok] by blast
    have "debited (di_status d)"
      using custody_okD(1) [OF ok d(1)] d(2)
      by (cases "di_status d") (auto simp: record_good_def record_transfer_def debited_def)
    then show ?thesis using d by blast
  qed
  then show ?thesis using custody_okD(7) [OF ok] by blast
qed

theorem disburse_reserve_exact_witness:
  "\<exists>w. disburse_run w \<and> charges OperationsBucket (dw_state w) = 52 \<and> dw_done w \<noteq> {}"
proof -
  have "charges OperationsBucket (dw_state exd_settled) = 52"
    using disburse_reserve_exact [OF exd_run_settled exd_settled_facts(1), of OperationsBucket] exd_settled_facts(4,5) by linarith
  then show ?thesis using exd_run_settled exd_settled_facts(2) by blast
qed

text \<open>C8: No proposal is paid twice by the pool: under the same condition, two transfers the ledger executed
  with the memo of the same proposal are the same transfer, timestamp included.\<close>

theorem disburse_pays_once:
  assumes "disburse_run w" "\<not> dw_raced w" "x \<in> dw_done w" "y \<in> dw_done w" "it_memo x = it_memo y"
  shows "x = y"
proof -
  note ok = good_run [OF assms(1,2)]
  have "\<exists>pid d. fmlookup (cu_records (dw_state w)) pid = Some d \<and> record_transfer d = Some z \<and> pid < u64_limit
      \<and> it_memo z = Some (treasury_disburse_memo pid)" if z: "z \<in> dw_done w" for z
  proof -
    have "z \<in> dw_sent w" using custody_okD(5) [OF ok] z by blast
    then obtain pid d where d: "fmlookup (cu_records (dw_state w)) pid = Some d" "record_transfer d = Some z"
      using custody_okD(4) [OF ok] by blast
    moreover have "pid < u64_limit" "di_proposal_id d = pid"
      using custody_okD(1) [OF ok d(1)] by (simp_all add: record_good_def)
    moreover have "it_memo z = Some (treasury_disburse_memo (di_proposal_id d))"
      using d(2) by (auto simp: record_transfer_def)
    ultimately show ?thesis by blast
  qed
  then obtain p q d e where d: "fmlookup (cu_records (dw_state w)) p = Some d" "record_transfer d = Some x" "p < u64_limit"
      "it_memo x = Some (treasury_disburse_memo p)"
    and e: "fmlookup (cu_records (dw_state w)) q = Some e" "record_transfer e = Some y" "q < u64_limit"
      "it_memo y = Some (treasury_disburse_memo q)"
    using assms(3,4) by metis
  have "treasury_disburse_memo p = treasury_disburse_memo q" using assms(5) d(4) e(4) by simp
  then have "p = q"
    using be_bytes_inj [of 8 p q] d(3) e(3) by (simp add: treasury_disburse_memo_def)
  then show ?thesis using d e by simp
qed

theorem disburse_pays_once_witness:
  "\<exists>w x. disburse_run w \<and> x \<in> dw_done w \<and> (\<forall>y \<in> dw_done w. it_memo y = it_memo x \<longrightarrow> y = x)"
  using disburse_pays_once [OF exd_run_settled exd_settled_facts(1) _ exd_settled_facts(2)] exd_run_settled
    exd_settled_facts(2) by blast



text \<open>C36: The condition is needed: a truthful reconciliation of a disbursement whose transfer is still in
  flight re-credits the reserve, and the definite error that then comes back from the ledger re-credits it
  once more.\<close>

theorem disburse_double_credit:
  "\<exists>w. disburse_run w \<and> dw_done w = {} \<and> dw_funded w OperationsBucket = 100
     \<and> cu_reserve (dw_state w) OperationsBucket = 152"
proof -
  let ?s = "exd_state 48 (exd_one PendingTransfer (Some 7)) fmempty"
  let ?w = "exd_world ?s [AwaitTransferReply exd_args exd_transfer] {exd_transfer} {} False"
  define T where "T = cu_tombstones (write_reconciliation_tombstone 7 [3] (exd_record PendingTransfer (Some 7))
      DecidedNotExecuted None ?s)"
  let ?w1 = "exd_world (exd_state 100 fmempty T) [AwaitTransferReply exd_args exd_transfer] {} {} True"
  let ?w2 = "exd_world (exd_state 152 fmempty T) [] {} {} True"
  have "reconcile_treasury_disburse 7 [3] 1 AssertNotExecuted ?s = Some (Inr DisburseReverted, exd_state 100 fmempty T)"
  proof -
    have w: "write_reconciliation_tombstone 7 [3] (exd_record PendingTransfer (Some 7)) DecidedNotExecuted None ?s
        = exd_state 48 (exd_one PendingTransfer (Some 7)) T"
      unfolding T_def by (simp add: write_reconciliation_tombstone_def)
    have "di_bucket (exd_record PendingTransfer (Some 7)) = OperationsBucket" "di_amount (exd_record PendingTransfer (Some 7)) = 50"
      "di_expected_ledger_fee (exd_record PendingTransfer (Some 7)) = 2" by (simp_all add: exd_record_def)
    then show ?thesis
      by (simp add: reconcile_treasury_disburse_def bind_act_def need_def reconcile_ambiguous_def w [simplified] credit_reserve_bucket_def
          acct_add_def sat_add_def checked_add_def remove_treasury_disbursement_def fmdrop_fmupd_same)
  qed
  moreover have "truthful ?w 1 AssertNotExecuted" by (simp add: truthful_def exd_world_def)
  moreover have "never_sent ?w 1 AssertNotExecuted = {exd_transfer}" by (auto simp: never_sent_def exd_world_def)
  ultimately have "disburse_step ?w ?w1"
    using disburse_step.ds_reconcile [of ?w 1 AssertNotExecuted "[3]"] by (simp add: exd_world_def)
  with exd_run_sent have "disburse_run ?w1" by (rule disburse_run.dr_step)
  moreover have "disburse_step ?w1 ?w2"
  proof -
    have "ledger_answers ?w1 exd_transfer (TransferErr TemporarilyUnavailable) (?w1\<lparr> dw_sent := dw_sent ?w1 - {exd_transfer} \<rparr>)"
      by (rule ledger_answers.la_refused) (simp_all add: exd_world_def definite_error_def classify_ledger_settlement_def)
    then have "ledger_answers ?w1 exd_transfer (TransferErr TemporarilyUnavailable) ?w1" by (simp add: exd_world_def)
    moreover have "disburse_transfer exd_args (TransferErr TemporarilyUnavailable) (exd_state 100 fmempty T)
        = Some (Inl (LedgerRejected TemporarilyUnavailable), exd_state 152 fmempty T)"
      by (simp add: disburse_transfer_def disburse_settle_def classify_ledger_settlement_def abort_treasury_disbursement_def
          credit_reserve_bucket_def acct_add_def bind_act_def checked_add_def remove_treasury_disbursement_def)
    ultimately show ?thesis
      using disburse_step.ds_transfer [of exd_args exd_transfer ?w1 "TransferErr TemporarilyUnavailable" ?w1]
      by (simp add: exd_world_def)
  qed
  ultimately have "disburse_run ?w2" by (rule disburse_run.dr_step)
  then show ?thesis by (intro exI [of _ ?w2]) (simp add: exd_world_def)
qed

end
