(* ===== verification/Staking_Types.thy ===== *)
theory Staking_Types
  imports Segment Eager_Cell "HOL-Library.Char_ord"
begin

text \<open>
  The data of \<^verbatim>\<open>staking/src/lib.rs\<close>: positions and pending lock operations, governance parameters with
  their nine-point contract, proposal types and records, votes, snapshots, the keys of the stable maps and
  the two grouped cells. Everything here is pure; the operations are in \<open>Staking\<close> and
  \<open>Staking_Governance\<close>.
\<close>

section \<open>Constants\<close>

definition MIN_LOCK_DAYS :: nat where "MIN_LOCK_DAYS = 30"
definition MAX_LOCK_DAYS :: nat where "MAX_LOCK_DAYS = 1095"
definition MIN_LOCK_DURATION_NS :: nat where "MIN_LOCK_DURATION_NS = 2592000000000000"
definition MAX_LOCK_DURATION_NS :: nat where "MAX_LOCK_DURATION_NS = 94608000000000000"
definition DAY_NS :: nat where "DAY_NS = 24 * 60 * 60 * 1000000000"

definition STAKING_VOTING_DELAY_NS :: nat where
  "STAKING_VOTING_DELAY_NS = 24 * 60 * 60 * 1000000000"
definition STAKING_VOTING_PERIOD_NS :: nat where
  "STAKING_VOTING_PERIOD_NS = 7 * 24 * 60 * 60 * 1000000000"
definition STAKING_EXECUTION_TIMELOCK_NS :: nat where
  "STAKING_EXECUTION_TIMELOCK_NS = 7 * 24 * 60 * 60 * 1000000000"
definition VK_UPGRADE_MIN_TIMELOCK_NS :: nat where
  "VK_UPGRADE_MIN_TIMELOCK_NS = 14 * 24 * 60 * 60 * 1000000000"
definition VK_OLD_KEY_GRACE_NS :: nat where
  "VK_OLD_KEY_GRACE_NS = 7 * 24 * 60 * 60 * 1000000000"

lemmas lock_consts = MIN_LOCK_DAYS_def MAX_LOCK_DAYS_def MIN_LOCK_DURATION_NS_def
  MAX_LOCK_DURATION_NS_def DAY_NS_def
lemmas timelock_consts = STAKING_VOTING_DELAY_NS_def STAKING_VOTING_PERIOD_NS_def
  STAKING_EXECUTION_TIMELOCK_NS_def VK_UPGRADE_MIN_TIMELOCK_NS_def VK_OLD_KEY_GRACE_NS_def

section \<open>Positions and pending operations\<close>

definition lock_multiplier_bps :: "nat \<Rightarrow> nat" where
  "lock_multiplier_bps lock_days =
    (if lock_days \<le> 30 then 10000
     else if lock_days \<le> 90 then 12500
     else if lock_days \<le> 180 then 15000
     else if lock_days \<le> 365 then 20000
     else 25000)"

record stake_position =
  po_position_id :: nat
  po_holder :: principal
  po_amount :: nat
  po_lock_days :: nat
  po_lock_end_ns :: nat
  po_voting_weight :: nat
  po_rewards_claimed :: nat
  po_last_claim_ns :: nat
  po_created_at_ns :: nat
  po_closed :: bool
  po_op_id :: "nat option"

definition is_unlockable :: "nat \<Rightarrow> stake_position \<Rightarrow> bool" where
  "is_unlockable now p \<longleftrightarrow> \<not> po_closed p \<and> po_lock_end_ns p \<le> now"

datatype pending_stake_state = LockPending | UnlockPending

datatype lock_op_type = LockOp | UnlockOp

datatype lock_decision = DecidedExecuted | DecidedNotExecuted

record pending_lock_op =
  lo_op_id :: nat
  lo_position_id :: nat
  lo_holder :: principal
  lo_amount :: nat
  lo_op_type :: lock_op_type
  lo_initiated_at_ns :: nat
  lo_snapshot :: stake_position
  lo_dedup_key :: "bytes option"

section \<open>Governance parameters\<close>

record governance_params =
  gv_min_proposal_deposit :: nat
  gv_voting_delay_ns :: nat
  gv_voting_period_ns :: nat
  gv_execution_timelock_ns :: nat
  gv_vk_upgrade_timelock_ns :: nat
  gv_quorum_bps :: nat
  gv_treasury_quorum_bps :: nat
  gv_vk_quorum_bps :: nat
  gv_approval_threshold_bps :: nat

datatype params_error =
    ZeroProposalDeposit | ZeroVotingPeriod | TimestampArithmeticOverflow
  | ExecutionTimelockFloor nat nat | VkTimelockFloor nat nat | BpsOutOfRange string nat
  | OrdinaryAboveTreasury nat nat | TreasuryAboveVk nat nat
  | LockBoundDays nat nat | LockBoundNs | LockBoundsInverted

definition check_bps :: "string \<times> nat \<Rightarrow> (params_error, unit) res" where
  "check_bps = (\<lambda>(name, bps).
     if 1 \<le> bps \<and> bps \<le> 10000 then Inr () else fail (BpsOutOfRange name bps))"

definition staged_timestamps :: "governance_params \<Rightarrow> nat option" where
  "staged_timestamps p =
    (case checked_add 64 (gv_voting_delay_ns p) (gv_voting_period_ns p) of
       None \<Rightarrow> None
     | Some v \<Rightarrow>
         (case checked_add 64 v (gv_execution_timelock_ns p) of
            None \<Rightarrow> None
          | Some v \<Rightarrow> checked_add 64 v (gv_vk_upgrade_timelock_ns p)))"

definition validate_params :: "governance_params \<Rightarrow> (params_error, unit) res" where
  "validate_params p =
    (if gv_min_proposal_deposit p = 0 then fail ZeroProposalDeposit
     else if gv_voting_period_ns p = 0 then fail ZeroVotingPeriod
     else if staged_timestamps p = None then fail TimestampArithmeticOverflow
     else if gv_execution_timelock_ns p < STAKING_EXECUTION_TIMELOCK_NS then
       fail (ExecutionTimelockFloor (gv_execution_timelock_ns p) STAKING_EXECUTION_TIMELOCK_NS)
     else if gv_vk_upgrade_timelock_ns p < VK_UPGRADE_MIN_TIMELOCK_NS then
       fail (VkTimelockFloor (gv_vk_upgrade_timelock_ns p) VK_UPGRADE_MIN_TIMELOCK_NS)
     else
       bind_res (for_each check_bps [(''quorum_bps'', gv_quorum_bps p),
         (''treasury_quorum_bps'', gv_treasury_quorum_bps p), (''vk_quorum_bps'', gv_vk_quorum_bps p),
         (''approval_threshold_bps'', gv_approval_threshold_bps p)]) (\<lambda>_.
       if gv_quorum_bps p > gv_treasury_quorum_bps p then
         fail (OrdinaryAboveTreasury (gv_quorum_bps p) (gv_treasury_quorum_bps p))
       else if gv_treasury_quorum_bps p > gv_vk_quorum_bps p then
         fail (TreasuryAboveVk (gv_treasury_quorum_bps p) (gv_vk_quorum_bps p))
       else if MIN_LOCK_DAYS \<noteq> 30 \<or> MAX_LOCK_DAYS \<noteq> 1095 then
         fail (LockBoundDays MIN_LOCK_DAYS MAX_LOCK_DAYS)
       else if MIN_LOCK_DURATION_NS \<noteq> MIN_LOCK_DAYS * DAY_NS
           \<or> MAX_LOCK_DURATION_NS \<noteq> MAX_LOCK_DAYS * DAY_NS then fail LockBoundNs
       else if MIN_LOCK_DURATION_NS > MAX_LOCK_DURATION_NS then fail LockBoundsInverted
       else Inr ()))"

definition default_params :: governance_params where
  "default_params = \<lparr> gv_min_proposal_deposit = 1000 * 100000000,
     gv_voting_delay_ns = STAKING_VOTING_DELAY_NS, gv_voting_period_ns = STAKING_VOTING_PERIOD_NS,
     gv_execution_timelock_ns = STAKING_EXECUTION_TIMELOCK_NS,
     gv_vk_upgrade_timelock_ns = VK_UPGRADE_MIN_TIMELOCK_NS, gv_quorum_bps = 1000,
     gv_treasury_quorum_bps = 2000, gv_vk_quorum_bps = 3000, gv_approval_threshold_bps = 5001 \<rparr>"

section \<open>Proposals\<close>

record vk_upgrade_payload =
  vk_old_verifying_key_hash :: bytes
  vk_new_verifying_key_hash :: bytes
  vk_circuit_version :: nat
  vk_proof_system_id :: string
  vk_audit_artifact_url :: string
  vk_audit_artifact_hash :: bytes
  vk_circuit_source_commit :: string
  vk_verifier_wasm_hash :: bytes
  vk_activation_timestamp_ns :: nat
  vk_emergency_disable_supported :: bool

datatype vk_error = VkAuditUrl | VkAuditHash | VkSourceCommit | VkWasmHash | VkNoActivation
  | VkOldKeyHash | VkNewKeyHash | VkProofSystem | VkActivationTooSoon

abbreviation zero_hash :: bytes where
  "zero_hash \<equiv> replicate 32 0"

definition validate_structural :: "vk_upgrade_payload \<Rightarrow> (vk_error, unit) res" where
  "validate_structural p =
    (if vk_audit_artifact_url p = [] then fail VkAuditUrl
     else if vk_audit_artifact_hash p = zero_hash then fail VkAuditHash
     else if vk_circuit_source_commit p = [] then fail VkSourceCommit
     else if vk_verifier_wasm_hash p = zero_hash then fail VkWasmHash
     else if vk_activation_timestamp_ns p = 0 then fail VkNoActivation
     else if vk_old_verifying_key_hash p = zero_hash then fail VkOldKeyHash
     else if vk_new_verifying_key_hash p = zero_hash then fail VkNewKeyHash
     else if vk_proof_system_id p = [] then fail VkProofSystem
     else Inr ())"

definition validate_at :: "vk_upgrade_payload \<Rightarrow> nat \<Rightarrow> (vk_error, unit) res" where
  "validate_at p now_ns =
    bind_res (validate_structural p) (\<lambda>_.
    bind_res (add_or_trap 64 now_ns VK_UPGRADE_MIN_TIMELOCK_NS) (\<lambda>min_activation_ns.
    if vk_activation_timestamp_ns p < min_activation_ns then fail VkActivationTooSoon else Inr ()))"

datatype emergency_pause_target = PoolDeposits | PoolSpends | BothPauses

datatype proposal_type =
    ParameterUpdate string string
  | TreasurySpend string principal nat string
  | FeeUpdate nat nat nat
  | RewardScheduleUpdate nat
  | EmergencyPause emergency_pause_target string
  | VerifierKeyUpgrade vk_upgrade_payload
  | CanisterUpgrade principal bytes string
  | GovernanceParamUpdate governance_params

fun type_quorum_bps :: "proposal_type \<Rightarrow> governance_params \<Rightarrow> nat" where
  "type_quorum_bps (VerifierKeyUpgrade _) params = gv_vk_quorum_bps params"
| "type_quorum_bps (TreasurySpend _ _ _ _) params = gv_treasury_quorum_bps params"
| "type_quorum_bps (CanisterUpgrade _ _ _) params = gv_treasury_quorum_bps params"
| "type_quorum_bps _ params = gv_quorum_bps params"

fun type_timelock_ns :: "proposal_type \<Rightarrow> governance_params \<Rightarrow> nat" where
  "type_timelock_ns (VerifierKeyUpgrade _) params = gv_vk_upgrade_timelock_ns params"
| "type_timelock_ns _ params = gv_execution_timelock_ns params"

datatype gov_status = VotingPending | VotingOpen | VotingClosed | Passed | Executing
  | GovRejected | GovExecuted | GovExpired | GovCancelled

text \<open>The texts a proposal's \<^verbatim>\<open>execution_result\<close> can hold: what an action reports, the errors of an action,
  and the stamps of the quorum check and of the reconciliation.\<close>

datatype action_error =
    ActionVkInvalid vk_error | ActionPoolNotSet | ActionVkTimelockFloor | ActionParamsInvalid params_error
  | ActionCallFailed string | ActionPoolError string | UnsupportedParameterUpdate
  | UnsupportedTreasurySpend | UnsupportedFeeUpdate | UnsupportedCanisterUpgrade

datatype proposal_reconcile_decision = ReconcileExecuted | ReconcileNotExecuted

datatype execution_text =
    VkScheduledFor nat | EmissionRateUpdated | GovernanceParametersUpdated | EmergencyPauseApplied string
  | ActionErrorText action_error | QuorumNotMetText | ReconciledText proposal_reconcile_decision

record proposal =
  pr_id :: nat
  pr_proposer :: principal
  pr_proposal_type :: proposal_type
  pr_description :: string
  pr_status :: gov_status
  pr_created_at_ns :: nat
  pr_voting_opens_ns :: nat
  pr_voting_closes_ns :: nat
  pr_execute_after_ns :: nat
  pr_votes_for :: nat
  pr_votes_against :: nat
  pr_snapshot_total_weight :: "nat option"
  pr_executed_at_ns :: "nat option"
  pr_execution_result :: "execution_text option"
  pr_execution_started_at_ns :: "nat option"

record vote_record =
  vr_proposal_id :: nat
  vr_position_id :: "nat option"
  vr_voter :: principal
  vr_approve :: bool
  vr_voting_weight :: nat
  vr_voted_at_ns :: nat

section \<open>Keys\<close>

text \<open>The derived order of the two fields is the order of the pair.\<close>

type_synonym snapshot_key = "nat \<times> nat"

definition snapshot_key_to_bytes :: "snapshot_key \<Rightarrow> bytes" where
  "snapshot_key_to_bytes k = be_bytes 8 (fst k) @ be_bytes 8 (snd k)"

definition snapshot_key_from_bytes :: "bytes \<Rightarrow> snapshot_key" where
  "snapshot_key_from_bytes b = (be_nat (slice 0 8 b), be_nat (slice 8 8 b))"

record snapshot_entry =
  se_holder :: principal
  se_weight :: nat

definition make_vote_key :: "nat \<Rightarrow> nat \<Rightarrow> bytes" where
  "make_vote_key proposal_id position_id = be_bytes 8 proposal_id @ be_bytes 8 position_id"

definition dedup_key_new :: "principal \<Rightarrow> bytes \<Rightarrow> bytes" where
  "dedup_key_new caller key = of_nat (length caller) # caller @ key"

record stake_dedup_record =
  sd_amount :: nat
  sd_lock_days :: nat
  sd_position_id :: nat
  sd_op_id :: nat

section \<open>Rewards and cells\<close>

record reward_state =
  rw_rewards_pool_balance :: nat
  rw_fee_revenue_balance :: nat
  rw_emission_rate_per_day :: nat
  rw_rewards_start_ns :: nat
  rw_total_distributed :: nat

record reward_source_breakdown =
  rb_incentive_allocation_pct :: nat
  rb_fee_revenue_pct :: nat
  rb_disclosure :: string

record voting_weight_state =
  vw_initialized :: bool
  vw_total :: nat

definition gov_params_to_cell :: "governance_params \<Rightarrow> scalars" where
  "gov_params_to_cell p = Some [gv_min_proposal_deposit p, gv_voting_delay_ns p, gv_voting_period_ns p,
     gv_execution_timelock_ns p, gv_vk_upgrade_timelock_ns p, gv_quorum_bps p, gv_treasury_quorum_bps p,
     gv_vk_quorum_bps p, gv_approval_threshold_bps p]"

definition gov_params_from_cell :: "scalars \<Rightarrow> governance_params option" where
  "gov_params_from_cell c = (case c of
     Some [d, vd, vp, et, vt, q, tq, vq, a] \<Rightarrow>
       (case (to_width 64 vd, to_width 64 vp, to_width 64 et, to_width 64 vt, to_width 32 q,
              to_width 32 tq, to_width 32 vq, to_width 32 a) of
          (Some vd, Some vp, Some et, Some vt, Some q, Some tq, Some vq, Some a) \<Rightarrow>
            Some \<lparr> gv_min_proposal_deposit = d, gv_voting_delay_ns = vd, gv_voting_period_ns = vp,
              gv_execution_timelock_ns = et, gv_vk_upgrade_timelock_ns = vt, gv_quorum_bps = q,
              gv_treasury_quorum_bps = tq, gv_vk_quorum_bps = vq, gv_approval_threshold_bps = a \<rparr>
        | _ \<Rightarrow> None)
   | _ \<Rightarrow> None)"

definition reward_state_to_cell :: "reward_state \<Rightarrow> scalars" where
  "reward_state_to_cell r = Some [rw_rewards_pool_balance r, rw_fee_revenue_balance r,
     rw_emission_rate_per_day r, rw_rewards_start_ns r, rw_total_distributed r]"

definition reward_state_from_cell :: "scalars \<Rightarrow> reward_state option" where
  "reward_state_from_cell c = (case c of
     Some [pool, fee, rate, start, dist] \<Rightarrow>
       (case to_width 64 start of
          None \<Rightarrow> None
        | Some start \<Rightarrow> Some \<lparr> rw_rewards_pool_balance = pool, rw_fee_revenue_balance = fee,
            rw_emission_rate_per_day = rate, rw_rewards_start_ns = start, rw_total_distributed = dist \<rparr>)
   | _ \<Rightarrow> None)"

definition decode_stake_counter :: "nat \<Rightarrow> nat option" where
  "decode_stake_counter word =
    (case to_width 64 word of None \<Rightarrow> None | Some v \<Rightarrow> if v = 0 then None else Some v)"

definition bump_stake_counter :: "nat \<Rightarrow> nat option" where
  "bump_stake_counter cur = checked_add 64 cur 1"

section \<open>Facts\<close>

definition params_ok :: "governance_params \<Rightarrow> bool" where
  "params_ok p \<longleftrightarrow> 0 < gv_min_proposal_deposit p \<and> 0 < gv_voting_period_ns p
     \<and> gv_voting_delay_ns p + gv_voting_period_ns p + gv_execution_timelock_ns p
         + gv_vk_upgrade_timelock_ns p < u64_limit
     \<and> STAKING_EXECUTION_TIMELOCK_NS \<le> gv_execution_timelock_ns p
     \<and> VK_UPGRADE_MIN_TIMELOCK_NS \<le> gv_vk_upgrade_timelock_ns p
     \<and> 1 \<le> gv_quorum_bps p \<and> gv_quorum_bps p \<le> gv_treasury_quorum_bps p
     \<and> gv_treasury_quorum_bps p \<le> gv_vk_quorum_bps p \<and> gv_vk_quorum_bps p \<le> 10000
     \<and> 1 \<le> gv_approval_threshold_bps p \<and> gv_approval_threshold_bps p \<le> 10000"

lemma validate_params_iff: "validate_params p = Inr u \<longleftrightarrow> params_ok p"
  by (auto simp: validate_params_def params_ok_def staged_timestamps_def check_bps_def checked_add_def
      lock_consts result_simps split: if_splits option.splits)

lemma validate_params_no_trap: "validate_params p \<noteq> Inl Trap"
  by (auto simp: validate_params_def check_bps_def result_simps split: if_splits)

lemma default_params_ok: "params_ok default_params"
  by (simp add: params_ok_def default_params_def timelock_consts)

lemma gov_params_cell_exact:
  assumes "params_ok p"
  shows "gov_params_from_cell (gov_params_to_cell p) = Some p"
  using assms by (simp add: gov_params_from_cell_def gov_params_to_cell_def to_width_def params_ok_def)

lemma reward_state_cell_exact:
  "rw_rewards_start_ns r < u64_limit \<Longrightarrow> reward_state_from_cell (reward_state_to_cell r) = Some r"
  by (simp add: reward_state_from_cell_def reward_state_to_cell_def to_width_def)

lemma u64_bytes:
  assumes "m < u64_limit" "n < u64_limit"
  shows "be_nat (be_bytes 8 m) = m" "be_bytes 8 m = be_bytes 8 n \<longleftrightarrow> m = n"
    "be_bytes 8 m < be_bytes 8 n \<longleftrightarrow> m < n"
proof -
  have e: "(256 :: nat) ^ 8 = u64_limit" by simp
  show "be_nat (be_bytes 8 m) = m" by (rule be_nat_be_bytes_id) (use assms e in metis)
  show "be_bytes 8 m = be_bytes 8 n \<longleftrightarrow> m = n" using be_bytes_inj [of 8 m n] assms e by metis
  show "be_bytes 8 m < be_bytes 8 n \<longleftrightarrow> m < n" by (rule be_bytes_less_iff) (use assms e in metis)+
qed

lemma snapshot_key_bytes:
  assumes "fst k < u64_limit" "snd k < u64_limit"
  shows "length (snapshot_key_to_bytes k) = 16" "snapshot_key_from_bytes (snapshot_key_to_bytes k) = k"
proof -
  let ?a = "be_bytes 8 (fst k)" and ?b = "be_bytes 8 (snd k)"
  have len: "length ?a = 8" "length ?b = 8" by (rule length_be_bytes)+
  show "length (snapshot_key_to_bytes k) = 16" by (simp only: snapshot_key_to_bytes_def length_append len)
  have "slice 0 8 (?a @ ?b) = ?a" using slice_0 [of ?a ?b] len(1) by metis
  moreover have "slice 8 8 (?a @ ?b) = ?b" by (rule slice_at_end [OF len])
  ultimately show "snapshot_key_from_bytes (snapshot_key_to_bytes k) = k"
    using u64_bytes(1) [OF assms(1) assms(1)] u64_bytes(1) [OF assms(2) assms(2)]
    by (simp only: snapshot_key_from_bytes_def snapshot_key_to_bytes_def prod.collapse)
qed

lemma snapshot_key_order:
  assumes "fst k < u64_limit" "snd k < u64_limit" "fst l < u64_limit" "snd l < u64_limit"
  shows "snapshot_key_to_bytes k < snapshot_key_to_bytes l \<longleftrightarrow> k < l"
proof -
  have len: "length (be_bytes 8 (fst k)) = length (be_bytes 8 (fst l))" by (simp only: length_be_bytes)
  show ?thesis
    unfolding snapshot_key_to_bytes_def append_less_iff [OF len]
      u64_bytes(2,3) [OF assms(1,3)] u64_bytes(3) [OF assms(2,4)]
    by (cases k, cases l) auto
qed

lemma make_vote_key_inj:
  assumes "make_vote_key p q = make_vote_key p' q'" "p < u64_limit" "q < u64_limit" "p' < u64_limit"
    "q' < u64_limit"
  shows "p = p' \<and> q = q'"
proof -
  have len: "length (be_bytes 8 p) = length (be_bytes 8 p')" by (simp only: length_be_bytes)
  have "be_bytes 8 p = be_bytes 8 p' \<and> be_bytes 8 q = be_bytes 8 q'"
    using append_eq_append_conv [OF disjI1 [OF len]] assms(1) unfolding make_vote_key_def by blast
  then show ?thesis using u64_bytes(2) [OF assms(2,4)] u64_bytes(2) [OF assms(3,5)] by blast
qed

lemma dedup_key_new_inj:
  assumes "dedup_key_new c k = dedup_key_new c' k'" "length c \<le> 29" "length c' \<le> 29"
  shows "c = c' \<and> k = k'"
proof -
  have "(of_nat (length c) :: byte) = of_nat (length c')" and rest: "c @ k = c' @ k'"
    using assms(1) unfolding dedup_key_new_def by (rule list.inject [THEN iffD1, THEN conjunct1],
      rule list.inject [THEN iffD1, THEN conjunct2])
  then have "length c mod 256 = length c' mod 256" by (metis unat_byte_of_nat)
  then have "length c = length c'" using assms(2,3) by simp
  then show ?thesis using append_eq_append_conv [OF disjI1] rest by blast
qed

end
