(* ===== verification/Staking.thy ===== *)
theory Staking
  imports Staking_Types
begin

text \<open>
  State of the staking canister and its position operations (\<^verbatim>\<open>staking/src/lib.rs\<close>). \<^verbatim>\<open>stake\<close> and
  \<^verbatim>\<open>unstake\<close> are cut at their only await, the call of \<^verbatim>\<open>lock_for_staking\<close> or \<^verbatim>\<open>unlock_from_staking\<close>: the
  first segment records the operation and the pending position, the second takes the token's reply. The
  controller's reconciliation and the reward paths are single segments. Every segment takes the clock as an
  argument.
\<close>

section \<open>State\<close>

text \<open>The errors, one constructor per message of the source.\<close>

datatype staking_error =
    StakeZeroAmount | LockDurationOverflow | BelowMinimumLock nat | AboveMaximumLock nat
  | DedupKeyEmpty | DedupKeyTooLong | DedupConflict nat nat nat nat | LockPendingDuplicate nat
  | TokenNotConfigured | VotingWeightOverflow | LockEndOverflow | TokenRefused string
  | LockOutcomeUnknown nat string | UnlockOutcomeUnknown nat string
  | PositionNotFound | NotYourPosition | PositionAlreadyClosed | PositionClosed
  | PositionPendingReconciliation pending_stake_state | LockPeriodActive nat
  | CallerNotController | NoPendingLockOp nat | WrongReconcileEndpoint nat lock_op_type lock_op_type
  | OpMissingPosition nat nat | PositionNotOnOp nat nat "nat option" | OpHolderMismatch nat nat
  | OpAmountMismatch nat nat | PositionNotReconcilable nat pending_stake_state "pending_stake_state option"
  | RewardsNotImplemented nat
  | PayloadInvalid vk_error | ParamsInvalid params_error | ProposalTimestampOverflow string
  | ProposerStakeTooLow nat nat nat | NoEligibleVotingWeight | GovProposalNotFound | VotingNotOpen
  | VotingHasClosed | NoSnapshottedPositions | AlreadyVoted | AlreadyExecuted | ExecutionInFlight
  | VotingStillOpen | ExecutionTimelockActive nat | ProposalWithoutSnapshot | ZeroSnapshotWeight
  | QuorumNotMet | ApprovalNotMet | ActionFailed action_error

text \<open>The stable maps and eager cells, then the heap mirrors.\<close>

record staking =
  sk_positions :: "(nat, stake_position) fmap"
  sk_pending :: "(nat, pending_stake_state) fmap"
  sk_proposals :: "(nat, proposal) fmap"
  sk_votes :: "(bytes, vote_record) fmap"
  sk_snapshots :: "(snapshot_key, snapshot_entry) fmap"
  sk_dedup :: "(bytes, stake_dedup_record) fmap"
  sk_lock_ops :: "(nat, pending_lock_op) fmap"
  sk_refs :: principal_refs
  sk_next_position_cell :: scalars
  sk_next_proposal_cell :: scalars
  sk_gov_cell :: scalars
  sk_reward_cell :: scalars
  sk_weight_cell :: voting_weight_state
  sk_op_counter :: nat
  sk_token :: "principal option"
  sk_pool :: "principal option"
  sk_treasury :: "principal option"
  sk_gov_params :: governance_params
  sk_reward_state :: reward_state
  sk_total_weight :: nat
  sk_next_position_id :: nat
  sk_next_proposal_id :: nat

definition zero_rewards :: reward_state where
  "zero_rewards = \<lparr> rw_rewards_pool_balance = 0, rw_fee_revenue_balance = 0,
     rw_emission_rate_per_day = 0, rw_rewards_start_ns = 0, rw_total_distributed = 0 \<rparr>"

definition fresh_staking :: staking where
  "fresh_staking = \<lparr> sk_positions = fmempty, sk_pending = fmempty, sk_proposals = fmempty,
     sk_votes = fmempty, sk_snapshots = fmempty, sk_dedup = fmempty, sk_lock_ops = fmempty,
     sk_refs = None, sk_next_position_cell = None, sk_next_proposal_cell = None, sk_gov_cell = None,
     sk_reward_cell = None, sk_weight_cell = \<lparr> vw_initialized = False, vw_total = 0 \<rparr>,
     sk_op_counter = 1, sk_token = None, sk_pool = None, sk_treasury = None,
     sk_gov_params = default_params, sk_reward_state = zero_rewards, sk_total_weight = 0,
     sk_next_position_id = 1, sk_next_proposal_id = 1 \<rparr>"

type_synonym 'a sact = "(staking, staking_error, 'a) segment"

text \<open>A pure validation inside a segment.\<close>

definition check_act :: "('e \<Rightarrow> staking_error) \<Rightarrow> ('e, 'a) res \<Rightarrow> 'a sact" where
  "check_act f r = (case r of
     Inl Trap \<Rightarrow> trap_act | Inl (Err e) \<Rightarrow> fail_act (f e) | Inr x \<Rightarrow> return_act x)"

text \<open>\<^verbatim>\<open>sum()\<close> over \<^verbatim>\<open>u128\<close> panics on overflow.\<close>

definition sum_u128 :: "nat list \<Rightarrow> nat sact" where
  "sum_u128 ns = (if sum_list ns < u128_limit then return_act (sum_list ns) else trap_act)"

definition fmvalues :: "('k::linorder, 'v) fmap \<Rightarrow> 'v list" where
  "fmvalues m = List.map_filter (fmlookup m) (fmkeys m)"

definition is_active_position :: "staking \<Rightarrow> stake_position \<Rightarrow> bool" where
  "is_active_position s p \<longleftrightarrow>
     \<not> po_closed p \<and> fmlookup (sk_pending s) (po_position_id p) = None"

section \<open>Cells, counters and the total weight\<close>

definition next_op_id :: "nat sact" where
  "next_op_id =
    bind_act (get_act sk_op_counter) (\<lambda>cur.
    bind_act (modify_act (\<lambda>s. s\<lparr> sk_op_counter := sat_add 64 cur 1 \<rparr>)) (\<lambda>_. return_act cur))"

definition ensure_ic_controller :: "bool \<Rightarrow> unit sact" where
  "ensure_ic_controller is_controller =
     (if is_controller then return_act () else fail_act CallerNotController)"

definition set_total_voting_weight :: "nat \<Rightarrow> staking \<Rightarrow> staking" where
  "set_total_voting_weight tot s =
     s\<lparr> sk_total_weight := tot, sk_weight_cell := \<lparr> vw_initialized = True, vw_total = tot \<rparr> \<rparr>"

definition add_total_voting_weight :: "nat \<Rightarrow> staking \<Rightarrow> staking" where
  "add_total_voting_weight delta s = set_total_voting_weight (sat_add 128 (sk_total_weight s) delta) s"

definition sub_total_voting_weight :: "nat \<Rightarrow> staking \<Rightarrow> staking" where
  "sub_total_voting_weight delta s = set_total_voting_weight (sk_total_weight s - delta) s"

definition set_staking_refs :: "principal \<Rightarrow> principal \<Rightarrow> principal \<Rightarrow> staking \<Rightarrow> staking" where
  "set_staking_refs token pool treasury s =
     s\<lparr> sk_refs := Some [token, pool, treasury], sk_token := Some token, sk_pool := Some pool,
       sk_treasury := Some treasury \<rparr>"

definition set_gov_params :: "governance_params \<Rightarrow> staking \<Rightarrow> staking" where
  "set_gov_params params s = s\<lparr> sk_gov_cell := gov_params_to_cell params, sk_gov_params := params \<rparr>"

definition set_reward_state :: "reward_state \<Rightarrow> staking \<Rightarrow> staking" where
  "set_reward_state r s = s\<lparr> sk_reward_cell := reward_state_to_cell r, sk_reward_state := r \<rparr>"

definition mutate_reward_state :: "(reward_state \<Rightarrow> reward_state) \<Rightarrow> staking \<Rightarrow> staking" where
  "mutate_reward_state f s = set_reward_state (f (sk_reward_state s)) s"

definition alloc_position_id :: "nat sact" where
  "alloc_position_id =
    bind_act (get_act sk_next_position_id) (\<lambda>id.
    case bump_stake_counter id of
      None \<Rightarrow> trap_act
    | Some next \<Rightarrow>
        bind_act (modify_act (\<lambda>s. s\<lparr> sk_next_position_cell := Some [next], sk_next_position_id := next \<rparr>))
          (\<lambda>_. return_act id))"

definition alloc_governance_id :: "nat sact" where
  "alloc_governance_id =
    bind_act (get_act sk_next_proposal_id) (\<lambda>id.
    case bump_stake_counter id of
      None \<Rightarrow> trap_act
    | Some next \<Rightarrow>
        bind_act (modify_act (\<lambda>s. s\<lparr> sk_next_proposal_cell := Some [next], sk_next_proposal_id := next \<rparr>))
          (\<lambda>_. return_act id))"

definition seed_stake_counters :: "staking \<Rightarrow> staking" where
  "seed_stake_counters s = s\<lparr> sk_next_position_cell := Some [1], sk_next_proposal_cell := Some [1] \<rparr>"

record staking_init_args =
  si_token_canister :: principal
  si_pool_canister :: principal
  si_treasury_canister :: principal
  si_initial_rewards_pool :: nat
  si_initial_emission_rate_per_day :: nat
  si_governance_params :: "governance_params option"

definition init_staking :: "nat \<Rightarrow> staking_init_args \<Rightarrow> unit sact" where
  "init_staking now args =
    bind_act (modify_act (\<lambda>s. seed_stake_counters (set_staking_refs (si_token_canister args)
      (si_pool_canister args) (si_treasury_canister args) s))) (\<lambda>_.
    let params = (case si_governance_params args of Some p \<Rightarrow> p | None \<Rightarrow> default_params) in
    case validate_params params of
      Inl _ \<Rightarrow> trap_act
    | Inr _ \<Rightarrow>
        modify_act (\<lambda>s. set_total_voting_weight 0 (set_reward_state
          \<lparr> rw_rewards_pool_balance = si_initial_rewards_pool args, rw_fee_revenue_balance = 0,
            rw_emission_rate_per_day = si_initial_emission_rate_per_day args,
            rw_rewards_start_ns = now, rw_total_distributed = 0 \<rparr> (set_gov_params params s))))"

section \<open>Writers\<close>

definition put_position :: "nat \<Rightarrow> stake_position \<Rightarrow> staking \<Rightarrow> staking" where
  "put_position pid p s = s\<lparr> sk_positions := fmupd pid p (sk_positions s) \<rparr>"

definition drop_position :: "nat \<Rightarrow> staking \<Rightarrow> staking" where
  "drop_position pid s = s\<lparr> sk_positions := fmdrop pid (sk_positions s) \<rparr>"

definition put_pending :: "nat \<Rightarrow> pending_stake_state \<Rightarrow> staking \<Rightarrow> staking" where
  "put_pending pid st s = s\<lparr> sk_pending := fmupd pid st (sk_pending s) \<rparr>"

definition put_lock_op :: "nat \<Rightarrow> pending_lock_op \<Rightarrow> staking \<Rightarrow> staking" where
  "put_lock_op op_id lop s = s\<lparr> sk_lock_ops := fmupd op_id lop (sk_lock_ops s) \<rparr>"

text \<open>Every settling branch ends by removing the pending marker and the operation.\<close>

definition clear_op :: "nat \<Rightarrow> nat \<Rightarrow> staking \<Rightarrow> staking" where
  "clear_op pid op_id s =
     s\<lparr> sk_pending := fmdrop pid (sk_pending s), sk_lock_ops := fmdrop op_id (sk_lock_ops s) \<rparr>"

definition drop_dedup :: "bytes \<Rightarrow> staking \<Rightarrow> staking" where
  "drop_dedup key s = s\<lparr> sk_dedup := fmdrop key (sk_dedup s) \<rparr>"

section \<open>Staking\<close>

definition get_token :: "principal sact" where
  "get_token = bind_act (get_act sk_token) (\<lambda>t. need TokenNotConfigured t)"

text \<open>The entry checks on the arguments; the result is the lock duration.\<close>

definition stake_checks :: "nat \<Rightarrow> nat \<Rightarrow> bytes \<Rightarrow> (staking_error, nat) res" where
  "stake_checks amount lock_days dedup_key =
    (if amount = 0 then fail StakeZeroAmount
     else
       bind_res (ok_or LockDurationOverflow (checked_mul 64 lock_days DAY_NS)) (\<lambda>duration_ns.
       if duration_ns < MIN_LOCK_DURATION_NS then fail (BelowMinimumLock lock_days)
       else if duration_ns > MAX_LOCK_DURATION_NS then fail (AboveMaximumLock lock_days)
       else if dedup_key = [] then fail DedupKeyEmpty
       else if length dedup_key > 64 then fail DedupKeyTooLong
       else Inr duration_ns))"

text \<open>\<open>Some id\<close> answers a retry with the original position; \<open>None\<close> goes on with a fresh stake.\<close>

definition resolve_dedup :: "bytes \<Rightarrow> nat \<Rightarrow> nat \<Rightarrow> nat option sact" where
  "resolve_dedup ddk amount lock_days =
    bind_act (get_act (\<lambda>s. fmlookup (sk_dedup s) ddk)) (\<lambda>found.
    case found of
      None \<Rightarrow> return_act None
    | Some prior \<Rightarrow>
        if sd_amount prior \<noteq> amount \<or> sd_lock_days prior \<noteq> lock_days then
          fail_act (DedupConflict (sd_amount prior) (sd_lock_days prior) amount lock_days)
        else
          bind_act (get_act (\<lambda>s. (fmlookup (sk_positions s) (sd_position_id prior),
            fmlookup (sk_pending s) (sd_position_id prior)))) (\<lambda>(prior_position, pending).
          if prior_position \<noteq> None then
            (case pending of
               Some LockPending \<Rightarrow> fail_act (LockPendingDuplicate (sd_op_id prior))
             | _ \<Rightarrow> return_act (Some (sd_position_id prior)))
          else bind_act (modify_act (drop_dedup ddk)) (\<lambda>_. return_act None)))"

text \<open>What a suspended stake or unstake holds.\<close>

record lock_turn =
  lt_op_id :: nat
  lt_op_type :: lock_op_type
  lt_position_id :: nat
  lt_position :: stake_position
  lt_token :: principal
  lt_dedup :: bytes

text \<open>The outcome of the first segment: the answer to a retry, or the suspended call.\<close>

datatype stake_started = StakeAnswered nat | StakeCalling lock_turn

text \<open>After every check has passed: claim both ids and write the records before the call.\<close>

definition stake_launch ::
  "nat \<Rightarrow> principal \<Rightarrow> nat \<Rightarrow> nat \<Rightarrow> bytes \<Rightarrow> principal \<Rightarrow> nat \<Rightarrow> nat \<Rightarrow> stake_started sact" where
  "stake_launch now holder amount lock_days dedup_key token voting_weight lock_end_ns =
    bind_act alloc_position_id (\<lambda>position_id.
    bind_act next_op_id (\<lambda>op_id.
    let active_position = \<lparr> po_position_id = position_id, po_holder = holder, po_amount = amount,
          po_lock_days = lock_days, po_lock_end_ns = lock_end_ns, po_voting_weight = voting_weight,
          po_rewards_claimed = 0, po_last_claim_ns = now, po_created_at_ns = now,
          po_closed = False, po_op_id = None \<rparr>;
        pending_position = active_position\<lparr> po_voting_weight := 0, po_op_id := Some op_id \<rparr>;
        ddk = dedup_key_new holder dedup_key
    in bind_act (modify_act (\<lambda>s. s\<lparr> sk_dedup := fmupd ddk \<lparr> sd_amount = amount,
         sd_lock_days = lock_days, sd_position_id = position_id, sd_op_id = op_id \<rparr> (sk_dedup s) \<rparr>)) (\<lambda>_.
       bind_act (modify_act (put_lock_op op_id \<lparr> lo_op_id = op_id, lo_position_id = position_id,
         lo_holder = holder, lo_amount = amount, lo_op_type = LockOp, lo_initiated_at_ns = now,
         lo_snapshot = active_position, lo_dedup_key = Some dedup_key \<rparr>)) (\<lambda>_.
       bind_act (modify_act (put_position position_id pending_position)) (\<lambda>_.
       bind_act (modify_act (put_pending position_id LockPending)) (\<lambda>_.
       return_act (StakeCalling \<lparr> lt_op_id = op_id, lt_op_type = LockOp,
         lt_position_id = position_id, lt_position = active_position, lt_token = token,
         lt_dedup = ddk \<rparr>)))))))"

definition stake_start ::
  "nat \<Rightarrow> principal \<Rightarrow> nat \<Rightarrow> nat \<Rightarrow> bytes \<Rightarrow> stake_started sact" where
  "stake_start now holder amount lock_days dedup_key =
    bind_act (check_act (\<lambda>e. e) (stake_checks amount lock_days dedup_key)) (\<lambda>duration_ns.
    bind_act (resolve_dedup (dedup_key_new holder dedup_key) amount lock_days) (\<lambda>prior.
    case prior of
      Some position_id \<Rightarrow> return_act (StakeAnswered position_id)
    | None \<Rightarrow>
        bind_act get_token (\<lambda>token.
        bind_act (need VotingWeightOverflow (checked_mul 128 amount (lock_multiplier_bps lock_days)))
          (\<lambda>scaled.
        bind_act (need LockEndOverflow (checked_add 64 now duration_ns)) (\<lambda>lock_end_ns.
        stake_launch now holder amount lock_days dedup_key token (scaled div 10000) lock_end_ns)))))"

text \<open>The token's reply: confirmed, refused with a message, or not known (a rejected call).\<close>

datatype lock_reply = LockConfirmed | LockRefused string | LockCallRejected string

definition stake_reply :: "lock_turn \<Rightarrow> lock_reply \<Rightarrow> nat sact" where
  "stake_reply t reply =
    (let position_id = lt_position_id t; op_id = lt_op_id t in
     case reply of
       LockConfirmed \<Rightarrow>
         bind_act (modify_act (put_position position_id (lt_position t))) (\<lambda>_.
         bind_act (modify_act (add_total_voting_weight (po_voting_weight (lt_position t)))) (\<lambda>_.
         bind_act (modify_act (clear_op position_id op_id)) (\<lambda>_.
         return_act position_id)))
     | LockRefused e \<Rightarrow>
         bind_act (modify_act (drop_dedup (lt_dedup t))) (\<lambda>_.
         bind_act (modify_act (drop_position position_id)) (\<lambda>_.
         bind_act (modify_act (clear_op position_id op_id)) (\<lambda>_.
         fail_act (TokenRefused e))))
     | LockCallRejected e \<Rightarrow> fail_act (LockOutcomeUnknown op_id e))"

section \<open>Rewards\<close>

definition reward_pool :: "nat sact" where
  "reward_pool =
    bind_act (get_act sk_reward_state) (\<lambda>r.
    case checked_add 128 (rw_rewards_pool_balance r) (rw_fee_revenue_balance r) of
      None \<Rightarrow> trap_act | Some v \<Rightarrow> return_act v)"

definition calculate_claimable :: "nat \<Rightarrow> stake_position \<Rightarrow> nat sact" where
  "calculate_claimable now p =
    bind_act (get_act (\<lambda>s. (sk_total_weight s, fmlookup (sk_pending s) (po_position_id p),
      rw_emission_rate_per_day (sk_reward_state s)))) (\<lambda>(total_weight, pending, daily_emission).
    if total_weight = 0 \<or> po_closed p \<or> pending \<noteq> None then return_act 0
    else
      bind_act reward_pool (\<lambda>pool_balance.
      let elapsed_days = (now - po_last_claim_ns p) div (24 * 60 * 60 * 1000000000);
          gross = sat_mul 128 (sat_mul 128 (po_voting_weight p) daily_emission) elapsed_days
                    div total_weight
      in return_act (min gross pool_balance)))"

definition claim_rewards_internal :: "nat \<Rightarrow> stake_position \<Rightarrow> nat sact" where
  "claim_rewards_internal now p =
    bind_act (calculate_claimable now p) (\<lambda>claimable.
    if claimable = 0 then return_act 0 else fail_act (RewardsNotImplemented claimable))"

text \<open>The checks a holder's call makes on a position; the closed case names its own error.\<close>

definition own_position :: "principal \<Rightarrow> nat \<Rightarrow> staking_error \<Rightarrow> stake_position sact" where
  "own_position holder position_id closed_error =
    bind_act (get_act (\<lambda>s. (fmlookup (sk_positions s) position_id, fmlookup (sk_pending s) position_id)))
      (\<lambda>(found, pending).
    bind_act (need PositionNotFound found) (\<lambda>p.
    if po_holder p \<noteq> holder then fail_act NotYourPosition
    else if po_closed p then fail_act closed_error
    else (case pending of
        Some st \<Rightarrow> fail_act (PositionPendingReconciliation st)
      | None \<Rightarrow> return_act p)))"

definition claim_rewards :: "nat \<Rightarrow> principal \<Rightarrow> nat \<Rightarrow> nat sact" where
  "claim_rewards now holder position_id =
    bind_act (own_position holder position_id PositionClosed) (\<lambda>p. claim_rewards_internal now p)"

text \<open>\<^verbatim>\<open>let _ = ...\<close>: an error is dropped, a trap is not.\<close>

definition ignore_error :: "'a sact \<Rightarrow> unit sact" where
  "ignore_error m s = (case m s of None \<Rightarrow> None | Some (_, s') \<Rightarrow> Some (Inr (), s'))"

section \<open>Unstaking\<close>

definition unstake_start :: "nat \<Rightarrow> principal \<Rightarrow> nat \<Rightarrow> lock_turn sact" where
  "unstake_start now holder position_id =
    bind_act (own_position holder position_id PositionAlreadyClosed) (\<lambda>position.
    if \<not> is_unlockable now position then
      fail_act (LockPeriodActive ((po_lock_end_ns position - now) div 1000000000))
    else
      bind_act (ignore_error (claim_rewards_internal now position)) (\<lambda>_.
      bind_act get_token (\<lambda>token.
      bind_act next_op_id (\<lambda>op_id.
      bind_act (modify_act (put_lock_op op_id \<lparr> lo_op_id = op_id, lo_position_id = position_id,
        lo_holder = holder, lo_amount = po_amount position, lo_op_type = UnlockOp,
        lo_initiated_at_ns = now, lo_snapshot = position, lo_dedup_key = None \<rparr>)) (\<lambda>_.
      bind_act (modify_act (sub_total_voting_weight (po_voting_weight position))) (\<lambda>_.
      bind_act (modify_act (put_position position_id
        (position\<lparr> po_voting_weight := 0, po_op_id := Some op_id \<rparr>))) (\<lambda>_.
      bind_act (modify_act (put_pending position_id UnlockPending)) (\<lambda>_.
      return_act \<lparr> lt_op_id = op_id, lt_op_type = UnlockOp, lt_position_id = position_id,
        lt_position = position, lt_token = token, lt_dedup = [] \<rparr>))))))))"

definition closed_position :: "stake_position \<Rightarrow> stake_position" where
  "closed_position p = p\<lparr> po_voting_weight := 0, po_closed := True, po_op_id := None \<rparr>"

definition unstake_reply :: "lock_turn \<Rightarrow> lock_reply \<Rightarrow> unit sact" where
  "unstake_reply t reply =
    (let position_id = lt_position_id t; op_id = lt_op_id t in
     case reply of
       LockConfirmed \<Rightarrow>
         bind_act (modify_act (put_position position_id (closed_position (lt_position t)))) (\<lambda>_.
         modify_act (clear_op position_id op_id))
     | LockRefused e \<Rightarrow>
         bind_act (modify_act (put_position position_id (lt_position t))) (\<lambda>_.
         bind_act (modify_act (add_total_voting_weight (po_voting_weight (lt_position t)))) (\<lambda>_.
         bind_act (modify_act (clear_op position_id op_id)) (\<lambda>_.
         fail_act (TokenRefused e))))
     | LockCallRejected e \<Rightarrow> fail_act (UnlockOutcomeUnknown op_id e))"

section \<open>Reconciling a lock operation\<close>

fun pending_state_of :: "lock_op_type \<Rightarrow> pending_stake_state" where
  "pending_state_of LockOp = LockPending"
| "pending_state_of UnlockOp = UnlockPending"

definition load_and_verify_pending_op ::
  "nat \<Rightarrow> lock_op_type \<Rightarrow> (pending_lock_op \<times> stake_position) sact" where
  "load_and_verify_pending_op op_id expected =
    bind_act (get_act (\<lambda>s. fmlookup (sk_lock_ops s) op_id)) (\<lambda>found.
    bind_act (need (NoPendingLockOp op_id) found) (\<lambda>lop.
    if lo_op_type lop \<noteq> expected then fail_act (WrongReconcileEndpoint op_id (lo_op_type lop) expected)
    else
      bind_act (get_act (\<lambda>s. (fmlookup (sk_positions s) (lo_position_id lop),
        fmlookup (sk_pending s) (lo_position_id lop)))) (\<lambda>(found, pending).
      bind_act (need (OpMissingPosition op_id (lo_position_id lop)) found) (\<lambda>position.
      if po_op_id position \<noteq> Some op_id then
        fail_act (PositionNotOnOp (lo_position_id lop) op_id (po_op_id position))
      else if po_holder position \<noteq> lo_holder lop then
        fail_act (OpHolderMismatch op_id (lo_position_id lop))
      else if lo_amount lop \<noteq> po_amount position then
        fail_act (OpAmountMismatch op_id (lo_position_id lop))
      else if pending \<noteq> Some (pending_state_of expected) then
        fail_act (PositionNotReconcilable (lo_position_id lop) (pending_state_of expected) pending)
      else return_act (lop, position)))))"

definition reconcile_lock :: "bool \<Rightarrow> nat \<Rightarrow> lock_decision \<Rightarrow> unit sact" where
  "reconcile_lock is_controller op_id decision =
    bind_act (ensure_ic_controller is_controller) (\<lambda>_.
    bind_act (load_and_verify_pending_op op_id LockOp) (\<lambda>(lop, _).
    case decision of
      DecidedExecuted \<Rightarrow>
        let active = (lo_snapshot lop)\<lparr> po_op_id := None \<rparr> in
        bind_act (modify_act (put_position (lo_position_id lop) active)) (\<lambda>_.
        bind_act (modify_act (add_total_voting_weight (po_voting_weight active))) (\<lambda>_.
        modify_act (clear_op (lo_position_id lop) op_id)))
    | DecidedNotExecuted \<Rightarrow>
        bind_act (modify_act (\<lambda>s. case lo_dedup_key lop of
            None \<Rightarrow> s | Some key \<Rightarrow> drop_dedup (dedup_key_new (lo_holder lop) key) s)) (\<lambda>_.
        bind_act (modify_act (drop_position (lo_position_id lop))) (\<lambda>_.
        modify_act (clear_op (lo_position_id lop) op_id)))))"

definition reconcile_unlock :: "bool \<Rightarrow> nat \<Rightarrow> lock_decision \<Rightarrow> unit sact" where
  "reconcile_unlock is_controller op_id decision =
    bind_act (ensure_ic_controller is_controller) (\<lambda>_.
    bind_act (load_and_verify_pending_op op_id UnlockOp) (\<lambda>(lop, _).
    case decision of
      DecidedExecuted \<Rightarrow>
        bind_act (modify_act (put_position (lo_position_id lop) (closed_position (lo_snapshot lop)))) (\<lambda>_.
        modify_act (clear_op (lo_position_id lop) op_id))
    | DecidedNotExecuted \<Rightarrow>
        bind_act (modify_act (put_position (lo_position_id lop) (lo_snapshot lop))) (\<lambda>_.
        bind_act (modify_act (add_total_voting_weight (po_voting_weight (lo_snapshot lop)))) (\<lambda>_.
        modify_act (clear_op (lo_position_id lop) op_id)))))"

section \<open>Queries\<close>

definition list_pending_lock_ops :: "bool \<Rightarrow> pending_lock_op list sact" where
  "list_pending_lock_ops is_controller =
     (if is_controller then get_act (\<lambda>s. fmvalues (sk_lock_ops s)) else trap_act)"

definition positions_of :: "principal \<Rightarrow> staking \<Rightarrow> stake_position list" where
  "positions_of holder s = filter (\<lambda>p. po_holder p = holder) (fmvalues (sk_positions s))"

definition get_pending_rewards :: "nat \<Rightarrow> principal \<Rightarrow> nat sact" where
  "get_pending_rewards now holder =
    bind_act (get_act (\<lambda>s. filter (is_active_position s) (positions_of holder s))) (\<lambda>ps.
    foldr (\<lambda>p acc. bind_act (calculate_claimable now p) (\<lambda>c. bind_act acc (\<lambda>n.
      case checked_add 128 c n of None \<Rightarrow> trap_act | Some v \<Rightarrow> return_act v))) ps (return_act 0))"

definition get_rewards_pool_balance :: "staking \<Rightarrow> nat" where
  "get_rewards_pool_balance s = rw_rewards_pool_balance (sk_reward_state s)"

definition get_total_voting_weight :: "staking \<Rightarrow> nat" where
  "get_total_voting_weight s = sk_total_weight s"

definition percent_u32 :: "nat \<Rightarrow> nat \<Rightarrow> nat sact" where
  "percent_u32 part tot = (case checked_mul 128 part 100 of
     None \<Rightarrow> trap_act | Some v \<Rightarrow> return_act (v div tot mod u32_limit))"

definition get_reward_source_breakdown :: "reward_source_breakdown sact" where
  "get_reward_source_breakdown =
    bind_act (get_act sk_reward_state) (\<lambda>r.
    bind_act reward_pool (\<lambda>total.
    if total = 0 then return_act \<lparr> rb_incentive_allocation_pct = 0, rb_fee_revenue_pct = 0,
        rb_disclosure = ''No rewards pool funded yet'' \<rparr>
    else
      bind_act (percent_u32 (rw_rewards_pool_balance r) total) (\<lambda>incentive_pct.
      bind_act (percent_u32 (rw_fee_revenue_balance r) total) (\<lambda>fee_pct.
      return_act \<lparr> rb_incentive_allocation_pct = incentive_pct, rb_fee_revenue_pct = fee_pct,
        rb_disclosure = ''Early rewards funded by fixed genesis allocation. Protocol fees supplement over time. Not guaranteed sustainable yield.'' \<rparr>))))"

definition get_total_voting_weight_for :: "principal \<Rightarrow> nat sact" where
  "get_total_voting_weight_for holder =
    bind_act (get_act (\<lambda>s. map po_voting_weight (filter (is_active_position s) (positions_of holder s))))
      sum_u128"

definition get_total_staked_for :: "principal \<Rightarrow> nat sact" where
  "get_total_staked_for holder =
    bind_act (get_act (\<lambda>s. map po_amount (filter (is_active_position s) (positions_of holder s)))) sum_u128"

text \<open>\<open>unwrap\<close> on the treasury reference and the assertion on the caller are traps.\<close>

definition receive_fee_revenue :: "principal \<Rightarrow> nat \<Rightarrow> unit sact" where
  "receive_fee_revenue caller amount =
    bind_act (get_act sk_treasury) (\<lambda>t.
    if t = Some caller then
      modify_act (mutate_reward_state (\<lambda>r.
        r\<lparr> rw_fee_revenue_balance := sat_add 128 (rw_fee_revenue_balance r) amount \<rparr>))
    else trap_act)"

end
