(* ===== verification/Staking_Governance.thy ===== *)
theory Staking_Governance
  imports Staking
begin

text \<open>
  Governance of the staking canister (\<^verbatim>\<open>staking/src/lib.rs\<close>): a proposal freezes the eligible positions
  and their weights, votes are counted per frozen position, and execution runs one action behind a quorum, an
  approval threshold and a timelock. \<^verbatim>\<open>execute_proposal\<close> is cut at the calls of the pool; actions that make
  none finish in the first segment. The file ends with the reconciliation of a stuck execution and the
  upgrade.
\<close>

section \<open>Creating a proposal\<close>

definition snapshot_eligible :: "staking \<Rightarrow> nat \<Rightarrow> stake_position \<Rightarrow> bool" where
  "snapshot_eligible s voting_closes_ns p \<longleftrightarrow> is_active_position s p \<and> po_voting_weight p > 0
     \<and> po_lock_days p \<ge> MIN_LOCK_DAYS \<and> po_lock_end_ns p \<ge> voting_closes_ns"

definition eligible_positions :: "nat \<Rightarrow> staking \<Rightarrow> stake_position list" where
  "eligible_positions voting_closes_ns s =
     filter (snapshot_eligible s voting_closes_ns) (fmvalues (sk_positions s))"

text \<open>The snapshot loop: one row per eligible position and the saturating total.\<close>

fun snapshot_loop ::
  "nat \<Rightarrow> stake_position list \<Rightarrow> (snapshot_key, snapshot_entry) fmap \<times> nat
     \<Rightarrow> (snapshot_key, snapshot_entry) fmap \<times> nat" where
  "snapshot_loop pid [] acc = acc"
| "snapshot_loop pid (p # ps) (m, weight) = snapshot_loop pid ps
     (fmupd (pid, po_position_id p) \<lparr> se_holder = po_holder p, se_weight = po_voting_weight p \<rparr> m,
      sat_add 128 weight (po_voting_weight p))"

definition payload_check :: "nat \<Rightarrow> proposal_type \<Rightarrow> (vk_error, unit) res" where
  "payload_check now ptype = (case ptype of
     VerifierKeyUpgrade payload \<Rightarrow> validate_at payload now | _ \<Rightarrow> Inr ())"

definition create_proposal ::
  "nat \<Rightarrow> principal \<Rightarrow> proposal_type \<Rightarrow> string \<Rightarrow> nat sact" where
  "create_proposal now proposer ptype description =
    bind_act (get_act sk_gov_params) (\<lambda>params.
    bind_act (check_act PayloadInvalid (payload_check now ptype)) (\<lambda>_.
    bind_act (check_act ParamsInvalid (validate_params params)) (\<lambda>_.
    bind_act (need (ProposalTimestampOverflow ''voting_opens_ns'')
      (checked_add 64 now (gv_voting_delay_ns params))) (\<lambda>voting_opens_ns.
    bind_act (need (ProposalTimestampOverflow ''voting_closes_ns'')
      (checked_add 64 voting_opens_ns (gv_voting_period_ns params))) (\<lambda>voting_closes_ns.
    bind_act (need (ProposalTimestampOverflow ''execute_after_ns'')
      (checked_add 64 voting_closes_ns (type_timelock_ns ptype params))) (\<lambda>execute_after_ns.
    bind_act (get_act (eligible_positions voting_closes_ns)) (\<lambda>eligible.
    bind_act (sum_u128 (map po_amount (filter (\<lambda>p. po_holder p = proposer) eligible))) (\<lambda>stake.
    if stake < gv_min_proposal_deposit params then
      fail_act (ProposerStakeTooLow (gv_min_proposal_deposit params) MIN_LOCK_DAYS stake)
    else
      bind_act alloc_governance_id (\<lambda>id.
      bind_act (get_act (\<lambda>s. snapshot_loop id eligible (sk_snapshots s, 0))) (\<lambda>(rows, total_weight).
      bind_act (modify_act (\<lambda>s. s\<lparr> sk_snapshots := rows \<rparr>)) (\<lambda>_.
      if total_weight = 0 then fail_act NoEligibleVotingWeight
      else
        bind_act (modify_act (\<lambda>s. s\<lparr> sk_proposals := fmupd id
          \<lparr> pr_id = id, pr_proposer = proposer, pr_proposal_type = ptype, pr_description = description,
            pr_status = VotingPending, pr_created_at_ns = now, pr_voting_opens_ns = voting_opens_ns,
            pr_voting_closes_ns = voting_closes_ns, pr_execute_after_ns = execute_after_ns,
            pr_votes_for = 0, pr_votes_against = 0, pr_snapshot_total_weight = Some total_weight,
            pr_executed_at_ns = None, pr_execution_result = None,
            pr_execution_started_at_ns = None \<rparr> (sk_proposals s) \<rparr>)) (\<lambda>_.
        return_act id))))))))))))"

section \<open>Voting\<close>

definition put_proposal :: "nat \<Rightarrow> proposal \<Rightarrow> staking \<Rightarrow> staking" where
  "put_proposal pid p s = s\<lparr> sk_proposals := fmupd pid p (sk_proposals s) \<rparr>"

definition find_proposal :: "nat \<Rightarrow> proposal sact" where
  "find_proposal pid =
    bind_act (get_act (\<lambda>s. fmlookup (sk_proposals s) pid)) (\<lambda>found. need GovProposalNotFound found)"

text \<open>The frozen positions of a voter: the range of the proposal's snapshot, filtered by holder.\<close>

definition voter_entries :: "nat \<Rightarrow> principal \<Rightarrow> staking \<Rightarrow> (nat \<times> nat) list" where
  "voter_entries proposal_id voter s =
     List.map_filter (\<lambda>k. case fmlookup (sk_snapshots s) k of
         None \<Rightarrow> None
       | Some e \<Rightarrow> if se_holder e = voter then Some (snd k, se_weight e) else None)
       (takeWhile (\<lambda>k. fst k = proposal_id)
          (filter (\<lambda>k. (proposal_id, 0) \<le> k) (fmkeys (sk_snapshots s))))"

fun cast_votes ::
  "nat \<Rightarrow> nat \<Rightarrow> principal \<Rightarrow> bool \<Rightarrow> (nat \<times> nat) list \<Rightarrow> (bytes, vote_record) fmap \<times> nat
     \<Rightarrow> (bytes, vote_record) fmap \<times> nat" where
  "cast_votes now proposal_id voter approve [] acc = acc"
| "cast_votes now proposal_id voter approve ((position_id, weight) # rest) (m, cast_weight) =
     cast_votes now proposal_id voter approve rest
       (fmupd (make_vote_key proposal_id position_id)
          \<lparr> vr_proposal_id = proposal_id, vr_position_id = Some position_id, vr_voter = voter,
            vr_approve = approve, vr_voting_weight = weight, vr_voted_at_ns = now \<rparr> m,
        sat_add 128 cast_weight weight)"

definition vote :: "nat \<Rightarrow> principal \<Rightarrow> nat \<Rightarrow> bool \<Rightarrow> unit sact" where
  "vote now voter proposal_id approve =
    bind_act (find_proposal proposal_id) (\<lambda>p.
    if now < pr_voting_opens_ns p then fail_act VotingNotOpen
    else if now > pr_voting_closes_ns p then fail_act VotingHasClosed
    else
      bind_act (get_act (voter_entries proposal_id voter)) (\<lambda>entries.
      if entries = [] then fail_act NoSnapshottedPositions
      else
        bind_act (get_act sk_votes) (\<lambda>votes.
        let unvoted = filter (\<lambda>(position_id, _).
              fmlookup votes (make_vote_key proposal_id position_id) = None) entries
        in if unvoted = [] then fail_act AlreadyVoted
           else (case cast_votes now proposal_id voter approve unvoted (votes, 0) of
             (votes', cast_weight) \<Rightarrow>
               bind_act (modify_act (\<lambda>s. s\<lparr> sk_votes := votes' \<rparr>)) (\<lambda>_.
               modify_act (put_proposal proposal_id
                 (if approve
                  then p\<lparr> pr_votes_for := sat_add 128 (pr_votes_for p) cast_weight,
                         pr_status := VotingOpen \<rparr>
                  else p\<lparr> pr_votes_against := sat_add 128 (pr_votes_against p) cast_weight,
                         pr_status := VotingOpen \<rparr>)))))))"

section \<open>Actions\<close>

datatype pool_call = ScheduleVkActivation nat bytes nat nat | EmergencyPauseDeposits | EmergencyPauseSpends

text \<open>The pool's reply: a value, a returned error, or a rejected call.\<close>

datatype pool_reply = PoolOk | PoolErr string | PoolRejected string

datatype action_step = ActionDone execution_text | ActionError action_error | ActionCalls principal pool_call

definition action_start :: "proposal_type \<Rightarrow> action_step sact" where
  "action_start ptype = (case ptype of
     VerifierKeyUpgrade payload \<Rightarrow>
       (case validate_structural payload of
          Inl (Err e) \<Rightarrow> return_act (ActionError (ActionVkInvalid e))
        | Inl Trap \<Rightarrow> trap_act
        | Inr _ \<Rightarrow>
            bind_act (get_act sk_pool) (\<lambda>pool. case pool of
              None \<Rightarrow> return_act (ActionError ActionPoolNotSet)
            | Some pool \<Rightarrow>
                (case checked_add 64 (vk_activation_timestamp_ns payload) VK_OLD_KEY_GRACE_NS of
                   None \<Rightarrow> trap_act
                 | Some old_key_cutoff_ns \<Rightarrow> return_act (ActionCalls pool
                     (ScheduleVkActivation (vk_circuit_version payload) (vk_new_verifying_key_hash payload)
                       (vk_activation_timestamp_ns payload) old_key_cutoff_ns)))))
   | RewardScheduleUpdate rate \<Rightarrow>
       bind_act (modify_act (mutate_reward_state (\<lambda>r. r\<lparr> rw_emission_rate_per_day := rate \<rparr>))) (\<lambda>_.
       return_act (ActionDone EmissionRateUpdated))
   | GovernanceParamUpdate new_params \<Rightarrow>
       if gv_vk_upgrade_timelock_ns new_params < VK_UPGRADE_MIN_TIMELOCK_NS then
         return_act (ActionError ActionVkTimelockFloor)
       else (case validate_params new_params of
           Inl (Err e) \<Rightarrow> return_act (ActionError (ActionParamsInvalid e))
         | Inl Trap \<Rightarrow> trap_act
         | Inr _ \<Rightarrow> bind_act (modify_act (set_gov_params new_params)) (\<lambda>_.
             return_act (ActionDone GovernanceParametersUpdated)))
   | EmergencyPause target reason \<Rightarrow>
       bind_act (get_act sk_pool) (\<lambda>pool. case pool of
         None \<Rightarrow> return_act (ActionError ActionPoolNotSet)
       | Some pool \<Rightarrow> return_act (ActionCalls pool (case target of
             PoolDeposits \<Rightarrow> EmergencyPauseDeposits
           | PoolSpends \<Rightarrow> EmergencyPauseSpends
           | BothPauses \<Rightarrow> EmergencyPauseDeposits)))
   | ParameterUpdate _ _ \<Rightarrow> return_act (ActionError UnsupportedParameterUpdate)
   | TreasurySpend _ _ _ _ \<Rightarrow> return_act (ActionError UnsupportedTreasurySpend)
   | FeeUpdate _ _ _ \<Rightarrow> return_act (ActionError UnsupportedFeeUpdate)
   | CanisterUpgrade _ _ _ \<Rightarrow> return_act (ActionError UnsupportedCanisterUpgrade))"

text \<open>\<^verbatim>\<open>pause_result?\<close> reads the value of \<^verbatim>\<open>emergency_pause_spends\<close>; the values of the other two calls are
  bound to \<^verbatim>\<open>_\<close> and dropped.\<close>

definition spends_reply :: "string \<Rightarrow> pool_reply \<Rightarrow> action_step" where
  "spends_reply reason reply = (case reply of
     PoolOk \<Rightarrow> ActionDone (EmergencyPauseApplied reason)
   | PoolErr e \<Rightarrow> ActionError (ActionPoolError e)
   | PoolRejected e \<Rightarrow> ActionError (ActionCallFailed e))"

definition dropped_reply :: "action_step \<Rightarrow> pool_reply \<Rightarrow> action_step" where
  "dropped_reply next reply = (case reply of PoolRejected e \<Rightarrow> ActionError (ActionCallFailed e) | _ \<Rightarrow> next)"

definition action_reply :: "proposal_type \<Rightarrow> principal \<Rightarrow> pool_call \<Rightarrow> pool_reply \<Rightarrow> action_step" where
  "action_reply ptype pool call reply = (case ptype of
     VerifierKeyUpgrade payload \<Rightarrow>
       dropped_reply (ActionDone (VkScheduledFor (vk_activation_timestamp_ns payload))) reply
   | EmergencyPause target reason \<Rightarrow>
       (case target of
          PoolDeposits \<Rightarrow> dropped_reply (ActionDone (EmergencyPauseApplied reason)) reply
        | PoolSpends \<Rightarrow> spends_reply reason reply
        | BothPauses \<Rightarrow>
            if call = EmergencyPauseDeposits
            then dropped_reply (ActionCalls pool EmergencyPauseSpends) reply
            else spends_reply reason reply)
   | _ \<Rightarrow> ActionError (ActionCallFailed []))"

section \<open>Execution\<close>

definition mul_u128 :: "nat \<Rightarrow> nat \<Rightarrow> nat sact" where
  "mul_u128 a b = (case checked_mul 128 a b of None \<Rightarrow> trap_act | Some v \<Rightarrow> return_act v)"

text \<open>What a suspended execution holds: the record it wrote as \<^verbatim>\<open>Executing\<close> and the entry time.\<close>

record execution_turn =
  xt_proposal_id :: nat
  xt_proposal :: proposal
  xt_now :: nat

datatype execution_started = ExecutionDone | ExecutionCalling execution_turn principal pool_call

text \<open>The final write, from the copy held across the awaits.\<close>

definition finish_execution :: "execution_turn \<Rightarrow> action_error + execution_text \<Rightarrow> execution_started sact" where
  "finish_execution t result =
    bind_act (modify_act (put_proposal (xt_proposal_id t) ((xt_proposal t)
      \<lparr> pr_executed_at_ns := Some (xt_now t),
        pr_status := (case result of Inr _ \<Rightarrow> GovExecuted | Inl _ \<Rightarrow> GovRejected),
        pr_execution_result := Some (case result of Inr txt \<Rightarrow> txt | Inl e \<Rightarrow> ActionErrorText e) \<rparr>))) (\<lambda>_.
    case result of Inr _ \<Rightarrow> return_act ExecutionDone | Inl e \<Rightarrow> fail_act (ActionFailed e))"

definition continue_execution :: "execution_turn \<Rightarrow> action_step \<Rightarrow> execution_started sact" where
  "continue_execution t step = (case step of
     ActionDone txt \<Rightarrow> finish_execution t (Inr txt)
   | ActionError e \<Rightarrow> finish_execution t (Inl e)
   | ActionCalls pool call \<Rightarrow> return_act (ExecutionCalling t pool call))"

text \<open>The checks before execution; the result is the proposal and whether it met quorum and approval.\<close>

definition execution_checks :: "nat \<Rightarrow> nat \<Rightarrow> (proposal \<times> bool \<times> bool) sact" where
  "execution_checks now proposal_id =
    bind_act (find_proposal proposal_id) (\<lambda>p.
    if pr_executed_at_ns p \<noteq> None then fail_act AlreadyExecuted
    else if pr_status p = Executing then fail_act ExecutionInFlight
    else if now < pr_voting_closes_ns p then fail_act VotingStillOpen
    else if now < pr_execute_after_ns p then
      fail_act (ExecutionTimelockActive ((pr_execute_after_ns p - now) div 1000000000))
    else
      bind_act (get_act sk_gov_params) (\<lambda>params.
      bind_act (need ProposalWithoutSnapshot (pr_snapshot_total_weight p)) (\<lambda>total_weight.
      if total_weight = 0 then fail_act ZeroSnapshotWeight
      else
        (case checked_add 128 (pr_votes_for p) (pr_votes_against p) of
           None \<Rightarrow> trap_act
         | Some total_votes \<Rightarrow>
             bind_act (mul_u128 total_votes 10000) (\<lambda>votes_scaled.
             bind_act (mul_u128 total_weight (type_quorum_bps (pr_proposal_type p) params)) (\<lambda>quorum.
             bind_act (mul_u128 (pr_votes_for p) 10000) (\<lambda>for_scaled.
             bind_act (mul_u128 total_votes (gv_approval_threshold_bps params)) (\<lambda>threshold.
             return_act (p, quorum \<le> votes_scaled, threshold \<le> for_scaled)))))))))"

definition execute_proposal :: "nat \<Rightarrow> nat \<Rightarrow> execution_started sact" where
  "execute_proposal now proposal_id =
    bind_act (execution_checks now proposal_id) (\<lambda>(p, quorum_met, approved).
    if \<not> quorum_met then
      bind_act (modify_act (put_proposal proposal_id
        (p\<lparr> pr_status := GovRejected, pr_execution_result := Some QuorumNotMetText \<rparr>))) (\<lambda>_.
      fail_act QuorumNotMet)
    else if \<not> approved then
      bind_act (modify_act (put_proposal proposal_id (p\<lparr> pr_status := GovRejected \<rparr>))) (\<lambda>_.
      fail_act ApprovalNotMet)
    else
      let p' = p\<lparr> pr_status := Executing, pr_execution_started_at_ns := Some now \<rparr>;
          t = \<lparr> xt_proposal_id = proposal_id, xt_proposal = p', xt_now = now \<rparr>
      in bind_act (modify_act (put_proposal proposal_id p')) (\<lambda>_.
         bind_act (action_start (pr_proposal_type p)) (\<lambda>step.
         continue_execution t step)))"

definition execution_reply ::
  "execution_turn \<Rightarrow> principal \<Rightarrow> pool_call \<Rightarrow> pool_reply \<Rightarrow> execution_started sact" where
  "execution_reply t pool call reply =
     continue_execution t (action_reply (pr_proposal_type (xt_proposal t)) pool call reply)"

section \<open>Reconciling a stuck execution\<close>

definition STUCK_PROPOSAL_RECONCILE_THRESHOLD_NS :: nat where
  "STUCK_PROPOSAL_RECONCILE_THRESHOLD_NS = 86400000000000"

datatype proposal_reconcile_result =
    Reconciled gov_status nat | TerminalReplay gov_status "execution_text option"

datatype proposal_reconcile_error =
    ReconcileNotController | ReconcileProposalNotFound | ReconcileNotStuck gov_status
  | ReconcileTooYoung nat nat | LegacyClockInitialized nat nat

datatype reconcile_error_kind = KindNotStuck gov_status | KindTooYoung nat nat

datatype reconcile_outcome =
    OutcomeReplay gov_status "execution_text option" | OutcomeRefuse reconcile_error_kind
  | OutcomeInitializeClock nat | OutcomeCommit gov_status nat execution_text

definition decide_reconcile ::
  "proposal \<Rightarrow> proposal_reconcile_decision \<Rightarrow> nat \<Rightarrow> reconcile_outcome" where
  "decide_reconcile p decision now =
    (if pr_status p = GovExecuted \<or> pr_status p = GovRejected then
       OutcomeReplay (pr_status p) (pr_execution_result p)
     else if pr_status p \<noteq> Executing then OutcomeRefuse (KindNotStuck (pr_status p))
     else (case pr_execution_started_at_ns p of
         None \<Rightarrow> OutcomeInitializeClock now
       | Some started_at \<Rightarrow>
           let age_ns = now - started_at in
           if age_ns < STUCK_PROPOSAL_RECONCILE_THRESHOLD_NS then
             OutcomeRefuse (KindTooYoung age_ns STUCK_PROPOSAL_RECONCILE_THRESHOLD_NS)
           else OutcomeCommit (case decision of
               ReconcileExecuted \<Rightarrow> GovExecuted | ReconcileNotExecuted \<Rightarrow> GovRejected)
             now (ReconciledText decision)))"

definition reconcile_stuck_proposal ::
  "nat \<Rightarrow> bool \<Rightarrow> nat \<Rightarrow> proposal_reconcile_decision
     \<Rightarrow> (staking, proposal_reconcile_error, proposal_reconcile_result) segment" where
  "reconcile_stuck_proposal now is_controller proposal_id decision =
    (if \<not> is_controller then fail_act ReconcileNotController
     else
       bind_act (get_act (\<lambda>s. fmlookup (sk_proposals s) proposal_id)) (\<lambda>found.
       bind_act (need ReconcileProposalNotFound found) (\<lambda>p.
       case decide_reconcile p decision now of
         OutcomeReplay status result \<Rightarrow> return_act (TerminalReplay status result)
       | OutcomeRefuse (KindNotStuck status) \<Rightarrow> fail_act (ReconcileNotStuck status)
       | OutcomeRefuse (KindTooYoung age threshold) \<Rightarrow> fail_act (ReconcileTooYoung age threshold)
       | OutcomeInitializeClock observed_at_ns \<Rightarrow>
           bind_act (modify_act (put_proposal proposal_id
             (p\<lparr> pr_execution_started_at_ns := Some observed_at_ns \<rparr>))) (\<lambda>_.
           fail_act (LegacyClockInitialized observed_at_ns STUCK_PROPOSAL_RECONCILE_THRESHOLD_NS))
       | OutcomeCommit status executed_at_ns result \<Rightarrow>
           bind_act (modify_act (put_proposal proposal_id
             (p\<lparr> pr_status := status, pr_executed_at_ns := Some executed_at_ns,
                pr_execution_result := Some result \<rparr>))) (\<lambda>_.
           return_act (Reconciled status executed_at_ns)))))"

section \<open>Queries\<close>

definition list_proposals_by_status :: "gov_status option \<Rightarrow> staking \<Rightarrow> proposal list" where
  "list_proposals_by_status status s =
     filter (\<lambda>p. case status of None \<Rightarrow> True | Some st \<Rightarrow> pr_status p = st) (fmvalues (sk_proposals s))"

definition get_governance_params :: "staking \<Rightarrow> governance_params" where
  "get_governance_params s = sk_gov_params s"

section \<open>Upgrade\<close>

text \<open>An upgrade replaces the module: stable memory survives and every heap mirror starts again from its
  initial value, so \<^verbatim>\<open>post_upgrade\<close> has to write all of them from the stable cells.\<close>

definition heap_lost :: "staking \<Rightarrow> staking" where
  "heap_lost s = s\<lparr> sk_token := None, sk_pool := None, sk_treasury := None,
     sk_gov_params := default_params, sk_reward_state := zero_rewards, sk_total_weight := 0,
     sk_next_position_id := 1, sk_next_proposal_id := 1 \<rparr>"

definition restore_voting_weight :: "unit sact" where
  "restore_voting_weight =
    bind_act (get_act sk_weight_cell) (\<lambda>vw.
    if vw_initialized vw then modify_act (\<lambda>s. s\<lparr> sk_total_weight := vw_total vw \<rparr>)
    else
      bind_act (get_act (\<lambda>s. map po_voting_weight (filter (is_active_position s) (fmvalues (sk_positions s)))))
        (\<lambda>weights.
      bind_act (sum_u128 weights) (\<lambda>backfilled. modify_act (set_total_voting_weight backfilled))))"

definition post_upgrade_staking :: "unit sact" where
  "post_upgrade_staking =
    bind_act (get_act (\<lambda>s. (sk_refs s, sk_next_position_cell s, sk_next_proposal_cell s))) (\<lambda>cells.
    case cells of
      (Some [token, pool, treasury], Some [np], Some [ng]) \<Rightarrow>
        bind_act (get_act (\<lambda>s. (gov_params_from_cell (sk_gov_cell s), reward_state_from_cell (sk_reward_cell s))))
          (\<lambda>groups.
        case (decode_stake_counter np, decode_stake_counter ng, groups) of
          (Some next_position_id, Some next_proposal_id, Some params, Some rewards) \<Rightarrow>
            bind_act (modify_act (\<lambda>s. s\<lparr> sk_token := Some token, sk_pool := Some pool,
              sk_treasury := Some treasury, sk_gov_params := params, sk_reward_state := rewards,
              sk_next_position_id := next_position_id, sk_next_proposal_id := next_proposal_id \<rparr>))
              (\<lambda>_. restore_voting_weight)
        | _ \<Rightarrow> trap_act)
    | _ \<Rightarrow> trap_act)"

end
