(* ===== verification/Staking_Runs.thy ===== *)
theory Staking_Runs
  imports Staking_Governance Token_Ledger
begin

text \<open>
  Runs of the staking canister beside the token ledger it locks on (the ledger of \<open>Token_Ledger\<close>). A world
  holds both states, the clock, the suspended stakes and unstakes, the suspended executions, and as ghosts
  the lock calls sent, what the token did with each, the executions whose action began, and two flags: an
  operation was reconciled while its own call was still awaited (\<open>sw_raced\<close>), or against what the token
  had done (\<open>sw_misjudged\<close>). A call may be delivered at any time after it was sent, or never.
\<close>

section \<open>Worlds and steps\<close>

datatype token_answer = TokenExecuted | TokenDeclined | TokenNever

record staking_world =
  sw_state :: staking
  sw_now :: nat
  sw_token :: token
  sw_locks :: "lock_turn list"
  sw_execs :: "(execution_turn \<times> principal \<times> pool_call) list"
  sw_calls :: "lock_turn set"
  sw_answer :: "nat \<Rightarrow> token_answer option"
  sw_begun :: "(nat \<times> nat \<times> proposal \<times> governance_params) list"
  sw_raced :: bool
  sw_misjudged :: bool

text \<open>The token executes a lock call of the staking canister \<open>self\<close>.\<close>

definition deliver_lock :: "principal \<Rightarrow> lock_turn \<Rightarrow> token \<Rightarrow> token_answer \<times> token" where
  "deliver_lock self t tk =
    (case (case lt_op_type t of
             LockOp \<Rightarrow> lock_for_staking self (po_holder (lt_position t)) (po_amount (lt_position t)) tk
           | UnlockOp \<Rightarrow> unlock_from_staking self (po_holder (lt_position t)) (po_amount (lt_position t)) tk) of
       Inr tk' \<Rightarrow> (TokenExecuted, tk') | Inl (Err _) \<Rightarrow> (TokenDeclined, tk) | Inl Trap \<Rightarrow> (TokenNever, tk))"

fun reply_fits :: "token_answer option \<Rightarrow> lock_reply \<Rightarrow> bool" where
  "reply_fits a LockConfirmed = (a = Some TokenExecuted)"
| "reply_fits a (LockRefused e) = (a = Some TokenDeclined)"
| "reply_fits a (LockCallRejected e) = True"

definition judged_right :: "token_answer option \<Rightarrow> lock_decision \<Rightarrow> bool" where
  "judged_right a d \<longleftrightarrow> (case a of None \<Rightarrow> False
     | Some TokenExecuted \<Rightarrow> d = DecidedExecuted | Some _ \<Rightarrow> d = DecidedNotExecuted)"

text \<open>The ghosts after a reconciliation: the flags move only when the canister accepted it.\<close>

definition after_reconcile ::
  "staking_world \<Rightarrow> nat \<Rightarrow> lock_decision \<Rightarrow> staking_error + unit \<Rightarrow> staking \<Rightarrow> staking_world" where
  "after_reconcile w op_id d r s = (case r of
     Inl _ \<Rightarrow> w\<lparr> sw_state := s \<rparr>
   | Inr _ \<Rightarrow> w\<lparr> sw_state := s,
       sw_raced := (sw_raced w \<or> op_id \<in> lt_op_id ` set (sw_locks w)),
       sw_misjudged := (sw_misjudged w \<or> \<not> judged_right (sw_answer w op_id) d) \<rparr>)"

text \<open>An execution went on to its action when \<open>execute_proposal\<close> returned success, finished or waiting for the
  pool, or the action's own error; a refusal before the action returns another error. The ghost then
  records the stored proposal and the parameters in force as they were when the execution was called.\<close>

fun action_began :: "staking_error + execution_started \<Rightarrow> bool" where
  "action_began (Inr _) = True"
| "action_began (Inl (ActionFailed _)) = True"
| "action_began (Inl _) = False"

definition log_execution ::
  "nat \<Rightarrow> nat \<Rightarrow> staking \<Rightarrow> staking_error + execution_started
     \<Rightarrow> (nat \<times> nat \<times> proposal \<times> governance_params) list
     \<Rightarrow> (nat \<times> nat \<times> proposal \<times> governance_params) list" where
  "log_execution now pid s r begun = (if action_began r then
       (case fmlookup (sk_proposals s) pid of
          None \<Rightarrow> begun | Some p \<Rightarrow> (pid, now, p, sk_gov_params s) # begun)
     else begun)"

definition after_execution ::
  "staking_world \<Rightarrow> (execution_turn \<times> principal \<times> pool_call) list \<Rightarrow> staking_error + execution_started
     \<Rightarrow> staking \<Rightarrow> staking_world" where
  "after_execution w execs r s = w\<lparr> sw_state := s, sw_execs := (case r of
     Inr (ExecutionCalling t pool call) \<Rightarrow> (t, pool, call) # execs | _ \<Rightarrow> execs) \<rparr>"

inductive staking_step ::
  "(bytes \<Rightarrow> bytes) \<Rightarrow> principal \<Rightarrow> principal \<Rightarrow> staking_world \<Rightarrow> staking_world \<Rightarrow> bool"
  for sha tid self where
  ss_time: "sw_now w \<le> n \<Longrightarrow> n < u64_limit \<Longrightarrow> staking_step sha tid self w (w\<lparr> sw_now := n \<rparr>)"
| ss_token: "token_step sha tid (sw_now w, sw_token w) (n, tk) \<Longrightarrow>
    (\<forall>k. get_lock tk k = get_lock (sw_token w) k) \<Longrightarrow>
    staking_step sha tid self w (w\<lparr> sw_now := n, sw_token := tk \<rparr>)"
| ss_stake: "stake_start (sw_now w) holder amount lock_days key (sw_state w) = Some (r, s) \<Longrightarrow>
    length holder \<le> 29 \<Longrightarrow> sk_op_counter (sw_state w) + 1 < u64_limit \<Longrightarrow>
    staking_step sha tid self w (case r of
        Inr (StakeCalling t) \<Rightarrow> w\<lparr> sw_state := s, sw_locks := t # sw_locks w, sw_calls := insert t (sw_calls w) \<rparr>
      | _ \<Rightarrow> w\<lparr> sw_state := s \<rparr>)"
| ss_unstake: "unstake_start (sw_now w) holder pid (sw_state w) = Some (r, s) \<Longrightarrow>
    sk_op_counter (sw_state w) + 1 < u64_limit \<Longrightarrow>
    staking_step sha tid self w (case r of
        Inr t \<Rightarrow> w\<lparr> sw_state := s, sw_locks := t # sw_locks w, sw_calls := insert t (sw_calls w) \<rparr>
      | Inl _ \<Rightarrow> w\<lparr> sw_state := s \<rparr>)"
| ss_deliver: "t \<in> sw_calls w \<Longrightarrow> sw_answer w (lt_op_id t) = None \<Longrightarrow>
    deliver_lock self t (sw_token w) = (a, tk) \<Longrightarrow>
    staking_step sha tid self w (w\<lparr> sw_token := tk, sw_answer := (sw_answer w)(lt_op_id t \<mapsto> a) \<rparr>)"
| ss_drop: "t \<in> sw_calls w \<Longrightarrow> sw_answer w (lt_op_id t) = None \<Longrightarrow>
    staking_step sha tid self w (w\<lparr> sw_answer := (sw_answer w)(lt_op_id t \<mapsto> TokenNever) \<rparr>)"
| ss_stake_reply: "t \<in> set (sw_locks w) \<Longrightarrow> lt_op_type t = LockOp \<Longrightarrow>
    reply_fits (sw_answer w (lt_op_id t)) reply \<Longrightarrow> stake_reply t reply (sw_state w) = Some (r, s) \<Longrightarrow>
    staking_step sha tid self w (w\<lparr> sw_state := s, sw_locks := remove1 t (sw_locks w) \<rparr>)"
| ss_unstake_reply: "t \<in> set (sw_locks w) \<Longrightarrow> lt_op_type t = UnlockOp \<Longrightarrow>
    reply_fits (sw_answer w (lt_op_id t)) reply \<Longrightarrow> unstake_reply t reply (sw_state w) = Some (ru, s) \<Longrightarrow>
    staking_step sha tid self w (w\<lparr> sw_state := s, sw_locks := remove1 t (sw_locks w) \<rparr>)"
| ss_lost: "t \<in> set (sw_locks w) \<Longrightarrow>
    staking_step sha tid self w (w\<lparr> sw_locks := remove1 t (sw_locks w) \<rparr>)"
| ss_reconcile_lock: "reconcile_lock ctl op_id d (sw_state w) = Some (rc, s) \<Longrightarrow>
    staking_step sha tid self w (after_reconcile w op_id d rc s)"
| ss_reconcile_unlock: "reconcile_unlock ctl op_id d (sw_state w) = Some (rc, s) \<Longrightarrow>
    staking_step sha tid self w (after_reconcile w op_id d rc s)"
| ss_claim: "claim_rewards (sw_now w) holder pid (sw_state w) = Some (rn, s) \<Longrightarrow>
    staking_step sha tid self w (w\<lparr> sw_state := s \<rparr>)"
| ss_revenue: "receive_fee_revenue caller amount (sw_state w) = Some (rc, s) \<Longrightarrow>
    staking_step sha tid self w (w\<lparr> sw_state := s \<rparr>)"
| ss_create: "create_proposal (sw_now w) proposer ptype description (sw_state w) = Some (rn, s) \<Longrightarrow>
    staking_step sha tid self w (w\<lparr> sw_state := s \<rparr>)"
| ss_vote: "vote (sw_now w) voter pid approve (sw_state w) = Some (ru, s) \<Longrightarrow>
    staking_step sha tid self w (w\<lparr> sw_state := s \<rparr>)"
| ss_execute: "execute_proposal (sw_now w) pid (sw_state w) = Some (re, s) \<Longrightarrow>
    staking_step sha tid self w ((after_execution w (sw_execs w) re s)\<lparr> sw_begun :=
      log_execution (sw_now w) pid (sw_state w) re (sw_begun w) \<rparr>)"
| ss_pool_reply: "(t, pool, call) \<in> set (sw_execs w) \<Longrightarrow>
    execution_reply t pool call preply (sw_state w) = Some (re, s) \<Longrightarrow>
    staking_step sha tid self w (after_execution w (remove1 (t, pool, call) (sw_execs w)) re s)"
| ss_execution_lost: "x \<in> set (sw_execs w) \<Longrightarrow>
    staking_step sha tid self w (w\<lparr> sw_execs := remove1 x (sw_execs w) \<rparr>)"
| ss_reconcile_stuck: "reconcile_stuck_proposal (sw_now w) ctl pid decision (sw_state w) = Some (rs, s) \<Longrightarrow>
    staking_step sha tid self w (w\<lparr> sw_state := s \<rparr>)"
| ss_upgrade: "post_upgrade_staking (heap_lost (sw_state w)) = Some (Inr (), s) \<Longrightarrow>
    staking_step sha tid self w (w\<lparr> sw_state := s, sw_locks := [], sw_execs := [] \<rparr>)"

text \<open>A run starts at the installation beside a ledger that knows this canister and holds no locks.\<close>

inductive staking_run :: "(bytes \<Rightarrow> bytes) \<Rightarrow> principal \<Rightarrow> principal \<Rightarrow> staking_world \<Rightarrow> bool"
  for sha tid self where
  sr_init: "init_staking n args fresh_staking = Some (Inr (), s) \<Longrightarrow> token_reach sha tid (n, tk) \<Longrightarrow>
    tk_staking tk = Some self \<Longrightarrow> (\<forall>k. get_lock tk k = 0) \<Longrightarrow>
    staking_run sha tid self \<lparr> sw_state = s, sw_now = n, sw_token = tk, sw_locks = [], sw_execs = [],
      sw_calls = {}, sw_answer = (\<lambda>_. None), sw_begun = [], sw_raced = False, sw_misjudged = False \<rparr>"
| sr_step: "staking_run sha tid self w \<Longrightarrow> staking_step sha tid self w w' \<Longrightarrow> staking_run sha tid self w'"

end
