(* ===== verification/Staking_Steps.thy ===== *)
theory Staking_Steps
  imports Staking_Runs
begin

text \<open>
  What the position operations do. A stake and an unstake both open a lock operation (\<open>op_launched\<close>), and
  the token's reply and the controller's reconciliation both close one (\<open>op_settled\<close>), so that the invariant is
  proved for these two transitions only. Governance leaves positions alone (\<open>same_positions\<close>).
\<close>

section \<open>Sums over a finite map\<close>

definition fmrow :: "('k \<Rightarrow> 'v \<Rightarrow> nat) \<Rightarrow> ('k, 'v) fmap \<Rightarrow> 'k \<Rightarrow> nat" where
  "fmrow f m k = (case fmlookup m k of None \<Rightarrow> 0 | Some v \<Rightarrow> f k v)"

definition fmsum :: "('k \<Rightarrow> 'v \<Rightarrow> nat) \<Rightarrow> ('k, 'v) fmap \<Rightarrow> nat" where
  "fmsum f m = sum (fmrow f m) (fset (fmdom m))"

lemma fmsum_over:
  assumes "finite A" "fset (fmdom m) \<subseteq> A"
  shows "fmsum f m = sum (fmrow f m) A"
  unfolding fmsum_def
  by (rule sum.mono_neutral_left) (use assms in \<open>auto simp: fmrow_def fmdom_notD\<close>)

lemma fmsum_change:
  assumes "\<And>x. x \<noteq> k \<Longrightarrow> fmrow f m x = fmrow g m' x"
  shows "fmsum f m + fmrow g m' k = fmsum g m' + fmrow f m k"
proof -
  define A where "A = insert k (fset (fmdom m) \<union> fset (fmdom m'))"
  have A: "finite A" "k \<in> A" by (simp_all add: A_def)
  have "fmsum f m = sum (fmrow f m) A" "fmsum g m' = sum (fmrow g m') A"
    by (rule fmsum_over; auto simp: A_def)+
  then have "fmsum f m = fmrow f m k + sum (fmrow f m) (A - {k})"
    "fmsum g m' = fmrow g m' k + sum (fmrow g m') (A - {k})"
    using sum.remove [OF A] by simp_all
  moreover have "sum (fmrow f m) (A - {k}) = sum (fmrow g m') (A - {k})"
    by (rule sum.cong) (use assms in auto)
  ultimately show ?thesis by simp
qed

lemma fmsum_cong:
  assumes "\<And>x. fmrow f m x = fmrow g m' x"
  shows "fmsum f m = fmsum g m'"
  using fmsum_change [of undefined f m g m'] assms by simp

lemma fmsum_mono:
  assumes "\<And>x. fmrow f m x \<le> fmrow g m x"
  shows "fmsum f m \<le> fmsum g m"
  unfolding fmsum_def using assms by (rule sum_mono)

lemma fmsum_times: "fmsum (\<lambda>k v. c * f k v) m = c * fmsum f m"
proof -
  have "fmrow (\<lambda>k v. c * f k v) m = (\<lambda>k. c * fmrow f m k)"
    by (auto simp: fmrow_def fun_eq_iff split: option.splits)
  then show ?thesis by (simp add: fmsum_def sum_distrib_left)
qed

lemma fmsum_empty [simp]: "fmsum f fmempty = 0"
  by (simp add: fmsum_def)

section \<open>Reading the state\<close>

definition pos_of :: "staking \<Rightarrow> nat \<Rightarrow> stake_position option" where
  "pos_of s pid = fmlookup (sk_positions s) pid"

definition pend_of :: "staking \<Rightarrow> nat \<Rightarrow> pending_stake_state option" where
  "pend_of s pid = fmlookup (sk_pending s) pid"

definition op_of :: "staking \<Rightarrow> nat \<Rightarrow> pending_lock_op option" where
  "op_of s op_id = fmlookup (sk_lock_ops s) op_id"

definition key_of :: "staking \<Rightarrow> bytes \<Rightarrow> stake_dedup_record option" where
  "key_of s key = fmlookup (sk_dedup s) key"

lemmas staking_reads = pos_of_def pend_of_def op_of_def key_of_def

definition same_positions :: "staking \<Rightarrow> staking \<Rightarrow> bool" where
  "same_positions s s' \<longleftrightarrow> sk_positions s' = sk_positions s \<and> sk_pending s' = sk_pending s
     \<and> sk_dedup s' = sk_dedup s \<and> sk_lock_ops s' = sk_lock_ops s \<and> sk_op_counter s' = sk_op_counter s
     \<and> sk_total_weight s' = sk_total_weight s \<and> sk_weight_cell s' = sk_weight_cell s
     \<and> sk_next_position_id s' = sk_next_position_id s \<and> sk_next_position_cell s' = sk_next_position_cell s"

definition same_governance :: "staking \<Rightarrow> staking \<Rightarrow> bool" where
  "same_governance s s' \<longleftrightarrow> sk_proposals s' = sk_proposals s \<and> sk_votes s' = sk_votes s
     \<and> sk_snapshots s' = sk_snapshots s \<and> sk_gov_params s' = sk_gov_params s
     \<and> sk_gov_cell s' = sk_gov_cell s \<and> sk_next_proposal_id s' = sk_next_proposal_id s
     \<and> sk_next_proposal_cell s' = sk_next_proposal_cell s \<and> sk_reward_state s' = sk_reward_state s
     \<and> sk_reward_cell s' = sk_reward_cell s \<and> sk_refs s' = sk_refs s \<and> sk_token s' = sk_token s
     \<and> sk_pool s' = sk_pool s \<and> sk_treasury s' = sk_treasury s"

lemma same_refl [simp]: "same_positions s s" "same_governance s s"
  by (simp_all add: same_positions_def same_governance_def)

section \<open>Opening an operation\<close>

definition pending_position :: "pending_lock_op \<Rightarrow> stake_position" where
  "pending_position lop = (lo_snapshot lop)\<lparr> po_voting_weight := 0, po_op_id := Some (lo_op_id lop) \<rparr>"

definition op_dedup :: "pending_lock_op \<Rightarrow> bytes" where
  "op_dedup lop = (case lo_dedup_key lop of None \<Rightarrow> [] | Some key \<Rightarrow> dedup_key_new (lo_holder lop) key)"

definition turn_of :: "principal \<Rightarrow> pending_lock_op \<Rightarrow> lock_turn" where
  "turn_of token lop = \<lparr> lt_op_id = lo_op_id lop, lt_op_type = lo_op_type lop,
     lt_position_id = lo_position_id lop, lt_position = lo_snapshot lop, lt_token = token,
     lt_dedup = op_dedup lop \<rparr>"

definition op_wf :: "pending_lock_op \<Rightarrow> bool" where
  "op_wf lop \<longleftrightarrow> lo_holder lop = po_holder (lo_snapshot lop) \<and> lo_amount lop = po_amount (lo_snapshot lop)
     \<and> po_position_id (lo_snapshot lop) = lo_position_id lop
     \<and> \<not> po_closed (lo_snapshot lop) \<and> po_op_id (lo_snapshot lop) = None
     \<and> po_voting_weight (lo_snapshot lop) \<le> 3 * po_amount (lo_snapshot lop)
     \<and> (lo_op_type lop = LockOp \<longleftrightarrow> lo_dedup_key lop \<noteq> None)"

text \<open>A stake records its key; an unstake takes the weight off the total.\<close>

definition op_launched :: "pending_lock_op \<Rightarrow> staking \<Rightarrow> staking" where
  "op_launched lop s =
    (let s1 = put_pending (lo_position_id lop) (pending_state_of (lo_op_type lop))
           (put_position (lo_position_id lop) (pending_position lop)
           (put_lock_op (lo_op_id lop) lop (s\<lparr> sk_op_counter := sk_op_counter s + 1 \<rparr>)))
     in case lo_op_type lop of
          UnlockOp \<Rightarrow> sub_total_voting_weight (po_voting_weight (lo_snapshot lop)) s1
        | LockOp \<Rightarrow> s1\<lparr> sk_dedup := fmupd (op_dedup lop) \<lparr> sd_amount = lo_amount lop,
            sd_lock_days = po_lock_days (lo_snapshot lop), sd_position_id = lo_position_id lop,
            sd_op_id = lo_op_id lop \<rparr> (sk_dedup s1),
            sk_next_position_id := lo_position_id lop + 1,
            sk_next_position_cell := Some [lo_position_id lop + 1] \<rparr>)"

lemma lock_multiplier_le: "lock_multiplier_bps d \<le> 25000"
  by (simp add: lock_multiplier_bps_def)

lemma check_act_simps [simp]:
  "check_act f (Inr x) = return_act x" "check_act f (fail e) = fail_act (f e)" "check_act f (Inl Trap) = trap_act"
  by (simp_all add: check_act_def)

lemma check_act_Inr [result_simps]: "check_act f m s = Some (Inr x, s') \<longleftrightarrow> m = Inr x \<and> s' = s"
  by (auto simp: check_act_def split: sum.splits fault.splits)

lemma check_act_Inl [result_simps]:
  "check_act f m s = Some (Inl e, s') \<longleftrightarrow> (\<exists>e'. m = fail e' \<and> e = f e') \<and> s' = s"
  by (auto simp: check_act_def split: sum.splits fault.splits)

text \<open>The stale branch of the deduplication: the only write of a stake that is not a launch.\<close>

definition stale_key :: "staking \<Rightarrow> bytes \<Rightarrow> bool" where
  "stale_key s key \<longleftrightarrow> (\<exists>r. key_of s key = Some r \<and> pos_of s (sd_position_id r) = None)"

lemma resolve_dedup_cases:
  assumes "resolve_dedup ddk amount days s = Some (r, s')" "\<not> stale_key s ddk"
  shows "s' = s" "r = Inr None \<Longrightarrow> key_of s ddk = None"
    "r = Inr (Some pid) \<Longrightarrow> \<exists>prior. key_of s ddk = Some prior \<and> sd_position_id prior = pid
       \<and> sd_amount prior = amount \<and> sd_lock_days prior = days \<and> pos_of s pid \<noteq> None"
  using assms
  by (auto simp: resolve_dedup_def stale_key_def staking_reads bind_act_def
      split: option.splits if_splits pending_stake_state.splits)


text \<open>The operation a stake opens.\<close>

definition stake_op :: "nat \<Rightarrow> principal \<Rightarrow> nat \<Rightarrow> nat \<Rightarrow> bytes \<Rightarrow> nat \<Rightarrow> nat \<Rightarrow> staking \<Rightarrow> pending_lock_op" where
  "stake_op now holder amount days key weight lock_end s =
    \<lparr> lo_op_id = sk_op_counter s, lo_position_id = sk_next_position_id s, lo_holder = holder,
      lo_amount = amount, lo_op_type = LockOp, lo_initiated_at_ns = now,
      lo_snapshot = \<lparr> po_position_id = sk_next_position_id s, po_holder = holder, po_amount = amount,
        po_lock_days = days, po_lock_end_ns = lock_end, po_voting_weight = weight, po_rewards_claimed = 0,
        po_last_claim_ns = now, po_created_at_ns = now, po_closed = False, po_op_id = None \<rparr>,
      lo_dedup_key = Some key \<rparr>"

lemma stake_launch_effect:
  assumes "stake_launch now holder amount days key token weight lock_end s = Some (r, s')"
    and "sk_op_counter s + 1 < u64_limit"
  shows "r = Inr (StakeCalling (turn_of token (stake_op now holder amount days key weight lock_end s)))"
    and "s' = op_launched (stake_op now holder amount days key weight lock_end s) s"
    and "sk_next_position_id s + 1 < u64_limit"
proof -
  have sat: "sat_add 64 (sk_op_counter s) 1 = sk_op_counter s + 1" using assms(2) by simp
  have room: "sk_next_position_id s + 1 < u64_limit"
    using assms(1) by (auto simp: stake_launch_def alloc_position_id_def bump_stake_counter_def
        checked_add_def bind_act_def split: if_splits)
  then have bump: "bump_stake_counter (sk_next_position_id s) = Some (sk_next_position_id s + 1)"
    by (simp add: bump_stake_counter_def checked_add_def)
  have "bind_act alloc_position_id f s = f (sk_next_position_id s) (s\<lparr> sk_next_position_cell :=
      Some [sk_next_position_id s + 1], sk_next_position_id := sk_next_position_id s + 1 \<rparr>)"
    for f :: "nat \<Rightarrow> stake_started sact"
    by (rule bind_step) (simp add: alloc_position_id_def bump)
  moreover have "bind_act next_op_id f u = f (sk_op_counter u) (u\<lparr> sk_op_counter := sk_op_counter s + 1 \<rparr>)"
    if "sk_op_counter u = sk_op_counter s" for f :: "nat \<Rightarrow> stake_started sact" and u
    by (rule bind_step) (simp add: next_op_id_def that sat [simplified])
  ultimately show "r = Inr (StakeCalling (turn_of token (stake_op now holder amount days key weight lock_end s)))"
    and "s' = op_launched (stake_op now holder amount days key weight lock_end s) s"
    using assms(1)
    by (cases s, simp add: stake_launch_def Let_def turn_of_def stake_op_def op_dedup_def op_launched_def
        put_lock_op_def put_position_def put_pending_def pending_position_def)+
  show "sk_next_position_id s + 1 < u64_limit" by (rule room)
qed

lemma bind_get_token:
  "bind_act get_token f s = (case sk_token s of None \<Rightarrow> Some (Inl TokenNotConfigured, s) | Some t \<Rightarrow> f t s)"
  by (cases "sk_token s") (simp_all add: get_token_def bind_act_def)

lemma bind_need: "bind_act (need e v) f s = (case v of None \<Rightarrow> Some (Inl e, s) | Some x \<Rightarrow> f x s)"
  by (cases v) simp_all

lemma stake_start_cases:
  assumes st: "stake_start now holder amount days key s = Some (r, s')"
    and fresh: "\<not> stale_key s (dedup_key_new holder key)" and room: "sk_op_counter s + 1 < u64_limit"
  obtains (same) "s' = s" "\<forall>t. r \<noteq> Inr (StakeCalling t)"
  | (launch) lop token where "s' = op_launched lop s" "r = Inr (StakeCalling (turn_of token lop))" "op_wf lop"
      "lo_op_type lop = LockOp" "lo_op_id lop = sk_op_counter s"
      "lo_position_id lop = sk_next_position_id s" "sk_next_position_id s + 1 < u64_limit"
      "key_of s (op_dedup lop) = None" "op_dedup lop = dedup_key_new holder key"
proof -
  note res = resolve_dedup_cases [OF _ fresh]
  consider "s' = s" "\<forall>t. r \<noteq> Inr (StakeCalling t)"
    | token lock_end where "resolve_dedup (dedup_key_new holder key) amount days s = Some (Inr None, s)"
        "stake_launch now holder amount days key token (amount * lock_multiplier_bps days div 10000) lock_end s
           = Some (r, s')"
  proof (cases "stake_checks amount days key")
    case (Inl f)
    then have "s' = s \<and> (\<forall>t. r \<noteq> Inr (StakeCalling t))"
      using st by (cases f) (auto simp: stake_start_def bind_act_def)
    then show ?thesis using that by blast
  next
    case (Inr dur)
    obtain q u where q: "resolve_dedup (dedup_key_new holder key) amount days s = Some (q, u)"
      using st Inr by (cases "resolve_dedup (dedup_key_new holder key) amount days s")
        (auto simp: stake_start_def bind_act_def)
    note q = q [unfolded res(1) [OF q]]
    show ?thesis
    proof (cases "q = Inr None")
      case False
      then have "s' = s \<and> (\<forall>t. r \<noteq> Inr (StakeCalling t))"
        using st Inr q by (cases q) (auto simp: stake_start_def bind_act_def)
      then show ?thesis using that by blast
    next
      case True
      have "stake_start now holder amount days key s = bind_act get_token (\<lambda>token.
          bind_act (need VotingWeightOverflow (checked_mul 128 amount (lock_multiplier_bps days))) (\<lambda>scaled.
          bind_act (need LockEndOverflow (checked_add 64 now dur)) (\<lambda>lock_end_ns.
          stake_launch now holder amount days key token (scaled div 10000) lock_end_ns))) s"
        using q True Inr by (simp add: stake_start_def bind_step)
      then show ?thesis
        using st that(1) that(2) [OF q [unfolded True]]
        by (auto simp: bind_get_token bind_need checked_mul_def split: option.splits if_splits)
    qed
  qed
  then show thesis
  proof cases
    case 1
    then show thesis by (rule same)
  next
    case 2
    let ?w = "amount * lock_multiplier_bps days div 10000"
    note eff = stake_launch_effect [OF 2(2) room]
    have "amount * lock_multiplier_bps days \<le> amount * 30000"
      using lock_multiplier_le [of days] by (intro mult_le_mono2) simp
    then have "?w \<le> 3 * amount"
      using div_le_mono [of "amount * lock_multiplier_bps days" "amount * 30000" 10000] by simp
    then show thesis
      using launch [OF eff(2,1)] eff(3) res(2) [OF 2(1)] by (simp add: stake_op_def op_wf_def op_dedup_def)
  qed
qed

lemma claim_internal_keeps: "claim_rewards_internal now p s = Some (r, s') \<Longrightarrow> s' = s"
  by (auto simp: claim_rewards_internal_def calculate_claimable_def reward_pool_def bind_act_def Let_def
      split: if_splits option.splits)

lemma claim_rewards_keeps: "claim_rewards now holder pid s = Some (r, s') \<Longrightarrow> s' = s"
  using claim_internal_keeps
  by (cases r) (auto simp: claim_rewards_def own_position_def result_simps split: if_splits option.splits)

lemma own_position_Inr:
  "own_position holder pid e s = Some (Inr p, s') \<longleftrightarrow> s' = s \<and> pos_of s pid = Some p \<and> po_holder p = holder
     \<and> \<not> po_closed p \<and> pend_of s pid = None"
  by (auto simp: own_position_def result_simps staking_reads split: if_splits option.splits)

lemma own_position_Inl: "own_position holder pid e s = Some (Inl e', s') \<Longrightarrow> s' = s"
  by (auto simp: own_position_def result_simps split: if_splits option.splits)

lemma ignore_claim: "ignore_error (claim_rewards_internal now p) s = Some (r, s') \<Longrightarrow> s' = s \<and> r = Inr ()"
  using claim_internal_keeps by (auto simp: ignore_error_def split: option.splits)

lemma unstake_start_Inl: "unstake_start now holder pid s = Some (Inl e, s') \<Longrightarrow> s' = s"
  using own_position_Inl ignore_claim
  by (fastforce simp: unstake_start_def get_token_def next_op_id_def result_simps own_position_Inr split: if_splits)

lemma unstake_start_Inr:
  assumes "unstake_start now holder pid s = Some (Inr t, s')" "sk_op_counter s + 1 < u64_limit"
  obtains lop token where "s' = op_launched lop s" "t = turn_of token lop" "lo_op_type lop = UnlockOp"
    "lo_op_id lop = sk_op_counter s" "lo_position_id lop = pid" "pos_of s pid = Some (lo_snapshot lop)"
    "pend_of s pid = None" "\<not> po_closed (lo_snapshot lop)" "lo_holder lop = po_holder (lo_snapshot lop)"
    "lo_amount lop = po_amount (lo_snapshot lop)" "lo_dedup_key lop = None" "po_lock_end_ns (lo_snapshot lop) \<le> now"
proof -
  let ?o = "sk_op_counter s"
  have sat: "sat_add 64 ?o 1 = ?o + 1" using assms(2) by simp
  obtain p token where p: "pos_of s pid = Some p" "po_holder p = holder" "\<not> po_closed p" "pend_of s pid = None"
    and token: "sk_token s = Some token" and unl: "is_unlockable now p"
    and t: "t = \<lparr> lt_op_id = ?o, lt_op_type = UnlockOp, lt_position_id = pid, lt_position = p,
      lt_token = token, lt_dedup = [] \<rparr>"
    and s': "s' = op_launched \<lparr> lo_op_id = ?o, lo_position_id = pid, lo_holder = holder, lo_amount = po_amount p,
      lo_op_type = UnlockOp, lo_initiated_at_ns = now, lo_snapshot = p, lo_dedup_key = None \<rparr> s"
    using assms(1) sat ignore_claim
    by (fastforce simp: unstake_start_def get_token_def next_op_id_def result_simps own_position_Inr op_launched_def
        put_pending_def put_position_def put_lock_op_def pending_position_def Let_def
        sub_total_voting_weight_def set_total_voting_weight_def split: if_splits)
  show thesis
    by (rule that [OF s']) (use p t unl in \<open>simp_all add: turn_of_def op_dedup_def is_unlockable_def\<close>)
qed

section \<open>Closing an operation\<close>

definition op_settled :: "pending_lock_op \<Rightarrow> bool \<Rightarrow> staking \<Rightarrow> staking" where
  "op_settled lop executed s =
    (let pid = lo_position_id lop; snap = lo_snapshot lop;
         restored = add_total_voting_weight (po_voting_weight snap) (put_position pid snap s)
     in clear_op pid (lo_op_id lop)
          (case lo_op_type lop of
             LockOp \<Rightarrow> if executed then restored else drop_position pid (drop_dedup (op_dedup lop) s)
           | UnlockOp \<Rightarrow> if executed then put_position pid (closed_position snap) s else restored))"

lemma stake_reply_effect:
  assumes "stake_reply (turn_of token lop) reply s = Some (r, s')" "lo_op_type lop = LockOp"
  shows "s' = (case reply of LockConfirmed \<Rightarrow> op_settled lop True s | LockRefused _ \<Rightarrow> op_settled lop False s
    | LockCallRejected _ \<Rightarrow> s)"
  using assms
  by (cases reply) (auto simp: stake_reply_def turn_of_def op_settled_def Let_def)

lemma unstake_reply_effect:
  assumes "unstake_reply (turn_of token lop) reply s = Some (r, s')" "lo_op_type lop = UnlockOp"
  shows "s' = (case reply of LockConfirmed \<Rightarrow> op_settled lop True s | LockRefused _ \<Rightarrow> op_settled lop False s
    | LockCallRejected _ \<Rightarrow> s)"
  using assms
  by (cases reply) (auto simp: unstake_reply_def turn_of_def op_settled_def Let_def)

lemma load_op_Inr:
  "load_and_verify_pending_op op_id ty s = Some (Inr (lop, p), s') \<longleftrightarrow> s' = s \<and> op_of s op_id = Some lop
     \<and> lo_op_type lop = ty \<and> pos_of s (lo_position_id lop) = Some p \<and> po_op_id p = Some op_id
     \<and> po_holder p = lo_holder lop \<and> lo_amount lop = po_amount p
     \<and> pend_of s (lo_position_id lop) = Some (pending_state_of ty)"
  by (auto simp: load_and_verify_pending_op_def result_simps staking_reads split: if_splits option.splits)

lemma load_op_Inl: "load_and_verify_pending_op op_id ty s = Some (Inl e, s') \<Longrightarrow> s' = s"
  by (auto simp: load_and_verify_pending_op_def result_simps split: if_splits option.splits)

definition decided :: "lock_decision \<Rightarrow> bool" where
  "decided d \<longleftrightarrow> d = DecidedExecuted"

lemma reconcile_Inl:
  "reconcile_lock ctl op_id d s = Some (Inl e, s') \<Longrightarrow> s' = s"
  "reconcile_unlock ctl op_id d s = Some (Inl e, s') \<Longrightarrow> s' = s"
  using load_op_Inl
  by (cases d; auto simp: reconcile_lock_def reconcile_unlock_def ensure_ic_controller_def result_simps Let_def
      split: if_splits)+

lemma reconcile_lock_Inr:
  assumes "reconcile_lock ctl op_id d s = Some (Inr u, s')"
  obtains lop where "op_of s op_id = Some lop" "lo_op_type lop = LockOp" "ctl"
    "s' = (if decided d
       then clear_op (lo_position_id lop) op_id (add_total_voting_weight (po_voting_weight (lo_snapshot lop))
              (put_position (lo_position_id lop) ((lo_snapshot lop)\<lparr> po_op_id := None \<rparr>) s))
       else clear_op (lo_position_id lop) op_id (drop_position (lo_position_id lop)
              (case lo_dedup_key lop of None \<Rightarrow> s | Some key \<Rightarrow> drop_dedup (dedup_key_new (lo_holder lop) key) s)))"
proof -
  have ctl: "ctl" using assms by (cases ctl) (simp_all add: reconcile_lock_def ensure_ic_controller_def)
  obtain lop p u where l: "load_and_verify_pending_op op_id LockOp s = Some (Inr (lop, p), u)"
    using assms ctl by (auto simp: reconcile_lock_def ensure_ic_controller_def result_simps)
  have u: "u = s" "op_of s op_id = Some lop" "lo_op_type lop = LockOp" using l by (simp_all add: load_op_Inr)
  show thesis
    by (rule that [OF u(2,3) ctl])
      (use assms ctl in
        \<open>cases d; simp add: reconcile_lock_def ensure_ic_controller_def decided_def Let_def
          bind_step [where m = "load_and_verify_pending_op op_id LockOp", OF l [unfolded u(1)]]\<close>)
qed

lemma reconcile_unlock_Inr:
  assumes "reconcile_unlock ctl op_id d s = Some (Inr u, s')"
  obtains lop where "op_of s op_id = Some lop" "lo_op_type lop = UnlockOp" "ctl"
    "s' = clear_op (lo_position_id lop) op_id
       (if decided d then put_position (lo_position_id lop) (closed_position (lo_snapshot lop)) s
        else add_total_voting_weight (po_voting_weight (lo_snapshot lop))
              (put_position (lo_position_id lop) (lo_snapshot lop) s))"
proof -
  have ctl: "ctl" using assms by (cases ctl) (simp_all add: reconcile_unlock_def ensure_ic_controller_def)
  obtain lop p u where l: "load_and_verify_pending_op op_id UnlockOp s = Some (Inr (lop, p), u)"
    using assms ctl by (auto simp: reconcile_unlock_def ensure_ic_controller_def result_simps)
  have u: "u = s" "op_of s op_id = Some lop" "lo_op_type lop = UnlockOp" using l by (simp_all add: load_op_Inr)
  show thesis
    by (rule that [OF u(2,3) ctl])
      (use assms ctl in
        \<open>cases d; simp add: reconcile_unlock_def ensure_ic_controller_def decided_def Let_def
          bind_step [where m = "load_and_verify_pending_op op_id UnlockOp", OF l [unfolded u(1)]]\<close>)
qed

lemma reconcile_Inr:
  assumes rec: "reconcile_lock ctl op_id d s = Some (Inr u, s') \<or> reconcile_unlock ctl op_id d s = Some (Inr u, s')"
    and wf: "\<And>lop. op_of s op_id = Some lop \<Longrightarrow> op_wf lop \<and> lo_op_id lop = op_id"
  obtains lop where "op_of s op_id = Some lop" "s' = op_settled lop (decided d) s" "ctl"
  using rec
proof
  assume "reconcile_lock ctl op_id d s = Some (Inr u, s')"
  from reconcile_lock_Inr [OF this] obtain lop where l: "op_of s op_id = Some lop" "lo_op_type lop = LockOp" "ctl"
    "s' = (if decided d
       then clear_op (lo_position_id lop) op_id (add_total_voting_weight (po_voting_weight (lo_snapshot lop))
              (put_position (lo_position_id lop) ((lo_snapshot lop)\<lparr> po_op_id := None \<rparr>) s))
       else clear_op (lo_position_id lop) op_id (drop_position (lo_position_id lop)
              (case lo_dedup_key lop of None \<Rightarrow> s | Some key \<Rightarrow> drop_dedup (dedup_key_new (lo_holder lop) key) s)))"
    by metis
  note w = wf [OF l(1)]
  have "(lo_snapshot lop)\<lparr> po_op_id := None \<rparr> = lo_snapshot lop"
    using w by (cases "lo_snapshot lop") (simp add: op_wf_def)
  moreover obtain key where "lo_dedup_key lop = Some key" using w l(2) by (auto simp: op_wf_def)
  ultimately show thesis
    using that [OF l(1)] l w by (simp add: op_settled_def op_dedup_def Let_def)
next
  assume "reconcile_unlock ctl op_id d s = Some (Inr u, s')"
  from reconcile_unlock_Inr [OF this] obtain lop where l: "op_of s op_id = Some lop" "lo_op_type lop = UnlockOp" "ctl"
    "s' = clear_op (lo_position_id lop) op_id
       (if decided d then put_position (lo_position_id lop) (closed_position (lo_snapshot lop)) s
        else add_total_voting_weight (po_voting_weight (lo_snapshot lop))
              (put_position (lo_position_id lop) (lo_snapshot lop) s))"
    by metis
  then show thesis
    using that [OF l(1)] wf [OF l(1)] by (simp add: op_settled_def Let_def)
qed

end
