(* ===== verification/Staking_Mirrors.thy ===== *)
theory Staking_Mirrors
  imports Staking_Steps
begin

text \<open>
  What every message segment of the staking canister keeps: the heap mirrors equal their stable cells, every
  parameter set satisfies its contract, and the governance segments leave the positions alone. The rules
  \<open>keeps\<close> reduce such a claim to the writes of a segment.
\<close>

section \<open>Segments that keep a predicate\<close>

named_theorems keeps_intros "introduction rules for segments that keep a predicate"

definition keeps :: "('s \<Rightarrow> bool) \<Rightarrow> ('s, 'e, 'a) segment \<Rightarrow> bool" where
  "keeps I m \<longleftrightarrow> (\<forall>s r s'. I s \<longrightarrow> m s = Some (r, s') \<longrightarrow> I s')"

lemma keepsD: "keeps I m \<Longrightarrow> m s = Some (r, s') \<Longrightarrow> I s \<Longrightarrow> I s'"
  unfolding keeps_def by blast

lemma keeps_return [keeps_intros]: "keeps I (return_act x)"
  and keeps_fail [keeps_intros]: "keeps I (fail_act e)"
  and keeps_trap [keeps_intros]: "keeps I trap_act"
  and keeps_get [keeps_intros]: "keeps I (get_act f)"
  by (simp_all add: keeps_def)

lemma keeps_need [keeps_intros]: "keeps I (need e v)"
  by (cases v) (simp_all add: keeps_def)

lemma keeps_check [keeps_intros]: "keeps I (check_act f m)"
  by (auto simp: keeps_def check_act_def split: sum.splits fault.splits)

lemma keeps_modify [keeps_intros]: "(\<And>s. I s \<Longrightarrow> I (g s)) \<Longrightarrow> keeps I (modify_act g)"
  by (simp add: keeps_def)

lemma keeps_bind [keeps_intros]:
  assumes "keeps I m" "\<And>x. keeps I (f x)"
  shows "keeps I (bind_act m f)"
  unfolding keeps_def
proof (intro allI impI)
  fix s r s'
  assume I: "I s" and run: "bind_act m f s = Some (r, s')"
  from run show "I s'"
  proof (cases r)
    case (Inl e)
    then show ?thesis using run keepsD [OF assms(1) _ I] keepsD [OF assms(2)] by (auto simp: result_simps)
  next
    case (Inr x)
    then show ?thesis using run keepsD [OF assms(1) _ I] keepsD [OF assms(2)] by (auto simp: result_simps)
  qed
qed

lemma keeps_if [keeps_intros]:
  "(c \<Longrightarrow> keeps I m) \<Longrightarrow> (\<not> c \<Longrightarrow> keeps I n) \<Longrightarrow> keeps I (if c then m else n)"
  by simp

lemma keeps_option [keeps_intros]:
  "(v = None \<Longrightarrow> keeps I m) \<Longrightarrow> (\<And>x. v = Some x \<Longrightarrow> keeps I (f x))
    \<Longrightarrow> keeps I (case v of None \<Rightarrow> m | Some x \<Rightarrow> f x)"
  by (cases v) simp_all

lemma keeps_prod [keeps_intros]: "(\<And>a b. v = (a, b) \<Longrightarrow> keeps I (f a b)) \<Longrightarrow> keeps I (case v of (a, b) \<Rightarrow> f a b)"
  by (cases v) simp

lemma keeps_sum [keeps_intros]:
  "(\<And>e. v = Inl e \<Longrightarrow> keeps I (f e)) \<Longrightarrow> (\<And>x. v = Inr x \<Longrightarrow> keeps I (g x))
    \<Longrightarrow> keeps I (case v of Inl e \<Rightarrow> f e | Inr x \<Rightarrow> g x)"
  by (cases v) simp_all

lemma keeps_let [keeps_intros]: "keeps I (f v) \<Longrightarrow> keeps I (let x = v in f x)"
  by simp

lemma keeps_fault [keeps_intros]:
  "(v = Trap \<Longrightarrow> keeps I m) \<Longrightarrow> (\<And>e. v = Err e \<Longrightarrow> keeps I (f e))
    \<Longrightarrow> keeps I (case v of Trap \<Rightarrow> m | Err e \<Rightarrow> f e)"
  by (cases v) simp_all

section \<open>Governance leaves the positions alone\<close>

lemma same_positions_writes [simp]:
  "same_positions s0 (put_proposal pid p s) = same_positions s0 s"
  "same_positions s0 (mutate_reward_state f s) = same_positions s0 s"
  "same_positions s0 (set_gov_params params s) = same_positions s0 s"
  "same_positions s0 (s\<lparr> sk_snapshots := rows \<rparr>) = same_positions s0 s"
  "same_positions s0 (s\<lparr> sk_votes := votes \<rparr>) = same_positions s0 s"
  "same_positions s0 (s\<lparr> sk_proposals := props \<rparr>) = same_positions s0 s"
  "same_positions s0 (s\<lparr> sk_next_proposal_cell := c, sk_next_proposal_id := n \<rparr>) = same_positions s0 s"
  by (simp_all add: same_positions_def put_proposal_def mutate_reward_state_def set_reward_state_def
      set_gov_params_def)

lemma keeps_find [keeps_intros]: "keeps I (find_proposal pid)"
  unfolding find_proposal_def by (intro keeps_intros)

lemma keeps_mul [keeps_intros]: "keeps I (mul_u128 a b)"
  unfolding mul_u128_def by (intro keeps_intros)

lemma keeps_sum_u128 [keeps_intros]: "keeps I (sum_u128 ns)"
  unfolding sum_u128_def by (intro keeps_intros)

lemma keeps_execution_checks [keeps_intros]: "keeps I (execution_checks now pid)"
  unfolding execution_checks_def by (intro keeps_intros)

text \<open>The writes of governance, once for every predicate they keep.\<close>

locale action_writes =
  fixes I :: "staking \<Rightarrow> bool"
  assumes rate_kept: "I s \<Longrightarrow> I (mutate_reward_state (\<lambda>r. r\<lparr> rw_emission_rate_per_day := n \<rparr>) s)"
    and params_kept: "I s \<Longrightarrow> params_ok params \<Longrightarrow> I (set_gov_params params s)"
begin

lemma keeps_action: "keeps I (action_start ptype)"
proof (cases ptype)
  case (GovernanceParamUpdate params)
  show ?thesis
    unfolding action_start_def GovernanceParamUpdate proposal_type.case
    by (intro keeps_intros params_kept) (simp_all add: validate_params_iff)
qed (auto simp: action_start_def intro!: keeps_intros rate_kept)

end

locale governance_writes = action_writes +
  assumes proposal_kept: "I s \<Longrightarrow> I (put_proposal pid p s)"
    and rows_kept: "I s \<Longrightarrow> I (s\<lparr> sk_snapshots := rows \<rparr>)"
    and votes_kept: "I s \<Longrightarrow> I (s\<lparr> sk_votes := votes \<rparr>)"
    and proposals_kept: "I s \<Longrightarrow> I (s\<lparr> sk_proposals := props \<rparr>)"
    and id_kept: "I s \<Longrightarrow> 0 < i \<Longrightarrow> i < u64_limit \<Longrightarrow>
      I (s\<lparr> sk_next_proposal_cell := Some [i], sk_next_proposal_id := i \<rparr>)"
    and revenue_kept: "I s \<Longrightarrow>
      I (mutate_reward_state (\<lambda>r. r\<lparr> rw_fee_revenue_balance := sat_add 128 (rw_fee_revenue_balance r) n \<rparr>) s)"
begin

lemma keeps_alloc: "keeps I alloc_governance_id"
  unfolding alloc_governance_id_def
  by (intro keeps_intros) (auto simp: bump_stake_counter_def checked_add_def intro!: id_kept split: if_splits)

lemma keeps_create: "keeps I (create_proposal now proposer ptype description)"
  unfolding create_proposal_def by (intro keeps_intros keeps_alloc rows_kept proposals_kept)

lemma keeps_vote: "keeps I (vote now voter pid approve)"
  unfolding vote_def by (intro keeps_intros votes_kept proposal_kept)

lemma keeps_finish: "keeps I (finish_execution t result)"
  unfolding finish_execution_def by (intro keeps_intros proposal_kept)

lemma keeps_continue: "keeps I (continue_execution t step)"
  unfolding continue_execution_def by (cases step) (auto intro: keeps_intros keeps_finish)

lemma keeps_execute: "keeps I (execute_proposal now pid)"
  unfolding execute_proposal_def
  by (intro keeps_intros keeps_action keeps_continue proposal_kept)

lemma keeps_reply: "keeps I (execution_reply t pool call reply)"
  unfolding execution_reply_def by (rule keeps_continue)

lemma keeps_stuck: "keeps I (reconcile_stuck_proposal now ctl pid decision)"
proof -
  have "keeps I (case decide_reconcile p decision now of
         OutcomeReplay status result \<Rightarrow> return_act (TerminalReplay status result)
       | OutcomeRefuse (KindNotStuck status) \<Rightarrow> fail_act (ReconcileNotStuck status)
       | OutcomeRefuse (KindTooYoung age threshold) \<Rightarrow> fail_act (ReconcileTooYoung age threshold)
       | OutcomeInitializeClock observed_at_ns \<Rightarrow>
           bind_act (modify_act (put_proposal pid
             (p\<lparr> pr_execution_started_at_ns := Some observed_at_ns \<rparr>))) (\<lambda>_.
           fail_act (LegacyClockInitialized observed_at_ns STUCK_PROPOSAL_RECONCILE_THRESHOLD_NS))
       | OutcomeCommit status executed_at_ns result \<Rightarrow>
           bind_act (modify_act (put_proposal pid
             (p\<lparr> pr_status := status, pr_executed_at_ns := Some executed_at_ns,
                pr_execution_result := Some result \<rparr>))) (\<lambda>_.
           return_act (Reconciled status executed_at_ns)))" for p
    by (cases "decide_reconcile p decision now")
      (auto intro!: keeps_intros proposal_kept split: reconcile_error_kind.splits)
  then show ?thesis unfolding reconcile_stuck_proposal_def by (intro keeps_intros)
qed

lemma keeps_revenue: "keeps I (receive_fee_revenue caller amount)"
  unfolding receive_fee_revenue_def by (intro keeps_intros revenue_kept)

end

lemma keeps_claim_internal [keeps_intros]: "keeps I (claim_rewards_internal now p)"
  using claim_internal_keeps unfolding keeps_def by blast

lemma keeps_ignore [keeps_intros]: "keeps I m \<Longrightarrow> keeps I (ignore_error m)"
  unfolding keeps_def ignore_error_def by (auto split: option.splits)

lemma keeps_own [keeps_intros]: "keeps I (own_position holder pid e)"
  unfolding own_position_def by (intro keeps_intros)

lemma keeps_load [keeps_intros]: "keeps I (load_and_verify_pending_op op_id ty)"
  unfolding load_and_verify_pending_op_def by (intro keeps_intros)

lemma keeps_controller [keeps_intros]: "keeps I (ensure_ic_controller ctl)"
  unfolding ensure_ic_controller_def by (intro keeps_intros)

text \<open>The writes of the position operations, likewise.\<close>

locale position_writes =
  fixes I :: "staking \<Rightarrow> bool"
  assumes position_kept: "I s \<Longrightarrow> I (put_position pid p s)"
    and drop_kept: "I s \<Longrightarrow> I (drop_position pid s)"
    and pending_kept: "I s \<Longrightarrow> I (put_pending pid st s)"
    and op_kept: "I s \<Longrightarrow> I (put_lock_op op_id lop s)"
    and clear_kept: "I s \<Longrightarrow> I (clear_op pid op_id s)"
    and drop_key_kept: "I s \<Longrightarrow> I (drop_dedup key s)"
    and keys_kept: "I s \<Longrightarrow> I (s\<lparr> sk_dedup := keys \<rparr>)"
    and counter_kept: "I s \<Longrightarrow> I (s\<lparr> sk_op_counter := c \<rparr>)"
    and weight_kept: "I s \<Longrightarrow> I (set_total_voting_weight n s)"
    and next_kept: "I s \<Longrightarrow> bump_stake_counter n = Some m \<Longrightarrow>
      I (s\<lparr> sk_next_position_cell := Some [m], sk_next_position_id := m \<rparr>)"
begin

lemma add_weight_kept: "I s \<Longrightarrow> I (add_total_voting_weight n s)"
  and sub_weight_kept: "I s \<Longrightarrow> I (sub_total_voting_weight n s)"
  by (simp_all add: add_total_voting_weight_def sub_total_voting_weight_def weight_kept)

lemmas position_kept_intros = position_kept drop_kept pending_kept op_kept clear_kept drop_key_kept keys_kept
  counter_kept weight_kept add_weight_kept sub_weight_kept next_kept

lemma keeps_stake: "keeps I (stake_start now holder amount days key)"
  unfolding stake_start_def stake_launch_def resolve_dedup_def get_token_def alloc_position_id_def next_op_id_def Let_def
  by (intro keeps_intros position_kept_intros)
    (auto intro!: keeps_intros position_kept_intros split: pending_stake_state.splits)

lemma keeps_stake_reply: "keeps I (stake_reply t reply)"
  unfolding stake_reply_def Let_def by (cases reply) (auto intro!: keeps_intros position_kept_intros)

lemma keeps_unstake: "keeps I (unstake_start now holder pid)"
  unfolding unstake_start_def get_token_def next_op_id_def by (intro keeps_intros position_kept_intros)

lemma keeps_unstake_reply: "keeps I (unstake_reply t reply)"
  unfolding unstake_reply_def Let_def by (cases reply) (auto intro!: keeps_intros position_kept_intros)

lemma keeps_reconcile: "keeps I (reconcile_lock ctl i d)" "keeps I (reconcile_unlock ctl i d)"
  unfolding reconcile_lock_def reconcile_unlock_def Let_def
  by (cases d; auto intro!: keeps_intros position_kept_intros split: option.splits)+

end

interpretation gov_frame: position_writes "same_governance s0" for s0
  by unfold_locales (simp_all add: same_governance_def put_position_def drop_position_def put_pending_def
      put_lock_op_def clear_op_def drop_dedup_def set_total_voting_weight_def)

interpretation frame: governance_writes "same_positions s0" for s0
  by unfold_locales simp_all


section \<open>Mirrors\<close>

definition mirror_ok :: "staking \<Rightarrow> bool" where
  "mirror_ok s \<longleftrightarrow>
     (\<exists>token pool treasury. sk_refs s = Some [token, pool, treasury] \<and> sk_token s = Some token
        \<and> sk_pool s = Some pool \<and> sk_treasury s = Some treasury)
     \<and> sk_next_position_cell s = Some [sk_next_position_id s] \<and> 0 < sk_next_position_id s
     \<and> sk_next_position_id s < u64_limit
     \<and> sk_next_proposal_cell s = Some [sk_next_proposal_id s] \<and> 0 < sk_next_proposal_id s
     \<and> sk_next_proposal_id s < u64_limit
     \<and> sk_gov_cell s = gov_params_to_cell (sk_gov_params s) \<and> params_ok (sk_gov_params s)
     \<and> sk_reward_cell s = reward_state_to_cell (sk_reward_state s)
     \<and> rw_rewards_start_ns (sk_reward_state s) < u64_limit
     \<and> sk_weight_cell s = \<lparr> vw_initialized = True, vw_total = sk_total_weight s \<rparr>"

text \<open>An upgrade of a canister whose mirrors equal its cells cannot trap, and rebuilds every mirror.\<close>

lemma upgrade_identity:
  assumes "mirror_ok s"
  shows "post_upgrade_staking (heap_lost s) = Some (Inr (), s)"
proof -
  obtain token pool treasury where refs: "sk_refs s = Some [token, pool, treasury]" "sk_token s = Some token"
    "sk_pool s = Some pool" "sk_treasury s = Some treasury"
    and cells: "sk_next_position_cell s = Some [sk_next_position_id s]" "0 < sk_next_position_id s"
      "sk_next_position_id s < u64_limit" "sk_next_proposal_cell s = Some [sk_next_proposal_id s]"
      "0 < sk_next_proposal_id s" "sk_next_proposal_id s < u64_limit"
    and gov: "sk_gov_cell s = gov_params_to_cell (sk_gov_params s)" "params_ok (sk_gov_params s)"
    and rew: "sk_reward_cell s = reward_state_to_cell (sk_reward_state s)"
      "rw_rewards_start_ns (sk_reward_state s) < u64_limit"
    and vw: "sk_weight_cell s = \<lparr> vw_initialized = True, vw_total = sk_total_weight s \<rparr>"
    using assms unfolding mirror_ok_def by blast
  have dec: "decode_stake_counter (sk_next_position_id s) = Some (sk_next_position_id s)"
    "decode_stake_counter (sk_next_proposal_id s) = Some (sk_next_proposal_id s)"
    using cells by (simp_all add: decode_stake_counter_def to_width_def)
  let ?s = "(heap_lost s)\<lparr> sk_token := Some token, sk_pool := Some pool, sk_treasury := Some treasury,
      sk_gov_params := sk_gov_params s, sk_reward_state := sk_reward_state s,
      sk_next_position_id := sk_next_position_id s, sk_next_proposal_id := sk_next_proposal_id s \<rparr>"
  have stable: "sk_refs (heap_lost s) = sk_refs s" "sk_next_position_cell (heap_lost s) = sk_next_position_cell s"
    "sk_next_proposal_cell (heap_lost s) = sk_next_proposal_cell s" "sk_gov_cell (heap_lost s) = sk_gov_cell s"
    "sk_reward_cell (heap_lost s) = sk_reward_cell s"
    by (simp_all add: heap_lost_def)
  have wt: "restore_voting_weight ?s = Some (Inr (), s)"
    using vw refs(2-4) by (cases s) (simp add: restore_voting_weight_def heap_lost_def)
  have "post_upgrade_staking (heap_lost s) = restore_voting_weight ?s"
    using refs(1) cells(1,4) dec gov_params_cell_exact [OF gov(2)] reward_state_cell_exact [OF rew(2)]
    by (simp add: post_upgrade_staking_def stable gov(1) rew(1))
  then show ?thesis unfolding wt .
qed

lemma mirror_writes [simp]:
  "mirror_ok (put_position pid p s) = mirror_ok s" "mirror_ok (drop_position pid s) = mirror_ok s"
  "mirror_ok (put_pending pid st s) = mirror_ok s" "mirror_ok (put_lock_op i lop s) = mirror_ok s"
  "mirror_ok (clear_op pid i s) = mirror_ok s" "mirror_ok (drop_dedup key s) = mirror_ok s"
  "mirror_ok (put_proposal pid pr s) = mirror_ok s" "mirror_ok (s\<lparr> sk_snapshots := rows \<rparr>) = mirror_ok s"
  "mirror_ok (s\<lparr> sk_votes := votes \<rparr>) = mirror_ok s" "mirror_ok (s\<lparr> sk_proposals := props \<rparr>) = mirror_ok s"
  "mirror_ok (s\<lparr> sk_dedup := keys \<rparr>) = mirror_ok s" "mirror_ok (s\<lparr> sk_op_counter := c \<rparr>) = mirror_ok s"
  by (simp_all add: mirror_ok_def put_position_def drop_position_def put_pending_def put_lock_op_def
      clear_op_def drop_dedup_def put_proposal_def)

lemma mirror_weight [simp]: "mirror_ok s \<Longrightarrow> mirror_ok (set_total_voting_weight n s)"
  by (auto simp: mirror_ok_def set_total_voting_weight_def)

interpretation mirrors: governance_writes mirror_ok
  by unfold_locales (auto simp: mirror_ok_def mutate_reward_state_def set_reward_state_def set_gov_params_def
      put_proposal_def)

lemma mirror_position_id:
  "mirror_ok s \<Longrightarrow> bump_stake_counter n = Some m \<Longrightarrow>
     mirror_ok (s\<lparr> sk_next_position_cell := Some [m], sk_next_position_id := m \<rparr>)"
  by (auto simp: mirror_ok_def bump_stake_counter_def checked_add_def split: if_splits)

interpretation mirror_pos: position_writes mirror_ok
  by unfold_locales (simp_all add: mirror_position_id)

lemma init_staking_Inr:
  assumes "init_staking n args fresh_staking = Some (Inr (), s)" "n < u64_limit"
  shows "mirror_ok s" "sk_positions s = fmempty" "sk_pending s = fmempty" "sk_lock_ops s = fmempty"
    "sk_dedup s = fmempty" "sk_proposals s = fmempty" "sk_votes s = fmempty" "sk_snapshots s = fmempty"
    "sk_op_counter s = 1" "sk_next_position_id s = 1" "sk_next_proposal_id s = 1" "sk_total_weight s = 0"
  using assms
  by (auto simp: init_staking_def mirror_ok_def seed_stake_counters_def set_staking_refs_def Let_def
      fresh_staking_def set_total_voting_weight_def set_reward_state_def set_gov_params_def validate_params_iff
      split: sum.splits option.splits)

lemma token_reach_time: "token_reach sha tid (n, tk) \<Longrightarrow> (\<And>y. length (sha y) = 32) \<Longrightarrow> n < u64_limit"
  using reach_inv [of sha tid "(n, tk)"] by simp

theorem run_mirror_ok:
  assumes "staking_run sha tid self w" "\<And>y. length (sha y) = 32"
  shows "mirror_ok (sw_state w)"
  using assms(1)
proof induction
  case (sr_init n args s tk)
  then show ?case using init_staking_Inr(1) token_reach_time [OF _ assms(2)] by simp
next
  case (sr_step w w')
  note I = sr_step.IH
  from sr_step.hyps(2) show ?case
  proof cases
    case (ss_stake holder amount lock_days key r s)
    then show ?thesis using keepsD [OF mirror_pos.keeps_stake _ I] by (auto split: sum.splits stake_started.splits)
  next
    case (ss_unstake holder pid r s)
    then show ?thesis using keepsD [OF mirror_pos.keeps_unstake _ I] by (auto split: sum.splits)
  next
    case (ss_stake_reply t reply r s)
    then show ?thesis using keepsD [OF mirror_pos.keeps_stake_reply _ I] by simp
  next
    case (ss_unstake_reply t reply ru s)
    then show ?thesis using keepsD [OF mirror_pos.keeps_unstake_reply _ I] by simp
  next
    case (ss_reconcile_lock ctl op_id d rc s)
    then show ?thesis
      using keepsD [OF mirror_pos.keeps_reconcile(1) _ I] by (auto simp: after_reconcile_def split: sum.splits)
  next
    case (ss_reconcile_unlock ctl op_id d rc s)
    then show ?thesis
      using keepsD [OF mirror_pos.keeps_reconcile(2) _ I] by (auto simp: after_reconcile_def split: sum.splits)
  next
    case (ss_claim holder pid rn s)
    then show ?thesis using claim_rewards_keeps [OF ss_claim(2)] I by simp
  next
    case (ss_revenue caller amount rc s)
    then show ?thesis using keepsD [OF mirrors.keeps_revenue _ I] by simp
  next
    case (ss_create proposer ptype description rn s)
    then show ?thesis using keepsD [OF mirrors.keeps_create _ I] by simp
  next
    case (ss_vote voter pid approve ru s)
    then show ?thesis using keepsD [OF mirrors.keeps_vote _ I] by simp
  next
    case (ss_execute pid re s)
    then show ?thesis using keepsD [OF mirrors.keeps_execute _ I] by (simp add: after_execution_def)
  next
    case (ss_pool_reply t pool call preply re s)
    then show ?thesis using keepsD [OF mirrors.keeps_reply _ I] by (simp add: after_execution_def)
  next
    case (ss_reconcile_stuck ctl pid decision rs s)
    then show ?thesis using keepsD [OF mirrors.keeps_stuck _ I] by simp
  next
    case (ss_upgrade s)
    then show ?thesis using upgrade_identity [OF I] I by simp
  qed (use I in simp_all)
qed

end
