(* ===== verification/Staking_Locks.thy ===== *)
theory Staking_Locks
  imports Staking_Mirrors
begin

text \<open>
  The invariant of the positions against the token's locks. For every account the lock recorded by the token
  is the sum of what the positions claim: an active position its amount, a closed one nothing, a pending one
  what the token has done with its operation. The total voting weight is the sum over the positions, and every
  deduplication key names its own position.
\<close>

section \<open>Claims\<close>

definition op_executed :: "(nat \<Rightarrow> token_answer option) \<Rightarrow> stake_position \<Rightarrow> bool" where
  "op_executed ans p = (case po_op_id p of None \<Rightarrow> False | Some op_id \<Rightarrow> ans op_id = Some TokenExecuted)"

definition claim_on ::
  "(nat \<Rightarrow> token_answer option) \<Rightarrow> pending_stake_state option \<Rightarrow> stake_position \<Rightarrow> nat" where
  "claim_on ans pend p = (case pend of
     None \<Rightarrow> if po_closed p then 0 else po_amount p
   | Some LockPending \<Rightarrow> if op_executed ans p then po_amount p else 0
   | Some UnlockPending \<Rightarrow> if op_executed ans p then 0 else po_amount p)"

definition held_by :: "(nat \<Rightarrow> token_answer option) \<Rightarrow> staking \<Rightarrow> bytes \<Rightarrow> nat" where
  "held_by ans s k = fmsum (\<lambda>pid p. if main_key (po_holder p) = k then claim_on ans (pend_of s pid) p else 0)
     (sk_positions s)"

definition held_all :: "(nat \<Rightarrow> token_answer option) \<Rightarrow> staking \<Rightarrow> nat" where
  "held_all ans s = fmsum (\<lambda>pid p. claim_on ans (pend_of s pid) p) (sk_positions s)"

definition weight_all :: "staking \<Rightarrow> nat" where
  "weight_all s = fmsum (\<lambda>_. po_voting_weight) (sk_positions s)"

text \<open>The row of one position, from what is stored under its id.\<close>

definition claim_row ::
  "(nat \<Rightarrow> token_answer option) \<Rightarrow> bytes \<Rightarrow> stake_position option \<Rightarrow> pending_stake_state option \<Rightarrow> nat" where
  "claim_row ans k pos pend = (case pos of None \<Rightarrow> 0
     | Some p \<Rightarrow> if main_key (po_holder p) = k then claim_on ans pend p else 0)"

lemma held_change:
  assumes "\<And>x. x \<noteq> pid \<Longrightarrow> claim_row ans' k (pos_of s' x) (pend_of s' x) = claim_row ans k (pos_of s x) (pend_of s x)"
  shows "held_by ans' s' k + claim_row ans k (pos_of s pid) (pend_of s pid)
    = held_by ans s k + claim_row ans' k (pos_of s' pid) (pend_of s' pid)"
proof -
  have row: "fmrow (\<lambda>pid p. if main_key (po_holder p) = k then claim_on a (pend_of u pid) p else 0)
      (sk_positions u) x = claim_row a k (pos_of u x) (pend_of u x)" for a u x
    by (simp add: fmrow_def claim_row_def pos_of_def split: option.splits)
  show ?thesis
    using fmsum_change [where k = pid and f = "\<lambda>pid p. if main_key (po_holder p) = k then claim_on ans' (pend_of s' pid) p else 0"
        and m = "sk_positions s'"
        and g = "\<lambda>pid p. if main_key (po_holder p) = k then claim_on ans (pend_of s pid) p else 0"
        and m' = "sk_positions s"] assms
    unfolding held_by_def row by simp
qed

lemma held_cong:
  assumes "\<And>x. claim_row ans' k (pos_of s' x) (pend_of s' x) = claim_row ans k (pos_of s x) (pend_of s x)"
  shows "held_by ans' s' k = held_by ans s k"
  using held_change [of undefined ans' k s' ans s] assms by simp

lemma weight_change:
  assumes "\<And>x. x \<noteq> pid \<Longrightarrow> pos_of s' x = pos_of s x"
  shows "weight_all s' + (case pos_of s pid of None \<Rightarrow> 0 | Some p \<Rightarrow> po_voting_weight p)
    = weight_all s + (case pos_of s' pid of None \<Rightarrow> 0 | Some p \<Rightarrow> po_voting_weight p)"
  using fmsum_change [where k = pid and f = "\<lambda>_. po_voting_weight" and m = "sk_positions s'"
      and g = "\<lambda>_. po_voting_weight" and m' = "sk_positions s"] assms
  by (simp add: weight_all_def fmrow_def pos_of_def)

section \<open>The invariant\<close>

definition position_ok :: "staking \<Rightarrow> nat \<Rightarrow> stake_position \<Rightarrow> bool" where
  "position_ok s pid p \<longleftrightarrow>
     po_position_id p = pid \<and> pid < sk_next_position_id s \<and> po_voting_weight p \<le> 3 * po_amount p
     \<and> (pend_of s pid = None \<longrightarrow> po_op_id p = None \<and> (po_closed p \<longrightarrow> po_voting_weight p = 0))
     \<and> (pend_of s pid \<noteq> None \<longrightarrow> (\<exists>lop. po_op_id p = Some (lo_op_id lop) \<and> op_of s (lo_op_id lop) = Some lop
          \<and> lo_position_id lop = pid))"

definition positions_wf :: "staking \<Rightarrow> bool" where
  "positions_wf s \<longleftrightarrow> (\<forall>pid p. pos_of s pid = Some p \<longrightarrow> position_ok s pid p)
     \<and> (\<forall>pid. pend_of s pid \<noteq> None \<longrightarrow> pos_of s pid \<noteq> None)"

definition lock_op_ok :: "staking \<Rightarrow> nat \<Rightarrow> pending_lock_op \<Rightarrow> bool" where
  "lock_op_ok s op_id lop \<longleftrightarrow>
     lo_op_id lop = op_id \<and> op_id < sk_op_counter s \<and> op_wf lop
     \<and> pos_of s (lo_position_id lop) = Some (pending_position lop)
     \<and> pend_of s (lo_position_id lop) = Some (pending_state_of (lo_op_type lop))
     \<and> (lo_op_type lop = LockOp \<longrightarrow> (\<exists>r. key_of s (op_dedup lop) = Some r \<and> sd_position_id r = lo_position_id lop))"

definition ops_wf :: "staking \<Rightarrow> bool" where
  "ops_wf s \<longleftrightarrow> (\<forall>op_id lop. op_of s op_id = Some lop \<longrightarrow> lock_op_ok s op_id lop)"

definition key_ok :: "staking \<Rightarrow> bytes \<Rightarrow> stake_dedup_record \<Rightarrow> bool" where
  "key_ok s k r \<longleftrightarrow>
     (\<exists>p. pos_of s (sd_position_id r) = Some p \<and> po_amount p = sd_amount r \<and> po_lock_days p = sd_lock_days r)
     \<and> (\<forall>k' r'. key_of s k' = Some r' \<longrightarrow> sd_position_id r' = sd_position_id r \<longrightarrow> k' = k)"

definition keys_wf :: "staking \<Rightarrow> bool" where
  "keys_wf s \<longleftrightarrow> (\<forall>k r. key_of s k = Some r \<longrightarrow> key_ok s k r)"

definition positions_ok :: "staking \<Rightarrow> bool" where
  "positions_ok s \<longleftrightarrow> positions_wf s \<and> ops_wf s \<and> keys_wf s"

definition turn_live :: "staking \<Rightarrow> lock_turn \<Rightarrow> bool" where
  "turn_live s t \<longleftrightarrow> (\<exists>lop. op_of s (lt_op_id t) = Some lop \<and> t = turn_of (lt_token t) lop)"

definition lock_calls_ok ::
  "staking \<Rightarrow> (nat \<Rightarrow> token_answer option) \<Rightarrow> lock_turn set \<Rightarrow> lock_turn list \<Rightarrow> bool" where
  "lock_calls_ok s ans calls locks \<longleftrightarrow>
     (\<forall>t \<in> calls. lt_op_id t < sk_op_counter s \<and> (ans (lt_op_id t) = None \<longrightarrow> turn_live s t))
     \<and> (\<forall>t \<in> set locks. turn_live s t) \<and> distinct (map lt_op_id locks)
     \<and> (\<forall>op_id. sk_op_counter s \<le> op_id \<longrightarrow> ans op_id = None)"

definition locks_ok :: "token \<Rightarrow> (nat \<Rightarrow> token_answer option) \<Rightarrow> staking \<Rightarrow> bool" where
  "locks_ok tk ans s \<longleftrightarrow> (\<forall>k. get_lock tk k = held_by ans s k)"

definition weight_ok :: "staking \<Rightarrow> bool" where
  "weight_ok s \<longleftrightarrow> sk_total_weight s = weight_all s"

section \<open>Reading the two transitions\<close>

lemma update_reads [simp]:
  "pos_of (put_position pid p s) x = (if x = pid then Some p else pos_of s x)"
  "pend_of (put_position pid p s) x = pend_of s x" "op_of (put_position pid p s) i = op_of s i"
  "key_of (put_position pid p s) k = key_of s k"
  "pos_of (drop_position pid s) x = (if x = pid then None else pos_of s x)"
  "pend_of (drop_position pid s) x = pend_of s x" "op_of (drop_position pid s) i = op_of s i"
  "key_of (drop_position pid s) k = key_of s k"
  "pos_of (put_pending pid st s) x = pos_of s x" "op_of (put_pending pid st s) i = op_of s i"
  "key_of (put_pending pid st s) k = key_of s k"
  "pend_of (put_pending pid st s) x = (if x = pid then Some st else pend_of s x)"
  "pos_of (put_lock_op j lop s) x = pos_of s x" "pend_of (put_lock_op j lop s) x = pend_of s x"
  "key_of (put_lock_op j lop s) k = key_of s k"
  "op_of (put_lock_op j lop s) i = (if i = j then Some lop else op_of s i)"
  "pos_of (clear_op pid j s) x = pos_of s x" "key_of (clear_op pid j s) k = key_of s k"
  "pend_of (clear_op pid j s) x = (if x = pid then None else pend_of s x)"
  "op_of (clear_op pid j s) i = (if i = j then None else op_of s i)"
  "pos_of (drop_dedup key s) x = pos_of s x" "pend_of (drop_dedup key s) x = pend_of s x"
  "op_of (drop_dedup key s) i = op_of s i"
  "key_of (drop_dedup key s) k = (if k = key then None else key_of s k)"
  "pos_of (set_total_voting_weight n s) x = pos_of s x" "pend_of (set_total_voting_weight n s) x = pend_of s x"
  "op_of (set_total_voting_weight n s) i = op_of s i" "key_of (set_total_voting_weight n s) k = key_of s k"
  by (simp_all add: staking_reads put_position_def drop_position_def put_pending_def put_lock_op_def clear_op_def
      drop_dedup_def set_total_voting_weight_def)

lemma update_fields [simp]:
  "sk_op_counter (put_position pid p s) = sk_op_counter s" "sk_total_weight (put_position pid p s) = sk_total_weight s"
  "sk_op_counter (drop_position pid s) = sk_op_counter s" "sk_total_weight (drop_position pid s) = sk_total_weight s"
  "sk_op_counter (put_pending pid st s) = sk_op_counter s" "sk_total_weight (put_pending pid st s) = sk_total_weight s"
  "sk_op_counter (put_lock_op j lop s) = sk_op_counter s" "sk_total_weight (put_lock_op j lop s) = sk_total_weight s"
  "sk_op_counter (clear_op pid j s) = sk_op_counter s" "sk_total_weight (clear_op pid j s) = sk_total_weight s"
  "sk_op_counter (drop_dedup key s) = sk_op_counter s" "sk_total_weight (drop_dedup key s) = sk_total_weight s"
  "sk_op_counter (set_total_voting_weight n s) = sk_op_counter s"
  "sk_total_weight (set_total_voting_weight n s) = n"
  "sk_next_position_id (put_position pid p s) = sk_next_position_id s"
  "sk_next_position_id (drop_position pid s) = sk_next_position_id s"
  "sk_next_position_id (put_pending pid st s) = sk_next_position_id s"
  "sk_next_position_id (put_lock_op j lop s) = sk_next_position_id s"
  "sk_next_position_id (clear_op pid j s) = sk_next_position_id s"
  "sk_next_position_id (drop_dedup key s) = sk_next_position_id s"
  "sk_next_position_id (set_total_voting_weight n s) = sk_next_position_id s"
  by (simp_all add: put_position_def drop_position_def put_pending_def put_lock_op_def clear_op_def
      drop_dedup_def set_total_voting_weight_def)

definition settled_pos :: "pending_lock_op \<Rightarrow> bool \<Rightarrow> stake_position option" where
  "settled_pos lop executed = (case lo_op_type lop of
     LockOp \<Rightarrow> if executed then Some (lo_snapshot lop) else None
   | UnlockOp \<Rightarrow> Some (if executed then closed_position (lo_snapshot lop) else lo_snapshot lop))"

lemma settled_op_reads [simp]:
  "pos_of (op_settled lop ex s) x = (if x = lo_position_id lop then settled_pos lop ex else pos_of s x)"
  "pend_of (op_settled lop ex s) x = (if x = lo_position_id lop then None else pend_of s x)"
  "op_of (op_settled lop ex s) i = (if i = lo_op_id lop then None else op_of s i)"
  "key_of (op_settled lop ex s) k =
     (if lo_op_type lop = LockOp \<and> \<not> ex \<and> k = op_dedup lop then None else key_of s k)"
  "sk_op_counter (op_settled lop ex s) = sk_op_counter s"
  "sk_next_position_id (op_settled lop ex s) = sk_next_position_id s"
  by (cases "lo_op_type lop"; simp add: op_settled_def settled_pos_def add_total_voting_weight_def Let_def)+

lemma launched_reads [simp]:
  "pos_of (op_launched lop s) x = (if x = lo_position_id lop then Some (pending_position lop) else pos_of s x)"
  "pend_of (op_launched lop s) x =
     (if x = lo_position_id lop then Some (pending_state_of (lo_op_type lop)) else pend_of s x)"
  "op_of (op_launched lop s) i = (if i = lo_op_id lop then Some lop else op_of s i)"
  "key_of (op_launched lop s) k = (if lo_op_type lop = LockOp \<and> k = op_dedup lop
     then Some \<lparr> sd_amount = lo_amount lop, sd_lock_days = po_lock_days (lo_snapshot lop),
       sd_position_id = lo_position_id lop, sd_op_id = lo_op_id lop \<rparr> else key_of s k)"
  "sk_op_counter (op_launched lop s) = sk_op_counter s + 1"
  "sk_next_position_id (op_launched lop s) =
     (if lo_op_type lop = LockOp then lo_position_id lop + 1 else sk_next_position_id s)"
  by (cases "lo_op_type lop"; simp add: op_launched_def sub_total_voting_weight_def Let_def staking_reads
      put_position_def put_pending_def put_lock_op_def set_total_voting_weight_def)+


lemma settled_total:
  "sk_total_weight (op_settled lop ex s) =
     (if (lo_op_type lop = LockOp) = ex then sat_add 128 (sk_total_weight s) (po_voting_weight (lo_snapshot lop))
      else sk_total_weight s)"
  by (cases "lo_op_type lop") (simp_all add: op_settled_def add_total_voting_weight_def Let_def)

lemma launched_total:
  "sk_total_weight (op_launched lop s) =
     (if lo_op_type lop = LockOp then sk_total_weight s
      else sk_total_weight s - po_voting_weight (lo_snapshot lop))"
  by (cases "lo_op_type lop") (simp_all add: op_launched_def sub_total_voting_weight_def Let_def)

section \<open>Closing an operation keeps the invariant\<close>

lemma ops_wfD:
  assumes "ops_wf s" "op_of s i = Some lop"
  shows "lo_op_id lop = i" "i < sk_op_counter s" "op_wf lop"
    "pos_of s (lo_position_id lop) = Some (pending_position lop)"
    "pend_of s (lo_position_id lop) = Some (pending_state_of (lo_op_type lop))"
    "lo_op_type lop = LockOp \<Longrightarrow> \<exists>r. key_of s (op_dedup lop) = Some r \<and> sd_position_id r = lo_position_id lop"
  using assms unfolding ops_wf_def lock_op_ok_def by blast+

lemma same_position_same_op:
  assumes "ops_wf s" "op_of s i = Some lop" "op_of s j = Some lop'" "lo_position_id lop' = lo_position_id lop"
  shows "j = i"
proof -
  have "pending_position lop' = pending_position lop"
    using ops_wfD(4) [OF assms(1,2)] ops_wfD(4) [OF assms(1,3)] assms(4) by simp
  then have "lo_op_id lop' = lo_op_id lop" unfolding pending_position_def
    by (metis option.inject stake_position.ext_inject stake_position.surjective stake_position.update_convs(11))
  then show ?thesis using ops_wfD(1) [OF assms(1,2)] ops_wfD(1) [OF assms(1,3)] by simp
qed

lemma pending_position_fields [simp]:
  "po_position_id (pending_position lop) = po_position_id (lo_snapshot lop)"
  "po_holder (pending_position lop) = po_holder (lo_snapshot lop)"
  "po_amount (pending_position lop) = po_amount (lo_snapshot lop)"
  "po_lock_days (pending_position lop) = po_lock_days (lo_snapshot lop)"
  "po_closed (pending_position lop) = po_closed (lo_snapshot lop)"
  "po_voting_weight (pending_position lop) = 0" "po_op_id (pending_position lop) = Some (lo_op_id lop)"
  by (simp_all add: pending_position_def)

lemma closed_position_fields [simp]:
  "po_position_id (closed_position p) = po_position_id p" "po_holder (closed_position p) = po_holder p"
  "po_amount (closed_position p) = po_amount p" "po_lock_days (closed_position p) = po_lock_days p"
  "po_closed (closed_position p) = True" "po_voting_weight (closed_position p) = 0"
  "po_op_id (closed_position p) = None"
  by (simp_all add: closed_position_def)

lemma positions_wfD: "positions_wf s \<Longrightarrow> pos_of s pid = Some p \<Longrightarrow> position_ok s pid p"
  by (simp add: positions_wf_def)

lemma keys_wfD: "keys_wf s \<Longrightarrow> key_of s k = Some r \<Longrightarrow> key_ok s k r"
  by (simp add: keys_wf_def)

lemma settled_position_ok:
  assumes wf: "positions_wf s" "ops_wf s" and lop: "op_of s i = Some lop"
    and p: "pos_of (op_settled lop ex s) pid = Some p"
  shows "position_ok (op_settled lop ex s) pid p"
proof (cases "pid = lo_position_id lop")
  case True
  have "lo_position_id lop < sk_next_position_id s"
    using positions_wfD [OF wf(1) ops_wfD(4) [OF wf(2) lop]] unfolding position_ok_def by (elim conjE)
  moreover have "settled_pos lop ex = Some p" using p True by simp
  moreover have "op_wf lop" by (rule ops_wfD(3) [OF wf(2) lop])
  ultimately show ?thesis
    using True by (simp add: position_ok_def settled_pos_def op_wf_def split: lock_op_type.splits if_splits) auto
next
  case False
  then have ok: "position_ok s pid p" using p positions_wfD [OF wf(1)] by simp
  have "lo_op_id lop' \<noteq> lo_op_id lop" if "op_of s (lo_op_id lop') = Some lop'" "lo_position_id lop' = pid" for lop'
  proof
    assume "lo_op_id lop' = lo_op_id lop"
    then have "lop' = lop" using that(1) lop unfolding ops_wfD(1) [OF wf(2) lop] by (simp only: option.inject)
    with that(2) False show False by (simp only:)
  qed
  then have "pend_of s pid \<noteq> None \<Longrightarrow> \<exists>lop'. po_op_id p = Some (lo_op_id lop')
      \<and> op_of (op_settled lop ex s) (lo_op_id lop') = Some lop' \<and> lo_position_id lop' = pid"
    using ok unfolding position_ok_def settled_op_reads by metis
  then show ?thesis using ok False by (simp add: position_ok_def)
qed

lemma settled_op_ok:
  assumes wf: "ops_wf s" and lop: "op_of s i = Some lop" and j: "op_of (op_settled lop ex s) j = Some lop'"
  shows "lock_op_ok (op_settled lop ex s) j lop'"
proof -
  let ?s = "op_settled lop ex s" and ?i = "lo_position_id lop"
  have j: "j \<noteq> i" "op_of s j = Some lop'" using j ops_wfD(1) [OF wf lop] by (simp_all split: if_splits)
  note l = ops_wfD [OF wf j(2)]
  have ne: "lo_position_id lop' \<noteq> ?i" using same_position_same_op [OF wf lop j(2)] j(1) by blast
  have "op_dedup lop' \<noteq> op_dedup lop" if "lo_op_type lop' = LockOp" "lo_op_type lop = LockOp"
    using l(6) [OF that(1)] ops_wfD(6) [OF wf lop that(2)] ne by auto
  then have "key_of ?s (op_dedup lop') = key_of s (op_dedup lop')" if "lo_op_type lop' = LockOp"
    using that by auto
  then show ?thesis using l ne by (simp add: lock_op_ok_def)
qed

lemma settled_key_ok:
  assumes wf: "ops_wf s" "keys_wf s" and lop: "op_of s i = Some lop" and k: "key_of (op_settled lop ex s) k = Some r"
  shows "key_ok (op_settled lop ex s) k r"
proof -
  let ?s = "op_settled lop ex s" and ?i = "lo_position_id lop"
  note l = ops_wfD [OF wf(1) lop]
  have k: "key_of s k = Some r" "\<not> (lo_op_type lop = LockOp \<and> \<not> ex \<and> k = op_dedup lop)"
    using k by (simp_all split: if_splits)
  obtain p where p: "pos_of s (sd_position_id r) = Some p" "po_amount p = sd_amount r" "po_lock_days p = sd_lock_days r"
    and uniq: "\<And>k' r'. key_of s k' = Some r' \<Longrightarrow> sd_position_id r' = sd_position_id r \<Longrightarrow> k' = k"
    using keys_wfD [OF wf(2) k(1)] unfolding key_ok_def by blast
  have "\<exists>p. pos_of ?s (sd_position_id r) = Some p \<and> po_amount p = sd_amount r \<and> po_lock_days p = sd_lock_days r"
  proof (cases "sd_position_id r = ?i")
    case True
    have "lo_op_type lop = LockOp \<Longrightarrow> ex"
      using l(6) True k(2) uniq by metis
    then show ?thesis
      using p True l(4) by (cases "lo_op_type lop"; cases ex) (auto simp: settled_pos_def)
  next
    case False
    then show ?thesis using p by simp
  qed
  moreover have "k' = k" if "key_of ?s k' = Some r'" "sd_position_id r' = sd_position_id r" for k' r'
    using uniq [OF _ that(2)] that(1) by (simp split: if_splits)
  ultimately show ?thesis unfolding key_ok_def by blast
qed

lemma settled_positions_ok:
  assumes ok: "positions_ok s" and lop: "op_of s i = Some lop"
  shows "positions_ok (op_settled lop ex s)"
proof -
  have wf: "positions_wf s" "ops_wf s" "keys_wf s" using ok by (simp_all add: positions_ok_def)
  have "pend_of (op_settled lop ex s) pid \<noteq> None \<longrightarrow> pos_of (op_settled lop ex s) pid \<noteq> None" for pid
    using wf(1) unfolding positions_wf_def by simp
  then show ?thesis
    using settled_position_ok [OF wf(1,2) lop] settled_op_ok [OF wf(2) lop] settled_key_ok [OF wf(2,3) lop]
    unfolding positions_ok_def positions_wf_def ops_wf_def keys_wf_def by blast
qed

lemma settled_held:
  assumes ok: "positions_ok s" and lop: "op_of s i = Some lop" and ex: "ex \<longleftrightarrow> ans i = Some TokenExecuted"
  shows "held_by ans (op_settled lop ex s) k = held_by ans s k"
proof (rule held_cong)
  fix x
  note l = ops_wfD [OF _ lop]
  have wf: "ops_wf s" using ok by (simp add: positions_ok_def)
  show "claim_row ans k (pos_of (op_settled lop ex s) x) (pend_of (op_settled lop ex s) x)
    = claim_row ans k (pos_of s x) (pend_of s x)"
    using l(1,3,4,5) [OF wf] ex
    by (auto simp: claim_row_def claim_on_def settled_pos_def op_executed_def op_wf_def split: lock_op_type.splits)
qed


lemma settled_op_weight:
  assumes wf: "ops_wf s" and lop: "op_of s i = Some lop" and w: "weight_ok s"
    and small: "weight_all (op_settled lop ex s) < u128_limit"
  shows "weight_ok (op_settled lop ex s)"
proof -
  note l = ops_wfD [OF wf lop]
  have wc: "weight_all (op_settled lop ex s) = weight_all s
      + (case settled_pos lop ex of None \<Rightarrow> 0 | Some p \<Rightarrow> po_voting_weight p)"
    using weight_change [where s' = "op_settled lop ex s" and s = s and pid = "lo_position_id lop"] l(4) by simp
  show ?thesis
    using w wc small l(3) unfolding weight_ok_def settled_total
    by (cases "lo_op_type lop"; cases ex) (simp_all add: settled_pos_def)
qed

section \<open>Opening an operation keeps it\<close>

definition can_open :: "staking \<Rightarrow> pending_lock_op \<Rightarrow> bool" where
  "can_open s lop \<longleftrightarrow> op_wf lop \<and> lo_op_id lop = sk_op_counter s \<and>
     (case lo_op_type lop of
        LockOp \<Rightarrow> lo_position_id lop = sk_next_position_id s \<and> key_of s (op_dedup lop) = None
      | UnlockOp \<Rightarrow> pos_of s (lo_position_id lop) = Some (lo_snapshot lop)
          \<and> pend_of s (lo_position_id lop) = None)"

lemma next_position_free:
  assumes "positions_ok s"
  shows "pos_of s (sk_next_position_id s) = None" "pend_of s (sk_next_position_id s) = None"
proof -
  have wf: "positions_wf s" using assms by (simp add: positions_ok_def)
  show "pos_of s (sk_next_position_id s) = None"
  proof (cases "pos_of s (sk_next_position_id s)")
    case (Some p)
    from positions_wfD [OF wf this] show ?thesis by (simp add: position_ok_def)
  qed
  then show "pend_of s (sk_next_position_id s) = None" using wf unfolding positions_wf_def by auto
qed

lemma can_open_alone:
  assumes "positions_ok s" "can_open s lop" "op_of s j = Some lop'"
  shows "lo_position_id lop' \<noteq> lo_position_id lop" "j \<noteq> lo_op_id lop" "pend_of s (lo_position_id lop) = None"
proof -
  have wf: "ops_wf s" using assms(1) by (simp add: positions_ok_def)
  show "j \<noteq> lo_op_id lop" using ops_wfD(2) [OF wf assms(3)] assms(2) by (simp add: can_open_def)
  show none: "pend_of s (lo_position_id lop) = None"
    using assms(2) next_position_free [OF assms(1)] by (simp add: can_open_def split: lock_op_type.splits)
  show "lo_position_id lop' \<noteq> lo_position_id lop" using ops_wfD(5) [OF wf assms(3)] none by auto
qed

lemma launched_position_ok:
  assumes ok: "positions_ok s" "can_open s lop" and p: "pos_of (op_launched lop s) pid = Some p"
  shows "position_ok (op_launched lop s) pid p"
proof (cases "pid = lo_position_id lop")
  case True
  have wf: "positions_wf s" using ok(1) by (simp add: positions_ok_def)
  have "lo_position_id lop < sk_next_position_id (op_launched lop s)"
  proof (cases "lo_op_type lop")
    case UnlockOp
    then have "pos_of s (lo_position_id lop) = Some (lo_snapshot lop)" using ok(2) by (simp add: can_open_def)
    from positions_wfD [OF wf this] UnlockOp show ?thesis unfolding position_ok_def by simp
  qed simp
  moreover have "p = pending_position lop" "op_wf lop" using p True ok(2) by (simp_all add: can_open_def)
  moreover have "op_of (op_launched lop s) (lo_op_id lop) = Some lop" by simp
  ultimately show ?thesis
    unfolding position_ok_def using True by (auto simp: op_wf_def intro!: exI [of _ lop])
next
  case False
  have old: "position_ok s pid p"
    using p False positions_wfD [of s pid p] ok(1) by (simp add: positions_ok_def)
  have mono: "sk_next_position_id s \<le> sk_next_position_id (op_launched lop s)"
    using ok(2) by (cases "lo_op_type lop") (simp_all add: can_open_def)
  have "op_of (op_launched lop s) j = Some lop'" if "op_of s j = Some lop'" for j lop'
    using that can_open_alone(2) [OF ok that] by simp
  moreover have "pend_of (op_launched lop s) pid = pend_of s pid" using False by simp
  ultimately show ?thesis
    using old mono unfolding position_ok_def by (metis less_le_trans)
qed

lemma launched_op_ok:
  assumes ok: "positions_ok s" "can_open s lop" and j: "op_of (op_launched lop s) j = Some lop'"
  shows "lock_op_ok (op_launched lop s) j lop'"
proof (cases "j = lo_op_id lop")
  case True
  then have "lop' = lop" using j by simp
  then show ?thesis using ok(2) True by (simp add: lock_op_ok_def can_open_def)
next
  case False
  then have j: "op_of s j = Some lop'" using j by simp
  have wf: "ops_wf s" using ok(1) by (simp add: positions_ok_def)
  note l = ops_wfD [OF wf j]
  have "op_dedup lop' \<noteq> op_dedup lop" if "lo_op_type lop = LockOp" "lo_op_type lop' = LockOp"
    using l(6) [OF that(2)] ok(2) that(1) by (auto simp: can_open_def)
  then have "lo_op_type lop' = LockOp \<Longrightarrow> key_of (op_launched lop s) (op_dedup lop') = key_of s (op_dedup lop')"
    by auto
  then show ?thesis using l can_open_alone(1) [OF ok j] by (simp add: lock_op_ok_def)
qed

lemma launched_key_ok:
  assumes ok: "positions_ok s" "can_open s lop" and k: "key_of (op_launched lop s) k = Some r"
  shows "key_ok (op_launched lop s) k r"
proof (cases "lo_op_type lop")
  case LockOp
  have wf: "keys_wf s" using ok(1) by (simp add: positions_ok_def)
  have pid: "lo_position_id lop = sk_next_position_id s" "op_wf lop"
    using ok(2) LockOp by (simp_all add: can_open_def)
  have old: "sd_position_id r' \<noteq> lo_position_id lop" if "key_of s k' = Some r'" for k' r'
    using keys_wfD [OF wf that] next_position_free(1) [OF ok(1)] pid(1) unfolding key_ok_def by auto
  show ?thesis
  proof (cases "k = op_dedup lop")
    case True
    then show ?thesis using k LockOp old pid(2) by (auto simp: key_ok_def op_wf_def)
  next
    case False
    then have ks: "key_of s k = Some r" using k by simp
    show ?thesis
      using keys_wfD [OF wf ks] old [OF ks] LockOp unfolding key_ok_def by auto
  qed
next
  case UnlockOp
  have wf: "keys_wf s" using ok(1) by (simp add: positions_ok_def)
  have ks: "key_of s k = Some r" using k UnlockOp by simp
  have "pos_of s (lo_position_id lop) = Some (lo_snapshot lop)" using ok(2) UnlockOp by (simp add: can_open_def)
  then show ?thesis using keys_wfD [OF wf ks] UnlockOp unfolding key_ok_def by auto
qed

lemma launched_positions_ok:
  assumes "positions_ok s" "can_open s lop"
  shows "positions_ok (op_launched lop s)"
proof -
  have "positions_wf s" using assms(1) by (simp add: positions_ok_def)
  then have "pend_of (op_launched lop s) pid \<noteq> None \<longrightarrow> pos_of (op_launched lop s) pid \<noteq> None" for pid
    unfolding positions_wf_def by simp
  then show ?thesis
    using launched_position_ok [OF assms] launched_op_ok [OF assms] launched_key_ok [OF assms]
    unfolding positions_ok_def positions_wf_def ops_wf_def keys_wf_def by blast
qed

lemma launched_held:
  assumes ok: "positions_ok s" "can_open s lop" and new: "ans (lo_op_id lop) = None"
  shows "held_by ans (op_launched lop s) k = held_by ans s k"
proof (rule held_cong)
  fix x
  show "claim_row ans k (pos_of (op_launched lop s) x) (pend_of (op_launched lop s) x)
    = claim_row ans k (pos_of s x) (pend_of s x)"
    using ok(2) new next_position_free [OF ok(1)]
    by (cases "lo_op_type lop")
      (auto simp: claim_row_def claim_on_def op_executed_def can_open_def op_wf_def)
qed

lemma launched_weight:
  assumes ok: "positions_ok s" "can_open s lop" and w: "weight_ok s"
  shows "weight_ok (op_launched lop s)"
proof -
  have "weight_all (op_launched lop s) + (case pos_of s (lo_position_id lop) of None \<Rightarrow> 0 | Some p \<Rightarrow> po_voting_weight p)
      = weight_all s"
    using weight_change [where s' = "op_launched lop s" and s = s and pid = "lo_position_id lop"] by simp
  then show ?thesis
    using w ok(2) next_position_free(1) [OF ok(1)]
    unfolding weight_ok_def launched_total by (cases "lo_op_type lop") (auto simp: can_open_def)
qed


section \<open>The token side\<close>

definition lock_delta :: "lock_op_type \<Rightarrow> lock_turn \<Rightarrow> bytes \<Rightarrow> token_answer \<Rightarrow> nat" where
  "lock_delta ty t k a = (if lt_op_type t = ty \<and> a = TokenExecuted \<and> main_key (po_holder (lt_position t)) = k
     then po_amount (lt_position t) else 0)"

lemma deliver_lock_effect:
  assumes "deliver_lock self t tk = (a, tk')" "token_inv tk"
  shows "token_inv tk'" "get_lock tk' k + lock_delta UnlockOp t k a = get_lock tk k + lock_delta LockOp t k a"
proof -
  let ?h = "po_holder (lt_position t)" and ?n = "po_amount (lt_position t)"
  have lock: "token_inv u \<and> get_lock u k = get_lock tk k + (if main_key ?h = k then ?n else 0)"
    if "lock_for_staking self ?h ?n tk = Inr u" for u
    using lock_for_staking_Inr [OF that assms(2)] by auto
  have unlock: "token_inv u \<and> get_lock u k + (if main_key ?h = k then ?n else 0) = get_lock tk k"
    if "unlock_from_staking self ?h ?n tk = Inr u" for u
  proof -
    note r = unlock_from_staking_Inr [OF that assms(2)]
    have "\<forall>x. get_lock u x + (if x = main_key ?h then ?n else 0) = get_lock tk x" using r by blast
    from spec [OF this, of k] r show ?thesis by (auto split: if_splits)
  qed
  show "token_inv tk'"
    using assms lock [of tk'] unlock [of tk']
    by (cases "lt_op_type t") (auto simp: deliver_lock_def split: sum.splits fault.splits)
  show "get_lock tk' k + lock_delta UnlockOp t k a = get_lock tk k + lock_delta LockOp t k a"
    using assms lock [of tk'] unlock [of tk']
    by (cases "lt_op_type t") (auto simp: deliver_lock_def lock_delta_def split: sum.splits fault.splits if_splits)
qed

lemma answered_held:
  assumes ok: "positions_ok s" and lop: "op_of s (lt_op_id t) = Some lop" "t = turn_of tok lop"
    and new: "ans (lt_op_id t) = None"
  shows "held_by (ans(lt_op_id t \<mapsto> a)) s k + lock_delta UnlockOp t k a
    = held_by ans s k + lock_delta LockOp t k a"
proof -
  let ?i = "lt_op_id t" and ?ans = "ans(lt_op_id t \<mapsto> a)" and ?pid = "lo_position_id lop"
  have wf: "positions_wf s" "ops_wf s" using ok by (simp_all add: positions_ok_def)
  note l = ops_wfD [OF wf(2) lop(1)]
  have "claim_row ?ans k (pos_of s x) (pend_of s x) = claim_row ans k (pos_of s x) (pend_of s x)"
    if "x \<noteq> ?pid" for x
  proof (cases "pos_of s x")
    case (Some p)
    have "po_op_id p \<noteq> Some ?i" if held: "pend_of s x \<noteq> None"
    proof
      assume op: "po_op_id p = Some ?i"
      obtain lop' where "po_op_id p = Some (lo_op_id lop')" "op_of s (lo_op_id lop') = Some lop'"
        "lo_position_id lop' = x"
        using positions_wfD [OF wf(1) Some] held unfolding position_ok_def by blast
      then show False using op lop(1) \<open>x \<noteq> ?pid\<close> by (metis option.inject)
    qed
    then show ?thesis
      using Some by (auto simp: claim_row_def claim_on_def op_executed_def
          split: option.splits pending_stake_state.splits)
  qed (simp add: claim_row_def)
  from held_change [where pid = ?pid and ans' = ?ans and s' = s and s = s and ans = ans, OF this]
  have "held_by ?ans s k + claim_row ans k (pos_of s ?pid) (pend_of s ?pid)
    = held_by ans s k + claim_row ?ans k (pos_of s ?pid) (pend_of s ?pid)" .
  moreover have "claim_row ?ans k (pos_of s ?pid) (pend_of s ?pid) + lock_delta UnlockOp t k a
      = claim_row ans k (pos_of s ?pid) (pend_of s ?pid) + lock_delta LockOp t k a"
    using new unfolding l(4) l(5) lop(2)
    by (cases "lo_op_type lop")
      (simp_all add: claim_row_def claim_on_def op_executed_def lock_delta_def turn_of_def)
  ultimately show ?thesis by linarith
qed

section \<open>The total is bounded by the supply\<close>

lemma held_all_le_supply:
  assumes "locks_ok tk ans s" "token_inv tk"
  shows "held_all ans s \<le> TOTAL_SUPPLY"
proof -
  let ?D = "fset (fmdom (sk_positions s))" and ?f = "\<lambda>pid p. claim_on ans (pend_of s pid) p"
  let ?g = "\<lambda>k pid p. if main_key (po_holder p) = k then claim_on ans (pend_of s pid) p else 0"
  define key where "key = (\<lambda>pid. case pos_of s pid of None \<Rightarrow> [] | Some p \<Rightarrow> main_key (po_holder p))"
  have split: "fmrow ?f (sk_positions s) pid = (\<Sum>k \<in> key ` ?D. fmrow (?g k) (sk_positions s) pid)"
    if inD: "pid \<in> ?D" for pid
  proof -
    obtain p where p: "fmlookup (sk_positions s) pid = Some p"
      using inD by (cases "fmlookup (sk_positions s) pid") (simp_all add: fmdom_notD fmdom_notI)
    then have "main_key (po_holder p) \<in> key ` ?D" using inD by (auto simp: key_def pos_of_def intro!: rev_image_eqI)
    then show ?thesis using p by (simp add: fmrow_def sum.delta')
  qed
  have "held_all ans s = (\<Sum>pid \<in> ?D. \<Sum>k \<in> key ` ?D. fmrow (?g k) (sk_positions s) pid)"
    unfolding held_all_def fmsum_def by (rule sum.cong [OF refl split])
  also have "\<dots> = (\<Sum>k \<in> key ` ?D. held_by ans s k)"
    unfolding held_by_def fmsum_def by (rule sum.swap)
  also have "\<dots> = (\<Sum>k \<in> key ` ?D. fmget 0 (tk_locks tk) k)"
    using assms(1) by (simp add: locks_ok_def get_lock_def)
  also have "\<dots> \<le> fmtotal (tk_locks tk)"
  proof -
    have "(\<Sum>k \<in> key ` ?D. fmget 0 (tk_locks tk) k)
        \<le> (\<Sum>k \<in> key ` ?D \<union> fset (fmdom (tk_locks tk)). fmget 0 (tk_locks tk) k)"
      by (rule sum_mono2) auto
    also have "\<dots> = fmtotal (tk_locks tk)"
      unfolding fmtotal_def by (rule sum.mono_neutral_right) (auto simp: fmget_notin)
    finally show ?thesis .
  qed
  also have "\<dots> \<le> fmtotal (tk_balances tk)"
    by (rule fmtotal_mono) (use token_invD(1) [OF assms(2)] in \<open>simp add: supply_ok_def get_lock_def get_balance_def\<close>)
  also have "\<dots> \<le> TOTAL_SUPPLY"
    using token_invD(1) [OF assms(2)] by (simp add: supply_ok_def totals_ok_def)
  finally show ?thesis .
qed

lemma weight_all_le:
  assumes ok: "positions_ok s" and "locks_ok tk ans s" "token_inv tk"
  shows "weight_all s \<le> 3 * TOTAL_SUPPLY"
proof -
  have wf: "positions_wf s" "ops_wf s" using ok by (simp_all add: positions_ok_def)
  have "fmrow (\<lambda>_. po_voting_weight) (sk_positions s) pid
      \<le> fmrow (\<lambda>pid p. 3 * claim_on ans (pend_of s pid) p) (sk_positions s) pid" for pid
  proof (cases "pos_of s pid")
    case (Some p)
    have "po_voting_weight p \<le> 3 * claim_on ans (pend_of s pid) p"
    proof (cases "pend_of s pid")
      case None
      then show ?thesis using positions_wfD [OF wf(1) Some] by (simp add: position_ok_def claim_on_def)
    next
      case (Some st)
      then obtain lop where "op_of s (lo_op_id lop) = Some lop" "lo_position_id lop = pid"
        using positions_wfD [OF wf(1) \<open>pos_of s pid = Some p\<close>] unfolding position_ok_def by blast
      then show ?thesis using ops_wfD(4) [OF wf(2)] \<open>pos_of s pid = Some p\<close> by fastforce
    qed
    then show ?thesis using Some by (simp add: fmrow_def pos_of_def)
  qed (simp add: fmrow_def pos_of_def)
  then have "weight_all s \<le> 3 * held_all ans s"
    unfolding weight_all_def held_all_def by (subst fmsum_times [symmetric]) (rule fmsum_mono)
  also have "\<dots> \<le> 3 * TOTAL_SUPPLY" using held_all_le_supply [OF assms(2,3)] by simp
  finally show ?thesis .
qed

lemma weight_all_small:
  assumes "positions_ok s" "locks_ok tk ans s" "token_inv tk"
  shows "weight_all s < u128_limit"
proof -
  have "3 * TOTAL_SUPPLY < u128_limit" by (simp add: TOTAL_SUPPLY_def)
  then show ?thesis using weight_all_le [OF assms] by simp
qed


lemma inactive_weightless:
  assumes ok: "positions_ok s" and p: "pos_of s pid = Some p" "position_ok s pid p" "\<not> is_active_position s p"
  shows "po_voting_weight p = 0"
proof (cases "pend_of s pid")
  case None
  then show ?thesis using p(2,3) by (simp add: position_ok_def is_active_position_def pend_of_def)
next
  case (Some st)
  have wf: "ops_wf s" using ok by (simp add: positions_ok_def)
  obtain lop where "op_of s (lo_op_id lop) = Some lop" "lo_position_id lop = pid"
    using p(2) Some unfolding position_ok_def by blast
  from ops_wfD(4) [OF wf this(1)] this(2) p(1) show ?thesis by auto
qed

end
