(* ===== verification/Staking_World.thy ===== *)
theory Staking_World
  imports Staking_Locks
begin

text \<open>
  The run of the staking canister beside the token ledger. As long as no operation is reconciled while its own
  call is awaited and none against what the token did, every reachable world satisfies the invariant of
  \<open>Staking_Locks\<close>: the token's lock of every account is exactly what the positions claim, and the total voting
  weight is exactly the sum over the positions.
\<close>

section \<open>The calls in flight\<close>

lemma same_positions_reads:
  assumes "same_positions s s'"
  shows "pos_of s' = pos_of s" "pend_of s' = pend_of s" "op_of s' = op_of s" "key_of s' = key_of s"
    "sk_op_counter s' = sk_op_counter s" "sk_next_position_id s' = sk_next_position_id s"
    "sk_total_weight s' = sk_total_weight s" "sk_positions s' = sk_positions s"
  using assms by (simp_all add: same_positions_def staking_reads fun_eq_iff)

definition state_ok ::
  "staking \<Rightarrow> (nat \<Rightarrow> token_answer option) \<Rightarrow> lock_turn set \<Rightarrow> lock_turn list \<Rightarrow> token \<Rightarrow> bool" where
  "state_ok s ans calls locks tk \<longleftrightarrow>
     positions_ok s \<and> lock_calls_ok s ans calls locks \<and> locks_ok tk ans s \<and> weight_ok s \<and> token_inv tk"

lemma same_positions_state_ok:
  assumes "same_positions s s'" "state_ok s ans calls locks tk"
  shows "state_ok s' ans calls locks tk"
  using assms(2)
  unfolding state_ok_def positions_ok_def positions_wf_def position_ok_def ops_wf_def lock_op_ok_def keys_wf_def key_ok_def
    lock_calls_ok_def turn_live_def locks_ok_def held_by_def weight_ok_def weight_all_def
    same_positions_reads [OF assms(1)] .

lemma state_okD:
  assumes "state_ok s ans calls locks tk"
  shows "positions_ok s" "positions_wf s" "ops_wf s" "keys_wf s" "lock_calls_ok s ans calls locks"
    "locks_ok tk ans s" "weight_ok s" "token_inv tk"
  using assms by (simp_all add: state_ok_def positions_ok_def)

lemma fewer_locks:
  assumes "lock_calls_ok s ans calls locks" "set locks' \<subseteq> set locks" "distinct (map lt_op_id locks')"
  shows "lock_calls_ok s ans calls locks'"
  using assms unfolding lock_calls_ok_def by blast

lemma remove1_locks:
  assumes "distinct (map lt_op_id locks)"
  shows "set (remove1 t locks) \<subseteq> set locks" "distinct (map lt_op_id (remove1 t locks))"
    "t \<in> set locks \<Longrightarrow> lt_op_id t \<notin> lt_op_id ` set (remove1 t locks)"
proof -
  show "set (remove1 t locks) \<subseteq> set locks" by (rule set_remove1_subset)
  have inj: "inj_on lt_op_id (set locks)" "distinct locks" using assms by (simp_all add: distinct_map)
  show "distinct (map lt_op_id (remove1 t locks))"
    using inj inj_on_subset [OF inj(1), of "set locks - {t}"] by (auto simp: distinct_map)
  show "lt_op_id t \<notin> lt_op_id ` set (remove1 t locks)" if "t \<in> set locks"
    using inj that by (auto simp: inj_on_def)
qed

lemma settled_calls:
  assumes c: "lock_calls_ok s ans calls locks" and wf: "ops_wf s" and lop: "op_of s i = Some lop" and a: "ans i \<noteq> None"
    and l: "set locks' \<subseteq> set locks" "distinct (map lt_op_id locks')" "i \<notin> lt_op_id ` set locks'"
  shows "lock_calls_ok (op_settled lop ex s) ans calls locks'"
proof -
  have i: "lo_op_id lop = i" by (rule ops_wfD(1) [OF wf lop])
  have live: "turn_live (op_settled lop ex s) t" if "turn_live s t" "lt_op_id t \<noteq> i" for t
    using that unfolding turn_live_def by (simp add: i)
  have "turn_live (op_settled lop ex s) t" if "t \<in> calls" "ans (lt_op_id t) = None" for t
    by (rule live) (use c a that in \<open>auto simp: lock_calls_ok_def\<close>)
  moreover have "turn_live (op_settled lop ex s) t" if "t \<in> set locks'" for t
    by (rule live) (use c l that in \<open>auto simp: lock_calls_ok_def\<close>)
  ultimately show ?thesis
    using c l(2) unfolding lock_calls_ok_def settled_op_reads by blast
qed

lemma settled_state_ok:
  assumes ok: "state_ok s ans calls locks tk" and lop: "op_of s i = Some lop"
    and a: "ans i \<noteq> None" "ex \<longleftrightarrow> ans i = Some TokenExecuted"
    and l: "set locks' \<subseteq> set locks" "distinct (map lt_op_id locks')" "i \<notin> lt_op_id ` set locks'"
  shows "state_ok (op_settled lop ex s) ans calls locks' tk"
proof -
  note o = state_okD [OF ok]
  have pos: "positions_ok (op_settled lop ex s)" by (rule settled_positions_ok [OF o(1) lop])
  have locks: "locks_ok tk ans (op_settled lop ex s)"
    using o(6) settled_held [where ans = ans, OF o(1) lop a(2)] by (simp add: locks_ok_def)
  show ?thesis
    unfolding state_ok_def
    using pos locks o(8) settled_calls [OF o(5,3) lop a(1) l]
      settled_op_weight [OF o(3) lop o(7) weight_all_small [OF pos locks o(8)]] by blast
qed

lemma launched_state_ok:
  assumes ok: "state_ok s ans calls locks tk" and can: "can_open s lop"
  shows "state_ok (op_launched lop s) ans (insert (turn_of token lop) calls) (turn_of token lop # locks) tk"
proof -
  let ?t = "turn_of token lop"
  note o = state_okD [OF ok]
  have id: "lt_op_id ?t = sk_op_counter s" "lt_token ?t = token" "lo_op_id lop = sk_op_counter s"
    using can by (simp_all add: turn_of_def can_open_def)
  have new: "ans (lo_op_id lop) = None" using o(5) unfolding id lock_calls_ok_def by blast
  have old: "lt_op_id t < sk_op_counter s" if "turn_live s t" for t
    using that ops_wfD(2) [OF o(3)] unfolding turn_live_def by blast
  have live: "turn_live (op_launched lop s) t" if "turn_live s t" for t
    using that old [OF that] unfolding turn_live_def by (simp add: id)
  have mine: "turn_live (op_launched lop s) ?t" unfolding turn_live_def by (simp add: id)
  have "lock_calls_ok (op_launched lop s) ans (insert ?t calls) (?t # locks)"
  proof -
    have "lt_op_id t < sk_op_counter s + 1 \<and> (ans (lt_op_id t) = None \<longrightarrow> turn_live (op_launched lop s) t)"
      if "t \<in> insert ?t calls" for t
      using that o(5) live mine id(1) unfolding lock_calls_ok_def by fastforce
    moreover have "turn_live (op_launched lop s) t" if "t \<in> set (?t # locks)" for t
      using that o(5) live mine unfolding lock_calls_ok_def by auto
    moreover have "lt_op_id ?t \<notin> lt_op_id ` set locks"
      using o(5) old unfolding lock_calls_ok_def id by (metis imageE less_irrefl)
    ultimately show ?thesis
      using o(5) unfolding lock_calls_ok_def launched_reads by simp
  qed
  moreover have "locks_ok tk ans (op_launched lop s)"
    using o(6) launched_held [where ans = ans, OF o(1) can new] by (simp add: locks_ok_def)
  ultimately show ?thesis
    unfolding state_ok_def
    using launched_positions_ok [OF o(1) can] launched_weight [OF o(1) can o(7)] o(8) by blast
qed

lemma answered_state_ok:
  assumes ok: "state_ok s ans calls locks tk" and t: "t \<in> calls" "ans (lt_op_id t) = None"
    and d: "(a, tk') = deliver_lock self t tk \<or> a = TokenNever \<and> tk' = tk"
  shows "state_ok s (ans(lt_op_id t \<mapsto> a)) calls locks tk'"
proof -
  let ?ans = "ans(lt_op_id t \<mapsto> a)"
  note o = state_okD [OF ok]
  obtain lop where lop: "op_of s (lt_op_id t) = Some lop" "t = turn_of (lt_token t) lop"
    using o(5) t unfolding lock_calls_ok_def turn_live_def by blast
  have tk: "token_inv tk' \<and> get_lock tk' k + lock_delta UnlockOp t k a = get_lock tk k + lock_delta LockOp t k a" for k
  proof (cases "(a, tk') = deliver_lock self t tk")
    case True
    from deliver_lock_effect [OF True [symmetric] o(8)] show ?thesis by blast
  next
    case False
    then show ?thesis using d o(8) by (simp add: lock_delta_def)
  qed
  have "held_by ?ans s k = get_lock tk' k" for k
  proof -
    have "held_by ans s k = get_lock tk k" using o(6) by (simp add: locks_ok_def)
    then show ?thesis
      using answered_held [where ans = ans and a = a and k = k, OF o(1) lop t(2)] tk [of k]
      by (cases "lt_op_type t") (simp_all add: lock_delta_def)
  qed
  moreover have "lock_calls_ok s ?ans calls locks"
    using o(5) t unfolding lock_calls_ok_def by (auto dest: bspec)
  ultimately show ?thesis
    using o tk by (simp add: state_ok_def locks_ok_def)
qed


section \<open>Every world of a run\<close>

definition staking_world_ok :: "staking_world \<Rightarrow> bool" where
  "staking_world_ok w \<longleftrightarrow> state_ok (sw_state w) (sw_answer w) (sw_calls w) (sw_locks w) (sw_token w)"

lemma no_stale_key: "keys_wf s \<Longrightarrow> \<not> stale_key s k"
  unfolding stale_key_def keys_wf_def key_ok_def by fastforce

lemma unstake_can_open:
  assumes "positions_ok s" "pos_of s (lo_position_id lop) = Some (lo_snapshot lop)"
    "pend_of s (lo_position_id lop) = None" "lo_op_type lop = UnlockOp" "lo_op_id lop = sk_op_counter s"
    "\<not> po_closed (lo_snapshot lop)" "lo_holder lop = po_holder (lo_snapshot lop)"
    "lo_amount lop = po_amount (lo_snapshot lop)" "lo_dedup_key lop = None"
  shows "can_open s lop"
proof -
  have "position_ok s (lo_position_id lop) (lo_snapshot lop)"
    using assms(1,2) by (simp add: positions_ok_def positions_wf_def)
  then show ?thesis using assms by (simp add: can_open_def op_wf_def position_ok_def)
qed

lemma reply_state_ok:
  assumes ok: "state_ok s ans calls locks tk" and t: "t \<in> set locks"
    and fits: "reply_fits (ans (lt_op_id t)) reply"
    and st: "(lt_op_type t = LockOp \<and> stake_reply t reply s = Some (r, s'))
      \<or> (lt_op_type t = UnlockOp \<and> unstake_reply t reply s = Some (r', s'))"
  shows "state_ok s' ans calls (remove1 t locks) tk"
proof -
  note o = state_okD [OF ok]
  have d: "distinct (map lt_op_id locks)" using o(5) by (simp add: lock_calls_ok_def)
  note rl = remove1_locks [OF d, of t]
  obtain lop where lop: "op_of s (lt_op_id t) = Some lop" "t = turn_of (lt_token t) lop"
    using o(5) t unfolding lock_calls_ok_def turn_live_def by blast
  have ty: "lt_op_type t = lo_op_type lop" by (subst lop(2)) (simp add: turn_of_def)
  have eff: "s' = (case reply of LockConfirmed \<Rightarrow> op_settled lop True s | LockRefused _ \<Rightarrow> op_settled lop False s
    | LockCallRejected _ \<Rightarrow> s)"
    using st stake_reply_effect [of "lt_token t" lop reply s r s'] unstake_reply_effect [of "lt_token t" lop reply s r' s']
    unfolding lop(2) [symmetric] ty by blast
  show ?thesis
  proof (cases reply)
    case LockConfirmed
    then show ?thesis
      using settled_state_ok [OF ok lop(1), of True "remove1 t locks"] fits rl t eff by simp
  next
    case (LockRefused e)
    then show ?thesis
      using settled_state_ok [OF ok lop(1), of False "remove1 t locks"] fits rl t eff by simp
  next
    case (LockCallRejected e)
    then show ?thesis
      using ok eff fewer_locks [OF o(5) rl(1,2)] by (simp add: state_ok_def)
  qed
qed

lemma reconcile_state_ok:
  assumes ok: "state_ok s ans calls locks tk" and i: "op_id \<notin> lt_op_id ` set locks" and a: "judged_right (ans op_id) d"
    and rec: "reconcile_lock ctl op_id d s = Some (Inr u, s') \<or> reconcile_unlock ctl op_id d s = Some (Inr u, s')"
  shows "state_ok s' ans calls locks tk"
proof -
  note o = state_okD [OF ok]
  have "op_wf lop \<and> lo_op_id lop = op_id" if "op_of s op_id = Some lop" for lop
    using ops_wfD(1,3) [OF o(3) that] by blast
  from reconcile_Inr [OF rec this] obtain lop where lop: "op_of s op_id = Some lop" "s' = op_settled lop (decided d) s"
    by metis
  show ?thesis
    unfolding lop(2)
  proof (rule settled_state_ok [OF ok lop(1)])
    show "ans op_id \<noteq> None" "decided d \<longleftrightarrow> ans op_id = Some TokenExecuted"
      using a by (auto simp: judged_right_def decided_def split: option.splits token_answer.splits)
  qed (use i o(5) in \<open>simp_all add: lock_calls_ok_def\<close>)
qed

lemma reconciled_world:
  assumes ok: "staking_world_ok w" and rec: "reconcile_lock ctl op_id d (sw_state w) = Some (rc, s)
      \<or> reconcile_unlock ctl op_id d (sw_state w) = Some (rc, s)"
  shows "sw_raced (after_reconcile w op_id d rc s) \<or> sw_misjudged (after_reconcile w op_id d rc s)
    \<or> staking_world_ok (after_reconcile w op_id d rc s)"
proof (cases rc)
  case (Inl e)
  then have "s = sw_state w" using rec reconcile_Inl by blast
  then show ?thesis using ok Inl by (simp add: after_reconcile_def)
next
  case (Inr u)
  then show ?thesis
    using reconcile_state_ok [OF ok [unfolded staking_world_ok_def], of op_id d ctl u s] rec
    by (auto simp: after_reconcile_def staking_world_ok_def)
qed


theorem run_staking_ok:
  assumes run: "staking_run sha tid self w" and sha: "\<And>y. length (sha y) = 32"
  shows "sw_raced w \<or> sw_misjudged w \<or> staking_world_ok w"
  using run
proof induction
  case (sr_init n args s tk)
  note i = init_staking_Inr [OF sr_init(1) token_reach_time [OF sr_init(2) sha]]
  have "token_inv tk" using reach_inv [OF sr_init(2)] sha by simp
  then show ?case
    using i sr_init(4)
    by (simp add: staking_world_ok_def state_ok_def positions_ok_def positions_wf_def ops_wf_def keys_wf_def lock_calls_ok_def
        locks_ok_def held_by_def weight_ok_def weight_all_def staking_reads)
next
  case (sr_step w w')
  have mirror: "mirror_ok (sw_state w)" by (rule run_mirror_ok [OF sr_step.hyps(1) sha])
  show ?case
  proof (cases "sw_raced w \<or> sw_misjudged w")
    case True
    from sr_step.hyps(2) have "sw_raced w' \<or> sw_misjudged w'"
    proof cases
    qed (use True in \<open>auto simp: after_reconcile_def after_execution_def split: sum.splits stake_started.splits\<close>)
    then show ?thesis by blast
  next
    case False
    then have ok: "staking_world_ok w" using sr_step.IH by blast
    note I = ok [unfolded staking_world_ok_def]
    note o = state_okD [OF I]
    note same = same_positions_state_ok [OF _ I]
    have frame: "same_positions (sw_state w) s" if "keeps (same_positions (sw_state w)) m" "m (sw_state w) = Some (r, s)"
      for m :: "(staking, 'e, 'a) segment" and r s
      using keepsD [OF that] by simp
    from sr_step.hyps(2) show ?thesis
    proof cases
      case (ss_token n tk)
      have "token_inv tk" using token_step_ok [OF ss_token(2) o(8) sha] by (simp add: step_ok_def)
      then show ?thesis
        using I ss_token by (simp add: staking_world_ok_def state_ok_def locks_ok_def)
    next
      case (ss_stake holder amount lock_days key r s)
      show ?thesis
      proof (rule stake_start_cases [OF ss_stake(2) no_stale_key [OF o(4)] ss_stake(4)])
        assume "s = sw_state w" "\<forall>t. r \<noteq> Inr (StakeCalling t)"
        then show ?thesis using ok ss_stake(1) by (auto simp: staking_world_ok_def split: sum.splits stake_started.splits)
      next
        fix lop token
        assume st: "s = op_launched lop (sw_state w)" "r = Inr (StakeCalling (turn_of token lop))" "op_wf lop"
          "lo_op_type lop = LockOp" "lo_op_id lop = sk_op_counter (sw_state w)"
          "lo_position_id lop = sk_next_position_id (sw_state w)" "key_of (sw_state w) (op_dedup lop) = None"
        then have "can_open (sw_state w) lop" by (simp add: can_open_def)
        from launched_state_ok [OF I this, of token] show ?thesis
          using st(1,2) ss_stake(1) by (simp add: staking_world_ok_def)
      qed
    next
      case (ss_unstake holder pid r s)
      show ?thesis
      proof (cases r)
        case (Inl e)
        then show ?thesis using unstake_start_Inl ss_unstake ok by (fastforce simp: staking_world_ok_def)
      next
        case (Inr t)
        show ?thesis
        proof (rule unstake_start_Inr [OF ss_unstake(2) [unfolded Inr] ss_unstake(3)])
          fix lop token
          assume st: "s = op_launched lop (sw_state w)" "t = turn_of token lop" "lo_op_type lop = UnlockOp"
            "lo_op_id lop = sk_op_counter (sw_state w)" "lo_position_id lop = pid"
            "pos_of (sw_state w) pid = Some (lo_snapshot lop)" "pend_of (sw_state w) pid = None"
            "\<not> po_closed (lo_snapshot lop)" "lo_holder lop = po_holder (lo_snapshot lop)"
            "lo_amount lop = po_amount (lo_snapshot lop)" "lo_dedup_key lop = None"
          have "can_open (sw_state w) lop"
            by (rule unstake_can_open [OF o(1)]) (use st in simp_all)
          from launched_state_ok [OF I this, of token] show ?thesis
            using st(1,2) Inr ss_unstake(1) by (simp add: staking_world_ok_def)
        qed
      qed
    next
      case (ss_deliver t a tk)
      have "state_ok (sw_state w) ((sw_answer w)(lt_op_id t \<mapsto> a)) (sw_calls w) (sw_locks w) tk"
        by (rule answered_state_ok [where self = self, OF I ss_deliver(2,3)]) (use ss_deliver(4) in simp)
      then show ?thesis using ss_deliver(1) by (simp add: staking_world_ok_def)
    next
      case (ss_drop t)
      have "state_ok (sw_state w) ((sw_answer w)(lt_op_id t \<mapsto> TokenNever)) (sw_calls w) (sw_locks w) (sw_token w)"
        by (rule answered_state_ok [OF I ss_drop(2,3)]) simp
      then show ?thesis using ss_drop(1) by (simp add: staking_world_ok_def)
    next
      case (ss_stake_reply t reply r s)
      then show ?thesis
        using reply_state_ok [OF I ss_stake_reply(2,4)] ss_stake_reply(3,5) by (auto simp: staking_world_ok_def)
    next
      case (ss_unstake_reply t reply ru s)
      then show ?thesis
        using reply_state_ok [OF I ss_unstake_reply(2,4)] ss_unstake_reply(3,5) by (auto simp: staking_world_ok_def)
    next
      case (ss_lost t)
      have d: "distinct (map lt_op_id (sw_locks w))" using o(5) by (simp add: lock_calls_ok_def)
      show ?thesis
        using I fewer_locks [OF o(5) remove1_locks(1,2) [OF d]] ss_lost(1) by (simp add: staking_world_ok_def state_ok_def)
    next
      case (ss_reconcile_lock ctl op_id d rc s)
      then show ?thesis using reconciled_world [OF ok] by blast
    next
      case (ss_reconcile_unlock ctl op_id d rc s)
      then show ?thesis using reconciled_world [OF ok] by blast
    next
      case (ss_claim holder pid rn s)
      then show ?thesis using claim_rewards_keeps [OF ss_claim(2)] ok by (simp add: staking_world_ok_def)
    next
      case (ss_revenue caller amount rc s)
      then show ?thesis using same [OF frame [OF frame.keeps_revenue]] by (simp add: staking_world_ok_def)
    next
      case (ss_create proposer ptype description rn s)
      then show ?thesis using same [OF frame [OF frame.keeps_create]] by (simp add: staking_world_ok_def)
    next
      case (ss_vote voter pid approve ru s)
      then show ?thesis using same [OF frame [OF frame.keeps_vote]] by (simp add: staking_world_ok_def)
    next
      case (ss_execute pid re s)
      then show ?thesis
        using same [OF frame [OF frame.keeps_execute]] by (simp add: staking_world_ok_def after_execution_def)
    next
      case (ss_pool_reply t pool call preply re s)
      then show ?thesis
        using same [OF frame [OF frame.keeps_reply]] by (simp add: staking_world_ok_def after_execution_def)
    next
      case (ss_reconcile_stuck ctl pid decision rs s)
      then show ?thesis using same [OF frame [OF frame.keeps_stuck]] by (simp add: staking_world_ok_def)
    next
      case (ss_upgrade s)
      then have "s = sw_state w" using upgrade_identity [OF mirror] by simp
      then show ?thesis
        using I fewer_locks [OF o(5), of "[]"] ss_upgrade(1) by (simp add: staking_world_ok_def state_ok_def)
    qed (use ok in \<open>simp_all add: staking_world_ok_def\<close>)
  qed
qed

end
