(* ===== verification/Staking_Execution.thy ===== *)
theory Staking_Execution
  imports Staking_World
begin

text \<open>
  Governance over a run, whatever the operators do: the action of a proposal begins at most once, only after the
  timelock of its type and with the quorum and the approval the parameters in force ask for, and the tallies
  under which it began are the tallies the record keeps. Every operation but \<open>create_proposal\<close>, \<open>vote\<close> and the
  beginning of an execution keeps every record's ballot and whether it has started (\<open>row_kept\<close>).
\<close>

section \<open>Records\<close>

definition record_of :: "staking \<Rightarrow> nat \<Rightarrow> proposal option" where
  "record_of s pid = fmlookup (sk_proposals s) pid"

definition started :: "proposal \<Rightarrow> bool" where
  "started q \<longleftrightarrow> pr_status q = Executing \<or> pr_executed_at_ns q \<noteq> None"

text \<open>What neither an execution nor a reconciliation changes.\<close>

definition same_ballot :: "proposal \<Rightarrow> proposal \<Rightarrow> bool" where
  "same_ballot p q \<longleftrightarrow> pr_id q = pr_id p \<and> pr_proposal_type q = pr_proposal_type p
     \<and> pr_created_at_ns q = pr_created_at_ns p \<and> pr_voting_opens_ns q = pr_voting_opens_ns p
     \<and> pr_voting_closes_ns q = pr_voting_closes_ns p \<and> pr_execute_after_ns q = pr_execute_after_ns p
     \<and> pr_votes_for q = pr_votes_for p \<and> pr_votes_against q = pr_votes_against p
     \<and> pr_snapshot_total_weight q = pr_snapshot_total_weight p"

lemma same_ballot_refl [simp]: "same_ballot p p"
  by (simp add: same_ballot_def)

lemma same_ballot_trans: "same_ballot p q \<Longrightarrow> same_ballot q r \<Longrightarrow> same_ballot p r"
  by (simp add: same_ballot_def)

lemma same_ballot_updates [simp]:
  "same_ballot p (q\<lparr> pr_status := st \<rparr>) = same_ballot p q"
  "same_ballot p (q\<lparr> pr_executed_at_ns := a \<rparr>) = same_ballot p q"
  "same_ballot p (q\<lparr> pr_execution_result := txt \<rparr>) = same_ballot p q"
  "same_ballot p (q\<lparr> pr_execution_started_at_ns := n \<rparr>) = same_ballot p q"
  "same_ballot (p\<lparr> pr_status := st \<rparr>) q = same_ballot p q"
  "same_ballot (p\<lparr> pr_execution_started_at_ns := n \<rparr>) q = same_ballot p q"
  by (simp_all add: same_ballot_def)

lemma record_of_put [simp]: "record_of (put_proposal pid q s) x = (if x = pid then Some q else record_of s x)"
  by (simp add: record_of_def put_proposal_def)

definition row_kept :: "staking \<Rightarrow> staking \<Rightarrow> nat \<Rightarrow> bool" where
  "row_kept s s' x \<longleftrightarrow> (case record_of s x of None \<Rightarrow> record_of s' x = None
     | Some q \<Rightarrow> \<exists>q'. record_of s' x = Some q' \<and> same_ballot q q' \<and> started q' = started q)"

definition same_votes :: "staking \<Rightarrow> staking \<Rightarrow> bool" where
  "same_votes s s' \<longleftrightarrow> sk_votes s' = sk_votes s \<and> sk_snapshots s' = sk_snapshots s
     \<and> sk_next_proposal_id s' = sk_next_proposal_id s"

definition same_props :: "staking \<Rightarrow> staking \<Rightarrow> bool" where
  "same_props s s' \<longleftrightarrow> same_votes s s' \<and> sk_proposals s' = sk_proposals s"

lemma same_props_rows: "same_props s s' \<Longrightarrow> row_kept s s' x"
  by (auto simp: same_props_def row_kept_def record_of_def split: option.splits)

lemma same_governance_props: "same_governance s s' \<Longrightarrow> same_props s s'"
  by (simp add: same_governance_def same_props_def same_votes_def)

lemma same_props_refl [simp]: "same_props s s" "same_votes s s"
  by (simp_all add: same_props_def same_votes_def)

lemma same_props_put [simp]: "same_votes s (put_proposal pid q s') = same_votes s s'"
  by (simp add: same_votes_def put_proposal_def)

interpretation props_frame: action_writes "same_props s0" for s0
  by unfold_locales (simp_all add: same_props_def same_votes_def mutate_reward_state_def set_reward_state_def
      set_gov_params_def)

lemma row_kept_refl [simp]: "row_kept s s x"
  by (simp add: row_kept_def split: option.splits)

lemma row_kept_put:
  assumes "record_of s pid = Some q" "same_ballot q q'" "started q' = started q" "same_props s s'"
  shows "row_kept s (put_proposal pid q' s') x"
  using assms(1-3) same_props_rows [OF assms(4), of x] by (cases "x = pid") (simp_all add: row_kept_def split: option.splits)

section \<open>Executing\<close>

lemma execution_checks_Inl: "execution_checks now pid s = Some (Inl e, s') \<Longrightarrow> s' = s"
  by (auto simp: execution_checks_def find_proposal_def mul_u128_def result_simps Let_def
      split: if_splits option.splits)

lemma execution_checks_Inr:
  assumes "execution_checks now pid s = Some (Inr (p, quorum, approved), s')"
  obtains n where "s' = s" "record_of s pid = Some p" "\<not> started p"
    "pr_execute_after_ns p \<le> now" "pr_snapshot_total_weight p = Some n" "0 < n"
    "quorum \<longleftrightarrow> n * type_quorum_bps (pr_proposal_type p) (sk_gov_params s)
       \<le> (pr_votes_for p + pr_votes_against p) * 10000"
    "approved \<longleftrightarrow> (pr_votes_for p + pr_votes_against p) * gv_approval_threshold_bps (sk_gov_params s)
       \<le> pr_votes_for p * 10000"
  using assms
  by (auto simp: execution_checks_def find_proposal_def mul_u128_def result_simps Let_def record_of_def started_def
      checked_add_def checked_mul_def split: if_splits option.splits)

definition exec_running :: "execution_turn \<Rightarrow> staking \<Rightarrow> bool" where
  "exec_running t s \<longleftrightarrow> (\<exists>q. record_of s (xt_proposal_id t) = Some q \<and> started q \<and> same_ballot q (xt_proposal t))"

lemma continue_execution_effect:
  assumes "continue_execution t step s = Some (r, s')" "exec_running t s"
  shows "row_kept s s' x" "same_votes s s'" "\<forall>t' pool call. r = Inr (ExecutionCalling t' pool call) \<longrightarrow> t' = t"
proof -
  obtain q where q: "record_of s (xt_proposal_id t) = Some q" "started q" "same_ballot q (xt_proposal t)"
    using assms(2) unfolding exec_running_def by blast
  have fin: "row_kept s s' x \<and> same_votes s s' \<and> (\<forall>t' pool call. r \<noteq> Inr (ExecutionCalling t' pool call))"
    if fin: "finish_execution t result s = Some (r, s')" for result
  proof -
    obtain q' where s': "s' = put_proposal (xt_proposal_id t) q' s" "same_ballot q q'" "started q'"
      and r: "\<forall>t' pool call. r \<noteq> Inr (ExecutionCalling t' pool call)"
      using fin q(3) by (cases result) (auto simp: finish_execution_def started_def)
    then show ?thesis using row_kept_put [OF q(1) s'(2), of s x] q(2) by simp
  qed
  show "row_kept s s' x" "same_votes s s'" "\<forall>t' pool call. r = Inr (ExecutionCalling t' pool call) \<longrightarrow> t' = t"
    using assms(1) fin by (cases step; auto simp: continue_execution_def)+
qed

lemma check_error_not_action:
  "execution_checks now pid s = Some (Inl e, u) \<Longrightarrow> \<not> action_began (Inl e)"
  by (auto simp: execution_checks_def find_proposal_def mul_u128_def result_simps Let_def
      split: if_splits option.splits)

lemma action_start_no_error: "action_start ptype u \<noteq> Some (Inl e, v)"
  by (auto simp: action_start_def result_simps Let_def split: proposal_type.splits if_splits option.splits sum.splits fault.splits)

lemma continue_execution_began: "continue_execution t step v = Some (r, s') \<Longrightarrow> action_began r"
  by (cases step) (auto simp: continue_execution_def finish_execution_def split: sum.splits)

lemma execute_effect:
  assumes ex: "execute_proposal now pid s = Some (r, s')"
  obtains (refused) "\<not> action_began r" "\<forall>t pool call. r \<noteq> Inr (ExecutionCalling t pool call)"
      "\<forall>x. row_kept s s' x" "same_votes s s'"
  | (begins) p n q where "action_began r" "record_of s pid = Some p" "\<not> started p"
      "pr_execute_after_ns p \<le> now" "pr_snapshot_total_weight p = Some n" "0 < n"
      "n * type_quorum_bps (pr_proposal_type p) (sk_gov_params s) \<le> (pr_votes_for p + pr_votes_against p) * 10000"
      "(pr_votes_for p + pr_votes_against p) * gv_approval_threshold_bps (sk_gov_params s) \<le> pr_votes_for p * 10000"
      "record_of s' pid = Some q" "same_ballot p q" "started q" "\<forall>x. x \<noteq> pid \<longrightarrow> row_kept s s' x" "same_votes s s'"
      "\<forall>t pool call. r = Inr (ExecutionCalling t pool call) \<longrightarrow> xt_proposal_id t = pid \<and> same_ballot p (xt_proposal t)"
proof (cases "execution_checks now pid s")
  case None
  then show thesis using ex by (simp add: execute_proposal_def bind_act_def)
next
  case (Some res)
  obtain c u where c: "execution_checks now pid s = Some (c, u)" using Some by (cases res) simp
  show thesis
  proof (cases c)
    case (Inl e)
    then have "u = s" using execution_checks_Inl c by blast
    then have "r = Inl e \<and> s' = s" using ex c Inl by (auto simp: execute_proposal_def bind_act_def)
    then show thesis using refused check_error_not_action c Inl by auto
  next
    case (Inr pqa)
    obtain p quorum approved where pqa: "pqa = (p, quorum, approved)" by (cases pqa)
    note c = c [unfolded Inr pqa]
    from execution_checks_Inr [OF c] obtain n where n: "u = s" "record_of s pid = Some p" "\<not> started p"
      "pr_execute_after_ns p \<le> now" "pr_snapshot_total_weight p = Some n" "0 < n"
      "quorum \<longleftrightarrow> n * type_quorum_bps (pr_proposal_type p) (sk_gov_params s)
         \<le> (pr_votes_for p + pr_votes_against p) * 10000"
      "approved \<longleftrightarrow> (pr_votes_for p + pr_votes_against p) * gv_approval_threshold_bps (sk_gov_params s)
         \<le> pr_votes_for p * 10000"
      by metis
    note c = c [unfolded n(1)]
    have not_calling: "\<forall>t pool call. r \<noteq> Inr (ExecutionCalling t pool call)" if "\<not> action_began r"
      using that by auto
    show thesis
    proof (cases "quorum \<and> approved")
      case False
      then obtain q' where q': "s' = put_proposal pid q' s" "same_ballot p q'" "\<not> started q'"
        and r: "\<not> action_began r"
        using ex n(3) by (cases quorum) (auto simp: execute_proposal_def bind_step [where m = "execution_checks now pid", OF c] started_def)
      then show thesis
        using refused False row_kept_put [OF n(2) q'(2), of s] n(3) not_calling by auto
    next
      case True
      let ?p = "p\<lparr> pr_status := Executing, pr_execution_started_at_ns := Some now \<rparr>"
      let ?t = "\<lparr> xt_proposal_id = pid, xt_proposal = ?p, xt_now = now \<rparr>" and ?u = "put_proposal pid ?p s"
      have "bind_act (action_start (pr_proposal_type p)) (\<lambda>step. continue_execution ?t step) ?u = Some (r, s')"
        using ex True by (simp add: execute_proposal_def bind_step [where m = "execution_checks now pid", OF c] Let_def)
      then obtain a v where a: "action_start (pr_proposal_type p) ?u = Some (a, v)"
        and k: "case a of Inl e \<Rightarrow> r = Inl e \<and> s' = v | Inr step \<Rightarrow> continue_execution ?t step v = Some (r, s')"
        by (auto simp: bind_act_def split: option.splits sum.splits)
      have began: "action_began r"
        using a k action_start_no_error continue_execution_began by (cases a) auto
      have same: "same_props ?u v"
        using keepsD [OF props_frame.keeps_action a, of ?u] by simp
      have vq: "record_of v pid = Some ?p" "started ?p"
        using same by (auto simp: same_props_def record_of_def put_proposal_def started_def)
      then have run: "exec_running ?t v" by (simp add: exec_running_def)
      have "row_kept v s' x \<and> same_votes v s' \<and> (\<forall>t pool call. r = Inr (ExecutionCalling t pool call) \<longrightarrow> t = ?t)" for x
        using k continue_execution_effect [OF _ run, of _ r s'] by (cases a) auto
      then have rows: "row_kept v s' x" and sv: "same_votes v s'"
        and t: "r = Inr (ExecutionCalling t pool call) \<Longrightarrow> t = ?t" for x t pool call
        by blast+
      obtain q where q: "record_of s' pid = Some q" "same_ballot ?p q" "started q"
        using rows [of pid] vq by (auto simp: row_kept_def)
      have others: "row_kept s s' x" if "x \<noteq> pid" for x
        using rows [of x] that same by (simp add: row_kept_def same_props_def record_of_def put_proposal_def)
      have votes: "same_votes s s'"
        using sv same by (simp add: same_props_def same_votes_def put_proposal_def)
      have same_q: "same_ballot p q" using q(2) by simp
      have calling: "\<forall>t pool call. r = Inr (ExecutionCalling t pool call)
          \<longrightarrow> xt_proposal_id t = pid \<and> same_ballot p (xt_proposal t)"
        using t by auto
      have "quorum" "approved" using True by simp_all
      then show thesis
        by (intro begins [OF _ n(2-6) _ _ q(1) same_q q(3) _ votes calling])
          (use began n(7,8) others in simp_all)
    qed
  qed
qed


lemma execution_reply_effect:
  assumes "execution_reply t pool call reply s = Some (r, s')" "exec_running t s"
  shows "row_kept s s' x" "same_votes s s'" "\<forall>t' pool call. r = Inr (ExecutionCalling t' pool call) \<longrightarrow> t' = t"
  using continue_execution_effect assms unfolding execution_reply_def by blast+

lemma reconcile_stuck_effect:
  assumes "reconcile_stuck_proposal now ctl pid d s = Some (r, s')"
  shows "row_kept s s' x" "same_votes s s'"
proof -
  have "s' = s \<or> (\<exists>p q. record_of s pid = Some p \<and> s' = put_proposal pid q s \<and> same_ballot p q \<and> started p \<and> started q)"
  proof (cases "ctl \<and> record_of s pid \<noteq> None")
    case True
    then obtain p where p: "record_of s pid = Some p" by blast
    then show ?thesis
      using assms True
      by (auto simp: reconcile_stuck_proposal_def bind_need record_of_def decide_reconcile_def Let_def started_def
          split: if_splits option.splits)
  next
    case False
    then show ?thesis
      using assms by (cases ctl) (auto simp: reconcile_stuck_proposal_def bind_need record_of_def)
  qed
  then show "row_kept s s' x" "same_votes s s'"
    using row_kept_put [of s pid _ _ s x] by auto
qed

lemma revenue_effect: "receive_fee_revenue caller amount s = Some (r, s') \<Longrightarrow> same_props s s'"
  by (auto simp: receive_fee_revenue_def same_props_def same_votes_def mutate_reward_state_def set_reward_state_def
      split: if_splits)

section \<open>Creating and voting\<close>

definition new_proposal :: "nat \<Rightarrow> principal \<Rightarrow> proposal_type \<Rightarrow> string \<Rightarrow> nat \<Rightarrow> governance_params \<Rightarrow> nat \<Rightarrow> proposal" where
  "new_proposal now proposer ptype description pid params n =
    (let opens = now + gv_voting_delay_ns params; closes = opens + gv_voting_period_ns params in
     \<lparr> pr_id = pid, pr_proposer = proposer, pr_proposal_type = ptype, pr_description = description,
       pr_status = VotingPending, pr_created_at_ns = now, pr_voting_opens_ns = opens,
       pr_voting_closes_ns = closes, pr_execute_after_ns = closes + type_timelock_ns ptype params,
       pr_votes_for = 0, pr_votes_against = 0, pr_snapshot_total_weight = Some n,
       pr_executed_at_ns = None, pr_execution_result = None, pr_execution_started_at_ns = None \<rparr>)"

definition with_rows :: "nat \<Rightarrow> (snapshot_key, snapshot_entry) fmap \<Rightarrow> staking \<Rightarrow> staking" where
  "with_rows pid rows s = s\<lparr> sk_next_proposal_cell := Some [pid + 1], sk_next_proposal_id := pid + 1,
     sk_snapshots := rows \<rparr>"

lemma bind_find: "bind_act (find_proposal pid) f s =
    (case record_of s pid of None \<Rightarrow> Some (Inl GovProposalNotFound, s) | Some p \<Rightarrow> f p s)"
  by (cases "record_of s pid") (simp_all add: find_proposal_def bind_act_def record_of_def)

lemma bind_alloc: "bind_act alloc_governance_id f s =
    (let i = sk_next_proposal_id s in
     if i + 1 < u64_limit then f i (s\<lparr> sk_next_proposal_cell := Some [i + 1], sk_next_proposal_id := i + 1 \<rparr>) else None)"
  by (simp add: alloc_governance_id_def bind_act_def bump_stake_counter_def checked_add_def Let_def)

lemma sum_u128_keeps: "sum_u128 ns s = Some (r, s') \<Longrightarrow> s' = s"
  using keepsD [OF keeps_sum_u128, of ns s r s' "\<lambda>u. u = s"] by simp

lemma create_effect:
  assumes cr: "create_proposal now proposer ptype description s = Some (r, s')"
  obtains (refused) e where "s' = s" "r = Inl e"
  | (opened) closes rows n where "closes = now + gv_voting_delay_ns (sk_gov_params s) + gv_voting_period_ns (sk_gov_params s)"
      "params_ok (sk_gov_params s)" "sk_next_proposal_id s + 1 < u64_limit"
      "snapshot_loop (sk_next_proposal_id s) (eligible_positions closes s) (sk_snapshots s, 0) = (rows, n)"
      "n = 0 \<and> s' = with_rows (sk_next_proposal_id s) rows s
       \<or> n \<noteq> 0 \<and> s' = put_proposal (sk_next_proposal_id s) (new_proposal now proposer ptype description
            (sk_next_proposal_id s) (sk_gov_params s) n) (with_rows (sk_next_proposal_id s) rows s)"
proof -
  let ?P = "sk_gov_params s" and ?i = "sk_next_proposal_id s"
  let ?closes = "now + gv_voting_delay_ns ?P + gv_voting_period_ns ?P"
  have early: thesis if "s' = s" "\<exists>e. r = Inl e" using that refused by blast
  show thesis
  proof (cases "payload_check now ptype")
    case (Inl f)
    then show thesis using cr early by (cases f) (auto simp: create_proposal_def bind_act_def)
  next
    case (Inr u)
    note pay = this
    show thesis
    proof (cases "validate_params ?P")
      case (Inl f)
      then show thesis using cr early pay by (cases f) (auto simp: create_proposal_def bind_act_def)
    next
      case (Inr u)
      obtain rows n where loop: "snapshot_loop ?i (eligible_positions ?closes s) (sk_snapshots s, 0) = (rows, n)"
        by fastforce
      have ok: "params_ok ?P" using Inr validate_params_iff by blast
      show thesis
      proof (cases "sum_u128 (map po_amount (filter (\<lambda>p. po_holder p = proposer) (eligible_positions ?closes s))) s")
        case None
        then show thesis using cr early pay Inr
          by (auto simp: create_proposal_def bind_need checked_add_def bind_act_def [of "sum_u128 _"]
              split: if_splits option.splits)
      next
        case (Some res)
        then obtain c where c: "sum_u128 (map po_amount (filter (\<lambda>p. po_holder p = proposer) (eligible_positions ?closes s))) s
            = Some (c, s)" using sum_u128_keeps by (cases res) blast
        then show thesis using cr early pay Inr loop opened [OF refl ok _ loop]
          by (auto simp: create_proposal_def bind_need bind_alloc checked_add_def bind_act_def [of "sum_u128 _"] Let_def
              with_rows_def new_proposal_def put_proposal_def split: if_splits option.splits sum.splits)
      qed
    qed
  qed
qed

lemma vote_effect:
  assumes "vote now voter pid approve s = Some (r, s')"
  obtains (refused) e where "s' = s" "r = Inl e"
  | (cast) p votes n where "record_of s pid = Some p" "now \<le> pr_voting_closes_ns p" "r = Inr ()"
      "cast_votes now pid voter approve (filter (\<lambda>(position_id, _).
         fmlookup (sk_votes s) (make_vote_key pid position_id) = None) (voter_entries pid voter s)) (sk_votes s, 0)
       = (votes, n)"
      "filter (\<lambda>(position_id, _). fmlookup (sk_votes s) (make_vote_key pid position_id) = None)
         (voter_entries pid voter s) \<noteq> []"
      "s' = put_proposal pid
        (if approve then p\<lparr> pr_votes_for := sat_add 128 (pr_votes_for p) n, pr_status := VotingOpen \<rparr>
         else p\<lparr> pr_votes_against := sat_add 128 (pr_votes_against p) n, pr_status := VotingOpen \<rparr>)
        (s\<lparr> sk_votes := votes \<rparr>)"
proof -
  obtain votes n where c: "cast_votes now pid voter approve (filter (\<lambda>(position_id, _).
         fmlookup (sk_votes s) (make_vote_key pid position_id) = None) (voter_entries pid voter s)) (sk_votes s, 0)
       = (votes, n)" by fastforce
  let ?us = "filter (\<lambda>(position_id, _). fmlookup (sk_votes s) (make_vote_key pid position_id) = None)
    (voter_entries pid voter s)"
  show thesis
  proof (cases "record_of s pid")
    case None
    then show thesis using assms refused by (auto simp: vote_def bind_find)
  next
    case (Some p)
    show thesis
    proof (cases "now < pr_voting_opens_ns p \<or> pr_voting_closes_ns p < now \<or> ?us = []")
      case True
      then have "s' = s \<and> (\<exists>e. r = Inl e)"
        using assms Some by (auto simp: vote_def bind_find Let_def split: if_splits)
      then show thesis using refused by blast
    next
      case False
      then have "voter_entries pid voter s \<noteq> []" by auto
      then have "r = Inr ()" "s' = put_proposal pid
        (if approve then p\<lparr> pr_votes_for := sat_add 128 (pr_votes_for p) n, pr_status := VotingOpen \<rparr>
         else p\<lparr> pr_votes_against := sat_add 128 (pr_votes_against p) n, pr_status := VotingOpen \<rparr>)
        (s\<lparr> sk_votes := votes \<rparr>)"
        using assms Some c False by (simp_all add: vote_def bind_find Let_def)
      then show thesis using False cast [OF Some _ _ c] by simp
    qed
  qed
qed

section \<open>The invariant of a run\<close>

definition min_timelock :: "proposal_type \<Rightarrow> nat" where
  "min_timelock ptype = (case ptype of
     VerifierKeyUpgrade _ \<Rightarrow> VK_UPGRADE_MIN_TIMELOCK_NS | _ \<Rightarrow> STAKING_EXECUTION_TIMELOCK_NS)"

definition proposal_ok :: "staking \<Rightarrow> nat \<Rightarrow> proposal \<Rightarrow> bool" where
  "proposal_ok s pid q \<longleftrightarrow> pr_id q = pid \<and> pid < sk_next_proposal_id s
     \<and> pr_created_at_ns q \<le> pr_voting_opens_ns q \<and> pr_voting_opens_ns q < pr_voting_closes_ns q
     \<and> pr_voting_closes_ns q + min_timelock (pr_proposal_type q) \<le> pr_execute_after_ns q"

text \<open>What held when an action began, over the record \<open>p\<close> and the parameters it was judged by.\<close>

definition passed_checks :: "nat \<Rightarrow> proposal \<Rightarrow> governance_params \<Rightarrow> bool" where
  "passed_checks n p params \<longleftrightarrow> pr_execute_after_ns p \<le> n \<and>
     (\<exists>weight. pr_snapshot_total_weight p = Some weight \<and> 0 < weight
        \<and> weight * type_quorum_bps (pr_proposal_type p) params \<le> (pr_votes_for p + pr_votes_against p) * 10000)
     \<and> (pr_votes_for p + pr_votes_against p) * gv_approval_threshold_bps params \<le> pr_votes_for p * 10000"

definition begun_ok :: "nat \<Rightarrow> staking \<Rightarrow> nat \<times> nat \<times> proposal \<times> governance_params \<Rightarrow> bool" where
  "begun_ok now s b = (case b of (pid, n, p, params) \<Rightarrow>
     n \<le> now \<and> passed_checks n p params \<and> params_ok params
     \<and> (\<exists>q. record_of s pid = Some q \<and> started q \<and> same_ballot p q))"

definition gov_ok :: "nat \<Rightarrow> staking \<Rightarrow> (execution_turn \<times> principal \<times> pool_call) list
    \<Rightarrow> (nat \<times> nat \<times> proposal \<times> governance_params) list \<Rightarrow> bool" where
  "gov_ok now s execs begun \<longleftrightarrow>
     (\<forall>pid q. record_of s pid = Some q \<longrightarrow> proposal_ok s pid q \<and> (started q \<longrightarrow> pid \<in> fst ` set begun))
     \<and> (\<forall>b \<in> set begun. begun_ok now s b) \<and> (\<forall>x \<in> set execs. exec_running (fst x) s)
     \<and> distinct (map fst begun)"

lemma min_timelock_pos: "0 < min_timelock ptype"
  by (simp add: min_timelock_def timelock_consts split: proposal_type.splits)

lemma type_timelock_floor: "params_ok params \<Longrightarrow> min_timelock ptype \<le> type_timelock_ns ptype params"
  by (cases ptype) (simp_all add: min_timelock_def params_ok_def)

lemma row_keptD: "row_kept s s' x \<Longrightarrow> record_of s x = Some q \<Longrightarrow>
    \<exists>q'. record_of s' x = Some q' \<and> same_ballot q q' \<and> started q' = started q"
  by (simp add: row_kept_def)

lemma row_kept_inv: "row_kept s s' x \<Longrightarrow> record_of s' x = Some q' \<Longrightarrow>
    \<exists>q. record_of s x = Some q \<and> same_ballot q q' \<and> started q' = started q"
  by (auto simp: row_kept_def split: option.splits)

lemma same_ballot_sym: "same_ballot p q \<Longrightarrow> same_ballot q p"
  by (simp add: same_ballot_def)

lemma proposal_ok_kept:
  "proposal_ok s pid q \<Longrightarrow> same_ballot q q' \<Longrightarrow> sk_next_proposal_id s \<le> sk_next_proposal_id s' \<Longrightarrow> proposal_ok s' pid q'"
  by (simp add: proposal_ok_def same_ballot_def)

lemma begun_ok_kept:
  assumes "begun_ok now s b" "row_kept s s' (fst b)" "now \<le> now'"
  shows "begun_ok now' s' b"
proof -
  obtain pid n p params where b: "b = (pid, n, p, params)" by (cases b)
  then obtain q where q: "record_of s pid = Some q" "started q" "same_ballot p q"
    using assms(1) by (auto simp: begun_ok_def)
  from row_keptD [OF assms(2) [unfolded b fst_conv] q(1)] q(2,3) same_ballot_trans
  have "\<exists>q'. record_of s' pid = Some q' \<and> started q' \<and> same_ballot p q'" by blast
  then show ?thesis using assms(1,3) by (simp add: begun_ok_def b)
qed

lemma exec_running_kept: "exec_running t s \<Longrightarrow> row_kept s s' (xt_proposal_id t) \<Longrightarrow> exec_running t s'"
  unfolding exec_running_def by (meson row_keptD same_ballot_sym same_ballot_trans)

lemma rows_gov_ok:
  assumes ok: "gov_ok now s execs begun" and rows: "\<And>x. row_kept s s' x" and "same_votes s s'" "now \<le> now'"
    and sub: "\<And>x. x \<in> set execs' \<Longrightarrow> exec_running (fst x) s \<or> x \<in> set execs"
  shows "gov_ok now' s' execs' begun"
proof -
  have next_id: "sk_next_proposal_id s' = sk_next_proposal_id s" using assms(3) by (simp add: same_votes_def)
  have "proposal_ok s' pid q \<and> (started q \<longrightarrow> pid \<in> fst ` set begun)" if "record_of s' pid = Some q" for pid q
  proof -
    obtain q0 where "record_of s pid = Some q0" "same_ballot q0 q" "started q = started q0"
      using row_kept_inv [OF rows \<open>record_of s' pid = Some q\<close>] by blast
    then show ?thesis using ok proposal_ok_kept [of s pid q0 q s'] next_id unfolding gov_ok_def by simp
  qed
  moreover have "exec_running (fst x) s'" if "x \<in> set execs'" for x
    using exec_running_kept [OF _ rows] sub [OF that] ok unfolding gov_ok_def by blast
  ultimately show ?thesis
    using ok begun_ok_kept [OF _ rows assms(4)] unfolding gov_ok_def by blast
qed

lemma begun_running:
  assumes "gov_ok now s execs begun" "pid \<in> fst ` set begun"
  obtains q where "record_of s pid = Some q" "started q" "pr_execute_after_ns q \<le> now" "pr_voting_closes_ns q < now"
proof -
  obtain n p params where "begun_ok now s (pid, n, p, params)" using assms by (fastforce simp: gov_ok_def)
  then obtain q where q: "record_of s pid = Some q" "started q" "same_ballot p q" "pr_execute_after_ns p \<le> now"
    by (auto simp: begun_ok_def passed_checks_def)
  then have "proposal_ok s pid q" using assms(1) by (simp add: gov_ok_def)
  then show thesis
    using that [of q] q min_timelock_pos [of "pr_proposal_type q"] by (simp add: proposal_ok_def same_ballot_def)
qed

lemma execute_gov_ok:
  assumes ok: "gov_ok now s execs begun" and params: "params_ok (sk_gov_params s)"
    and ex: "execute_proposal now pid s = Some (r, s')"
    and execs': "\<And>x. x \<in> set execs' \<Longrightarrow> x \<in> set execs \<or> r = Inr (ExecutionCalling (fst x) (fst (snd x)) (snd (snd x)))"
  shows "gov_ok now s' execs' (log_execution now pid s r begun)"
proof (rule execute_effect [OF ex])
  assume "\<not> action_began r" "\<forall>t pool call. r \<noteq> Inr (ExecutionCalling t pool call)"
    "\<forall>x. row_kept s s' x" "same_votes s s'"
  then show ?thesis using rows_gov_ok [OF ok, of s' now execs'] execs' by (auto simp: log_execution_def)
next
  fix p n q
  assume b: "action_began r" "record_of s pid = Some p" "\<not> started p"
    "pr_execute_after_ns p \<le> now" "pr_snapshot_total_weight p = Some n" "0 < n"
    "n * type_quorum_bps (pr_proposal_type p) (sk_gov_params s) \<le> (pr_votes_for p + pr_votes_against p) * 10000"
    "(pr_votes_for p + pr_votes_against p) * gv_approval_threshold_bps (sk_gov_params s) \<le> pr_votes_for p * 10000"
    and q: "record_of s' pid = Some q" "same_ballot p q" "started q"
    and rows: "\<forall>x. x \<noteq> pid \<longrightarrow> row_kept s s' x" and votes: "same_votes s s'"
    and t: "\<forall>t pool call. r = Inr (ExecutionCalling t pool call) \<longrightarrow> xt_proposal_id t = pid \<and> same_ballot p (xt_proposal t)"
  let ?begun = "(pid, now, p, sk_gov_params s) # begun"
  have log: "log_execution now pid s r begun = ?begun" using b(1,2) by (simp add: log_execution_def record_of_def)
  have new: "pid \<notin> fst ` set begun" using begun_running [OF ok, of pid] b(2,3) by (metis option.inject)
  have next_id: "sk_next_proposal_id s' = sk_next_proposal_id s" using votes by (simp add: same_votes_def)
  have "proposal_ok s' x q' \<and> (started q' \<longrightarrow> x \<in> fst ` set ?begun)" if "record_of s' x = Some q'" for x q'
  proof (cases "x = pid")
    case True
    then show ?thesis
      using ok b(2) q that proposal_ok_kept [of s pid p q' s'] next_id unfolding gov_ok_def by simp
  next
    case False
    obtain q0 where "record_of s x = Some q0" "same_ballot q0 q'" "started q' = started q0"
      using row_kept_inv [OF rows [rule_format, OF False] \<open>record_of s' x = Some q'\<close>] by blast
    then show ?thesis using ok proposal_ok_kept [of s x q0 q' s'] next_id unfolding gov_ok_def by simp
  qed
  moreover have "begun_ok now s' x" if "x \<in> set ?begun" for x
  proof (cases "x \<in> set begun")
    case True
    then have "fst x \<noteq> pid" "begun_ok now s x" using new ok by (auto simp: gov_ok_def)
    then show ?thesis using begun_ok_kept [of now s x s' now] rows by simp
  next
    case False
    then have "x = (pid, now, p, sk_gov_params s)" using that by simp
    then show ?thesis using b q params by (auto simp: begun_ok_def passed_checks_def)
  qed
  moreover have "exec_running (fst x) s'" if "x \<in> set execs'" for x
    using execs' [OF that]
  proof
    assume "x \<in> set execs"
    then have run: "exec_running (fst x) s" using ok by (simp add: gov_ok_def)
    then have "xt_proposal_id (fst x) \<noteq> pid" using b(2,3) by (auto simp: exec_running_def)
    then show ?thesis using exec_running_kept [OF run] rows by blast
  next
    assume "r = Inr (ExecutionCalling (fst x) (fst (snd x)) (snd (snd x)))"
    then have "xt_proposal_id (fst x) = pid" "same_ballot p (xt_proposal (fst x))" using t by blast+
    then show ?thesis
      using q same_ballot_trans [OF same_ballot_sym [OF q(2)]] by (auto simp: exec_running_def)
  qed
  ultimately show ?thesis
    using ok new by (simp add: gov_ok_def log)
qed

lemma vote_gov_ok:
  assumes ok: "gov_ok now s execs begun" and v: "vote now voter pid approve s = Some (r, s')"
  shows "gov_ok now s' execs begun"
proof (rule vote_effect [OF v])
  fix p votes n
  assume p: "record_of s pid = Some p" "now \<le> pr_voting_closes_ns p"
    and s': "s' = put_proposal pid
        (if approve then p\<lparr> pr_votes_for := sat_add 128 (pr_votes_for p) n, pr_status := VotingOpen \<rparr>
         else p\<lparr> pr_votes_against := sat_add 128 (pr_votes_against p) n, pr_status := VotingOpen \<rparr>)
        (s\<lparr> sk_votes := votes \<rparr>)"
  then obtain q where s': "s' = put_proposal pid q (s\<lparr> sk_votes := votes \<rparr>)" "proposal_ok s pid p \<longrightarrow> proposal_ok s' pid q"
    "started q \<longrightarrow> started p"
    by (cases approve) (auto simp: proposal_ok_def started_def put_proposal_def)
  have new: "pid \<notin> fst ` set begun" using begun_running [OF ok, of pid] p by (metis leD option.inject)
  have fresh: "\<not> started p" using ok p(1) new by (auto simp: gov_ok_def)
  have rows: "row_kept s s' x" if "x \<noteq> pid" for x
    using that s'(1) by (simp add: row_kept_def record_of_def put_proposal_def split: option.splits)
  have same: "record_of s' x = (if x = pid then Some q else record_of s x)" "sk_next_proposal_id s' = sk_next_proposal_id s" for x
    using s'(1) by (simp_all add: record_of_def put_proposal_def)
  have "proposal_ok s' x q' \<and> (started q' \<longrightarrow> x \<in> fst ` set begun)" if "record_of s' x = Some q'" for x q'
    using that same(1) [of x] ok s'(2,3) p(1) fresh same(2) unfolding gov_ok_def
    by (auto simp: proposal_ok_def split: if_splits)
  moreover have "begun_ok now s' b" if "b \<in> set begun" for b
    using that new ok begun_ok_kept [of now s b s' now] rows unfolding gov_ok_def by (metis imageI order_refl)
  moreover have "exec_running (fst x) s'" if "x \<in> set execs" for x
  proof -
    have run: "exec_running (fst x) s" using that ok by (simp add: gov_ok_def)
    then have "xt_proposal_id (fst x) \<noteq> pid" using p(1) fresh by (auto simp: exec_running_def)
    then show ?thesis using exec_running_kept [OF run] rows by blast
  qed
  ultimately show ?thesis using ok unfolding gov_ok_def by blast
qed (use ok in simp)

lemma next_proposal_free: "gov_ok now s execs begun \<Longrightarrow> record_of s (sk_next_proposal_id s) = None"
  by (cases "record_of s (sk_next_proposal_id s)") (auto simp: gov_ok_def proposal_ok_def)

lemma create_gov_ok:
  assumes ok: "gov_ok now s execs begun" and cr: "create_proposal now proposer ptype description s = Some (r, s')"
  shows "gov_ok now s' execs begun"
proof (rule create_effect [OF cr])
  fix closes rows n
  let ?i = "sk_next_proposal_id s" and ?q = "new_proposal now proposer ptype description (sk_next_proposal_id s) (sk_gov_params s) n"
  let ?u = "with_rows ?i rows s"
  assume params: "params_ok (sk_gov_params s)"
    and s': "n = 0 \<and> s' = ?u \<or> n \<noteq> 0 \<and> s' = put_proposal ?i ?q ?u"
  have u: "record_of ?u x = record_of s x" "sk_next_proposal_id ?u = ?i + 1" for x
    by (simp_all add: with_rows_def record_of_def)
  have q: "proposal_ok s' ?i ?q" "\<not> started ?q"
    using s' params type_timelock_floor [OF params, of ptype]
    by (auto simp: proposal_ok_def new_proposal_def Let_def with_rows_def put_proposal_def started_def params_ok_def)
  have read: "record_of s' x = (if x = ?i \<and> n \<noteq> 0 then Some ?q else record_of s x)" "sk_next_proposal_id s' = ?i + 1" for x
    using s' u by (auto simp: put_proposal_def record_of_def with_rows_def)
  have rows: "row_kept s s' x" if "x \<noteq> ?i" for x
    using that read(1) [of x] by (simp add: row_kept_def split: option.splits)
  have old: "x \<noteq> ?i" if "record_of s x \<noteq> None" for x using that next_proposal_free [OF ok] by metis
  have "proposal_ok s' x q' \<and> (started q' \<longrightarrow> x \<in> fst ` set begun)" if "record_of s' x = Some q'" for x q'
    using that read(1) [of x] q ok proposal_ok_kept [of s x q' q' s'] read(2) unfolding gov_ok_def
    by (auto split: if_splits)
  moreover have "begun_ok now s' b" if "b \<in> set begun" for b
  proof -
    have "begun_ok now s b" using that ok by (simp add: gov_ok_def)
    moreover from this have "fst b \<noteq> ?i" using old by (auto simp: begun_ok_def)
    ultimately show ?thesis using begun_ok_kept [of now s b s' now] rows by simp
  qed
  moreover have "exec_running (fst x) s'" if "x \<in> set execs" for x
  proof -
    have run: "exec_running (fst x) s" using that ok by (simp add: gov_ok_def)
    then have "xt_proposal_id (fst x) \<noteq> ?i" using old by (auto simp: exec_running_def)
    then show ?thesis using exec_running_kept [OF run] rows by blast
  qed
  ultimately show ?thesis using ok unfolding gov_ok_def by blast
qed (use ok in simp)


theorem run_gov_ok:
  assumes run: "staking_run sha tid self w" and sha: "\<And>y. length (sha y) = 32"
  shows "gov_ok (sw_now w) (sw_state w) (sw_execs w) (sw_begun w)"
  using run
proof induction
  case (sr_init n args s tk)
  note i = init_staking_Inr [OF sr_init(1) token_reach_time [OF sr_init(2) sha]]
  then show ?case by (simp add: gov_ok_def record_of_def)
next
  case (sr_step w w')
  note I = sr_step.IH
  have params: "params_ok (sk_gov_params (sw_state w))"
    using run_mirror_ok [OF sr_step.hyps(1) sha] by (simp add: mirror_ok_def)
  have frame: "gov_ok (sw_now w) s (sw_execs w) (sw_begun w)"
    if "keeps (same_governance (sw_state w)) m" "m (sw_state w) = Some (r, s)" for m :: "(staking, 'e, 'a) segment" and r s
    using rows_gov_ok [OF I same_props_rows] keepsD [OF that] same_governance_props by (simp add: same_props_def)
  have fewer: "gov_ok n s execs (sw_begun w)"
    if "same_props (sw_state w) s" "sw_now w \<le> n" "set execs \<subseteq> set (sw_execs w)" for n s execs
    using rows_gov_ok [OF I same_props_rows [OF that(1)] _ that(2)] that(1,3) by (auto simp: same_props_def)
  from sr_step.hyps(2) show ?case
  proof cases
    case (ss_time n)
    then show ?thesis using fewer by simp
  next
    case (ss_token n tk)
    have "sw_now w \<le> n" using ss_token(2) by (auto elim: token_stepE)
    then show ?thesis using fewer ss_token(1) by simp
  next
    case (ss_stake holder amount lock_days key r s)
    then show ?thesis using frame [OF gov_frame.keeps_stake] by (auto split: sum.splits stake_started.splits)
  next
    case (ss_unstake holder pid r s)
    then show ?thesis using frame [OF gov_frame.keeps_unstake] by (auto split: sum.splits)
  next
    case (ss_stake_reply t reply r s)
    then show ?thesis using frame [OF gov_frame.keeps_stake_reply] by simp
  next
    case (ss_unstake_reply t reply ru s)
    then show ?thesis using frame [OF gov_frame.keeps_unstake_reply] by simp
  next
    case (ss_reconcile_lock ctl op_id d rc s)
    then show ?thesis using frame [OF gov_frame.keeps_reconcile(1)] by (auto simp: after_reconcile_def split: sum.splits)
  next
    case (ss_reconcile_unlock ctl op_id d rc s)
    then show ?thesis using frame [OF gov_frame.keeps_reconcile(2)] by (auto simp: after_reconcile_def split: sum.splits)
  next
    case (ss_claim holder pid rn s)
    then show ?thesis using claim_rewards_keeps [OF ss_claim(2)] I by simp
  next
    case (ss_revenue caller amount rc s)
    then show ?thesis using fewer revenue_effect by simp
  next
    case (ss_create proposer ptype description rn s)
    then show ?thesis using create_gov_ok [OF I] by simp
  next
    case (ss_vote voter pid approve ru s)
    then show ?thesis using vote_gov_ok [OF I] by simp
  next
    case (ss_execute pid re s)
    have "gov_ok (sw_now w) s (sw_execs w') (sw_begun w')"
      unfolding ss_execute(1)
      by (simp, rule execute_gov_ok [OF I params ss_execute(2)])
        (auto simp: after_execution_def split: sum.splits execution_started.splits)
    then show ?thesis using ss_execute(1) by (simp add: after_execution_def)
  next
    case (ss_pool_reply t pool call preply re s)
    have t: "exec_running t (sw_state w)" using I ss_pool_reply(2) by (fastforce simp: gov_ok_def)
    note e = execution_reply_effect [OF ss_pool_reply(3) t]
    have "gov_ok (sw_now w) s (sw_execs w') (sw_begun w)"
      by (rule rows_gov_ok [OF I e(1,2) order_refl])
        (use e(3) t ss_pool_reply(1) notin_set_remove1 in
          \<open>auto simp: after_execution_def split: sum.splits execution_started.splits\<close>)
    then show ?thesis using ss_pool_reply(1) by (simp add: after_execution_def)
  next
    case (ss_execution_lost x)
    then show ?thesis using fewer [of "sw_state w" "sw_now w" "remove1 x (sw_execs w)"]
      by (simp add: set_remove1_subset)
  next
    case (ss_reconcile_stuck ctl pid decision rs s)
    then show ?thesis using rows_gov_ok [OF I reconcile_stuck_effect [OF ss_reconcile_stuck(2)] order_refl] by auto
  next
    case (ss_upgrade s)
    then show ?thesis
      using upgrade_identity [OF run_mirror_ok [OF sr_step.hyps(1) sha]] fewer by simp
  qed (use I in simp_all)
qed

end
