(* ===== verification/Staking_Ballots.thy ===== *)
theory Staking_Ballots
  imports Staking_Execution
begin

text \<open>
  The ballots. A proposal freezes one row per eligible position, the total it records is the sum of its rows, a
  vote is cast once per frozen position with the frozen weight, and the two tallies of a proposal are the sums
  of the votes recorded for it. None of the saturating additions saturates: the rows of a proposal weigh at
  most three times the supply.
\<close>

section \<open>Rows, votes and their sums\<close>

definition snap_weight :: "staking \<Rightarrow> nat \<Rightarrow> nat" where
  "snap_weight s pid = fmsum (\<lambda>k e. if fst k = pid then se_weight e else 0) (sk_snapshots s)"

definition vote_weight :: "staking \<Rightarrow> nat \<Rightarrow> bool \<Rightarrow> nat" where
  "vote_weight s pid b =
     fmsum (\<lambda>k v. if vr_proposal_id v = pid \<and> vr_approve v = b then vr_voting_weight v else 0) (sk_votes s)"

definition row_ok :: "staking \<Rightarrow> snapshot_key \<Rightarrow> bool" where
  "row_ok s k \<longleftrightarrow> fst k < sk_next_proposal_id s \<and> snd k < u64_limit"

definition vote_ok :: "(snapshot_key, snapshot_entry) fmap \<Rightarrow> bytes \<Rightarrow> vote_record \<Rightarrow> bool" where
  "vote_ok rows k v \<longleftrightarrow> (\<exists>pos. vr_position_id v = Some pos \<and> k = make_vote_key (vr_proposal_id v) pos
     \<and> fmlookup rows (vr_proposal_id v, pos) = Some \<lparr> se_holder = vr_voter v, se_weight = vr_voting_weight v \<rparr>)"

definition ballot_ok :: "staking \<Rightarrow> nat \<Rightarrow> proposal \<Rightarrow> bool" where
  "ballot_ok s pid q \<longleftrightarrow> pr_snapshot_total_weight q = Some (snap_weight s pid)
     \<and> snap_weight s pid \<le> 3 * TOTAL_SUPPLY
     \<and> pr_votes_for q = vote_weight s pid True \<and> pr_votes_against q = vote_weight s pid False"

definition ballots_ok :: "staking \<Rightarrow> bool" where
  "ballots_ok s \<longleftrightarrow>
     (\<forall>k e. fmlookup (sk_snapshots s) k = Some e \<longrightarrow> row_ok s k)
     \<and> (\<forall>k v. fmlookup (sk_votes s) k = Some v \<longrightarrow> vote_ok (sk_snapshots s) k v)
     \<and> (\<forall>pid q. record_of s pid = Some q \<longrightarrow> ballot_ok s pid q)"

lemma fmsum_insert: "fmlookup m k = None \<Longrightarrow> fmsum f (fmupd k v m) = fmsum f m + f k v"
  using fmsum_change [of k f "fmupd k v m" f m] by (simp add: fmrow_def)

lemma fmsum_row_le: "fmrow f m k \<le> fmsum f m"
proof (cases "fmlookup m k")
  case (Some v)
  then have "k \<in> fset (fmdom m)" by (auto intro: fmdomI)
  then show ?thesis unfolding fmsum_def by (rule member_le_sum) simp_all
qed (simp add: fmrow_def)

lemma sum_fmvalues: "sum_list (map f (fmvalues m)) = fmsum (\<lambda>_. f) m"
proof -
  have "map f (List.map_filter (fmlookup m) ks) = map (fmrow (\<lambda>_. f) m) ks" if "set ks \<subseteq> fset (fmdom m)" for ks
    using that
  proof (induction ks)
    case (Cons k ks)
    then obtain v where "fmlookup m k = Some v" by (cases "fmlookup m k") (simp_all add: fmdom_notI)
    then show ?case using Cons by (simp add: List.map_filter_simps fmrow_def)
  qed (simp add: List.map_filter_simps)
  then have "map f (fmvalues m) = map (fmrow (\<lambda>_. f) m) (fmkeys m)" by (simp add: fmvalues_def)
  then show ?thesis by (simp add: fmsum_def sum_list_distinct_conv_sum_set)
qed

text \<open>The votes of a proposal weigh no more than its rows: a vote names its row.\<close>

lemma votes_le_rows:
  assumes ok: "\<And>k v. fmlookup votes k = Some v \<Longrightarrow> vote_ok (sk_snapshots s) k v" and v: "sk_votes s = votes"
  shows "vote_weight s pid True + vote_weight s pid False \<le> snap_weight s pid"
proof -
  let ?D = "fset (fmdom votes)" and ?R = "sk_snapshots s"
  define A where "A = {k \<in> ?D. \<exists>v. fmlookup votes k = Some v \<and> vr_proposal_id v = pid}"
  define row where "row = (\<lambda>k. (pid, the (vr_position_id (the (fmlookup votes k)))))"
  let ?g = "fmrow (\<lambda>k e. if fst k = pid then se_weight e else 0) ?R"
  have A: "k = make_vote_key (fst (row k)) (snd (row k))" "row k \<in> fset (fmdom ?R)"
      "fmrow (\<lambda>k v. if vr_proposal_id v = pid \<and> vr_approve v = True then vr_voting_weight v else 0) votes k
       + fmrow (\<lambda>k v. if vr_proposal_id v = pid \<and> vr_approve v = False then vr_voting_weight v else 0) votes k
       = ?g (row k)" if inA: "k \<in> A" for k
  proof -
    obtain v where v: "fmlookup votes k = Some v" "vr_proposal_id v = pid" using inA by (auto simp: A_def)
    obtain pos where pos: "vr_position_id v = Some pos" "k = make_vote_key pid pos"
      "fmlookup ?R (pid, pos) = Some \<lparr> se_holder = vr_voter v, se_weight = vr_voting_weight v \<rparr>"
      using ok [OF v(1)] v(2) by (auto simp: vote_ok_def)
    have row: "row k = (pid, pos)" using v(1) pos(1) by (simp add: row_def)
    show "k = make_vote_key (fst (row k)) (snd (row k))" "row k \<in> fset (fmdom ?R)"
      "fmrow (\<lambda>k v. if vr_proposal_id v = pid \<and> vr_approve v = True then vr_voting_weight v else 0) votes k
       + fmrow (\<lambda>k v. if vr_proposal_id v = pid \<and> vr_approve v = False then vr_voting_weight v else 0) votes k
       = ?g (row k)"
      using v pos(3) pos(2) [symmetric] unfolding row by (simp_all add: fmdomI fmrow_def)
  qed
  have "vote_weight s pid True + vote_weight s pid False = (\<Sum>k \<in> ?D.
      fmrow (\<lambda>k v. if vr_proposal_id v = pid \<and> vr_approve v = True then vr_voting_weight v else 0) votes k
       + fmrow (\<lambda>k v. if vr_proposal_id v = pid \<and> vr_approve v = False then vr_voting_weight v else 0) votes k)"
    unfolding vote_weight_def fmsum_def v by (simp add: sum.distrib)
  also have "\<dots> = (\<Sum>k \<in> A.
      fmrow (\<lambda>k v. if vr_proposal_id v = pid \<and> vr_approve v = True then vr_voting_weight v else 0) votes k
       + fmrow (\<lambda>k v. if vr_proposal_id v = pid \<and> vr_approve v = False then vr_voting_weight v else 0) votes k)"
    by (rule sum.mono_neutral_right) (auto simp: A_def fmrow_def split: option.splits)
  also have "\<dots> = (\<Sum>k \<in> A. ?g (row k))"
    by (rule sum.cong [OF refl A(3)])
  also have "\<dots> = sum ?g (row ` A)"
    by (rule sum.reindex_cong [where l = row, symmetric]) (use A(1) in \<open>auto intro!: inj_onI, metis\<close>)
  also have "\<dots> \<le> sum ?g (fset (fmdom ?R))"
    by (rule sum_mono2) (use A(2) in auto)
  finally show ?thesis by (simp add: snap_weight_def fmsum_def)
qed

section \<open>The snapshot loop\<close>

lemma snapshot_loop_effect:
  assumes "snapshot_loop pid ps (m, c) = (rows, n)" "distinct (map po_position_id ps)"
    "\<forall>p \<in> set ps. fmlookup m (pid, po_position_id p) = None"
    "c + sum_list (map po_voting_weight ps) < u128_limit"
  shows "n = c + sum_list (map po_voting_weight ps)
    \<and> fmsum f rows = fmsum f m + sum_list (map (\<lambda>p. f (pid, po_position_id p)
       \<lparr> se_holder = po_holder p, se_weight = po_voting_weight p \<rparr>) ps)
    \<and> (\<forall>k e. fmlookup rows k = Some e \<longrightarrow> fmlookup m k = Some e
       \<or> (\<exists>p \<in> set ps. k = (pid, po_position_id p)
            \<and> e = \<lparr> se_holder = po_holder p, se_weight = po_voting_weight p \<rparr>))
    \<and> (\<forall>k e. fmlookup m k = Some e \<longrightarrow> fmlookup rows k = Some e)"
  using assms
proof (induction ps arbitrary: m c)
  case (Cons p ps)
  let ?m = "fmupd (pid, po_position_id p) \<lparr> se_holder = po_holder p, se_weight = po_voting_weight p \<rparr> m"
  have loop: "snapshot_loop pid ps (?m, c + po_voting_weight p) = (rows, n)"
    using Cons.prems by simp
  have d: "distinct (map po_position_id ps)" "c + po_voting_weight p + sum_list (map po_voting_weight ps) < u128_limit"
    using Cons.prems by simp_all
  have none: "fmlookup m (pid, po_position_id p) = None" using Cons.prems(3) by simp
  have fresh: "\<forall>q \<in> set ps. fmlookup ?m (pid, po_position_id q) = None"
  proof
    fix q assume "q \<in> set ps"
    note that = this
    have "po_position_id q \<noteq> po_position_id p" using Cons.prems(2) that by (auto simp: image_iff)
    then show "fmlookup ?m (pid, po_position_id q) = None" using Cons.prems(3) that by simp
  qed
  note ih = Cons.IH [OF loop d(1) fresh d(2)]
  have "fmlookup rows k = Some e \<Longrightarrow> fmlookup m k = Some e
       \<or> (\<exists>p \<in> set (p # ps). k = (pid, po_position_id p)
            \<and> e = \<lparr> se_holder = po_holder p, se_weight = po_voting_weight p \<rparr>)" for k e
    using ih by (cases "k = (pid, po_position_id p)") fastforce+
  moreover have "fmlookup m k = Some e \<Longrightarrow> fmlookup rows k = Some e" for k e
    using ih none by (metis fmupd_lookup option.distinct(1))
  ultimately show ?case using ih fmsum_insert [OF none] by simp
qed simp

text \<open>The loop of a vote has the same shape.\<close>

definition cast_record :: "nat \<Rightarrow> nat \<Rightarrow> principal \<Rightarrow> bool \<Rightarrow> nat \<times> nat \<Rightarrow> vote_record" where
  "cast_record now pid voter approve u = \<lparr> vr_proposal_id = pid, vr_position_id = Some (fst u), vr_voter = voter,
     vr_approve = approve, vr_voting_weight = snd u, vr_voted_at_ns = now \<rparr>"

lemma cast_votes_effect:
  assumes "cast_votes now pid voter approve us (m, c) = (votes, n)" "distinct (map fst us)" "pid < u64_limit"
    "\<forall>u \<in> set us. fmlookup m (make_vote_key pid (fst u)) = None \<and> fst u < u64_limit"
  shows "n = (foldl (\<lambda>a u. sat_add 128 a (snd u)) c us)
    \<and> fmsum f votes = fmsum f m
        + sum_list (map (\<lambda>u. f (make_vote_key pid (fst u)) (cast_record now pid voter approve u)) us)
    \<and> (\<forall>k v. fmlookup votes k = Some v \<longrightarrow> fmlookup m k = Some v
       \<or> (\<exists>u \<in> set us. k = make_vote_key pid (fst u) \<and> v = cast_record now pid voter approve u))
    \<and> (\<forall>k v. fmlookup m k = Some v \<longrightarrow> fmlookup votes k = Some v)"
  using assms
proof (induction us arbitrary: m c)
  case (Cons u us)
  obtain pos w where u: "u = (pos, w)" by (cases u)
  let ?k = "make_vote_key pid pos" and ?v = "cast_record now pid voter approve u"
  have loop: "cast_votes now pid voter approve us (fmupd ?k ?v m, sat_add 128 c w) = (votes, n)"
    using Cons.prems(1) by (simp add: u cast_record_def)
  have d: "distinct (map fst us)" using Cons.prems(2) by simp
  have none: "fmlookup m ?k = None" "pos < u64_limit" using Cons.prems(4) u by simp_all
  have fresh: "\<forall>x \<in> set us. fmlookup (fmupd ?k ?v m) (make_vote_key pid (fst x)) = None \<and> fst x < u64_limit"
  proof
    fix x assume "x \<in> set us"
    note that = this
    have x: "fst x \<noteq> pos" "fst x < u64_limit" "fmlookup m (make_vote_key pid (fst x)) = None"
      using Cons.prems(2,4) that u by (auto simp: image_iff)
    then have "make_vote_key pid (fst x) \<noteq> ?k"
      using make_vote_key_inj [OF _ assms(3) x(2) assms(3) none(2)] by blast
    then show "fmlookup (fmupd ?k ?v m) (make_vote_key pid (fst x)) = None \<and> fst x < u64_limit" using x by simp
  qed
  note ih = Cons.IH [OF loop d assms(3) fresh]
  have "fmlookup votes k = Some v \<Longrightarrow> fmlookup m k = Some v
       \<or> (\<exists>u \<in> set (u # us). k = make_vote_key pid (fst u) \<and> v = cast_record now pid voter approve u)" for k v
    using ih u by (cases "k = ?k") fastforce+
  moreover have "fmlookup m k = Some v \<Longrightarrow> fmlookup votes k = Some v" for k v
    using ih none(1) by (metis fmupd_lookup option.distinct(1))
  ultimately show ?case using ih fmsum_insert [OF none(1), of f ?v] by (simp add: u)
qed simp

lemma foldl_sat_exact:
  "c + sum_list (map snd us) < u128_limit \<Longrightarrow> foldl (\<lambda>a u. sat_add 128 a (snd u)) c us = c + sum_list (map snd us)"
  by (induction us arbitrary: c) (simp_all add: add.assoc)


section \<open>The frozen positions of a voter\<close>

lemma takeWhile_sorted_pairs:
  assumes "sorted xs" "\<forall>k \<in> set xs. pid \<le> fst k"
  shows "takeWhile (\<lambda>k. fst k = pid) xs = filter (\<lambda>k. fst k = pid) (xs :: snapshot_key list)"
  using assms
proof (induction xs)
  case (Cons x xs)
  have "filter (\<lambda>k. fst k = pid) xs = []" if "fst x \<noteq> pid"
  proof -
    have "pid < fst x" using that Cons.prems(2) by (simp add: le_neq_implies_less)
    then have "fst k \<noteq> pid" if "k \<in> set xs" for k
      using that Cons.prems(1) by (cases x, cases k) (fastforce simp: less_eq_prod_def)
    then show ?thesis by (simp add: filter_empty_conv)
  qed
  then show ?case using Cons by simp
qed simp

lemma voter_entries_alt:
  "voter_entries pid voter s = List.map_filter (\<lambda>k. case fmlookup (sk_snapshots s) k of
         None \<Rightarrow> None | Some e \<Rightarrow> if se_holder e = voter then Some (snd k, se_weight e) else None)
       (filter (\<lambda>k. fst k = pid) (fmkeys (sk_snapshots s)))"
proof -
  let ?ks = "filter (\<lambda>k. (pid, 0) \<le> k) (fmkeys (sk_snapshots s))"
  have "takeWhile (\<lambda>k. fst k = pid) ?ks = filter (\<lambda>k. fst k = pid) ?ks"
    by (rule takeWhile_sorted_pairs) (auto simp: less_eq_prod_def intro: sorted_wrt_filter)
  also have "\<dots> = filter (\<lambda>k. fst k = pid) (fmkeys (sk_snapshots s))"
    by (auto simp: less_eq_prod_def intro!: filter_cong)
  finally show ?thesis by (simp add: voter_entries_def)
qed

lemma map_filter_member: "u \<in> set (List.map_filter g ks) \<longleftrightarrow> (\<exists>k \<in> set ks. g k = Some u)"
  by (induction ks) (auto simp: List.map_filter_simps split: option.splits)

lemma map_filter_distinct:
  assumes "\<And>k u. g k = Some u \<Longrightarrow> fst u = h k" "distinct (map h ks)"
  shows "distinct (map fst (List.map_filter g ks))"
  using assms(2)
proof (induction ks)
  case (Cons k ks)
  have "h k \<notin> fst ` set (List.map_filter g ks)"
  proof
    assume "h k \<in> fst ` set (List.map_filter g ks)"
    then obtain u k' where "h k = fst u" "k' \<in> set ks" "g k' = Some u" by (auto simp only: map_filter_member)
    then show False using Cons.prems assms(1) [of k' u] by auto
  qed
  then show ?case
    using Cons assms(1) by (cases "g k") (auto simp: List.map_filter_simps)
qed (simp add: List.map_filter_simps)

lemma voter_entries_exact:
  "(pos, w) \<in> set (voter_entries pid voter s) \<longleftrightarrow>
     fmlookup (sk_snapshots s) (pid, pos) = Some \<lparr> se_holder = voter, se_weight = w \<rparr>"
  "distinct (map fst (voter_entries pid voter s))"
proof -
  let ?m = "sk_snapshots s"
  define g where "g = (\<lambda>k. case fmlookup ?m k of
         None \<Rightarrow> None | Some e \<Rightarrow> if se_holder e = voter then Some (snd k, se_weight e) else None)"
  have ve: "voter_entries pid voter s = List.map_filter g (filter (\<lambda>k. fst k = pid) (fmkeys ?m))"
    unfolding g_def by (rule voter_entries_alt)
  have g: "g k = Some (pos, w) \<longleftrightarrow> snd k = pos \<and> fmlookup ?m k = Some \<lparr> se_holder = voter, se_weight = w \<rparr>" for k pos w
  proof (cases "fmlookup ?m k")
    case (Some e)
    then show ?thesis by (cases e) (auto simp: g_def)
  qed (simp add: g_def)
  have "(pos, w) \<in> set (voter_entries pid voter s) \<longleftrightarrow> (\<exists>k. k |\<in>| fmdom ?m \<and> fst k = pid \<and> snd k = pos
      \<and> fmlookup ?m k = Some \<lparr> se_holder = voter, se_weight = w \<rparr>)"
    unfolding ve map_filter_member g set_filter set_fmkeys by blast
  also have "\<dots> \<longleftrightarrow> fmlookup ?m (pid, pos) = Some \<lparr> se_holder = voter, se_weight = w \<rparr>"
    by (auto intro: fmdomI)
  finally show "(pos, w) \<in> set (voter_entries pid voter s) \<longleftrightarrow>
     fmlookup ?m (pid, pos) = Some \<lparr> se_holder = voter, se_weight = w \<rparr>" .
  show "distinct (map fst (voter_entries pid voter s))"
    unfolding ve
  proof (rule map_filter_distinct [where h = snd])
    show "fst u = snd k" if "g k = Some u" for k u using g [of k "fst u" "snd u"] that by simp
    show "distinct (map snd (filter (\<lambda>k. fst k = pid) (fmkeys ?m)))"
      by (auto simp: distinct_map prod_eq_iff intro!: inj_onI)
  qed
qed


lemma distinct_fmvalues:
  assumes "\<And>k v. fmlookup m k = Some v \<Longrightarrow> h v = k"
  shows "distinct (map h (fmvalues m))"
proof -
  have "distinct (map h (List.map_filter (fmlookup m) ks))" if "distinct ks" for ks
    using that
  proof (induction ks)
    case (Cons k ks)
    have "k \<notin> h ` set (List.map_filter (fmlookup m) ks)"
    proof
      assume "k \<in> h ` set (List.map_filter (fmlookup m) ks)"
      then obtain v k' where "k = h v" "k' \<in> set ks" "fmlookup m k' = Some v" by (auto simp only: map_filter_member)
      then show False using Cons.prems assms by auto
    qed
    then show ?case using Cons assms by (cases "fmlookup m k") (simp_all add: List.map_filter_simps)
  qed (simp add: List.map_filter_simps)
  then show ?thesis by (simp add: fmvalues_def)
qed

section \<open>The ballots over a run\<close>

lemma ballots_okD:
  assumes "ballots_ok s"
  shows "fmlookup (sk_snapshots s) k = Some e \<Longrightarrow> row_ok s k"
    "fmlookup (sk_votes s) i = Some v \<Longrightarrow> vote_ok (sk_snapshots s) i v"
    "record_of s pid = Some q \<Longrightarrow> ballot_ok s pid q"
  using assms unfolding ballots_ok_def by blast+

lemma same_votes_reads:
  assumes "same_votes s s'"
  shows "snap_weight s' = snap_weight s" "vote_weight s' = vote_weight s"
  using assms by (simp_all add: same_votes_def snap_weight_def vote_weight_def fun_eq_iff)

lemma ballot_ok_kept:
  assumes "ballot_ok s pid q" "same_ballot q q'" "same_votes s s'"
  shows "ballot_ok s' pid q'"
  using assms(1,2) unfolding ballot_ok_def same_ballot_def same_votes_reads [OF assms(3)] by simp

lemma rows_ballots_ok:
  assumes ok: "ballots_ok s" and rows: "\<And>x. row_kept s s' x" and same: "same_votes s s'"
  shows "ballots_ok s'"
proof -
  have "ballot_ok s' pid q" if "record_of s' pid = Some q" for pid q
    using row_kept_inv [OF rows that] ballots_okD(3) [OF ok] ballot_ok_kept [OF _ _ same] by blast
  then show ?thesis
    using ok same unfolding ballots_ok_def by (simp add: same_votes_def row_ok_def)
qed

lemma vote_ballots_ok:
  assumes ok: "ballots_ok s" and ids: "sk_next_proposal_id s < u64_limit"
    and v: "vote now voter pid approve s = Some (r, s')"
  shows "ballots_ok s'"
proof (rule vote_effect [OF v])
  fix p votes n
  let ?us = "filter (\<lambda>(position_id, _). fmlookup (sk_votes s) (make_vote_key pid position_id) = None)
    (voter_entries pid voter s)"
  assume p: "record_of s pid = Some p"
    and cast: "cast_votes now pid voter approve ?us (sk_votes s, 0) = (votes, n)"
    and some: "?us \<noteq> []"
    and s': "s' = put_proposal pid
        (if approve then p\<lparr> pr_votes_for := sat_add 128 (pr_votes_for p) n, pr_status := VotingOpen \<rparr>
         else p\<lparr> pr_votes_against := sat_add 128 (pr_votes_against p) n, pr_status := VotingOpen \<rparr>)
        (s\<lparr> sk_votes := votes \<rparr>)"
  have row: "fmlookup (sk_snapshots s) (pid, fst u) = Some \<lparr> se_holder = voter, se_weight = snd u \<rparr>"
    "fmlookup (sk_votes s) (make_vote_key pid (fst u)) = None" if "u \<in> set ?us" for u
    using that voter_entries_exact(1) [of "fst u" "snd u" pid voter s] by (auto split: prod.splits)
  have small: "pid < u64_limit" "fst u < u64_limit" if "u \<in> set ?us" for u
    using ballots_okD(1) [OF ok row(1) [OF that]] ids by (simp_all add: row_ok_def)
  have dist: "distinct (map fst ?us)"
    using voter_entries_exact(2) [of pid voter s] by (rule distinct_map_filter)
  have pid: "pid < u64_limit" using small(1) some by (meson last_in_set)
  let ?s = "s\<lparr> sk_votes := votes \<rparr>" and ?w = "sum_list (map snd ?us)"
  have key: "\<forall>u \<in> set ?us. fmlookup (sk_votes s) (make_vote_key pid (fst u)) = None \<and> fst u < u64_limit"
    using row(2) small(2) by blast
  note eff = cast_votes_effect [OF cast dist pid key]
  have votes: "vote_ok (sk_snapshots s) i v" if iv: "fmlookup votes i = Some v" for i v
  proof -
    consider "fmlookup (sk_votes s) i = Some v"
      | u where "u \<in> set ?us" "i = make_vote_key pid (fst u)" "v = cast_record now pid voter approve u"
      using eff iv by blast
    then show ?thesis
    proof cases
      case 1
      then show ?thesis by (rule ballots_okD(2) [OF ok])
    next
      case 2
      then show ?thesis using row(1) [OF 2(1)] by (simp add: vote_ok_def cast_record_def)
    qed
  qed
  have weight: "vote_weight ?s x b = vote_weight s x b + (if x = pid \<and> b = approve then ?w else 0)" for x b
  proof -
    let ?f = "\<lambda>k v. if vr_proposal_id v = x \<and> vr_approve v = b then vr_voting_weight v else 0"
    have "fmsum ?f votes = fmsum ?f (sk_votes s)
        + sum_list (map (\<lambda>u. ?f (make_vote_key pid (fst u)) (cast_record now pid voter approve u)) ?us)"
      using eff by blast
    also have "map (\<lambda>u. ?f (make_vote_key pid (fst u)) (cast_record now pid voter approve u)) ?us
        = map (\<lambda>u. if x = pid \<and> b = approve then snd u else 0) ?us"
      by (rule map_cong) (auto simp: cast_record_def)
    finally show ?thesis by (auto simp: vote_weight_def)
  qed
  have bound: "vote_weight ?s x True + vote_weight ?s x False \<le> snap_weight s x" for x
    using votes_le_rows [of votes ?s x] votes by (simp add: snap_weight_def)
  have ballot: "ballot_ok s pid p" by (rule ballots_okD(3) [OF ok p])
  have "3 * TOTAL_SUPPLY < u128_limit" by (simp add: TOTAL_SUPPLY_def)
  then have fits: "vote_weight ?s pid True + vote_weight ?s pid False < u128_limit"
    using bound [of pid] ballot by (simp add: ballot_ok_def)
  have "n = foldl (\<lambda>a u. sat_add 128 a (snd u)) 0 ?us" using eff by blast
  then have n: "n = ?w"
    using foldl_sat_exact [of 0 ?us] fits weight [of pid approve] by (cases approve) simp_all
  have sums: "snap_weight s' x = snap_weight s x" "vote_weight s' x b = vote_weight ?s x b" for x b
    by (simp_all add: s' snap_weight_def vote_weight_def put_proposal_def)
  have others: "record_of ?s x = record_of s x" for x by (simp add: record_of_def)
  have "ballot_ok s' x q" if "record_of s' x = Some q" for x q
  proof (cases "x = pid")
    case True
    have "ballot_ok s pid p \<longrightarrow> ballot_ok s' pid
        (if approve then p\<lparr> pr_votes_for := sat_add 128 (pr_votes_for p) n, pr_status := VotingOpen \<rparr>
         else p\<lparr> pr_votes_against := sat_add 128 (pr_votes_against p) n, pr_status := VotingOpen \<rparr>)"
      using weight [of pid True] weight [of pid False] fits
      unfolding ballot_ok_def sums n by (cases approve) simp_all
    then show ?thesis using that ballot True by (simp add: s')
  next
    case False
    then have "ballot_ok s x q" using that ballots_okD(3) [OF ok] by (simp add: s' others)
    then show ?thesis
      using weight [of x True] weight [of x False] False unfolding ballot_ok_def sums by simp
  qed
  then show ?thesis
    using ok votes unfolding ballots_ok_def by (simp add: s' put_proposal_def row_ok_def)
qed (use ok in simp)

lemma create_ballots_ok:
  assumes ok: "ballots_ok s" and gov: "gov_ok now s execs begun" and pos: "positions_ok s"
    and ids: "sk_next_position_id s < u64_limit" and w: "weight_all s \<le> 3 * TOTAL_SUPPLY"
    and cr: "create_proposal now proposer ptype description s = Some (r, s')"
  shows "ballots_ok s'"
proof (rule create_effect [OF cr])
  fix closes rows n
  let ?i = "sk_next_proposal_id s" and ?ps = "eligible_positions closes s"
  let ?u = "with_rows ?i rows s" and ?q = "new_proposal now proposer ptype description ?i (sk_gov_params s) n"
  let ?w = "sum_list (map po_voting_weight ?ps)"
  assume loop: "snapshot_loop ?i ?ps (sk_snapshots s, 0) = (rows, n)"
    and s': "n = 0 \<and> s' = ?u \<or> n \<noteq> 0 \<and> s' = put_proposal ?i ?q ?u"
  have at: "pos_of s (po_position_id p) = Some p \<and> po_position_id p < u64_limit" if "p \<in> set (fmvalues (sk_positions s))" for p
  proof -
    have "\<exists>k. pos_of s k = Some p" using that by (auto simp: fmvalues_def map_filter_member pos_of_def)
    then obtain k where k: "pos_of s k = Some p" by blast
    then have "position_ok s k p" using pos by (simp add: positions_ok_def positions_wf_def)
    then show ?thesis using k ids by (simp add: position_ok_def)
  qed
  have keyed: "fmlookup (sk_positions s) k = Some p \<Longrightarrow> po_position_id p = k" for k p
    using pos unfolding positions_ok_def positions_wf_def position_ok_def pos_of_def by blast
  have dist: "distinct (map po_position_id ?ps)"
    unfolding eligible_positions_def by (rule distinct_map_filter [OF distinct_fmvalues [OF keyed]])
  have "?w \<le> sum_list (map po_voting_weight (fmvalues (sk_positions s)))"
    unfolding eligible_positions_def by (rule sum_list_filter_le_nat)
  then have "?w \<le> weight_all s" unfolding sum_fmvalues weight_all_def .
  then have wle: "?w \<le> 3 * TOTAL_SUPPLY" using w by simp
  have fresh: "fmlookup (sk_snapshots s) (?i, x) = None" for x
    using ballots_okD(1) [OF ok, of "(?i, x)"] by (cases "fmlookup (sk_snapshots s) (?i, x)") (auto simp: row_ok_def)
  have "(3 :: nat) * TOTAL_SUPPLY < u128_limit" by (simp add: TOTAL_SUPPLY_def)
  then have small: "0 + ?w < u128_limit" using wle by simp
  have "\<forall>p \<in> set ?ps. fmlookup (sk_snapshots s) (?i, po_position_id p) = None" using fresh by blast
  note eff = snapshot_loop_effect [OF loop dist this small, unfolded add_0]
  have e: "n = ?w" "\<And>k e. fmlookup rows k = Some e \<Longrightarrow> fmlookup (sk_snapshots s) k = Some e
       \<or> (\<exists>p \<in> set ?ps. k = (?i, po_position_id p))"
    "\<And>k e. fmlookup (sk_snapshots s) k = Some e \<Longrightarrow> fmlookup rows k = Some e"
    using eff by blast+
  have snap: "fmsum (\<lambda>k e. if fst k = x then se_weight e else 0) rows = snap_weight s x + (if x = ?i then ?w else 0)" for x
  proof -
    let ?f = "\<lambda>k e. if fst k = x then se_weight e else 0"
    have "fmsum ?f rows = fmsum ?f (sk_snapshots s) + sum_list (map (\<lambda>p. ?f (?i, po_position_id p)
       \<lparr> se_holder = po_holder p, se_weight = po_voting_weight p \<rparr>) ?ps)"
      using eff by blast
    also have "map (\<lambda>p. ?f (?i, po_position_id p) \<lparr> se_holder = po_holder p, se_weight = po_voting_weight p \<rparr>) ?ps
        = map (\<lambda>p. if x = ?i then po_voting_weight p else 0) ?ps"
      by (rule map_cong) auto
    finally show ?thesis by (auto simp: snap_weight_def)
  qed
  have none: "snap_weight s ?i = 0"
    unfolding snap_weight_def fmsum_def
    by (rule sum.neutral) (use fresh in \<open>auto simp: fmrow_def split: option.splits\<close>)
  have zero: "vote_weight s ?i True = 0" "vote_weight s ?i False = 0"
    using votes_le_rows [of "sk_votes s" s ?i] ballots_okD(2) [OF ok] none by simp_all
  have reads: "sk_snapshots s' = rows" "sk_votes s' = sk_votes s" "sk_next_proposal_id s' = ?i + 1"
    "record_of s' x = (if x = ?i \<and> n \<noteq> 0 then Some ?q else record_of s x)" for x
    using s' next_proposal_free [OF gov] by (auto simp: with_rows_def put_proposal_def record_of_def)
  have sums: "snap_weight s' x = snap_weight s x + (if x = ?i then ?w else 0)" "vote_weight s' x b = vote_weight s x b" for x b
    using snap [of x] by (simp_all add: snap_weight_def vote_weight_def reads)
  have "row_ok s' k" if "fmlookup rows k = Some e" for k e
    using e(2) [OF that] ballots_okD(1) [OF ok, of k e] at
    by (auto simp: row_ok_def reads eligible_positions_def)
  moreover have "vote_ok rows k v" if "fmlookup (sk_votes s) k = Some v" for k v
    using ballots_okD(2) [OF ok that] e(3) unfolding vote_ok_def by blast
  moreover have "ballot_ok s' x q" if "record_of s' x = Some q" for x q
  proof (cases "x = ?i")
    case True
    then have "q = ?q" using that reads(4) [of x] next_proposal_free [OF gov] by (simp split: if_splits)
    then show ?thesis
      using True none zero wle e(1) by (simp add: ballot_ok_def sums new_proposal_def Let_def)
  next
    case False
    then show ?thesis
      using that reads(4) [of x] ballots_okD(3) [OF ok, of x q] by (simp add: ballot_ok_def sums)
  qed
  ultimately show ?thesis unfolding ballots_ok_def reads(1,2) by blast
qed (use ok in simp)


theorem run_ballots_ok:
  assumes run: "staking_run sha tid self w" and sha: "\<And>y. length (sha y) = 32"
  shows "sw_raced w \<or> sw_misjudged w \<or> ballots_ok (sw_state w)"
  using run
proof induction
  case (sr_init n args s tk)
  note i = init_staking_Inr [OF sr_init(1) token_reach_time [OF sr_init(2) sha]]
  then show ?case by (simp add: ballots_ok_def record_of_def)
next
  case (sr_step w w')
  have mirror: "mirror_ok (sw_state w)" by (rule run_mirror_ok [OF sr_step.hyps(1) sha])
  have gov: "gov_ok (sw_now w) (sw_state w) (sw_execs w) (sw_begun w)" by (rule run_gov_ok [OF sr_step.hyps(1) sha])
  show ?case
  proof (cases "sw_raced w \<or> sw_misjudged w")
    case True
    from sr_step.hyps(2) have "sw_raced w' \<or> sw_misjudged w'"
    proof cases
    qed (use True in \<open>auto simp: after_reconcile_def after_execution_def split: sum.splits stake_started.splits\<close>)
    then show ?thesis by blast
  next
    case False
    then have I: "ballots_ok (sw_state w)" and "staking_world_ok w"
      using sr_step.IH run_staking_ok [OF sr_step.hyps(1) sha] by blast+
    then have o: "positions_ok (sw_state w)" "weight_all (sw_state w) \<le> 3 * TOTAL_SUPPLY"
      using weight_all_le by (auto simp: staking_world_ok_def state_ok_def)
    have props: "ballots_ok s" if "same_props (sw_state w) s" for s
      by (rule rows_ballots_ok [OF I same_props_rows [OF that]]) (use that in \<open>simp add: same_props_def\<close>)
    have frame: "ballots_ok s"
      if "keeps (same_governance (sw_state w)) m" "m (sw_state w) = Some (r, s)" for m :: "(staking, 'e, 'a) segment" and r s
      using keepsD [OF that] same_governance_props props by simp
    from sr_step.hyps(2) have "ballots_ok (sw_state w')"
    proof cases
      case (ss_stake holder amount lock_days key r s)
      then show ?thesis using frame [OF gov_frame.keeps_stake] by (auto split: sum.splits stake_started.splits)
    next
      case (ss_unstake holder pid r s)
      then show ?thesis using frame [OF gov_frame.keeps_unstake] by (auto split: sum.splits)
    next
      case (ss_stake_reply t reply r s)
      then show ?thesis using frame [OF gov_frame.keeps_stake_reply] by simp
    next
      case (ss_unstake_reply t reply ru s)
      then show ?thesis using frame [OF gov_frame.keeps_unstake_reply] by simp
    next
      case (ss_reconcile_lock ctl op_id d rc s)
      then show ?thesis using frame [OF gov_frame.keeps_reconcile(1)] by (auto simp: after_reconcile_def split: sum.splits)
    next
      case (ss_reconcile_unlock ctl op_id d rc s)
      then show ?thesis using frame [OF gov_frame.keeps_reconcile(2)] by (auto simp: after_reconcile_def split: sum.splits)
    next
      case (ss_claim holder pid rn s)
      then show ?thesis using claim_rewards_keeps [OF ss_claim(2)] I by simp
    next
      case (ss_revenue caller amount rc s)
      then show ?thesis using props revenue_effect by simp
    next
      case (ss_create proposer ptype description rn s)
      then show ?thesis using create_ballots_ok [OF I gov o(1) _ o(2)] mirror by (simp add: mirror_ok_def)
    next
      case (ss_vote voter pid approve ru s)
      then show ?thesis using vote_ballots_ok [OF I] mirror by (simp add: mirror_ok_def)
    next
      case (ss_execute pid re s)
      have "ballots_ok s"
      proof (rule execute_effect [OF ss_execute(2)])
        assume "\<forall>x. row_kept (sw_state w) s x" "same_votes (sw_state w) s"
        then show ?thesis using rows_ballots_ok [OF I] by blast
      next
        fix p q
        assume e: "record_of (sw_state w) pid = Some p" "record_of s pid = Some q" "same_ballot p q"
          "\<forall>x. x \<noteq> pid \<longrightarrow> row_kept (sw_state w) s x" "same_votes (sw_state w) s"
        have "ballot_ok s x q'" if "record_of s x = Some q'" for x q'
        proof (cases "x = pid")
          case True
          then have "q' = q" using that e(2) by simp
          then show ?thesis using True ballot_ok_kept [OF ballots_okD(3) [OF I e(1)] e(3,5)] by simp
        next
          case False
          then obtain q0 where "record_of (sw_state w) x = Some q0" "same_ballot q0 q'"
            using row_kept_inv [OF e(4) [rule_format, OF False] \<open>record_of s x = Some q'\<close>] by blast
          then show ?thesis using ballot_ok_kept [OF ballots_okD(3) [OF I] _ e(5)] by blast
        qed
        then show ?thesis
          using I e(5) unfolding ballots_ok_def by (simp add: same_votes_def row_ok_def)
      qed
      then show ?thesis using ss_execute(1) by (simp add: after_execution_def)
    next
      case (ss_pool_reply t pool call preply re s)
      have t: "exec_running t (sw_state w)" using gov ss_pool_reply(2) by (fastforce simp: gov_ok_def)
      note e = execution_reply_effect [OF ss_pool_reply(3) t]
      then show ?thesis using rows_ballots_ok [OF I e(1,2)] ss_pool_reply(1) by (simp add: after_execution_def)
    next
      case (ss_reconcile_stuck ctl pid decision rs s)
      then show ?thesis using rows_ballots_ok [OF I reconcile_stuck_effect [OF ss_reconcile_stuck(2)]] by simp
    next
      case (ss_upgrade s)
      then show ?thesis using upgrade_identity [OF mirror] I by simp
    qed (use I in simp_all)
    then show ?thesis by blast
  qed
qed

end
