(* ===== verification/Staking_Properties.thy ===== *)
theory Staking_Properties
  imports Staking_Ballots Token_Properties
begin

text \<open>
  What the runs of \<open>Staking_Runs\<close> guarantee: the positions against the token's locks, the total voting weight,
  retries of a stake, the governance parameters and the upgrade, the ballots and the executions, and the two
  ways in which a promise fails.
\<close>

section \<open>A concrete run\<close>

text \<open>Alice stakes, her stake is confirmed, she opens a proposal, votes for it and executes it.\<close>

definition ex_stake_args :: staking_init_args where
  "ex_stake_args = \<lparr> si_token_canister = [7], si_pool_canister = [3], si_treasury_canister = [9],
     si_initial_rewards_pool = 0, si_initial_emission_rate_per_day = 0, si_governance_params = None \<rparr>"

definition ex_staking :: staking where
  "ex_staking = set_total_voting_weight 0 (set_reward_state (zero_rewards\<lparr> rw_rewards_start_ns := 5 \<rparr>)
     (set_gov_params default_params (seed_stake_counters (set_staking_refs [7] [3] [9] fresh_staking))))"

definition ex_op :: pending_lock_op where
  "ex_op = stake_op 5 ex_alice 100000000000 30 [1] 100000000000 2592000000000005 ex_staking"

definition ex_pending :: staking where
  "ex_pending = op_launched ex_op ex_staking"

definition ex_locked :: token where
  "ex_locked = ex_token\<lparr> tk_locks := fmupd (main_key ex_alice) 100000000000 fmempty, tk_sum_locks := 100000000000 \<rparr>"

definition ex_staked :: staking where
  "ex_staked = op_settled ex_op True ex_pending"

definition ex_world0 :: staking_world where
  "ex_world0 = \<lparr> sw_state = ex_staking, sw_now = 5, sw_token = ex_token, sw_locks = [], sw_execs = [],
     sw_calls = {}, sw_answer = (\<lambda>_. None), sw_begun = [], sw_raced = False, sw_misjudged = False \<rparr>"

definition ex_world1 :: staking_world where
  "ex_world1 = ex_world0\<lparr> sw_state := ex_pending, sw_locks := [turn_of [7] ex_op], sw_calls := {turn_of [7] ex_op} \<rparr>"

definition ex_world2 :: staking_world where
  "ex_world2 = ex_world1\<lparr> sw_token := ex_locked, sw_answer := [1 \<mapsto> TokenExecuted] \<rparr>"

definition ex_world3 :: staking_world where
  "ex_world3 = ex_world2\<lparr> sw_state := ex_staked, sw_locks := [] \<rparr>"

lemma ex_staking_fields:
  "sk_positions ex_staking = fmempty" "sk_pending ex_staking = fmempty" "sk_dedup ex_staking = fmempty"
  "sk_lock_ops ex_staking = fmempty" "sk_proposals ex_staking = fmempty" "sk_votes ex_staking = fmempty"
  "sk_snapshots ex_staking = fmempty" "sk_op_counter ex_staking = 1" "sk_next_position_id ex_staking = 1"
  "sk_next_proposal_id ex_staking = 1" "sk_token ex_staking = Some [7]" "sk_gov_params ex_staking = default_params"
  "sk_total_weight ex_staking = 0"
  by (simp_all add: ex_staking_def set_total_voting_weight_def set_reward_state_def set_gov_params_def
      seed_stake_counters_def set_staking_refs_def fresh_staking_def)

lemma ex_init_staking: "init_staking 5 ex_stake_args fresh_staking = Some (Inr (), ex_staking)"
proof -
  have "validate_params default_params = Inr ()" using default_params_ok validate_params_iff by blast
  then show ?thesis by (simp add: init_staking_def ex_stake_args_def ex_staking_def zero_rewards_def Let_def)
qed

lemma ex_stake_checks: "stake_checks 100000000000 30 [1] = Inr 2592000000000000"
  by (simp add: stake_checks_def checked_mul_def lock_consts result_simps)

lemma ex_stake_start:
  "stake_start 5 ex_alice 100000000000 30 [1] ex_staking = Some (Inr (StakeCalling (turn_of [7] ex_op)), ex_pending)"
proof -
  obtain r s' where launch: "stake_launch 5 ex_alice 100000000000 30 [1] [7] 100000000000 2592000000000005 ex_staking
      = Some (r, s')"
    by (simp add: stake_launch_def alloc_position_id_def next_op_id_def bump_stake_counter_def checked_add_def
        ex_staking_fields bind_act_def Let_def)
  have "resolve_dedup k 100000000000 30 ex_staking = Some (Inr None, ex_staking)" for k
    by (simp add: resolve_dedup_def ex_staking_fields)
  then have "stake_start 5 ex_alice 100000000000 30 [1] ex_staking = Some (r, s')"
    using launch by (simp add: stake_start_def ex_stake_checks bind_step bind_get_token bind_need ex_staking_fields
        checked_mul_def checked_add_def lock_multiplier_bps_def)
  then show ?thesis using stake_launch_effect [OF launch] by (simp add: ex_staking_fields ex_op_def ex_pending_def)
qed

lemma ex_deliver: "deliver_lock [8] (turn_of [7] ex_op) ex_token = (TokenExecuted, ex_locked)"
  by (simp add: deliver_lock_def turn_of_def ex_op_def stake_op_def lock_for_staking_def assert_staking_canister_def
      ex_token_def fresh_token_def get_balance_def get_lock_def write_lock_def running_total_def write_row_def
      checked_add_def TOTAL_SUPPLY_def ex_locked_def Let_def)

lemma ex_reply: "stake_reply (turn_of [7] ex_op) LockConfirmed ex_pending = Some (Inr 1, ex_staked)"
proof -
  have "\<exists>u. stake_reply (turn_of [7] ex_op) LockConfirmed ex_pending = Some (Inr 1, u)"
    by (simp add: stake_reply_def turn_of_def ex_op_def stake_op_def ex_staking_fields Let_def)
  then obtain u where u: "stake_reply (turn_of [7] ex_op) LockConfirmed ex_pending = Some (Inr 1, u)" by blast
  have "lo_op_type ex_op = LockOp" by (simp add: ex_op_def stake_op_def)
  from stake_reply_effect [OF u this] u show ?thesis by (simp add: ex_staked_def)
qed

lemma ex_steps:
  "staking_run ex_sha [7] [8] ex_world0" "staking_step ex_sha [7] [8] ex_world0 ex_world1"
  "staking_step ex_sha [7] [8] ex_world1 ex_world2" "staking_step ex_sha [7] [8] ex_world2 ex_world3"
proof -
  have id: "lt_op_id (turn_of [7] ex_op) = 1" "lt_op_type (turn_of [7] ex_op) = LockOp"
    by (simp_all add: turn_of_def ex_op_def stake_op_def ex_staking_fields)
  show "staking_run ex_sha [7] [8] ex_world0"
    unfolding ex_world0_def
    by (rule sr_init [OF ex_init_staking ex_reach]) (simp_all add: ex_token_def fresh_token_def get_lock_def)
  show "staking_step ex_sha [7] [8] ex_world0 ex_world1"
    using ss_stake [of ex_world0 ex_alice 100000000000 30 "[1]" "Inr (StakeCalling (turn_of [7] ex_op))" ex_pending]
      ex_stake_start
    by (simp add: ex_world0_def ex_world1_def ex_alice_def ex_staking_fields)
  show "staking_step ex_sha [7] [8] ex_world1 ex_world2"
    using ss_deliver [of "turn_of [7] ex_op" ex_world1 "[8]" TokenExecuted ex_locked ex_sha "[7]"] ex_deliver id
    by (simp add: ex_world0_def ex_world1_def ex_world2_def)
  show "staking_step ex_sha [7] [8] ex_world2 ex_world3"
    using ss_stake_reply [of "turn_of [7] ex_op" ex_world2 LockConfirmed "Inr 1" ex_staked ex_sha "[7]" "[8]"] ex_reply id
    by (simp add: ex_world0_def ex_world1_def ex_world2_def ex_world3_def)
qed

lemma ex_run2: "staking_run ex_sha [7] [8] ex_world2"
  using ex_steps(1-3) by (meson sr_step)

lemma ex_run3: "staking_run ex_sha [7] [8] ex_world3"
  using ex_run2 ex_steps(4) by (rule sr_step)

definition ex_proposal :: proposal where
  "ex_proposal = new_proposal 5 ex_alice (RewardScheduleUpdate 5) ''x'' 1 default_params 100000000000"

definition ex_created :: staking where
  "ex_created = put_proposal 1 ex_proposal
     (with_rows 1 (fmupd (1, 1) \<lparr> se_holder = ex_alice, se_weight = 100000000000 \<rparr> fmempty) ex_staked)"

definition ex_payload :: vk_upgrade_payload where
  "ex_payload = \<lparr> vk_old_verifying_key_hash = replicate 32 1, vk_new_verifying_key_hash = replicate 32 2,
     vk_circuit_version = 2, vk_proof_system_id = ''groth16'', vk_audit_artifact_url = ''u'',
     vk_audit_artifact_hash = replicate 32 3, vk_circuit_source_commit = ''c'',
     vk_verifier_wasm_hash = replicate 32 4, vk_activation_timestamp_ns = 9, vk_emergency_disable_supported = True \<rparr>"

definition ex_vk_turn :: execution_turn where
  "ex_vk_turn = \<lparr> xt_proposal_id = 1,
     xt_proposal = ex_proposal\<lparr> pr_proposal_type := VerifierKeyUpgrade ex_payload, pr_status := Executing \<rparr>, xt_now = 10 \<rparr>"

definition ex_opens :: nat where "ex_opens = 86400000000005"
definition ex_matures :: nat where "ex_matures = 1296000000000005"

definition ex_vote :: vote_record where
  "ex_vote = cast_record ex_opens 1 ex_alice True (1, 100000000000)"

definition ex_passed :: proposal where
  "ex_passed = ex_proposal\<lparr> pr_votes_for := 100000000000, pr_status := VotingOpen \<rparr>"

definition ex_voted :: staking where
  "ex_voted = put_proposal 1 ex_passed (ex_created\<lparr> sk_votes := fmupd (make_vote_key 1 1) ex_vote fmempty \<rparr>)"

lemma fmkeys_single: "fmkeys (fmupd k v fmempty) = [k]"
  by (simp add: fmkeys_def sorted_list_of_fset.rep_eq)

lemma fmvalues_single: "fmvalues (fmupd k v fmempty) = [v]"
  by (simp add: fmvalues_def fmkeys_single List.map_filter_simps)

lemma fmdrop_single: "fmdrop k (fmupd k v fmempty) = fmempty"
  by (rule fmap_ext) simp

lemma ex_staked_fields:
  "sk_positions ex_staked = fmupd 1 (lo_snapshot ex_op) fmempty" "sk_pending ex_staked = fmempty"
  "sk_proposals ex_staked = fmempty" "sk_votes ex_staked = fmempty" "sk_snapshots ex_staked = fmempty"
  "sk_next_proposal_id ex_staked = 1" "sk_gov_params ex_staked = default_params"
  "sk_dedup ex_staked = fmupd (dedup_key_new ex_alice [1])
     \<lparr> sd_amount = 100000000000, sd_lock_days = 30, sd_position_id = 1, sd_op_id = 1 \<rparr> fmempty"
  "sk_total_weight ex_staked = 100000000000"
  by (simp_all add: ex_staked_def op_settled_def ex_pending_def op_launched_def ex_op_def stake_op_def ex_staking_fields
      add_total_voting_weight_def set_total_voting_weight_def put_position_def clear_op_def put_pending_def put_lock_op_def
      op_dedup_def fmdrop_single Let_def)

lemma ex_create:
  "create_proposal 5 ex_alice (RewardScheduleUpdate 5) ''x'' ex_staked = Some (Inr 1, ex_created)"
proof -
  have params: "validate_params default_params = Inr ()" using default_params_ok validate_params_iff by blast
  have eligible: "eligible_positions 691200000000005 ex_staked = [lo_snapshot ex_op]"
    by (simp add: eligible_positions_def ex_staked_fields fmvalues_single snapshot_eligible_def is_active_position_def
        ex_op_def stake_op_def lock_consts)
  have snap: "po_amount (lo_snapshot ex_op) = 100000000000" "po_voting_weight (lo_snapshot ex_op) = 100000000000"
    "po_holder (lo_snapshot ex_op) = ex_alice" "po_position_id (lo_snapshot ex_op) = 1"
    by (simp_all add: ex_op_def stake_op_def ex_staking_fields)
  show ?thesis
    using params eligible snap
    by (simp add: create_proposal_def payload_check_def ex_staked_fields bind_need checked_add_def bind_alloc sum_u128_def
        default_params_def timelock_consts ex_created_def ex_proposal_def new_proposal_def with_rows_def put_proposal_def Let_def)
qed

lemma ex_vote_cast: "vote ex_opens ex_alice 1 True ex_created = Some (Inr (), ex_voted)"
proof -
  have p: "record_of ex_created 1 = Some ex_proposal" by (simp add: ex_created_def)
  have t: "pr_voting_opens_ns ex_proposal = ex_opens" "pr_voting_closes_ns ex_proposal = 691200000000005"
    "pr_votes_for ex_proposal = 0"
    by (simp_all add: ex_proposal_def new_proposal_def ex_opens_def default_params_def timelock_consts Let_def)
  have rows: "sk_snapshots ex_created = fmupd (1, 1) \<lparr> se_holder = ex_alice, se_weight = 100000000000 \<rparr> fmempty"
    "sk_votes ex_created = fmempty"
    by (simp_all add: ex_created_def put_proposal_def with_rows_def ex_staked_fields)
  have "voter_entries 1 ex_alice ex_created = [(1, 100000000000)]"
    by (simp add: voter_entries_alt rows fmkeys_single List.map_filter_simps)
  then show ?thesis
    using p t rows
    by (simp add: vote_def bind_find ex_voted_def ex_passed_def ex_vote_def cast_record_def ex_opens_def Let_def)
qed

lemma ex_execute:
  "record_of ex_voted 1 = Some ex_passed" "sk_gov_params ex_voted = default_params"
  "\<exists>s. execute_proposal ex_matures 1 ex_voted = Some (Inr ExecutionDone, s)"
proof -
  have q: "pr_executed_at_ns ex_passed = None" "pr_status ex_passed = VotingOpen" "pr_voting_closes_ns ex_passed \<le> ex_matures"
    "pr_execute_after_ns ex_passed = ex_matures" "pr_snapshot_total_weight ex_passed = Some 100000000000"
    "pr_votes_for ex_passed = 100000000000" "pr_votes_against ex_passed = 0"
    "pr_proposal_type ex_passed = RewardScheduleUpdate 5"
    by (simp_all add: ex_passed_def ex_proposal_def new_proposal_def ex_matures_def default_params_def timelock_consts Let_def)
  have s: "record_of ex_voted 1 = Some ex_passed" "sk_gov_params ex_voted = default_params"
    by (simp_all add: ex_voted_def ex_created_def put_proposal_def with_rows_def record_of_def ex_staked_fields)
  have checks: "execution_checks ex_matures 1 ex_voted = Some (Inr (ex_passed, True, True), ex_voted)"
    using q s by (simp add: execution_checks_def bind_find mul_u128_def checked_add_def checked_mul_def bind_need default_params_def)
  show "record_of ex_voted 1 = Some ex_passed" "sk_gov_params ex_voted = default_params" by (rule s)+
  show "\<exists>s. execute_proposal ex_matures 1 ex_voted = Some (Inr ExecutionDone, s)"
    by (simp del: One_nat_def add: execute_proposal_def bind_step [where m = "execution_checks ex_matures 1", OF checks] q action_start_def
        continue_execution_def finish_execution_def Let_def)
      (simp add: bind_act_def continue_execution_def finish_execution_def)
qed

definition ex_world5 :: staking_world where
  "ex_world5 = ex_world3\<lparr> sw_now := ex_opens, sw_state := ex_voted \<rparr>"

lemma ex_run5: "staking_run ex_sha [7] [8] ex_world5"
proof -
  let ?w = "ex_world3\<lparr> sw_state := ex_created \<rparr>"
  have w3: "sw_state ex_world3 = ex_staked" "sw_now ex_world3 = 5"
    by (simp_all add: ex_world3_def ex_world2_def ex_world1_def ex_world0_def)
  have "staking_step ex_sha [7] [8] ex_world3 ?w"
    by (rule ss_create) (use ex_create w3 in simp)
  moreover have "staking_step ex_sha [7] [8] ?w (?w\<lparr> sw_now := ex_opens \<rparr>)"
    by (rule ss_time) (simp_all add: w3 ex_opens_def)
  moreover have "staking_step ex_sha [7] [8] (?w\<lparr> sw_now := ex_opens \<rparr>) ex_world5"
    using ss_vote [of "?w\<lparr> sw_now := ex_opens \<rparr>" ex_alice 1 True "Inr ()" ex_voted ex_sha "[7]" "[8]"] ex_vote_cast
    by (simp add: ex_world5_def)
  ultimately show ?thesis using ex_run3 by (meson sr_step)
qed

lemma ex_run6: "\<exists>w. staking_run ex_sha [7] [8] w \<and> sw_begun w = [(1, ex_matures, ex_passed, default_params)]"
proof -
  let ?w = "ex_world5\<lparr> sw_now := ex_matures \<rparr>"
  obtain s where s: "execute_proposal ex_matures 1 ex_voted = Some (Inr ExecutionDone, s)" using ex_execute(3) by blast
  have log: "log_execution ex_matures 1 ex_voted (Inr ExecutionDone) bs = (1, ex_matures, ex_passed, default_params) # bs" for bs
    using ex_execute(1,2) by (simp add: log_execution_def record_of_def)
  have "staking_step ex_sha [7] [8] ex_world5 ?w"
    by (rule ss_time) (simp_all add: ex_world5_def ex_opens_def ex_matures_def)
  moreover have "staking_step ex_sha [7] [8] ?w ((after_execution ?w (sw_execs ?w) (Inr ExecutionDone) s)
      \<lparr> sw_begun := (1, ex_matures, ex_passed, default_params) # sw_begun ?w \<rparr>)"
    using ss_execute [of ?w 1 "Inr ExecutionDone" s ex_sha "[7]" "[8]"] s log
    by (simp add: ex_world5_def)
  ultimately have "staking_run ex_sha [7] [8] ((after_execution ?w (sw_execs ?w) (Inr ExecutionDone) s)
      \<lparr> sw_begun := (1, ex_matures, ex_passed, default_params) # sw_begun ?w \<rparr>)"
    using ex_run5 by (meson sr_step)
  moreover have "sw_begun ?w = []"
    by (simp add: ex_world5_def ex_world3_def ex_world2_def ex_world1_def ex_world0_def)
  ultimately show ?thesis by fastforce
qed


section \<open>Positions and locks\<close>

definition open_amounts :: "staking \<Rightarrow> bytes \<Rightarrow> nat" where
  "open_amounts s k = fmsum (\<lambda>_ p. if main_key (po_holder p) = k \<and> \<not> po_closed p then po_amount p else 0)
     (sk_positions s)"

text \<open>C9: The token holds locked exactly what the positions claim. In every run in which no controller reconciles
  an operation while its call is still awaited or against what the token did, and whatever calls are lost,
  delayed or refused, the token's lock of every account is the sum over the account's positions: an active
  position its amount, a closed one nothing, a pending stake its amount once the token has executed it, a pending
  unstake its amount until then. So when nothing is pending the lock is the sum of the open positions, and never
  more than the balance.\<close>

theorem stake_locks_exact:
  assumes "staking_run sha tid self w" "\<forall>x. length (sha x) = 32" "\<not> sw_raced w" "\<not> sw_misjudged w"
  shows "get_lock (sw_token w) k = held_by (sw_answer w) (sw_state w) k
     \<and> held_by (sw_answer w) (sw_state w) k \<le> get_balance (sw_token w) k
     \<and> (sk_pending (sw_state w) = fmempty \<longrightarrow> get_lock (sw_token w) k = open_amounts (sw_state w) k)"
proof -
  have ok: "locks_ok (sw_token w) (sw_answer w) (sw_state w)" "token_inv (sw_token w)"
    using run_staking_ok [OF assms(1)] assms(2-4) by (auto simp: staking_world_ok_def state_ok_def)
  have "get_lock (sw_token w) k \<le> get_balance (sw_token w) k"
    using token_invD(1) [OF ok(2)] by (simp add: supply_ok_def)
  moreover have "held_by (sw_answer w) (sw_state w) k = open_amounts (sw_state w) k"
    if "sk_pending (sw_state w) = fmempty"
    unfolding held_by_def open_amounts_def
    by (rule fmsum_cong) (use that in \<open>simp add: fmrow_def pend_of_def claim_on_def split: option.splits\<close>)
  ultimately show ?thesis using ok(1) by (simp add: locks_ok_def)
qed

theorem stake_locks_exact_witness:
  "get_lock (sw_token ex_world3) (main_key ex_alice) = 100000000000
     \<and> get_lock (sw_token ex_world2) (main_key ex_alice) = held_by (sw_answer ex_world2) (sw_state ex_world2) (main_key ex_alice)"
proof -
  have clean: "\<not> sw_raced ex_world3" "\<not> sw_misjudged ex_world3" "\<not> sw_raced ex_world2" "\<not> sw_misjudged ex_world2"
    by (simp_all add: ex_world3_def ex_world2_def ex_world1_def ex_world0_def)
  have state: "sw_state ex_world3 = ex_staked" by (simp add: ex_world3_def)
  have "open_amounts ex_staked (main_key ex_alice) = 100000000000"
    by (simp add: open_amounts_def ex_staked_fields fmsum_insert ex_op_def stake_op_def)
  then show ?thesis
    using stake_locks_exact [OF ex_run3 _ clean(1,2), of "main_key ex_alice"]
      stake_locks_exact [OF ex_run2 _ clean(3,4), of "main_key ex_alice"] length_ex_sha
    by (simp add: state ex_staked_fields)
qed

text \<open>C16: The total voting weight is the sum over the active positions, without saturation. In the same runs the
  stored total is what the upgrade's backfill computes (the weights of the positions that are neither closed nor
  pending), it never exceeds three times the token's supply, and every position weighs at most three times its
  amount.\<close>

theorem voting_weight_exact:
  assumes "staking_run sha tid self w" "\<forall>x. length (sha x) = 32" "\<not> sw_raced w" "\<not> sw_misjudged w"
  shows "get_total_voting_weight (sw_state w) = sum_list (map po_voting_weight
       (filter (is_active_position (sw_state w)) (fmvalues (sk_positions (sw_state w)))))
     \<and> get_total_voting_weight (sw_state w) \<le> 3 * TOTAL_SUPPLY
     \<and> (\<forall>pid p. fmlookup (sk_positions (sw_state w)) pid = Some p \<longrightarrow>
          po_position_id p = pid \<and> po_voting_weight p \<le> 3 * po_amount p)"
proof -
  let ?s = "sw_state w"
  have ok: "positions_ok ?s" "locks_ok (sw_token w) (sw_answer w) ?s" "token_inv (sw_token w)" "weight_ok ?s"
    using run_staking_ok [OF assms(1)] assms(2-4) by (auto simp: staking_world_ok_def state_ok_def)
  have pos: "position_ok ?s pid p" if "fmlookup (sk_positions ?s) pid = Some p" for pid p
    using that ok(1) by (simp add: positions_ok_def positions_wf_def pos_of_def)
  have "sum_list (map po_voting_weight (filter (is_active_position ?s) (fmvalues (sk_positions ?s))))
      = sum_list (map (\<lambda>p. if is_active_position ?s p then po_voting_weight p else 0) (fmvalues (sk_positions ?s)))"
    by (rule sum_list_map_filter')
  also have "\<dots> = fmsum (\<lambda>_ p. if is_active_position ?s p then po_voting_weight p else 0) (sk_positions ?s)"
    by (rule sum_fmvalues)
  also have "\<dots> = weight_all ?s"
    unfolding weight_all_def
  proof (rule fmsum_cong)
    fix pid
    have "po_voting_weight p = 0" if "fmlookup (sk_positions ?s) pid = Some p" "\<not> is_active_position ?s p" for p
      using inactive_weightless [OF ok(1)] that pos [OF that(1)] by (simp add: pos_of_def)
    then show "fmrow (\<lambda>_ p. if is_active_position ?s p then po_voting_weight p else 0) (sk_positions ?s) pid
        = fmrow (\<lambda>_. po_voting_weight) (sk_positions ?s) pid"
      by (auto simp: fmrow_def split: option.splits)
  qed
  finally show ?thesis
    using ok(4) weight_all_le [OF ok(1-3)] pos by (simp add: weight_ok_def get_total_voting_weight_def position_ok_def)
qed

theorem voting_weight_exact_witness:
  "get_total_voting_weight (sw_state ex_world3) = 100000000000
     \<and> sum_list (map po_voting_weight (filter (is_active_position ex_staked) (fmvalues (sk_positions ex_staked)))) = 100000000000"
proof -
  have clean: "\<not> sw_raced ex_world3" "\<not> sw_misjudged ex_world3"
    by (simp_all add: ex_world3_def ex_world2_def ex_world1_def ex_world0_def)
  have "sw_state ex_world3 = ex_staked" by (simp add: ex_world3_def)
  then show ?thesis
    using voting_weight_exact [OF ex_run3 _ clean] length_ex_sha by (simp add: get_total_voting_weight_def ex_staked_fields)
qed

text \<open>C37: A retried stake is answered, not staked again. In the same runs, once a key is recorded, a further
  stake of that holder with that key, whose arguments pass the entry checks, changes nothing: with other arguments it is a conflict that quotes the
  recorded ones, with the same ones it returns the recorded position, or the pending error while the token's
  answer is not known. The recorded position exists, has these arguments, and belongs to no other key.\<close>

theorem stake_retry_answered:
  assumes "staking_run sha tid self w" "\<forall>x. length (sha x) = 32" "\<not> sw_raced w" "\<not> sw_misjudged w"
    and "fmlookup (sk_dedup (sw_state w)) (dedup_key_new holder key) = Some r"
    and "stake_checks amount lock_days key = Inr duration"
  shows "(stake_start now holder amount lock_days key (sw_state w) = Some
      ((if amount \<noteq> sd_amount r \<or> lock_days \<noteq> sd_lock_days r
        then Inl (DedupConflict (sd_amount r) (sd_lock_days r) amount lock_days)
        else if fmlookup (sk_pending (sw_state w)) (sd_position_id r) = Some LockPending
        then Inl (LockPendingDuplicate (sd_op_id r))
        else Inr (StakeAnswered (sd_position_id r))), sw_state w))
     \<and> (\<exists>p. fmlookup (sk_positions (sw_state w)) (sd_position_id r) = Some p
      \<and> po_amount p = sd_amount r \<and> po_lock_days p = sd_lock_days r)
     \<and> (\<forall>k r'. fmlookup (sk_dedup (sw_state w)) k = Some r' \<longrightarrow> sd_position_id r' = sd_position_id r
      \<longrightarrow> k = dedup_key_new holder key)"
proof (intro conjI)
  have "keys_wf (sw_state w)"
    using run_staking_ok [OF assms(1)] assms(2-4) by (auto simp: staking_world_ok_def state_ok_def positions_ok_def)
  then have k: "key_ok (sw_state w) (dedup_key_new holder key) r" using assms(5) by (simp add: keys_wf_def key_of_def)
  then show "\<exists>p. fmlookup (sk_positions (sw_state w)) (sd_position_id r) = Some p
      \<and> po_amount p = sd_amount r \<and> po_lock_days p = sd_lock_days r"
    "\<forall>k r'. fmlookup (sk_dedup (sw_state w)) k = Some r' \<longrightarrow> sd_position_id r' = sd_position_id r
      \<longrightarrow> k = dedup_key_new holder key"
    unfolding key_ok_def pos_of_def key_of_def by blast+
  then obtain p where "fmlookup (sk_positions (sw_state w)) (sd_position_id r) = Some p" by blast
  then have "resolve_dedup (dedup_key_new holder key) amount lock_days (sw_state w) = Some
      (if amount \<noteq> sd_amount r \<or> lock_days \<noteq> sd_lock_days r
       then Inl (DedupConflict (sd_amount r) (sd_lock_days r) amount lock_days)
       else if fmlookup (sk_pending (sw_state w)) (sd_position_id r) = Some LockPending
       then Inl (LockPendingDuplicate (sd_op_id r)) else Inr (Some (sd_position_id r)), sw_state w)"
    using assms(5) by (simp add: resolve_dedup_def split: option.splits pending_stake_state.splits)
  then show "stake_start now holder amount lock_days key (sw_state w) = Some
      ((if amount \<noteq> sd_amount r \<or> lock_days \<noteq> sd_lock_days r
        then Inl (DedupConflict (sd_amount r) (sd_lock_days r) amount lock_days)
        else if fmlookup (sk_pending (sw_state w)) (sd_position_id r) = Some LockPending
        then Inl (LockPendingDuplicate (sd_op_id r))
        else Inr (StakeAnswered (sd_position_id r))), sw_state w)"
    using assms(6) by (simp add: stake_start_def bind_act_def [of "resolve_dedup _ _ _"] bind_act_def [of "check_act _ _"])
qed

theorem stake_retry_answered_witness:
  "stake_start 9 ex_alice 100000000000 30 [1] (sw_state ex_world3) = Some (Inr (StakeAnswered 1), sw_state ex_world3)
     \<and> (\<exists>e. stake_start 9 ex_alice 100000000000 30 [1] (sw_state ex_world2) = Some (Inl e, sw_state ex_world2))"
proof -
  let ?r = "\<lparr> sd_amount = 100000000000, sd_lock_days = 30, sd_position_id = 1, sd_op_id = 1 \<rparr> :: stake_dedup_record"
  have clean: "\<not> sw_raced ex_world3" "\<not> sw_misjudged ex_world3" "\<not> sw_raced ex_world2" "\<not> sw_misjudged ex_world2"
    by (simp_all add: ex_world3_def ex_world2_def ex_world1_def ex_world0_def)
  have state: "sw_state ex_world3 = ex_staked" "sw_state ex_world2 = ex_pending"
    by (simp_all add: ex_world3_def ex_world2_def ex_world1_def)
  have pending: "fmlookup (sk_dedup ex_pending) (dedup_key_new ex_alice [1]) = Some ?r"
    "fmlookup (sk_pending ex_pending) 1 = Some LockPending"
    by (simp_all add: ex_pending_def op_launched_def ex_op_def stake_op_def ex_staking_fields op_dedup_def put_pending_def
        put_position_def put_lock_op_def Let_def)
  show ?thesis
    using stake_retry_answered [THEN conjunct1, OF ex_run3 _ clean(1,2) _ ex_stake_checks, of ex_alice ?r 9]
      stake_retry_answered [THEN conjunct1, OF ex_run2 _ clean(3,4) _ ex_stake_checks, of ex_alice ?r 9] pending length_ex_sha
    by (simp add: state ex_staked_fields)
qed

section \<open>Governance\<close>

text \<open>C38: The parameters always pass their contract and an upgrade loses nothing. In every run, whatever
  proposals were executed and whatever the controllers reconciled, the parameters in force pass
  \<^verbatim>\<open>GovernanceParams::validate\<close> (so no proposal can lower a timelock or a quorum below its floor), and
  \<^verbatim>\<open>post_upgrade\<close>, which finds every heap mirror at its initial value, succeeds and rebuilds exactly the
  state that was there: references, parameters, rewards, both id counters and the total voting weight.\<close>

theorem staking_upgrade_restores:
  assumes "staking_run sha tid self w" "\<forall>x. length (sha x) = 32"
  shows "validate_params (sk_gov_params (sw_state w)) = Inr ()
     \<and> post_upgrade_staking (heap_lost (sw_state w)) = Some (Inr (), sw_state w)"
  using upgrade_identity run_mirror_ok [OF assms(1)] assms(2) by (simp add: mirror_ok_def validate_params_iff)

theorem staking_upgrade_restores_witness:
  "post_upgrade_staking (heap_lost (sw_state ex_world5)) = Some (Inr (), sw_state ex_world5)
   \<and> heap_lost (sw_state ex_world5) \<noteq> sw_state ex_world5"
proof
  show "post_upgrade_staking (heap_lost (sw_state ex_world5)) = Some (Inr (), sw_state ex_world5)"
    using staking_upgrade_restores [OF ex_run5] length_ex_sha by simp
  have "sk_total_weight (sw_state ex_world5) = 100000000000"
    by (simp add: ex_world5_def ex_voted_def ex_created_def put_proposal_def with_rows_def ex_staked_fields)
  moreover have "sk_total_weight (heap_lost s) = 0" for s by (simp add: heap_lost_def)
  ultimately show "heap_lost (sw_state ex_world5) \<noteq> sw_state ex_world5" by (metis zero_neq_numeral)
qed

text \<open>C10: A proposal's action begins at most once, and only as decided. In every run the executions that went
  on to their action (whatever then came of it) have different proposals, every stored record that is executing
  or has been executed is of one of them, and each began after voting had closed and the floor of its timelock had passed (seven
  days, fourteen for a verifier key), with the quorum of its type over its frozen weight and the approval
  threshold of parameters that satisfy their contract; the tallies it was judged by are still those of the stored
  record, which is executing or has been executed.\<close>

theorem proposal_executes_once:
  assumes "staking_run sha tid self w" "\<forall>x. length (sha x) = 32"
  shows "distinct (map fst (sw_begun w))
     \<and> (\<forall>pid q. fmlookup (sk_proposals (sw_state w)) pid = Some q \<longrightarrow>
          pr_status q = Executing \<or> pr_executed_at_ns q \<noteq> None \<longrightarrow> pid \<in> fst ` set (sw_begun w))
     \<and> (\<forall>(pid, n, p, params) \<in> set (sw_begun w). n \<le> sw_now w \<and> params_ok params
      \<and> pr_voting_closes_ns p + min_timelock (pr_proposal_type p) \<le> n
      \<and> (\<exists>weight. pr_snapshot_total_weight p = Some weight \<and> 0 < weight
           \<and> weight * type_quorum_bps (pr_proposal_type p) params \<le> (pr_votes_for p + pr_votes_against p) * 10000)
      \<and> (pr_votes_for p + pr_votes_against p) * gv_approval_threshold_bps params \<le> pr_votes_for p * 10000
      \<and> (\<exists>q. fmlookup (sk_proposals (sw_state w)) pid = Some q \<and> same_ballot p q
           \<and> (pr_status q = Executing \<or> pr_executed_at_ns q \<noteq> None)))"
proof (intro conjI)
  have ok: "gov_ok (sw_now w) (sw_state w) (sw_execs w) (sw_begun w)" using run_gov_ok [OF assms(1)] assms(2) by simp
  then show "distinct (map fst (sw_begun w))" by (simp add: gov_ok_def)
  show "\<forall>pid q. fmlookup (sk_proposals (sw_state w)) pid = Some q \<longrightarrow>
      pr_status q = Executing \<or> pr_executed_at_ns q \<noteq> None \<longrightarrow> pid \<in> fst ` set (sw_begun w)"
    using ok unfolding gov_ok_def record_of_def started_def by blast
  have "begun_ok (sw_now w) (sw_state w) (pid, n, p, params) \<and> pr_voting_closes_ns p + min_timelock (pr_proposal_type p) \<le> n"
    if "(pid, n, p, params) \<in> set (sw_begun w)" for pid n p params
  proof -
    have b: "begun_ok (sw_now w) (sw_state w) (pid, n, p, params)" using ok that by (simp add: gov_ok_def)
    then obtain q where q: "record_of (sw_state w) pid = Some q" "same_ballot p q" by (auto simp: begun_ok_def)
    then have "proposal_ok (sw_state w) pid q" using ok by (simp add: gov_ok_def)
    then show ?thesis using b q(2) by (simp add: proposal_ok_def same_ballot_def begun_ok_def passed_checks_def)
  qed
  then show "\<forall>(pid, n, p, params) \<in> set (sw_begun w). n \<le> sw_now w \<and> params_ok params
      \<and> pr_voting_closes_ns p + min_timelock (pr_proposal_type p) \<le> n
      \<and> (\<exists>weight. pr_snapshot_total_weight p = Some weight \<and> 0 < weight
           \<and> weight * type_quorum_bps (pr_proposal_type p) params \<le> (pr_votes_for p + pr_votes_against p) * 10000)
      \<and> (pr_votes_for p + pr_votes_against p) * gv_approval_threshold_bps params \<le> pr_votes_for p * 10000
      \<and> (\<exists>q. fmlookup (sk_proposals (sw_state w)) pid = Some q \<and> same_ballot p q
           \<and> (pr_status q = Executing \<or> pr_executed_at_ns q \<noteq> None))"
    unfolding begun_ok_def passed_checks_def record_of_def started_def by fast
qed

theorem proposal_executes_once_witness:
  "\<exists>w. staking_run ex_sha [7] [8] w \<and> map fst (sw_begun w) = [1] \<and> ex_matures \<le> sw_now w
     \<and> (\<exists>q. fmlookup (sk_proposals (sw_state w)) 1 = Some q \<and> pr_votes_for q = 100000000000)"
proof -
  obtain w where w: "staking_run ex_sha [7] [8] w" "sw_begun w = [(1, ex_matures, ex_passed, default_params)]"
    using ex_run6 by blast
  have "pr_votes_for ex_passed = 100000000000" by (simp add: ex_passed_def)
  then show ?thesis
    using proposal_executes_once [THEN conjunct2, THEN conjunct2, OF w(1)] w length_ex_sha by (auto simp: same_ballot_def intro!: exI [of _ w])
qed

text \<open>C12: Ballots are exact. In the runs of the first two properties the weight a proposal records is the sum of
  the rows it froze, its two tallies are the sums of the votes recorded for it and together at most that weight,
  every vote is cast for one frozen position by its frozen holder with its frozen weight, and no position has
  two votes on a proposal.\<close>

theorem ballots_exact:
  assumes "staking_run sha tid self w" "\<forall>x. length (sha x) = 32" "\<not> sw_raced w" "\<not> sw_misjudged w"
  shows "(\<forall>pid q. fmlookup (sk_proposals (sw_state w)) pid = Some q \<longrightarrow>
       pr_snapshot_total_weight q = Some (snap_weight (sw_state w) pid)
       \<and> pr_votes_for q = vote_weight (sw_state w) pid True \<and> pr_votes_against q = vote_weight (sw_state w) pid False
       \<and> pr_votes_for q + pr_votes_against q \<le> snap_weight (sw_state w) pid)
     \<and> (\<forall>k v. fmlookup (sk_votes (sw_state w)) k = Some v \<longrightarrow>
       (\<exists>pos. vr_position_id v = Some pos \<and> k = make_vote_key (vr_proposal_id v) pos
          \<and> fmlookup (sk_snapshots (sw_state w)) (vr_proposal_id v, pos)
              = Some \<lparr> se_holder = vr_voter v, se_weight = vr_voting_weight v \<rparr>))"
proof (intro conjI)
  have ok: "ballots_ok (sw_state w)" using run_ballots_ok [OF assms(1)] assms(2-4) by auto
  then show "\<forall>k v. fmlookup (sk_votes (sw_state w)) k = Some v \<longrightarrow>
       (\<exists>pos. vr_position_id v = Some pos \<and> k = make_vote_key (vr_proposal_id v) pos
          \<and> fmlookup (sk_snapshots (sw_state w)) (vr_proposal_id v, pos)
              = Some \<lparr> se_holder = vr_voter v, se_weight = vr_voting_weight v \<rparr>)"
    by (simp add: ballots_ok_def vote_ok_def)
  have "vote_weight (sw_state w) pid True + vote_weight (sw_state w) pid False \<le> snap_weight (sw_state w) pid" for pid
    by (rule votes_le_rows [OF _ refl]) (use ok in \<open>simp add: ballots_ok_def\<close>)
  then show "\<forall>pid q. fmlookup (sk_proposals (sw_state w)) pid = Some q \<longrightarrow>
       pr_snapshot_total_weight q = Some (snap_weight (sw_state w) pid)
       \<and> pr_votes_for q = vote_weight (sw_state w) pid True \<and> pr_votes_against q = vote_weight (sw_state w) pid False
       \<and> pr_votes_for q + pr_votes_against q \<le> snap_weight (sw_state w) pid"
    using ok by (simp add: ballots_ok_def ballot_ok_def record_of_def)
qed

theorem ballots_exact_witness:
  "\<exists>q. fmlookup (sk_proposals (sw_state ex_world5)) 1 = Some q \<and> pr_votes_for q = vote_weight ex_voted 1 True
     \<and> pr_votes_for q = 100000000000 \<and> snap_weight ex_voted 1 = 100000000000"
proof -
  have clean: "\<not> sw_raced ex_world5" "\<not> sw_misjudged ex_world5"
    by (simp_all add: ex_world5_def ex_world3_def ex_world2_def ex_world1_def ex_world0_def)
  have state: "sw_state ex_world5 = ex_voted" by (simp add: ex_world5_def)
  have q: "fmlookup (sk_proposals ex_voted) 1 = Some ex_passed" by (simp add: ex_voted_def put_proposal_def)
  have "pr_votes_for ex_passed = 100000000000" "pr_snapshot_total_weight ex_passed = Some 100000000000"
    by (simp_all add: ex_passed_def ex_proposal_def new_proposal_def Let_def)
  then show ?thesis
    using ballots_exact [THEN conjunct1, OF ex_run5 _ clean] q length_ex_sha by (simp add: state)
qed

section \<open>Where the promises fail\<close>

text \<open>C39: The condition of the first two properties is needed. A controller who reconciles a stake as executed
  while its call is still awaited tells the truth, and yet the late confirmation of the token is then taken a
  second time: the total voting weight ends above the sum over the positions by the weight of this one.\<close>

theorem late_reply_double_weight:
  assumes "staking_run sha tid self w" "\<forall>x. length (sha x) = 32" "\<not> sw_raced w" "\<not> sw_misjudged w"
    and t: "t \<in> set (sw_locks w)" "lt_op_type t = LockOp" "sw_answer w (lt_op_id t) = Some TokenExecuted"
  shows "\<exists>s1 s2. reconcile_lock True (lt_op_id t) DecidedExecuted (sw_state w) = Some (Inr (), s1)
     \<and> stake_reply t LockConfirmed s1 = Some (Inr (lt_position_id t), s2)
     \<and> get_total_voting_weight s2 = weight_all s2 + po_voting_weight (lt_position t)"
proof -
  let ?s = "sw_state w"
  have ok: "state_ok ?s (sw_answer w) (sw_calls w) (sw_locks w) (sw_token w)"
    using run_staking_ok [OF assms(1)] assms(2-4) by (auto simp: staking_world_ok_def)
  note o = state_okD [OF ok]
  have d: "distinct (map lt_op_id (sw_locks w))" using o(5) by (simp add: lock_calls_ok_def)
  obtain lop where lop: "op_of ?s (lt_op_id t) = Some lop" "t = turn_of (lt_token t) lop"
    using o(5) t(1) unfolding lock_calls_ok_def turn_live_def by blast
  note l = ops_wfD [OF o(3) lop(1)]
  have "lt_op_type t = lo_op_type lop \<and> lt_position t = lo_snapshot lop \<and> lt_position_id t = lo_position_id lop"
    by (rule ssubst [OF lop(2), of "\<lambda>x. lt_op_type x = lo_op_type lop \<and> lt_position x = lo_snapshot lop
        \<and> lt_position_id x = lo_position_id lop"]) (simp add: turn_of_def)
  then have ty: "lo_op_type lop = LockOp" and snap: "lt_position t = lo_snapshot lop" "lt_position_id t = lo_position_id lop"
    using t(2) by simp_all
  let ?s1 = "op_settled lop True ?s" and ?pid = "lo_position_id lop"
  have load: "load_and_verify_pending_op (lt_op_id t) LockOp ?s = Some (Inr (lop, pending_position lop), ?s)"
    using l(1,3,4,5) lop(1) ty by (simp add: load_op_Inr op_wf_def)
  have r1: "reconcile_lock True (lt_op_id t) DecidedExecuted ?s = Some (Inr (), ?s1)"
  proof -
    have "bind_act (load_and_verify_pending_op (lt_op_id t) LockOp) (\<lambda>(lop, _). f lop) ?s = f lop ?s" for f :: "pending_lock_op \<Rightarrow> unit sact"
      by (simp add: bind_step [where m = "load_and_verify_pending_op (lt_op_id t) LockOp", OF load])
    then have "\<exists>s1. reconcile_lock True (lt_op_id t) DecidedExecuted ?s = Some (Inr (), s1)"
      by (simp add: reconcile_lock_def ensure_ic_controller_def Let_def)
    then obtain s1 where r: "reconcile_lock True (lt_op_id t) DecidedExecuted ?s = Some (Inr (), s1)" by blast
    have wf: "op_wf u \<and> lo_op_id u = lt_op_id t" if "op_of ?s (lt_op_id t) = Some u" for u
      using ops_wfD(1,3) [OF o(3) that] by blast
    obtain lop' where "op_of ?s (lt_op_id t) = Some lop'" "s1 = op_settled lop' (decided DecidedExecuted) ?s"
      using reconcile_Inr [OF disjI1 [OF r] wf] by metis
    then have "s1 = ?s1" using lop(1) by (simp add: decided_def)
    then show ?thesis using r by simp
  qed
  have ok1: "state_ok ?s1 (sw_answer w) (sw_calls w) (remove1 t (sw_locks w)) (sw_token w)"
    by (rule settled_state_ok [OF ok lop(1)]) (use t remove1_locks [OF d] in simp_all)
  have small: "weight_all ?s1 \<le> 3 * TOTAL_SUPPLY"
    using weight_all_le ok1 by (auto simp: state_ok_def)
  have here: "pos_of ?s1 ?pid = Some (lo_snapshot lop)" by (simp add: settled_pos_def ty)
  then have "po_voting_weight (lo_snapshot lop) \<le> weight_all ?s1"
    using fmsum_row_le [of "\<lambda>_. po_voting_weight" "sk_positions ?s1" ?pid]
    by (simp add: weight_all_def fmrow_def pos_of_def)
  moreover have "6 * TOTAL_SUPPLY < u128_limit" by (simp add: TOTAL_SUPPLY_def)
  moreover have "sk_total_weight ?s1 = weight_all ?s1" using ok1 by (simp add: state_ok_def weight_ok_def)
  ultimately have tot: "sk_total_weight (op_settled lop True ?s1) = weight_all ?s1 + po_voting_weight (lo_snapshot lop)"
    using small by (simp add: settled_total ty)
  have same: "weight_all (op_settled lop True ?s1) = weight_all ?s1"
    using weight_change [of ?pid "op_settled lop True ?s1" ?s1] here by (simp add: settled_pos_def ty)
  have "\<exists>s2. stake_reply t LockConfirmed u = Some (Inr (lt_position_id t), s2)" for u
    by (simp add: stake_reply_def Let_def)
  then obtain s2 where r2: "stake_reply t LockConfirmed ?s1 = Some (Inr (lt_position_id t), s2)" by blast
  have s2: "s2 = op_settled lop True ?s1"
    using stake_reply_effect [of "lt_token t" lop LockConfirmed ?s1 "Inr (lt_position_id t)" s2] r2 ty
    unfolding lop(2) [symmetric] by simp
  have "get_total_voting_weight s2 = weight_all s2 + po_voting_weight (lt_position t)"
    unfolding s2 get_total_voting_weight_def tot same snap(1) by (rule refl)
  with r1 r2 show ?thesis by blast
qed

theorem late_reply_double_weight_witness:
  "\<exists>s1 s2. reconcile_lock True 1 DecidedExecuted ex_pending = Some (Inr (), s1)
     \<and> stake_reply (turn_of [7] ex_op) LockConfirmed s1 = Some (Inr 1, s2)
     \<and> get_total_voting_weight s2 = weight_all s2 + 100000000000"
proof -
  have w: "\<not> sw_raced ex_world2" "\<not> sw_misjudged ex_world2" "sw_state ex_world2 = ex_pending"
    "sw_locks ex_world2 = [turn_of [7] ex_op]" "sw_answer ex_world2 = [1 \<mapsto> TokenExecuted]"
    by (simp_all add: ex_world2_def ex_world1_def ex_world0_def)
  have t: "lt_op_id (turn_of [7] ex_op) = 1" "lt_op_type (turn_of [7] ex_op) = LockOp"
    "lt_position_id (turn_of [7] ex_op) = 1" "po_voting_weight (lt_position (turn_of [7] ex_op)) = 100000000000"
    by (simp_all add: turn_of_def ex_op_def stake_op_def ex_staking_fields)
  show ?thesis
    using late_reply_double_weight [OF ex_run2 _ w(1,2), of "turn_of [7] ex_op"] length_ex_sha
    unfolding w t by simp
qed

text \<open>C40: A verifier key whose activation the pool refuses is recorded as executed. The value of the reply is
  dropped, so a refusal and an acceptance lead to the same state: the record says executed, and that the key is
  scheduled for a time the pool has just refused.\<close>

theorem vk_refusal_recorded_executed:
  assumes "pr_proposal_type (xt_proposal t) = VerifierKeyUpgrade payload"
  shows "execution_reply t pool call (PoolErr e) s = execution_reply t pool call PoolOk s
     \<and> (\<exists>s' q. execution_reply t pool call (PoolErr e) s = Some (Inr ExecutionDone, s')
          \<and> fmlookup (sk_proposals s') (xt_proposal_id t) = Some q \<and> pr_status q = GovExecuted
          \<and> pr_execution_result q = Some (VkScheduledFor (vk_activation_timestamp_ns payload)))"
  using assms
  by (simp add: execution_reply_def action_reply_def dropped_reply_def continue_execution_def finish_execution_def
      put_proposal_def)

theorem vk_refusal_recorded_executed_witness:
  "\<exists>s' q. execution_reply ex_vk_turn [3] (ScheduleVkActivation 2 [] 9 10) (PoolErr ''in the past'') ex_voted
       = Some (Inr ExecutionDone, s')
     \<and> fmlookup (sk_proposals s') 1 = Some q \<and> pr_status q = GovExecuted
     \<and> pr_execution_result q = Some (VkScheduledFor 9)"
proof -
  have "pr_proposal_type (xt_proposal ex_vk_turn) = VerifierKeyUpgrade ex_payload" by (simp add: ex_vk_turn_def)
  from vk_refusal_recorded_executed [OF this] have "\<exists>s' q. execution_reply ex_vk_turn [3]
        (ScheduleVkActivation 2 [] 9 10) (PoolErr ''in the past'') ex_voted = Some (Inr ExecutionDone, s')
      \<and> fmlookup (sk_proposals s') (xt_proposal_id ex_vk_turn) = Some q \<and> pr_status q = GovExecuted
      \<and> pr_execution_result q = Some (VkScheduledFor (vk_activation_timestamp_ns ex_payload))" by blast
  then show ?thesis by (simp add: ex_vk_turn_def ex_payload_def)
qed

end
