(* ===== verification/Spec2Isabelle.thy ===== *)
theory Spec2Isabelle
  imports Fee_Governance Nullifier_Registry Merkle_Tree Token_Properties Vesting_Outcomes Payout_Properties
    Treasury_Properties Pool_Disburse_Properties Staking_Properties
begin

text \<open>
  A model of the STSH protocol canisters (\<^verbatim>\<open>src/canisters/*\<close>).

  The program. Users hold STSH on a ledger (\<^verbatim>\<open>token\<close>). They shield tokens by letting the
  \<^verbatim>\<open>shielded-pool\<close> pull a deposit with \<^verbatim>\<open>icrc2_transfer_from\<close>; the pool appends a note commitment
  to the \<^verbatim>\<open>merkle-tree\<close>, and a spend publishes nullifiers to the \<^verbatim>\<open>nullifier-registry\<close> and pays out. The
  pool charges fees computed by \<^verbatim>\<open>fee-policy\<close> under parameters its controllers may change within limits.

  Theories, in the order the components are built on each other:

  \<^item> \<open>Prelude\<close>: results with a trap and an error side, checked machine arithmetic, finite maps with totals.
  \<^item> \<open>Byte_Codec\<close>: big and little endian integers, slices, fixed-width records.
  \<^item> \<open>Fee_Policy\<close> (\<^verbatim>\<open>fee-policy/src/lib.rs\<close>): the whole crate. Previews conserve the gross amount, the reserve
    split conserves the fee, bounds and posture validators.
  \<^item> \<open>Eager_Cell\<close> (\<^verbatim>\<open>eager-cell/src/lib.rs\<close>): the raw stable-cell codecs and their sentinel contract.
  \<^item> \<open>Field_Utils\<close> (\<^verbatim>\<open>field-utils/src/lib.rs\<close>): canonical field encodings and the note leaf.
  \<^item> \<open>Fee_Governance\<close> (\<^verbatim>\<open>shielded-pool/src/lib.rs\<close>): the fee setter as a transition system with upgrades:
    every reachable parameter set is in bounds and its growth over time is limited.
  \<^item> \<open>Nullifier_Registry\<close> (\<^verbatim>\<open>nullifier-registry/src/lib.rs\<close>): no nullifier is ever accepted twice, batches are
    all or nothing, the paged download is exact.
  \<^item> \<open>Merkle_Tree\<close> (\<^verbatim>\<open>merkle-tree/src/lib.rs\<close>): the incremental tree equals the reference root of its leaves in
    every reachable state; appends are atomic; two reachable trees with one scan head and different leaves
    give an explicit collision of the permutation.
  \<^item> \<open>Token_Types\<close>, \<open>Time_Index\<close>, \<open>Token_State\<close>, \<open>Token_Transfer\<close>, \<open>Token_Steps\<close>, \<open>Token_Receipts\<close>,
    \<open>Token_Lifecycle\<close>, \<open>Token_Ledger\<close>, \<open>Token_Properties\<close> (\<^verbatim>\<open>token/src/lib.rs\<close>): keys and hashed identities; the
    time-indexed stores; the state and its write funnel; the endpoints, each as its checks followed by its
    writes; the invariant and its preservation; the receipt endpoints; genesis, audits, upgrade and
    migrations; runs with a monotone clock; and the properties: the supply is conserved over all runs,
    phase 2 never fails, timestamped calls execute at most once, allowances are bounded and spent exactly,
    deposit receipts are final, upgrades preserve the ledger and refuse bad checkpoints.

  \<^item> \<open>Icrc_Ledger\<close>: the ICRC-1 transfer call as its clients declare it, with the three ways it can come back.
  \<^item> \<open>Vesting\<close>, \<open>Vesting_Safety\<close>, \<open>Vesting_Runs\<close>, \<open>Vesting_Outcomes\<close> (\<^verbatim>\<open>vesting/src/lib.rs\<close>): schedules, claims cut
    at the ledger await, markers and tombstones; the vesting curve and installation; runs with a ledger that
    executes or drops transfers at any time; no beneficiary is paid more than has vested, every claim has
    its own ledger identity, evidence is never lost.
  \<^item> \<open>Payout_State\<close>, \<open>Payout_Runs\<close>, \<open>Payout_Steps\<close>, \<open>Payout_Invariant\<close>, \<open>Payout_Properties\<close>
    (\<^verbatim>\<open>shielded-pool/src/payout_retry.rs\<close> and its call sites in \<^verbatim>\<open>lib.rs\<close>): the payout of a private spend, one
    definition per segment between awaits; runs of concurrent payouts with lost callbacks, retries,
    reconciliation and upgrades; a request never changes once frozen, is paid once, exactly, to the recorded
    destination; one executor per spend; an unknown outcome is resolved by the controller only.

  \<^item> \<open>Segment\<close>: the monad of message segments shared by the canisters below that await.
  \<^item> \<open>Treasury\<close>, \<open>Treasury_Runs\<close>, \<open>Treasury_Invariant\<close>, \<open>Treasury_Properties\<close> (\<^verbatim>\<open>treasury/src/lib.rs\<close>):
    buckets, fee splits, timelocked withdrawals and their reservations; \<^verbatim>\<open>execute_withdrawal\<close> cut at the fee
    query and at the pool call; runs beside a pool that pays calls at any time and answers anything; the books
    always balance, payments follow approved proposals after the timelock, and, unless the pool answers a
    fresh attempt ambiguously or against what it paid, buckets never fall short and rejected proposals are
    never paid.

  \<^item> \<open>Pool_Disburse\<close>, \<open>Pool_Disburse_Runs\<close>, \<open>Pool_Disburse_Properties\<close> (\<^verbatim>\<open>shielded-pool/src/lib.rs\<close>): the
    other end of that call, \<^verbatim>\<open>treasury_disburse\<close> cut at its three awaits with its records, tombstones and
    reconciliation; runs beside a ledger that executes a submitted transfer at most once; reserves are exact
    and no proposal is paid twice, provided no disbursement is reconciled while its turn is still waiting.

  \<^item> \<open>Staking_Types\<close>, \<open>Staking\<close>, \<open>Staking_Governance\<close> (\<^verbatim>\<open>staking/src/lib.rs\<close>): positions and their locks on
    the token, cut at the token call; proposals, votes per frozen position and execution cut at the calls of
    the pool; reconciliation and upgrade.
  \<^item> \<open>Staking_Runs\<close>, \<open>Staking_Steps\<close>, \<open>Staking_Mirrors\<close>, \<open>Staking_Locks\<close>, \<open>Staking_World\<close>: runs of staking beside
    the ledger of \<open>Token_Ledger\<close>, with lock calls delivered late, lost or refused. A stake and an unstake
    open an operation, a reply and a reconciliation close one; heap mirrors equal their cells, so an upgrade,
    which loses the heap, restores the state; the token's locks are exactly what the positions claim and the total weight is their
    sum, provided no operation is reconciled while its call is still awaited or against what the token did.
  \<^item> \<open>Staking_Execution\<close>, \<open>Staking_Ballots\<close>, \<open>Staking_Properties\<close>: every proposal's action begins at most once,
    after its timelock and with its quorum; tallies are the sums of the votes cast, each for one frozen
    position; and a concrete run from the stake to the executed proposal, on which the properties are tried.

  Interfaces are locales: \<open>fee_schedule\<close>, \<open>sentinel_cell\<close>, \<open>double_spend_guard\<close>, \<open>time_indexed_store\<close>,
  \<open>write_funnel\<close>, and the writes of staking, \<open>position_writes\<close> and \<open>governance_writes\<close> (over \<open>action_writes\<close>), each interpreted on the definitions of the components that provide them.

  Conventions. A handler takes the caller, the clock and the state and returns a result: \<open>Inr\<close> with the new
  state, \<open>fail e\<close> for a returned error, \<open>Inl Trap\<close> for a panic, which rolls the message back. Machine integers are
  naturals with explicit limits; the workspace compiles with overflow checks, so plain operators trap.
  Asynchronous code is cut at its awaits: a start segment returns the call it makes together with what the
  suspended future holds, a resume segment takes the reply. Errors of a segment after an await commit the
  state reached so far, so payouts use actions that return a state with either result. A run interleaves the
  segments freely; the ledger's side of a call (what was sent, what was executed) is a ghost of the world.
  Third-party code is a parameter: the conversions of the field type with the Poseidon permutation
  (\<open>field_ops\<close>, \<open>permutation\<close>, with their documented behaviour in \<open>field_laws\<close> and \<open>permutation_laws\<close>), and
  SHA-256 (\<open>sha\<close>) and HMAC-SHA-256 (\<open>hmac\<close>), of which only the 32-byte output length is assumed. Candid codecs are modelled by the values they store.

  Bounds. No fuel is used: every loop is structural recursion on a list or an index. The vesting runs bound the
  number of claims ever issued by \<open>2 ^ 64 - 1\<close>, the width of the claim sequence number, and the staking runs
  the number of lock operations, whose counter saturates in the code.

  Not modelled: the asynchronous deposit, withdrawal and verification flows of the pool, the
  vault, upgrader, custody, vetKeys and verifier canisters, and the scripts; they are listed
  in the manifest with their reasons. Presentation endpoints (metadata, consent messages, build information,
  cycle balances) and test-only hooks carry no protocol state and are left out.
\<close>

end
